(* ===== verification/Prelude.thy ===== *)
theory Prelude
  imports Main
begin

text \<open>
  The vocabulary the component theories share.

  \<^item> \<open>go_error\<close> is the value of a non-nil Go \<open>error\<close>: a sentinel made by \<open>errors.New\<close> in a
    package, a plain \<open>errors.New\<close>/\<open>fmt.Errorf\<close> text, a \<open>protection.CommandError\<close>, or one of the
    three outcomes of an SQL statement the code tells apart (no row, a violated constraint, any
    other failure of the driver).  Fallible operations return \<open>go_error + 'a\<close>.
  \<^item> \<open>tbl_get\<close>, \<open>tbl_upd\<close>, \<open>tbl_count\<close> read and rewrite an SQL table, kept as the list of its
    rows: a primary-key lookup, an \<open>UPDATE ... WHERE\<close>, a \<open>SELECT COUNT(*) ... WHERE\<close>.
  \<^item> \<open>text_less\<close> is SQLite's BINARY collation on TEXT, byte by byte.
  \<^item> the locale \<open>transition_system\<close> turns a one-step invariant into an invariant of every
    reachable state; each component with a step relation interprets it.
\<close>

named_theorems table_simps
named_theorems inv_intros

section \<open>Errors and results\<close>

datatype pkg = PkgTasks | PkgScheduler | PkgExportlane | PkgProtection | PkgOperation
  | PkgTransfer | PkgExportfmt | PkgImportworker | PkgExportworker | PkgExportjob | PkgProfile | PkgContext

datatype go_error =
    Sentinel pkg string
  | PlainError string
  | CommandError string
  | SqlNoRows
  | SqlConstraint
  | SqlFailure

fun error_text :: "go_error \<Rightarrow> string" where
  "error_text (Sentinel _ s) = s"
| "error_text (PlainError s) = s"
| "error_text (CommandError s) = s"
| "error_text SqlNoRows = ''sql: no rows in result set''"
| "error_text SqlConstraint = ''constraint failed''"
| "error_text SqlFailure = ''sql failure''"

type_synonym 'a result = "go_error + 'a"

definition rbind :: "'a result \<Rightarrow> ('a \<Rightarrow> 'b result) \<Rightarrow> 'b result" where
  "rbind r f = (case r of Inl e \<Rightarrow> Inl e | Inr a \<Rightarrow> f a)"

lemma rbind_simps [simp]: "rbind (Inl e) f = Inl e" "rbind (Inr a) f = f a"
  by (simp_all add: rbind_def)

lemma rbind_Inr_iff: "rbind r f = Inr b \<longleftrightarrow> (\<exists>a. r = Inr a \<and> f a = Inr b)"
  by (cases r) simp_all

lemma rbind_Inl_iff: "rbind r f = Inl e \<longleftrightarrow> r = Inl e \<or> (\<exists>a. r = Inr a \<and> f a = Inl e)"
  by (cases r) simp_all

fun is_ok :: "'a result \<Rightarrow> bool" where
  "is_ok (Inl _) = False"
| "is_ok (Inr _) = True"

definition require :: "bool \<Rightarrow> go_error \<Rightarrow> unit result" where
  "require b e = (if b then Inr () else Inl e)"

lemma require_iff [simp]:
  "require b e = Inr u \<longleftrightarrow> b" "require b e = Inl e' \<longleftrightarrow> \<not> b \<and> e' = e"
  by (auto simp: require_def)

section \<open>Tables\<close>

definition tbl_get :: "('r \<Rightarrow> 'k) \<Rightarrow> 'k \<Rightarrow> 'r list \<Rightarrow> 'r option" where
  "tbl_get key k rows = List.find (\<lambda>r. key r = k) rows"

definition tbl_upd :: "('r \<Rightarrow> bool) \<Rightarrow> ('r \<Rightarrow> 'r) \<Rightarrow> 'r list \<Rightarrow> 'r list" where
  "tbl_upd p f rows = map (\<lambda>r. if p r then f r else r) rows"

definition tbl_count :: "('r \<Rightarrow> bool) \<Rightarrow> 'r list \<Rightarrow> nat" where
  "tbl_count p rows = length (filter p rows)"

definition has_key :: "('r \<Rightarrow> 'k) \<Rightarrow> 'k \<Rightarrow> 'r list \<Rightarrow> bool" where
  "has_key key k rows = list_ex (\<lambda>r. key r = k) rows"

lemma tbl_get_Nil [table_simps]: "tbl_get key k [] = None"
  by (simp add: tbl_get_def)

lemma tbl_get_Cons [table_simps]:
  "tbl_get key k (r # rows) = (if key r = k then Some r else tbl_get key k rows)"
  by (simp add: tbl_get_def)

lemma tbl_get_append [table_simps]:
  "tbl_get key k (xs @ ys) =
     (case tbl_get key k xs of None \<Rightarrow> tbl_get key k ys | Some r \<Rightarrow> Some r)"
  by (induction xs) (auto simp: table_simps)

lemma tbl_get_SomeD: "tbl_get key k rows = Some r \<Longrightarrow> r \<in> set rows \<and> key r = k"
  by (induction rows) (auto simp: table_simps split: if_splits)

lemma tbl_get_None_iff: "tbl_get key k rows = None \<longleftrightarrow> k \<notin> key ` set rows"
  by (induction rows) (auto simp: table_simps)

lemma has_key_iff: "has_key key k rows \<longleftrightarrow> tbl_get key k rows \<noteq> None"
  by (induction rows) (auto simp: has_key_def table_simps)

lemma has_key_set: "has_key key k rows \<longleftrightarrow> k \<in> key ` set rows"
  by (auto simp: has_key_def list_ex_iff)

lemma tbl_get_unique:
  "distinct (map key rows) \<Longrightarrow> r \<in> set rows \<Longrightarrow> tbl_get key (key r) rows = Some r"
  by (induction rows) (auto simp: table_simps image_iff)

lemma key_in_filter:
  "distinct (map key rows) \<Longrightarrow> tbl_get key k rows = Some r \<Longrightarrow>
     k \<in> set (map key (filter P rows)) \<longleftrightarrow> P r"
  by (induction rows) (auto simp: table_simps image_iff split: if_splits dest: tbl_get_SomeD)

lemma tbl_upd_simps [table_simps]:
  "tbl_upd p f [] = []"
  "tbl_upd p f (r # rows) = (if p r then f r else r) # tbl_upd p f rows"
  "tbl_upd p f (xs @ ys) = tbl_upd p f xs @ tbl_upd p f ys"
  by (simp_all add: tbl_upd_def)

lemma length_tbl_upd [simp]: "length (tbl_upd p f rows) = length rows"
  by (simp add: tbl_upd_def)

lemma set_tbl_upd: "set (tbl_upd p f rows) = (\<lambda>r. if p r then f r else r) ` set rows"
  by (simp add: tbl_upd_def)

lemma tbl_get_upd:
  assumes "\<And>r. p r \<Longrightarrow> key (f r) = key r"
  shows "tbl_get key k (tbl_upd p f rows) =
           map_option (\<lambda>r. if p r then f r else r) (tbl_get key k rows)"
  using assms by (induction rows) (auto simp: table_simps)

lemma map_key_upd:
  assumes "\<And>r. p r \<Longrightarrow> key (f r) = key r"
  shows "map key (tbl_upd p f rows) = map key rows"
  using assms by (induction rows) (auto simp: table_simps)

lemma has_key_upd:
  assumes "\<And>r. p r \<Longrightarrow> key (f r) = key r"
  shows "has_key key k (tbl_upd p f rows) = has_key key k rows"
  by (metis assms has_key_set list.set_map map_key_upd)

lemma tbl_upd_none: "\<forall>r\<in>set rows. \<not> p r \<Longrightarrow> tbl_upd p f rows = rows"
  by (induction rows) (auto simp: table_simps)

lemma tbl_count_simps [table_simps]:
  "tbl_count p [] = 0"
  "tbl_count p (r # rows) = (if p r then 1 else 0) + tbl_count p rows"
  "tbl_count p (xs @ ys) = tbl_count p xs + tbl_count p ys"
  by (simp_all add: tbl_count_def)

lemma tbl_count_0_iff: "tbl_count p rows = 0 \<longleftrightarrow> (\<forall>r\<in>set rows. \<not> p r)"
  by (auto simp: tbl_count_def filter_empty_conv)

lemma tbl_count_keyed:
  assumes "distinct (map key rows)" and "\<And>r. p r \<Longrightarrow> key r = k"
  shows "tbl_count p rows = (case tbl_get key k rows of None \<Rightarrow> 0 | Some r \<Rightarrow> if p r then 1 else 0)"
  using assms(1)
proof (induction rows)
  case Nil
  then show ?case by (simp add: table_simps)
next
  case (Cons r rows)
  show ?case
  proof (cases "key r = k")
    case True
    with Cons.prems have "k \<notin> key ` set rows" by auto
    then have "\<forall>x\<in>set rows. \<not> p x" using assms(2) by (auto simp: image_iff)
    then have "tbl_count p rows = 0" by (simp add: tbl_count_0_iff)
    with True show ?thesis by (simp add: table_simps)
  next
    case False
    with Cons assms(2) show ?thesis by (auto simp: table_simps)
  qed
qed

section \<open>Text comparison\<close>

fun text_less :: "string \<Rightarrow> string \<Rightarrow> bool" where
  "text_less _ [] = False"
| "text_less [] (_ # _) = True"
| "text_less (a # as) (b # bs) =
     (if (of_char a :: nat) < of_char b then True
      else if (of_char b :: nat) < of_char a then False
      else text_less as bs)"

definition text_le :: "string \<Rightarrow> string \<Rightarrow> bool" where
  "text_le a b = (\<not> text_less b a)"

lemma text_less_irrefl [simp]: "\<not> text_less a a"
  by (induction a) auto

lemma text_less_append_same [simp]: "text_less (p @ a) (p @ b) = text_less a b"
  by (induction p) auto

section \<open>Reachable states of a step relation\<close>

inductive reachable_from :: "('s \<Rightarrow> bool) \<Rightarrow> ('s \<Rightarrow> 's \<Rightarrow> bool) \<Rightarrow> 's \<Rightarrow> bool"
  for init :: "'s \<Rightarrow> bool" and step :: "'s \<Rightarrow> 's \<Rightarrow> bool" where
  reach_init: "init s \<Longrightarrow> reachable_from init step s"
| reach_step: "reachable_from init step s \<Longrightarrow> step s t \<Longrightarrow> reachable_from init step t"

locale transition_system =
  fixes init :: "'s \<Rightarrow> bool"
    and step :: "'s \<Rightarrow> 's \<Rightarrow> bool"
    and inv :: "'s \<Rightarrow> bool"
  assumes init_inv: "init s \<Longrightarrow> inv s"
    and step_inv: "inv s \<Longrightarrow> step s t \<Longrightarrow> inv t"
begin

lemma reachable_inv: "reachable_from init step s \<Longrightarrow> inv s"
  by (induction rule: reachable_from.induct) (auto intro: init_inv step_inv)

lemma steps_inv: "step\<^sup>*\<^sup>* s t \<Longrightarrow> inv s \<Longrightarrow> inv t"
  by (induction rule: rtranclp_induct) (auto intro: step_inv)

lemma reachable_steps: "step\<^sup>*\<^sup>* s t \<Longrightarrow> reachable_from init step s \<Longrightarrow> reachable_from init step t"
  by (induction rule: rtranclp_induct) (auto intro: reach_step)

end

end
