(* ===== verification/Decimal.thy ===== *)
theory Decimal
  imports Prelude
begin

text \<open>
  Exact decimal numbers as text.  Revisions, event sequence numbers, offsets and batch limits are
  decimal strings of unbounded size in the program (\<open>math/big\<close>), so that they survive SQLite's
  INTEGER, Go's \<open>int64\<close> and JavaScript's \<open>number\<close>.  \<open>dec\<close> and \<open>big_set_string\<close> are
  \<open>big.Int.String\<close> and \<open>big.Int.SetString(_, 10)\<close>; \<open>canonical_decimal\<close>,
  \<open>increment_decimal\<close> and \<open>decimal_order\<close> are what the packages tasks, operation,
  protection and transfer build on them.  The lemmas give the round trip, the successor and the
  agreement of the SQL order on canonical text with the order of the numbers.
\<close>

section \<open>Digits\<close>

definition digit :: "nat \<Rightarrow> char" where
  "digit d = char_of (48 + d)"

definition is_digit :: "char \<Rightarrow> bool" where
  "is_digit c = (48 \<le> (of_char c :: nat) \<and> (of_char c :: nat) \<le> 57)"

definition digit_val :: "char \<Rightarrow> nat" where
  "digit_val c = of_char c - 48"

fun dec :: "nat \<Rightarrow> string" where
  "dec n = (if n < 10 then [digit n] else dec (n div 10) @ [digit (n mod 10)])"

declare dec.simps [simp del]

definition dec_val :: "string \<Rightarrow> nat" where
  "dec_val s = foldl (\<lambda>a c. 10 * a + digit_val c) 0 s"

lemma of_char_digit: "d < 10 \<Longrightarrow> (of_char (digit d) :: nat) = 48 + d"
  by (simp add: digit_def)

lemma digit_props [simp]:
  "d < 10 \<Longrightarrow> is_digit (digit d)" "d < 10 \<Longrightarrow> digit_val (digit d) = d"
  by (simp_all add: is_digit_def digit_val_def of_char_digit)

lemma digit_val_less: "is_digit c \<Longrightarrow> digit_val c < 10"
  by (auto simp: is_digit_def digit_val_def)

lemma dec_small: "n < 10 \<Longrightarrow> dec n = [digit n]"
  by (subst dec.simps) simp

lemma dec_step: "10 \<le> n \<Longrightarrow> dec n = dec (n div 10) @ [digit (n mod 10)]"
  by (subst dec.simps) simp

lemma dec_nonempty [simp]: "dec n \<noteq> []"
  by (subst dec.simps) simp

lemma dec_digits: "list_all is_digit (dec n)"
proof (induction n rule: dec.induct)
  case (1 n)
  then show ?case by (cases "n < 10") (simp_all add: dec_small dec_step)
qed

lemma dec_val_append: "dec_val (s @ [c]) = 10 * dec_val s + digit_val c"
  by (simp add: dec_val_def)

lemma dec_val_dec [simp]: "dec_val (dec n) = n"
proof (induction n rule: dec.induct)
  case (1 n)
  show ?case
  proof (cases "n < 10")
    case True
    then show ?thesis by (simp add: dec_small dec_val_def)
  next
    case False
    with 1 show ?thesis by (simp add: dec_step dec_val_append)
  qed
qed

lemma dec_inj: "dec m = dec n \<longleftrightarrow> m = n"
  by (metis dec_val_dec)

lemma dec_hd_zero: "hd (dec n) = digit 0 \<longleftrightarrow> n = 0"
proof (induction n rule: dec.induct)
  case (1 n)
  show ?case
  proof (cases "n < 10")
    case True
    have "digit n = digit 0 \<longleftrightarrow> n = 0"
      using True of_char_digit [of n] of_char_digit [of 0] by auto
    with True show ?thesis by (simp add: dec_small)
  next
    case False
    with 1 show ?thesis by (simp add: dec_step hd_append)
  qed
qed

lemma length_dec_mono: "m \<le> n \<Longrightarrow> length (dec m) \<le> length (dec n)"
proof (induction n arbitrary: m rule: dec.induct)
  case (1 n)
  show ?case
  proof (cases "n < 10")
    case True
    with 1 show ?thesis by (simp add: dec_small)
  next
    case False
    show ?thesis
    proof (cases "m < 10")
      case True
      with False show ?thesis by (simp add: dec_small dec_step [of n])
    next
      case m: False
      have "m div 10 \<le> n div 10" using 1(2) by (rule div_le_mono)
      with 1(1) False have "length (dec (m div 10)) \<le> length (dec (n div 10))" by simp
      with m False show ?thesis by (simp add: dec_step [of m] dec_step [of n])
    qed
  qed
qed

lemma text_less_snoc:
  assumes "length as = length bs"
  shows "text_less (as @ [a]) (bs @ [b]) \<longleftrightarrow>
           text_less as bs \<or> as = bs \<and> (of_char a :: nat) < of_char b"
  using assms by (induction as bs rule: list_induct2) auto

lemma less_by_last_digit:
  "m < n \<longleftrightarrow> m div 10 < n div 10 \<or> m div 10 = n div 10 \<and> m mod 10 < (n::nat) mod 10"
proof -
  have "m = 10 * (m div 10) + m mod 10" "n = 10 * (n div 10) + n mod 10"
    "m mod 10 < 10" "n mod 10 < 10"
    by simp_all
  then show ?thesis by linarith
qed

lemma text_less_dec_same_length:
  "length (dec m) = length (dec n) \<Longrightarrow> text_less (dec m) (dec n) \<longleftrightarrow> m < n"
proof (induction n arbitrary: m rule: dec.induct)
  case (1 n)
  have len1: "length (dec k) = 1 \<longleftrightarrow> k < 10" for k
    by (cases "k < 10") (simp_all add: dec_small dec_step)
  show ?case
  proof (cases "n < 10")
    case True
    then have "m < 10" using 1(2) len1 by metis
    with True show ?thesis by (simp add: dec_small of_char_digit)
  next
    case False
    then have m: "\<not> m < 10" using 1(2) len1 by metis
    have len: "length (dec (m div 10)) = length (dec (n div 10))"
      using 1(2) m False by (simp add: dec_step [of m] dec_step [of n])
    have IH: "text_less (dec (m div 10)) (dec (n div 10)) \<longleftrightarrow> m div 10 < n div 10"
      using 1(1) [OF False len] .
    have dm: "dec m = dec (m div 10) @ [digit (m mod 10)]"
      and dn: "dec n = dec (n div 10) @ [digit (n mod 10)]"
      using m False by (simp_all add: dec_step)
    have "text_less (dec m) (dec n) \<longleftrightarrow>
            m div 10 < n div 10 \<or> m div 10 = n div 10 \<and> m mod 10 < n mod 10"
      unfolding dm dn text_less_snoc [OF len] IH dec_inj by (simp add: of_char_digit)
    also have "\<dots> \<longleftrightarrow> m < n" by (rule less_by_last_digit [symmetric])
    finally show ?thesis .
  qed
qed

section \<open>math/big\<close>

definition big_string :: "int \<Rightarrow> string" where
  "big_string n = (if n < 0 then CHR ''-'' # dec (nat (- n)) else dec (nat n))"

text \<open>\<open>SetString(s, 10)\<close>: an optional sign, then one or more decimal digits, and nothing else.\<close>

definition parse_digits :: "string \<Rightarrow> int option" where
  "parse_digits s = (if s \<noteq> [] \<and> list_all is_digit s then Some (int (dec_val s)) else None)"

fun big_set_string :: "string \<Rightarrow> int option" where
  "big_set_string [] = None"
| "big_set_string (c # cs) =
     (if c = CHR ''-'' then map_option uminus (parse_digits cs)
      else if c = CHR ''+'' then parse_digits cs
      else parse_digits (c # cs))"

definition canonical_big :: "string \<Rightarrow> string option" where
  "canonical_big value =
     (if value = [] \<or> hd value = CHR ''+'' \<or> (length value > 1 \<and> hd value = CHR ''0'') then None
      else case big_set_string value of
        None \<Rightarrow> None
      | Some n \<Rightarrow> if n < 0 then None else Some (big_string n))"

definition decimal_succ :: "string \<Rightarrow> string" where
  "decimal_succ value = big_string (the (big_set_string value) + 1)"

definition decimal_order :: "string \<Rightarrow> string \<Rightarrow> int" where
  "decimal_order left right =
     (let l = the (big_set_string left); r = the (big_set_string right) in
      if l < r then -1 else if l = r then 0 else 1)"

lemma digit_zero: "digit 0 = CHR ''0''"
  by (simp add: digit_def char_of_eq_iff)

lemma dec_hd_not_sign [simp]: "hd (dec n) \<noteq> CHR ''-''" "hd (dec n) \<noteq> CHR ''+''"
proof -
  have "is_digit (hd (dec n))"
    using dec_digits [of n] by (cases "dec n") simp_all
  then show "hd (dec n) \<noteq> CHR ''-''" "hd (dec n) \<noteq> CHR ''+''"
    by (auto simp: is_digit_def)
qed

lemma big_set_string_dec [simp]: "big_set_string (dec n) = Some (int n)"
proof (cases "dec n")
  case Nil
  then show ?thesis by simp
next
  case (Cons c cs)
  moreover have "c \<noteq> CHR ''-''" "c \<noteq> CHR ''+''"
    using dec_hd_not_sign [of n] Cons by simp_all
  moreover have "parse_digits (dec n) = Some (int n)"
    by (simp add: parse_digits_def dec_digits)
  ultimately show ?thesis by simp
qed

lemma canonical_big_dec [simp]: "canonical_big (dec n) = Some (dec n)"
proof -
  have "\<not> (length (dec n) > 1 \<and> hd (dec n) = CHR ''0'')"
    using dec_hd_zero [of n] by (auto simp: digit_zero dec_small)
  then show ?thesis by (auto simp: canonical_big_def big_string_def)
qed

lemma canonical_bigE:
  assumes "canonical_big v = Some w"
  obtains n where "w = dec n" "big_set_string v = Some (int n)"
proof -
  from assms obtain n where "big_set_string v = Some n" "0 \<le> n" "w = big_string n"
    by (auto simp: canonical_big_def split: if_splits option.splits)
  then show ?thesis using that [of "nat n"] by (simp add: big_string_def)
qed

lemma canonical_big_idem: "canonical_big v = Some w \<Longrightarrow> canonical_big w = Some w"
  by (auto elim: canonical_bigE)

lemma canonical_big_fixed_iff: "canonical_big v = Some v \<longleftrightarrow> (\<exists>n. v = dec n)"
  by (auto elim: canonical_bigE)

lemma decimal_succ_dec [simp]: "decimal_succ (dec n) = dec (Suc n)"
  by (simp add: decimal_succ_def big_string_def nat_add_distrib)

lemma decimal_order_dec [simp]:
  "decimal_order (dec m) (dec n) = (if m < n then -1 else if m = n then 0 else 1)"
  by (simp add: decimal_order_def)

lemma digit_literals [simp]:
  "digit 0 = CHR ''0''" "digit (Suc 0) = CHR ''1''" "digit 2 = CHR ''2''" "digit 3 = CHR ''3''"
  "digit 4 = CHR ''4''" "digit 5 = CHR ''5''" "digit 6 = CHR ''6''" "digit 7 = CHR ''7''"
  "digit 8 = CHR ''8''" "digit 9 = CHR ''9''"
  by (simp_all add: digit_def char_of_eq_iff)

lemma dec_literals: "dec 0 = ''0''" "dec (Suc 0) = ''1''"
  by (simp_all add: dec_small)

section \<open>The SQL order on sequence numbers\<close>

text \<open>\<open>length(a)>length(b) OR (length(a)=length(b) AND a>b)\<close>\<close>

definition sql_seq_greater :: "string \<Rightarrow> string \<Rightarrow> bool" where
  "sql_seq_greater a b = (length a > length b \<or> length a = length b \<and> text_less b a)"

lemma sql_seq_greater_dec: "sql_seq_greater (dec m) (dec n) \<longleftrightarrow> m > n"
proof (cases "length (dec m) = length (dec n)")
  case True
  then show ?thesis by (simp add: sql_seq_greater_def text_less_dec_same_length)
next
  case False
  then show ?thesis
    using length_dec_mono [of m n] length_dec_mono [of n m]
    by (cases "m \<le> n") (auto simp: sql_seq_greater_def)
qed

end
