(* ===== verification/Store.thy ===== *)
theory Store
  imports Prelude
begin

text \<open>
  The durable store (\<open>internal/store\<close>): the SQLite tables as lists of rows, statements inside
  a transaction as state transformers that may fail, and \<open>WithImmediate\<close>.

  A row type has the columns of its table after migration 14 (nullable columns are options,
  0/1 columns are booleans).  Timestamp columns hold the instant in nanoseconds; the program
  writes them with \<open>Format(RFC3339Nano)\<close> and reads them back with \<open>Parse\<close>, which are
  inverse to each other.  Where SQL compares the stored text, the theory \<open>Time_Text\<close> gives it.
  An INSERT checks the PRIMARY KEY and UNIQUE constraints and the foreign keys of its table.  A
  statement that the driver fails for any other reason aborts the transaction; \<open>with_immediate\<close>
  has a flag for that, since whichever statement it is, the caller sees an error and the
  database is rolled back.
\<close>

type_synonym time = int

section \<open>Transactions\<close>

type_synonym ('s, 'a) tx = "'s \<Rightarrow> go_error + 'a \<times> 's"

definition tx_return :: "'a \<Rightarrow> ('s, 'a) tx" where
  "tx_return a s = Inr (a, s)"

definition tx_fail :: "go_error \<Rightarrow> ('s, 'a) tx" where
  "tx_fail e s = Inl e"

definition tx_bind :: "('s, 'a) tx \<Rightarrow> ('a \<Rightarrow> ('s, 'b) tx) \<Rightarrow> ('s, 'b) tx" where
  "tx_bind m f s = (case m s of Inl e \<Rightarrow> Inl e | Inr (a, s') \<Rightarrow> f a s')"

definition tx_lift :: "'a result \<Rightarrow> ('s, 'a) tx" where
  "tx_lift r s = (case r of Inl e \<Rightarrow> Inl e | Inr a \<Rightarrow> Inr (a, s))"

definition tx_require :: "bool \<Rightarrow> go_error \<Rightarrow> ('s, unit) tx" where
  "tx_require b e s = (if b then Inr ((), s) else Inl e)"

definition tx_get :: "('s \<Rightarrow> 'a) \<Rightarrow> ('s, 'a) tx" where
  "tx_get f s = Inr (f s, s)"

text \<open>\<open>QueryRow(...).Scan\<close>: the first matching row, or \<open>sql.ErrNoRows\<close>.\<close>

definition tx_query_row :: "('s \<Rightarrow> 'r list) \<Rightarrow> ('r \<Rightarrow> bool) \<Rightarrow> ('s, 'r) tx" where
  "tx_query_row tbl p s = (case List.find p (tbl s) of None \<Rightarrow> Inl SqlNoRows | Some r \<Rightarrow> Inr (r, s))"

text \<open>\<open>INSERT\<close>: \<open>ok\<close> is the conjunction of the table's constraints on the new row.\<close>

definition tx_insert ::
  "('s \<Rightarrow> 'r list) \<Rightarrow> (('r list \<Rightarrow> 'r list) \<Rightarrow> 's \<Rightarrow> 's) \<Rightarrow> ('s \<Rightarrow> bool) \<Rightarrow> 'r \<Rightarrow> ('s, unit) tx" where
  "tx_insert tbl upd ok r s =
     (if ok s then Inr ((), upd (\<lambda>_. tbl s @ [r]) s) else Inl SqlConstraint)"

text \<open>\<open>UPDATE ... WHERE p\<close>: the number of rows affected is the result.\<close>

definition tx_update ::
  "('s \<Rightarrow> 'r list) \<Rightarrow> (('r list \<Rightarrow> 'r list) \<Rightarrow> 's \<Rightarrow> 's) \<Rightarrow> ('r \<Rightarrow> bool) \<Rightarrow> ('r \<Rightarrow> 'r) \<Rightarrow> ('s, nat) tx" where
  "tx_update tbl upd p f s = Inr (tbl_count p (tbl s), upd (\<lambda>_. tbl_upd p f (tbl s)) s)"

definition tx_delete ::
  "('s \<Rightarrow> 'r list) \<Rightarrow> (('r list \<Rightarrow> 'r list) \<Rightarrow> 's \<Rightarrow> 's) \<Rightarrow> ('r \<Rightarrow> bool) \<Rightarrow> ('s, nat) tx" where
  "tx_delete tbl upd p s = Inr (tbl_count p (tbl s), upd (\<lambda>_. filter (\<lambda>r. \<not> p r) (tbl s)) s)"

text \<open>
  \<open>Store.WithImmediate\<close>: \<open>BEGIN IMMEDIATE\<close>, the closure, \<open>COMMIT\<close>; any error rolls back.
  \<open>io\<close> is false when the driver fails to begin, to run a statement, or to commit.
\<close>

definition with_immediate :: "bool \<Rightarrow> ('s, 'a) tx \<Rightarrow> 's \<Rightarrow> (go_error + 'a) \<times> 's" where
  "with_immediate io fn s =
     (if \<not> io then (Inl SqlFailure, s)
      else case fn s of Inl e \<Rightarrow> (Inl e, s) | Inr (a, s') \<Rightarrow> (Inr a, s'))"

text \<open>Reasoning about a committed or a failed transaction, one statement at a time.\<close>

named_theorems tx_simps

lemma tx_simps_run [tx_simps]:
  "tx_return a s = Inr (a, s)"
  "tx_fail e s = Inl e"
  "tx_get f s = Inr (f s, s)"
  "tx_lift (Inl e) s = Inl e"
  "tx_lift (Inr a) s = Inr (a, s)"
  "tx_update tbl upd p g s = Inr (tbl_count p (tbl s), upd (\<lambda>_. tbl_upd p g (tbl s)) s)"
  "tx_delete tbl upd p s = Inr (tbl_count p (tbl s), upd (\<lambda>_. filter (\<lambda>r. \<not> p r) (tbl s)) s)"
  by (simp_all add: tx_return_def tx_fail_def tx_get_def tx_lift_def tx_update_def tx_delete_def)

lemma tx_bind_Inr [tx_simps]:
  "tx_bind m f s = Inr r \<longleftrightarrow> (\<exists>a s'. m s = Inr (a, s') \<and> f a s' = Inr r)"
  by (auto simp: tx_bind_def split: sum.splits)

lemma tx_bind_run:
  "m s = Inr (a, s') \<Longrightarrow> tx_bind m f s = f a s'"
  "m s = Inl e \<Longrightarrow> tx_bind m f s = Inl e"
  by (simp_all add: tx_bind_def)

lemma tx_require_Inr [tx_simps]: "tx_require b e s = Inr (u, s') \<longleftrightarrow> b \<and> s' = s"
  by (auto simp: tx_require_def)

lemma tx_lift_Inr [tx_simps]: "tx_lift r s = Inr (a, s') \<longleftrightarrow> r = Inr a \<and> s' = s"
  by (auto simp: tx_lift_def split: sum.splits)

lemma tx_insert_Inr [tx_simps]:
  "tx_insert tbl upd ok r s = Inr (u, s') \<longleftrightarrow> ok s \<and> s' = upd (\<lambda>_. tbl s @ [r]) s"
  by (auto simp: tx_insert_def)

lemma tx_query_row_Inr [tx_simps]:
  "tx_query_row tbl p s = Inr (r, s') \<longleftrightarrow> List.find p (tbl s) = Some r \<and> s' = s"
  by (auto simp: tx_query_row_def split: option.splits)

lemma with_immediate_cases:
  obtains (committed) a s' where "io" "fn s = Inr (a, s')" "with_immediate io fn s = (Inr a, s')"
  | (rolled_back) e where "with_immediate io fn s = (Inl e, s)"
  by (cases io; cases "fn s") (auto simp: with_immediate_def)

lemma with_immediate_error [dest]: "with_immediate io fn s = (Inl e, s') \<Longrightarrow> s' = s"
  by (auto simp: with_immediate_def split: if_splits sum.splits)

lemma with_immediate_Inr:
  "with_immediate io fn s = (Inr a, s') \<longleftrightarrow> io \<and> fn s = Inr (a, s')"
  by (auto simp: with_immediate_def split: sum.splits)

text \<open>
  \<open>tx_keeps I m\<close>: the transaction step \<open>m\<close> preserves \<open>I\<close> when it succeeds.  The rules below
  push an invariant through a whole transaction.
\<close>

definition tx_keeps :: "('s \<Rightarrow> bool) \<Rightarrow> ('s, 'a) tx \<Rightarrow> bool" where
  "tx_keeps I m = (\<forall>s a s'. I s \<longrightarrow> m s = Inr (a, s') \<longrightarrow> I s')"

lemma tx_keepsI: "(\<And>s a s'. I s \<Longrightarrow> m s = Inr (a, s') \<Longrightarrow> I s') \<Longrightarrow> tx_keeps I m"
  by (auto simp: tx_keeps_def)

lemma tx_keepsD: "tx_keeps I m \<Longrightarrow> m s = Inr (a, s') \<Longrightarrow> I s \<Longrightarrow> I s'"
  by (auto simp: tx_keeps_def)

lemma tx_keeps_bind [inv_intros]:
  "tx_keeps I m \<Longrightarrow> (\<And>a. tx_keeps I (f a)) \<Longrightarrow> tx_keeps I (tx_bind m f)"
  unfolding tx_keeps_def tx_bind_Inr by blast

lemma tx_keeps_atomic [inv_intros]:
  "tx_keeps I (tx_return a)" "tx_keeps I (tx_fail e)" "tx_keeps I (tx_lift r)"
  "tx_keeps I (tx_require b e)" "tx_keeps I (tx_get g)" "tx_keeps I (tx_query_row tbl p)"
  by (auto simp: tx_keeps_def tx_simps)

lemma tx_keeps_if [inv_intros]:
  "(b \<Longrightarrow> tx_keeps I m) \<Longrightarrow> (\<not> b \<Longrightarrow> tx_keeps I n) \<Longrightarrow> tx_keeps I (if b then m else n)"
  by simp

lemma tx_keeps_case_option [inv_intros]:
  "tx_keeps I m \<Longrightarrow> (\<And>x. tx_keeps I (f x)) \<Longrightarrow> tx_keeps I (case x of None \<Rightarrow> m | Some y \<Rightarrow> f y)"
  by (cases x) simp_all

lemma tx_keeps_with_immediate:
  "tx_keeps I fn \<Longrightarrow> I s \<Longrightarrow> I (snd (with_immediate io fn s))"
  by (cases rule: with_immediate_cases [of io fn s]) (auto dest: tx_keepsD)

section \<open>Write-once ledgers\<close>

text \<open>
  The interface of the idempotency and command ledgers: entries are found by scope, an entry is
  inserted at most once per scope, and nothing that was recorded is ever overwritten.  The three
  ledgers of the program interpret it.
\<close>

locale write_once_ledger =
  fixes find_entry :: "'k \<Rightarrow> 's \<Rightarrow> 'e option"
    and scope_of :: "'e \<Rightarrow> 'k"
    and put_entry :: "'e \<Rightarrow> ('s, unit) tx"
  assumes put_fresh: "put_entry e s = Inr (u, s') \<Longrightarrow> find_entry (scope_of e) s = None"
    and put_get: "put_entry e s = Inr (u, s') \<Longrightarrow>
      find_entry k s' = (if k = scope_of e then Some e else find_entry k s)"
    and put_total: "find_entry (scope_of e) s = None \<Longrightarrow> \<exists>s'. put_entry e s = Inr ((), s')"
begin

lemma put_found: "put_entry e s = Inr (u, s') \<Longrightarrow> find_entry (scope_of e) s' = Some e"
  by (simp add: put_get)

lemma put_stable:
  "find_entry k s = Some e0 \<Longrightarrow> put_entry e s = Inr (u, s') \<Longrightarrow> find_entry k s' = Some e0"
  using put_fresh put_get by fastforce

lemma put_twice_fails:
  "put_entry e s = Inr (u, s') \<Longrightarrow> scope_of e' = scope_of e \<Longrightarrow> \<not> is_ok (put_entry e' s')"
  using put_fresh put_found by (cases "put_entry e' s'") fastforce+

lemma puts_stable:
  "(\<lambda>s s'. \<exists>e. put_entry e s = Inr ((), s'))\<^sup>*\<^sup>* s s' \<Longrightarrow> find_entry k s = Some e0 \<Longrightarrow>
     find_entry k s' = Some e0"
  by (induction rule: rtranclp_induct) (auto dest: put_stable)

end

section \<open>Rows\<close>

text \<open>\<open>tasks\<close>, the row of \<open>tasks.Meta\<close>.\<close>

record meta =
  t_id :: string
  t_kind :: string
  t_state :: string
  t_terminal :: bool
  t_snapshot_revision :: string
  t_state_revision :: string
  t_last_event_seq :: string
  t_created_at :: time
  t_updated_at :: time
  t_terminal_at :: "time option"
  t_public_error_code :: "string option"
  t_public_safe_message :: "string option"
  t_archived :: bool
  t_result_available :: bool

record task_event =
  ev_schema_version :: int
  ev_seq :: string
  ev_kind :: string
  ev_id :: string
  ev_resource_revision :: string
  ev_state :: string
  ev_change_type :: string
  ev_occurred_at :: time

record idempotency_entry =
  ie_scope :: string
  ie_request_digest :: string
  ie_resource_kind :: string
  ie_resource_id :: string
  ie_created_at :: time
  ie_expires_at :: time

record command_entry =
  ce_scope :: string
  ce_request_digest :: string
  ce_resource_kind :: string
  ce_resource_id :: string
  ce_result_state :: string
  ce_result_state_revision :: string
  ce_public_error_code :: "string option"
  ce_committed_at :: time
  ce_expires_at :: time

record query_session_row =
  qs_id :: string
  qs_profile_id :: "string option"
  qs_profile_revision :: "string option"
  qs_connection_id :: "string option"
  qs_connection_generation :: "string option"
  qs_state :: string
  qs_terminal :: bool
  qs_snapshot_revision :: string
  qs_state_revision :: string
  qs_last_event_seq :: string
  qs_statement_count :: "string option"
  qs_series_count :: "string option"
  qs_row_count :: "string option"
  qs_has_statement_errors :: bool
  qs_complete :: bool
  qs_result_available :: bool
  qs_closed :: bool
  qs_archived :: bool
  qs_created_at :: time
  qs_updated_at :: time
  qs_terminal_at :: "time option"

record operation_row =
  o_id :: string
  o_profile_id :: string
  o_profile_revision :: string
  o_connection_id :: string
  o_connection_generation :: string
  o_protection_revision :: string
  o_action_digest :: string
  o_operation_kind :: string
  o_state :: string
  o_dispatch_attempted :: bool
  o_cancel_requested :: bool
  o_created_at :: time
  o_updated_at :: time

record audit_event =
  au_category :: string
  au_action :: string
  au_target_id :: string
  au_target_digest :: string
  au_outcome :: string
  au_correlation_id :: string
  au_occurred_at :: time

record protection_row =
  p_connection_id :: string
  p_generation :: string
  p_profile_id :: string
  p_profile_revision :: string
  p_revision :: string
  p_mode :: string
  p_closed_at :: "time option"
  p_purge_after :: "time option"
  p_updated_at :: time

record protection_ledger_row =
  pl_scope :: string
  pl_connection_id :: string
  pl_generation :: string
  pl_kind :: string
  pl_request_id :: string
  pl_digest :: string
  pl_result_code :: string
  pl_applied_revision :: "string option"
  pl_committed_at :: time

record protection_event =
  pe_connection_id :: string
  pe_generation :: string
  pe_revision :: string
  pe_mode :: string
  pe_change_type :: string
  pe_occurred_at :: time

record transfer_job_row =
  tj_job_id :: string
  tj_profile_id :: string
  tj_kind :: string
  tj_state :: string
  tj_retained :: bool
  tj_created_at :: time
  tj_updated_at :: time

record reservation_row =
  rv_id :: string
  rv_job_id :: string
  rv_scope_kind :: string
  rv_scope_id :: string
  rv_reserved_bytes :: string
  rv_consumed_bytes :: string
  rv_created_at :: time
  rv_updated_at :: time

record import_job_row =
  ij_job_id :: string
  ij_state :: string
  ij_state_revision :: string
  ij_snapshot_revision :: string
  ij_checkpoint_digest :: string
  ij_active_run_segment_id :: "string option"
  ij_pause_requested :: bool
  ij_updated_at :: time

record checkpoint =
  cp_sequence :: string
  cp_parent_digest :: string
  cp_logical_offset :: string
  cp_last_settled_batch_id :: string
  cp_last_disposition :: string
  cp_adaptive_max_points :: string
  cp_adaptive_max_bytes :: string
  cp_source_sha256 :: string
  cp_staging_sha256 :: string
  cp_normalization_version :: string
  cp_spec_digest :: string
  cp_target_digest :: string
  cp_lossy :: bool

record checkpoint_row =
  ck_job_id :: string
  ck_digest :: string
  ck_checkpoint :: checkpoint
  ck_created_at :: time

record transition_row =
  tr_job_id :: string
  tr_sequence :: string
  tr_owner_run_segment_id :: string
  tr_cause :: string
  tr_parent_digest :: string
  tr_child_digest :: string
  tr_batch_id :: string
  tr_attempt_id :: string
  tr_incident_id :: string
  tr_command_request_id :: string
  tr_committed_at :: time

record segment_row =
  sg_id :: string
  sg_job_id :: string
  sg_kind :: string
  sg_state :: string
  sg_initial_digest :: string
  sg_committed_digest :: string
  sg_active_attempt_id :: "string option"
  sg_stop_reason :: "string option"
  sg_after_resolution :: "string option"
  sg_resolution_command_id :: "string option"
  sg_created_at :: time
  sg_updated_at :: time

record attempt_row =
  at_id :: string
  at_job_id :: string
  at_batch_id :: string
  at_run_segment_id :: string
  at_state :: string
  at_parent_digest :: string
  at_new_digest :: "string option"
  at_start_offset :: string
  at_end_offset :: string
  at_payload_digest :: string
  at_created_at :: time
  at_updated_at :: time

record incident_row =
  in_id :: string
  in_job_id :: string
  in_kind :: string
  in_status :: string
  in_parent_digest :: string
  in_run_segment_id :: string
  in_batch_id :: string
  in_attempt_id :: string
  in_start_offset :: string
  in_end_offset :: string
  in_payload_digest :: string
  in_resolution :: "string option"
  in_resolved_at :: "time option"
  in_resolution_command_id :: "string option"
  in_created_at :: time

record db =
  tasks_t :: "meta list"
  task_events_t :: "task_event list"
  event_head :: string
  idempotency_t :: "idempotency_entry list"
  command_t :: "command_entry list"
  query_sessions_t :: "query_session_row list"
  operations_t :: "operation_row list"
  audit_t :: "audit_event list"
  protection_t :: "protection_row list"
  protection_ledger_t :: "protection_ledger_row list"
  protection_events_t :: "protection_event list"
  generation_counters_t :: "(string \<times> string) list"
  transfer_jobs_t :: "transfer_job_row list"
  reservations_t :: "reservation_row list"
  import_jobs_t :: "import_job_row list"
  checkpoints_t :: "checkpoint_row list"
  transitions_t :: "transition_row list"
  segments_t :: "segment_row list"
  attempts_t :: "attempt_row list"
  incidents_t :: "incident_row list"

text \<open>The database right after the migrations: no rows, and the event head at \<open>0\<close>.\<close>

definition empty_db :: db where
  "empty_db = \<lparr>tasks_t = [], task_events_t = [], event_head = ''0'', idempotency_t = [],
     command_t = [], query_sessions_t = [], operations_t = [], audit_t = [], protection_t = [],
     protection_ledger_t = [], protection_events_t = [], generation_counters_t = [],
     transfer_jobs_t = [], reservations_t = [], import_jobs_t = [], checkpoints_t = [],
     transitions_t = [], segments_t = [], attempts_t = [], incidents_t = []\<rparr>"

section \<open>Migrations\<close>

text \<open>
  \<open>Store.migrate\<close> over an abstract schema state: \<open>apply v\<close> runs the SQL of migration \<open>v\<close>.  The
  state holds the versions recorded in \<open>schema_migrations\<close> with the schema they produced.
\<close>

definition migrations :: "nat list" where
  "migrations = [1, 2, 3, 4, 5, 6, 7, 8, 9, 10, 11, 12, 13, 14]"

definition apply_migration :: "(nat \<Rightarrow> 'd \<Rightarrow> go_error + 'd) \<Rightarrow> nat \<Rightarrow> (nat list \<times> 'd, unit) tx" where
  "apply_migration apply_sql v =
     (\<lambda>(done, d). case apply_sql v d of Inl e \<Rightarrow> Inl e
        | Inr d' \<Rightarrow> if v \<in> set done then Inl SqlConstraint else Inr ((), (done @ [v], d')))"

fun migrate :: "(nat \<Rightarrow> 'd \<Rightarrow> go_error + 'd) \<Rightarrow> (nat \<Rightarrow> bool) \<Rightarrow> nat list \<Rightarrow> nat list \<times> 'd
    \<Rightarrow> (go_error + unit) \<times> (nat list \<times> 'd)" where
  "migrate apply_sql io [] s = (Inr (), s)"
| "migrate apply_sql io (v # vs) s =
     (if v \<in> set (fst s) then migrate apply_sql io vs s
      else case with_immediate (io v) (apply_migration apply_sql v) s of
        (Inl e, s') \<Rightarrow> (Inl e, s')
      | (Inr _, s') \<Rightarrow> migrate apply_sql io vs s')"

lemma migrate_error_prefix:
  "migrate apply_sql io vs s = (r, s') \<Longrightarrow> distinct (fst s) \<Longrightarrow>
     distinct (fst s') \<and> (\<exists>ws. fst s' = fst s @ ws \<and> set ws \<subseteq> set vs)"
proof (induction vs arbitrary: s)
  case Nil
  then show ?case by simp
next
  case (Cons v vs)
  show ?case
  proof (cases "v \<in> set (fst s)")
    case True
    with Cons show ?thesis by fastforce
  next
    case False
    show ?thesis
    proof (cases rule: with_immediate_cases [of "io v" "apply_migration apply_sql v" s])
      case (committed a s1)
      then have s1: "fst s1 = fst s @ [v]"
        by (auto simp: apply_migration_def split: sum.splits prod.splits if_splits)
      with Cons.prems False committed have "migrate apply_sql io vs s1 = (r, s')"
        and "distinct (fst s1)" by auto
      with Cons.IH s1 show ?thesis by fastforce
    next
      case (rolled_back e)
      with Cons.prems False show ?thesis by auto
    qed
  qed
qed

lemma migrate_done:
  "set vs \<subseteq> set (fst s) \<Longrightarrow> migrate apply_sql io vs s = (Inr (), s)"
  by (induction vs) auto

lemma migrate_ok_covers:
  "migrate apply_sql io vs s = (Inr (), s') \<Longrightarrow> set (fst s) \<union> set vs \<subseteq> set (fst s')"
proof (induction vs arbitrary: s)
  case Nil
  then show ?case by simp
next
  case (Cons v vs)
  show ?case
  proof (cases "v \<in> set (fst s)")
    case True
    with Cons show ?thesis by fastforce
  next
    case False
    show ?thesis
    proof (cases rule: with_immediate_cases [of "io v" "apply_migration apply_sql v" s])
      case (committed a s1)
      then have s1: "fst s1 = fst s @ [v]"
        by (auto simp: apply_migration_def split: sum.splits prod.splits if_splits)
      with Cons.prems False committed have "migrate apply_sql io vs s1 = (Inr (), s')" by auto
      with Cons.IH s1 show ?thesis by fastforce
    next
      case (rolled_back e)
      with Cons.prems False show ?thesis by auto
    qed
  qed
qed

end
