(* ===== verification/Tasks.thy ===== *)
theory Tasks
  imports Decimal Store
begin

text \<open>
  \<open>internal/tasks\<close>: task snapshots with their two revisions, the gapless task event log, the
  idempotency and command ledgers, and the process-restart recovery.

  \<open>tasks_inv\<close> is the contract of the event log: the events are numbered 1, 2, ... up to the head,
  every task's own events carry its snapshot revisions 1, 2, ... without a gap, and the last of
  them is the row's current revision and state.  Every operation preserves it.
\<close>

abbreviation tasks_ErrNotFound :: go_error where
  "tasks_ErrNotFound \<equiv> Sentinel PkgTasks ''TASK_NOT_FOUND''"
abbreviation tasks_ErrIdempotencyConflict :: go_error where
  "tasks_ErrIdempotencyConflict \<equiv> Sentinel PkgTasks ''IDEMPOTENCY_CONFLICT''"
abbreviation tasks_ErrCommandIdempotencyConflict :: go_error where
  "tasks_ErrCommandIdempotencyConflict \<equiv> Sentinel PkgTasks ''COMMAND_IDEMPOTENCY_CONFLICT''"
abbreviation tasks_ErrRevisionConflict :: go_error where
  "tasks_ErrRevisionConflict \<equiv> Sentinel PkgTasks ''REVISION_CONFLICT''"
abbreviation tasks_ErrInvalidDecimal :: go_error where
  "tasks_ErrInvalidDecimal \<equiv> Sentinel PkgTasks ''INVALID_EXACT_NUMBER''"

section \<open>types.go\<close>

record create_request =
  cr_id :: string
  cr_kind :: string
  cr_initial_state :: string
  cr_client_scope :: string
  cr_request_digest :: string
  cr_ledger_expires_at :: "time option"
  cr_result_available :: bool

record change =
  ch_state :: string
  ch_terminal :: bool
  ch_state_changed :: bool
  ch_change_type :: string
  ch_public_error_code :: "string option"
  ch_public_safe_message :: "string option"
  ch_archived :: "bool option"
  ch_result_available :: "bool option"

text \<open>Go's zero value of \<open>Change\<close>; composite literals override some of its fields.\<close>

definition no_change :: change where
  "no_change = \<lparr>ch_state = [], ch_terminal = False, ch_state_changed = False, ch_change_type = [],
     ch_public_error_code = None, ch_public_safe_message = None, ch_archived = None,
     ch_result_available = None\<rparr>"

definition tasks_canonical_decimal :: "string \<Rightarrow> string result" where
  "tasks_canonical_decimal value =
     (case canonical_big value of None \<Rightarrow> Inl tasks_ErrInvalidDecimal | Some s \<Rightarrow> Inr s)"

definition tasks_increment_decimal :: "string \<Rightarrow> string result" where
  "tasks_increment_decimal value =
     rbind (tasks_canonical_decimal value) (\<lambda>canonical. Inr (decimal_succ canonical))"

definition contains_newline :: "string \<Rightarrow> bool" where
  "contains_newline s = list_ex (\<lambda>c. c = CHR 0x0D \<or> c = CHR 0x0A) s"

definition validate_public_text :: "string option \<Rightarrow> string option \<Rightarrow> unit result" where
  "validate_public_text code message =
     (if (case code of None \<Rightarrow> False | Some c \<Rightarrow> length c > 96 \<or> contains_newline c)
      then Inl (PlainError ''invalid public error code'')
      else if (case message of None \<Rightarrow> False | Some m \<Rightarrow> length m > 512 \<or> contains_newline m)
      then Inl (PlainError ''invalid public safe message'')
      else Inr ())"

section \<open>ledger.go\<close>

definition lookup_idempotency_in_tx :: "string \<Rightarrow> (db, idempotency_entry option) tx" where
  "lookup_idempotency_in_tx scope = tx_get (\<lambda>d. tbl_get ie_scope scope (idempotency_t d))"

definition insert_idempotency_in_tx :: "idempotency_entry \<Rightarrow> (db, unit) tx" where
  "insert_idempotency_in_tx entry =
     tx_insert idempotency_t idempotency_t_update (\<lambda>d. \<not> has_key ie_scope (ie_scope entry) (idempotency_t d)) entry"

definition lookup_command_in_tx :: "string \<Rightarrow> string \<Rightarrow> (db, command_entry option) tx" where
  "lookup_command_in_tx scope digest =
     tx_bind (tx_get (\<lambda>d. tbl_get ce_scope scope (command_t d))) (\<lambda>found.
       case found of
         None \<Rightarrow> tx_return None
       | Some entry \<Rightarrow>
           if ce_request_digest entry \<noteq> digest then tx_fail tasks_ErrCommandIdempotencyConflict
           else tx_return (Some entry))"

definition insert_command_in_tx :: "command_entry \<Rightarrow> (db, unit) tx" where
  "insert_command_in_tx entry =
     tx_insert command_t command_t_update (\<lambda>d. \<not> has_key ce_scope (ce_scope entry) (command_t d)) entry"

section \<open>repository.go\<close>

text \<open>
  \<open>appendEventInTx\<close>: next sequence number, the event row, the head (compare and set), the
  task's \<open>last_event_seq\<close>.  The snapshot comes back with the new sequence number.
\<close>

definition ins_task_event :: "task_event \<Rightarrow> (db, unit) tx" where
  "ins_task_event e =
     tx_insert task_events_t task_events_t_update
       (\<lambda>d. \<not> has_key ev_seq (ev_seq e) (task_events_t d) \<and> has_key t_id (ev_id e) (tasks_t d)) e"

definition append_event_in_tx :: "meta \<Rightarrow> string \<Rightarrow> time \<Rightarrow> (db, meta) tx" where
  "append_event_in_tx meta change_type at =
     tx_bind (tx_get event_head) (\<lambda>current.
     tx_bind (tx_lift (tasks_increment_decimal current)) (\<lambda>next.
     tx_bind (ins_task_event \<lparr>ev_schema_version = 1, ev_seq = next, ev_kind = t_kind meta,
         ev_id = t_id meta, ev_resource_revision = t_snapshot_revision meta,
         ev_state = t_state meta, ev_change_type = change_type, ev_occurred_at = at\<rparr>) (\<lambda>_.
     tx_bind (\<lambda>d. if event_head d = current then Inr ((), d\<lparr>event_head := next\<rparr>)
                  else Inl tasks_ErrRevisionConflict) (\<lambda>_.
     tx_bind (tx_update tasks_t tasks_t_update (\<lambda>r. t_id r = t_id meta)
                (\<lambda>r. r\<lparr>t_last_event_seq := next\<rparr>)) (\<lambda>_.
     tx_return (meta\<lparr>t_last_event_seq := next\<rparr>))))))"

definition create_in_tx :: "time \<Rightarrow> string \<Rightarrow> string \<Rightarrow> string \<Rightarrow> bool \<Rightarrow> (db, meta) tx" where
  "create_in_tx now tid kind initial_state result_available =
     (let out = \<lparr>t_id = tid, t_kind = kind, t_state = initial_state, t_terminal = False,
            t_snapshot_revision = ''1'', t_state_revision = ''1'', t_last_event_seq = ''0'',
            t_created_at = now, t_updated_at = now, t_terminal_at = None,
            t_public_error_code = None, t_public_safe_message = None, t_archived = False,
            t_result_available = result_available\<rparr> in
      tx_bind (tx_insert tasks_t tasks_t_update (\<lambda>d. \<not> has_key t_id tid (tasks_t d)) out) (\<lambda>_.
      append_event_in_tx out ''CREATED'' now))"

definition get_in_tx :: "string \<Rightarrow> (db, meta) tx" where
  "get_in_tx tid =
     tx_bind (tx_get (\<lambda>d. tbl_get t_id tid (tasks_t d))) (\<lambda>found.
       case found of None \<Rightarrow> tx_fail tasks_ErrNotFound | Some m \<Rightarrow> tx_return m)"

definition get_task :: "string \<Rightarrow> db \<Rightarrow> meta result" where
  "get_task tid d = (case get_in_tx tid d of Inl e \<Rightarrow> Inl e | Inr (m, _) \<Rightarrow> Inr m)"

text \<open>
  \<open>Create\<close>; the result pairs the snapshot with the replay flag.  \<open>now1\<close> is the clock in
  \<open>CreateInTx\<close>, \<open>now2\<close> the one read for the ledger row.  The zero \<open>time.Time\<close> is \<open>None\<close>.
\<close>

definition create_tx :: "time \<Rightarrow> time \<Rightarrow> create_request \<Rightarrow> time \<Rightarrow> (db, meta \<times> bool) tx" where
  "create_tx now1 now2 req expires =
     tx_bind (lookup_idempotency_in_tx (cr_client_scope req)) (\<lambda>found.
       case found of
         Some entry \<Rightarrow>
           if ie_request_digest entry \<noteq> cr_request_digest req then tx_fail tasks_ErrIdempotencyConflict
           else tx_bind (get_in_tx (ie_resource_id entry)) (\<lambda>out. tx_return (out, True))
       | None \<Rightarrow>
           tx_bind (create_in_tx now1 (cr_id req) (cr_kind req) (cr_initial_state req)
                      (cr_result_available req)) (\<lambda>out.
           tx_bind (insert_idempotency_in_tx \<lparr>ie_scope = cr_client_scope req,
               ie_request_digest = cr_request_digest req, ie_resource_kind = cr_kind req,
               ie_resource_id = cr_id req, ie_created_at = now2, ie_expires_at = expires\<rparr>) (\<lambda>_.
           tx_return (out, False))))"

definition create :: "bool \<Rightarrow> time \<Rightarrow> time \<Rightarrow> create_request \<Rightarrow> db \<Rightarrow> (meta \<times> bool) result \<times> db" where
  "create io now1 now2 req d =
     (if cr_id req = [] \<or> cr_kind req = [] \<or> cr_initial_state req = [] \<or> cr_client_scope req = []
         \<or> cr_request_digest req = []
      then (Inl (PlainError ''invalid task create request''), d)
      else case cr_ledger_expires_at req of
        None \<Rightarrow> (Inl (PlainError ''idempotency expiry is required''), d)
      | Some expires \<Rightarrow> with_immediate io (create_tx now1 now2 req expires) d)"

text \<open>
  \<open>ApplyInTx\<close>: the caller passes the snapshot it read in the same transaction.  The row is
  written with a compare and set on its snapshot revision.
\<close>

definition changed_meta :: "time \<Rightarrow> meta \<Rightarrow> change \<Rightarrow> string \<Rightarrow> string \<Rightarrow> meta" where
  "changed_meta now current change snapshot_revision state_revision =
     current\<lparr>t_snapshot_revision := snapshot_revision, t_state_revision := state_revision,
       t_updated_at := now,
       t_state := (if ch_state change \<noteq> [] then ch_state change else t_state current),
       t_terminal := ch_terminal change,
       t_terminal_at := (if ch_terminal change \<and> t_terminal_at current = None then Some now
                         else t_terminal_at current),
       t_public_error_code := ch_public_error_code change,
       t_public_safe_message := ch_public_safe_message change,
       t_archived := (case ch_archived change of None \<Rightarrow> t_archived current | Some b \<Rightarrow> b),
       t_result_available :=
         (case ch_result_available change of None \<Rightarrow> t_result_available current | Some b \<Rightarrow> b)\<rparr>"

definition write_meta :: "meta \<Rightarrow> meta \<Rightarrow> meta" where
  "write_meta m r =
     r\<lparr>t_state := t_state m, t_terminal := t_terminal m,
       t_snapshot_revision := t_snapshot_revision m, t_state_revision := t_state_revision m,
       t_updated_at := t_updated_at m, t_terminal_at := t_terminal_at m,
       t_public_error_code := t_public_error_code m,
       t_public_safe_message := t_public_safe_message m, t_archived := t_archived m,
       t_result_available := t_result_available m\<rparr>"

definition apply_in_tx :: "time \<Rightarrow> meta \<Rightarrow> change \<Rightarrow> (db, meta) tx" where
  "apply_in_tx now current change =
     tx_bind (tx_require (ch_change_type change \<noteq> []) (PlainError ''task change type is required'')) (\<lambda>_.
     tx_bind (tx_lift (validate_public_text (ch_public_error_code change)
                (ch_public_safe_message change))) (\<lambda>_.
     tx_bind (tx_lift (tasks_increment_decimal (t_snapshot_revision current))) (\<lambda>snapshot_revision.
     tx_bind (if ch_state_changed change
              then tx_lift (tasks_increment_decimal (t_state_revision current))
              else tx_return (t_state_revision current)) (\<lambda>state_revision.
     let next = changed_meta now current change snapshot_revision state_revision in
     tx_bind (tx_update tasks_t tasks_t_update
                (\<lambda>r. t_id r = t_id current \<and> t_snapshot_revision r = t_snapshot_revision current)
                (write_meta next)) (\<lambda>rows.
     tx_bind (tx_require (rows = 1) tasks_ErrRevisionConflict) (\<lambda>_.
     append_event_in_tx next (ch_change_type change) now))))))"

definition apply_tx :: "time \<Rightarrow> string \<Rightarrow> string \<Rightarrow> change \<Rightarrow> (db, meta) tx" where
  "apply_tx now tid expected_state_revision change =
     tx_bind (get_in_tx tid) (\<lambda>current.
       if expected_state_revision \<noteq> [] \<and> t_state_revision current \<noteq> expected_state_revision
       then tx_fail tasks_ErrRevisionConflict
       else apply_in_tx now current change)"

definition apply_task :: "bool \<Rightarrow> time \<Rightarrow> string \<Rightarrow> string \<Rightarrow> change \<Rightarrow> db \<Rightarrow> meta result \<times> db" where
  "apply_task io now tid expected_state_revision change d =
     with_immediate io (apply_tx now tid expected_state_revision change) d"

definition get_event_head :: "db \<Rightarrow> string result" where
  "get_event_head d = rbind (tasks_canonical_decimal (event_head d)) (\<lambda>_. Inr (event_head d))"

text \<open>
  \<open>Changes\<close>: \<open>WHERE length(seq)>length(?) OR (length(seq)=length(?) AND seq>?) ORDER BY
  length(seq),seq LIMIT ?\<close>.
\<close>

fun seq_insert :: "task_event \<Rightarrow> task_event list \<Rightarrow> task_event list" where
  "seq_insert e [] = [e]"
| "seq_insert e (x # xs) =
     (if sql_seq_greater (ev_seq e) (ev_seq x) then x # seq_insert e xs else e # x # xs)"

definition order_by_seq :: "task_event list \<Rightarrow> task_event list" where
  "order_by_seq es = foldr seq_insert es []"

definition changes :: "db \<Rightarrow> string \<Rightarrow> int \<Rightarrow> (task_event list) result" where
  "changes d after limit =
     rbind (tasks_canonical_decimal after) (\<lambda>canonical.
       let limit = (if limit \<le> 0 \<or> limit > 1000 then 1000 else limit);
           out = take (nat limit)
                   (order_by_seq (filter (\<lambda>e. sql_seq_greater (ev_seq e) canonical) (task_events_t d)))
       in if list_all (\<lambda>e. is_ok (tasks_canonical_decimal (ev_seq e))) out then Inr out
          else Inl tasks_ErrInvalidDecimal)"

section \<open>RecoverCore\<close>

definition recovery_change :: "meta \<Rightarrow> change option" where
  "recovery_change meta =
     (if t_kind meta = ''QUERY'' then
        Some (no_change\<lparr>ch_state := ''INTERRUPTED'', ch_terminal := True, ch_state_changed := True,
          ch_change_type := ''RECOVERED'', ch_result_available := Some False,
          ch_public_error_code := Some ''LOST_ON_RESTART'',
          ch_public_safe_message := Some ''Query interrupted by application restart''\<rparr>)
      else if t_kind meta = ''OPERATION'' then
        (if t_state meta = ''QUEUED'' then
           Some (no_change\<lparr>ch_state := ''INTERRUPTED_NOT_SENT'', ch_terminal := True,
             ch_state_changed := True, ch_change_type := ''RECOVERED''\<rparr>)
         else if t_state meta = ''DISPATCHING'' then
           Some (no_change\<lparr>ch_state := ''OUTCOME_UNKNOWN'', ch_terminal := True,
             ch_state_changed := True, ch_change_type := ''RECOVERED''\<rparr>)
         else None)
      else if t_kind meta = ''EXPORT'' then
        Some (no_change\<lparr>ch_state := ''PAUSED_RESTARTABLE'', ch_state_changed := True,
          ch_change_type := ''RECOVERED''\<rparr>)
      else None)"

definition mirror_query :: "meta \<Rightarrow> (db, unit) tx" where
  "mirror_query updated =
     tx_bind (tx_update query_sessions_t query_sessions_t_update (\<lambda>r. qs_id r = t_id updated)
       (\<lambda>r. r\<lparr>qs_state := t_state updated, qs_terminal := t_terminal updated,
          qs_snapshot_revision := t_snapshot_revision updated,
          qs_state_revision := t_state_revision updated,
          qs_last_event_seq := t_last_event_seq updated,
          qs_result_available := t_result_available updated, qs_archived := t_archived updated,
          qs_updated_at := t_updated_at updated, qs_terminal_at := t_terminal_at updated\<rparr>)) (\<lambda>rows.
     tx_require (rows = 1) (PlainError ''query recovery mirror is missing''))"

text \<open>One iteration of the recovery loop; the result is the increment of \<open>changed\<close>.\<close>

definition recover_one :: "(string \<Rightarrow> time) \<Rightarrow> string \<Rightarrow> (db, nat) tx" where
  "recover_one now tid =
     tx_bind (get_in_tx tid) (\<lambda>meta.
       case recovery_change meta of
         None \<Rightarrow> tx_return 0
       | Some change \<Rightarrow>
           tx_bind (apply_in_tx (now tid) meta change) (\<lambda>updated.
           tx_bind (if t_kind meta = ''QUERY'' then mirror_query updated else tx_return ()) (\<lambda>_.
           tx_return 1)))"

fun recover_loop :: "(string \<Rightarrow> time) \<Rightarrow> string list \<Rightarrow> (db, nat) tx" where
  "recover_loop now [] = tx_return 0"
| "recover_loop now (tid # ids) =
     tx_bind (recover_one now tid) (\<lambda>n. tx_bind (recover_loop now ids) (\<lambda>k. tx_return (n + k)))"

definition recoverable_ids :: "db \<Rightarrow> string list" where
  "recoverable_ids d =
     map t_id (filter (\<lambda>m. \<not> t_terminal m \<and> t_kind m \<in> {''QUERY'', ''OPERATION'', ''EXPORT''}) (tasks_t d))"

definition recover_core :: "bool \<Rightarrow> (string \<Rightarrow> time) \<Rightarrow> db \<Rightarrow> nat result \<times> db" where
  "recover_core io now d = with_immediate io (recover_loop now (recoverable_ids d)) d"

section \<open>Decimal lemmas of the package\<close>

lemma tasks_canonical_dec [simp]: "tasks_canonical_decimal (dec n) = Inr (dec n)"
  by (simp add: tasks_canonical_decimal_def)

lemma tasks_canonicalE:
  assumes "tasks_canonical_decimal v = Inr w"
  obtains n where "w = dec n"
  using assms by (auto simp: tasks_canonical_decimal_def split: option.splits elim: canonical_bigE)

lemma tasks_increment_dec [simp]: "tasks_increment_decimal (dec n) = Inr (dec (Suc n))"
  by (simp add: tasks_increment_decimal_def)

section \<open>The ledgers are write-once\<close>

interpretation idem: write_once_ledger
  "\<lambda>k d. tbl_get ie_scope k (idempotency_t d)" ie_scope insert_idempotency_in_tx
  by unfold_locales
    (auto simp: insert_idempotency_in_tx_def tx_insert_def has_key_iff table_simps
       split: if_splits option.splits)

interpretation cmd: write_once_ledger
  "\<lambda>k d. tbl_get ce_scope k (command_t d)" ce_scope insert_command_in_tx
  by unfold_locales
    (auto simp: insert_command_in_tx_def tx_insert_def has_key_iff table_simps
       split: if_splits option.splits)

lemma lookup_command_Inr [tx_simps]:
  "lookup_command_in_tx scope digest d = Inr (r, d') \<longleftrightarrow>
     d' = d \<and> r = tbl_get ce_scope scope (command_t d) \<and>
     (\<forall>e. r = Some e \<longrightarrow> ce_request_digest e = digest)"
  by (cases "tbl_get ce_scope scope (command_t d)")
     (auto simp: lookup_command_in_tx_def tx_bind_def tx_get_def tx_return_def tx_fail_def)

lemma lookup_idempotency_Inr [tx_simps]:
  "lookup_idempotency_in_tx scope d = Inr (r, d') \<longleftrightarrow>
     d' = d \<and> r = tbl_get ie_scope scope (idempotency_t d)"
  by (auto simp: lookup_idempotency_in_tx_def tx_simps)

lemma get_in_tx_Inr [tx_simps]:
  "get_in_tx tid d = Inr (m, d') \<longleftrightarrow> d' = d \<and> tbl_get t_id tid (tasks_t d) = Some m"
  by (cases "tbl_get t_id tid (tasks_t d)")
     (auto simp: get_in_tx_def tx_bind_def tx_get_def tx_return_def tx_fail_def)

lemma get_in_tx_Inl:
  "get_in_tx tid d = Inl e \<longleftrightarrow> tbl_get t_id tid (tasks_t d) = None \<and> e = tasks_ErrNotFound"
  by (cases "tbl_get t_id tid (tasks_t d)")
     (auto simp: get_in_tx_def tx_bind_def tx_get_def tx_return_def tx_fail_def)

section \<open>The event log contract\<close>

definition events_of :: "string \<Rightarrow> task_event list \<Rightarrow> task_event list" where
  "events_of i es = filter (\<lambda>e. ev_id e = i) es"

definition task_log_ok :: "task_event list \<Rightarrow> meta \<Rightarrow> bool" where
  "task_log_ok es m =
     (\<exists>k j. 1 \<le> j \<and> j \<le> k \<and> t_snapshot_revision m = dec k \<and> t_state_revision m = dec j \<and>
        map ev_resource_revision (events_of (t_id m) es) = map dec [1..<Suc k] \<and>
        ev_seq (last (events_of (t_id m) es)) = t_last_event_seq m \<and>
        ev_state (last (events_of (t_id m) es)) = t_state m \<and>
        ev_kind (last (events_of (t_id m) es)) = t_kind m \<and>
        (t_terminal m \<longrightarrow> t_terminal_at m \<noteq> None))"

definition event_log_ok :: "db \<Rightarrow> nat \<Rightarrow> bool" where
  "event_log_ok d n = (event_head d = dec n \<and> map ev_seq (task_events_t d) = map dec [1..<Suc n])"

definition tasks_inv :: "db \<Rightarrow> bool" where
  "tasks_inv d =
     (distinct (map t_id (tasks_t d)) \<and> (\<exists>n. event_log_ok d n) \<and>
      (\<forall>m\<in>set (tasks_t d). task_log_ok (task_events_t d) m) \<and>
      (\<forall>e\<in>set (task_events_t d). has_key t_id (ev_id e) (tasks_t d)))"

text \<open>What a successful create or apply does to the database: the row, one event, the head.\<close>

definition event_for :: "meta \<Rightarrow> string \<Rightarrow> time \<Rightarrow> task_event" where
  "event_for m change_type at =
     \<lparr>ev_schema_version = 1, ev_seq = t_last_event_seq m, ev_kind = t_kind m, ev_id = t_id m,
      ev_resource_revision = t_snapshot_revision m, ev_state = t_state m,
      ev_change_type = change_type, ev_occurred_at = at\<rparr>"

definition put_task :: "meta \<Rightarrow> meta list \<Rightarrow> meta list" where
  "put_task m rows = tbl_upd (\<lambda>r. t_id r = t_id m) (\<lambda>_. m) rows"

definition post_apply :: "meta \<Rightarrow> string \<Rightarrow> time \<Rightarrow> db \<Rightarrow> db" where
  "post_apply m change_type at d =
     d\<lparr>tasks_t := put_task m (tasks_t d),
       task_events_t := task_events_t d @ [event_for m change_type at],
       event_head := t_last_event_seq m\<rparr>"

lemma dec_notin_upt: "dec (Suc n) \<notin> set (map dec [1..<Suc n])"
  by (auto simp: dec_inj)

lemma append_event_run:
  assumes "event_log_ok d n" and "has_key t_id (t_id m) (tasks_t d)"
  shows "append_event_in_tx m ct at d =
    Inr (m\<lparr>t_last_event_seq := dec (Suc n)\<rparr>,
      d\<lparr>task_events_t := task_events_t d @ [event_for (m\<lparr>t_last_event_seq := dec (Suc n)\<rparr>) ct at],
        event_head := dec (Suc n),
        tasks_t := tbl_upd (\<lambda>r. t_id r = t_id m) (\<lambda>r. r\<lparr>t_last_event_seq := dec (Suc n)\<rparr>) (tasks_t d)\<rparr>)"
proof -
  have "dec (Suc n) \<notin> ev_seq ` set (task_events_t d)"
    using assms(1) dec_notin_upt [of n] unfolding event_log_ok_def by (metis list.set_map)
  then have fresh: "\<not> has_key ev_seq (dec (Suc n)) (task_events_t d)"
    by (simp add: has_key_set)
  have head: "event_head d = dec n"
    using assms(1) by (simp add: event_log_ok_def)
  show ?thesis
    using assms(2) fresh head
    by (simp add: append_event_in_tx_def tx_bind_def tx_simps ins_task_event_def tx_insert_def
          event_for_def)
qed

definition valid_change :: "change \<Rightarrow> bool" where
  "valid_change ch \<longleftrightarrow>
     ch_change_type ch \<noteq> [] \<and>
     validate_public_text (ch_public_error_code ch) (ch_public_safe_message ch) = Inr ()"

lemma put_task_cas:
  assumes "distinct (map t_id rows)" and "tbl_get t_id (t_id cur) rows = Some cur"
    and "t_id m = t_id cur" and "t_kind m = t_kind cur" and "t_created_at m = t_created_at cur"
  shows "tbl_upd (\<lambda>r. t_id r = t_id m) (\<lambda>r. r\<lparr>t_last_event_seq := q\<rparr>)
           (tbl_upd (\<lambda>r. t_id r = t_id cur \<and> t_snapshot_revision r = t_snapshot_revision cur)
             (write_meta m) rows)
         = put_task (m\<lparr>t_last_event_seq := q\<rparr>) rows" (is "?l = ?r")
proof -
  have only: "r = cur" if "r \<in> set rows" "t_id r = t_id cur" for r
    using that assms(1,2) tbl_get_unique [of t_id rows r] by simp
  have row: "(write_meta m cur)\<lparr>t_last_event_seq := q\<rparr> = m\<lparr>t_last_event_seq := q\<rparr>"
    using assms(3-5) by (simp add: write_meta_def)
  show ?thesis
    unfolding tbl_upd_def put_task_def map_map
    using assms(3) only row
    by (auto intro!: map_cong simp: write_meta_def)
qed

lemma apply_run:
  fixes now :: time
  assumes log: "event_log_ok d n" and dist: "distinct (map t_id (tasks_t d))"
    and cur: "tbl_get t_id (t_id cur) (tasks_t d) = Some cur"
    and revs: "t_snapshot_revision cur = dec k" "t_state_revision cur = dec j"
    and ch: "valid_change ch"
  defines "m \<equiv> (changed_meta now cur ch (dec (Suc k))
                  (if ch_state_changed ch then dec (Suc j) else dec j))\<lparr>t_last_event_seq := dec (Suc n)\<rparr>"
  shows "apply_in_tx now cur ch d = Inr (m, post_apply m (ch_change_type ch) now d)"
proof -
  let ?next = "changed_meta now cur ch (dec (Suc k)) (if ch_state_changed ch then dec (Suc j) else dec j)"
  let ?p = "\<lambda>r. t_id r = t_id cur \<and> t_snapshot_revision r = t_snapshot_revision cur"
  let ?d = "d\<lparr>tasks_t := tbl_upd ?p (write_meta ?next) (tasks_t d)\<rparr>"
  have ids: "t_id ?next = t_id cur" "t_kind ?next = t_kind cur" "t_created_at ?next = t_created_at cur"
    by (simp_all add: changed_meta_def)
  have one: "tbl_count ?p (tasks_t d) = 1"
    using cur by (subst tbl_count_keyed [OF dist, where k = "t_id cur"]) auto
  have keys: "has_key t_id (t_id ?next) (tasks_t ?d)"
    using cur ids by (simp add: has_key_upd write_meta_def) (simp add: has_key_iff)
  have app: "append_event_in_tx ?next (ch_change_type ch) now ?d =
      Inr (m, post_apply m (ch_change_type ch) now d)"
    using append_event_run [of ?d n ?next, OF _ keys] log put_task_cas [OF dist cur ids]
    by (simp add: event_log_ok_def m_def post_apply_def)
  show ?thesis
    using ch one revs app
    by (cases "ch_state_changed ch") (simp_all add: apply_in_tx_def valid_change_def tx_bind_def tx_require_def tx_lift_def
          tx_update_def tx_return_def Let_def)
qed

lemma apply_in_tx_Inr_valid: "apply_in_tx now cur ch d = Inr r \<Longrightarrow> valid_change ch"
  by (auto simp: apply_in_tx_def valid_change_def tx_simps)

lemma events_of_append:
  "events_of i (es @ [e]) = (if ev_id e = i then events_of i es @ [e] else events_of i es)"
  by (simp add: events_of_def)

lemma put_task_get:
  "tbl_get t_id i (put_task m rows) =
     (if i = t_id m then map_option (\<lambda>_. m) (tbl_get t_id i rows) else tbl_get t_id i rows)"
  unfolding put_task_def
  by (subst tbl_get_upd) (auto simp: map_option_case dest: tbl_get_SomeD split: option.splits)

lemma put_task_ids: "map t_id (put_task m rows) = map t_id rows"
  unfolding put_task_def by (rule map_key_upd) simp

lemma set_put_task: "x \<in> set (put_task m rows) \<Longrightarrow> x = m \<or> x \<in> set rows \<and> t_id x \<noteq> t_id m"
  by (auto simp: put_task_def set_tbl_upd)

lemma has_key_put_task: "has_key t_id i (put_task m rows) = has_key t_id i rows"
  by (metis has_key_set list.set_map put_task_ids)

text \<open>The contract survives one more event of a task whose revision goes up by one.\<close>

lemma tasks_inv_post_apply:
  assumes inv: "tasks_inv d" and log: "event_log_ok d n"
    and cur: "tbl_get t_id (t_id m) (tasks_t d) = Some cur"
    and revs: "t_snapshot_revision cur = dec k" "t_snapshot_revision m = dec (Suc k)"
    and st: "t_state_revision m = dec j" "1 \<le> j" "j \<le> Suc k"
    and seq: "t_last_event_seq m = dec (Suc n)"
    and trm: "t_terminal m \<longrightarrow> t_terminal_at m \<noteq> None"
  shows "tasks_inv (post_apply m ct at d)"
proof -
  let ?es = "task_events_t d" and ?e = "event_for m ct at"
  have cur_ok: "task_log_ok ?es cur" and ids: "t_id cur = t_id m"
    using inv tbl_get_SomeD [OF cur] by (auto simp: tasks_inv_def)
  then have "map ev_resource_revision (events_of (t_id m) ?es) = map dec [1..<Suc k]"
    using revs(1) by (auto simp: task_log_ok_def dec_inj)
  then have m_ok: "task_log_ok (?es @ [?e]) m"
    using revs(2) st trm seq unfolding task_log_ok_def
    by (intro exI [of _ "Suc k"] exI [of _ j]) (simp add: events_of_append event_for_def)
  have other: "task_log_ok (?es @ [?e]) x" if "x \<in> set (tasks_t d)" "t_id x \<noteq> t_id m" for x
    using inv that by (auto simp: tasks_inv_def task_log_ok_def events_of_append event_for_def)
  have "event_log_ok (post_apply m ct at d) (Suc n)"
    using log seq by (simp add: event_log_ok_def post_apply_def event_for_def)
  moreover have "\<forall>x\<in>set (tasks_t (post_apply m ct at d)). task_log_ok (task_events_t (post_apply m ct at d)) x"
    using m_ok other by (auto simp: post_apply_def dest!: set_put_task)
  moreover have here: "has_key t_id (t_id m) (tasks_t d)"
    using cur by (simp add: has_key_iff)
  moreover have "\<forall>e\<in>set (task_events_t (post_apply m ct at d)).
      has_key t_id (ev_id e) (tasks_t (post_apply m ct at d))"
    using inv here by (auto simp: tasks_inv_def post_apply_def event_for_def has_key_put_task)
  ultimately show ?thesis
    using inv put_task_ids by (auto simp: tasks_inv_def post_apply_def)
qed

lemma tasks_invE:
  assumes "tasks_inv d" and "tbl_get t_id i (tasks_t d) = Some m"
  obtains n k j where "event_log_ok d n" "t_id m = i" "t_snapshot_revision m = dec k"
    "t_state_revision m = dec j" "1 \<le> j" "j \<le> k" "distinct (map t_id (tasks_t d))"
    "task_log_ok (task_events_t d) m"
proof -
  from assms obtain n where "event_log_ok d n" "distinct (map t_id (tasks_t d))"
    "task_log_ok (task_events_t d) m" "t_id m = i"
    using tbl_get_SomeD [OF assms(2)] by (auto simp: tasks_inv_def)
  moreover then obtain k j where "t_snapshot_revision m = dec k" "t_state_revision m = dec j"
    "1 \<le> j" "j \<le> k" unfolding task_log_ok_def by blast
  ultimately show ?thesis by (intro that)
qed

text \<open>
  The functional specification of \<open>ApplyInTx\<close> on a snapshot read in the same transaction: it
  succeeds exactly on valid changes, and then the revisions move by one.
\<close>

lemma apply_in_tx_spec:
  assumes inv: "tasks_inv d" and cur: "tbl_get t_id i (tasks_t d) = Some cur" and ch: "valid_change ch"
  obtains m n k j where
    "apply_in_tx now cur ch d = Inr (m, post_apply m (ch_change_type ch) now d)"
    "event_log_ok d n" "t_snapshot_revision cur = dec k" "t_state_revision cur = dec j"
    "m = (changed_meta now cur ch (dec (Suc k))
            (if ch_state_changed ch then dec (Suc j) else dec j))\<lparr>t_last_event_seq := dec (Suc n)\<rparr>"
    "tasks_inv (post_apply m (ch_change_type ch) now d)"
proof -
  from tasks_invE [OF inv cur] obtain n k j where
    facts: "event_log_ok d n" "t_id cur = i" "t_snapshot_revision cur = dec k"
    "t_state_revision cur = dec j" "1 \<le> j" "j \<le> k" "distinct (map t_id (tasks_t d))"
    "task_log_ok (task_events_t d) cur"
    by blast
  define m where "m = (changed_meta now cur ch (dec (Suc k))
      (if ch_state_changed ch then dec (Suc j) else dec j))\<lparr>t_last_event_seq := dec (Suc n)\<rparr>"
  have run: "apply_in_tx now cur ch d = Inr (m, post_apply m (ch_change_type ch) now d)"
    unfolding m_def using facts cur ch by (intro apply_run) auto
  have "tasks_inv (post_apply m (ch_change_type ch) now d)"
  proof (rule tasks_inv_post_apply [OF inv facts(1), where cur = cur and k = k
        and j = "if ch_state_changed ch then Suc j else j"])
    show "t_terminal m \<longrightarrow> t_terminal_at m \<noteq> None"
      by (auto simp: m_def changed_meta_def)
  qed (use facts cur in \<open>auto simp: m_def changed_meta_def\<close>)
  with run facts show ?thesis using that m_def by blast
qed

lemma apply_in_tx_inv:
  assumes "tasks_inv d" and "tbl_get t_id i (tasks_t d) = Some cur"
    and "apply_in_tx now cur ch d = Inr (m, d')"
  shows "tasks_inv d'"
  using apply_in_tx_spec [OF assms(1,2) apply_in_tx_Inr_valid [OF assms(3)], of now] assms(3)
  by (metis Inr_inject prod.inject)

text \<open>The effect of one change on the task table; no other table is touched.\<close>

lemma apply_effect:
  assumes inv: "tasks_inv d" and cur: "tbl_get t_id i (tasks_t d) = Some cur"
    and run: "apply_in_tx now cur ch d = Inr (m, d')"
  shows "tasks_inv d'" and "operations_t d' = operations_t d" and "idempotency_t d' = idempotency_t d"
    and "command_t d' = command_t d" and "audit_t d' = audit_t d"
    and "tbl_get t_id k (tasks_t d') = (if k = i then Some m else tbl_get t_id k (tasks_t d))"
    and "t_state m = (if ch_state ch \<noteq> [] then ch_state ch else t_state cur)" and "t_terminal m = ch_terminal ch"
    and "protection_t d' = protection_t d" and "protection_ledger_t d' = protection_ledger_t d"
    and "\<exists>ts es h. d' = d\<lparr>tasks_t := ts, task_events_t := es, event_head := h\<rparr>" and "t_id m = i"
    and "t_kind m = t_kind cur"
proof -
  have ids: "t_id cur = i" using tbl_get_SomeD [OF cur] by simp
  from apply_in_tx_spec [OF inv cur apply_in_tx_Inr_valid [OF run], of now] run
  obtain n p j where d': "d' = post_apply m (ch_change_type ch) now d" and t: "tasks_inv d'"
    and m: "m = (changed_meta now cur ch (dec (Suc p)) (if ch_state_changed ch then dec (Suc j) else dec j))
      \<lparr>t_last_event_seq := dec (Suc n)\<rparr>"
    by (metis Inr_inject prod.inject)
  show mid: "t_id m = i" by (simp add: m changed_meta_def ids)
  show "t_kind m = t_kind cur" by (simp add: m changed_meta_def)
  show "tasks_inv d'" by (rule t)
  show "operations_t d' = operations_t d" "idempotency_t d' = idempotency_t d" "command_t d' = command_t d"
    "audit_t d' = audit_t d" "protection_t d' = protection_t d" "protection_ledger_t d' = protection_ledger_t d"
    by (simp_all add: d' post_apply_def)
  show "\<exists>ts es h. d' = d\<lparr>tasks_t := ts, task_events_t := es, event_head := h\<rparr>"
    unfolding d' post_apply_def by blast
  show "tbl_get t_id k (tasks_t d') = (if k = i then Some m else tbl_get t_id k (tasks_t d))"
    using cur by (simp add: d' post_apply_def put_task_get mid)
  show "t_state m = (if ch_state ch \<noteq> [] then ch_state ch else t_state cur)" "t_terminal m = ch_terminal ch"
    by (simp_all add: m changed_meta_def)
qed

text \<open>Creating a task.\<close>

lemma create_in_tx_run:
  fixes kind st :: string and ra :: bool and now :: time
  assumes inv: "tasks_inv d" and log: "event_log_ok d n" and new: "\<not> has_key t_id i (tasks_t d)"
  defines "m \<equiv> \<lparr>t_id = i, t_kind = kind, t_state = st, t_terminal = False,
            t_snapshot_revision = ''1'', t_state_revision = ''1'', t_last_event_seq = dec (Suc n),
            t_created_at = now, t_updated_at = now, t_terminal_at = None,
            t_public_error_code = None, t_public_safe_message = None, t_archived = False,
            t_result_available = ra\<rparr>"
  shows "create_in_tx now i kind st ra d =
      Inr (m, d\<lparr>tasks_t := tasks_t d @ [m], task_events_t := task_events_t d @ [event_for m ''CREATED'' now],
                event_head := dec (Suc n)\<rparr>)"
proof -
  let ?m0 = "m\<lparr>t_last_event_seq := ''0''\<rparr>"
  let ?d = "d\<lparr>tasks_t := tasks_t d @ [?m0]\<rparr>"
  have keys: "has_key t_id (t_id ?m0) (tasks_t ?d)"
    by (simp add: has_key_def)
  have same: "tbl_upd (\<lambda>r. t_id r = i) (\<lambda>r. r\<lparr>t_last_event_seq := dec (Suc n)\<rparr>) (tasks_t d) = tasks_t d"
    using new by (intro tbl_upd_none) (auto simp: has_key_set)
  have "append_event_in_tx ?m0 ''CREATED'' now ?d =
      Inr (m, d\<lparr>tasks_t := tasks_t d @ [m], task_events_t := task_events_t d @ [event_for m ''CREATED'' now],
                event_head := dec (Suc n)\<rparr>)"
    using append_event_run [of ?d n ?m0, OF _ keys] log same
    by (simp add: event_log_ok_def m_def table_simps)
  then show ?thesis
    using new by (simp add: create_in_tx_def tx_bind_def tx_insert_def Let_def m_def)
qed

lemma create_in_tx_inv:
  assumes inv: "tasks_inv d" and run: "create_in_tx now i kind st ra d = Inr (m, d')"
  shows "tasks_inv d' \<and> tbl_get t_id i (tasks_t d') = Some m \<and> tbl_get t_id i (tasks_t d) = None"
proof -
  from run have new: "\<not> has_key t_id i (tasks_t d)"
    by (auto simp: create_in_tx_def Let_def tx_simps)
  from inv obtain n where log: "event_log_ok d n" by (auto simp: tasks_inv_def)
  note eq = create_in_tx_run [OF inv log new, of now kind st ra]
  have m: "t_id m = i" "t_snapshot_revision m = dec 1" "t_state_revision m = dec 1"
    "t_last_event_seq m = dec (Suc n)" "\<not> t_terminal m"
    and d': "d' = d\<lparr>tasks_t := tasks_t d @ [m],
        task_events_t := task_events_t d @ [event_for m ''CREATED'' now], event_head := dec (Suc n)\<rparr>"
    using run eq by (auto simp: dec_literals)
  have no_events: "events_of i (task_events_t d) = []"
    using inv new by (auto simp: events_of_def tasks_inv_def filter_empty_conv)
  then have m_ok: "task_log_ok (task_events_t d') m"
    using m unfolding task_log_ok_def
    by (intro exI [of _ 1] exI [of _ 1]) (simp add: d' events_of_append event_for_def)
  have other: "task_log_ok (task_events_t d') x" if "x \<in> set (tasks_t d)" for x
    using inv that new m(1)
    by (auto simp: d' tasks_inv_def task_log_ok_def events_of_append event_for_def has_key_set)
  have "event_log_ok d' (Suc n)"
    using log m by (simp add: event_log_ok_def d' event_for_def)
  then have "tasks_inv d'"
    using inv new m m_ok other
    by (auto simp: tasks_inv_def d' has_key_set event_for_def simp del: upt_Suc)
  then show ?thesis
    using new m(1) by (simp add: d' table_simps has_key_iff)
qed

section \<open>Reachable task databases\<close>

lemma recovery_change_valid: "recovery_change m = Some ch \<Longrightarrow> valid_change ch"
  by (auto simp: recovery_change_def valid_change_def validate_public_text_def contains_newline_def
        no_change_def split: if_splits)

lemma insert_idempotency_frame:
  "insert_idempotency_in_tx e d = Inr (u, d') \<Longrightarrow>
     tasks_t d' = tasks_t d \<and> task_events_t d' = task_events_t d \<and> event_head d' = event_head d"
  by (auto simp: insert_idempotency_in_tx_def tx_simps)

lemma tasks_inv_frame:
  "tasks_t d' = tasks_t d \<Longrightarrow> task_events_t d' = task_events_t d \<Longrightarrow> event_head d' = event_head d \<Longrightarrow>
     tasks_inv d' = tasks_inv d"
  by (simp add: tasks_inv_def event_log_ok_def)

lemma create_tx_keeps: "tx_keeps tasks_inv (create_tx now1 now2 req expires)"
proof (rule tx_keepsI)
  fix d r d'
  assume inv: "tasks_inv d" and run: "create_tx now1 now2 req expires d = Inr (r, d')"
  show "tasks_inv d'"
  proof (cases "tbl_get ie_scope (cr_client_scope req) (idempotency_t d)")
    case (Some entry)
    with run inv show ?thesis
      by (auto simp: create_tx_def tx_simps split: if_splits)
  next
    case None
    with run obtain m d1 where "create_in_tx now1 (cr_id req) (cr_kind req) (cr_initial_state req)
        (cr_result_available req) d = Inr (m, d1)" and "tasks_t d' = tasks_t d1"
      "task_events_t d' = task_events_t d1" "event_head d' = event_head d1"
      by (auto simp: create_tx_def tx_simps dest!: insert_idempotency_frame)
    with inv show ?thesis using create_in_tx_inv tasks_inv_frame by metis
  qed
qed

lemma apply_tx_keeps: "tx_keeps tasks_inv (apply_tx now i expected ch)"
  by (rule tx_keepsI) (auto simp: apply_tx_def tx_simps split: if_splits dest: apply_in_tx_inv)

lemma mirror_query_frame:
  "mirror_query m d = Inr (u, d') \<Longrightarrow>
     tasks_t d' = tasks_t d \<and> task_events_t d' = task_events_t d \<and> event_head d' = event_head d \<and>
     map qs_id (query_sessions_t d') = map qs_id (query_sessions_t d)"
  by (auto simp: mirror_query_def tx_simps intro: map_key_upd)

text \<open>What recovery does to one task.\<close>

definition recovered :: "meta \<Rightarrow> meta \<Rightarrow> bool" where
  "recovered m m' =
     (case (if t_terminal m then None else recovery_change m) of
        None \<Rightarrow> m' = m
      | Some ch \<Rightarrow> t_id m' = t_id m \<and> t_kind m' = t_kind m \<and> t_state m' = ch_state ch \<and>
          t_terminal m' = ch_terminal ch \<and> t_public_error_code m' = ch_public_error_code ch \<and>
          t_snapshot_revision m' = decimal_succ (t_snapshot_revision m) \<and>
          t_state_revision m' = decimal_succ (t_state_revision m))"

lemma recovery_change_state:
  "recovery_change m = Some ch \<Longrightarrow> ch_state ch \<noteq> [] \<and> ch_state_changed ch"
  by (auto simp: recovery_change_def no_change_def split: if_splits)

lemma recover_one_step:
  assumes inv: "tasks_inv d" and cur: "tbl_get t_id i (tasks_t d) = Some m"
    and live: "\<not> t_terminal m" and run: "recover_one now i d = Inr (n, d')"
  shows "tasks_inv d' \<and> (\<exists>m'. tbl_get t_id i (tasks_t d') = Some m' \<and> recovered m m') \<and>
    (\<forall>x. x \<noteq> i \<longrightarrow> tbl_get t_id x (tasks_t d') = tbl_get t_id x (tasks_t d)) \<and>
    map t_id (tasks_t d') = map t_id (tasks_t d)"
proof (cases "recovery_change m")
  case None
  with cur run inv live show ?thesis
    by (auto simp: recover_one_def tx_simps recovered_def)
next
  case (Some ch)
  from apply_in_tx_spec [OF inv cur recovery_change_valid [OF Some], of "now i"]
  obtain m' nn k j where
    app: "apply_in_tx (now i) m ch d = Inr (m', post_apply m' (ch_change_type ch) (now i) d)"
    and rk: "t_snapshot_revision m = dec k" "t_state_revision m = dec j"
    and m': "m' = (changed_meta (now i) m ch (dec (Suc k))
            (if ch_state_changed ch then dec (Suc j) else dec j))\<lparr>t_last_event_seq := dec (Suc nn)\<rparr>"
    and inv': "tasks_inv (post_apply m' (ch_change_type ch) (now i) d)"
    by metis
  let ?d = "post_apply m' (ch_change_type ch) (now i) d"
  have mid: "t_id m = i" using tbl_get_SomeD [OF cur] by simp
  then have id': "t_id m' = i" by (simp add: m' changed_meta_def)
  have frame: "tasks_t d' = tasks_t ?d" "task_events_t d' = task_events_t ?d" "event_head d' = event_head ?d"
    using run cur Some app
    by (auto simp: recover_one_def tx_simps split: if_splits dest!: mirror_query_frame)
  have rec: "recovered m m'"
    using live Some rk recovery_change_state [OF Some] by (simp add: recovered_def m' changed_meta_def)
  have "tasks_t ?d = put_task m' (tasks_t d)" by (simp add: post_apply_def)
  then show ?thesis
    using inv' frame rec cur id' tasks_inv_frame [of d' ?d] by (auto simp: put_task_get put_task_ids)
qed

lemma recover_loop_step:
  "recover_loop now ids d = Inr (n, d') \<Longrightarrow> tasks_inv d \<Longrightarrow> distinct ids \<Longrightarrow>
   (\<forall>i\<in>set ids. \<exists>m. tbl_get t_id i (tasks_t d) = Some m \<and> \<not> t_terminal m) \<Longrightarrow>
   tasks_inv d' \<and> map t_id (tasks_t d') = map t_id (tasks_t d) \<and>
   (\<forall>i m. tbl_get t_id i (tasks_t d) = Some m \<longrightarrow>
      (\<exists>m'. tbl_get t_id i (tasks_t d') = Some m' \<and> (if i \<in> set ids then recovered m m' else m' = m)))"
proof (induction ids arbitrary: d n)
  case Nil
  then show ?case by (simp add: tx_simps)
next
  case (Cons i ids)
  from Cons.prems obtain n1 d1 n2 where one: "recover_one now i d = Inr (n1, d1)"
    and rest: "recover_loop now ids d1 = Inr (n2, d')"
    by (auto simp: tx_simps)
  from Cons.prems obtain m where m: "tbl_get t_id i (tasks_t d) = Some m" "\<not> t_terminal m" by auto
  from recover_one_step [OF Cons.prems(2) m one] obtain m' where
    inv1: "tasks_inv d1" and m': "tbl_get t_id i (tasks_t d1) = Some m'" "recovered m m'"
    and other: "\<And>x. x \<noteq> i \<Longrightarrow> tbl_get t_id x (tasks_t d1) = tbl_get t_id x (tasks_t d)"
    and ids1: "map t_id (tasks_t d1) = map t_id (tasks_t d)"
    by auto
  have "\<forall>x\<in>set ids. \<exists>m. tbl_get t_id x (tasks_t d1) = Some m \<and> \<not> t_terminal m"
    using Cons.prems(3,4) other by (metis distinct.simps(2) list.set_intros(2))
  from Cons.IH [OF rest inv1 _ this] Cons.prems(3) have IH: "tasks_inv d'"
    "map t_id (tasks_t d') = map t_id (tasks_t d1)"
    "\<forall>x m. tbl_get t_id x (tasks_t d1) = Some m \<longrightarrow>
      (\<exists>m'. tbl_get t_id x (tasks_t d') = Some m' \<and> (if x \<in> set ids then recovered m m' else m' = m))"
    by auto
  show ?case
  proof (intro conjI allI impI)
    fix x mx
    assume x: "tbl_get t_id x (tasks_t d) = Some mx"
    show "\<exists>m'. tbl_get t_id x (tasks_t d') = Some m' \<and>
        (if x \<in> set (i # ids) then recovered mx m' else m' = mx)"
    proof (cases "x = i")
      case True
      with IH(3) m m' x Cons.prems(3) show ?thesis by (metis distinct.simps(2) list.set_intros(1) option.inject)
    next
      case False
      with IH(3) other x show ?thesis by simp
    qed
  qed (use IH ids1 in simp_all)
qed

lemma recoverable_ids_ok:
  assumes "distinct (map t_id (tasks_t d))"
  shows "distinct (recoverable_ids d)"
    and "\<forall>i\<in>set (recoverable_ids d). \<exists>m. tbl_get t_id i (tasks_t d) = Some m \<and> \<not> t_terminal m"
  using assms tbl_get_unique [OF assms]
  by (auto simp: recoverable_ids_def distinct_map_filter)

lemma in_recoverable_ids:
  assumes "distinct (map t_id (tasks_t d))" and "tbl_get t_id i (tasks_t d) = Some m"
  shows "i \<in> set (recoverable_ids d) \<longleftrightarrow>
    \<not> t_terminal m \<and> t_kind m \<in> {''QUERY'', ''OPERATION'', ''EXPORT''}"
  unfolding recoverable_ids_def using key_in_filter [OF assms] by (simp only:)

lemma recover_core_keeps: "tasks_inv d \<Longrightarrow> tasks_inv (snd (recover_core io now d))"
  using recover_loop_step recoverable_ids_ok
  by (cases rule: with_immediate_cases [of io "recover_loop now (recoverable_ids d)" d])
     (auto simp: recover_core_def tasks_inv_def [of d])

inductive task_step :: "db \<Rightarrow> db \<Rightarrow> bool" where
  step_create: "task_step d (snd (create io now1 now2 req d))"
| step_apply: "task_step d (snd (apply_task io now i expected ch d))"
| step_recover: "task_step d (snd (recover_core io nows d))"

lemma tasks_inv_empty: "tasks_inv empty_db"
  by (auto simp: tasks_inv_def empty_db_def event_log_ok_def dec_literals)

interpretation task_log: transition_system "\<lambda>d. d = empty_db" task_step tasks_inv
proof unfold_locales
  fix d d'
  assume "tasks_inv d" and "task_step d d'"
  from this(2,1) show "tasks_inv d'"
    by induction (auto simp: create_def apply_task_def split: option.splits
        intro: tx_keeps_with_immediate [OF create_tx_keeps]
          tx_keeps_with_immediate [OF apply_tx_keeps] recover_core_keeps)
qed (simp add: tasks_inv_empty)

section \<open>Reading the log\<close>

lemma filter_eq_drop:
  "(\<And>i. i < length xs \<Longrightarrow> P (xs ! i) \<longleftrightarrow> a \<le> i) \<Longrightarrow> filter P xs = drop a xs"
proof (induction xs arbitrary: a)
  case Nil
  then show ?case by simp
next
  case (Cons x xs)
  have tail: "\<And>i. i < length xs \<Longrightarrow> P (xs ! i) \<longleftrightarrow> a - 1 \<le> i"
    using Cons.prems [of "Suc i" for i] by (simp add: le_diff_conv) 
  have "P x \<longleftrightarrow> a = 0" using Cons.prems [of 0] by simp
  then show ?case using Cons.IH [OF tail] by (cases a) auto
qed

lemma order_by_seq_sorted:
  "map ev_seq es = map dec [p..<q] \<Longrightarrow> order_by_seq es = es"
proof (induction es arbitrary: p)
  case Nil
  then show ?case by (simp add: order_by_seq_def)
next
  case (Cons e es)
  from Cons.prems have pq: "p < q" by (cases "p < q") auto
  with Cons.prems have e: "ev_seq e = dec p" and es: "map ev_seq es = map dec [Suc p..<q]"
    by (simp_all add: upt_conv_Cons)
  have "seq_insert e es = e # es"
  proof (cases es)
    case Nil
    then show ?thesis by simp
  next
    case (Cons x xs)
    with es have "Suc p < q" by (cases "Suc p < q") auto
    with es Cons have "ev_seq x = dec (Suc p)" by (simp add: upt_conv_Cons)
    with e Cons show ?thesis by (simp add: sql_seq_greater_dec)
  qed
  with Cons.IH [OF es] show ?case by (simp add: order_by_seq_def)
qed

lemma events_after:
  assumes "event_log_ok d n"
  shows "order_by_seq (filter (\<lambda>e. sql_seq_greater (ev_seq e) (dec a)) (task_events_t d)) = drop a (task_events_t d)"
    and "map ev_seq (drop a (task_events_t d)) = map dec [Suc a..<Suc n]"
proof -
  let ?es = "task_events_t d"
  have map: "map ev_seq ?es = map dec [1..<Suc n]" using assms by (simp add: event_log_ok_def)
  then have len: "length ?es = n" by (metis diff_Suc_1 length_map length_upt One_nat_def)
  have nth: "ev_seq (?es ! i) = dec (Suc i)" if "i < length ?es" for i
  proof -
    have "map ev_seq ?es ! i = map dec [1..<Suc n] ! i" by (simp add: map)
    with that len show ?thesis by (simp del: upt_Suc)
  qed
  have filt: "filter (\<lambda>e. sql_seq_greater (ev_seq e) (dec a)) ?es = drop a ?es"
    by (rule filter_eq_drop) (auto simp: nth sql_seq_greater_dec)
  have "drop a [1..<Suc n] = [Suc a..<Suc n]" by (simp only: drop_upt) simp
  then show dm: "map ev_seq (drop a ?es) = map dec [Suc a..<Suc n]"
    by (metis drop_map map)
  show "order_by_seq (filter (\<lambda>e. sql_seq_greater (ev_seq e) (dec a)) ?es) = drop a ?es"
    unfolding filt by (rule order_by_seq_sorted [OF dm])
qed

lemma seqs_canonical:
  "map ev_seq es = map dec ns \<Longrightarrow> list_all (\<lambda>e. is_ok (tasks_canonical_decimal (ev_seq e))) es"
proof (induction es arbitrary: ns)
  case (Cons e es)
  then show ?case by (cases ns) auto
qed simp

section \<open>What later steps keep\<close>

lemma append_event_frame:
  "append_event_in_tx m ct at d = Inr (m', d') \<Longrightarrow>
     idempotency_t d' = idempotency_t d \<and> map t_id (tasks_t d') = map t_id (tasks_t d)"
  by (auto simp: append_event_in_tx_def ins_task_event_def tx_simps map_key_upd split: if_splits)

lemma apply_in_tx_frame:
  assumes "apply_in_tx now cur ch d = Inr (m, d')"
  shows "idempotency_t d' = idempotency_t d \<and> map t_id (tasks_t d') = map t_id (tasks_t d)"
proof -
  have ids: "map t_id (tbl_upd p (write_meta x) rows) = map t_id rows" for p x rows
    by (rule map_key_upd) (simp add: write_meta_def)
  from assms show ?thesis
    by (auto simp: apply_in_tx_def tx_simps Let_def ids split: if_splits dest!: append_event_frame)
qed

lemma recover_one_frame:
  "recover_one now i d = Inr (n, d') \<Longrightarrow>
     idempotency_t d' = idempotency_t d \<and> map t_id (tasks_t d') = map t_id (tasks_t d)"
  by (auto simp: recover_one_def mirror_query_def tx_simps split: option.splits if_splits
        dest!: apply_in_tx_frame)

lemma recover_loop_frame:
  "recover_loop now ids d = Inr (n, d') \<Longrightarrow>
     idempotency_t d' = idempotency_t d \<and> map t_id (tasks_t d') = map t_id (tasks_t d)"
proof (induction ids arbitrary: d n)
  case (Cons i ids)
  then obtain n1 d1 n2 where "recover_one now i d = Inr (n1, d1)" "recover_loop now ids d1 = Inr (n2, d')"
    by (auto simp: tx_simps)
  with Cons.IH recover_one_frame show ?case by metis
qed (simp add: tx_simps)

lemma create_in_tx_frame:
  "create_in_tx now i kind st ra d = Inr (m, d') \<Longrightarrow>
     idempotency_t d' = idempotency_t d \<and> t_id m = i \<and> map t_id (tasks_t d') = map t_id (tasks_t d) @ [i]"
  by (auto simp: create_in_tx_def Let_def tx_simps append_event_in_tx_def ins_task_event_def
        map_key_upd split: if_splits)

lemma create_in_tx_ids:
  "create_in_tx now i kind st ra d = Inr (m, d') \<Longrightarrow>
     t_id ` set (tasks_t d') = insert i (t_id ` set (tasks_t d))"
  by (drule create_in_tx_frame, elim conjE, drule arg_cong [where f = set]) auto

text \<open>No step ever removes a task or changes a ledger entry.\<close>

definition persists :: "string \<Rightarrow> idempotency_entry \<Rightarrow> db \<Rightarrow> bool" where
  "persists scope e d \<longleftrightarrow>
     tbl_get ie_scope scope (idempotency_t d) = Some e \<and> has_key t_id (ie_resource_id e) (tasks_t d)"

lemma persists_frame:
  "idempotency_t d' = idempotency_t d \<Longrightarrow> set (map t_id (tasks_t d)) \<subseteq> set (map t_id (tasks_t d')) \<Longrightarrow>
     persists scope e d \<Longrightarrow> persists scope e d'"
  by (auto simp: persists_def has_key_set)

lemma create_tx_persists: "tx_keeps (persists scope e) (create_tx now1 now2 req expires)"
proof (rule tx_keepsI)
  fix d r d'
  assume pers: "persists scope e d" and run: "create_tx now1 now2 req expires d = Inr (r, d')"
  show "persists scope e d'"
  proof (cases "tbl_get ie_scope (cr_client_scope req) (idempotency_t d)")
    case (Some entry)
    with run pers show ?thesis by (auto simp: create_tx_def tx_simps split: if_splits)
  next
    case None
    with run obtain m d1 entry where c: "create_in_tx now1 (cr_id req) (cr_kind req)
        (cr_initial_state req) (cr_result_available req) d = Inr (m, d1)"
      and put: "insert_idempotency_in_tx entry d1 = Inr ((), d')"
      by (auto simp: create_tx_def tx_simps)
    have "persists scope e d1"
      using persists_frame [OF _ _ pers] create_in_tx_frame [OF c] create_in_tx_ids [OF c] by auto
    with put show ?thesis
      using idem.put_stable [OF _ put] insert_idempotency_frame [OF put] by (auto simp: persists_def)
  qed
qed

lemma task_step_persists: "task_step d d' \<Longrightarrow> persists scope e d \<Longrightarrow> persists scope e d'"
proof (induction rule: task_step.induct)
  case (step_create d io now1 now2 req)
  then show ?case
    by (auto simp: create_def split: option.splits intro: tx_keeps_with_immediate [OF create_tx_persists])
next
  case (step_apply d io now i expected ch)
  have "tx_keeps (persists scope e) (apply_tx now i expected ch)"
    by (rule tx_keepsI)
       (auto simp: apply_tx_def tx_simps split: if_splits dest!: apply_in_tx_frame
             elim!: persists_frame [rotated 2])
  with step_apply show ?case by (simp add: apply_task_def tx_keeps_with_immediate)
next
  case (step_recover d io nows)
  have "tx_keeps (persists scope e) (recover_loop nows ids)" for ids
    by (rule tx_keepsI) (auto dest!: recover_loop_frame elim!: persists_frame [rotated 2])
  with step_recover show ?case by (simp add: recover_core_def tx_keeps_with_immediate)
qed

lemma task_steps_persist: "task_step\<^sup>*\<^sup>* d d' \<Longrightarrow> persists scope e d \<Longrightarrow> persists scope e d'"
  by (induction rule: rtranclp_induct) (auto intro: task_step_persists)

lemma create_fresh_persists:
  assumes "create io n1 n2 req d = (Inr (m, False), d')"
  shows "\<exists>e. persists (cr_client_scope req) e d' \<and> ie_resource_id e = cr_id req \<and>
    ie_request_digest e = cr_request_digest req"
proof -
  from assms obtain expires where run: "create_tx n1 n2 req expires d = Inr ((m, False), d')"
    by (auto simp: create_def with_immediate_Inr split: if_splits option.splits)
  show ?thesis
  proof (cases "tbl_get ie_scope (cr_client_scope req) (idempotency_t d)")
    case (Some entry)
    with run show ?thesis by (auto simp: create_tx_def tx_simps split: if_splits)
  next
    case None
    with run obtain d1 where c: "create_in_tx n1 (cr_id req) (cr_kind req)
        (cr_initial_state req) (cr_result_available req) d = Inr (m, d1)"
      and put: "insert_idempotency_in_tx \<lparr>ie_scope = cr_client_scope req,
               ie_request_digest = cr_request_digest req, ie_resource_kind = cr_kind req,
               ie_resource_id = cr_id req, ie_created_at = n2, ie_expires_at = expires\<rparr> d1 = Inr ((), d')"
      by (auto simp: create_tx_def tx_simps)
    show ?thesis
      using idem.put_found [OF put] insert_idempotency_frame [OF put] create_in_tx_ids [OF c]
      by (auto simp: persists_def has_key_set)
  qed
qed

section \<open>Properties\<close>

definition example_request :: create_request where
  "example_request = \<lparr>cr_id = ''q1'', cr_kind = ''QUERY'', cr_initial_state = ''QUEUED'',
     cr_client_scope = ''scope'', cr_request_digest = ''digest'', cr_ledger_expires_at = Some 9,
     cr_result_available = False\<rparr>"

definition example_db :: db where
  "example_db = snd (create True 1 2 example_request empty_db)"

lemma example_reachable: "reachable_from (\<lambda>d. d = empty_db) task_step example_db"
  unfolding example_db_def by (rule reach_step [OF reach_init]) (auto intro: step_create)

lemma example_inv: "tasks_inv example_db"
  using example_reachable by (rule task_log.reachable_inv)



text \<open>
  A client that has seen the events up to number \<open>a\<close> gets from \<open>Changes\<close> exactly the events
  \<open>a+1, a+2, ...\<close>, in order and without a hole, up to the effective limit, although SQL compares the
  numbers as text.
\<close>

theorem changes_complete:
  fixes limit :: int
  assumes "tasks_inv d" and "event_head d = dec n"
  defines "lim \<equiv> if limit \<le> 0 \<or> limit > 1000 then 1000 else nat limit"
  shows "changes d (dec a) limit = Inr (take lim (drop a (task_events_t d))) \<and>
    map ev_seq (take lim (drop a (task_events_t d))) = map dec [Suc a..<Suc (min n (a + lim))]"
proof -
  from assms(1,2) have log: "event_log_ok d n"
    by (auto simp: tasks_inv_def event_log_ok_def dec_inj)
  note after = events_after [OF log, of a]
  have "take lim [Suc a..<Suc n] = [Suc a..<Suc (min n (a + lim))]"
    by (cases "a + lim \<le> n") (simp_all add: take_upt min_def del: upt_Suc)
  then have seqs: "map ev_seq (take lim (drop a (task_events_t d))) = map dec [Suc a..<Suc (min n (a + lim))]"
    by (metis after(2) take_map)
  have "nat (if limit \<le> 0 \<or> limit > 1000 then 1000 else limit) = lim"
    by (simp add: lim_def)
  then show ?thesis
    using seqs seqs_canonical [OF seqs] after(1) by (simp add: changes_def Let_def)
qed

theorem changes_complete_witness:
  "changes example_db (dec 0) 10 = Inr (task_events_t example_db) \<and> length (task_events_t example_db) = 1"
proof -
  have head: "event_head example_db = dec 1" and len: "length (task_events_t example_db) = 1" by code_simp+
  show ?thesis using changes_complete [OF example_inv head, of 0 10] len by simp
qed

text \<open>
  Creating a task is idempotent: after a successful creation, and whatever creations, changes and
  recoveries followed, the same request returns the task's current snapshot as a replay, and a
  request that reuses the scope with another digest is refused; neither changes the database.
\<close>

theorem create_replay:
  assumes "create io n1 n2 req d = (Inr (m, False), d1)" and "task_step\<^sup>*\<^sup>* d1 d2"
    and "create True n3 n4 req2 d2 = (r, d3)" and "cr_client_scope req2 = cr_client_scope req"
    and "cr_id req2 \<noteq> []" "cr_kind req2 \<noteq> []" "cr_initial_state req2 \<noteq> []"
    and "cr_client_scope req2 \<noteq> []" "cr_request_digest req2 \<noteq> []"
    and "cr_ledger_expires_at req2 = Some t"
  shows "d3 = d2 \<and>
    (if cr_request_digest req2 = cr_request_digest req
     then \<exists>m2. tbl_get t_id (cr_id req) (tasks_t d2) = Some m2 \<and> r = Inr (m2, True)
     else r = Inl tasks_ErrIdempotencyConflict)"
proof -
  from create_fresh_persists [OF assms(1)] task_steps_persist [OF assms(2)] obtain e where
    e: "persists (cr_client_scope req) e d2" "ie_resource_id e = cr_id req"
      "ie_request_digest e = cr_request_digest req"
    by blast
  then obtain m2 where m2: "tbl_get t_id (cr_id req) (tasks_t d2) = Some m2"
    by (auto simp: persists_def has_key_iff)
  with e assms(3-) show ?thesis
    by (auto simp: create_def with_immediate_def create_tx_def tx_bind_def tx_return_def tx_fail_def
        lookup_idempotency_in_tx_def tx_get_def get_in_tx_def persists_def split: if_splits)
qed

theorem create_replay_witness:
  "\<exists>m2. create True 5 6 example_request example_db = (Inr (m2, True), example_db)"
proof -
  have ok: "is_ok (fst (create True 1 2 example_request empty_db)) \<and>
      (case fst (create True 1 2 example_request empty_db) of Inl _ \<Rightarrow> False | Inr (_, b) \<Rightarrow> \<not> b)"
    by code_simp
  then obtain m where run: "create True 1 2 example_request empty_db = (Inr (m, False), example_db)"
    unfolding example_db_def by (cases "create True 1 2 example_request empty_db") (auto split: sum.splits)
  obtain r d3 where again: "create True 5 6 example_request example_db = (r, d3)" by fastforce
  show ?thesis
    using create_replay [OF run rtranclp.rtrancl_refl again refl] again
    by (auto simp: example_request_def)
qed

text \<open>
  \<open>Apply\<close> is a compare and set on the state revision: with a stale expected revision it changes
  nothing, otherwise the snapshot revision goes up by one, the state revision goes up by one
  exactly when the change says so, the row of that task alone becomes the returned snapshot, and
  exactly one event is appended.
\<close>

theorem apply_compare_and_set:
  assumes "tasks_inv d" and "tbl_get t_id i (tasks_t d) = Some cur" and "valid_change ch"
    and "apply_task True now i expected ch d = (r, d')"
  shows "if expected \<noteq> [] \<and> t_state_revision cur \<noteq> expected
    then r = Inl tasks_ErrRevisionConflict \<and> d' = d
    else \<exists>m. r = Inr m \<and>
      dec_val (t_snapshot_revision m) = dec_val (t_snapshot_revision cur) + 1 \<and>
      dec_val (t_state_revision m) = dec_val (t_state_revision cur) + (if ch_state_changed ch then 1 else 0) \<and>
      (\<forall>x. tbl_get t_id x (tasks_t d') = (if x = i then Some m else tbl_get t_id x (tasks_t d))) \<and>
      task_events_t d' = task_events_t d @ [event_for m (ch_change_type ch) now]"
proof (cases "expected \<noteq> [] \<and> t_state_revision cur \<noteq> expected")
  case True
  with assms(2,4) show ?thesis
    by (auto simp: apply_task_def with_immediate_def apply_tx_def tx_bind_def tx_fail_def get_in_tx_def
        tx_get_def tx_return_def)
next
  case False
  from apply_in_tx_spec [OF assms(1-3), of now] obtain m n k j where
    run: "apply_in_tx now cur ch d = Inr (m, post_apply m (ch_change_type ch) now d)"
    and revs: "t_snapshot_revision cur = dec k" "t_state_revision cur = dec j"
    and m: "m = (changed_meta now cur ch (dec (Suc k))
            (if ch_state_changed ch then dec (Suc j) else dec j))\<lparr>t_last_event_seq := dec (Suc n)\<rparr>"
    by metis
  have "r = Inr m" "d' = post_apply m (ch_change_type ch) now d"
    using False assms(2,4) run
    by (auto simp: apply_task_def with_immediate_def apply_tx_def tx_bind_def get_in_tx_def
        tx_get_def tx_return_def)
  moreover have "t_id m = i"
    using tbl_get_SomeD [OF assms(2)] by (simp add: m changed_meta_def)
  ultimately show ?thesis
    using False revs assms(2)
    by (auto simp: m changed_meta_def post_apply_def put_task_get)
qed

theorem apply_compare_and_set_witness:
  "fst (apply_task True 7 ''q1'' ''9'' (no_change\<lparr>ch_state := ''RUNNING'', ch_change_type := ''STATE''\<rparr>)
     example_db) = Inl tasks_ErrRevisionConflict"
proof -
  let ?ch = "no_change\<lparr>ch_state := ''RUNNING'', ch_change_type := ''STATE''\<rparr>"
  obtain cur where cur: "tbl_get t_id ''q1'' (tasks_t example_db) = Some cur"
    and st: "t_state_revision cur \<noteq> ''9''"
  proof -
    have "case tbl_get t_id ''q1'' (tasks_t example_db) of None \<Rightarrow> False | Some c \<Rightarrow> t_state_revision c \<noteq> ''9''"
      by code_simp
    then show thesis using that by (auto split: option.splits)
  qed
  have ch: "valid_change ?ch" by code_simp
  obtain r d' where run: "apply_task True 7 ''q1'' ''9'' ?ch example_db = (r, d')" by fastforce
  show ?thesis using apply_compare_and_set [OF example_inv cur ch run] st run by simp
qed

text \<open>
  Recovery after a restart is all or nothing, and when it succeeds no query is left
  non-terminal, an operation that was still queued is INTERRUPTED_NOT_SENT, one that was being
  dispatched is OUTCOME_UNKNOWN, an unfinished export is paused and restartable, and every other
  task (finished ones included) is unchanged.
\<close>

theorem recover_core_contract:
  assumes "tasks_inv d" and "recover_core io now d = (r, d')"
  shows "case r of Inl e \<Rightarrow> d' = d
    | Inr n \<Rightarrow> \<forall>i m. tbl_get t_id i (tasks_t d) = Some m \<longrightarrow>
        (\<exists>m'. tbl_get t_id i (tasks_t d') = Some m' \<and>
          (if t_terminal m then m' = m
           else if t_kind m = ''QUERY'' then t_state m' = ''INTERRUPTED'' \<and> t_terminal m'
           else if t_kind m = ''OPERATION'' \<and> t_state m = ''QUEUED'' then
             t_state m' = ''INTERRUPTED_NOT_SENT'' \<and> t_terminal m'
           else if t_kind m = ''OPERATION'' \<and> t_state m = ''DISPATCHING'' then
             t_state m' = ''OUTCOME_UNKNOWN'' \<and> t_terminal m'
           else if t_kind m = ''EXPORT'' then t_state m' = ''PAUSED_RESTARTABLE'' \<and> \<not> t_terminal m'
           else m' = m))"
proof (cases r)
  case (Inl e)
  with assms(2) show ?thesis by (auto simp: recover_core_def)
next
  case (Inr n)
  have dist: "distinct (map t_id (tasks_t d))" using assms(1) by (simp add: tasks_inv_def)
  from Inr assms(2) have run: "recover_loop now (recoverable_ids d) d = Inr (n, d')"
    by (simp add: recover_core_def with_immediate_Inr)
  note step = recover_loop_step [OF run assms(1) recoverable_ids_ok [OF dist]]
  show ?thesis
  proof (simp only: Inr sum.case, intro allI impI)
    fix i m
    assume m: "tbl_get t_id i (tasks_t d) = Some m"
    from step m obtain m' where m': "tbl_get t_id i (tasks_t d') = Some m'"
      "if i \<in> set (recoverable_ids d) then recovered m m' else m' = m" by blast
    with in_recoverable_ids [OF dist m] m' show "\<exists>m'. tbl_get t_id i (tasks_t d') = Some m' \<and>
          (if t_terminal m then m' = m
           else if t_kind m = ''QUERY'' then t_state m' = ''INTERRUPTED'' \<and> t_terminal m'
           else if t_kind m = ''OPERATION'' \<and> t_state m = ''QUEUED'' then
             t_state m' = ''INTERRUPTED_NOT_SENT'' \<and> t_terminal m'
           else if t_kind m = ''OPERATION'' \<and> t_state m = ''DISPATCHING'' then
             t_state m' = ''OUTCOME_UNKNOWN'' \<and> t_terminal m'
           else if t_kind m = ''EXPORT'' then t_state m' = ''PAUSED_RESTARTABLE'' \<and> \<not> t_terminal m'
           else m' = m)"
      by (auto simp: recovered_def recovery_change_def no_change_def split: if_splits)
  qed
qed

definition recovery_db :: db where
  "recovery_db = snd (create True 1 2 (example_request\<lparr>cr_id := ''o1'', cr_kind := ''OPERATION''\<rparr>) empty_db)"

theorem recover_core_contract_witness:
  "\<exists>m'. tbl_get t_id ''o1'' (tasks_t (snd (recover_core True (\<lambda>_. 5) recovery_db))) = Some m' \<and>
     t_state m' = ''INTERRUPTED_NOT_SENT''"
proof -
  have inv: "tasks_inv recovery_db"
    unfolding recovery_db_def
    by (rule task_log.reachable_inv, rule reach_step [OF reach_init]) (auto intro: step_create)
  obtain m where m: "tbl_get t_id ''o1'' (tasks_t recovery_db) = Some m" "\<not> t_terminal m"
    "t_kind m = ''OPERATION''" "t_state m = ''QUEUED''"
  proof -
    have "case tbl_get t_id ''o1'' (tasks_t recovery_db) of None \<Rightarrow> False
      | Some c \<Rightarrow> \<not> t_terminal c \<and> t_kind c = ''OPERATION'' \<and> t_state c = ''QUEUED''" by code_simp
    then show thesis using that by (auto split: option.splits)
  qed
  obtain r d' where run: "recover_core True (\<lambda>_. 5) recovery_db = (r, d')" by fastforce
  have "is_ok (fst (recover_core True (\<lambda>_. 5) recovery_db))" by code_simp
  with run obtain n where rn: "r = Inr n" by (cases r) auto
  note all = recover_core_contract [OF inv run, unfolded rn sum.case, rule_format, OF m(1)]
  show ?thesis using all m(2-4) by (auto simp: run)
qed

end
