(* ===== verification/Read_Lanes.thy ===== *)
theory Read_Lanes
  imports Prelude
begin

text \<open>
  \<open>internal/scheduler/read_lanes.go\<close>: the two per-generation admission budgets, four interactive
  slots with a queue of at most 32 and one transfer slot with an unbounded queue.

  Each method body between \<open>Lock\<close> and \<open>Unlock\<close> is one function here.  \<open>Acquire\<close> has two such
  bodies, before and after its \<open>select\<close>; \<open>lanes_step\<close> interleaves them for any number of callers.
  A \<open>*waiter\<close> is its allocation number, and \<open>rl_owned\<close> holds the waiters whose \<open>owned\<close> flag is
  set (their \<open>ready\<close> channel is closed at the same moment).
\<close>

datatype read_lane = InteractiveLane | TransferLane | OtherLane string

abbreviation ErrQueryQueueFull :: go_error where
  "ErrQueryQueueFull \<equiv> Sentinel PkgScheduler ''QUERY_QUEUE_FULL''"
abbreviation ErrInvalidLane :: go_error where
  "ErrInvalidLane \<equiv> Sentinel PkgScheduler ''INVALID_READ_LANE''"
abbreviation ctx_Canceled :: go_error where
  "ctx_Canceled \<equiv> Sentinel PkgContext ''context canceled''"

record lane_state =
  ln_limit :: nat
  ln_queue_limit :: int
  ln_in_flight :: nat
  ln_waiters :: "nat list"

record read_lanes =
  rl_interactive :: lane_state
  rl_transfer :: lane_state
  rl_owned :: "nat list"
  rl_next_waiter :: nat

definition new_read_lanes :: read_lanes where
  "new_read_lanes = \<lparr>
     rl_interactive = \<lparr>ln_limit = 4, ln_queue_limit = 32, ln_in_flight = 0, ln_waiters = []\<rparr>,
     rl_transfer = \<lparr>ln_limit = 1, ln_queue_limit = -1, ln_in_flight = 0, ln_waiters = []\<rparr>,
     rl_owned = [], rl_next_waiter = 0\<rparr>"

text \<open>\<open>state\<close> returns a pointer to one of the two fields: a read and a write of that field.\<close>

fun lane_get :: "read_lanes \<Rightarrow> read_lane \<Rightarrow> lane_state result" where
  "lane_get l InteractiveLane = Inr (rl_interactive l)"
| "lane_get l TransferLane = Inr (rl_transfer l)"
| "lane_get l (OtherLane _) = Inl ErrInvalidLane"

fun lane_put :: "read_lane \<Rightarrow> lane_state \<Rightarrow> read_lanes \<Rightarrow> read_lanes" where
  "lane_put InteractiveLane st l = l\<lparr>rl_interactive := st\<rparr>"
| "lane_put TransferLane st l = l\<lparr>rl_transfer := st\<rparr>"
| "lane_put (OtherLane _) st l = l"

datatype acquire_outcome = Granted read_lane | Refused go_error | Waiting nat

definition acquire_enter :: "bool \<Rightarrow> read_lane \<Rightarrow> read_lanes \<Rightarrow> acquire_outcome \<times> read_lanes" where
  "acquire_enter ctx_is_nil lane l =
     (if ctx_is_nil then (Refused ctx_Canceled, l)
      else case lane_get l lane of
        Inl e \<Rightarrow> (Refused e, l)
      | Inr st \<Rightarrow>
          if ln_waiters st = [] \<and> ln_in_flight st < ln_limit st then
            (Granted lane, lane_put lane (st\<lparr>ln_in_flight := ln_in_flight st + 1\<rparr>) l)
          else if 0 \<le> ln_queue_limit st \<and> ln_queue_limit st \<le> int (length (ln_waiters st)) then
            (Refused ErrQueryQueueFull, l)
          else let w = rl_next_waiter l in
            (Waiting w, lane_put lane (st\<lparr>ln_waiters := ln_waiters st @ [w]\<rparr>)
                          (l\<lparr>rl_next_waiter := Suc w\<rparr>)))"

text \<open>The branch of \<open>select\<close> where the context is done: ownership may already have been won.\<close>

definition acquire_cancel :: "nat \<Rightarrow> read_lane \<Rightarrow> go_error \<Rightarrow> read_lanes \<Rightarrow> acquire_outcome \<times> read_lanes" where
  "acquire_cancel w lane ctx_err l =
     (if w \<notin> set (rl_owned l) then
        (Refused ctx_err,
         case lane_get l lane of Inl _ \<Rightarrow> l
         | Inr st \<Rightarrow> lane_put lane (st\<lparr>ln_waiters := remove1 w (ln_waiters st)\<rparr>) l)
      else (Granted lane, l))"

definition lane_release :: "read_lane \<Rightarrow> read_lanes \<Rightarrow> read_lanes" where
  "lane_release lane l =
     (case lane_get l lane of
        Inl _ \<Rightarrow> l
      | Inr st \<Rightarrow>
          if ln_in_flight st = 0 then l
          else case ln_waiters st of
            [] \<Rightarrow> lane_put lane (st\<lparr>ln_in_flight := ln_in_flight st - 1\<rparr>) l
          | next # rest \<Rightarrow>
              (lane_put lane (st\<lparr>ln_waiters := rest\<rparr>) l)\<lparr>rl_owned := next # rl_owned l\<rparr>)"

text \<open>A lease and its \<open>sync.Once\<close>: \<open>Release\<close> has an effect the first time only.\<close>

record lease =
  le_lane :: read_lane
  le_released :: bool

definition lease_release :: "lease \<Rightarrow> read_lanes \<Rightarrow> lease \<times> read_lanes" where
  "lease_release le l =
     (if le_released le then (le, l)
      else (le\<lparr>le_released := True\<rparr>, lane_release (le_lane le) l))"

record lanes_snapshot =
  sn_interactive_in_flight :: nat
  sn_interactive_waiting :: nat
  sn_transfer_in_flight :: nat
  sn_transfer_waiting :: nat

definition lanes_snapshot :: "read_lanes \<Rightarrow> lanes_snapshot" where
  "lanes_snapshot l = \<lparr>
     sn_interactive_in_flight = ln_in_flight (rl_interactive l),
     sn_interactive_waiting = length (ln_waiters (rl_interactive l)),
     sn_transfer_in_flight = ln_in_flight (rl_transfer l),
     sn_transfer_waiting = length (ln_waiters (rl_transfer l))\<rparr>"

section \<open>Callers, interleaved\<close>

text \<open>\<open>sy_pending\<close>: the callers blocked in \<open>select\<close>; \<open>sy_leases\<close>: every lease handed out.\<close>

record lanes_sys =
  sy_lanes :: read_lanes
  sy_pending :: "(nat \<times> read_lane) list"
  sy_leases :: "lease list"

definition new_lease :: "read_lane \<Rightarrow> lease" where
  "new_lease lane = \<lparr>le_lane = lane, le_released = False\<rparr>"

definition lanes_init :: lanes_sys where
  "lanes_init = \<lparr>sy_lanes = new_read_lanes, sy_pending = [], sy_leases = []\<rparr>"

inductive lanes_step :: "lanes_sys \<Rightarrow> lanes_sys \<Rightarrow> bool" where
  enter_granted: "acquire_enter nil lane (sy_lanes s) = (Granted g, l') \<Longrightarrow>
    lanes_step s (s\<lparr>sy_lanes := l', sy_leases := sy_leases s @ [new_lease g]\<rparr>)"
| enter_waiting: "acquire_enter nil lane (sy_lanes s) = (Waiting w, l') \<Longrightarrow>
    lanes_step s (s\<lparr>sy_lanes := l', sy_pending := sy_pending s @ [(w, lane)]\<rparr>)"
| enter_refused: "acquire_enter nil lane (sy_lanes s) = (Refused e, l') \<Longrightarrow>
    lanes_step s (s\<lparr>sy_lanes := l'\<rparr>)"
| ready: "(w, lane) \<in> set (sy_pending s) \<Longrightarrow> w \<in> set (rl_owned (sy_lanes s)) \<Longrightarrow>
    lanes_step s (s\<lparr>sy_pending := filter (\<lambda>p. fst p \<noteq> w) (sy_pending s),
                    sy_leases := sy_leases s @ [new_lease lane]\<rparr>)"
| done_granted: "(w, lane) \<in> set (sy_pending s) \<Longrightarrow>
    acquire_cancel w lane e (sy_lanes s) = (Granted g, l') \<Longrightarrow>
    lanes_step s (s\<lparr>sy_lanes := l', sy_pending := filter (\<lambda>p. fst p \<noteq> w) (sy_pending s),
                    sy_leases := sy_leases s @ [new_lease g]\<rparr>)"
| done_refused: "(w, lane) \<in> set (sy_pending s) \<Longrightarrow>
    acquire_cancel w lane e (sy_lanes s) = (Refused e, l') \<Longrightarrow>
    lanes_step s (s\<lparr>sy_lanes := l', sy_pending := filter (\<lambda>p. fst p \<noteq> w) (sy_pending s)\<rparr>)"
| release: "i < length (sy_leases s) \<Longrightarrow> lease_release (sy_leases s ! i) (sy_lanes s) = (le', l') \<Longrightarrow>
    lanes_step s (s\<lparr>sy_lanes := l', sy_leases := (sy_leases s)[i := le']\<rparr>)"

section \<open>The slot invariant\<close>

definition live_leases :: "read_lane \<Rightarrow> lanes_sys \<Rightarrow> nat" where
  "live_leases lane s = tbl_count (\<lambda>le. le_lane le = lane \<and> \<not> le_released le) (sy_leases s)"

definition handed_over :: "read_lane \<Rightarrow> lanes_sys \<Rightarrow> nat" where
  "handed_over lane s =
     tbl_count (\<lambda>p. snd p = lane \<and> fst p \<in> set (rl_owned (sy_lanes s))) (sy_pending s)"

definition waiting :: "read_lane \<Rightarrow> lanes_sys \<Rightarrow> nat list" where
  "waiting lane s =
     map fst (filter (\<lambda>p. snd p = lane \<and> fst p \<notin> set (rl_owned (sy_lanes s))) (sy_pending s))"

fun lane_limits :: "read_lane \<Rightarrow> nat \<times> int" where
  "lane_limits InteractiveLane = (4, 32)"
| "lane_limits TransferLane = (1, -1)"
| "lane_limits (OtherLane _) = (0, 0)"

definition lane_ok :: "lanes_sys \<Rightarrow> read_lane \<Rightarrow> lane_state \<Rightarrow> bool" where
  "lane_ok s lane st \<longleftrightarrow>
     (ln_limit st, ln_queue_limit st) = lane_limits lane \<and>
     ln_in_flight st = live_leases lane s + handed_over lane s \<and>
     ln_in_flight st \<le> ln_limit st \<and>
     (ln_waiters st \<noteq> [] \<longrightarrow> ln_in_flight st = ln_limit st) \<and>
     (0 \<le> ln_queue_limit st \<longrightarrow> int (length (ln_waiters st)) \<le> ln_queue_limit st) \<and>
     ln_waiters st = waiting lane s"

definition callers_ok :: "lanes_sys \<Rightarrow> bool" where
  "callers_ok s \<longleftrightarrow>
     distinct (map fst (sy_pending s)) \<and>
     (\<forall>w\<in>fst ` set (sy_pending s) \<union> set (rl_owned (sy_lanes s)). w < rl_next_waiter (sy_lanes s)) \<and>
     (\<forall>p\<in>set (sy_pending s). is_ok (lane_get (sy_lanes s) (snd p))) \<and>
     (\<forall>le\<in>set (sy_leases s). is_ok (lane_get (sy_lanes s) (le_lane le)))"

definition lanes_inv :: "lanes_sys \<Rightarrow> bool" where
  "lanes_inv s \<longleftrightarrow>
     (\<forall>lane st. lane_get (sy_lanes s) lane = Inr st \<longrightarrow> lane_ok s lane st) \<and> callers_ok s"

lemmas count_defs = live_leases_def handed_over_def waiting_def

lemma lane_get_put [simp]:
  "is_ok (lane_get l lane) \<Longrightarrow>
     lane_get (lane_put lane st l) lane' = (if lane' = lane then Inr st else lane_get l lane')"
  by (cases lane; cases lane') auto

lemma lane_put_simps [simp]:
  "rl_owned (lane_put lane st l) = rl_owned l"
  "rl_next_waiter (lane_put lane st l) = rl_next_waiter l"
  by (cases lane; simp)+

lemma lane_get_updates [simp]:
  "lane_get (l\<lparr>rl_owned := ow\<rparr>) lane = lane_get l lane"
  "lane_get (l\<lparr>rl_next_waiter := n\<rparr>) lane = lane_get l lane"
  by (cases lane; simp)+

lemma lanes_inv_init: "lanes_inv lanes_init"
proof -
  have "lane_ok lanes_init lane st" if "lane_get (sy_lanes lanes_init) lane = Inr st" for lane st
    using that by (cases lane)
      (auto simp: lanes_init_def new_read_lanes_def lane_ok_def count_defs table_simps)
  then show ?thesis
    by (simp add: lanes_inv_def callers_ok_def) (simp add: lanes_init_def new_read_lanes_def)
qed

lemma enter_grantedD:
  "acquire_enter nil lane l = (Granted g, l') \<Longrightarrow>
     g = lane \<and> (\<exists>st. lane_get l lane = Inr st \<and> ln_waiters st = [] \<and> ln_in_flight st < ln_limit st \<and>
       l' = lane_put lane (st\<lparr>ln_in_flight := ln_in_flight st + 1\<rparr>) l)"
  by (auto simp: acquire_enter_def Let_def split: if_splits sum.splits)

lemma enter_waitingD:
  "acquire_enter nil lane l = (Waiting w, l') \<Longrightarrow>
     w = rl_next_waiter l \<and> (\<exists>st. lane_get l lane = Inr st \<and>
       \<not> (ln_waiters st = [] \<and> ln_in_flight st < ln_limit st) \<and>
       \<not> (0 \<le> ln_queue_limit st \<and> ln_queue_limit st \<le> int (length (ln_waiters st))) \<and>
       l' = lane_put lane (st\<lparr>ln_waiters := ln_waiters st @ [w]\<rparr>) (l\<lparr>rl_next_waiter := Suc w\<rparr>))"
  by (auto simp: acquire_enter_def Let_def split: if_splits sum.splits)

lemma enter_refusedD: "acquire_enter nil lane l = (Refused e, l') \<Longrightarrow> l' = l"
  by (auto simp: acquire_enter_def Let_def split: if_splits sum.splits)

lemma lanes_inv_change_lane:
  assumes inv: "lanes_inv s"
    and st: "lane_get (sy_lanes s) lane = Inr st"
    and get: "\<And>x. lane_get (sy_lanes t) x = (if x = lane then Inr st' else lane_get (sy_lanes s) x)"
    and frame: "\<And>x. x \<noteq> lane \<Longrightarrow> live_leases x t = live_leases x s"
      "\<And>x. x \<noteq> lane \<Longrightarrow> handed_over x t = handed_over x s"
      "\<And>x. x \<noteq> lane \<Longrightarrow> waiting x t = waiting x s"
    and here: "lane_ok s lane st \<Longrightarrow> lane_ok t lane st'"
    and callers: "callers_ok s \<Longrightarrow> callers_ok t"
  shows "lanes_inv t"
  unfolding lanes_inv_def
proof (intro conjI allI impI)
  show "callers_ok t" using callers inv by (simp add: lanes_inv_def)
  fix x y assume x: "lane_get (sy_lanes t) x = Inr y"
  show "lane_ok t x y"
  proof (cases "x = lane")
    case True
    with x get st here inv show ?thesis by (simp add: lanes_inv_def)
  next
    case False
    with x get inv have "lane_ok s x y" by (simp add: lanes_inv_def)
    with False frame show ?thesis by (auto simp: lane_ok_def)
  qed
qed

lemma inv_enter_granted:
  assumes inv: "lanes_inv s" and "acquire_enter nil lane (sy_lanes s) = (Granted g, l')"
  shows "lanes_inv (s\<lparr>sy_lanes := l', sy_leases := sy_leases s @ [new_lease g]\<rparr>)" (is "lanes_inv ?t")
proof -
  from enter_grantedD [OF assms(2)] obtain st where g: "g = lane"
    and st: "lane_get (sy_lanes s) lane = Inr st" "ln_waiters st = []" "ln_in_flight st < ln_limit st"
    and l': "l' = lane_put lane (st\<lparr>ln_in_flight := ln_in_flight st + 1\<rparr>) (sy_lanes s)" by blast
  have live: "live_leases x ?t = live_leases x s + (if x = lane then 1 else 0)" for x
    by (simp add: live_leases_def new_lease_def table_simps g)
  have rest: "handed_over x ?t = handed_over x s" "waiting x ?t = waiting x s" for x
    by (simp_all add: handed_over_def waiting_def l')
  have here: "lane_ok ?t lane (st\<lparr>ln_in_flight := ln_in_flight st + 1\<rparr>)" if "lane_ok s lane st"
    using that st unfolding lane_ok_def live rest by simp
  have callers: "callers_ok ?t" if "callers_ok s"
    using that st by (auto simp: callers_ok_def l' g new_lease_def)
  show ?thesis
    by (rule lanes_inv_change_lane [OF inv st(1) _ _ _ _ here callers])
      (simp_all only: live rest, simp_all add: l' st)
qed

lemma inv_enter_waiting:
  assumes inv: "lanes_inv s" and "acquire_enter nil lane (sy_lanes s) = (Waiting w, l')"
  shows "lanes_inv (s\<lparr>sy_lanes := l', sy_pending := sy_pending s @ [(w, lane)]\<rparr>)" (is "lanes_inv ?t")
proof -
  from enter_waitingD [OF assms(2)] obtain st where w: "w = rl_next_waiter (sy_lanes s)"
    and st: "lane_get (sy_lanes s) lane = Inr st"
      "\<not> (ln_waiters st = [] \<and> ln_in_flight st < ln_limit st)"
      "\<not> (0 \<le> ln_queue_limit st \<and> ln_queue_limit st \<le> int (length (ln_waiters st)))"
    and l': "l' = lane_put lane (st\<lparr>ln_waiters := ln_waiters st @ [w]\<rparr>)
                    ((sy_lanes s)\<lparr>rl_next_waiter := Suc w\<rparr>)" by blast
  have fresh: "w \<notin> set (rl_owned (sy_lanes s))" "w \<notin> fst ` set (sy_pending s)"
    using inv w by (auto simp: lanes_inv_def callers_ok_def)
  have wait: "waiting x ?t = waiting x s @ (if x = lane then [w] else [])" for x
    using fresh by (simp add: waiting_def l')
  have rest: "handed_over x ?t = handed_over x s" "live_leases x ?t = live_leases x s" for x
    using fresh by (simp_all add: handed_over_def live_leases_def l' table_simps)
  have here: "lane_ok ?t lane (st\<lparr>ln_waiters := ln_waiters st @ [w]\<rparr>)" if "lane_ok s lane st"
    using that st unfolding lane_ok_def wait rest by auto
  have callers: "callers_ok ?t" if "callers_ok s"
    using that st fresh w by (auto simp: callers_ok_def l' less_Suc_eq)
  show ?thesis
    by (rule lanes_inv_change_lane [OF inv st(1) _ _ _ _ here callers])
      (simp_all only: wait rest, simp_all add: l' st)
qed

text \<open>Removing one blocked caller from the list of pending ones.\<close>

lemma pending_removed:
  assumes "distinct (map fst ps)" and "(w, lane) \<in> set ps"
  shows "tbl_count Q ps = (if Q (w, lane) then 1 else 0) + tbl_count Q (filter (\<lambda>p. fst p \<noteq> w) ps)"
  using assms
proof (induction ps)
  case (Cons p ps)
  show ?case
  proof (cases "p = (w, lane)")
    case True
    with Cons.prems have "filter (\<lambda>p. fst p \<noteq> w) ps = ps"
      by (auto simp: filter_id_conv rev_image_eqI)
    with True show ?thesis by (simp add: table_simps)
  next
    case False
    with Cons.prems have "fst p \<noteq> w" "(w, lane) \<in> set ps"
      by (auto simp: rev_image_eqI)
    with Cons show ?thesis by (auto simp: table_simps)
  qed
qed simp

lemma pending_filter:
  assumes "distinct (map fst ps)" and "(w, lane) \<in> set ps" and "Q (w, lane)"
  shows "map fst (filter Q (filter (\<lambda>p. fst p \<noteq> w) ps)) = remove1 w (map fst (filter Q ps))"
  using assms(1,2)
proof (induction ps)
  case (Cons p ps)
  show ?case
  proof (cases "p = (w, lane)")
    case True
    with Cons.prems have "filter (\<lambda>p. fst p \<noteq> w) ps = ps"
      by (auto simp: filter_id_conv rev_image_eqI)
    with True assms(3) show ?thesis by simp
  next
    case False
    with Cons.prems have "fst p \<noteq> w" "(w, lane) \<in> set ps"
      by (auto simp: rev_image_eqI)
    with Cons show ?thesis by auto
  qed
qed simp

lemma pending_filter_other:
  assumes "\<not> Q (w, lane)" and "distinct (map fst ps)" and "(w, lane) \<in> set ps"
  shows "filter Q (filter (\<lambda>p. fst p \<noteq> w) ps) = filter Q ps"
  using assms(2,3)
proof (induction ps)
  case (Cons p ps)
  show ?case
  proof (cases "p = (w, lane)")
    case True
    with Cons.prems have "filter (\<lambda>p. fst p \<noteq> w) ps = ps"
      by (auto simp: filter_id_conv rev_image_eqI)
    with True assms(1) show ?thesis by simp
  next
    case False
    with Cons.prems have "fst p \<noteq> w" "(w, lane) \<in> set ps"
      by (auto simp: rev_image_eqI)
    with Cons show ?thesis by auto
  qed
qed simp

text \<open>Handing a freed slot to one blocked caller, and dropping one lease.\<close>

lemma pending_owned:
  assumes "distinct (map fst ps)" and "(w, lane) \<in> set ps" and "w \<notin> ow"
  shows "tbl_count (\<lambda>p. snd p = x \<and> (fst p = w \<or> fst p \<in> ow)) ps =
           tbl_count (\<lambda>p. snd p = x \<and> fst p \<in> ow) ps + (if x = lane then 1 else 0)"
    and "map fst (filter (\<lambda>p. snd p = x \<and> fst p \<noteq> w \<and> fst p \<notin> ow) ps) =
           remove1 w (map fst (filter (\<lambda>p. snd p = x \<and> fst p \<notin> ow) ps))"
  using assms
proof (induction ps)
  case (Cons p ps)
  have out: "tbl_count (\<lambda>p. snd p = x \<and> (fst p = w \<or> fst p \<in> ow)) ps =
               tbl_count (\<lambda>p. snd p = x \<and> fst p \<in> ow) ps"
      "filter (\<lambda>p. snd p = x \<and> fst p \<noteq> w \<and> fst p \<notin> ow) ps = filter (\<lambda>p. snd p = x \<and> fst p \<notin> ow) ps"
      "remove1 w (map fst (filter (\<lambda>p. snd p = x \<and> fst p \<notin> ow) ps)) =
         map fst (filter (\<lambda>p. snd p = x \<and> fst p \<notin> ow) ps)"
    if "w \<notin> fst ` set ps"
    using that by (auto simp: tbl_count_def image_iff intro!: arg_cong [where f = length] filter_cong remove1_idem)
  have ins: "w \<in> fst ` set ps \<Longrightarrow> fst p \<noteq> w" "fst p = w \<Longrightarrow> w \<notin> fst ` set ps"
    "fst p = w \<Longrightarrow> snd p = lane" "fst p \<noteq> w \<Longrightarrow> (w, lane) \<in> set ps" "w \<notin> ow"
    "distinct (map fst ps)"
    if "distinct (map fst (p # ps))" "(w, lane) \<in> set (p # ps)" "w \<notin> ow"
    using that by (cases p; auto simp: rev_image_eqI)+
  {
    case 1
    show ?case
    proof (cases "fst p = w")
      case True
      with ins [OF 1] out(1) show ?thesis by (simp add: table_simps eq_commute)
    next
      case False
      with Cons.IH(1) ins [OF 1] show ?thesis by (simp add: table_simps)
    qed
  next
    case 2
    show ?case
    proof (cases "fst p = w")
      case True
      with ins [OF 2] out(2,3) show ?thesis by simp
    next
      case False
      with Cons.IH(2) ins [OF 2] show ?thesis by simp
    qed
  }
qed (simp_all add: table_simps)

lemma tbl_count_list_update:
  "i < length xs \<Longrightarrow>
     tbl_count P (xs[i := x]) + (if P (xs ! i) then 1 else 0) = tbl_count P xs + (if P x then 1 else 0)"
proof (induction xs arbitrary: i)
  case (Cons y ys)
  then show ?case
  proof (cases i)
    case (Suc j)
    with Cons.IH [of j] Cons.prems show ?thesis by (simp add: table_simps)
  qed (simp add: table_simps)
qed simp

lemma inv_pending_done:
  assumes inv: "lanes_inv s" and p: "(w, lane) \<in> set (sy_pending s)" "w \<in> set (rl_owned (sy_lanes s))"
  shows "lanes_inv (s\<lparr>sy_pending := filter (\<lambda>p. fst p \<noteq> w) (sy_pending s),
                    sy_leases := sy_leases s @ [new_lease lane]\<rparr>)" (is "lanes_inv ?t")
proof -
  have dist: "distinct (map fst (sy_pending s))" using inv by (simp add: lanes_inv_def callers_ok_def)
  obtain st where st: "lane_get (sy_lanes s) lane = Inr st"
    using inv p(1) by (cases "lane_get (sy_lanes s) lane") (force simp: lanes_inv_def callers_ok_def)+
  have live: "live_leases x ?t = live_leases x s + (if x = lane then 1 else 0)" for x
    by (simp add: live_leases_def new_lease_def table_simps)
  have hand: "handed_over x s = handed_over x ?t + (if x = lane then 1 else 0)" for x
    unfolding handed_over_def
    by (subst pending_removed [OF dist p(1)]) (use p(2) in \<open>simp add: eq_commute\<close>)
  have wait: "waiting x ?t = waiting x s" for x
    using pending_filter_other [OF _ dist p(1),
        where Q = "\<lambda>p. snd p = x \<and> fst p \<notin> set (rl_owned (sy_lanes s))"] p(2)
    by (simp add: waiting_def)
  have here: "lane_ok ?t lane st" if "lane_ok s lane st"
    using that unfolding lane_ok_def live wait hand by auto
  have callers: "callers_ok ?t" if "callers_ok s"
    using that st dist by (auto simp: callers_ok_def new_lease_def distinct_map_filter)
  show ?thesis
    by (rule lanes_inv_change_lane [OF inv st _ _ _ _ here callers])
      (simp_all only: live wait hand, simp_all add: st)
qed

lemma inv_pending_dropped:
  assumes inv: "lanes_inv s" and p: "(w, lane) \<in> set (sy_pending s)" "w \<notin> set (rl_owned (sy_lanes s))"
    and l': "acquire_cancel w lane e (sy_lanes s) = (out, l')"
  shows "lanes_inv (s\<lparr>sy_lanes := l', sy_pending := filter (\<lambda>p. fst p \<noteq> w) (sy_pending s)\<rparr>)"
    (is "lanes_inv ?t")
proof -
  have dist: "distinct (map fst (sy_pending s))" using inv by (simp add: lanes_inv_def callers_ok_def)
  obtain st where st: "lane_get (sy_lanes s) lane = Inr st"
    using inv p(1) by (cases "lane_get (sy_lanes s) lane") (force simp: lanes_inv_def callers_ok_def)+
  let ?st = "st\<lparr>ln_waiters := remove1 w (ln_waiters st)\<rparr>"
  have l: "l' = lane_put lane ?st (sy_lanes s)"
    using l' p(2) st by (auto simp: acquire_cancel_def split: if_splits)
  have live: "live_leases x ?t = live_leases x s" for x
    by (simp add: live_leases_def)
  have hand: "handed_over x ?t = handed_over x s" for x
    unfolding handed_over_def
    using pending_removed [OF dist p(1),
        where Q = "\<lambda>p. snd p = x \<and> fst p \<in> set (rl_owned (sy_lanes s))"] p(2)
    by (simp add: l)
  have wait: "waiting x ?t = (if x = lane then remove1 w (waiting x s) else waiting x s)" for x
    using pending_filter_other [OF _ dist p(1),
        where Q = "\<lambda>p. snd p = x \<and> fst p \<notin> set (rl_owned (sy_lanes s))"]
      pending_filter [OF dist p(1),
        where Q = "\<lambda>p. snd p = x \<and> fst p \<notin> set (rl_owned (sy_lanes s))"] p(2)
    by (auto simp: waiting_def l)
  have here: "lane_ok ?t lane ?st" if "lane_ok s lane st"
    using that unfolding lane_ok_def live wait hand
    by (auto simp: length_remove1 dest: notin_set_remove1)
  have callers: "callers_ok ?t" if "callers_ok s"
    using that st dist by (auto simp: callers_ok_def l distinct_map_filter)
  show ?thesis
    by (rule lanes_inv_change_lane [OF inv st _ _ _ _ here callers])
      (simp_all only: live wait hand, simp_all add: l st)
qed

lemma lease_releaseD:
  assumes "lease_release le l = (le', l')"
  shows "le' = le\<lparr>le_released := True\<rparr>"
    and "le_released le \<Longrightarrow> l' = l"
    and "\<not> le_released le \<Longrightarrow> l' = lane_release (le_lane le) l"
  using assms by (auto simp: lease_release_def split: if_splits)

lemma is_ok_iff: "is_ok r \<longleftrightarrow> (\<exists>a. r = Inr a)"
  by (cases r) simp_all

lemma lease_lane_known:
  assumes "lanes_inv s" and "i < length (sy_leases s)"
  shows "\<exists>st. lane_get (sy_lanes s) (le_lane (sy_leases s ! i)) = Inr st"
  using assms nth_mem [OF assms(2)] unfolding lanes_inv_def callers_ok_def is_ok_iff by blast

text \<open>A live lease is released: its slot goes to the head of the queue, or becomes free.\<close>

lemma inv_release:
  assumes inv: "lanes_inv s" and i: "i < length (sy_leases s)"
    and rel: "lease_release (sy_leases s ! i) (sy_lanes s) = (le', l')"
  shows "lanes_inv (s\<lparr>sy_lanes := l', sy_leases := (sy_leases s)[i := le']\<rparr>)" (is "lanes_inv ?t")
proof (cases "le_released (sy_leases s ! i)")
  case True
  then have "le' = sy_leases s ! i" "l' = sy_lanes s" using rel by (simp_all add: lease_release_def)
  with inv show ?thesis by simp
next
  case False
  let ?lane = "le_lane (sy_leases s ! i)"
  note rl = lease_releaseD [OF rel]
  obtain st where st: "lane_get (sy_lanes s) ?lane = Inr st"
    using lease_lane_known [OF inv i] by blast
  have ok: "lane_ok s ?lane st" using inv st by (simp add: lanes_inv_def)
  have live: "live_leases x s = live_leases x ?t + (if x = ?lane then 1 else 0)" for x
    using tbl_count_list_update [OF i, of "\<lambda>le. le_lane le = x \<and> \<not> le_released le" le'] False rl(1)
    by (auto simp: live_leases_def split: if_splits)
  from live [of ?lane] ok have pos: "ln_in_flight st > 0" by (simp add: lane_ok_def)
  have leases: "le_lane le \<in> le_lane ` set (sy_leases s)" if "le \<in> set ((sy_leases s)[i := le'])" for le
    using that i rl(1) by (auto dest!: set_update_subset_insert [THEN subsetD])
  show ?thesis
  proof (cases "ln_waiters st")
    case Nil
    let ?st = "st\<lparr>ln_in_flight := ln_in_flight st - 1\<rparr>"
    from rl(3) [OF False] st pos Nil have l': "l' = lane_put ?lane ?st (sy_lanes s)"
      by (simp add: lane_release_def)
    have rest: "handed_over x ?t = handed_over x s" "waiting x ?t = waiting x s" for x
      by (simp_all add: handed_over_def waiting_def l')
    have here: "lane_ok ?t ?lane ?st" if "lane_ok s ?lane st"
      using that Nil unfolding lane_ok_def live rest by auto
    have callers: "callers_ok ?t" if "callers_ok s"
      using that st leases by (fastforce simp: callers_ok_def l')
    show ?thesis
      by (rule lanes_inv_change_lane [OF inv st _ _ _ _ here callers])
        (simp_all only: live rest, simp_all add: l' st)
  next
    case (Cons w ws)
    let ?st = "st\<lparr>ln_waiters := ws\<rparr>"
    from rl(3) [OF False] st pos Cons
    have l': "l' = (lane_put ?lane ?st (sy_lanes s))\<lparr>rl_owned := w # rl_owned (sy_lanes s)\<rparr>"
      by (simp add: lane_release_def)
    from ok Cons have q: "waiting ?lane s = w # ws" by (simp add: lane_ok_def)
    then have "w \<in> set (waiting ?lane s)" by simp
    then have w: "(w, ?lane) \<in> set (sy_pending s)" "w \<notin> set (rl_owned (sy_lanes s))"
      by (auto simp: waiting_def)
    have dist: "distinct (map fst (sy_pending s))" using inv by (simp add: lanes_inv_def callers_ok_def)
    have hand: "handed_over x ?t = handed_over x s + (if x = ?lane then 1 else 0)" for x
      using pending_owned(1) [OF dist w] by (simp add: handed_over_def l')
    have wait: "waiting x ?t = remove1 w (waiting x s)" for x
      using pending_owned(2) [OF dist w] by (simp add: waiting_def l')
    have wait': "waiting x ?t = waiting x s" if "x \<noteq> ?lane" for x
    proof -
      have "w \<notin> set (waiting x s)"
        using that w(1) dist by (auto simp: waiting_def dest: eq_key_imp_eq_value)
      then show ?thesis by (simp add: wait remove1_idem)
    qed
    have here: "lane_ok ?t ?lane ?st" if "lane_ok s ?lane st"
      using that Cons pos unfolding lane_ok_def live hand wait q by auto
    have callers: "callers_ok ?t" if "callers_ok s"
    proof -
      have "w < rl_next_waiter (sy_lanes s)"
        using that w(1) by (force simp: callers_ok_def)
      moreover have "is_ok (lane_get (sy_lanes s) (le_lane le))" if "le \<in> set ((sy_leases s)[i := le'])" for le
        using leases [OF that] \<open>callers_ok s\<close> by (auto simp: callers_ok_def)
      ultimately show ?thesis using that st by (simp add: callers_ok_def l')
    qed
    show ?thesis
      by (rule lanes_inv_change_lane [OF inv st _ _ _ _ here callers])
        (rule_tac [4] wait', simp_all only: live hand, simp_all add: l' st)
  qed
qed

lemma lanes_inv_step: "lanes_step s t \<Longrightarrow> lanes_inv s \<Longrightarrow> lanes_inv t"
proof (induction rule: lanes_step.induct)
  case (enter_refused lane s e l')
  then show ?case by (auto dest!: enter_refusedD)
next
  case (done_granted w lane s e g l')
  then show ?case
    by (auto simp: acquire_cancel_def split: if_splits dest: inv_pending_done)
next
  case (done_refused w lane s e l')
  then have "w \<notin> set (rl_owned (sy_lanes s))"
    by (auto simp: acquire_cancel_def split: if_splits)
  with done_refused show ?case by (rule_tac inv_pending_dropped)
qed (blast intro: inv_enter_granted inv_enter_waiting inv_pending_done inv_release)+

definition lanes_start :: "lanes_sys \<Rightarrow> bool" where
  "lanes_start s \<longleftrightarrow> s = lanes_init"

interpretation lanes: transition_system lanes_start lanes_step lanes_inv
  by unfold_locales (auto intro: lanes_inv_init lanes_inv_step simp: lanes_start_def)

text \<open>A concrete run: a caller takes the transfer slot, the next one waits for it.\<close>

definition lanes_demo :: lanes_sys where
  "lanes_demo = \<lparr>
     sy_lanes = new_read_lanes\<lparr>
       rl_transfer := \<lparr>ln_limit = 1, ln_queue_limit = -1, ln_in_flight = 1, ln_waiters = [0]\<rparr>,
       rl_next_waiter := 1\<rparr>,
     sy_pending = [(0, TransferLane)],
     sy_leases = [new_lease TransferLane]\<rparr>"

lemma lanes_demo_reachable: "reachable_from lanes_start lanes_step lanes_demo"
proof -
  let ?l1 = "snd (acquire_enter False TransferLane new_read_lanes)"
  let ?s1 = "lanes_init\<lparr>sy_lanes := ?l1, sy_leases := sy_leases lanes_init @ [new_lease TransferLane]\<rparr>"
  have "lanes_step lanes_init ?s1"
    by (rule enter_granted [where nil = False and lane = TransferLane])
      (simp add: acquire_enter_def lanes_init_def new_read_lanes_def)
  then have "reachable_from lanes_start lanes_step ?s1"
    by (rule reach_step [OF reach_init, rotated]) (simp add: lanes_start_def)
  moreover have "lanes_step ?s1 (?s1\<lparr>sy_lanes := sy_lanes lanes_demo,
      sy_pending := sy_pending ?s1 @ [(0, TransferLane)]\<rparr>)"
    by (rule enter_waiting [where nil = False and lane = TransferLane])
      (simp add: acquire_enter_def lanes_init_def new_read_lanes_def lanes_demo_def)
  moreover have "?s1\<lparr>sy_lanes := sy_lanes lanes_demo,
      sy_pending := sy_pending ?s1 @ [(0, TransferLane)]\<rparr> = lanes_demo"
    by (simp add: lanes_demo_def lanes_init_def)
  ultimately show ?thesis by (metis reach_step)
qed

section \<open>Properties\<close>

text \<open>C20. However callers acquire, cancel and release: the interactive lane never has more than 4
  leases out and 32 callers queued, the transfer lane never more than 1 lease out, \<open>Snapshot\<close>
  counts at least the leases out, and nobody waits while a slot is free.\<close>

theorem read_lanes_bounded:
  assumes "reachable_from lanes_start lanes_step s"
  defines "n \<equiv> lanes_snapshot (sy_lanes s)"
  shows "live_leases InteractiveLane s \<le> sn_interactive_in_flight n \<and> sn_interactive_in_flight n \<le> 4
    \<and> live_leases TransferLane s \<le> sn_transfer_in_flight n \<and> sn_transfer_in_flight n \<le> 1
    \<and> sn_interactive_waiting n \<le> 32
    \<and> (sn_interactive_in_flight n < 4 \<longrightarrow> waiting InteractiveLane s = [])
    \<and> (sn_transfer_in_flight n < 1 \<longrightarrow> waiting TransferLane s = [])"
proof -
  from lanes.reachable_inv [OF assms(1)]
  have "lane_ok s InteractiveLane (rl_interactive (sy_lanes s))"
    "lane_ok s TransferLane (rl_transfer (sy_lanes s))"
    by (simp_all add: lanes_inv_def)
  then show ?thesis by (auto simp: n_def lanes_snapshot_def lane_ok_def)
qed

theorem read_lanes_bounded_witness:
  "live_leases TransferLane lanes_demo = 1 \<and> waiting TransferLane lanes_demo = [0] \<and>
   live_leases TransferLane lanes_demo \<le> sn_transfer_in_flight (lanes_snapshot (sy_lanes lanes_demo)) \<and>
   sn_transfer_in_flight (lanes_snapshot (sy_lanes lanes_demo)) \<le> 1"
  using read_lanes_bounded [OF lanes_demo_reachable]
  by (simp add: lanes_demo_def live_leases_def waiting_def new_lease_def new_read_lanes_def table_simps)

text \<open>No slot is lost and the queue is FIFO: releasing a live lease while callers wait gives
  its slot to the longest-waiting one, whose \<open>Acquire\<close> can return a lease at once; the number of
  slots in use does not change, and a second \<open>Release\<close> of the same lease changes nothing.\<close>

theorem release_hands_slot_to_oldest:
  assumes reach: "reachable_from lanes_start lanes_step s"
    and i: "i < length (sy_leases s)" "\<not> le_released (sy_leases s ! i)"
    and lane: "le_lane (sy_leases s ! i) = lane" "waiting lane s = w # ws"
    and rel: "lease_release (sy_leases s ! i) (sy_lanes s) = (le', l')"
  defines "t \<equiv> s\<lparr>sy_lanes := l', sy_leases := (sy_leases s)[i := le']\<rparr>"
  shows "waiting lane t = ws \<and> handed_over lane t = Suc (handed_over lane s) \<and>
    lane_get l' lane = map_sum (\<lambda>e. e) (\<lambda>st. st\<lparr>ln_waiters := ws\<rparr>) (lane_get (sy_lanes s) lane) \<and>
    lease_release le' l' = (le', l') \<and>
    (\<exists>t'. lanes_step t t' \<and> live_leases lane t' = live_leases lane s \<and> sy_lanes t' = l')"
proof -
  have inv: "lanes_inv s" by (rule lanes.reachable_inv [OF reach])
  obtain st where st: "lane_get (sy_lanes s) lane = Inr st"
    using lease_lane_known [OF inv i(1)] lane(1) by blast
  have ok: "lane_ok s lane st" using inv st by (simp add: lanes_inv_def)
  note rl = lease_releaseD [OF rel]
  have live: "live_leases lane s = Suc (live_leases lane t)"
    using tbl_count_list_update [OF i(1), of "\<lambda>le. le_lane le = lane \<and> \<not> le_released le" le'] i(2) rl(1) lane(1)
    by (simp add: live_leases_def t_def)
  with ok lane(2) have l': "l' = (lane_put lane (st\<lparr>ln_waiters := ws\<rparr>) (sy_lanes s))
      \<lparr>rl_owned := w # rl_owned (sy_lanes s)\<rparr>"
    using rl(3) [OF i(2)] st lane(1) by (simp add: lane_release_def lane_ok_def)
  have "w \<in> set (waiting lane s)" using lane(2) by simp
  then have w: "(w, lane) \<in> set (sy_pending s)" "w \<notin> set (rl_owned (sy_lanes s))"
    by (auto simp: waiting_def)
  have dist: "distinct (map fst (sy_pending s))" using inv by (simp add: lanes_inv_def callers_ok_def)
  have "waiting lane t = ws" "handed_over lane t = Suc (handed_over lane s)"
    using pending_owned [OF dist w, where x = lane] lane(2)
    by (simp_all add: waiting_def handed_over_def t_def l')
  moreover have "lanes_step t (t\<lparr>sy_pending := filter (\<lambda>p. fst p \<noteq> w) (sy_pending t),
                    sy_leases := sy_leases t @ [new_lease lane]\<rparr>)"
    by (rule ready) (use w in \<open>simp_all add: t_def l'\<close>)
  moreover have "live_leases lane (t\<lparr>sy_pending := filter (\<lambda>p. fst p \<noteq> w) (sy_pending t),
                    sy_leases := sy_leases t @ [new_lease lane]\<rparr>) = live_leases lane s"
    using live by (simp add: live_leases_def table_simps new_lease_def)
  moreover have "lease_release le' l' = (le', l')" using rl(1) by (simp add: lease_release_def)
  moreover have "sy_lanes (t\<lparr>sy_pending := filter (\<lambda>p. fst p \<noteq> w) (sy_pending t),
                    sy_leases := sy_leases t @ [new_lease lane]\<rparr>) = l'" by (simp add: t_def)
  moreover have "lane_get l' lane = map_sum (\<lambda>e. e) (\<lambda>st. st\<lparr>ln_waiters := ws\<rparr>) (lane_get (sy_lanes s) lane)"
    using st by (simp add: l')
  ultimately show ?thesis by blast
qed

theorem release_hands_slot_to_oldest_witness:
  "waiting TransferLane (lanes_demo\<lparr>
       sy_lanes := snd (lease_release (new_lease TransferLane) (sy_lanes lanes_demo)),
       sy_leases := [fst (lease_release (new_lease TransferLane) (sy_lanes lanes_demo))]\<rparr>) = []"
  using release_hands_slot_to_oldest [OF lanes_demo_reachable, of 0 TransferLane 0 "[]"
      "fst (lease_release (new_lease TransferLane) (sy_lanes lanes_demo))"
      "snd (lease_release (new_lease TransferLane) (sy_lanes lanes_demo))"]
  by (simp add: lanes_demo_def waiting_def new_lease_def new_read_lanes_def)

end
