(* ===== verification/Go_Text.thy ===== *)
theory Go_Text
  imports Prelude
begin

text \<open>
  The functions of Go's \<open>strings\<close> package the code relies on, over byte strings (a \<open>char\<close> is one
  byte of the UTF-8 encoding, as in a Go string).

  \<open>TrimSpace\<close> strips every Unicode White_Space code point; \<open>white_space\<close> lists their encodings.
\<close>

definition byte_text :: "nat list \<Rightarrow> string" where
  "byte_text bs = map char_of bs"

definition white_space :: "string list" where
  "white_space =
     map (\<lambda>b. byte_text [b]) [9, 10, 11, 12, 13, 32] @
     map byte_text [[0xC2, 0x85], [0xC2, 0xA0], [0xE1, 0x9A, 0x80]] @
     map (\<lambda>b. byte_text [0xE2, 0x80, b]) ([0x80..<0x8B] @ [0xA8, 0xA9, 0xAF]) @
     map byte_text [[0xE2, 0x81, 0x9F], [0xE3, 0x80, 0x80]]"

fun has_prefix :: "string \<Rightarrow> string \<Rightarrow> bool" where
  "has_prefix [] s = True"
| "has_prefix (c # p) [] = False"
| "has_prefix (c # p) (d # s) = (c = d \<and> has_prefix p s)"

function strip_front :: "string list \<Rightarrow> string \<Rightarrow> string" where
  "strip_front ws s =
     (case List.find (\<lambda>w. w \<noteq> [] \<and> has_prefix w s) ws of
        None \<Rightarrow> s
      | Some w \<Rightarrow> if s = [] then s else strip_front ws (drop (length w) s))"
  by pat_completeness auto
termination
  by (relation "measure (length \<circ> snd)") (auto simp: find_Some_iff)

declare strip_front.simps [simp del]

definition trim_space :: "string \<Rightarrow> string" where
  "trim_space s =
     rev (strip_front (map rev white_space) (rev (strip_front white_space s)))"

definition is_blank :: "string \<Rightarrow> bool" where
  "is_blank s \<longleftrightarrow> trim_space s = []"

lemma white_space_nonempty: "w \<in> set white_space \<Longrightarrow> w \<noteq> []"
  by (auto simp: white_space_def byte_text_def)

lemma has_prefix_iff: "has_prefix p s \<longleftrightarrow> (\<exists>r. s = p @ r)"
  by (induction p s rule: has_prefix.induct) auto

lemma strip_front_id:
  "(\<And>w. w \<in> set ws \<Longrightarrow> w \<noteq> [] \<Longrightarrow> \<not> has_prefix w s) \<Longrightarrow> strip_front ws s = s"
  by (subst strip_front.simps) (auto simp: find_None_iff split: option.splits dest: find_Some_iff [THEN iffD1])

lemma strip_front_Nil [simp]: "strip_front ws [] = []"
  by (subst strip_front.simps) (simp split: option.split)

lemma is_blank_Nil [simp]: "is_blank []"
  by (simp add: is_blank_def trim_space_def)

text \<open>A string whose first byte is printable ASCII is not blank.\<close>

lemma not_blank_ascii:
  assumes "(32::nat) < of_char c" "of_char c < (128::nat)"
  shows "\<not> is_blank (c # s)"
proof -
  have front: "strip_front white_space (c # s) = c # s"
  proof (rule strip_front_id)
    fix w assume "w \<in> set white_space" "w \<noteq> []"
    then have "of_char (hd w) \<le> (32::nat) \<or> of_char (hd w) \<ge> (128::nat)"
      by (auto simp: white_space_def byte_text_def)
    with assms \<open>w \<noteq> []\<close> show "\<not> has_prefix w (c # s)"
      by (cases w) auto
  qed
  have "strip_front (map rev white_space) t \<noteq> []" if "c \<in> set t" for t
    using that
  proof (induction "map rev white_space" t rule: strip_front.induct)
    case (1 t)
    show ?case
    proof (cases "List.find (\<lambda>w. w \<noteq> [] \<and> has_prefix w t) (map rev white_space)")
      case None
      then show ?thesis using "1.prems" by (subst strip_front.simps) auto
    next
      case (Some w)
      then obtain v where w: "w = rev v" "v \<in> set white_space" and pre: "has_prefix w t"
        by (auto simp: find_Some_iff dest: nth_mem)
      from w(2) have "of_char d \<le> (32::nat) \<or> of_char d \<ge> (128::nat)" if "d \<in> set v" for d
        using that by (auto simp: white_space_def byte_text_def)
      with assms w have "c \<notin> set w" by force
      with pre "1.prems" have "c \<in> set (drop (length w) t)"
        by (auto simp: has_prefix_iff)
      moreover have "t \<noteq> []" using "1.prems" by auto
      ultimately have "strip_front (map rev white_space) (drop (length w) t) \<noteq> []"
        using "1.hyps" Some by simp
      then show ?thesis
        using Some \<open>t \<noteq> []\<close> by (subst strip_front.simps) simp
    qed
  qed
  then show ?thesis by (simp add: is_blank_def trim_space_def front)
qed

end
