(* ===== verification/Export_Lane.thy ===== *)
theory Export_Lane
  imports Go_Text
begin

text \<open>
  \<open>internal/exportlane/scheduler.go\<close>: the job scheduler of the transfer lane.

  Each method body between \<open>Lock\<close> and \<open>Unlock\<close> is one function on \<open>scheduler\<close>, the struct of the
  same name: \<open>es_jobs\<close> is the job map (its rows keyed by \<open>jr_id\<close>), \<open>es_groups\<close> the generation
  groups.  A \<open>context.CancelFunc\<close> is the number of the context it cancels; \<open>es_canceled\<close> holds the
  contexts that are canceled.  \<open>export_step\<close> interleaves the methods with one goroutine
  \<open>runGeneration\<close> per group, whose program point is a \<open>worker\<close>; the transfer lane and the executor
  may answer anything.
\<close>

abbreviation StateQueued :: string where "StateQueued \<equiv> ''QUEUED''"
abbreviation StateRunning :: string where "StateRunning \<equiv> ''RUNNING''"
abbreviation StateCancelRequested :: string where "StateCancelRequested \<equiv> ''CANCEL_REQUESTED''"
abbreviation StatePausedRestartable :: string where "StatePausedRestartable \<equiv> ''PAUSED_RESTARTABLE''"
abbreviation StateSucceeded :: string where "StateSucceeded \<equiv> ''SUCCEEDED''"
abbreviation StateCanceled :: string where "StateCanceled \<equiv> ''CANCELED''"
abbreviation StateFailed :: string where "StateFailed \<equiv> ''FAILED''"

abbreviation ErrorHeaderTimeout :: string where "ErrorHeaderTimeout \<equiv> ''EXPORT_HEADER_TIMEOUT''"
abbreviation ErrorIdleTimeout :: string where "ErrorIdleTimeout \<equiv> ''EXPORT_IDLE_TIMEOUT''"
abbreviation ErrorRequestDeadline :: string where "ErrorRequestDeadline \<equiv> ''EXPORT_REQUEST_DEADLINE''"
abbreviation ErrorExecutionFailed :: string where "ErrorExecutionFailed \<equiv> ''EXPORT_EXECUTION_FAILED''"

abbreviation ErrHeaderTimeout :: go_error where "ErrHeaderTimeout \<equiv> Sentinel PkgExportlane ErrorHeaderTimeout"
abbreviation ErrIdleTimeout :: go_error where "ErrIdleTimeout \<equiv> Sentinel PkgExportlane ErrorIdleTimeout"
abbreviation ErrRequestDeadline :: go_error where "ErrRequestDeadline \<equiv> Sentinel PkgExportlane ErrorRequestDeadline"
abbreviation ErrInvalidJob :: go_error where "ErrInvalidJob \<equiv> Sentinel PkgExportlane ''INVALID_EXPORT_JOB''"
abbreviation ErrDuplicateJob :: go_error where "ErrDuplicateJob \<equiv> Sentinel PkgExportlane ''EXPORT_JOB_ALREADY_EXISTS''"
abbreviation ErrJobNotFound :: go_error where "ErrJobNotFound \<equiv> Sentinel PkgExportlane ''EXPORT_JOB_NOT_FOUND''"
abbreviation ErrStateConflict :: go_error where "ErrStateConflict \<equiv> Sentinel PkgExportlane ''EXPORT_JOB_STATE_CONFLICT''"
abbreviation ErrSchedulerClosed :: go_error where "ErrSchedulerClosed \<equiv> Sentinel PkgExportlane ''EXPORT_SCHEDULER_CLOSED''"
abbreviation ErrLaneUnavailable :: go_error where "ErrLaneUnavailable \<equiv> Sentinel PkgExportlane ''EXPORT_TRANSFER_LANE_UNAVAILABLE''"
abbreviation context_Canceled :: go_error where "context_Canceled \<equiv> Sentinel PkgContext ''context canceled''"
abbreviation context_DeadlineExceeded :: go_error where
  "context_DeadlineExceeded \<equiv> Sentinel PkgContext ''context deadline exceeded''"

section \<open>Data\<close>

type_synonym generation_key = "string \<times> string"

datatype quantum_kind = QuantumMetadata | QuantumTimeSlice | OtherQuantum string

record quantum =
  qm_id :: string
  qm_kind :: quantum_kind
  qm_database :: string
  qm_retention_policy :: string
  qm_query :: string

record job_request =
  jq_id :: string
  jq_generation :: generation_key
  jq_quanta :: "quantum list"

record job_snapshot =
  js_id :: string
  js_generation :: generation_key
  js_state :: string
  js_terminal :: bool
  js_total_quanta :: nat
  js_completed_quanta :: nat
  js_remaining_quanta :: nat
  js_active_quantum_id :: string
  js_cancel_requested :: bool
  js_public_error_code :: string

record job_record =
  jr_id :: string
  jr_generation :: generation_key
  jr_state :: string
  jr_terminal :: bool
  jr_total :: nat
  jr_completed :: nat
  jr_quanta :: "quantum list"
  jr_active_quantum_id :: string
  jr_cancel_requested :: bool
  jr_pause_requested :: bool
  jr_public_error_code :: string
  jr_claimed :: bool
  jr_cancel :: "nat option"

record generation_group =
  gg_ready :: "string list"
  gg_wake :: bool
  gg_stop :: bool

record scheduler =
  es_jobs :: "job_record list"
  es_groups :: "generation_key \<rightharpoonup> generation_group"
  es_closed :: bool
  es_canceled :: "nat list"
  es_next_ctx :: nat

text \<open>
  The error of the executor is a tree: a leaf compared by identity, a \<open>*RestartableError\<close> with its
  code and cause, a wrapping error or a joined one.  \<open>errors.Is\<close> and \<open>errors.As\<close> visit it in
  pre-order.
\<close>

datatype exec_error =
    Leaf go_error
  | RestartableError string "exec_error option"
  | Wrapped string exec_error
  | Joined "exec_error list"

fun restartable_error_text :: "string \<Rightarrow> string option \<Rightarrow> string" where
  "restartable_error_text code None = code"
| "restartable_error_text code (Some cause) = code @ '': '' @ cause"

definition restartable :: "string \<Rightarrow> exec_error option \<Rightarrow> exec_error" where
  "restartable code cause =
     RestartableError (if is_blank code then ErrorExecutionFailed else code) cause"

fun errors_is :: "exec_error \<Rightarrow> go_error \<Rightarrow> bool" where
  "errors_is (Leaf e) target = (e = target)"
| "errors_is (RestartableError _ None) target = False"
| "errors_is (RestartableError _ (Some cause)) target = errors_is cause target"
| "errors_is (Wrapped _ e) target = errors_is e target"
| "errors_is (Joined es) target = list_ex (\<lambda>e. errors_is e target) es"

fun as_restartable :: "exec_error \<Rightarrow> string option" where
  "as_restartable (Leaf e) = None"
| "as_restartable (RestartableError code _) = Some code"
| "as_restartable (Wrapped _ e) = as_restartable e"
| "as_restartable (Joined es) =
     foldr (\<lambda>e r. case as_restartable e of None \<Rightarrow> r | Some c \<Rightarrow> Some c) es None"

definition timeout_code :: "exec_error \<Rightarrow> string option" where
  "timeout_code err =
     (case as_restartable err of
        Some code \<Rightarrow> Some code
      | None \<Rightarrow>
          if errors_is err ErrHeaderTimeout then Some ErrorHeaderTimeout
          else if errors_is err ErrIdleTimeout then Some ErrorIdleTimeout
          else if errors_is err ErrRequestDeadline \<or> errors_is err context_DeadlineExceeded
          then Some ErrorRequestDeadline
          else None)"

section \<open>The methods\<close>

fun valid_quanta :: "string list \<Rightarrow> quantum list \<Rightarrow> bool" where
  "valid_quanta seen [] = True"
| "valid_quanta seen (q # qs) =
     (if is_blank (qm_id q) \<or> is_blank (qm_query q) then False
      else if qm_kind q \<noteq> QuantumMetadata \<and> qm_kind q \<noteq> QuantumTimeSlice then False
      else if qm_id q \<in> set seen then False
      else valid_quanta (qm_id q # seen) qs)"

definition validate_job_request :: "job_request \<Rightarrow> unit result" where
  "validate_job_request r =
     (if is_blank (jq_id r) \<or> is_blank (fst (jq_generation r)) \<or> is_blank (snd (jq_generation r))
         \<or> jq_quanta r = [] then Inl ErrInvalidJob
      else require (valid_quanta [] (jq_quanta r)) ErrInvalidJob)"

definition snapshot :: "job_record \<Rightarrow> job_snapshot" where
  "snapshot r = \<lparr>
     js_id = jr_id r, js_generation = jr_generation r, js_state = jr_state r,
     js_terminal = jr_terminal r, js_total_quanta = jr_total r,
     js_completed_quanta = jr_completed r, js_remaining_quanta = length (jr_quanta r),
     js_active_quantum_id = jr_active_quantum_id r, js_cancel_requested = jr_cancel_requested r,
     js_public_error_code = jr_public_error_code r\<rparr>"

definition new_scheduler :: scheduler where
  "new_scheduler = \<lparr>es_jobs = [], es_groups = (\<lambda>_. None), es_closed = False,
     es_canceled = [], es_next_ctx = 0\<rparr>"

abbreviation job_at :: "scheduler \<Rightarrow> string \<Rightarrow> job_record option" where
  "job_at s jid \<equiv> tbl_get jr_id jid (es_jobs s)"

definition set_job :: "string \<Rightarrow> (job_record \<Rightarrow> job_record) \<Rightarrow> scheduler \<Rightarrow> scheduler" where
  "set_job jid f s = s\<lparr>es_jobs := tbl_upd (\<lambda>r. jr_id r = jid) f (es_jobs s)\<rparr>"

definition set_group ::
  "generation_key \<Rightarrow> (generation_group \<Rightarrow> generation_group) \<Rightarrow> scheduler \<Rightarrow> scheduler" where
  "set_group g f s = s\<lparr>es_groups := (es_groups s)(g := map_option f (es_groups s g))\<rparr>"

definition call_cancel :: "job_record \<Rightarrow> scheduler \<Rightarrow> scheduler" where
  "call_cancel r s =
     (case jr_cancel r of None \<Rightarrow> s | Some c \<Rightarrow> s\<lparr>es_canceled := c # es_canceled s\<rparr>)"

text \<open>\<open>append(group.ready, id)\<close> with the non-blocking send on the one-slot \<open>wake\<close> channel.\<close>

definition enqueue :: "string \<Rightarrow> generation_group \<Rightarrow> generation_group" where
  "enqueue jid g = g\<lparr>gg_ready := gg_ready g @ [jid], gg_wake := True\<rparr>"

definition submit :: "(generation_key \<Rightarrow> bool) \<Rightarrow> job_request \<Rightarrow> scheduler \<Rightarrow> job_snapshot result \<times> scheduler" where
  "submit has_lane req s =
     (case validate_job_request req of Inl e \<Rightarrow> (Inl e, s)
      | Inr _ \<Rightarrow>
        if es_closed s then (Inl ErrSchedulerClosed, s)
        else if job_at s (jq_id req) \<noteq> None then (Inl ErrDuplicateJob, s)
        else if es_groups s (jq_generation req) = None \<and> \<not> has_lane (jq_generation req)
        then (Inl ErrLaneUnavailable, s)
        else
          let group = (case es_groups s (jq_generation req) of
                         None \<Rightarrow> \<lparr>gg_ready = [], gg_wake = False, gg_stop = False\<rparr>
                       | Some g \<Rightarrow> g);
              record = \<lparr>jr_id = jq_id req, jr_generation = jq_generation req,
                 jr_state = StateQueued, jr_terminal = False,
                 jr_total = length (jq_quanta req), jr_completed = 0, jr_quanta = jq_quanta req,
                 jr_active_quantum_id = '''', jr_cancel_requested = False,
                 jr_pause_requested = False, jr_public_error_code = '''',
                 jr_claimed = False, jr_cancel = None\<rparr>
          in (Inr (snapshot record),
              s\<lparr>es_jobs := es_jobs s @ [record],
                es_groups := (es_groups s)(jq_generation req \<mapsto> enqueue (jq_id req) group)\<rparr>))"

definition get_job :: "string \<Rightarrow> scheduler \<Rightarrow> job_snapshot result" where
  "get_job jid s = (case job_at s jid of None \<Rightarrow> Inl ErrJobNotFound | Some r \<Rightarrow> Inr (snapshot r))"

text \<open>The effect of \<open>Cancel\<close> on a job that is not terminal, with \<open>cancelRequested\<close> set first.\<close>

definition cancel_live :: "string \<Rightarrow> job_record \<Rightarrow> scheduler \<Rightarrow> scheduler" where
  "cancel_live jid r s =
     (let s = set_job jid (\<lambda>r. r\<lparr>jr_cancel_requested := True\<rparr>) s in
      if jr_state r = StateQueued then
        call_cancel r (set_job jid (\<lambda>r. r\<lparr>jr_state := StateCanceled, jr_terminal := True\<rparr>)
          (set_group (jr_generation r) (\<lambda>g. g\<lparr>gg_ready := remove1 jid (gg_ready g)\<rparr>) s))
      else if jr_state r = StateRunning \<or> jr_state r = StateCancelRequested then
        call_cancel r (set_job jid (\<lambda>r. r\<lparr>jr_state := StateCancelRequested\<rparr>) s)
      else if jr_state r = StatePausedRestartable then
        set_job jid (\<lambda>r. r\<lparr>jr_state := StateCanceled, jr_terminal := True\<rparr>) s
      else s)"

definition cancel :: "string \<Rightarrow> scheduler \<Rightarrow> job_snapshot result \<times> scheduler" where
  "cancel jid s =
     (case job_at s jid of
        None \<Rightarrow> (Inl ErrJobNotFound, s)
      | Some r \<Rightarrow>
          if jr_terminal r \<or> jr_state r = StateCanceled then (Inr (snapshot r), s)
          else
            let s' = cancel_live jid r s in
            if jr_state r \<notin> {StateQueued, StateRunning, StateCancelRequested, StatePausedRestartable}
            then (Inl ErrStateConflict, s')
            else (get_job jid s', s'))"

definition restart :: "string \<Rightarrow> scheduler \<Rightarrow> job_snapshot result \<times> scheduler" where
  "restart jid s =
     (if es_closed s then (Inl ErrSchedulerClosed, s)
      else case job_at s jid of
        None \<Rightarrow> (Inl ErrJobNotFound, s)
      | Some r \<Rightarrow>
          if jr_state r \<noteq> StatePausedRestartable \<or> jr_terminal r \<or> jr_claimed r
          then (Inl ErrStateConflict, s)
          else
            let s' = set_group (jr_generation r) (enqueue jid)
              (set_job jid (\<lambda>r. r\<lparr>jr_state := StateQueued, jr_cancel_requested := False,
                 jr_pause_requested := False, jr_public_error_code := ''''\<rparr>) s)
            in (get_job jid s', s'))"

text \<open>One turn of the loop of \<open>PauseGeneration\<close> over the job map, then the whole first section.\<close>

definition pause_job :: "generation_key \<Rightarrow> string \<Rightarrow> scheduler \<Rightarrow> scheduler" where
  "pause_job gen jid s =
     (case job_at s jid of
        None \<Rightarrow> s
      | Some r \<Rightarrow>
          if jr_generation r \<noteq> gen \<or> jr_terminal r \<or> jr_cancel_requested r then s
          else
            let s = set_job jid (\<lambda>r. r\<lparr>jr_pause_requested := True\<rparr>) s in
            if jr_state r = StateQueued then
              let s = set_group gen (\<lambda>g. g\<lparr>gg_ready := remove1 jid (gg_ready g)\<rparr>) s in
              if \<not> jr_claimed r then set_job jid (\<lambda>r. r\<lparr>jr_state := StatePausedRestartable\<rparr>) s
              else call_cancel r s
            else if jr_state r = StateRunning \<or> jr_state r = StateCancelRequested
            then call_cancel r s
            else s)"

definition pause_generation :: "generation_key \<Rightarrow> scheduler \<Rightarrow> scheduler" where
  "pause_generation gen s = fold (pause_job gen) (map jr_id (es_jobs s)) s"

text \<open>The polling section: \<open>PauseGeneration\<close> returns nil at the first poll that finds nothing.\<close>

definition pause_pending :: "generation_key \<Rightarrow> scheduler \<Rightarrow> bool" where
  "pause_pending gen s \<longleftrightarrow>
     list_ex (\<lambda>r. jr_generation r = gen \<and> jr_pause_requested r \<and> jr_claimed r) (es_jobs s)"

definition close_job :: "string \<Rightarrow> scheduler \<Rightarrow> scheduler" where
  "close_job jid s =
     (case job_at s jid of
        None \<Rightarrow> s
      | Some r \<Rightarrow>
          if jr_terminal r then s
          else call_cancel r (set_job jid (\<lambda>r.
             if jr_state r = StateRunning \<or> jr_state r = StateCancelRequested
             then r\<lparr>jr_pause_requested := True\<rparr>
             else r\<lparr>jr_pause_requested := True, jr_state := StatePausedRestartable\<rparr>) s))"

definition close_scheduler :: "scheduler \<Rightarrow> scheduler" where
  "close_scheduler s =
     (if es_closed s then s
      else
        let s1 = fold close_job (map jr_id (es_jobs s)) (s\<lparr>es_closed := True\<rparr>) in
        s1\<lparr>es_groups := (\<lambda>k. map_option (\<lambda>g. g\<lparr>gg_stop := True\<rparr>) (es_groups s1 k))\<rparr>)"

section \<open>The goroutine of a group\<close>

text \<open>The loop of \<open>claim\<close>: the jobs it skips leave the ready list for good.\<close>

fun claim_loop :: "scheduler \<Rightarrow> string list \<Rightarrow> (job_record \<times> quantum) option \<times> string list" where
  "claim_loop s [] = (None, [])"
| "claim_loop s (jid # ready) =
     (case job_at s jid of
        None \<Rightarrow> claim_loop s ready
      | Some r \<Rightarrow>
          if jr_state r \<noteq> StateQueued \<or> jr_terminal r \<or> jr_claimed r then claim_loop s ready
          else case jr_quanta r of
            [] \<Rightarrow> claim_loop s ready
          | q # _ \<Rightarrow> (Some (r, q), ready))"

definition claim :: "generation_key \<Rightarrow> scheduler \<Rightarrow> (string \<times> quantum \<times> nat) option \<times> scheduler" where
  "claim k s =
     (case es_groups s k of
        None \<Rightarrow> (None, s)
      | Some g \<Rightarrow>
          let (found, ready) = claim_loop s (gg_ready g);
              s = s\<lparr>es_groups := (es_groups s)(k \<mapsto> g\<lparr>gg_ready := ready\<rparr>)\<rparr>
          in case found of
               None \<Rightarrow> (None, s)
             | Some (r, q) \<Rightarrow>
                 let ctx = es_next_ctx s in
                 (Some (jr_id r, q, ctx),
                  set_job (jr_id r) (\<lambda>r. r\<lparr>jr_claimed := True, jr_cancel := Some ctx\<rparr>)
                    (s\<lparr>es_next_ctx := Suc ctx\<rparr>)))"

definition mark_running :: "string \<Rightarrow> string \<Rightarrow> scheduler \<Rightarrow> bool \<times> scheduler" where
  "mark_running jid quantum_id s =
     (case job_at s jid of
        None \<Rightarrow> (False, s)
      | Some r \<Rightarrow>
          if jr_state r \<noteq> StateQueued \<or> jr_terminal r \<or> jr_cancel_requested r \<or> \<not> jr_claimed r
          then (False, s)
          else (True, set_job jid (\<lambda>r. r\<lparr>jr_state := StateRunning,
                        jr_active_quantum_id := quantum_id\<rparr>) s))"

definition clear_claim :: "string \<Rightarrow> job_record \<Rightarrow> scheduler \<Rightarrow> scheduler" where
  "clear_claim jid r s =
     set_job jid (\<lambda>r. r\<lparr>jr_cancel := None, jr_claimed := False, jr_active_quantum_id := ''''\<rparr>)
       (call_cancel r s)"

definition finish_before_dispatch :: "string \<Rightarrow> exec_error \<Rightarrow> scheduler \<Rightarrow> scheduler" where
  "finish_before_dispatch jid dispatch_err s =
     (case job_at s jid of
        None \<Rightarrow> s
      | Some r \<Rightarrow>
          set_job jid (\<lambda>r.
            if jr_pause_requested r then r\<lparr>jr_state := StatePausedRestartable\<rparr>
            else if jr_terminal r \<or> jr_cancel_requested r \<or> errors_is dispatch_err context_Canceled
            then r\<lparr>jr_state := StateCanceled, jr_terminal := True\<rparr>
            else r\<lparr>jr_state := StateFailed, jr_terminal := True,
                   jr_public_error_code := ErrorExecutionFailed\<rparr>)
            (clear_claim jid r s))"

definition settle_job :: "string \<Rightarrow> exec_error option \<Rightarrow> job_record \<Rightarrow> job_record" where
  "settle_job quantum_id execution_err r =
     (if jr_cancel_requested r \<or> jr_state r = StateCancelRequested
      then r\<lparr>jr_state := StateCanceled, jr_terminal := True\<rparr>
      else if jr_pause_requested r
      then r\<lparr>jr_state := StatePausedRestartable, jr_public_error_code := ErrorExecutionFailed\<rparr>
      else case execution_err of
        Some err \<Rightarrow>
          (case timeout_code err of
             Some code \<Rightarrow> r\<lparr>jr_state := StatePausedRestartable, jr_public_error_code := code\<rparr>
           | None \<Rightarrow> r\<lparr>jr_state := StateFailed, jr_terminal := True,
                       jr_public_error_code := ErrorExecutionFailed\<rparr>)
      | None \<Rightarrow>
          if jr_quanta r = [] \<or> qm_id (hd (jr_quanta r)) \<noteq> quantum_id
          then r\<lparr>jr_state := StateFailed, jr_terminal := True,
                 jr_public_error_code := ErrorExecutionFailed\<rparr>
          else
            let r = r\<lparr>jr_quanta := tl (jr_quanta r), jr_completed := jr_completed r + 1\<rparr> in
            if jr_quanta r = [] then r\<lparr>jr_state := StateSucceeded, jr_terminal := True\<rparr>
            else r\<lparr>jr_state := StateQueued\<rparr>)"

definition finish_quantum ::
  "generation_key \<Rightarrow> string \<Rightarrow> string \<Rightarrow> exec_error option \<Rightarrow> scheduler \<Rightarrow> scheduler" where
  "finish_quantum k jid quantum_id execution_err s =
     (case job_at s jid of
        None \<Rightarrow> s
      | Some r \<Rightarrow>
          let s = set_job jid (settle_job quantum_id execution_err) (clear_claim jid r s)
          in if map_option jr_state (job_at s jid) = Some StateQueued
             then set_group k (enqueue jid) s
             else s)"

section \<open>The methods and the goroutines, interleaved\<close>

text \<open>
  The program points of \<open>runGeneration\<close>: before \<open>claim\<close>, in \<open>select\<close>, in \<open>Acquire\<close> with a claimed
  job, on the way to \<open>finishBeforeDispatch\<close>, inside \<open>ExecuteQuantum\<close> (the lease is held), returned.
  \<open>xs_requests\<close> and \<open>xs_done\<close> are ghosts: the accepted requests and the executions without an error.
\<close>

datatype worker = WClaim | WWait | WAcquire string quantum nat | WDrop string exec_error
  | WExecute string quantum nat | WStopped

record export_sys =
  xs_sched :: scheduler
  xs_worker :: "generation_key \<Rightarrow> worker"
  xs_requests :: "job_request list"
  xs_done :: "(string \<times> quantum) list"

definition export_start :: "export_sys \<Rightarrow> bool" where
  "export_start s \<longleftrightarrow>
     s = \<lparr>xs_sched = new_scheduler, xs_worker = (\<lambda>_. WClaim), xs_requests = [], xs_done = []\<rparr>"

abbreviation at_worker :: "generation_key \<Rightarrow> worker \<Rightarrow> export_sys \<Rightarrow> export_sys" where
  "at_worker k w s \<equiv> s\<lparr>xs_worker := (xs_worker s)(k := w)\<rparr>"

inductive export_step :: "export_sys \<Rightarrow> export_sys \<Rightarrow> bool" where
  do_submit: "submit has_lane req (xs_sched s) = (res, sc) \<Longrightarrow>
    export_step s (s\<lparr>xs_sched := sc,
      xs_requests := xs_requests s @ (if is_ok res then [req] else [])\<rparr>)"
| do_cancel: "cancel jid (xs_sched s) = (res, sc) \<Longrightarrow> export_step s (s\<lparr>xs_sched := sc\<rparr>)"
| do_restart: "restart jid (xs_sched s) = (res, sc) \<Longrightarrow> export_step s (s\<lparr>xs_sched := sc\<rparr>)"
| do_pause: "export_step s (s\<lparr>xs_sched := pause_generation gen (xs_sched s)\<rparr>)"
| do_close: "export_step s (s\<lparr>xs_sched := close_scheduler (xs_sched s)\<rparr>)"
| claimed: "es_groups (xs_sched s) k \<noteq> None \<Longrightarrow> xs_worker s k = WClaim \<Longrightarrow>
    claim k (xs_sched s) = (Some (jid, q, ctx), sc) \<Longrightarrow>
    export_step s (at_worker k (WAcquire jid q ctx) (s\<lparr>xs_sched := sc\<rparr>))"
| nothing_ready: "es_groups (xs_sched s) k \<noteq> None \<Longrightarrow> xs_worker s k = WClaim \<Longrightarrow>
    claim k (xs_sched s) = (None, sc) \<Longrightarrow>
    export_step s (at_worker k WWait (s\<lparr>xs_sched := sc\<rparr>))"
| woken: "es_groups (xs_sched s) k = Some g \<Longrightarrow> xs_worker s k = WWait \<Longrightarrow> gg_wake g \<Longrightarrow>
    export_step s (at_worker k WClaim
      (s\<lparr>xs_sched := set_group k (\<lambda>g. g\<lparr>gg_wake := False\<rparr>) (xs_sched s)\<rparr>))"
| stopped: "es_groups (xs_sched s) k = Some g \<Longrightarrow> xs_worker s k = WWait \<Longrightarrow> gg_stop g \<Longrightarrow>
    export_step s (at_worker k WStopped s)"
| not_acquired: "xs_worker s k = WAcquire jid q ctx \<Longrightarrow>
    export_step s (at_worker k (WDrop jid err) s)"
| dispatched: "xs_worker s k = WAcquire jid q ctx \<Longrightarrow>
    mark_running jid (qm_id q) (xs_sched s) = (True, sc) \<Longrightarrow>
    export_step s (at_worker k (WExecute jid q ctx) (s\<lparr>xs_sched := sc\<rparr>))"
| not_marked: "xs_worker s k = WAcquire jid q ctx \<Longrightarrow>
    mark_running jid (qm_id q) (xs_sched s) = (False, sc) \<Longrightarrow>
    export_step s (at_worker k (WDrop jid (Leaf context_Canceled)) (s\<lparr>xs_sched := sc\<rparr>))"
| dropped: "xs_worker s k = WDrop jid err \<Longrightarrow>
    export_step s (at_worker k WClaim
      (s\<lparr>xs_sched := finish_before_dispatch jid err (xs_sched s)\<rparr>))"
| executed: "xs_worker s k = WExecute jid q ctx \<Longrightarrow>
    export_step s (at_worker k WClaim
      (s\<lparr>xs_sched := finish_quantum k jid (qm_id q) err (xs_sched s),
         xs_done := xs_done s @ (if err = None then [(jid, q)] else [])\<rparr>))"

section \<open>The job invariant\<close>

datatype phase = Away | Acquiring quantum | Dropping | Executing quantum

fun view :: "worker \<Rightarrow> string \<Rightarrow> phase" where
  "view (WAcquire j q c) jid = (if j = jid then Acquiring q else Away)"
| "view (WDrop j e) jid = (if j = jid then Dropping else Away)"
| "view (WExecute j q c) jid = (if j = jid then Executing q else Away)"
| "view _ jid = Away"

fun executing :: "phase \<Rightarrow> bool" where
  "executing (Executing q) = True"
| "executing _ = False"

fun phase_ok :: "phase \<Rightarrow> job_record \<Rightarrow> bool" where
  "phase_ok (Acquiring q) r = (jr_quanta r \<noteq> [] \<and> hd (jr_quanta r) = q)"
| "phase_ok (Executing q) r =
     (jr_quanta r \<noteq> [] \<and> hd (jr_quanta r) = q \<and> jr_active_quantum_id r = qm_id q \<and> \<not> jr_terminal r)"
| "phase_ok _ r = True"

definition live_ok :: "bool \<Rightarrow> job_record \<Rightarrow> bool" where
  "live_ok ex r \<longleftrightarrow> jr_quanta r \<noteq> [] \<and>
     (if ex then jr_state r = (if jr_cancel_requested r then StateCancelRequested else StateRunning)
      else (jr_state r = StateQueued \<or> jr_state r = StatePausedRestartable) \<and> \<not> jr_cancel_requested r)"

definition terminal_ok :: "job_record \<Rightarrow> bool" where
  "terminal_ok r \<longleftrightarrow>
     (jr_state r = StateSucceeded \<longleftrightarrow> jr_quanta r = []) \<and>
     (jr_claimed r \<longrightarrow> jr_state r = StateCanceled \<and> jr_cancel_requested r) \<and>
     (jr_state r = StateSucceeded \<or> jr_state r = StateCanceled \<or> jr_state r = StateFailed \<or>
      jr_state r = StatePausedRestartable \<and> jr_cancel_requested r \<and> jr_pause_requested r)"

definition job_ok :: "bool \<Rightarrow> nat \<Rightarrow> phase \<Rightarrow> job_record \<Rightarrow> bool" where
  "job_ok closed n ph r \<longleftrightarrow>
     jr_completed r + length (jr_quanta r) = jr_total r \<and>
     (jr_claimed r \<longleftrightarrow> ph \<noteq> Away) \<and> (jr_cancel r \<noteq> None \<longleftrightarrow> jr_claimed r) \<and>
     (\<not> closed \<longrightarrow> n = (if jr_state r = StateQueued \<and> \<not> jr_claimed r then 1 else 0)) \<and>
     (if jr_terminal r then terminal_ok r else live_ok (executing ph) r) \<and>
     phase_ok ph r"

lemmas job_ok_defs = job_ok_def terminal_ok_def live_ok_def

text \<open>What has been executed of a job: a prefix of the request's quanta, each one successfully.\<close>

definition progress :: "job_request list \<Rightarrow> (string \<times> quantum) list \<Rightarrow> job_record \<Rightarrow> bool" where
  "progress reqs dn r \<longleftrightarrow>
     (\<exists>req\<in>set reqs. jq_id req = jr_id r \<and> jq_generation req = jr_generation r \<and>
        jr_total r = length (jq_quanta req) \<and>
        jr_quanta r = drop (jr_completed r) (jq_quanta req) \<and>
        (\<forall>q\<in>set (take (jr_completed r) (jq_quanta req)). (jr_id r, q) \<in> set dn))"

definition export_core :: "export_sys \<Rightarrow> bool" where
  "export_core s \<longleftrightarrow>
     distinct (map jr_id (es_jobs (xs_sched s))) \<and>
     (\<forall>r\<in>set (es_jobs (xs_sched s)). \<exists>g. es_groups (xs_sched s) (jr_generation r) = Some g \<and>
        job_ok (es_closed (xs_sched s)) (count_list (gg_ready g) (jr_id r))
          (view (xs_worker s (jr_generation r)) (jr_id r)) r \<and>
        progress (xs_requests s) (xs_done s) r) \<and>
     (\<forall>k g jid. es_groups (xs_sched s) k = Some g \<longrightarrow>
        jid \<in> set (gg_ready g) \<or> view (xs_worker s k) jid \<noteq> Away \<longrightarrow>
        (\<exists>r. job_at (xs_sched s) jid = Some r \<and> jr_generation r = k)) \<and>
     (\<forall>k g. es_groups (xs_sched s) k = Some g \<longrightarrow> xs_worker s k = WWait \<longrightarrow>
        gg_ready g \<noteq> [] \<longrightarrow> gg_wake g) \<and>
     (\<forall>k. es_groups (xs_sched s) k = None \<longrightarrow> xs_worker s k = WClaim)"

definition quiet :: "job_record \<Rightarrow> bool" where
  "quiet r \<longleftrightarrow> jr_terminal r \<or> jr_pause_requested r \<and> jr_state r \<noteq> StateQueued"

definition closed_quiet :: "export_sys \<Rightarrow> bool" where
  "closed_quiet s \<longleftrightarrow>
     (es_closed (xs_sched s) \<longrightarrow> (\<forall>r\<in>set (es_jobs (xs_sched s)). quiet r))"

definition export_inv :: "export_sys \<Rightarrow> bool" where
  "export_inv s \<longleftrightarrow> export_core s \<and> closed_quiet s"

text \<open>
  Every method works on one job and on the ready list of its group.  This rule is the frame of
  such a change: what is left to show is about that job only.
\<close>

lemma export_core_change:
  assumes inv: "export_core s" and r: "job_at (xs_sched s) jid = Some r"
    and g: "es_groups (xs_sched s) (jr_generation r) = Some g"
    and jobs: "es_jobs sc = tbl_upd (\<lambda>r. jr_id r = jid) f (es_jobs (xs_sched s))"
    and keep: "\<And>r. jr_id (f r) = jr_id r" "\<And>r. jr_generation (f r) = jr_generation r"
    and closed: "es_closed sc = es_closed (xs_sched s)"
    and groups: "es_groups sc = (es_groups (xs_sched s))(jr_generation r \<mapsto> g')"
    and ready: "\<And>j. j \<noteq> jid \<Longrightarrow> count_list (gg_ready g') j = count_list (gg_ready g) j"
    and worker: "\<And>j. j \<noteq> jid \<Longrightarrow> view w j = view (xs_worker s (jr_generation r)) j"
    and wake: "w = WWait \<Longrightarrow> gg_ready g' \<noteq> [] \<Longrightarrow> gg_wake g'"
    and dn: "set (xs_done s) \<subseteq> set dn"
    and ok: "job_ok (es_closed (xs_sched s)) (count_list (gg_ready g) jid)
          (view (xs_worker s (jr_generation r)) jid) r \<Longrightarrow>
        job_ok (es_closed (xs_sched s)) (count_list (gg_ready g') jid) (view w jid) (f r)"
    and prog: "progress (xs_requests s) (xs_done s) r \<Longrightarrow> progress (xs_requests s) dn (f r)"
  shows "export_core (at_worker (jr_generation r) w (s\<lparr>xs_sched := sc, xs_done := dn\<rparr>))"
    (is "export_core ?t")
proof -
  let ?k = "jr_generation r"
  have rid: "jr_id r = jid" "r \<in> set (es_jobs (xs_sched s))" using tbl_get_SomeD [OF r] by auto
  have at: "job_at sc j = map_option (\<lambda>x. if jr_id x = jid then f x else x) (job_at (xs_sched s) j)" for j
    by (simp add: jobs tbl_get_upd keep)
  have dist: "distinct (map jr_id (es_jobs (xs_sched s)))" using inv by (simp add: export_core_def)
  have same: "x = r" if "x \<in> set (es_jobs (xs_sched s))" "jr_id x = jid" for x
    using tbl_get_unique [OF dist that(1)] that(2) r by simp
  have mem: "j \<in> set (gg_ready g') \<Longrightarrow> j = jid \<or> j \<in> set (gg_ready g)" for j
    by (metis count_list_0_iff ready)
  have prog_mono: "progress (xs_requests s) dn x" if "progress (xs_requests s) (xs_done s) x" for x
    using that dn by (fastforce simp: progress_def)
  have "\<exists>h. es_groups sc (jr_generation x) = Some h \<and>
        job_ok (es_closed sc) (count_list (gg_ready h) (jr_id x)) (view (xs_worker ?t (jr_generation x)) (jr_id x)) x \<and>
        progress (xs_requests s) dn x" if x: "x \<in> set (es_jobs sc)" for x
  proof -
    from x obtain y where y: "y \<in> set (es_jobs (xs_sched s))" "x = (if jr_id y = jid then f y else y)"
      unfolding jobs set_tbl_upd by blast
    show ?thesis
    proof (cases "jr_id y = jid")
    case True
    with same y have x': "x = f r" by simp
    from inv rid(2) g have
      "job_ok (es_closed (xs_sched s)) (count_list (gg_ready g) jid) (view (xs_worker s ?k) jid) r"
      "progress (xs_requests s) (xs_done s) r"
      by (auto simp: export_core_def rid(1))
    from ok [OF this(1)] prog [OF this(2)] show ?thesis
      by (simp add: x' groups closed keep rid(1))
  next
    case False
    then have x': "x \<in> set (es_jobs (xs_sched s))" "jr_id x \<noteq> jid" using y by auto
    from inv x'(1) obtain h where h: "es_groups (xs_sched s) (jr_generation x) = Some h"
      "job_ok (es_closed (xs_sched s)) (count_list (gg_ready h) (jr_id x))
         (view (xs_worker s (jr_generation x)) (jr_id x)) x"
      "progress (xs_requests s) (xs_done s) x"
      unfolding export_core_def by blast
    with x'(2) g show ?thesis
      by (cases "jr_generation x = ?k") (simp_all add: groups closed ready worker prog_mono)
    qed
  qed
  moreover have "\<exists>x. job_at sc j = Some x \<and> jr_generation x = k"
    if "es_groups sc k = Some h" "j \<in> set (gg_ready h) \<or> view (xs_worker ?t k) j \<noteq> Away" for k h j
  proof (cases "j = jid \<and> k = ?k")
    case True
    then show ?thesis using r by (simp add: at keep)
  next
    case False
    have "\<exists>h'. es_groups (xs_sched s) k = Some h' \<and>
        (j \<in> set (gg_ready h') \<or> view (xs_worker s k) j \<noteq> Away)"
      using that False g mem worker by (cases "k = ?k") (auto simp: groups)
    with inv obtain x where "job_at (xs_sched s) j = Some x" "jr_generation x = k"
      unfolding export_core_def by blast
    then show ?thesis by (simp add: at keep)
  qed
  ultimately show ?thesis
    using inv wake unfolding export_core_def
    by (auto simp: groups jobs map_key_upd keep split: if_splits)
qed

section \<open>Every step keeps the invariant\<close>

lemma sched_simps [simp]:
  "es_jobs (set_job j f sc) = tbl_upd (\<lambda>r. jr_id r = j) f (es_jobs sc)"
  "es_groups (set_job j f sc) = es_groups sc"
  "es_closed (set_job j f sc) = es_closed sc"
  "es_jobs (set_group k h sc) = es_jobs sc"
  "es_groups (set_group k h sc) = (es_groups sc)(k := map_option h (es_groups sc k))"
  "es_closed (set_group k h sc) = es_closed sc"
  "es_jobs (call_cancel r sc) = es_jobs sc"
  "es_groups (call_cancel r sc) = es_groups sc"
  "es_closed (call_cancel r sc) = es_closed sc"
  by (simp_all add: set_job_def set_group_def call_cancel_def split: option.split)

lemma tbl_upd_twice:
  "(\<And>r. jr_id (h r) = jr_id r) \<Longrightarrow>
     tbl_upd (\<lambda>r. jr_id r = j) f (tbl_upd (\<lambda>r. jr_id r = j) h rows) =
     tbl_upd (\<lambda>r. jr_id r = j) (\<lambda>r. f (h r)) rows"
  by (simp add: tbl_upd_def)

lemma count_list_remove1:
  "count_list (remove1 j xs) i = (if i = j then count_list xs i - 1 else count_list xs i)"
  by (induction xs) (auto simp: count_list_0_iff)

lemma export_core_jobE:
  assumes "export_core s" and "job_at (xs_sched s) jid = Some r"
  obtains g where "es_groups (xs_sched s) (jr_generation r) = Some g" and "jr_id r = jid"
    and "job_ok (es_closed (xs_sched s)) (count_list (gg_ready g) jid)
          (view (xs_worker s (jr_generation r)) jid) r"
    and "progress (xs_requests s) (xs_done s) r"
  using assms tbl_get_SomeD [OF assms(2)] unfolding export_core_def by blast

lemma export_core_wake:
  "export_core s \<Longrightarrow> es_groups (xs_sched s) k = Some g \<Longrightarrow> xs_worker s k = WWait \<Longrightarrow>
     gg_ready g \<noteq> [] \<Longrightarrow> gg_wake g"
  unfolding export_core_def by blast

lemma export_core_job:
  assumes inv: "export_core s" and r: "job_at (xs_sched s) jid = Some r"
    and g: "es_groups (xs_sched s) (jr_generation r) = Some g"
    and jobs: "es_jobs sc = tbl_upd (\<lambda>r. jr_id r = jid) f (es_jobs (xs_sched s))"
    and keep: "\<And>r. jr_id (f r) = jr_id r" "\<And>r. jr_generation (f r) = jr_generation r"
    and closed: "es_closed sc = es_closed (xs_sched s)"
    and groups: "es_groups sc = (es_groups (xs_sched s))(jr_generation r \<mapsto> g')"
    and ready: "\<And>j. j \<noteq> jid \<Longrightarrow> count_list (gg_ready g') j = count_list (gg_ready g) j"
    and wake: "gg_wake g' = gg_wake g \<and> (gg_ready g = [] \<longrightarrow> gg_ready g' = []) \<or> gg_wake g'"
    and ok: "job_ok (es_closed (xs_sched s)) (count_list (gg_ready g) jid)
          (view (xs_worker s (jr_generation r)) jid) r \<Longrightarrow>
        job_ok (es_closed (xs_sched s)) (count_list (gg_ready g') jid)
          (view (xs_worker s (jr_generation r)) jid) (f r)"
    and prog: "jr_quanta (f r) = jr_quanta r" "jr_completed (f r) = jr_completed r"
      "jr_total (f r) = jr_total r"
  shows "export_core (s\<lparr>xs_sched := sc\<rparr>)"
proof -
  have "export_core (at_worker (jr_generation r) (xs_worker s (jr_generation r))
      (s\<lparr>xs_sched := sc, xs_done := xs_done s\<rparr>))"
    by (rule export_core_change [OF inv r g jobs keep closed groups ready _ _ _ ok])
      (use wake export_core_wake [OF inv g] prog keep in \<open>auto simp: progress_def\<close>)
  then show ?thesis by simp
qed

lemma core_cancel_live:
  assumes inv: "export_core s" and r: "job_at (xs_sched s) jid = Some r" and nt: "\<not> jr_terminal r"
  shows "export_core (s\<lparr>xs_sched := cancel_live jid r (xs_sched s)\<rparr>)"
proof -
  obtain g where g: "es_groups (xs_sched s) (jr_generation r) = Some g"
    and ok: "job_ok (es_closed (xs_sched s)) (count_list (gg_ready g) jid)
          (view (xs_worker s (jr_generation r)) jid) r"
    using export_core_jobE [OF inv r] by metis
  let ?run = "\<lambda>x. if jr_state r = StateRunning \<or> jr_state r = StateCancelRequested
      then x\<lparr>jr_cancel_requested := True, jr_state := StateCancelRequested\<rparr>
      else x\<lparr>jr_cancel_requested := True, jr_state := StateCanceled, jr_terminal := True\<rparr>"
  let ?g = "if jr_state r = StateQueued then g\<lparr>gg_ready := remove1 jid (gg_ready g)\<rparr> else g"
  have known: "jr_state r = StateQueued \<or> jr_state r = StateRunning \<or>
      jr_state r = StateCancelRequested \<or> jr_state r = StatePausedRestartable"
    using ok nt by (auto simp: job_ok_defs split: if_splits)
  show ?thesis
  proof (rule export_core_job [OF inv r g, where f = ?run and g' = ?g])
    show "es_jobs (cancel_live jid r (xs_sched s)) = tbl_upd (\<lambda>r. jr_id r = jid) ?run (es_jobs (xs_sched s))"
      using known by (auto simp: cancel_live_def Let_def tbl_upd_twice)
    show "es_groups (cancel_live jid r (xs_sched s)) = (es_groups (xs_sched s))(jr_generation r \<mapsto> ?g)"
      using g by (auto simp: cancel_live_def Let_def fun_upd_idem)
    assume "job_ok (es_closed (xs_sched s)) (count_list (gg_ready g) jid)
          (view (xs_worker s (jr_generation r)) jid) r"
    then show "job_ok (es_closed (xs_sched s)) (count_list (gg_ready ?g) jid)
          (view (xs_worker s (jr_generation r)) jid) (?run r)"
      using nt by (cases "view (xs_worker s (jr_generation r)) jid")
        (auto simp: job_ok_defs count_list_remove1 split: if_splits)
  qed (auto simp: cancel_live_def Let_def count_list_remove1)
qed

lemma core_restart:
  assumes inv: "export_core s" and r: "job_at (xs_sched s) jid = Some r"
    and st: "jr_state r = StatePausedRestartable" "\<not> jr_terminal r" "\<not> jr_claimed r"
  shows "export_core (s\<lparr>xs_sched := set_group (jr_generation r) (enqueue jid)
      (set_job jid (\<lambda>r. r\<lparr>jr_state := StateQueued, jr_cancel_requested := False,
         jr_pause_requested := False, jr_public_error_code := ''''\<rparr>) (xs_sched s))\<rparr>)"
proof -
  obtain g where g: "es_groups (xs_sched s) (jr_generation r) = Some g"
    using export_core_jobE [OF inv r] by metis
  show ?thesis
  proof (rule export_core_job [OF inv r g, where g' = "enqueue jid g"
        and f = "\<lambda>r. r\<lparr>jr_state := StateQueued, jr_cancel_requested := False,
         jr_pause_requested := False, jr_public_error_code := ''''\<rparr>"])
    assume "job_ok (es_closed (xs_sched s)) (count_list (gg_ready g) jid)
          (view (xs_worker s (jr_generation r)) jid) r"
    then show "job_ok (es_closed (xs_sched s)) (count_list (gg_ready (enqueue jid g)) jid)
          (view (xs_worker s (jr_generation r)) jid)
          (r\<lparr>jr_state := StateQueued, jr_cancel_requested := False,
             jr_pause_requested := False, jr_public_error_code := ''''\<rparr>)"
      using st by (cases "view (xs_worker s (jr_generation r)) jid") (auto simp: job_ok_defs enqueue_def)
  qed (auto simp: enqueue_def g)
qed

lemma core_pause_job:
  assumes inv: "export_core s"
  shows "export_core (s\<lparr>xs_sched := pause_job gen jid (xs_sched s)\<rparr>)"
proof (cases "job_at (xs_sched s) jid")
  case None
  with inv show ?thesis by (simp add: pause_job_def)
next
  case r: (Some r)
  show ?thesis
  proof (cases "jr_generation r \<noteq> gen \<or> jr_terminal r \<or> jr_cancel_requested r")
    case True
    with inv r show ?thesis by (simp add: pause_job_def)
  next
    case False
    obtain g where g: "es_groups (xs_sched s) (jr_generation r) = Some g"
      using export_core_jobE [OF inv r] by metis
    let ?f = "\<lambda>x. if jr_state r = StateQueued \<and> \<not> jr_claimed r
      then x\<lparr>jr_pause_requested := True, jr_state := StatePausedRestartable\<rparr>
      else x\<lparr>jr_pause_requested := True\<rparr>"
    let ?g = "if jr_state r = StateQueued then g\<lparr>gg_ready := remove1 jid (gg_ready g)\<rparr> else g"
    show ?thesis
    proof (rule export_core_job [OF inv r g, where f = ?f and g' = ?g])
      assume "job_ok (es_closed (xs_sched s)) (count_list (gg_ready g) jid)
          (view (xs_worker s (jr_generation r)) jid) r"
      then show "job_ok (es_closed (xs_sched s)) (count_list (gg_ready ?g) jid)
          (view (xs_worker s (jr_generation r)) jid) (?f r)"
        using False by (cases "view (xs_worker s (jr_generation r)) jid")
          (auto simp: job_ok_defs count_list_remove1 split: if_splits)
    qed (use False r g in \<open>auto simp: pause_job_def Let_def tbl_upd_twice count_list_remove1 fun_upd_idem\<close>)
  qed
qed

lemma core_close_job:
  assumes inv: "export_core s" and closed: "es_closed (xs_sched s)"
  shows "export_core (s\<lparr>xs_sched := close_job jid (xs_sched s)\<rparr>)"
proof (cases "job_at (xs_sched s) jid")
  case None
  with inv show ?thesis by (simp add: close_job_def)
next
  case r: (Some r)
  show ?thesis
  proof (cases "jr_terminal r")
    case True
    with inv r show ?thesis by (simp add: close_job_def)
  next
    case False
    obtain g where g: "es_groups (xs_sched s) (jr_generation r) = Some g"
      using export_core_jobE [OF inv r] by metis
    let ?f = "\<lambda>r. if jr_state r = StateRunning \<or> jr_state r = StateCancelRequested
             then r\<lparr>jr_pause_requested := True\<rparr>
             else r\<lparr>jr_pause_requested := True, jr_state := StatePausedRestartable\<rparr>"
    show ?thesis
    proof (rule export_core_job [OF inv r g, where f = ?f and g' = g])
      assume "job_ok (es_closed (xs_sched s)) (count_list (gg_ready g) jid)
          (view (xs_worker s (jr_generation r)) jid) r"
      then show "job_ok (es_closed (xs_sched s)) (count_list (gg_ready g) jid)
          (view (xs_worker s (jr_generation r)) jid) (?f r)"
        using False closed by (cases "view (xs_worker s (jr_generation r)) jid")
          (auto simp: job_ok_defs split: if_splits)
    qed (use False r g in \<open>auto simp: close_job_def fun_upd_idem\<close>)
  qed
qed

lemma export_coreI:
  assumes "distinct (map jr_id (es_jobs (xs_sched s)))"
    and "\<And>r. r \<in> set (es_jobs (xs_sched s)) \<Longrightarrow>
      \<exists>g. es_groups (xs_sched s) (jr_generation r) = Some g \<and>
        job_ok (es_closed (xs_sched s)) (count_list (gg_ready g) (jr_id r))
          (view (xs_worker s (jr_generation r)) (jr_id r)) r \<and>
        progress (xs_requests s) (xs_done s) r"
    and "\<And>k g jid. es_groups (xs_sched s) k = Some g \<Longrightarrow>
        jid \<in> set (gg_ready g) \<or> view (xs_worker s k) jid \<noteq> Away \<Longrightarrow>
        \<exists>r. job_at (xs_sched s) jid = Some r \<and> jr_generation r = k"
    and "\<And>k g. es_groups (xs_sched s) k = Some g \<Longrightarrow> xs_worker s k = WWait \<Longrightarrow>
        gg_ready g \<noteq> [] \<Longrightarrow> gg_wake g"
    and "\<And>k. es_groups (xs_sched s) k = None \<Longrightarrow> xs_worker s k = WClaim"
  shows "export_core s"
  using assms unfolding export_core_def by blast

lemma export_coreD:
  assumes "export_core s"
  shows "distinct (map jr_id (es_jobs (xs_sched s)))"
    and "r \<in> set (es_jobs (xs_sched s)) \<Longrightarrow>
      \<exists>g. es_groups (xs_sched s) (jr_generation r) = Some g \<and>
        job_ok (es_closed (xs_sched s)) (count_list (gg_ready g) (jr_id r))
          (view (xs_worker s (jr_generation r)) (jr_id r)) r \<and>
        progress (xs_requests s) (xs_done s) r"
    and "es_groups (xs_sched s) k = Some g \<Longrightarrow>
        jid \<in> set (gg_ready g) \<or> view (xs_worker s k) jid \<noteq> Away \<Longrightarrow>
        \<exists>r. job_at (xs_sched s) jid = Some r \<and> jr_generation r = k"
    and "es_groups (xs_sched s) k = None \<Longrightarrow> xs_worker s k = WClaim"
  using assms unfolding export_core_def by blast+

lemma job_ok_weaken:
  "job_ok closed n ph r \<Longrightarrow> (\<not> closed' \<Longrightarrow> \<not> closed \<and> n' = n) \<Longrightarrow> job_ok closed' n' ph r"
  by (auto simp: job_ok_def)

lemma core_fold:
  assumes "\<And>s jid. export_core s \<Longrightarrow> Q (xs_sched s) \<Longrightarrow> export_core (s\<lparr>xs_sched := f jid (xs_sched s)\<rparr>)"
    and "\<And>sc jid. Q sc \<Longrightarrow> Q (f jid sc)"
    and "export_core s" and "Q (xs_sched s)"
  shows "export_core (s\<lparr>xs_sched := fold f jids (xs_sched s)\<rparr>)"
  using assms(3,4)
proof (induction jids arbitrary: s)
  case (Cons jid jids)
  from Cons.IH [OF assms(1) [OF Cons.prems]] assms(2) [OF Cons.prems(2)] show ?case by simp
qed simp

lemma close_job_closed [simp]: "es_closed (close_job jid sc) = es_closed sc"
  by (simp add: close_job_def split: option.split)

lemma core_closed:
  assumes inv: "export_core s"
  shows "export_core (s\<lparr>xs_sched := (xs_sched s)\<lparr>es_closed := True\<rparr>\<rparr>)" (is "export_core ?t")
proof (rule export_coreI)
  fix r assume "r \<in> set (es_jobs (xs_sched ?t))"
  with export_coreD(2) [OF inv, of r]
  show "\<exists>g. es_groups (xs_sched ?t) (jr_generation r) = Some g \<and>
        job_ok (es_closed (xs_sched ?t)) (count_list (gg_ready g) (jr_id r))
          (view (xs_worker ?t (jr_generation r)) (jr_id r)) r \<and>
        progress (xs_requests ?t) (xs_done ?t) r"
    by (auto elim: job_ok_weaken)
qed (use export_coreD [OF inv] export_core_wake [OF inv] in auto)

lemma core_stop:
  assumes inv: "export_core s"
  shows "export_core (s\<lparr>xs_sched := (xs_sched s)\<lparr>es_groups :=
           (\<lambda>k. map_option (\<lambda>g. g\<lparr>gg_stop := True\<rparr>) (es_groups (xs_sched s) k))\<rparr>\<rparr>)" (is "export_core ?t")
proof (rule export_coreI)
  fix r assume "r \<in> set (es_jobs (xs_sched ?t))"
  with export_coreD(2) [OF inv, of r]
  show "\<exists>g. es_groups (xs_sched ?t) (jr_generation r) = Some g \<and>
        job_ok (es_closed (xs_sched ?t)) (count_list (gg_ready g) (jr_id r))
          (view (xs_worker ?t (jr_generation r)) (jr_id r)) r \<and>
        progress (xs_requests ?t) (xs_done ?t) r"
    by auto
qed (use export_coreD [OF inv] export_core_wake [OF inv] in auto)

lemma core_close:
  assumes inv: "export_core s"
  shows "export_core (s\<lparr>xs_sched := close_scheduler (xs_sched s)\<rparr>)"
proof (cases "es_closed (xs_sched s)")
  case True
  with inv show ?thesis by (simp add: close_scheduler_def)
next
  case False
  let ?s = "s\<lparr>xs_sched := (xs_sched s)\<lparr>es_closed := True\<rparr>\<rparr>"
  let ?jids = "map jr_id (es_jobs (xs_sched s))"
  have "export_core (?s\<lparr>xs_sched := fold close_job ?jids (xs_sched ?s)\<rparr>)"
    by (rule core_fold [where Q = es_closed]) (simp_all add: core_close_job core_closed inv)
  from core_stop [OF this] False show ?thesis
    by (simp add: close_scheduler_def Let_def)
qed

lemma core_pause:
  "export_core s \<Longrightarrow> export_core (s\<lparr>xs_sched := pause_generation gen (xs_sched s)\<rparr>)"
  unfolding pause_generation_def
  by (rule core_fold [where Q = "\<lambda>_. True"]) (simp_all add: core_pause_job)

lemma core_group:
  assumes inv: "export_core s" and g: "es_groups (xs_sched s) k = Some g"
    and ready: "set (gg_ready g') \<subseteq> set (gg_ready g)"
      "\<And>j. \<not> es_closed (xs_sched s) \<Longrightarrow> count_list (gg_ready g') j = count_list (gg_ready g) j"
    and worker: "view w = view (xs_worker s k)"
    and wake: "w = WWait \<Longrightarrow> gg_ready g' \<noteq> [] \<Longrightarrow> gg_wake g'"
  shows "export_core (at_worker k w (s\<lparr>xs_sched := (xs_sched s)\<lparr>es_groups :=
           (es_groups (xs_sched s))(k \<mapsto> g')\<rparr>\<rparr>))"
  (is "export_core ?t")
proof (rule export_coreI)
  fix r assume r: "r \<in> set (es_jobs (xs_sched ?t))"
  then obtain h where h: "es_groups (xs_sched s) (jr_generation r) = Some h"
    "job_ok (es_closed (xs_sched s)) (count_list (gg_ready h) (jr_id r))
       (view (xs_worker s (jr_generation r)) (jr_id r)) r"
    "progress (xs_requests s) (xs_done s) r"
    using export_coreD(2) [OF inv, of r] by auto
  show "\<exists>g. es_groups (xs_sched ?t) (jr_generation r) = Some g \<and>
        job_ok (es_closed (xs_sched ?t)) (count_list (gg_ready g) (jr_id r))
          (view (xs_worker ?t (jr_generation r)) (jr_id r)) r \<and>
        progress (xs_requests ?t) (xs_done ?t) r"
    using h g ready(2) job_ok_weaken [OF h(2)]
    by (cases "jr_generation r = k") (simp_all add: worker)
next
  fix x h jid assume "es_groups (xs_sched ?t) x = Some h"
    "jid \<in> set (gg_ready h) \<or> view (xs_worker ?t x) jid \<noteq> Away"
  then show "\<exists>r. job_at (xs_sched ?t) jid = Some r \<and> jr_generation r = x"
    using export_coreD(3) [OF inv, of x _ jid] g ready(1)
    by (cases "x = k") (auto simp: worker)
qed (use export_coreD [OF inv] export_core_wake [OF inv] g wake in \<open>auto split: if_splits\<close>)

lemma submitD:
  assumes "submit has_lane req sc = (Inr snap, sc')"
  defines "g \<equiv> case es_groups sc (jq_generation req) of
      None \<Rightarrow> \<lparr>gg_ready = [], gg_wake = False, gg_stop = False\<rparr> | Some g \<Rightarrow> g"
    and "r \<equiv> \<lparr>jr_id = jq_id req, jr_generation = jq_generation req, jr_state = StateQueued,
       jr_terminal = False, jr_total = length (jq_quanta req), jr_completed = 0,
       jr_quanta = jq_quanta req, jr_active_quantum_id = '''', jr_cancel_requested = False,
       jr_pause_requested = False, jr_public_error_code = '''', jr_claimed = False, jr_cancel = None\<rparr>"
  shows "job_at sc (jq_id req) = None" and "jq_quanta req \<noteq> []" and "\<not> es_closed sc"
    and "sc' = sc\<lparr>es_jobs := es_jobs sc @ [r],
       es_groups := (es_groups sc)(jq_generation req \<mapsto> enqueue (jq_id req) g)\<rparr>"
    and "snap = snapshot r"
  using assms(1) unfolding g_def r_def
  by (auto simp: submit_def Let_def validate_job_request_def split: sum.splits if_splits)

lemma core_submit:
  assumes inv: "export_core s" and sub: "submit has_lane req (xs_sched s) = (Inr snap, sc)"
  shows "export_core (s\<lparr>xs_sched := sc, xs_requests := xs_requests s @ [req]\<rparr>)" (is "export_core ?t")
proof -
  note sub = submitD [OF sub]
  let ?k = "jq_generation req"
  define g where "g = (case es_groups (xs_sched s) ?k of
      None \<Rightarrow> \<lparr>gg_ready = [], gg_wake = False, gg_stop = False\<rparr> | Some g \<Rightarrow> g)"
  define r where "r = \<lparr>jr_id = jq_id req, jr_generation = ?k, jr_state = StateQueued,
       jr_terminal = False, jr_total = length (jq_quanta req), jr_completed = 0,
       jr_quanta = jq_quanta req, jr_active_quantum_id = '''', jr_cancel_requested = False,
       jr_pause_requested = False, jr_public_error_code = '''', jr_claimed = False, jr_cancel = None\<rparr>"
  have sc: "sc = (xs_sched s)\<lparr>es_jobs := es_jobs (xs_sched s) @ [r],
       es_groups := (es_groups (xs_sched s))(?k \<mapsto> enqueue (jq_id req) g)\<rparr>"
    using sub(4) by (simp add: g_def r_def)
  have none: "\<not> (es_groups (xs_sched s) k = Some h \<and>
      (jq_id req \<in> set (gg_ready h) \<or> view (xs_worker s k) (jq_id req) \<noteq> Away))" for k h
    using export_coreD(3) [OF inv] sub(1) by fastforce
  have away: "view (xs_worker s k) (jq_id req) = Away" for k
    using none [of k] export_coreD(4) [OF inv, of k] by (cases "es_groups (xs_sched s) k") auto
  have nready: "count_list (gg_ready g) (jq_id req) = 0"
    using none [of ?k] by (auto simp: g_def count_list_0_iff split: option.split)
  have prog: "progress (xs_requests s @ [req]) (xs_done s) x"
    if "progress (xs_requests s) (xs_done s) x" for x
    using that by (auto simp: progress_def)
  show ?thesis
  proof (rule export_coreI)
    show "distinct (map jr_id (es_jobs (xs_sched ?t)))"
      using export_coreD(1) [OF inv] sub(1) by (simp add: sc r_def tbl_get_None_iff)
  next
    fix x assume x: "x \<in> set (es_jobs (xs_sched ?t))"
    show "\<exists>g. es_groups (xs_sched ?t) (jr_generation x) = Some g \<and>
        job_ok (es_closed (xs_sched ?t)) (count_list (gg_ready g) (jr_id x))
          (view (xs_worker ?t (jr_generation x)) (jr_id x)) x \<and>
        progress (xs_requests ?t) (xs_done ?t) x"
    proof (cases "x = r")
      case True
      then show ?thesis using away nready sub(2,3)
        by (simp add: sc) (simp add: r_def job_ok_defs enqueue_def progress_def)
    next
      case False
      with x have x: "x \<in> set (es_jobs (xs_sched s))" by (simp add: sc)
      then have "jr_id x \<noteq> jq_id req" using sub(1) by (force simp: tbl_get_None_iff)
      moreover from export_coreD(2) [OF inv x] obtain h where
        "es_groups (xs_sched s) (jr_generation x) = Some h"
        "job_ok (es_closed (xs_sched s)) (count_list (gg_ready h) (jr_id x))
          (view (xs_worker s (jr_generation x)) (jr_id x)) x"
        "progress (xs_requests s) (xs_done s) x" by blast
      ultimately show ?thesis
        by (cases "jr_generation x = ?k") (simp_all add: sc prog g_def enqueue_def)
    qed
  next
    fix k h jid assume "es_groups (xs_sched ?t) k = Some h"
      "jid \<in> set (gg_ready h) \<or> view (xs_worker ?t k) jid \<noteq> Away"
    then have "jid = jq_id req \<and> k = ?k \<or> (\<exists>h'. es_groups (xs_sched s) k = Some h' \<and>
        (jid \<in> set (gg_ready h') \<or> view (xs_worker s k) jid \<noteq> Away))"
      using export_coreD(4) [OF inv, of k]
      by (auto simp: sc g_def enqueue_def split: if_splits option.splits)
    then have "jid = jq_id req \<and> k = ?k \<or> (\<exists>x. job_at (xs_sched s) jid = Some x \<and> jr_generation x = k)"
      using export_coreD(3) [OF inv] by blast
    then show "\<exists>x. job_at (xs_sched ?t) jid = Some x \<and> jr_generation x = k"
      using sub(1) by (auto simp: sc r_def tbl_get_append table_simps split: option.split)
  next
    fix k assume "es_groups (xs_sched ?t) k = None"
    then show "xs_worker ?t k = WClaim"
      using export_coreD(4) [OF inv, of k] by (simp add: sc split: if_splits)
  qed (use export_core_wake [OF inv] in \<open>auto simp: sc enqueue_def split: if_splits\<close>)
qed

lemma tbl_upd_same: "tbl_upd p (\<lambda>r. r) rows = rows"
  by (simp add: tbl_upd_def)

lemma claim_loop_open:
  assumes inv: "export_core s" and open_: "\<not> es_closed (xs_sched s)"
    and g: "es_groups (xs_sched s) k = Some g"
  shows "(case gg_ready g of
      [] \<Rightarrow> claim_loop (xs_sched s) (gg_ready g) = (None, [])
    | jid # ready \<Rightarrow> \<exists>r. job_at (xs_sched s) jid = Some r \<and> jr_generation r = k \<and> jr_id r = jid \<and>
        jr_state r = StateQueued \<and> \<not> jr_terminal r \<and> \<not> jr_claimed r \<and> jr_quanta r \<noteq> [] \<and>
        claim_loop (xs_sched s) (gg_ready g) = (Some (r, hd (jr_quanta r)), ready))"
proof (cases "gg_ready g")
  case (Cons jid ready)
  with export_coreD(3) [OF inv g, of jid] obtain r where
    r: "job_at (xs_sched s) jid = Some r" "jr_generation r = k" by auto
  from export_core_jobE [OF inv r(1)] r(2) g obtain
    ok: "job_ok False (count_list (gg_ready g) jid) (view (xs_worker s k) jid) r" and rid: "jr_id r = jid"
    using open_ by (metis option.inject)
  then have "jr_state r = StateQueued" "\<not> jr_claimed r" "\<not> jr_terminal r" "jr_quanta r \<noteq> []"
    using Cons by (auto simp: job_ok_defs split: if_splits)
  with r rid Cons show ?thesis by (auto split: list.split)
qed simp

lemma claim_loop_closed:
  assumes "\<forall>r\<in>set (es_jobs sc). quiet r"
  shows "claim_loop sc ready = (None, [])"
proof (induction ready)
  case (Cons jid ready)
  have "jr_state r \<noteq> StateQueued \<or> jr_terminal r" if "job_at sc jid = Some r" for r
    using tbl_get_SomeD [OF that] assms by (auto simp: quiet_def)
  with Cons show ?case by (auto split: option.split)
qed simp

lemma core_nothing_ready:
  assumes inv: "export_core s" and quiet: "closed_quiet s"
    and g: "es_groups (xs_sched s) k = Some g" and w: "xs_worker s k = WClaim"
    and none: "claim k (xs_sched s) = (None, sc)"
  shows "export_core (at_worker k WWait (s\<lparr>xs_sched := sc\<rparr>))"
proof -
  obtain ready where ready: "claim_loop (xs_sched s) (gg_ready g) = (None, ready)"
    and sc: "sc = (xs_sched s)\<lparr>es_groups := (es_groups (xs_sched s))(k \<mapsto> g\<lparr>gg_ready := ready\<rparr>)\<rparr>"
    using none g by (auto simp: claim_def Let_def split: prod.splits option.splits)
  have "ready = [] \<and> (\<not> es_closed (xs_sched s) \<longrightarrow> gg_ready g = [])"
  proof (cases "es_closed (xs_sched s)")
    case True
    with quiet claim_loop_closed [of "xs_sched s"] ready show ?thesis by (simp add: closed_quiet_def)
  next
    case False
    with claim_loop_open [OF inv False g] ready show ?thesis by (auto split: list.splits)
  qed
  then show ?thesis unfolding sc
    by (intro core_group [OF inv g]) (auto simp: w)
qed

lemma core_claimed:
  assumes inv: "export_core s" and quiet: "closed_quiet s"
    and w: "xs_worker s k = WClaim"
    and some: "claim k (xs_sched s) = (Some (jid, q, ctx), sc)"
  shows "export_core (at_worker k (WAcquire jid q ctx) (s\<lparr>xs_sched := sc\<rparr>))"
    and "\<exists>r. job_at (xs_sched s) jid = Some r \<and> jr_generation r = k \<and> \<not> es_closed (xs_sched s)"
proof -
  obtain g r ready where g: "es_groups (xs_sched s) k = Some g"
    and loop: "claim_loop (xs_sched s) (gg_ready g) = (Some (r, q), ready)"
    and jid: "jid = jr_id r" and ctx: "ctx = es_next_ctx (xs_sched s)"
    and sc: "sc = set_job jid (\<lambda>r. r\<lparr>jr_claimed := True, jr_cancel := Some ctx\<rparr>)
       ((xs_sched s)\<lparr>es_groups := (es_groups (xs_sched s))(k \<mapsto> g\<lparr>gg_ready := ready\<rparr>),
          es_next_ctx := Suc ctx\<rparr>)"
    using some by (auto simp: claim_def Let_def split: prod.splits option.splits)
  have open_: "\<not> es_closed (xs_sched s)"
    using quiet claim_loop_closed [of "xs_sched s"] loop by (auto simp: closed_quiet_def)
  obtain r' where c: "gg_ready g = jid # ready" "job_at (xs_sched s) jid = Some r" "jr_generation r = k"
    "jr_state r = StateQueued" "\<not> jr_terminal r" "\<not> jr_claimed r" "jr_quanta r \<noteq> []" "q = hd (jr_quanta r)"
    using claim_loop_open [OF inv open_ g] loop jid by (auto split: list.splits)
  have "export_core (at_worker (jr_generation r) (WAcquire jid q ctx)
      (s\<lparr>xs_sched := sc, xs_done := xs_done s\<rparr>))"
  proof (rule export_core_change [OF inv c(2),
        where f = "\<lambda>r. r\<lparr>jr_claimed := True, jr_cancel := Some ctx\<rparr>" and g' = "g\<lparr>gg_ready := ready\<rparr>"])
    show "es_groups (xs_sched s) (jr_generation r) = Some g" using g c(3) by simp
    assume "job_ok (es_closed (xs_sched s)) (count_list (gg_ready g) jid)
       (view (xs_worker s (jr_generation r)) jid) r"
    then show "job_ok (es_closed (xs_sched s)) (count_list (gg_ready (g\<lparr>gg_ready := ready\<rparr>)) jid)
       (view (WAcquire jid q ctx) jid) (r\<lparr>jr_claimed := True, jr_cancel := Some ctx\<rparr>)"
      using c w by (auto simp: job_ok_defs)
  qed (use c w in \<open>auto simp: sc progress_def\<close>)
  with c(3) show "export_core (at_worker k (WAcquire jid q ctx) (s\<lparr>xs_sched := sc\<rparr>))" by simp
  show "\<exists>r. job_at (xs_sched s) jid = Some r \<and> jr_generation r = k \<and> \<not> es_closed (xs_sched s)"
    using c(2,3) open_ by blast
qed

text \<open>The job a goroutine holds.\<close>

lemma core_held:
  assumes inv: "export_core s" and w: "view (xs_worker s k) jid \<noteq> Away"
  obtains r g where "job_at (xs_sched s) jid = Some r" "jr_generation r = k"
    "es_groups (xs_sched s) k = Some g"
    "job_ok (es_closed (xs_sched s)) (count_list (gg_ready g) jid) (view (xs_worker s k) jid) r"
    "progress (xs_requests s) (xs_done s) r"
proof -
  obtain g where g: "es_groups (xs_sched s) k = Some g"
    using w export_coreD(4) [OF inv, of k] by (cases "es_groups (xs_sched s) k") auto
  from export_coreD(3) [OF inv g] w obtain r where
    "job_at (xs_sched s) jid = Some r" "jr_generation r = k" by blast
  with export_core_jobE [OF inv this(1)] g that show thesis by (metis option.inject)
qed

lemma core_job:
  assumes "export_core s" and "job_at (xs_sched s) jid = Some r"
  shows "\<exists>n. jr_id r = jid \<and>
    job_ok (es_closed (xs_sched s)) n (view (xs_worker s (jr_generation r)) jid) r \<and>
    progress (xs_requests s) (xs_done s) r"
  by (rule export_core_jobE [OF assms]) blast

lemma core_held_job:
  assumes "export_core s" and "view (xs_worker s k) jid \<noteq> Away"
  shows "\<exists>r n. job_at (xs_sched s) jid = Some r \<and> jr_generation r = k \<and>
    job_ok (es_closed (xs_sched s)) n (view (xs_worker s k) jid) r"
  by (rule core_held [OF assms]) blast

lemma core_to_drop:
  assumes inv: "export_core s" and w: "xs_worker s k = WAcquire jid q ctx"
  shows "export_core (at_worker k (WDrop jid err) s)"
proof -
  have "view (xs_worker s k) jid \<noteq> Away" by (simp add: w)
  then obtain r g where r: "job_at (xs_sched s) jid = Some r" "jr_generation r = k"
    and g: "es_groups (xs_sched s) (jr_generation r) = Some g"
    using core_held [OF inv] by metis
  have "export_core (at_worker (jr_generation r) (WDrop jid err)
      (s\<lparr>xs_sched := xs_sched s, xs_done := xs_done s\<rparr>))"
  proof (rule export_core_change [OF inv r(1) g, where f = "\<lambda>r. r" and g' = g])
    assume "job_ok (es_closed (xs_sched s)) (count_list (gg_ready g) jid)
       (view (xs_worker s (jr_generation r)) jid) r"
    then show "job_ok (es_closed (xs_sched s)) (count_list (gg_ready g) jid) (view (WDrop jid err) jid) r"
      by (auto simp: job_ok_defs r(2) w split: if_splits)
  qed (use g r w in \<open>auto simp: tbl_upd_same fun_upd_idem\<close>)
  with r(2) show ?thesis by simp
qed

lemma core_dispatched:
  assumes inv: "export_core s" and w: "xs_worker s k = WAcquire jid q ctx"
    and mark: "mark_running jid (qm_id q) (xs_sched s) = (True, sc)"
  shows "export_core (at_worker k (WExecute jid q ctx) (s\<lparr>xs_sched := sc\<rparr>))"
proof -
  have "view (xs_worker s k) jid \<noteq> Away" by (simp add: w)
  then obtain r g where r: "job_at (xs_sched s) jid = Some r" "jr_generation r = k"
    and g: "es_groups (xs_sched s) (jr_generation r) = Some g"
    using core_held [OF inv] by metis
  let ?f = "\<lambda>r. r\<lparr>jr_state := StateRunning, jr_active_quantum_id := qm_id q\<rparr>"
  from mark r have c: "jr_state r = StateQueued" "\<not> jr_terminal r" "\<not> jr_cancel_requested r"
    and sc: "sc = set_job jid ?f (xs_sched s)"
    by (auto simp: mark_running_def split: if_splits)
  have "export_core (at_worker (jr_generation r) (WExecute jid q ctx)
      (s\<lparr>xs_sched := sc, xs_done := xs_done s\<rparr>))"
  proof (rule export_core_change [OF inv r(1) g, where f = ?f and g' = g])
    assume "job_ok (es_closed (xs_sched s)) (count_list (gg_ready g) jid)
       (view (xs_worker s (jr_generation r)) jid) r"
    then show "job_ok (es_closed (xs_sched s)) (count_list (gg_ready g) jid)
       (view (WExecute jid q ctx) jid) (?f r)"
      using c by (auto simp: job_ok_defs r(2) w split: if_splits)
  qed (use g r w in \<open>auto simp: sc fun_upd_idem progress_def\<close>)
  with r(2) show ?thesis by simp
qed

lemma core_dropped:
  assumes inv: "export_core s" and w: "xs_worker s k = WDrop jid err"
  shows "export_core (at_worker k WClaim
      (s\<lparr>xs_sched := finish_before_dispatch jid err (xs_sched s)\<rparr>))"
proof -
  have "view (xs_worker s k) jid \<noteq> Away" by (simp add: w)
  then obtain r g where r: "job_at (xs_sched s) jid = Some r" "jr_generation r = k"
    and g: "es_groups (xs_sched s) (jr_generation r) = Some g"
    using core_held [OF inv] by metis
  let ?h = "\<lambda>r. r\<lparr>jr_cancel := None, jr_claimed := False, jr_active_quantum_id := ''''\<rparr>"
  let ?f = "\<lambda>r. if jr_pause_requested r then ?h r\<lparr>jr_state := StatePausedRestartable\<rparr>
            else if jr_terminal r \<or> jr_cancel_requested r \<or> errors_is err context_Canceled
            then ?h r\<lparr>jr_state := StateCanceled, jr_terminal := True\<rparr>
            else ?h r\<lparr>jr_state := StateFailed, jr_terminal := True,
                   jr_public_error_code := ErrorExecutionFailed\<rparr>"
  have "export_core (at_worker (jr_generation r) WClaim
      (s\<lparr>xs_sched := finish_before_dispatch jid err (xs_sched s), xs_done := xs_done s\<rparr>))"
  proof (rule export_core_change [OF inv r(1) g, where f = ?f and g' = g])
    show "es_jobs (finish_before_dispatch jid err (xs_sched s)) =
        tbl_upd (\<lambda>r. jr_id r = jid) ?f (es_jobs (xs_sched s))"
      using r by (simp add: finish_before_dispatch_def clear_claim_def tbl_upd_def)
    assume "job_ok (es_closed (xs_sched s)) (count_list (gg_ready g) jid)
       (view (xs_worker s (jr_generation r)) jid) r"
    then show "job_ok (es_closed (xs_sched s)) (count_list (gg_ready g) jid) (view WClaim jid) (?f r)"
      by (auto simp: job_ok_defs r(2) w split: if_splits)
  qed (use g r w in \<open>auto simp: finish_before_dispatch_def clear_claim_def fun_upd_idem progress_def\<close>)
  with r(2) show ?thesis by simp
qed

text \<open>Settling a quantum: the four outcomes.\<close>

lemma settle_job_keeps [simp]:
  "jr_id (settle_job qid err r) = jr_id r"
  "jr_generation (settle_job qid err r) = jr_generation r"
  "jr_total (settle_job qid err r) = jr_total r"
  "jr_claimed (settle_job qid err r) = jr_claimed r"
  "jr_cancel (settle_job qid err r) = jr_cancel r"
  by (auto simp: settle_job_def Let_def split: option.splits)

definition settles :: "string \<Rightarrow> exec_error option \<Rightarrow> job_record \<Rightarrow> bool" where
  "settles qid err r \<longleftrightarrow> err = None \<and> \<not> jr_cancel_requested r \<and>
     jr_state r \<noteq> StateCancelRequested \<and> \<not> jr_pause_requested r"

lemma settle_job_progress:
  assumes "progress reqs dn r" and q: "jr_quanta r \<noteq> []" "hd (jr_quanta r) = q"
    and "err = None \<Longrightarrow> (jr_id r, q) \<in> set dn'" and dn: "set dn \<subseteq> set dn'"
  shows "progress reqs dn' (settle_job (qm_id q) err r)"
proof -
  from assms(1) obtain req where req: "req \<in> set reqs" "jq_id req = jr_id r"
    "jq_generation req = jr_generation r" "jr_total r = length (jq_quanta req)"
    "jr_quanta r = drop (jr_completed r) (jq_quanta req)"
    "\<forall>q\<in>set (take (jr_completed r) (jq_quanta req)). (jr_id r, q) \<in> set dn"
    by (auto simp: progress_def)
  show ?thesis
  proof (cases "settles (qm_id q) err r")
    case True
    have len: "jr_completed r < length (jq_quanta req)" using q(1) req(5) by simp
    have "jq_quanta req ! jr_completed r = q" using q(2) req(5) len by (simp add: hd_drop_conv_nth)
    then have "take (Suc (jr_completed r)) (jq_quanta req) = take (jr_completed r) (jq_quanta req) @ [q]"
      using len by (simp add: take_Suc_conv_app_nth)
    moreover have "tl (jr_quanta r) = drop (Suc (jr_completed r)) (jq_quanta req)"
      using req(5) by (simp add: tl_drop drop_Suc)
    moreover have "jr_quanta (settle_job (qm_id q) err r) = tl (jr_quanta r)"
      "jr_completed (settle_job (qm_id q) err r) = Suc (jr_completed r)"
      using True q by (auto simp: settle_job_def settles_def Let_def)
    moreover have "(jr_id r, q) \<in> set dn'" using True assms(4) by (simp add: settles_def)
    ultimately show ?thesis
      unfolding progress_def using req(1-4,6) dn by (intro bexI [OF _ req(1)]) auto
  next
    case False
    then have "jr_quanta (settle_job (qm_id q) err r) = jr_quanta r"
      "jr_completed (settle_job (qm_id q) err r) = jr_completed r"
      using q by (auto simp: settle_job_def settles_def Let_def split: option.splits)
    then show ?thesis using req dn by (auto simp: progress_def intro!: bexI [of _ req])
  qed
qed

lemma settle_job_ok:
  fixes err :: "exec_error option"
  assumes "job_ok closed n (Executing q) r"
  defines "r' \<equiv> settle_job (qm_id q) err
      (r\<lparr>jr_cancel := None, jr_claimed := False, jr_active_quantum_id := ''''\<rparr>)"
  shows "job_ok closed (n + (if jr_state r' = StateQueued then 1 else 0)) Away r'"
proof -
  have r: "jr_quanta r \<noteq> []" "hd (jr_quanta r) = q" "\<not> jr_terminal r" "\<not> closed \<longrightarrow> n = 0"
    "jr_state r = (if jr_cancel_requested r then StateCancelRequested else StateRunning)"
    "jr_completed r + length (jr_quanta r) = jr_total r"
    using assms(1) by (auto simp: job_ok_defs split: if_splits)
  show ?thesis
  proof (cases "settles (qm_id q) err r")
    case True
    from r(1,2) obtain qs where "jr_quanta r = q # qs" by (cases "jr_quanta r") auto
    with True show ?thesis using r
      by (auto simp: r'_def settle_job_def settles_def Let_def job_ok_defs)
  next
    case False
    then show ?thesis using r
      by (auto simp: r'_def settle_job_def settles_def Let_def job_ok_defs split: option.splits)
  qed
qed

lemma core_executed:
  assumes inv: "export_core s" and w: "xs_worker s k = WExecute jid q ctx"
  shows "export_core (at_worker k WClaim
      (s\<lparr>xs_sched := finish_quantum k jid (qm_id q) err (xs_sched s),
         xs_done := xs_done s @ (if err = None then [(jid, q)] else [])\<rparr>))"
proof -
  have "view (xs_worker s k) jid \<noteq> Away" by (simp add: w)
  then obtain r g where r: "job_at (xs_sched s) jid = Some r" "jr_generation r = k"
    and g: "es_groups (xs_sched s) (jr_generation r) = Some g"
    and ok: "job_ok (es_closed (xs_sched s)) (count_list (gg_ready g) jid) (view (xs_worker s k) jid) r"
    using core_held [OF inv] by metis
  have rid: "jr_id r = jid" using tbl_get_SomeD [OF r(1)] by simp
  from ok w have q: "jr_quanta r \<noteq> []" "hd (jr_quanta r) = q" by (auto simp: job_ok_def)
  let ?h = "\<lambda>r. r\<lparr>jr_cancel := None, jr_claimed := False, jr_active_quantum_id := ''''\<rparr>"
  let ?f = "\<lambda>r. settle_job (qm_id q) err (?h r)"
  let ?g = "if jr_state (?f r) = StateQueued then enqueue jid g else g"
  let ?sc = "finish_quantum k jid (qm_id q) err (xs_sched s)"
  let ?dn = "xs_done s @ (if err = None then [(jid, q)] else [])"
  have jobs: "es_jobs (set_job jid (settle_job (qm_id q) err) (clear_claim jid r (xs_sched s))) =
      tbl_upd (\<lambda>r. jr_id r = jid) ?f (es_jobs (xs_sched s))"
    by (simp add: clear_claim_def tbl_upd_twice)
  have at: "job_at (set_job jid (settle_job (qm_id q) err) (clear_claim jid r (xs_sched s))) jid = Some (?f r)"
    unfolding jobs using r(1) rid by (simp add: tbl_get_upd)
  have "export_core (at_worker (jr_generation r) WClaim (s\<lparr>xs_sched := ?sc, xs_done := ?dn\<rparr>))"
  proof (rule export_core_change [OF inv r(1) g, where f = ?f and g' = ?g])
    show "es_jobs ?sc = tbl_upd (\<lambda>r. jr_id r = jid) ?f (es_jobs (xs_sched s))"
      using r(1) at jobs by (simp add: finish_quantum_def Let_def)
    show "es_groups ?sc = (es_groups (xs_sched s))(jr_generation r \<mapsto> ?g)"
      using r at g by (simp add: finish_quantum_def Let_def clear_claim_def fun_upd_idem)
    show "es_closed ?sc = es_closed (xs_sched s)"
      using r(1) by (simp add: finish_quantum_def Let_def clear_claim_def)
    assume "job_ok (es_closed (xs_sched s)) (count_list (gg_ready g) jid)
       (view (xs_worker s (jr_generation r)) jid) r"
    then have "job_ok (es_closed (xs_sched s)) (count_list (gg_ready g) jid) (Executing q) r"
      by (simp add: r(2) w)
    from settle_job_ok [OF this, of err]
    show "job_ok (es_closed (xs_sched s)) (count_list (gg_ready ?g) jid) (view WClaim jid) (?f r)"
      by (auto simp: enqueue_def)
  next
    assume "progress (xs_requests s) (xs_done s) r"
    then have "progress (xs_requests s) (xs_done s) (?h r)" by (simp add: progress_def)
    from settle_job_progress [OF this, of q err ?dn] q rid
    show "progress (xs_requests s) ?dn (?f r)" by auto
  qed (use g r w in \<open>auto simp: enqueue_def\<close>)
  with r(2) show ?thesis by simp
qed

section \<open>After Close nothing is dispatched\<close>

lemma quiet_set_job:
  assumes "\<forall>r\<in>set (es_jobs sc). quiet r" and "\<And>r. r \<in> set (es_jobs sc) \<Longrightarrow> jr_id r = jid \<Longrightarrow> quiet r \<Longrightarrow> quiet (f r)"
  shows "\<forall>r\<in>set (tbl_upd (\<lambda>r. jr_id r = jid) f (es_jobs sc)). quiet r"
  using assms by (auto simp: set_tbl_upd)

lemma close_job_quiet:
  assumes dist: "distinct (map jr_id (es_jobs sc))"
  shows "map jr_id (es_jobs (close_job jid sc)) = map jr_id (es_jobs sc)"
    and "r \<in> set (es_jobs (close_job jid sc)) \<Longrightarrow>
      quiet r \<and> jr_id r = jid \<or> r \<in> set (es_jobs sc) \<and> jr_id r \<noteq> jid"
proof -
  show "map jr_id (es_jobs (close_job jid sc)) = map jr_id (es_jobs sc)"
    by (auto simp: close_job_def map_key_upd split: option.split)
  assume r: "r \<in> set (es_jobs (close_job jid sc))"
  show "quiet r \<and> jr_id r = jid \<or> r \<in> set (es_jobs sc) \<and> jr_id r \<noteq> jid"
  proof (cases "job_at sc jid")
    case None
    with r show ?thesis by (auto simp: close_job_def tbl_get_None_iff)
  next
    case (Some x)
    have same: "y = x" if "y \<in> set (es_jobs sc)" "jr_id y = jid" for y
      using tbl_get_unique [OF dist that(1)] that(2) Some by simp
    from r Some same tbl_get_SomeD [OF Some] show ?thesis
      by (fastforce simp: close_job_def set_tbl_upd quiet_def split: if_splits)
  qed
qed

lemma close_fold_quiet:
  assumes "distinct (map jr_id (es_jobs sc))"
    and "r \<in> set (es_jobs (fold close_job jids sc))"
  shows "quiet r \<or> jr_id r \<notin> set jids \<and> r \<in> set (es_jobs sc)"
  using assms
proof (induction jids arbitrary: sc)
  case (Cons jid jids)
  from Cons.IH [of "close_job jid sc"] Cons.prems close_job_quiet [OF Cons.prems(1), where jid = jid]
  show ?case by auto
qed simp

lemma close_quiet:
  assumes inv: "export_core s" and "closed_quiet s"
  shows "closed_quiet (s\<lparr>xs_sched := close_scheduler (xs_sched s)\<rparr>)"
proof (cases "es_closed (xs_sched s)")
  case True
  with assms show ?thesis by (simp add: close_scheduler_def)
next
  case False
  let ?sc = "(xs_sched s)\<lparr>es_closed := True\<rparr>"
  have dist: "distinct (map jr_id (es_jobs ?sc))" using export_coreD(1) [OF inv] by simp
  have "quiet r" if "r \<in> set (es_jobs (fold close_job (map jr_id (es_jobs (xs_sched s))) ?sc))" for r
    using close_fold_quiet [OF dist that] by auto
  with False show ?thesis by (simp add: closed_quiet_def close_scheduler_def Let_def)
qed

lemma closed_quiet_upd:
  assumes "closed_quiet s" and "es_closed sc = es_closed (xs_sched s)"
    and "es_jobs sc = tbl_upd (\<lambda>r. jr_id r = jid) f (es_jobs (xs_sched s))"
    and "\<And>r. es_closed (xs_sched s) \<Longrightarrow> r \<in> set (es_jobs (xs_sched s)) \<Longrightarrow> jr_id r = jid \<Longrightarrow> quiet r \<Longrightarrow> quiet (f r)"
  shows "closed_quiet (s\<lparr>xs_sched := sc\<rparr>)"
  using assms by (auto simp: closed_quiet_def set_tbl_upd)

lemma closed_quiet_same:
  assumes "closed_quiet s" and "es_closed sc = es_closed (xs_sched s)"
    and "es_jobs sc = es_jobs (xs_sched s)"
  shows "closed_quiet (s\<lparr>xs_sched := sc\<rparr>)"
  using assms by (simp add: closed_quiet_def)

lemma closed_quiet_worker [simp]:
  "closed_quiet (s\<lparr>xs_worker := w\<rparr>) = closed_quiet s"
  "closed_quiet (s\<lparr>xs_sched := sc, xs_worker := w\<rparr>) = closed_quiet (s\<lparr>xs_sched := sc\<rparr>)"
  "closed_quiet (s\<lparr>xs_sched := sc, xs_worker := w, xs_done := dn\<rparr>) = closed_quiet (s\<lparr>xs_sched := sc\<rparr>)"
  "closed_quiet (s\<lparr>xs_sched := sc, xs_done := dn\<rparr>) = closed_quiet (s\<lparr>xs_sched := sc\<rparr>)"
  "closed_quiet (s\<lparr>xs_sched := sc, xs_requests := rq\<rparr>) = closed_quiet (s\<lparr>xs_sched := sc\<rparr>)"
  by (simp_all add: closed_quiet_def)

lemma quiet_at:
  "closed_quiet s \<Longrightarrow> es_closed (xs_sched s) \<Longrightarrow> job_at (xs_sched s) jid = Some r \<Longrightarrow> quiet r"
  using tbl_get_SomeD [of jr_id jid "es_jobs (xs_sched s)" r] by (simp add: closed_quiet_def)

lemma cancel_live_fields:
  "es_closed (cancel_live jid r sc) = es_closed sc"
  "es_jobs (cancel_live jid r sc) = tbl_upd (\<lambda>r. jr_id r = jid)
     (\<lambda>x. if jr_state r = StateQueued then x\<lparr>jr_cancel_requested := True, jr_state := StateCanceled, jr_terminal := True\<rparr>
       else if jr_state r = StateRunning \<or> jr_state r = StateCancelRequested
       then x\<lparr>jr_cancel_requested := True, jr_state := StateCancelRequested\<rparr>
       else if jr_state r = StatePausedRestartable
       then x\<lparr>jr_cancel_requested := True, jr_state := StateCanceled, jr_terminal := True\<rparr>
       else x\<lparr>jr_cancel_requested := True\<rparr>) (es_jobs sc)"
  by (simp_all add: cancel_live_def Let_def tbl_upd_twice)

lemma quiet_cancel_live:
  "closed_quiet s \<Longrightarrow> closed_quiet (s\<lparr>xs_sched := cancel_live jid r (xs_sched s)\<rparr>)"
  by (rule closed_quiet_upd [OF _ _ cancel_live_fields(2)]) (auto simp: cancel_live_fields(1) quiet_def)

lemma pause_job_fields:
  "es_closed (pause_job gen jid sc) = es_closed sc"
  "job_at sc jid = Some r \<Longrightarrow> es_jobs (pause_job gen jid sc) = tbl_upd (\<lambda>r. jr_id r = jid)
     (\<lambda>x. if jr_generation r \<noteq> gen \<or> jr_terminal r \<or> jr_cancel_requested r then x
       else if jr_state r = StateQueued \<and> \<not> jr_claimed r
       then x\<lparr>jr_pause_requested := True, jr_state := StatePausedRestartable\<rparr>
       else x\<lparr>jr_pause_requested := True\<rparr>) (es_jobs sc)"
  by (auto simp: pause_job_def Let_def tbl_upd_twice tbl_upd_same split: option.split)

lemma quiet_pause_job:
  assumes "closed_quiet s"
  shows "closed_quiet (s\<lparr>xs_sched := pause_job gen jid (xs_sched s)\<rparr>)"
proof (cases "job_at (xs_sched s) jid")
  case None
  with assms show ?thesis by (simp add: pause_job_def)
next
  case (Some r)
  show ?thesis
    by (rule closed_quiet_upd [OF assms _ pause_job_fields(2) [OF Some]])
      (auto simp: pause_job_fields(1) quiet_def)
qed

lemma quiet_pause:
  "closed_quiet s \<Longrightarrow> closed_quiet (s\<lparr>xs_sched := pause_generation gen (xs_sched s)\<rparr>)"
proof -
  have "closed_quiet s \<Longrightarrow> closed_quiet (s\<lparr>xs_sched := fold (pause_job gen) jids (xs_sched s)\<rparr>)" for jids
  proof (induction jids arbitrary: s)
    case (Cons jid jids)
    from Cons.IH [OF quiet_pause_job [OF Cons.prems]] show ?case by simp
  qed simp
  then show "closed_quiet s \<Longrightarrow> closed_quiet (s\<lparr>xs_sched := pause_generation gen (xs_sched s)\<rparr>)"
    by (simp add: pause_generation_def)
qed

lemma mark_running_closed:
  assumes "closed_quiet s" and "es_closed (xs_sched s)"
  shows "mark_running jid qid (xs_sched s) = (False, xs_sched s)"
  using quiet_at [OF assms, of jid]
  by (cases "job_at (xs_sched s) jid") (auto simp: mark_running_def quiet_def)

lemma mark_running_False: "mark_running jid qid sc = (False, sc') \<Longrightarrow> sc' = sc"
  by (auto simp: mark_running_def split: option.splits if_splits)

lemma finish_before_dispatch_jobs:
  "job_at sc jid = Some r \<Longrightarrow> es_jobs (finish_before_dispatch jid err sc) = tbl_upd (\<lambda>r. jr_id r = jid)
     (\<lambda>r. let r = r\<lparr>jr_cancel := None, jr_claimed := False, jr_active_quantum_id := ''''\<rparr> in
       if jr_pause_requested r then r\<lparr>jr_state := StatePausedRestartable\<rparr>
       else if jr_terminal r \<or> jr_cancel_requested r \<or> errors_is err context_Canceled
       then r\<lparr>jr_state := StateCanceled, jr_terminal := True\<rparr>
       else r\<lparr>jr_state := StateFailed, jr_terminal := True,
              jr_public_error_code := ErrorExecutionFailed\<rparr>) (es_jobs sc)"
  by (simp add: finish_before_dispatch_def clear_claim_def tbl_upd_twice Let_def)

lemma quiet_dropped:
  assumes "closed_quiet s"
  shows "closed_quiet (s\<lparr>xs_sched := finish_before_dispatch jid err (xs_sched s)\<rparr>)"
proof (cases "job_at (xs_sched s) jid")
  case None
  with assms show ?thesis by (simp add: finish_before_dispatch_def)
next
  case (Some r)
  show ?thesis
    by (rule closed_quiet_upd [OF assms _ finish_before_dispatch_jobs [OF Some]])
      (use Some in \<open>auto simp: quiet_def Let_def finish_before_dispatch_def clear_claim_def\<close>)
qed

lemma quiet_settled:
  "quiet r \<Longrightarrow> \<not> jr_terminal r \<Longrightarrow> quiet (settle_job qid err (r\<lparr>jr_cancel := None,
     jr_claimed := False, jr_active_quantum_id := ''''\<rparr>))"
  by (auto simp: quiet_def settle_job_def)

lemma quiet_executed:
  assumes "closed_quiet s" and "\<And>x. x \<in> set (es_jobs (xs_sched s)) \<Longrightarrow> jr_id x = jid \<Longrightarrow> \<not> jr_terminal x"
  shows "closed_quiet (s\<lparr>xs_sched := finish_quantum k jid qid err (xs_sched s)\<rparr>)"
proof (cases "job_at (xs_sched s) jid")
  case None
  with assms(1) show ?thesis by (simp add: finish_quantum_def)
next
  case (Some r)
  show ?thesis
    by (rule closed_quiet_upd [OF assms(1), where jid = jid and
          f = "\<lambda>r. settle_job qid err (r\<lparr>jr_cancel := None, jr_claimed := False, jr_active_quantum_id := ''''\<rparr>)"])
      (use Some assms(2) in \<open>auto simp: finish_quantum_def Let_def clear_claim_def tbl_upd_twice intro: quiet_settled\<close>)
qed

section \<open>The invariant of every reachable state\<close>

lemma export_inv_start: "export_start s \<Longrightarrow> export_inv s"
  by (simp add: export_start_def export_inv_def export_core_def closed_quiet_def new_scheduler_def)

lemma same_job:
  assumes "export_core s" and "job_at (xs_sched s) jid = Some r"
    and "x \<in> set (es_jobs (xs_sched s))" and "jr_id x = jid"
  shows "x = r"
  using tbl_get_unique [OF export_coreD(1) [OF assms(1)] assms(3)] assms(2,4) by simp

lemma claim_keeps:
  "claim k sc = (res, sc') \<Longrightarrow> es_closed sc' = es_closed sc"
  "claim k sc = (None, sc') \<Longrightarrow> es_jobs sc' = es_jobs sc"
  by (auto simp: claim_def Let_def split: option.splits prod.splits)

lemma export_inv_step: "export_step s t \<Longrightarrow> export_inv s \<Longrightarrow> export_inv t"
proof (induction rule: export_step.induct)
  case (do_submit has_lane req s res sc)
  show ?case
  proof (cases res)
    case (Inl e)
    with do_submit(1) have "sc = xs_sched s"
      by (auto simp: submit_def Let_def split: sum.splits if_splits)
    with do_submit(2) Inl show ?thesis by simp
  next
    case (Inr snap)
    with do_submit core_submit [of s has_lane req snap sc] submitD(3,4) [of has_lane req "xs_sched s" snap sc]
    show ?thesis by (simp add: export_inv_def) (simp add: closed_quiet_def)
  qed
next
  case (do_cancel jid s res sc)
  then consider "sc = xs_sched s"
    | r where "job_at (xs_sched s) jid = Some r" "\<not> jr_terminal r" "sc = cancel_live jid r (xs_sched s)"
    by (auto simp: cancel_def Let_def split: option.splits if_splits)
  then show ?case
  proof cases
    case 2
    with do_cancel(2) show ?thesis
      by (auto simp: export_inv_def intro: core_cancel_live quiet_cancel_live)
  qed (use do_cancel in simp)
next
  case (do_restart jid s res sc)
  then consider "sc = xs_sched s"
    | r where "job_at (xs_sched s) jid = Some r" "\<not> es_closed (xs_sched s)"
      "jr_state r = StatePausedRestartable" "\<not> jr_terminal r" "\<not> jr_claimed r"
      "sc = set_group (jr_generation r) (enqueue jid)
        (set_job jid (\<lambda>r. r\<lparr>jr_state := StateQueued, jr_cancel_requested := False,
           jr_pause_requested := False, jr_public_error_code := ''''\<rparr>) (xs_sched s))"
    by (auto simp: restart_def Let_def split: option.splits if_splits)
  then show ?case
  proof cases
    case 2
    with do_restart(2) core_restart [of s jid r] show ?thesis
      by (simp add: export_inv_def) (simp add: closed_quiet_def)
  qed (use do_restart in simp)
next
  case (do_pause s gen)
  then show ?case by (simp add: export_inv_def core_pause quiet_pause)
next
  case (do_close s)
  then show ?case by (simp add: export_inv_def core_close close_quiet)
next
  case (claimed s k jid q ctx sc)
  then show ?case
    using core_claimed [of s k jid q ctx sc] claim_keeps(1) [of k "xs_sched s" "Some (jid, q, ctx)" sc]
    by (auto simp: export_inv_def) (auto simp: closed_quiet_def)
next
  case (nothing_ready s k sc)
  then obtain g where "es_groups (xs_sched s) k = Some g" by blast
  then have "export_core (at_worker k WWait (s\<lparr>xs_sched := sc\<rparr>))"
    using nothing_ready by (intro core_nothing_ready) (simp_all add: export_inv_def)
  moreover have "closed_quiet (s\<lparr>xs_sched := sc\<rparr>)"
    using nothing_ready claim_keeps [OF nothing_ready(3)]
    by (intro closed_quiet_same) (simp_all add: export_inv_def)
  ultimately show ?case by (simp add: export_inv_def)
next
  case (woken s k g)
  then have "export_core (at_worker k WClaim (s\<lparr>xs_sched := (xs_sched s)\<lparr>es_groups :=
      (es_groups (xs_sched s))(k \<mapsto> g\<lparr>gg_wake := False\<rparr>)\<rparr>\<rparr>))"
    by (intro core_group) (auto simp: export_inv_def)
  with woken show ?case
    by (simp add: export_inv_def set_group_def) (simp add: closed_quiet_def)
next
  case (stopped s k g)
  then have "export_core (at_worker k WStopped (s\<lparr>xs_sched := (xs_sched s)\<lparr>es_groups :=
      (es_groups (xs_sched s))(k \<mapsto> g)\<rparr>\<rparr>))"
    by (intro core_group) (auto simp: export_inv_def)
  with stopped show ?case by (simp add: export_inv_def fun_upd_idem)
next
  case (not_acquired s k jid q ctx err)
  then show ?case by (simp add: export_inv_def core_to_drop)
next
  case (dispatched s k jid q ctx sc)
  then have "\<not> es_closed (xs_sched s)"
    using mark_running_closed [of s jid "qm_id q"] by (auto simp: export_inv_def)
  moreover from dispatched(2) have "es_closed sc = es_closed (xs_sched s)"
    by (auto simp: mark_running_def split: option.splits if_splits)
  ultimately show ?case
    using dispatched core_dispatched [OF _ dispatched(1,2)]
    by (simp add: export_inv_def) (simp add: closed_quiet_def)
next
  case (not_marked s k jid q ctx sc)
  with mark_running_False [of jid "qm_id q" "xs_sched s" sc] show ?case
    by (simp add: export_inv_def core_to_drop)
next
  case (dropped s k jid err)
  with core_dropped [OF _ dropped(1)] show ?case by (simp add: export_inv_def quiet_dropped)
next
  case (executed s k jid q ctx err)
  then have inv: "export_core s" by (simp add: export_inv_def)
  have "view (xs_worker s k) jid \<noteq> Away" by (simp add: executed)
  then obtain r n where "job_at (xs_sched s) jid = Some r"
    "job_ok (es_closed (xs_sched s)) n (view (xs_worker s k) jid) r"
    using core_held_job [OF inv] by blast
  then have "\<not> jr_terminal r" "job_at (xs_sched s) jid = Some r"
    by (auto simp: job_ok_def executed)
  then have "\<not> jr_terminal x" if "x \<in> set (es_jobs (xs_sched s))" "jr_id x = jid" for x
    using same_job [OF inv _ that] by blast
  with executed core_executed [OF inv executed(1)] show ?case
    by (simp add: export_inv_def quiet_executed)
qed

interpretation export_lane: transition_system export_start export_step export_inv
  by unfold_locales (auto intro: export_inv_start export_inv_step)

section \<open>Concrete runs\<close>

definition demo_quantum :: "string \<Rightarrow> quantum" where
  "demo_quantum q = \<lparr>qm_id = q, qm_kind = QuantumTimeSlice, qm_database = ''db'',
     qm_retention_policy = '''', qm_query = ''SELECT''\<rparr>"

definition demo_job :: job_request where
  "demo_job = \<lparr>jq_id = ''j'', jq_generation = (''c'', ''1''),
     jq_quanta = [demo_quantum ''a'', demo_quantum ''b'']\<rparr>"

definition demo_key :: generation_key where
  "demo_key = (''c'', ''1'')"

definition demo_empty :: export_sys where
  "demo_empty = \<lparr>xs_sched = new_scheduler, xs_worker = (\<lambda>_. WClaim), xs_requests = [], xs_done = []\<rparr>"

definition demo_submitted :: export_sys where
  "demo_submitted = demo_empty\<lparr>xs_sched := snd (submit (\<lambda>_. True) demo_job (xs_sched demo_empty)),
     xs_requests := [demo_job]\<rparr>"

definition demo_claimed :: export_sys where
  "demo_claimed = at_worker demo_key (WAcquire ''j'' (demo_quantum ''a'') 0)
     (demo_submitted\<lparr>xs_sched := snd (claim demo_key (xs_sched demo_submitted))\<rparr>)"

definition demo_running :: export_sys where
  "demo_running = at_worker demo_key (WExecute ''j'' (demo_quantum ''a'') 0)
     (demo_claimed\<lparr>xs_sched := snd (mark_running ''j'' ''a'' (xs_sched demo_claimed))\<rparr>)"

lemma demo_not_blank: "\<not> is_blank ''j''" "\<not> is_blank ''c''" "\<not> is_blank ''1''"
  "\<not> is_blank ''a''" "\<not> is_blank ''b''" "\<not> is_blank ''SELECT''"
  by (simp_all add: not_blank_ascii)

lemma demo_valid: "validate_job_request demo_job = Inr ()"
  by (simp add: validate_job_request_def demo_job_def demo_quantum_def demo_not_blank require_def)

lemma demo_submit_ok: "\<exists>snap. fst (submit (\<lambda>_. True) demo_job (xs_sched demo_empty)) = Inr snap"
  by (simp add: submit_def demo_valid demo_empty_def new_scheduler_def Let_def table_simps)

lemma demo_submitted_reachable: "reachable_from export_start export_step demo_submitted"
proof -
  obtain snap where ok: "fst (submit (\<lambda>_. True) demo_job (xs_sched demo_empty)) = Inr snap"
    using demo_submit_ok by blast
  then have "submit (\<lambda>_. True) demo_job (xs_sched demo_empty) =
      (Inr snap, snd (submit (\<lambda>_. True) demo_job (xs_sched demo_empty)))"
    by (metis prod.collapse)
  from do_submit [OF this] have "export_step demo_empty demo_submitted"
    by (simp add: demo_submitted_def) (simp add: demo_empty_def)
  moreover have "reachable_from export_start export_step demo_empty"
    by (rule reach_init) (simp add: export_start_def demo_empty_def)
  ultimately show ?thesis by (rule reach_step [rotated])
qed

lemma demo_sched_submitted:
  "xs_sched demo_submitted = \<lparr>es_jobs = [\<lparr>jr_id = ''j'', jr_generation = demo_key, jr_state = StateQueued,
       jr_terminal = False, jr_total = 2, jr_completed = 0,
       jr_quanta = [demo_quantum ''a'', demo_quantum ''b''], jr_active_quantum_id = '''',
       jr_cancel_requested = False, jr_pause_requested = False, jr_public_error_code = '''',
       jr_claimed = False, jr_cancel = None\<rparr>],
     es_groups = [demo_key \<mapsto> \<lparr>gg_ready = [''j''], gg_wake = True, gg_stop = False\<rparr>],
     es_closed = False, es_canceled = [], es_next_ctx = 0\<rparr>"
  by (simp add: demo_submitted_def submit_def demo_valid demo_empty_def new_scheduler_def Let_def
      table_simps enqueue_def demo_key_def) (simp add: demo_job_def)

lemma demo_claim:
  "claim demo_key (xs_sched demo_submitted) =
     (Some (''j'', demo_quantum ''a'', 0), xs_sched demo_claimed)"
  by (simp add: demo_claimed_def demo_sched_submitted claim_def table_simps Let_def)

lemma demo_sched_claimed:
  "xs_sched demo_claimed = \<lparr>es_jobs = [\<lparr>jr_id = ''j'', jr_generation = demo_key, jr_state = StateQueued,
       jr_terminal = False, jr_total = 2, jr_completed = 0,
       jr_quanta = [demo_quantum ''a'', demo_quantum ''b''], jr_active_quantum_id = '''',
       jr_cancel_requested = False, jr_pause_requested = False, jr_public_error_code = '''',
       jr_claimed = True, jr_cancel = Some 0\<rparr>],
     es_groups = [demo_key \<mapsto> \<lparr>gg_ready = [], gg_wake = True, gg_stop = False\<rparr>],
     es_closed = False, es_canceled = [], es_next_ctx = 1\<rparr>"
  by (simp add: demo_claimed_def demo_sched_submitted claim_def table_simps Let_def set_job_def)

lemma demo_claimed_reachable: "reachable_from export_start export_step demo_claimed"
proof -
  have "export_step demo_submitted (at_worker demo_key (WAcquire ''j'' (demo_quantum ''a'') 0)
      (demo_submitted\<lparr>xs_sched := xs_sched demo_claimed\<rparr>))"
    by (rule claimed [OF _ _ demo_claim])
      (simp_all add: demo_sched_submitted, simp add: demo_submitted_def demo_empty_def)
  moreover have "at_worker demo_key (WAcquire ''j'' (demo_quantum ''a'') 0)
      (demo_submitted\<lparr>xs_sched := xs_sched demo_claimed\<rparr>) = demo_claimed"
    by (simp add: demo_claimed_def)
  ultimately show ?thesis using reach_step [OF demo_submitted_reachable] by metis
qed

lemma demo_sched_running:
  "xs_sched demo_running = \<lparr>es_jobs = [\<lparr>jr_id = ''j'', jr_generation = demo_key, jr_state = StateRunning,
       jr_terminal = False, jr_total = 2, jr_completed = 0,
       jr_quanta = [demo_quantum ''a'', demo_quantum ''b''], jr_active_quantum_id = ''a'',
       jr_cancel_requested = False, jr_pause_requested = False, jr_public_error_code = '''',
       jr_claimed = True, jr_cancel = Some 0\<rparr>],
     es_groups = [demo_key \<mapsto> \<lparr>gg_ready = [], gg_wake = True, gg_stop = False\<rparr>],
     es_closed = False, es_canceled = [], es_next_ctx = 1\<rparr>"
  by (simp add: demo_running_def demo_sched_claimed mark_running_def table_simps set_job_def)

lemma demo_running_reachable: "reachable_from export_start export_step demo_running"
proof -
  have mark: "mark_running ''j'' (qm_id (demo_quantum ''a'')) (xs_sched demo_claimed) =
      (True, xs_sched demo_running)"
    by (simp add: demo_running_def demo_sched_claimed mark_running_def table_simps demo_quantum_def)
  have "export_step demo_claimed (at_worker demo_key (WExecute ''j'' (demo_quantum ''a'') 0)
      (demo_claimed\<lparr>xs_sched := xs_sched demo_running\<rparr>))"
    by (rule dispatched [OF _ mark]) (simp add: demo_claimed_def)
  moreover have "at_worker demo_key (WExecute ''j'' (demo_quantum ''a'') 0)
      (demo_claimed\<lparr>xs_sched := xs_sched demo_running\<rparr>) = demo_running"
    by (simp add: demo_running_def)
  ultimately show ?thesis using reach_step [OF demo_claimed_reachable] by metis
qed

section \<open>Properties\<close>

lemma reachable_core: "reachable_from export_start export_step s \<Longrightarrow> export_core s"
  using export_lane.reachable_inv by (simp add: export_inv_def)

text \<open>C21. In every reachable state a job's snapshot counts quanta conservatively: completed plus
  remaining is the number of quanta of the accepted request, the remaining ones are the request's
  suffix after the completed ones, every completed one was executed without an error, and the
  job is \<open>SUCCEEDED\<close> exactly when nothing remains.\<close>

theorem export_job_progress:
  assumes "reachable_from export_start export_step s" and "get_job jid (xs_sched s) = Inr snap"
  shows "\<exists>req\<in>set (xs_requests s). \<exists>r. jq_id req = jid \<and> jq_generation req = js_generation snap \<and>
    job_at (xs_sched s) jid = Some r \<and>
    js_completed_quanta snap + js_remaining_quanta snap = js_total_quanta snap \<and>
    js_total_quanta snap = length (jq_quanta req) \<and>
    jr_quanta r = drop (js_completed_quanta snap) (jq_quanta req) \<and>
    (\<forall>q\<in>set (take (js_completed_quanta snap) (jq_quanta req)). (jid, q) \<in> set (xs_done s)) \<and>
    (js_state snap = StateSucceeded \<longleftrightarrow> js_remaining_quanta snap = 0)"
proof -
  from assms(2) obtain r where r: "job_at (xs_sched s) jid = Some r" and snap: "snap = snapshot r"
    by (auto simp: get_job_def split: option.splits)
  obtain n where
    rid: "jr_id r = jid" and
    ok: "job_ok (es_closed (xs_sched s)) n (view (xs_worker s (jr_generation r)) jid) r" and
    prog: "progress (xs_requests s) (xs_done s) r"
    using core_job [OF reachable_core [OF assms(1)] r] by blast
  have "jr_state r = StateSucceeded \<longleftrightarrow> jr_quanta r = []"
    "jr_completed r + length (jr_quanta r) = jr_total r"
    using ok by (auto simp: job_ok_defs split: if_splits)
  then show ?thesis using prog r rid by (auto simp: progress_def snap snapshot_def)
qed

theorem export_job_progress_witness:
  "\<exists>req\<in>set (xs_requests demo_running). jq_id req = ''j'' \<and> length (jq_quanta req) = 2"
  using export_job_progress [OF demo_running_reachable, of "''j''"
      "snapshot (the (job_at (xs_sched demo_running) ''j''))"]
  by (auto simp: get_job_def demo_sched_running snapshot_def table_simps)

text \<open>C22. One quantum at a time per generation: when a group's goroutine is inside
  \<open>ExecuteQuantum\<close>, its job is claimed, not terminal, \<open>RUNNING\<close> or \<open>CANCEL_REQUESTED\<close>, the quantum
  executed is the job's first remaining one and the one its snapshot shows as active, and no other
  job of the generation is claimed.\<close>

theorem export_single_flight:
  assumes "reachable_from export_start export_step s" and "xs_worker s k = WExecute jid q ctx"
  shows "(\<exists>r. job_at (xs_sched s) jid = Some r \<and> jr_generation r = k \<and> jr_claimed r \<and> \<not> jr_terminal r \<and>
      jr_state r = (if jr_cancel_requested r then StateCancelRequested else StateRunning) \<and>
      jr_quanta r \<noteq> [] \<and> hd (jr_quanta r) = q \<and> js_active_quantum_id (snapshot r) = qm_id q) \<and>
    (\<forall>jid' r'. job_at (xs_sched s) jid' = Some r' \<and> jr_generation r' = k \<and> jr_claimed r' \<longrightarrow> jid' = jid)"
proof (intro conjI allI impI)
  note core = reachable_core [OF assms(1)]
  have "view (xs_worker s k) jid \<noteq> Away" by (simp add: assms(2))
  then obtain r n where "job_at (xs_sched s) jid = Some r" "jr_generation r = k"
    "job_ok (es_closed (xs_sched s)) n (view (xs_worker s k) jid) r"
    using core_held_job [OF core] by blast
  then show "\<exists>r. job_at (xs_sched s) jid = Some r \<and> jr_generation r = k \<and> jr_claimed r \<and> \<not> jr_terminal r \<and>
      jr_state r = (if jr_cancel_requested r then StateCancelRequested else StateRunning) \<and>
      jr_quanta r \<noteq> [] \<and> hd (jr_quanta r) = q \<and> js_active_quantum_id (snapshot r) = qm_id q"
    by (auto simp: assms(2) job_ok_defs snapshot_def)
  fix jid' r' assume r': "job_at (xs_sched s) jid' = Some r' \<and> jr_generation r' = k \<and> jr_claimed r'"
  then obtain n where "job_ok (es_closed (xs_sched s)) n (view (xs_worker s (jr_generation r')) jid') r'"
    using core_job [OF core] by blast
  with r' show "jid' = jid" by (auto simp: job_ok_def assms(2) split: if_splits)
qed

theorem export_single_flight_witness:
  "\<exists>r. job_at (xs_sched demo_running) ''j'' = Some r \<and> jr_claimed r \<and> jr_state r = StateRunning \<and>
     js_active_quantum_id (snapshot r) = ''a''"
proof -
  have "xs_worker demo_running demo_key = WExecute ''j'' (demo_quantum ''a'') 0"
    by (simp add: demo_running_def)
  from export_single_flight [OF demo_running_reachable this] show ?thesis
    by (auto simp: demo_sched_running demo_quantum_def table_simps)
qed

text \<open>C23. No lost wake-up: while the scheduler is open, a queued job nobody has claimed is in the
  ready list of its generation exactly once; a goroutine blocked in \<open>select\<close> has a pending wake
  token, and one about to \<open>claim\<close> gets the job at the head of the list.\<close>

theorem export_no_lost_wakeup:
  assumes "reachable_from export_start export_step s" and "\<not> es_closed (xs_sched s)"
    and r: "job_at (xs_sched s) jid = Some r" "jr_state r = StateQueued" "\<not> jr_claimed r"
  shows "\<exists>g. es_groups (xs_sched s) (jr_generation r) = Some g \<and> count_list (gg_ready g) jid = 1 \<and>
    (xs_worker s (jr_generation r) = WWait \<longrightarrow> gg_wake g) \<and>
    (\<exists>q ctx sc. claim (jr_generation r) (xs_sched s) = (Some (hd (gg_ready g), q, ctx), sc))"
proof -
  note core = reachable_core [OF assms(1)]
  from core r(1) obtain g where g: "es_groups (xs_sched s) (jr_generation r) = Some g"
    and ok: "job_ok (es_closed (xs_sched s)) (count_list (gg_ready g) jid)
          (view (xs_worker s (jr_generation r)) jid) r"
    by (rule export_core_jobE)
  have one: "count_list (gg_ready g) jid = 1"
    using ok r assms(2) by (simp add: job_ok_def)
  then obtain j rest where ready: "gg_ready g = j # rest" by (cases "gg_ready g") auto
  from claim_loop_open [OF core assms(2) g] ready obtain x where x: "jr_id x = j"
    "claim_loop (xs_sched s) (gg_ready g) = (Some (x, hd (jr_quanta x)), rest)"
    by auto
  have "\<exists>q ctx sc. claim (jr_generation r) (xs_sched s) = (Some (hd (gg_ready g), q, ctx), sc)"
    using x g by (simp add: claim_def Let_def ready)
  with g one export_core_wake [OF core g] ready show ?thesis by simp
qed

theorem export_no_lost_wakeup_witness:
  "\<exists>g. es_groups (xs_sched demo_submitted) demo_key = Some g \<and> gg_ready g = [''j''] \<and>
     (\<exists>q ctx sc. claim demo_key (xs_sched demo_submitted) = (Some (''j'', q, ctx), sc))"
  using export_no_lost_wakeup [OF demo_submitted_reachable, of "''j''"
      "the (job_at (xs_sched demo_submitted) ''j'')"]
  by (simp add: demo_sched_submitted table_simps)

text \<open>After \<open>Close\<close> nothing more is dispatched: \<open>Submit\<close> and \<open>Restart\<close> fail with
  \<open>EXPORT_SCHEDULER_CLOSED\<close>, \<open>claim\<close> finds no job, \<open>markRunning\<close> refuses every job (one claimed before
  included), and every job that is not terminal is marked to pause and is not queued.\<close>

theorem export_close_stops_dispatch:
  assumes "reachable_from export_start export_step s" and "es_closed (xs_sched s)"
  shows "(validate_job_request req = Inr () \<longrightarrow>
        submit has_lane req (xs_sched s) = (Inl ErrSchedulerClosed, xs_sched s)) \<and>
    restart jid (xs_sched s) = (Inl ErrSchedulerClosed, xs_sched s) \<and>
    fst (claim k (xs_sched s)) = None \<and>
    mark_running jid qid (xs_sched s) = (False, xs_sched s) \<and>
    (\<forall>r\<in>set (es_jobs (xs_sched s)). \<not> jr_terminal r \<longrightarrow>
       jr_pause_requested r \<and> jr_state r \<noteq> StateQueued)"
proof -
  have q: "closed_quiet s"
    using export_lane.reachable_inv [OF assms(1)] by (simp add: export_inv_def)
  then have all: "\<forall>r\<in>set (es_jobs (xs_sched s)). quiet r" using assms(2) by (simp add: closed_quiet_def)
  have "fst (claim k (xs_sched s)) = None"
    using claim_loop_closed [OF all] by (simp add: claim_def Let_def split: option.split)
  with assms(2) all mark_running_closed [OF q assms(2)] show ?thesis
    by (auto simp: submit_def restart_def quiet_def)
qed

lemma demo_closed_reachable:
  "reachable_from export_start export_step
     (demo_running\<lparr>xs_sched := close_scheduler (xs_sched demo_running)\<rparr>)"
  by (rule reach_step [OF demo_running_reachable do_close])

theorem export_close_stops_dispatch_witness:
  "restart ''j'' (close_scheduler (xs_sched demo_running)) =
     (Inl ErrSchedulerClosed, close_scheduler (xs_sched demo_running))"
proof -
  have "es_closed (close_scheduler (xs_sched demo_running))"
    by (simp add: demo_sched_running close_scheduler_def Let_def)
  with export_close_stops_dispatch [OF demo_closed_reachable] show ?thesis by simp
qed

text \<open>A timeout pauses a job and loses nothing: when the executor reports a header, idle or
  request timeout (or a \<open>RestartableError\<close>) for a job that is neither canceled nor paused, the job is
  \<open>PAUSED_RESTARTABLE\<close> with that code and its quanta as they were, and \<open>Restart\<close> queues it again at
  the end of its generation's ready list with the code cleared.\<close>

theorem export_timeout_restartable:
  assumes reach: "reachable_from export_start export_step s"
    and w: "xs_worker s k = WExecute jid q ctx" and open_: "\<not> es_closed (xs_sched s)"
    and r: "job_at (xs_sched s) jid = Some r" "\<not> jr_cancel_requested r" "\<not> jr_pause_requested r"
    and err: "timeout_code err = Some code"
  defines "sc \<equiv> finish_quantum k jid (qm_id q) (Some err) (xs_sched s)"
  shows "\<exists>p snap sc'. get_job jid sc = Inr p \<and> js_state p = StatePausedRestartable \<and>
    js_public_error_code p = code \<and> \<not> js_terminal p \<and>
    js_completed_quanta p = jr_completed r \<and> js_remaining_quanta p = length (jr_quanta r) \<and>
    restart jid sc = (Inr snap, sc') \<and> js_state snap = StateQueued \<and> js_public_error_code snap = '''' \<and>
    map_option jr_quanta (job_at sc' jid) = Some (jr_quanta r) \<and>
    (\<exists>g g'. es_groups sc k = Some g \<and> es_groups sc' k = Some g' \<and> gg_ready g' = gg_ready g @ [jid])"
proof -
  note core = reachable_core [OF reach]
  have "view (xs_worker s k) jid \<noteq> Away" by (simp add: w)
  then obtain r' g n where "job_at (xs_sched s) jid = Some r'" "jr_generation r' = k"
    "es_groups (xs_sched s) k = Some g" "job_ok (es_closed (xs_sched s)) n (view (xs_worker s k) jid) r'"
    by (rule core_held [OF core])
  with r have k: "jr_generation r = k" and g: "es_groups (xs_sched s) k = Some g"
    and ok: "job_ok False n (Executing q) r" by (simp_all add: w open_)
  have rid: "jr_id r = jid" using tbl_get_SomeD [OF r(1)] by simp
  have st: "jr_state r = StateRunning" "\<not> jr_terminal r"
    using ok r by (auto simp: job_ok_defs split: if_splits)
  let ?p = "r\<lparr>jr_cancel := None, jr_claimed := False, jr_active_quantum_id := '''',
     jr_state := StatePausedRestartable, jr_public_error_code := code\<rparr>"
  have settled: "settle_job (qm_id q) (Some err) (r\<lparr>jr_cancel := None, jr_claimed := False,
      jr_active_quantum_id := ''''\<rparr>) = ?p"
    using r st err by (simp add: settle_job_def)
  have at: "job_at sc jid = Some ?p" and cl: "\<not> es_closed sc" and grp: "es_groups sc = es_groups (xs_sched s)"
    using r rid settled open_
    by (simp_all add: sc_def finish_quantum_def Let_def clear_claim_def tbl_upd_twice tbl_get_upd)
  show ?thesis
    using at cl grp g k rid st
    by (simp add: restart_def get_job_def snapshot_def Let_def tbl_get_upd enqueue_def)
qed

theorem export_timeout_restartable_witness:
  "\<exists>p. get_job ''j'' (finish_quantum demo_key ''j'' ''a'' (Some (Wrapped ''w'' (Leaf ErrIdleTimeout)))
       (xs_sched demo_running)) = Inr p \<and>
     js_state p = StatePausedRestartable \<and> js_public_error_code p = ErrorIdleTimeout"
proof -
  have w: "xs_worker demo_running demo_key = WExecute ''j'' (demo_quantum ''a'') 0"
    by (simp add: demo_running_def)
  have t: "timeout_code (Wrapped ''w'' (Leaf ErrIdleTimeout)) = Some ErrorIdleTimeout"
    by (simp add: timeout_code_def)
  from export_timeout_restartable [OF demo_running_reachable w _ _ _ _ t,
      of "the (job_at (xs_sched demo_running) ''j'')"]
  show ?thesis by (auto simp: demo_sched_running table_simps demo_quantum_def)
qed

text \<open>\<open>Cancel\<close> of a job that is not terminal: one that is not executing is \<open>CANCELED\<close> and
  terminal at once and leaves the ready list; one that is executing is \<open>CANCEL_REQUESTED\<close>, its
  context is canceled, and whatever the executor then returns the job settles as \<open>CANCELED\<close>.\<close>

theorem export_cancel_contract:
  assumes reach: "reachable_from export_start export_step s"
    and r: "job_at (xs_sched s) jid = Some r" "\<not> jr_terminal r"
  shows "\<exists>snap sc. cancel jid (xs_sched s) = (Inr snap, sc) \<and> js_cancel_requested snap \<and>
    (if executing (view (xs_worker s (jr_generation r)) jid)
     then js_state snap = StateCancelRequested \<and> \<not> js_terminal snap \<and>
       (\<exists>ctx. jr_cancel r = Some ctx \<and> ctx \<in> set (es_canceled sc)) \<and>
       (\<forall>qid err. \<exists>p. get_job jid (finish_quantum (jr_generation r) jid qid err sc) = Inr p \<and>
          js_state p = StateCanceled \<and> js_terminal p)
     else js_state snap = StateCanceled \<and> js_terminal snap \<and>
       (\<forall>g. es_groups sc (jr_generation r) = Some g \<longrightarrow> \<not> es_closed sc \<longrightarrow> jid \<notin> set (gg_ready g)))"
proof -
  note core = reachable_core [OF reach]
  from core r(1) obtain g where g: "es_groups (xs_sched s) (jr_generation r) = Some g"
    and rid: "jr_id r = jid" and ok: "job_ok (es_closed (xs_sched s)) (count_list (gg_ready g) jid)
      (view (xs_worker s (jr_generation r)) jid) r"
    by (rule export_core_jobE)
  have live: "live_ok (executing (view (xs_worker s (jr_generation r)) jid)) r"
    using ok r(2) by (simp add: job_ok_def)
  let ?sc = "cancel_live jid r (xs_sched s)"
  have known: "jr_state r \<in> {StateQueued, StateRunning, StateCancelRequested, StatePausedRestartable}"
    "jr_state r \<noteq> StateCanceled"
    using live by (auto simp: live_ok_def split: if_splits)
  then have c: "cancel jid (xs_sched s) = (get_job jid ?sc, ?sc)"
    using r by (simp add: cancel_def Let_def)
  show ?thesis
  proof (cases "executing (view (xs_worker s (jr_generation r)) jid)")
    case True
    then have st: "jr_state r = StateRunning \<or> jr_state r = StateCancelRequested"
      using live by (simp add: live_ok_def split: if_splits)
    obtain ctx where ctx: "jr_cancel r = Some ctx"
      using ok True by (cases "view (xs_worker s (jr_generation r)) jid") (auto simp: job_ok_def)
    let ?r = "r\<lparr>jr_cancel_requested := True, jr_state := StateCancelRequested\<rparr>"
    have at: "job_at ?sc jid = Some ?r"
      using r st rid by (simp add: cancel_live_fields(2) tbl_get_upd) force
    have "ctx \<in> set (es_canceled ?sc)"
      using st ctx by (auto simp: cancel_live_def Let_def call_cancel_def)
    moreover have "\<exists>p. get_job jid (finish_quantum (jr_generation r) jid qid err ?sc) = Inr p \<and>
          js_state p = StateCanceled \<and> js_terminal p" for qid err
    proof -
      let ?c = "?r\<lparr>jr_cancel := None, jr_claimed := False, jr_active_quantum_id := '''',
         jr_state := StateCanceled, jr_terminal := True\<rparr>"
      have "settle_job qid err (?r\<lparr>jr_cancel := None, jr_claimed := False, jr_active_quantum_id := ''''\<rparr>) = ?c"
        by (simp add: settle_job_def)
      then have "job_at (set_job jid (settle_job qid err) (clear_claim jid ?r ?sc)) jid = Some ?c"
        using at rid by (simp add: clear_claim_def tbl_upd_twice tbl_get_upd)
      then show ?thesis
        using at by (simp add: finish_quantum_def Let_def get_job_def snapshot_def)
    qed
    ultimately show ?thesis
      using True c at ctx r(2) by (simp add: get_job_def snapshot_def)
  next
    case False
    then have st: "jr_state r = StateQueued \<or> jr_state r = StatePausedRestartable"
      using live by (simp add: live_ok_def)
    have at: "job_at ?sc jid = Some (r\<lparr>jr_cancel_requested := True, jr_state := StateCanceled, jr_terminal := True\<rparr>)"
      using r st rid by (auto simp: cancel_live_fields(2) tbl_get_upd)
    have "jid \<notin> set (gg_ready g')"
      if "es_groups ?sc (jr_generation r) = Some g'" "\<not> es_closed ?sc" for g'
    proof -
      have n: "count_list (gg_ready g) jid = (if jr_state r = StateQueued \<and> \<not> jr_claimed r then 1 else 0)"
        using ok that(2) by (simp add: job_ok_def cancel_live_fields(1))
      have "gg_ready g' = (if jr_state r = StateQueued then remove1 jid (gg_ready g) else gg_ready g)"
        using that(1) g st by (auto simp: cancel_live_def Let_def)
      then have "count_list (gg_ready g') jid = 0"
        using n st by (auto simp: count_list_remove1 split: if_splits)
      then show ?thesis by (simp add: count_list_0_iff)
    qed
    with False c at show ?thesis by (simp add: get_job_def snapshot_def)
  qed
qed

theorem export_cancel_contract_witness:
  "\<exists>snap sc. cancel ''j'' (xs_sched demo_running) = (Inr snap, sc) \<and>
     js_state snap = StateCancelRequested \<and> \<not> js_terminal snap"
proof -
  let ?r = "the (job_at (xs_sched demo_running) ''j'')"
  have r: "job_at (xs_sched demo_running) ''j'' = Some ?r" "\<not> jr_terminal ?r"
    "executing (view (xs_worker demo_running (jr_generation ?r)) ''j'')"
    by (simp_all add: demo_sched_running table_simps) (simp add: demo_running_def)
  from export_cancel_contract [OF demo_running_reachable r(1,2)] r(3) show ?thesis by auto
qed

text \<open>\<open>PauseGeneration\<close> leaves nothing dispatchable: right after its first section every job of
  the generation that was neither terminal nor canceled before is marked to pause and is not
  waiting in the ready list, and if its poll finds nothing pending, each of them is
  \<open>PAUSED_RESTARTABLE\<close>.\<close>

definition paused :: "generation_key \<Rightarrow> job_record \<Rightarrow> bool" where
  "paused gen r \<longleftrightarrow> jr_generation r = gen \<longrightarrow> jr_terminal r \<or> jr_cancel_requested r \<or>
     jr_pause_requested r \<and> (jr_state r = StateQueued \<longrightarrow> jr_claimed r)"

lemma pause_job_paused:
  assumes dist: "distinct (map jr_id (es_jobs sc))"
    and r: "r \<in> set (es_jobs (pause_job gen jid sc))"
  shows "paused gen r \<and> jr_id r = jid \<or> r \<in> set (es_jobs sc) \<and> jr_id r \<noteq> jid"
proof (cases "job_at sc jid")
  case None
  with r show ?thesis by (auto simp: pause_job_def tbl_get_None_iff)
next
  case (Some x)
  have same: "y = x" if "y \<in> set (es_jobs sc)" "jr_id y = jid" for y
    using tbl_get_unique [OF dist that(1)] that(2) Some by simp
  from r obtain y where "y \<in> set (es_jobs sc)"
    "r = (if jr_id y = jid
       then if jr_generation x \<noteq> gen \<or> jr_terminal x \<or> jr_cancel_requested x then y
         else if jr_state x = StateQueued \<and> \<not> jr_claimed x
         then y\<lparr>jr_pause_requested := True, jr_state := StatePausedRestartable\<rparr>
         else y\<lparr>jr_pause_requested := True\<rparr> else y)"
    unfolding pause_job_fields(2) [OF Some] set_tbl_upd by blast
  with same show ?thesis by (cases "jr_id y = jid") (auto simp: paused_def)
qed

lemma pause_job_ids: "map jr_id (es_jobs (pause_job gen jid sc)) = map jr_id (es_jobs sc)"
proof (cases "job_at sc jid")
  case (Some r)
  show ?thesis unfolding pause_job_fields(2) [OF Some] by (rule map_key_upd) simp
qed (simp add: pause_job_def)

lemma pause_fold_paused:
  assumes "distinct (map jr_id (es_jobs sc))"
    and "r \<in> set (es_jobs (fold (pause_job gen) jids sc))"
  shows "paused gen r \<or> jr_id r \<notin> set jids \<and> r \<in> set (es_jobs sc)"
  using assms
proof (induction jids arbitrary: sc)
  case (Cons jid jids)
  from Cons.IH [of "pause_job gen jid sc"] Cons.prems
    pause_job_paused [OF Cons.prems(1), where jid = jid and gen = gen]
  show ?case by (auto simp: pause_job_ids)
qed simp

theorem export_pause_generation:
  assumes reach: "reachable_from export_start export_step s"
    and r: "job_at (pause_generation gen (xs_sched s)) jid = Some r" "jr_generation r = gen"
      "\<not> jr_terminal r" "\<not> jr_cancel_requested r"
  shows "jr_pause_requested r \<and> (jr_state r = StateQueued \<longrightarrow> jr_claimed r) \<and>
    (\<not> pause_pending gen (pause_generation gen (xs_sched s)) \<longrightarrow>
       jr_state r = StatePausedRestartable \<and> \<not> jr_claimed r)"
proof -
  let ?t = "s\<lparr>xs_sched := pause_generation gen (xs_sched s)\<rparr>"
  have core: "export_core ?t" by (rule core_pause [OF reachable_core [OF reach]])
  have mem: "r \<in> set (es_jobs (pause_generation gen (xs_sched s)))"
    using tbl_get_SomeD [OF r(1)] by simp
  have "paused gen r"
    using pause_fold_paused [OF export_coreD(1) [OF reachable_core [OF reach]]] mem
    by (fastforce simp: pause_generation_def)
  then have p: "jr_pause_requested r" "jr_state r = StateQueued \<longrightarrow> jr_claimed r"
    using r by (auto simp: paused_def)
  have "jr_state r = StatePausedRestartable" if "\<not> jr_claimed r"
  proof -
    obtain n where "job_ok (es_closed (xs_sched ?t)) n (view (xs_worker ?t (jr_generation r)) jid) r"
      using core_job [OF core] r(1) by auto
    with that p r show ?thesis by (auto simp: job_ok_defs split: if_splits)
  qed
  with p mem r show ?thesis by (auto simp: pause_pending_def list_ex_iff)
qed

theorem export_pause_generation_witness:
  "jr_state (the (job_at (pause_generation demo_key (xs_sched demo_submitted)) ''j'')) =
     StatePausedRestartable"
proof -
  have at: "job_at (pause_generation demo_key (xs_sched demo_submitted)) ''j'' =
      Some (the (job_at (pause_generation demo_key (xs_sched demo_submitted)) ''j''))"
    "\<not> pause_pending demo_key (pause_generation demo_key (xs_sched demo_submitted))"
    by (simp_all add: demo_sched_submitted pause_generation_def pause_job_def Let_def table_simps
        set_job_def set_group_def pause_pending_def)
  from export_pause_generation [OF demo_submitted_reachable at(1)] at(2) show ?thesis
    by (simp add: demo_sched_submitted pause_generation_def pause_job_def Let_def table_simps
        set_job_def set_group_def)
qed

text \<open>C24. A paused and then canceled job can end in a state nobody can leave.  \<open>PauseGeneration\<close>
  on a job that is queued but already claimed, then \<open>Cancel\<close> (which answers \<open>CANCELED\<close>), then the
  goroutine's \<open>finishBeforeDispatch\<close>: the job is terminal, shows \<open>PAUSED_RESTARTABLE\<close>, \<open>Restart\<close>
  rejects it and a second \<open>Cancel\<close> changes nothing.\<close>

definition demo_paused :: export_sys where
  "demo_paused = demo_claimed\<lparr>xs_sched := pause_generation demo_key (xs_sched demo_claimed)\<rparr>"

definition demo_canceled :: export_sys where
  "demo_canceled = demo_paused\<lparr>xs_sched := snd (cancel ''j'' (xs_sched demo_paused))\<rparr>"

definition demo_stuck :: export_sys where
  "demo_stuck = at_worker demo_key WClaim ((at_worker demo_key (WDrop ''j'' (Leaf context_Canceled)) demo_canceled)
     \<lparr>xs_sched := finish_before_dispatch ''j'' (Leaf context_Canceled) (xs_sched demo_canceled)\<rparr>)"

lemma demo_stuck_reachable: "reachable_from export_start export_step demo_stuck"
proof -
  have "export_step demo_claimed demo_paused"
    unfolding demo_paused_def by (rule do_pause)
  moreover have "export_step demo_paused demo_canceled"
    unfolding demo_canceled_def by (rule do_cancel [OF surjective_pairing])
  moreover have "export_step demo_canceled
      (at_worker demo_key (WDrop ''j'' (Leaf context_Canceled)) demo_canceled)" (is "export_step _ ?d")
    by (rule not_acquired [where jid = "''j''" and q = "demo_quantum ''a''" and ctx = 0])
      (simp add: demo_canceled_def demo_paused_def demo_claimed_def)
  moreover have "export_step ?d demo_stuck"
  proof -
    have "export_step ?d (at_worker demo_key WClaim
        (?d\<lparr>xs_sched := finish_before_dispatch ''j'' (Leaf context_Canceled) (xs_sched ?d)\<rparr>))"
      by (rule dropped) simp
    then show ?thesis by (simp add: demo_stuck_def)
  qed
  ultimately show ?thesis using demo_claimed_reachable by (blast intro: reach_step)
qed

lemma demo_sched_stuck:
  "xs_sched demo_stuck = \<lparr>es_jobs = [\<lparr>jr_id = ''j'', jr_generation = demo_key,
       jr_state = StatePausedRestartable, jr_terminal = True, jr_total = 2, jr_completed = 0,
       jr_quanta = [demo_quantum ''a'', demo_quantum ''b''], jr_active_quantum_id = '''',
       jr_cancel_requested = True, jr_pause_requested = True, jr_public_error_code = '''',
       jr_claimed = False, jr_cancel = None\<rparr>],
     es_groups = [demo_key \<mapsto> \<lparr>gg_ready = [], gg_wake = True, gg_stop = False\<rparr>],
     es_closed = False, es_canceled = [0, 0, 0], es_next_ctx = 1\<rparr>"
  by (simp add: demo_stuck_def demo_canceled_def demo_paused_def demo_sched_claimed
      pause_generation_def pause_job_def cancel_def cancel_live_def finish_before_dispatch_def
      clear_claim_def call_cancel_def set_job_def set_group_def Let_def table_simps)

theorem export_pause_cancel_race:
  "\<exists>s r. reachable_from export_start export_step s \<and> job_at (xs_sched s) ''j'' = Some r \<and>
     fst (cancel ''j'' (xs_sched demo_paused)) = Inr (snapshot (r\<lparr>jr_state := StateCanceled\<rparr>)) \<and>
     jr_terminal r \<and> jr_state r = StatePausedRestartable \<and>
     restart ''j'' (xs_sched s) = (Inl ErrStateConflict, xs_sched s) \<and>
     cancel ''j'' (xs_sched s) = (Inr (snapshot r), xs_sched s)"
proof -
  have "fst (cancel ''j'' (xs_sched demo_paused)) =
      Inr (snapshot ((the (job_at (xs_sched demo_stuck) ''j''))\<lparr>jr_state := StateCanceled\<rparr>))"
    unfolding demo_sched_stuck
    by (simp add: demo_paused_def demo_sched_claimed pause_generation_def pause_job_def cancel_def
        cancel_live_def call_cancel_def set_job_def set_group_def Let_def table_simps get_job_def
        snapshot_def)
  then show ?thesis
    by (intro exI [of _ demo_stuck] exI [of _ "the (job_at (xs_sched demo_stuck) ''j'')"])
      (simp add: demo_stuck_reachable, simp add: demo_sched_stuck restart_def cancel_def table_simps)
qed

end
