(* ===== verification/Influxql_Policy.thy ===== *)
theory Influxql_Policy
  imports Prelude
begin

text \<open>
  \<open>internal/influxql/classifier.go\<close>: the allowlist that decides whether a parsed InfluxQL batch is
  read-only.

  The parser and the AST printer are the third-party module \<open>github.com/influxdata/influxql\<close>: they
  are the parameters \<open>parse\<close>, \<open>stmt_text\<close> and \<open>query_text\<close>.  The types below hold what the
  classifier inspects of an AST.  A nil interface and a typed nil pointer are \<open>NilStatement\<close> and
  \<open>NilSource\<close> (\<open>isNilInterface\<close> is true of both); a statement type the switch does not name is
  \<open>OtherStatement\<close>.
\<close>

datatype classification = ReadOnly | MayMutate | Unsupported

text \<open>\<open>*ast.SelectStatement\<close>: whether \<open>Target\<close> is set, and \<open>Sources\<close>.\<close>

datatype select = Select (sel_into: bool) (sel_sources: "source list")
  and source = NilSource | Measurement string | SubQuery "select option" | OtherSource string

datatype plain_statement =
    ShowContinuousQueries | ShowDatabases | ShowDiagnostics | ShowFieldKeyCardinality | ShowFieldKeys
  | ShowGrantsForUser | ShowMeasurementCardinality | ShowMeasurements | ShowQueries
  | ShowRetentionPolicies | ShowSeriesCardinality | ShowSeries | ShowShardGroups | ShowShards
  | ShowStats | ShowSubscriptions | ShowTagKeyCardinality | ShowTagKeys | ShowTagValuesCardinality
  | ShowTagValues | ShowUsers
  | AlterRetentionPolicy | CreateContinuousQuery | CreateDatabase | CreateRetentionPolicy | CreateUser
  | DeleteSeries | Delete | DropContinuousQuery | DropDatabase | DropMeasurement | DropRetentionPolicy
  | DropSeries | DropUser | GrantAdmin | Grant | KillQuery | RevokeAdmin | Revoke | SetPasswordUser
  | CreateSubscription | DropShard | DropSubscription

datatype statement =
    NilStatement
  | SelectStatement select
  | ExplainStatement "select option"
  | PlainStatement plain_statement
  | OtherStatement string

record statement_analysis =
  sa_index :: nat
  sa_classification :: classification
  sa_canonical :: string

record analysis =
  an_classification :: classification
  an_canonical :: string
  an_statements :: "statement_analysis list"
  an_parsed :: "statement list option"

section \<open>The classifier\<close>

fun classify_select :: "select \<Rightarrow> classification"
  and classify_sources :: "source list \<Rightarrow> classification" where
  "classify_select (Select into srcs) = (if into then MayMutate else classify_sources srcs)"
| "classify_sources [] = ReadOnly"
| "classify_sources (src # srcs) =
     (case src of
        NilSource \<Rightarrow> Unsupported
      | Measurement _ \<Rightarrow> classify_sources srcs
      | SubQuery None \<Rightarrow> Unsupported
      | SubQuery (Some sel) \<Rightarrow>
          (let c = classify_select sel in
           if c \<noteq> ReadOnly then c else classify_sources srcs)
      | OtherSource _ \<Rightarrow> Unsupported)"

fun classify_plain :: "plain_statement \<Rightarrow> classification" where
  "classify_plain ShowContinuousQueries = ReadOnly"
| "classify_plain ShowDatabases = ReadOnly"
| "classify_plain ShowDiagnostics = ReadOnly"
| "classify_plain ShowFieldKeyCardinality = ReadOnly"
| "classify_plain ShowFieldKeys = ReadOnly"
| "classify_plain ShowGrantsForUser = ReadOnly"
| "classify_plain ShowMeasurementCardinality = ReadOnly"
| "classify_plain ShowMeasurements = ReadOnly"
| "classify_plain ShowQueries = ReadOnly"
| "classify_plain ShowRetentionPolicies = ReadOnly"
| "classify_plain ShowSeriesCardinality = ReadOnly"
| "classify_plain ShowSeries = ReadOnly"
| "classify_plain ShowShardGroups = ReadOnly"
| "classify_plain ShowShards = ReadOnly"
| "classify_plain ShowStats = ReadOnly"
| "classify_plain ShowSubscriptions = ReadOnly"
| "classify_plain ShowTagKeyCardinality = ReadOnly"
| "classify_plain ShowTagKeys = ReadOnly"
| "classify_plain ShowTagValuesCardinality = ReadOnly"
| "classify_plain ShowTagValues = ReadOnly"
| "classify_plain ShowUsers = ReadOnly"
| "classify_plain CreateSubscription = Unsupported"
| "classify_plain DropShard = Unsupported"
| "classify_plain DropSubscription = Unsupported"
| "classify_plain _ = MayMutate"

fun classify_statement :: "statement \<Rightarrow> classification" where
  "classify_statement NilStatement = Unsupported"
| "classify_statement (SelectStatement sel) = classify_select sel"
| "classify_statement (ExplainStatement None) = Unsupported"
| "classify_statement (ExplainStatement (Some sel)) = classify_select sel"
| "classify_statement (PlainStatement p) = classify_plain p"
| "classify_statement (OtherStatement _) = Unsupported"

text \<open>The loop of \<open>ClassifyQuery\<close>: \<open>None\<close> for the analyses is the early return.\<close>

fun classify_loop ::
  "(statement \<Rightarrow> string) \<Rightarrow> nat \<Rightarrow> nat \<Rightarrow> nat \<Rightarrow> statement_analysis list \<Rightarrow> statement list \<Rightarrow>
     statement_analysis list \<times> (nat \<times> nat) option" where
  "classify_loop stmt_text i reads mutations acc [] = (acc, Some (reads, mutations))"
| "classify_loop stmt_text i reads mutations acc (s # ss) =
     (let c = classify_statement s;
          acc' = acc @ [\<lparr>sa_index = i, sa_classification = c,
                         sa_canonical = (if s = NilStatement then '''' else stmt_text s)\<rparr>]
      in case c of
           ReadOnly \<Rightarrow> classify_loop stmt_text (Suc i) (reads + 1) mutations acc' ss
         | MayMutate \<Rightarrow> classify_loop stmt_text (Suc i) reads (mutations + 1) acc' ss
         | Unsupported \<Rightarrow> (acc', None))"

definition classify_query ::
  "(statement \<Rightarrow> string) \<Rightarrow> (statement list \<Rightarrow> string) \<Rightarrow> statement list option \<Rightarrow> analysis" where
  "classify_query stmt_text query_text query =
     (let a = \<lparr>an_classification = Unsupported, an_canonical = '''', an_statements = [],
               an_parsed = query\<rparr> in
      case query of
        None \<Rightarrow> a
      | Some [] \<Rightarrow> a
      | Some ss \<Rightarrow>
          (case classify_loop stmt_text 0 0 0 [] ss of
             (acc, None) \<Rightarrow> a\<lparr>an_statements := acc\<rparr>
           | (acc, Some (reads, mutations)) \<Rightarrow>
               a\<lparr>an_statements := acc,
                 an_classification :=
                   (if reads = length ss then ReadOnly
                    else if mutations = 1 \<and> length ss = 1 then MayMutate
                    else Unsupported),
                 an_canonical := query_text ss\<rparr>))"

definition parse_and_classify ::
  "(string \<Rightarrow> string + statement list) \<Rightarrow> (statement \<Rightarrow> string) \<Rightarrow> (statement list \<Rightarrow> string) \<Rightarrow>
     string \<Rightarrow> analysis result" where
  "parse_and_classify parse stmt_text query_text text =
     (case parse text of
        Inl e \<Rightarrow> Inl (PlainError (''parse influxql: '' @ e))
      | Inr ss \<Rightarrow> Inr (classify_query stmt_text query_text (Some ss)))"

section \<open>What the allowlist promises\<close>

text \<open>Every \<open>SELECT\<close> of a statement at any depth, and the statement types that change nothing.\<close>

fun selects_in :: "select \<Rightarrow> select set" and selects_in_sources :: "source list \<Rightarrow> select set" where
  "selects_in (Select into srcs) = insert (Select into srcs) (selects_in_sources srcs)"
| "selects_in_sources [] = {}"
| "selects_in_sources (src # srcs) =
     (case src of SubQuery (Some sel) \<Rightarrow> selects_in sel | _ \<Rightarrow> {}) \<union> selects_in_sources srcs"

definition known_source :: "source \<Rightarrow> bool" where
  "known_source src \<longleftrightarrow> (case src of Measurement _ \<Rightarrow> True | SubQuery (Some _) \<Rightarrow> True | _ \<Rightarrow> False)"

definition harmless_select :: "select \<Rightarrow> bool" where
  "harmless_select sel \<longleftrightarrow>
     (\<forall>s\<in>selects_in sel. \<not> sel_into s \<and> (\<forall>src\<in>set (sel_sources s). known_source src))"

fun harmless :: "statement \<Rightarrow> bool" where
  "harmless (SelectStatement sel) = harmless_select sel"
| "harmless (ExplainStatement (Some sel)) = harmless_select sel"
| "harmless (PlainStatement p) = (classify_plain p = ReadOnly)"
| "harmless _ = False"

lemma classify_select_read_only:
  "classify_select sel = ReadOnly \<longleftrightarrow> harmless_select sel"
  "classify_sources srcs = ReadOnly \<longleftrightarrow>
     (\<forall>src\<in>set srcs. known_source src) \<and>
     (\<forall>s\<in>selects_in_sources srcs. \<not> sel_into s \<and> (\<forall>src\<in>set (sel_sources s). known_source src))"
proof (induction sel and srcs rule: classify_select_classify_sources.induct)
  case (3 src srcs)
  show ?case
  proof (cases "\<exists>sel. src = SubQuery (Some sel)")
    case True
    then obtain sel where src: "src = SubQuery (Some sel)" by blast
    have "classify_select sel = ReadOnly \<longleftrightarrow> harmless_select sel" by (rule "3.IH"(2)) (simp_all add: src)
    moreover have "classify_select sel = ReadOnly \<Longrightarrow> classify_sources srcs = ReadOnly \<longleftrightarrow>
       (\<forall>src\<in>set srcs. known_source src) \<and>
       (\<forall>s\<in>selects_in_sources srcs. \<not> sel_into s \<and> (\<forall>src\<in>set (sel_sources s). known_source src))"
      using "3.IH"(3) [OF src refl] by simp
    ultimately show ?thesis
      by (cases "classify_select sel = ReadOnly")
        (auto simp: src Let_def harmless_select_def known_source_def)
  next
    case False
    then show ?thesis using "3.IH"(1)
      by (cases src) (auto simp: known_source_def split: option.split)
  qed
qed (auto simp: harmless_select_def)

lemma classify_statement_read_only: "classify_statement s = ReadOnly \<longleftrightarrow> harmless s"
  by (cases s rule: classify_statement.cases) (simp_all add: classify_select_read_only)

lemma classify_loop_result:
  "classify_loop stmt_text i reads mutations acc ss =
     (acc @ map (\<lambda>(j, s). \<lparr>sa_index = j, sa_classification = classify_statement s,
          sa_canonical = (if s = NilStatement then '''' else stmt_text s)\<rparr>)
        (enumerate i (takeWhile (\<lambda>s. classify_statement s \<noteq> Unsupported) ss @
           take 1 (dropWhile (\<lambda>s. classify_statement s \<noteq> Unsupported) ss))),
      if \<exists>s\<in>set ss. classify_statement s = Unsupported then None
      else Some (reads + tbl_count (\<lambda>s. classify_statement s = ReadOnly) ss,
                 mutations + tbl_count (\<lambda>s. classify_statement s = MayMutate) ss))"
  by (induction ss arbitrary: i reads mutations acc)
    (auto simp: Let_def table_simps split: classification.split)

lemma tbl_count_all: "tbl_count p xs = length xs \<longleftrightarrow> (\<forall>x\<in>set xs. p x)"
proof
  assume "tbl_count p xs = length xs"
  then show "\<forall>x\<in>set xs. p x"
    using length_filter_less [of _ xs p] by (metis tbl_count_def less_irrefl)
qed (simp add: tbl_count_def)

lemma classify_query_Some:
  assumes "ss \<noteq> []"
  shows "classify_query stmt_text query_text (Some ss) =
    (let a = \<lparr>an_classification = Unsupported, an_canonical = '''', an_statements = [], an_parsed = Some ss\<rparr>
     in case classify_loop stmt_text 0 0 0 [] ss of
           (acc, None) \<Rightarrow> a\<lparr>an_statements := acc\<rparr>
         | (acc, Some (reads, mutations)) \<Rightarrow>
             a\<lparr>an_statements := acc,
               an_classification :=
                 (if reads = length ss then ReadOnly
                  else if mutations = 1 \<and> length ss = 1 then MayMutate
                  else Unsupported),
               an_canonical := query_text ss\<rparr>)"
proof -
  obtain s0 ss0 where ss: "ss = s0 # ss0" using assms by (cases ss) auto
  show ?thesis unfolding classify_query_def ss by (simp only: Let_def list.case option.case)
qed

lemma classify_query_batch:
  assumes ne: "ss \<noteq> []"
  shows "an_classification (classify_query stmt_text query_text (Some ss)) =
     (if \<forall>s\<in>set ss. harmless s then ReadOnly
      else if \<exists>s. ss = [s] \<and> classify_statement s = MayMutate then MayMutate
      else Unsupported)"
proof (cases "\<exists>s\<in>set ss. classify_statement s = Unsupported")
  case True
  then have "\<not> (\<forall>s\<in>set ss. harmless s)" "\<not> (\<exists>s. ss = [s] \<and> classify_statement s = MayMutate)"
    by (auto simp flip: classify_statement_read_only intro!: bexI)
  with True ne show ?thesis by (simp add: classify_query_Some classify_loop_result)
next
  case False
  then have "an_classification (classify_query stmt_text query_text (Some ss)) =
      (if tbl_count (\<lambda>s. classify_statement s = ReadOnly) ss = length ss then ReadOnly
       else if tbl_count (\<lambda>s. classify_statement s = MayMutate) ss = 1 \<and> length ss = 1 then MayMutate
       else Unsupported)"
    using ne by (simp add: classify_query_Some classify_loop_result)
  moreover have "tbl_count (\<lambda>s. classify_statement s = MayMutate) ss = 1 \<and> length ss = 1 \<longleftrightarrow>
      (\<exists>s. ss = [s] \<and> classify_statement s = MayMutate)"
    by (auto simp: length_Suc_conv table_simps split: if_splits)
  ultimately show ?thesis using ne by (simp add: tbl_count_all classify_statement_read_only)
qed

section \<open>Properties\<close>

text \<open>The policy decision is exactly: \<open>READ_ONLY\<close> for a non-empty batch of harmless statements,
  \<open>MAY_MUTATE\<close> for a single statement of the supported mutating kind, and \<open>UNSUPPORTED\<close> for
  everything else: a nil or empty query, a mixed batch, several mutations, anything unknown.\<close>

theorem classify_query_decision:
  "an_classification (classify_query stmt_text query_text query) =
     (case query of
        None \<Rightarrow> Unsupported
      | Some ss \<Rightarrow>
          if ss \<noteq> [] \<and> (\<forall>s\<in>set ss. harmless s) then ReadOnly
          else if \<exists>s. ss = [s] \<and> classify_statement s = MayMutate then MayMutate
          else Unsupported)"
proof (cases query)
  case (Some ss)
  show ?thesis
  proof (cases "ss = []")
    case True
    then show ?thesis by (simp add: Some classify_query_def)
  next
    case False
    with classify_query_batch [OF False, of stmt_text query_text] show ?thesis by (simp add: Some)
  qed
qed (simp add: classify_query_def Let_def)

theorem classify_query_decision_witness:
  "an_classification (classify_query (\<lambda>_. '''') (\<lambda>_. '''') (Some [PlainStatement ShowSeries, PlainStatement DropUser])) =
     Unsupported"
  using classify_query_decision [of "\<lambda>_. ''''" "\<lambda>_. ''''" "Some [PlainStatement ShowSeries, PlainStatement DropUser]"]
  by simp

text \<open>C25. No \<open>SELECT ... INTO\<close> passes as read-only: when a parsed text is classified \<open>READ_ONLY\<close>, no
  select of any of its statements, inside \<open>EXPLAIN\<close> or nested in sub-queries at any depth, has a
  target, and every statement was classified \<open>READ_ONLY\<close> itself, one analysis per statement.\<close>

definition selects_of :: "statement \<Rightarrow> select set" where
  "selects_of s = (case s of SelectStatement sel \<Rightarrow> selects_in sel
     | ExplainStatement (Some sel) \<Rightarrow> selects_in sel | _ \<Rightarrow> {})"

theorem read_only_has_no_into:
  assumes "parse_and_classify parse stmt_text query_text text = Inr a"
    and "an_classification a = ReadOnly"
  shows "\<exists>ss. parse text = Inr ss \<and> ss \<noteq> [] \<and>
    (\<forall>s\<in>set ss. \<forall>sel\<in>selects_of s. \<not> sel_into sel) \<and>
    map sa_classification (an_statements a) = replicate (length ss) ReadOnly \<and>
    map sa_index (an_statements a) = [0..<length ss]"
proof -
  from assms(1) obtain ss where ss: "parse text = Inr ss"
    and a: "a = classify_query stmt_text query_text (Some ss)"
    by (auto simp: parse_and_classify_def split: sum.splits)
  have "ss \<noteq> []" using assms(2) by (auto simp: a classify_query_def)
  with assms(2) classify_query_batch [OF this, of stmt_text query_text]
  have h: "ss \<noteq> []" "\<forall>s\<in>set ss. harmless s" by (auto simp: a split: if_splits)
  have "\<not> sel_into sel" if "s \<in> set ss" "sel \<in> selects_of s" for s sel
  proof -
    from h(2) that(1) have "harmless s" by simp
    with that(2) show ?thesis
      by (cases s) (auto simp: selects_of_def harmless_select_def split: option.splits)
  qed
  moreover have c: "\<forall>s\<in>set ss. classify_statement s = ReadOnly"
    using h(2) by (simp add: classify_statement_read_only)
  then have w: "takeWhile (\<lambda>s. classify_statement s \<noteq> Unsupported) ss = ss"
    "dropWhile (\<lambda>s. classify_statement s \<noteq> Unsupported) ss = []"
    "\<not> (\<exists>s\<in>set ss. classify_statement s = Unsupported)" by auto
  have "an_statements a = map (\<lambda>(j, s). \<lparr>sa_index = j, sa_classification = classify_statement s,
      sa_canonical = (if s = NilStatement then '''' else stmt_text s)\<rparr>) (enumerate 0 ss)"
    unfolding a classify_query_Some [OF h(1)] classify_loop_result w(1,2) using w(3) by simp
  then have "map sa_classification (an_statements a) = map (\<lambda>(j, s). classify_statement s) (enumerate 0 ss)"
    "map sa_index (an_statements a) = [0..<length ss]"
    by (simp_all add: comp_def case_prod_beta' enumerate_eq_zip)
  moreover have "map (\<lambda>(j, s). classify_statement s) (enumerate 0 ss) = replicate (length ss) ReadOnly"
    using c by (intro nth_equalityI) (simp_all add: nth_enumerate_eq)
  ultimately show ?thesis using ss h(1) by (intro exI [of _ ss]) simp
qed

theorem read_only_has_no_into_witness:
  "let ss = [ExplainStatement (Some (Select False [SubQuery (Some (Select False [Measurement ''m'']))]))] in
   \<forall>s\<in>set ss. \<forall>sel\<in>selects_of s. \<not> sel_into sel"
  using read_only_has_no_into [of "\<lambda>_. Inr [ExplainStatement (Some (Select False
        [SubQuery (Some (Select False [Measurement ''m''])) ]))]" "\<lambda>_. ''''" "\<lambda>_. ''''" "''''"
      "classify_query (\<lambda>_. '''') (\<lambda>_. '''') (Some [ExplainStatement (Some (Select False
        [SubQuery (Some (Select False [Measurement ''m''])) ]))])"]
  by (simp add: parse_and_classify_def classify_query_def Let_def)

end
