(* ===== verification/Time_Text.thy ===== *)
theory Time_Text
  imports Decimal Store
begin

text \<open>
  \<open>time.Time.UTC().Format(time.RFC3339Nano)\<close>, the text of every timestamp column: the instant is
  a number of nanoseconds since 1970-01-01T00:00:00Z; the fraction is printed without trailing
  zeros and not at all when it is zero.  SQL compares these texts byte by byte.
\<close>

definition nanosecond :: time where "nanosecond = 1"
definition second :: time where "second = 1000000000"
definition minute :: time where "minute = 60 * second"
definition hour :: time where "hour = 3600 * second"

lemmas time_units = nanosecond_def second_def minute_def hour_def

fun zero_pad :: "nat \<Rightarrow> nat \<Rightarrow> string" where
  "zero_pad width n = replicate (width - length (dec n)) (CHR ''0'') @ dec n"

text \<open>The proleptic Gregorian date of a day number.\<close>

definition civil_of_days :: "int \<Rightarrow> int \<times> int \<times> int" where
  "civil_of_days days =
     (let z = days + 719468;
          era = z div 146097;
          doe = z mod 146097;
          yoe = (doe - doe div 1460 + doe div 36524 - doe div 146096) div 365;
          doy = doe - (365 * yoe + yoe div 4 - yoe div 100);
          mp = (5 * doy + 2) div 153;
          d = doy - (153 * mp + 2) div 5 + 1;
          m = (if mp < 10 then mp + 3 else mp - 9);
          y = yoe + era * 400
      in ((if m \<le> 2 then y + 1 else y), m, d))"

fun strip_zeros :: "string \<Rightarrow> string" where
  "strip_zeros s = rev (dropWhile (\<lambda>c. c = CHR ''0'') (rev s))"

definition fraction_text :: "nat \<Rightarrow> string" where
  "fraction_text ns = (if ns = 0 then [] else CHR ''.'' # strip_zeros (zero_pad 9 ns))"

definition rfc3339nano :: "time \<Rightarrow> string" where
  "rfc3339nano t =
     (let secs = t div second; ns = nat (t mod second);
          sod = nat (secs mod 86400);
          (y, m, d) = civil_of_days (secs div 86400)
      in zero_pad 4 (nat y) @ ''-'' @ zero_pad 2 (nat m) @ ''-'' @ zero_pad 2 (nat d) @ ''T'' @
         zero_pad 2 (sod div 3600) @ '':'' @ zero_pad 2 (sod mod 3600 div 60) @ '':'' @
         zero_pad 2 (sod mod 60) @ fraction_text ns @ ''Z'')"

text \<open>\<open>column <= ?\<close> on two such texts.\<close>

definition time_text_le :: "time \<Rightarrow> time \<Rightarrow> bool" where
  "time_text_le a b = text_le (rfc3339nano a) (rfc3339nano b)"

section \<open>Reading the text back\<close>

text \<open>
  \<open>time.Parse(time.RFC3339Nano, ...)\<close> on a text in UTC, the form the code writes.  Digits of the
  fraction after the ninth are dropped.
\<close>

definition days_of_civil :: "int \<Rightarrow> int \<Rightarrow> int \<Rightarrow> int" where
  "days_of_civil y m d =
     (let y' = (if m \<le> 2 then y - 1 else y);
          yoe = y' mod 400;
          doy = (153 * ((m + 9) mod 12) + 2) div 5 + d - 1;
          doe = yoe * 365 + yoe div 4 - yoe div 100 + doy
      in y' div 400 * 146097 + doe - 719468)"

definition digits_at :: "string \<Rightarrow> nat \<Rightarrow> nat \<Rightarrow> int option" where
  "digits_at s i n =
     (let ds = take n (drop i s)
      in if length ds = n \<and> list_all is_digit ds then Some (int (dec_val ds)) else None)"

definition days_in_month :: "int \<Rightarrow> int \<Rightarrow> int" where
  "days_in_month y m =
     (if m = 2 then (if y mod 4 = 0 \<and> (y mod 100 \<noteq> 0 \<or> y mod 400 = 0) then 29 else 28)
      else if m \<in> {4, 6, 9, 11} then 30 else 31)"

definition parse_fraction :: "string \<Rightarrow> int option" where
  "parse_fraction s =
     (if s = ''Z'' then Some 0
      else if s \<noteq> [] \<and> hd s = CHR ''.'' \<and> last s = CHR ''Z'' \<and> tl (butlast s) \<noteq> [] \<and>
              list_all is_digit (tl (butlast s))
      then Some (int (dec_val (take 9 (tl (butlast s) @ replicate 9 (CHR ''0'')))))
      else None)"

definition parse_rfc3339nano :: "string \<Rightarrow> time option" where
  "parse_rfc3339nano s =
     (case (digits_at s 0 4, digits_at s 5 2, digits_at s 8 2, digits_at s 11 2, digits_at s 14 2,
            digits_at s 17 2, parse_fraction (drop 19 s)) of
        (Some y, Some mo, Some d, Some h, Some mi, Some sec, Some ns) \<Rightarrow>
          if take 1 (drop 4 s) = ''-'' \<and> take 1 (drop 7 s) = ''-'' \<and> take 1 (drop 10 s) = ''T'' \<and>
             take 1 (drop 13 s) = '':'' \<and> take 1 (drop 16 s) = '':'' \<and> 1 \<le> mo \<and> mo \<le> 12 \<and> 1 \<le> d \<and>
             d \<le> days_in_month y mo \<and> h < 24 \<and> mi < 60 \<and> sec < 60
          then Some (((days_of_civil y mo d * 24 + h) * 60 + mi) * minute + sec * second + ns)
          else None
      | _ \<Rightarrow> None)"

end
