(* ===== verification/Protection.thy ===== *)
theory Protection
  imports Time_Text
begin

text \<open>
  \<open>internal/protection\<close> (\<open>types.go\<close>, \<open>manager.go\<close>): the write protection of a connection
  generation.  A generation is locked, unlocked for ten minutes under a lease, or permanently
  read-only; every change increments its revision; a mutation is dispatched only under a binding to
  the current revision and lease, while the caller holds the generation's gate.

  \<open>manager\<close> has the durable database and the map of \<open>connectionState\<close>s.  The gate channel is
  \<open>cn_gate\<close>: true when the token is in the channel.  A method is one or two functions: what it does
  before it waits for the gate, and what it does with the gate in hand (\<open>..._gated\<close>, on the
  connection state and the database).  \<open>Protection_System\<close> interleaves them.

  Parameters: \<open>uuid_ok\<close> (\<open>uuid.Parse\<close> succeeds), \<open>sha256_hex\<close>, the successive readings \<open>clock i\<close> of
  \<open>m.now\<close> in a call, the \<open>lease_id\<close> drawn from \<open>m.rand\<close> (\<open>None\<close> when reading fails), and \<open>io\<close>, false
  when the driver fails the transaction.
\<close>

section \<open>types.go\<close>

abbreviation PermanentReadOnly :: string where "PermanentReadOnly \<equiv> ''PermanentReadOnly''"
abbreviation ProtectedLocked :: string where "ProtectedLocked \<equiv> ''ProtectedLocked''"
abbreviation ProtectedUnlocked :: string where "ProtectedUnlocked \<equiv> ''ProtectedUnlocked''"

abbreviation protection_ErrNotFound :: go_error where
  "protection_ErrNotFound \<equiv> Sentinel PkgProtection ''CONNECTION_NOT_FOUND''"
abbreviation ErrConnectionClosed :: go_error where
  "ErrConnectionClosed \<equiv> Sentinel PkgProtection ''CONNECTION_CLOSED''"
abbreviation ErrGenerationConflict :: go_error where
  "ErrGenerationConflict \<equiv> Sentinel PkgProtection ''CONNECTION_GENERATION_CONFLICT''"
abbreviation protection_ErrRevisionConflict :: go_error where
  "protection_ErrRevisionConflict \<equiv> Sentinel PkgProtection ''PROTECTION_REVISION_CONFLICT''"
abbreviation ErrCommandConflict :: go_error where
  "ErrCommandConflict \<equiv> Sentinel PkgProtection ''COMMAND_IDEMPOTENCY_CONFLICT''"
abbreviation ErrLockPending :: go_error where
  "ErrLockPending \<equiv> Sentinel PkgProtection ''PROTECTION_LOCK_PENDING''"
abbreviation ErrLocked :: go_error where
  "ErrLocked \<equiv> Sentinel PkgProtection ''PROTECTION_LOCKED''"
abbreviation ErrLeaseExpired :: go_error where
  "ErrLeaseExpired \<equiv> Sentinel PkgProtection ''PROTECTION_LEASE_EXPIRED''"
abbreviation ErrBindingMismatch :: go_error where
  "ErrBindingMismatch \<equiv> Sentinel PkgProtection ''PROTECTION_BINDING_MISMATCH''"

record protection_snapshot =
  ps_connection_id :: string
  ps_connection_generation :: string
  ps_protection_revision :: string
  ps_mode :: string
  ps_lease_id :: "string option"
  ps_unlocked_until :: "string option"

record register_request =
  rr_connection_id :: string
  rr_connection_generation :: string
  rr_profile_id :: string
  rr_profile_revision :: string
  rr_mode :: string

record unlock_request =
  ur_connection_id :: string
  ur_command_request_id :: string
  ur_expected_connection_generation :: string
  ur_expected_protection_revision :: string

record lock_request =
  lr_connection_id :: string
  lr_command_request_id :: string
  lr_expected_connection_generation :: string

record command_result =
  cr_snapshot :: protection_snapshot
  cr_applied_protection_revision :: string
  cr_replayed :: bool

record dispatch_binding =
  db_connection_id :: string
  db_connection_generation :: string
  db_profile_revision :: string
  db_protection_revision :: string
  db_lease_id :: string

definition empty_snapshot :: protection_snapshot where
  "empty_snapshot = \<lparr>ps_connection_id = '''', ps_connection_generation = '''',
     ps_protection_revision = '''', ps_mode = '''', ps_lease_id = None, ps_unlocked_until = None\<rparr>"

definition empty_result :: command_result where
  "empty_result = \<lparr>cr_snapshot = empty_snapshot, cr_applied_protection_revision = '''', cr_replayed = False\<rparr>"

text \<open>A method returns its result and, possibly with it, an error.\<close>

type_synonym outcome = "command_result \<times> go_error option"

definition command_error :: "string \<Rightarrow> go_error option" where
  "command_error code = (if code = '''' \<or> code = ''OK'' then None else Some (CommandError code))"

definition validate_mode :: "string \<Rightarrow> unit result" where
  "validate_mode mode =
     (if mode = PermanentReadOnly \<or> mode = ProtectedLocked \<or> mode = ProtectedUnlocked then Inr ()
      else Inl (PlainError (''invalid protection mode '' @ mode)))"

section \<open>The manager\<close>

record prot_lease =
  ls_id :: string
  ls_expires :: time

record conn_state =
  cn_gate :: bool
  cn_lock_waiters :: nat
  cn_snapshot :: protection_snapshot
  cn_profile_id :: string
  cn_profile_rev :: string
  cn_lease :: "prot_lease option"
  cn_closed :: bool

record manager =
  mg_db :: db
  mg_connections :: "string \<rightharpoonup> conn_state"

definition new_connection_state :: "protection_snapshot \<Rightarrow> string \<Rightarrow> string \<Rightarrow> conn_state" where
  "new_connection_state snapshot profile_id profile_revision =
     \<lparr>cn_gate = True, cn_lock_waiters = 0, cn_snapshot = snapshot, cn_profile_id = profile_id,
      cn_profile_rev = profile_revision, cn_lease = None, cn_closed = False\<rparr>"

definition mark_lock_pending :: "conn_state \<Rightarrow> conn_state" where
  "mark_lock_pending s = s\<lparr>cn_lock_waiters := cn_lock_waiters s + 1\<rparr>"

definition finish_lock_pending :: "conn_state \<Rightarrow> conn_state" where
  "finish_lock_pending s = s\<lparr>cn_lock_waiters := cn_lock_waiters s - 1\<rparr>"

definition generation_key :: "string \<Rightarrow> string \<Rightarrow> string" where
  "generation_key connection_id generation = connection_id @ CHR 0x00 # generation"

definition protection_canonical_decimal :: "string \<Rightarrow> string result" where
  "protection_canonical_decimal value =
     (case canonical_big value of None \<Rightarrow> Inl ErrBindingMismatch | Some v \<Rightarrow> Inr v)"

definition protection_increment :: "string \<Rightarrow> string result" where
  "protection_increment value =
     (case protection_canonical_decimal value of Inl e \<Rightarrow> Inl e | Inr v \<Rightarrow> Inr (decimal_succ v))"

subsection \<open>Rows\<close>

text \<open>\<open>readSnapshotTx\<close>: the durable snapshot, never with a lease, and whether it is closed.\<close>

definition snapshot_of_row :: "protection_row \<Rightarrow> protection_snapshot" where
  "snapshot_of_row r = \<lparr>ps_connection_id = p_connection_id r, ps_connection_generation = p_generation r,
     ps_protection_revision = p_revision r, ps_mode = p_mode r, ps_lease_id = None,
     ps_unlocked_until = None\<rparr>"

abbreviation row_key :: "protection_row \<Rightarrow> string \<times> string" where
  "row_key r \<equiv> (p_connection_id r, p_generation r)"

definition read_snapshot :: "string \<Rightarrow> string \<Rightarrow> db \<Rightarrow> (protection_snapshot \<times> bool) option" where
  "read_snapshot c g d =
     map_option (\<lambda>r. (snapshot_of_row r, p_closed_at r \<noteq> None)) (tbl_get row_key (c, g) (protection_t d))"

definition write_snapshot_tx :: "protection_snapshot \<Rightarrow> time \<Rightarrow> (db, nat) tx" where
  "write_snapshot_tx snapshot now =
     tx_update protection_t protection_t_update
       (\<lambda>r. row_key r = (ps_connection_id snapshot, ps_connection_generation snapshot))
       (\<lambda>r. r\<lparr>p_revision := ps_protection_revision snapshot, p_mode := ps_mode snapshot,
              p_updated_at := now\<rparr>)"

definition insert_protection_event :: "protection_snapshot \<Rightarrow> string \<Rightarrow> time \<Rightarrow> (db, unit) tx" where
  "insert_protection_event snapshot change_type now =
     tx_insert protection_events_t protection_events_t_update (\<lambda>_. True)
       \<lparr>pe_connection_id = ps_connection_id snapshot, pe_generation = ps_connection_generation snapshot,
        pe_revision = ps_protection_revision snapshot, pe_mode = ps_mode snapshot,
        pe_change_type = change_type, pe_occurred_at = now\<rparr>"

definition lookup_ledger :: "string \<Rightarrow> db \<Rightarrow> protection_ledger_row option" where
  "lookup_ledger scope d = tbl_get pl_scope scope (protection_ledger_t d)"

definition insert_ledger :: "protection_ledger_row \<Rightarrow> (db, unit) tx" where
  "insert_ledger e =
     tx_insert protection_ledger_t protection_ledger_t_update
       (\<lambda>d. \<not> has_key pl_scope (pl_scope e) (protection_ledger_t d) \<and>
            \<not> has_key (\<lambda>r. (pl_connection_id r, pl_generation r, pl_kind r, pl_request_id r))
                (pl_connection_id e, pl_generation e, pl_kind e, pl_request_id e) (protection_ledger_t d)) e"

definition nullable :: "string \<Rightarrow> string option" where
  "nullable value = (if value = '''' then None else Some value)"

definition applied_revision :: "protection_ledger_row \<Rightarrow> string" where
  "applied_revision e = (case pl_applied_revision e of None \<Rightarrow> '''' | Some v \<Rightarrow> v)"

definition replay_from :: "protection_ledger_row \<Rightarrow> db \<Rightarrow> outcome" where
  "replay_from e d =
     (case read_snapshot (pl_connection_id e) (pl_generation e) d of
        None \<Rightarrow> (empty_result, Some protection_ErrNotFound)
      | Some (snapshot, _) \<Rightarrow>
          (\<lparr>cr_snapshot = snapshot, cr_applied_protection_revision = applied_revision e, cr_replayed = True\<rparr>,
           command_error (pl_result_code e)))"

subsection \<open>Commands\<close>

definition command_scope :: "string \<Rightarrow> string \<Rightarrow> string \<Rightarrow> string \<Rightarrow> string" where
  "command_scope connection_id generation kind request_id =
     connection_id @ [CHR 0x1F] @ generation @ [CHR 0x1F] @ kind @ [CHR 0x1F] @ request_id"

definition command_digest ::
  "(string \<Rightarrow> string) \<Rightarrow> string \<Rightarrow> string \<Rightarrow> string \<Rightarrow> string \<Rightarrow> string" where
  "command_digest sha256_hex kind connection_id generation expected_revision =
     sha256_hex (''ProtectionCommandCanonicalV1'' @ [CHR 0x0A] @ kind @ [CHR 0x0A] @ connection_id @
       [CHR 0x0A] @ generation @ [CHR 0x0A] @ expected_revision @ [CHR 0x0A])"

record command_record =
  cm_scope :: string
  cm_connection_id :: string
  cm_generation :: string
  cm_kind :: string
  cm_request_id :: string
  cm_digest :: string

definition ledger_entry :: "command_record \<Rightarrow> string \<Rightarrow> string \<Rightarrow> time \<Rightarrow> protection_ledger_row" where
  "ledger_entry c result_code applied now = \<lparr>pl_scope = cm_scope c, pl_connection_id = cm_connection_id c,
     pl_generation = cm_generation c, pl_kind = cm_kind c, pl_request_id = cm_request_id c,
     pl_digest = cm_digest c, pl_result_code = result_code, pl_applied_revision = nullable applied,
     pl_committed_at = now\<rparr>"

definition snapshot_from_state_if_current :: "conn_state \<Rightarrow> protection_snapshot \<Rightarrow> protection_snapshot" where
  "snapshot_from_state_if_current s fallback =
     (if ps_connection_id (cn_snapshot s) = ps_connection_id fallback \<and>
         ps_connection_generation (cn_snapshot s) = ps_connection_generation fallback \<and>
         ps_protection_revision (cn_snapshot s) = ps_protection_revision fallback
      then cn_snapshot s else fallback)"

definition lease_expired_at :: "string \<Rightarrow> prot_lease option \<Rightarrow> time \<Rightarrow> bool" where
  "lease_expired_at mode current now =
     (mode = ProtectedUnlocked \<and> (case current of None \<Rightarrow> False | Some l \<Rightarrow> ls_expires l \<le> now))"

section \<open>With the gate in hand\<close>

type_synonym gated = "conn_state \<times> db"

definition reconcile_tx ::
  "string \<Rightarrow> string \<Rightarrow> time \<Rightarrow> (db, protection_snapshot \<times> bool) tx" where
  "reconcile_tx c g now =
     tx_bind (tx_get (read_snapshot c g)) (\<lambda>found.
       case found of
         None \<Rightarrow> tx_fail ErrGenerationConflict
       | Some (current, is_closed) \<Rightarrow>
           if \<not> is_closed \<and> ps_mode current = ProtectedUnlocked then
             tx_bind (tx_lift (protection_increment (ps_protection_revision current))) (\<lambda>revision.
             let current = current\<lparr>ps_protection_revision := revision, ps_mode := ProtectedLocked\<rparr> in
             tx_bind (write_snapshot_tx current now) (\<lambda>_.
             tx_bind (insert_protection_event current ''LEASE_EXPIRED'' now) (\<lambda>_.
             tx_return (current, is_closed))))
           else tx_return (current, is_closed))"

definition reconcile_expired_lease ::
  "bool \<Rightarrow> time \<Rightarrow> gated \<Rightarrow> (protection_snapshot \<times> bool) result \<times> gated" where
  "reconcile_expired_lease io now = (\<lambda>(s, d).
     if \<not> lease_expired_at (ps_mode (cn_snapshot s)) (cn_lease s) now
     then (Inr (cn_snapshot s, False), (s, d))
     else case with_immediate io
         (reconcile_tx (ps_connection_id (cn_snapshot s)) (ps_connection_generation (cn_snapshot s)) now) d of
       (Inl e, d') \<Rightarrow> (Inl e, (s, d'))
     | (Inr (snapshot, closed), d') \<Rightarrow>
         (Inr (snapshot, True),
          (s\<lparr>cn_snapshot := snapshot, cn_lease := None, cn_closed := cn_closed s \<or> closed\<rparr>, d')))"

text \<open>
  The transaction of \<open>Unlock\<close>: a replay or a committed rejection code comes back as a value.  The
  second component of the value is \<open>committedResultCode\<close>.
\<close>

definition replay_tx :: "command_record \<Rightarrow> (db, command_result \<times> string) tx \<Rightarrow> (db, command_result \<times> string) tx" where
  "replay_tx c otherwise =
     tx_bind (tx_get (lookup_ledger (cm_scope c))) (\<lambda>found.
       case found of
         None \<Rightarrow> otherwise
       | Some entry \<Rightarrow>
           if pl_digest entry \<noteq> cm_digest c then tx_fail ErrCommandConflict
           else tx_bind (tx_get (replay_from entry)) (\<lambda>(result, err).
             tx_return (result\<lparr>cr_replayed := True\<rparr>,
                        case err of None \<Rightarrow> '''' | Some _ \<Rightarrow> pl_result_code entry)))"

definition reject_tx ::
  "command_record \<Rightarrow> string \<Rightarrow> time \<Rightarrow> protection_snapshot \<Rightarrow> (db, command_result \<times> string) tx" where
  "reject_tx c code now current =
     tx_bind (insert_ledger (ledger_entry c code '''' now)) (\<lambda>_.
     tx_return (empty_result\<lparr>cr_snapshot := current\<rparr>, code))"

definition commit_tx ::
  "command_record \<Rightarrow> string \<Rightarrow> time \<Rightarrow> protection_snapshot \<Rightarrow> (db, command_result \<times> string) tx" where
  "commit_tx c change_type now current =
     tx_bind (write_snapshot_tx current now) (\<lambda>_.
     tx_bind (insert_protection_event current change_type now) (\<lambda>_.
     tx_bind (insert_ledger (ledger_entry c ''OK'' (ps_protection_revision current) now)) (\<lambda>_.
     tx_return (\<lparr>cr_snapshot = current, cr_applied_protection_revision = ps_protection_revision current,
                 cr_replayed = False\<rparr>, ''''))))"

definition unlock_tx ::
  "command_record \<Rightarrow> string \<Rightarrow> string \<Rightarrow> time \<Rightarrow> time \<Rightarrow> (db, command_result \<times> string) tx" where
  "unlock_tx c revision lease_id expires now =
     replay_tx c (
       tx_bind (tx_get (read_snapshot (cm_connection_id c) (cm_generation c))) (\<lambda>found.
         case found of
           None \<Rightarrow> tx_fail ErrGenerationConflict
         | Some (current, closed) \<Rightarrow>
             if closed then reject_tx c (error_text ErrConnectionClosed) now current
             else if ps_protection_revision current \<noteq> revision
             then reject_tx c (error_text protection_ErrRevisionConflict) now current
             else if ps_mode current = PermanentReadOnly
             then reject_tx c (error_text ErrLocked) now current
             else tx_bind (tx_lift (protection_increment (ps_protection_revision current))) (\<lambda>new_revision.
               commit_tx c ''UNLOCKED'' now
                 (current\<lparr>ps_protection_revision := new_revision, ps_mode := ProtectedUnlocked,
                    ps_lease_id := Some lease_id, ps_unlocked_until := Some (rfc3339nano expires)\<rparr>))))"

definition lock_tx :: "command_record \<Rightarrow> time \<Rightarrow> (db, command_result \<times> string) tx" where
  "lock_tx c now =
     replay_tx c (
       tx_bind (tx_get (read_snapshot (cm_connection_id c) (cm_generation c))) (\<lambda>found.
         case found of
           None \<Rightarrow> tx_fail ErrGenerationConflict
         | Some (current, closed) \<Rightarrow>
             if closed then reject_tx c (error_text ErrConnectionClosed) now current
             else tx_bind (tx_lift (protection_increment (ps_protection_revision current))) (\<lambda>new_revision.
               commit_tx c ''LOCKED'' now
                 (current\<lparr>ps_protection_revision := new_revision,
                    ps_mode := (if ps_mode current \<noteq> PermanentReadOnly then ProtectedLocked
                                else ps_mode current),
                    ps_lease_id := None, ps_unlocked_until := None\<rparr>))))"

text \<open>\<open>persistCommandRejection\<close>: its replay branch ignores the outcome code of \<open>replayFromTx\<close>.\<close>

definition ledger_replay_tx ::
  "command_record \<Rightarrow> (db, command_result \<times> string) tx \<Rightarrow> (db, command_result \<times> string) tx" where
  "ledger_replay_tx c otherwise =
     tx_bind (tx_get (lookup_ledger (cm_scope c))) (\<lambda>found.
       case found of
         None \<Rightarrow> otherwise
       | Some entry \<Rightarrow>
           if pl_digest entry \<noteq> cm_digest c then tx_fail ErrCommandConflict
           else tx_bind (tx_get (read_snapshot (pl_connection_id entry) (pl_generation entry))) (\<lambda>found.
             case found of
               None \<Rightarrow> tx_fail protection_ErrNotFound
             | Some (snapshot, _) \<Rightarrow>
                 tx_return (\<lparr>cr_snapshot = snapshot,
                     cr_applied_protection_revision = applied_revision entry, cr_replayed = True\<rparr>,
                   pl_result_code entry)))"

definition rejection_tx :: "command_record \<Rightarrow> go_error \<Rightarrow> time \<Rightarrow> (db, command_result \<times> string) tx" where
  "rejection_tx c rejection now =
     ledger_replay_tx c (
       tx_bind (tx_get (read_snapshot (cm_connection_id c) (cm_generation c))) (\<lambda>found.
         case found of
           None \<Rightarrow> tx_fail ErrGenerationConflict
         | Some (snapshot, _) \<Rightarrow> reject_tx c (error_text rejection) now snapshot))"

definition persist_command_rejection ::
  "bool \<Rightarrow> time \<Rightarrow> command_record \<Rightarrow> go_error \<Rightarrow> manager \<Rightarrow> outcome \<times> manager" where
  "persist_command_rejection io now c rejection m =
     (case with_immediate io (rejection_tx c rejection now) (mg_db m) of
        (Inl e, d) \<Rightarrow> ((empty_result, Some e), m\<lparr>mg_db := d\<rparr>)
      | (Inr (result, code), d) \<Rightarrow>
          (((case mg_connections m (generation_key (cm_connection_id c) (cm_generation c)) of
               None \<Rightarrow> result
             | Some s \<Rightarrow> result\<lparr>cr_snapshot := snapshot_from_state_if_current s (cr_snapshot result)\<rparr>),
            command_error code), m\<lparr>mg_db := d\<rparr>))"

definition unavailable_generation_code :: "string \<Rightarrow> string \<Rightarrow> db \<Rightarrow> string" where
  "unavailable_generation_code c g d =
     (if tbl_count (\<lambda>r. p_connection_id r = c) (protection_t d) \<noteq> 0 then error_text ErrGenerationConflict
      else if tbl_count (\<lambda>e. pe_connection_id e = c \<and> pe_generation e = g) (protection_events_t d) \<noteq> 0
      then error_text ErrGenerationConflict
      else if map_of (generation_counters_t d) c \<noteq> None then error_text ErrGenerationConflict
      else error_text protection_ErrNotFound)"

definition unavailable_tx :: "command_record \<Rightarrow> time \<Rightarrow> (db, command_result \<times> string) tx" where
  "unavailable_tx c now =
     ledger_replay_tx c (
       tx_bind (tx_get (read_snapshot (cm_connection_id c) (cm_generation c))) (\<lambda>found.
         case found of
           Some (snapshot, closed) \<Rightarrow>
             reject_tx c (error_text (if closed then ErrConnectionClosed else ErrGenerationConflict)) now snapshot
         | None \<Rightarrow>
             tx_bind (tx_get (unavailable_generation_code (cm_connection_id c) (cm_generation c))) (\<lambda>code.
             tx_return (empty_result, code))))"

definition reject_unavailable_generation ::
  "bool \<Rightarrow> time \<Rightarrow> command_record \<Rightarrow> manager \<Rightarrow> outcome \<times> manager" where
  "reject_unavailable_generation io now c m =
     (case with_immediate io (unavailable_tx c now) (mg_db m) of
        (Inl e, d) \<Rightarrow> ((empty_result, Some e), m\<lparr>mg_db := d\<rparr>)
      | (Inr (result, code), d) \<Rightarrow> ((result, command_error code), m\<lparr>mg_db := d\<rparr>))"

text \<open>What a command returns after its transaction, before the state is updated.\<close>

definition settle_result :: "conn_state \<Rightarrow> command_result \<Rightarrow> string \<Rightarrow> command_result" where
  "settle_result s result code =
     (if cr_replayed result \<or> code \<noteq> ''''
      then result\<lparr>cr_snapshot := snapshot_from_state_if_current s (cr_snapshot result)\<rparr>
      else result)"

definition unlock_duration :: time where
  "unlock_duration = 10 * minute"

text \<open>\<open>clock 0\<close> is read by the reconciliation, \<open>clock 1\<close> for the expiry, \<open>clock 2\<close> in the transaction.\<close>

definition unlock_gated ::
  "bool \<Rightarrow> bool \<Rightarrow> (nat \<Rightarrow> time) \<Rightarrow> string option \<Rightarrow> string \<Rightarrow> command_record \<Rightarrow> gated \<Rightarrow> outcome \<times> gated" where
  "unlock_gated io1 io2 clock lease_id revision c gs =
     (case reconcile_expired_lease io1 (clock 0) gs of
        (Inl e, gs) \<Rightarrow> ((empty_result, Some e), gs)
      | (Inr _, (s, d)) \<Rightarrow>
          (case lease_id of
             None \<Rightarrow> ((empty_result, Some (PlainError ''create protection lease'')), (s, d))
           | Some lease \<Rightarrow>
               (let expires = clock 1 + unlock_duration in
                case with_immediate io2 (unlock_tx c revision lease expires (clock 2)) d of
                  (Inl e, d) \<Rightarrow> ((empty_result, Some e), (s, d))
                | (Inr (result, code), d) \<Rightarrow>
                    (let result = settle_result s result code in
                     if code \<noteq> '''' then ((result, command_error code), (s, d))
                     else if cr_replayed result then ((result, None), (s, d))
                     else ((result, None),
                           (s\<lparr>cn_snapshot := cr_snapshot result,
                              cn_lease := Some \<lparr>ls_id = lease, ls_expires = expires\<rparr>\<rparr>, d))))))"

definition lock_gated :: "bool \<Rightarrow> time \<Rightarrow> command_record \<Rightarrow> gated \<Rightarrow> outcome \<times> gated" where
  "lock_gated io now c = (\<lambda>(s, d).
     case with_immediate io (lock_tx c now) d of
       (Inl e, d) \<Rightarrow> ((empty_result, Some e), (s, d))
     | (Inr (result, code), d) \<Rightarrow>
         (let result = settle_result s result code in
          if code \<noteq> '''' then ((result, command_error code), (s, d))
          else ((result, None), (s\<lparr>cn_snapshot := cr_snapshot result, cn_lease := None\<rparr>, d))))"

definition close_tx :: "string \<Rightarrow> string \<Rightarrow> time \<Rightarrow> (db, unit) tx" where
  "close_tx c g now =
     tx_bind (tx_get (read_snapshot c g)) (\<lambda>found.
       case found of
         None \<Rightarrow> tx_fail protection_ErrNotFound
       | Some (current, _) \<Rightarrow>
           let current = (if ps_mode current \<noteq> PermanentReadOnly then current\<lparr>ps_mode := ProtectedLocked\<rparr>
                          else current) in
           tx_bind (tx_update protection_t protection_t_update (\<lambda>r. row_key r = (c, g))
             (\<lambda>r. r\<lparr>p_mode := ps_mode current, p_closed_at := Some now,
                    p_purge_after := Some (now + 24 * hour), p_updated_at := now\<rparr>)) (\<lambda>_.
           insert_protection_event current ''GENERATION_CLOSED'' now))"

definition close_gated :: "bool \<Rightarrow> time \<Rightarrow> string \<Rightarrow> string \<Rightarrow> gated \<Rightarrow> unit result \<times> gated" where
  "close_gated io now c g = (\<lambda>(s, d).
     case with_immediate io (close_tx c g now) d of
       (Inl e, d) \<Rightarrow> (Inl e, (s, d))
     | (Inr _, d) \<Rightarrow>
         (Inr (), (s\<lparr>cn_closed := True, cn_lease := None,
            cn_snapshot := (cn_snapshot s)\<lparr>ps_lease_id := None, ps_unlocked_until := None,
              ps_mode := (if ps_mode (cn_snapshot s) \<noteq> PermanentReadOnly then ProtectedLocked
                          else ps_mode (cn_snapshot s))\<rparr>\<rparr>, d)))"

definition validate_dispatch :: "time \<Rightarrow> conn_state \<Rightarrow> dispatch_binding \<Rightarrow> unit result" where
  "validate_dispatch now s b =
     (if cn_lock_waiters s \<noteq> 0 then Inl ErrLockPending
      else if cn_closed s then Inl ErrConnectionClosed
      else if ps_connection_generation (cn_snapshot s) \<noteq> db_connection_generation b \<or>
              cn_profile_rev s \<noteq> db_profile_revision b \<or>
              ps_protection_revision (cn_snapshot s) \<noteq> db_protection_revision b
      then Inl ErrBindingMismatch
      else if ps_mode (cn_snapshot s) \<noteq> ProtectedUnlocked then Inl ErrLocked
      else case cn_lease s of
        None \<Rightarrow> Inl ErrLocked
      | Some l \<Rightarrow> if ls_id l \<noteq> db_lease_id b then Inl ErrLocked
          else require (now < ls_expires l) ErrLeaseExpired)"

text \<open>
  The common part of \<open>BeginMutationDispatch\<close> and \<open>WithAuthorizedGate\<close> with the gate in hand, up to
  the callback.
\<close>

definition authorize_gated :: "bool \<Rightarrow> (nat \<Rightarrow> time) \<Rightarrow> dispatch_binding \<Rightarrow> gated \<Rightarrow> unit result \<times> gated" where
  "authorize_gated io clock b gs =
     (case reconcile_expired_lease io (clock 0) gs of
        (Inl e, gs) \<Rightarrow> (Inl e, gs)
      | (Inr (_, expired), (s, d)) \<Rightarrow>
          if expired then (Inl ErrLeaseExpired, (s, d))
          else (validate_dispatch (clock 1) s b, (s, d)))"

text \<open>
  The loop of \<open>WithGrantBinding\<close>: turn \<open>i\<close> reads the clock twice.  The fuel bounds the turns; with a
  clock that does not go back two are enough (\<open>grant_loop_two_turns\<close>).
\<close>

fun grant_loop :: "nat \<Rightarrow> bool \<Rightarrow> (nat \<Rightarrow> time) \<Rightarrow> string \<Rightarrow> string \<Rightarrow> gated \<Rightarrow>
    (protection_snapshot \<times> go_error option \<times> dispatch_binding option) option \<times> gated" where
  "grant_loop 0 io clock c g gs = (None, gs)"
| "grant_loop (Suc n) io clock c g gs =
     (case reconcile_expired_lease io (clock 0) gs of
        (Inl e, gs) \<Rightarrow> (Some (empty_snapshot, Some e, None), gs)
      | (Inr (snapshot, expired), (s, d)) \<Rightarrow>
          if expired then (Some (snapshot, Some ErrLeaseExpired, None), (s, d))
          else if cn_lock_waiters s \<noteq> 0 then (Some (cn_snapshot s, Some ErrLockPending, None), (s, d))
          else if cn_closed s then (Some (cn_snapshot s, Some ErrConnectionClosed, None), (s, d))
          else if ps_mode (cn_snapshot s) \<noteq> ProtectedUnlocked
          then (Some (cn_snapshot s, Some ErrLocked, None), (s, d))
          else (case cn_lease s of
              None \<Rightarrow> (Some (cn_snapshot s, Some ErrLocked, None), (s, d))
            | Some l \<Rightarrow>
                if lease_expired_at (ps_mode (cn_snapshot s)) (cn_lease s) (clock 1)
                then grant_loop n io (\<lambda>i. clock (i + 2)) c g (s, d)
                else (Some (cn_snapshot s, None,
                  Some \<lparr>db_connection_id = c, db_connection_generation = g,
                    db_profile_revision = cn_profile_rev s,
                    db_protection_revision = ps_protection_revision (cn_snapshot s),
                    db_lease_id = ls_id l\<rparr>), (s, d))))"

section \<open>The methods\<close>

definition conn_at :: "manager \<Rightarrow> string \<Rightarrow> string \<Rightarrow> conn_state option" where
  "conn_at m c g = mg_connections m (generation_key c g)"

text \<open>Run a section on the connection state of a generation and on the database.\<close>

definition with_conn :: "string \<Rightarrow> conn_state \<Rightarrow> (gated \<Rightarrow> 'r \<times> gated) \<Rightarrow> manager \<Rightarrow> 'r \<times> manager" where
  "with_conn key s f m =
     (let (r, (s', d')) = f (s, mg_db m)
      in (r, m\<lparr>mg_db := d', mg_connections := (mg_connections m)(key \<mapsto> s')\<rparr>))"

definition register :: "bool \<Rightarrow> time \<Rightarrow> register_request \<Rightarrow> manager \<Rightarrow> protection_snapshot result \<times> manager" where
  "register io now req m =
     (if rr_connection_id req = '''' \<or> rr_profile_id req = ''''
      then (Inl (PlainError ''connection and profile are required''), m)
      else case rbind (protection_canonical_decimal (rr_connection_generation req)) (\<lambda>g.
          rbind (protection_canonical_decimal (rr_profile_revision req)) (\<lambda>pr.
          rbind (validate_mode (rr_mode req)) (\<lambda>_.
          rbind (require (rr_mode req \<noteq> ProtectedUnlocked)
            (PlainError ''a new generation cannot start unlocked'')) (\<lambda>_. Inr (g, pr))))) of
        Inl e \<Rightarrow> (Inl e, m)
      | Inr (g, pr) \<Rightarrow>
          (case with_immediate io (tx_insert protection_t protection_t_update
               (\<lambda>d. \<not> has_key row_key (rr_connection_id req, g) (protection_t d) \<and>
                    \<not> list_ex (\<lambda>r. p_connection_id r = rr_connection_id req \<and> p_closed_at r = None) (protection_t d))
               \<lparr>p_connection_id = rr_connection_id req, p_generation = g, p_profile_id = rr_profile_id req,
                p_profile_revision = pr, p_revision = ''1'', p_mode = rr_mode req, p_closed_at = None,
                p_purge_after = None, p_updated_at = now\<rparr>) (mg_db m) of
             (Inl e, d) \<Rightarrow> (Inl (PlainError (''register protection generation: '' @ error_text e)), m\<lparr>mg_db := d\<rparr>)
           | (Inr _, d) \<Rightarrow>
               (let snapshot = \<lparr>ps_connection_id = rr_connection_id req, ps_connection_generation = g,
                      ps_protection_revision = ''1'', ps_mode = rr_mode req, ps_lease_id = None,
                      ps_unlocked_until = None\<rparr>
                in (Inr snapshot, m\<lparr>mg_db := d, mg_connections := (mg_connections m)
                     (generation_key (rr_connection_id req) g \<mapsto>
                        new_connection_state snapshot (rr_profile_id req) pr)\<rparr>))))"

text \<open>\<open>Recover\<close>: one transaction per row that was left unlocked, then the gates of all active rows.\<close>

definition recover_row_tx :: "time \<Rightarrow> protection_snapshot \<Rightarrow> (db, unit) tx" where
  "recover_row_tx now snapshot =
     tx_bind (write_snapshot_tx snapshot now) (\<lambda>_.
     insert_protection_event snapshot ''LOCKED_ON_RESTART'' now)"

definition recover_row ::
  "bool \<Rightarrow> time \<Rightarrow> protection_row \<Rightarrow> db \<Rightarrow> protection_snapshot result \<times> db" where
  "recover_row io now r d =
     (if p_mode r \<noteq> ProtectedUnlocked then (Inr (snapshot_of_row r), d)
      else case protection_increment (p_revision r) of
        Inl e \<Rightarrow> (Inl e, d)
      | Inr revision \<Rightarrow>
          (let snapshot = (snapshot_of_row r)\<lparr>ps_protection_revision := revision, ps_mode := ProtectedLocked\<rparr>
           in case with_immediate io (recover_row_tx now snapshot) d of
                (Inl e, d) \<Rightarrow> (Inl e, d)
              | (Inr _, d) \<Rightarrow> (Inr snapshot, d)))"

fun recover_rows :: "(nat \<Rightarrow> bool) \<Rightarrow> (nat \<Rightarrow> time) \<Rightarrow> protection_row list \<Rightarrow> db \<Rightarrow>
    (protection_row \<times> protection_snapshot) list result \<times> db" where
  "recover_rows io clock [] d = (Inr [], d)"
| "recover_rows io clock (r # rs) d =
     (case recover_row (io 0) (clock 0) r d of
        (Inl e, d) \<Rightarrow> (Inl e, d)
      | (Inr snapshot, d) \<Rightarrow>
          (case recover_rows (\<lambda>i. io (Suc i)) (\<lambda>i. clock (Suc i)) rs d of
             (Inl e, d) \<Rightarrow> (Inl e, d)
           | (Inr items, d) \<Rightarrow> (Inr ((r, snapshot) # items), d)))"

definition active_rows :: "db \<Rightarrow> protection_row list" where
  "active_rows d = filter (\<lambda>r. p_closed_at r = None) (protection_t d)"

definition recover :: "(nat \<Rightarrow> bool) \<Rightarrow> (nat \<Rightarrow> time) \<Rightarrow> manager \<Rightarrow> unit result \<times> manager" where
  "recover io clock m =
     (case recover_rows io clock (active_rows (mg_db m)) (mg_db m) of
        (Inl e, d) \<Rightarrow> (Inl e, m\<lparr>mg_db := d\<rparr>)
      | (Inr items, d) \<Rightarrow>
          (Inr (), m\<lparr>mg_db := d, mg_connections := fold (\<lambda>(r, snapshot) cs.
             cs(generation_key (p_connection_id r) (p_generation r) \<mapsto>
                  new_connection_state snapshot (p_profile_id r) (p_profile_revision r)))
             items (mg_connections m)\<rparr>))"

text \<open>\<open>Get\<close> takes the gate only when the lease looks expired (\<open>clock 0\<close>).\<close>

definition get_snapshot :: "bool \<Rightarrow> (nat \<Rightarrow> time) \<Rightarrow> string \<Rightarrow> string \<Rightarrow> manager \<Rightarrow> protection_snapshot result \<times> manager" where
  "get_snapshot io clock c g m =
     (case conn_at m c g of
        None \<Rightarrow> (Inl protection_ErrNotFound, m)
      | Some s \<Rightarrow>
          if \<not> lease_expired_at (ps_mode (cn_snapshot s)) (cn_lease s) (clock 0) then (Inr (cn_snapshot s), m)
          else with_conn (generation_key c g) s (\<lambda>gs.
            case reconcile_expired_lease io (clock 1) gs of
              (Inl e, gs) \<Rightarrow> (Inl e, gs)
            | (Inr (snapshot, _), gs) \<Rightarrow> (Inr snapshot, gs)) m)"

text \<open>\<open>lookupReplay\<close>: \<open>None\<close> when the ledger has no entry.\<close>

definition lookup_replay ::
  "bool \<Rightarrow> time \<Rightarrow> string \<Rightarrow> string \<Rightarrow> manager \<Rightarrow> outcome option \<times> manager" where
  "lookup_replay io now scope digest m =
     (case lookup_ledger scope (mg_db m) of
        None \<Rightarrow> (None, m)
      | Some e \<Rightarrow>
          if pl_digest e \<noteq> digest then (Some (empty_result, Some ErrCommandConflict), m)
          else case conn_at m (pl_connection_id e) (pl_generation e) of
            None \<Rightarrow>
              (let (result, err) = replay_from e (mg_db m)
               in (Some (result\<lparr>cr_replayed := True\<rparr>, err), m))
          | Some s \<Rightarrow>
              with_conn (generation_key (pl_connection_id e) (pl_generation e)) s (\<lambda>gs.
                case reconcile_expired_lease io now gs of
                  (Inl err, gs) \<Rightarrow> (Some (empty_result, Some err), gs)
                | (Inr _, (s, d)) \<Rightarrow>
                    (let (result, err) = replay_from e d
                     in (Some (result\<lparr>cr_replayed := True,
                            cr_snapshot := snapshot_from_state_if_current s (cr_snapshot result)\<rparr>, err), (s, d)))) m)"

text \<open>What \<open>Unlock\<close> and \<open>Lock\<close> compute from the request: the command record and, for \<open>Unlock\<close>, the revision.\<close>

definition unlock_command ::
  "(string \<Rightarrow> bool) \<Rightarrow> (string \<Rightarrow> string) \<Rightarrow> unlock_request \<Rightarrow> (string \<times> command_record) result" where
  "unlock_command uuid_ok sha256_hex req =
     rbind (require (uuid_ok (ur_command_request_id req)) (PlainError ''invalid commandRequestId'')) (\<lambda>_.
     rbind (protection_canonical_decimal (ur_expected_connection_generation req)) (\<lambda>g.
     rbind (protection_canonical_decimal (ur_expected_protection_revision req)) (\<lambda>revision.
     Inr (revision, \<lparr>cm_scope = command_scope (ur_connection_id req) g ''UNLOCK'' (ur_command_request_id req),
        cm_connection_id = ur_connection_id req, cm_generation = g, cm_kind = ''UNLOCK'',
        cm_request_id = ur_command_request_id req,
        cm_digest = command_digest sha256_hex ''UNLOCK'' (ur_connection_id req) g revision\<rparr>))))"

definition lock_command ::
  "(string \<Rightarrow> bool) \<Rightarrow> (string \<Rightarrow> string) \<Rightarrow> lock_request \<Rightarrow> command_record result" where
  "lock_command uuid_ok sha256_hex req =
     rbind (require (uuid_ok (lr_command_request_id req)) (PlainError ''invalid commandRequestId'')) (\<lambda>_.
     rbind (protection_canonical_decimal (lr_expected_connection_generation req)) (\<lambda>g.
     Inr \<lparr>cm_scope = command_scope (lr_connection_id req) g ''LOCK'' (lr_command_request_id req),
        cm_connection_id = lr_connection_id req, cm_generation = g, cm_kind = ''LOCK'',
        cm_request_id = lr_command_request_id req,
        cm_digest = command_digest sha256_hex ''LOCK'' (lr_connection_id req) g ''ABSENT''\<rparr>))"

text \<open>
  The head of both commands: replay, or reject an unknown generation, or go on to the gate
  (\<open>None\<close>).  \<open>clock 0\<close> and \<open>clock 1\<close> are the readings of the two branches.
\<close>

definition command_head ::
  "bool \<Rightarrow> (nat \<Rightarrow> time) \<Rightarrow> command_record \<Rightarrow> manager \<Rightarrow> outcome option \<times> manager" where
  "command_head io clock c m =
     (case lookup_replay io (clock 0) (cm_scope c) (cm_digest c) m of
        (Some out, m) \<Rightarrow> (Some out, m)
      | (None, m) \<Rightarrow>
          (case conn_at m (cm_connection_id c) (cm_generation c) of
             None \<Rightarrow> (case reject_unavailable_generation io (clock 1) c m of (out, m) \<Rightarrow> (Some out, m))
           | Some _ \<Rightarrow> (None, m)))"

text \<open>The two checks of \<open>lockWaiters\<close> in \<open>Unlock\<close>, before and after the gate is taken.\<close>

definition unlock_after_head ::
  "bool \<Rightarrow> bool \<Rightarrow> bool \<Rightarrow> (nat \<Rightarrow> time) \<Rightarrow> string option \<Rightarrow> string \<Rightarrow> command_record \<Rightarrow> manager \<Rightarrow> outcome \<times> manager" where
  "unlock_after_head io io1 io2 clock lease_id revision c m =
     (case conn_at m (cm_connection_id c) (cm_generation c) of
        None \<Rightarrow> ((empty_result, Some protection_ErrNotFound), m)
      | Some s \<Rightarrow>
          if cn_lock_waiters s \<noteq> 0 then persist_command_rejection io (clock 0) c ErrLockPending m
          else with_conn (generation_key (cm_connection_id c) (cm_generation c)) s
            (unlock_gated io1 io2 clock lease_id revision c) m)"

definition unlock ::
  "(string \<Rightarrow> bool) \<Rightarrow> (string \<Rightarrow> string) \<Rightarrow> (nat \<Rightarrow> bool) \<Rightarrow> (nat \<Rightarrow> time) \<Rightarrow> string option \<Rightarrow>
     unlock_request \<Rightarrow> manager \<Rightarrow> outcome \<times> manager" where
  "unlock uuid_ok sha256_hex io clock lease_id req m =
     (case unlock_command uuid_ok sha256_hex req of
        Inl e \<Rightarrow> ((empty_result, Some e), m)
      | Inr (revision, c) \<Rightarrow>
          (case command_head (io 0) clock c m of
             (Some out, m) \<Rightarrow> (out, m)
           | (None, m) \<Rightarrow>
               unlock_after_head (io 1) (io 1) (io 2) (\<lambda>i. clock (i + 2)) lease_id revision c m))"

text \<open>\<open>Lock\<close> after its head: accept (\<open>markLockPending\<close>), take the gate, commit, finish, release.\<close>

definition lock_accept :: "string \<Rightarrow> manager \<Rightarrow> manager" where
  "lock_accept key m =
     m\<lparr>mg_connections := (mg_connections m)(key := map_option mark_lock_pending (mg_connections m key))\<rparr>"

definition lock_commit :: "bool \<Rightarrow> time \<Rightarrow> command_record \<Rightarrow> conn_state \<Rightarrow> manager \<Rightarrow> outcome \<times> manager" where
  "lock_commit io now c s =
     with_conn (generation_key (cm_connection_id c) (cm_generation c)) s (\<lambda>gs.
       case lock_gated io now c gs of (out, (s, d)) \<Rightarrow> (out, (finish_lock_pending s, d)))"

definition lock ::
  "(string \<Rightarrow> bool) \<Rightarrow> (string \<Rightarrow> string) \<Rightarrow> (nat \<Rightarrow> bool) \<Rightarrow> (nat \<Rightarrow> time) \<Rightarrow>
     lock_request \<Rightarrow> manager \<Rightarrow> outcome \<times> manager" where
  "lock uuid_ok sha256_hex io clock req m =
     (case lock_command uuid_ok sha256_hex req of
        Inl e \<Rightarrow> ((empty_result, Some e), m)
      | Inr c \<Rightarrow>
          (case command_head (io 0) clock c m of
             (Some out, m) \<Rightarrow> (out, m)
           | (None, m) \<Rightarrow>
               (let m = lock_accept (generation_key (cm_connection_id c) (cm_generation c)) m in
                case conn_at m (cm_connection_id c) (cm_generation c) of
                  None \<Rightarrow> ((empty_result, Some protection_ErrNotFound), m)
                | Some s \<Rightarrow> lock_commit (io 1) (clock 2) c s m)))"

text \<open>
  \<open>BeginMutationDispatch\<close> and \<open>WithAuthorizedGate\<close>: the first check, then with the gate in hand the
  authorization and, when it holds, the callback.  A callback is a function on the database; for
  \<open>BeginMutationDispatch\<close> it is \<open>persistDispatch\<close> followed by \<open>beginRoundTrip\<close>.
\<close>

definition dispatch_enter :: "dispatch_binding \<Rightarrow> manager \<Rightarrow> conn_state result" where
  "dispatch_enter b m =
     (case conn_at m (db_connection_id b) (db_connection_generation b) of
        None \<Rightarrow> Inl protection_ErrNotFound
      | Some s \<Rightarrow> if cn_lock_waiters s \<noteq> 0 then Inl ErrLockPending else Inr s)"

text \<open>
  \<open>authorized_callback\<close> tells a refusal (\<open>Inl\<close>) from what the callback returned (\<open>Inr\<close>), as a closure
  that sets a variable can; the methods return either as their error.
\<close>

definition authorized_callback ::
  "bool \<Rightarrow> (nat \<Rightarrow> time) \<Rightarrow> dispatch_binding \<Rightarrow> (db \<Rightarrow> 'r \<times> db) \<Rightarrow> manager \<Rightarrow> 'r result \<times> manager" where
  "authorized_callback io clock b commit m =
     (case dispatch_enter b m of
        Inl e \<Rightarrow> (Inl e, m)
      | Inr s \<Rightarrow>
          with_conn (generation_key (db_connection_id b) (db_connection_generation b)) s (\<lambda>gs.
            case authorize_gated io clock b gs of
              (Inl e, gs) \<Rightarrow> (Inl e, gs)
            | (Inr _, (s, d)) \<Rightarrow> (case commit d of (r, d) \<Rightarrow> (Inr r, (s, d)))) m)"

definition with_authorized_gate ::
  "bool \<Rightarrow> (nat \<Rightarrow> time) \<Rightarrow> dispatch_binding \<Rightarrow> (db \<Rightarrow> unit result \<times> db) \<Rightarrow> manager \<Rightarrow> unit result \<times> manager" where
  "with_authorized_gate io clock b commit m =
     (case authorized_callback io clock b commit m of
        (Inl e, m) \<Rightarrow> (Inl e, m)
      | (Inr r, m) \<Rightarrow> (r, m))"

definition dispatch_callbacks ::
  "(db \<Rightarrow> unit result \<times> db) \<Rightarrow> (db \<Rightarrow> unit result \<times> db) \<Rightarrow> db \<Rightarrow> unit result \<times> db" where
  "dispatch_callbacks persist_dispatch begin_round_trip d =
     (case persist_dispatch d of (Inl e, d) \<Rightarrow> (Inl e, d) | (Inr _, d) \<Rightarrow> begin_round_trip d)"

definition begin_mutation_dispatch ::
  "bool \<Rightarrow> (nat \<Rightarrow> time) \<Rightarrow> dispatch_binding \<Rightarrow> (db \<Rightarrow> unit result \<times> db) \<Rightarrow> (db \<Rightarrow> unit result \<times> db) \<Rightarrow>
     manager \<Rightarrow> unit result \<times> manager" where
  "begin_mutation_dispatch io clock b persist_dispatch begin_round_trip =
     with_authorized_gate io clock b (dispatch_callbacks persist_dispatch begin_round_trip)"

text \<open>
  \<open>WithGrantBinding\<close>, with the two turns of its loop that a monotone clock allows; the callback returns a
  value or an error.
\<close>

definition grant_gated ::
  "bool \<Rightarrow> (nat \<Rightarrow> time) \<Rightarrow> string \<Rightarrow> string \<Rightarrow>
     (dispatch_binding \<Rightarrow> protection_snapshot \<Rightarrow> db \<Rightarrow> 'a result \<times> db) \<Rightarrow>
     gated \<Rightarrow> (protection_snapshot \<times> 'a result) \<times> gated" where
  "grant_gated io clock c g issue gs =
     (case grant_loop 2 io clock c g gs of
        (Some (snapshot, None, Some b), (s, d)) \<Rightarrow>
          (case issue b snapshot d of (r, d) \<Rightarrow> ((snapshot, r), (s, d)))
      | (Some (snapshot, Some err, _), gs) \<Rightarrow> ((snapshot, Inl err), gs)
      | (_, gs) \<Rightarrow> ((empty_snapshot, Inl (PlainError ''clock went back'')), gs))"

definition with_grant_binding ::
  "bool \<Rightarrow> (nat \<Rightarrow> time) \<Rightarrow> string \<Rightarrow> string \<Rightarrow>
     (dispatch_binding \<Rightarrow> protection_snapshot \<Rightarrow> db \<Rightarrow> 'a result \<times> db) \<Rightarrow> manager \<Rightarrow>
     (protection_snapshot \<times> 'a result) \<times> manager" where
  "with_grant_binding io clock c g issue m =
     (case conn_at m c g of
        None \<Rightarrow> ((empty_snapshot, Inl protection_ErrNotFound), m)
      | Some s \<Rightarrow>
          if cn_lock_waiters s \<noteq> 0 then ((cn_snapshot s, Inl ErrLockPending), m)
          else with_conn (generation_key c g) s (grant_gated io clock c g issue) m)"

text \<open>\<open>WithGenerationGate\<close>, once \<open>acquireAfterLocks\<close> has the gate and no lock is pending.\<close>

definition with_generation_gate ::
  "string \<Rightarrow> string \<Rightarrow> (db \<Rightarrow> unit result \<times> db) \<Rightarrow> manager \<Rightarrow> unit result \<times> manager" where
  "with_generation_gate c g control m =
     (case conn_at m c g of
        None \<Rightarrow> (Inl protection_ErrNotFound, m)
      | Some s \<Rightarrow> (case control (mg_db m) of (r, d) \<Rightarrow> (r, m\<lparr>mg_db := d\<rparr>)))"

definition close_commit :: "bool \<Rightarrow> time \<Rightarrow> string \<Rightarrow> string \<Rightarrow> conn_state \<Rightarrow> manager \<Rightarrow> unit result \<times> manager" where
  "close_commit io now c g s =
     with_conn (generation_key c g) s (\<lambda>gs.
       case close_gated io now c g gs of (r, (s, d)) \<Rightarrow> (r, (finish_lock_pending s, d)))"

definition close_generation :: "bool \<Rightarrow> time \<Rightarrow> string \<Rightarrow> string \<Rightarrow> manager \<Rightarrow> unit result \<times> manager" where
  "close_generation io now c g m =
     (case conn_at m c g of
        None \<Rightarrow> (Inl protection_ErrNotFound, m)
      | Some _ \<Rightarrow>
          (let m = lock_accept (generation_key c g) m in
           case conn_at m c g of
             None \<Rightarrow> (Inl protection_ErrNotFound, m)
           | Some s \<Rightarrow> close_commit io now c g s m))"

fun purge_keys :: "(string \<times> string) list \<Rightarrow> (db, nat) tx" where
  "purge_keys [] = tx_return 0"
| "purge_keys (k # ks) =
     tx_bind (tx_delete protection_ledger_t protection_ledger_t_update
       (\<lambda>e. (pl_connection_id e, pl_generation e) = k)) (\<lambda>_.
     tx_bind (tx_delete protection_t protection_t_update (\<lambda>r. row_key r = k)) (\<lambda>n.
     tx_bind (purge_keys ks) (\<lambda>deleted. tx_return (n + deleted))))"

definition purge_due :: "time \<Rightarrow> protection_row \<Rightarrow> bool" where
  "purge_due now r = (case p_purge_after r of None \<Rightarrow> False | Some after \<Rightarrow> time_text_le after now)"

definition purge_closed :: "bool \<Rightarrow> time \<Rightarrow> manager \<Rightarrow> nat result \<times> manager" where
  "purge_closed io now m =
     (case with_immediate io
         (tx_bind (tx_get (\<lambda>d. map row_key (filter (purge_due now) (protection_t d)))) purge_keys) (mg_db m) of
        (r, d) \<Rightarrow> (r, m\<lparr>mg_db := d\<rparr>))"

end
