(* ===== verification/Protection_Gate.thy ===== *)
theory Protection_Gate
  imports Protection
begin

text \<open>
  The protection manager under concurrency.  \<open>gated_step\<close> is what every section that runs with the
  gate in hand may do to its generation; the sections of \<open>Unlock\<close>, \<open>Lock\<close>, \<open>CloseGeneration\<close>, the
  expiry reconciliation and the grant loop are shown to be such steps.
\<close>

section \<open>What a gated section keeps\<close>

definition rows_ok :: "db \<Rightarrow> bool" where
  "rows_ok d \<longleftrightarrow> distinct (map row_key (protection_t d)) \<and>
     (\<forall>r\<in>set (protection_t d). (\<exists>n. p_revision r = dec n) \<and> (\<exists>g. p_generation r = dec g) \<and>
        (p_purge_after r \<noteq> None \<longrightarrow> p_closed_at r \<noteq> None))"

abbreviation row_at :: "db \<Rightarrow> string \<times> string \<Rightarrow> protection_row option" where
  "row_at d k \<equiv> tbl_get row_key k (protection_t d)"

definition conn_ids :: "conn_state \<Rightarrow> string \<times> string" where
  "conn_ids s = (ps_connection_id (cn_snapshot s), ps_connection_generation (cn_snapshot s))"

definition revision_of :: "conn_state \<Rightarrow> nat" where
  "revision_of s = dec_val (ps_protection_revision (cn_snapshot s))"

text \<open>Memory agrees with the durable row; a lease exists only in an open, unlocked generation.\<close>

definition row_agrees :: "conn_state \<Rightarrow> protection_row \<Rightarrow> bool" where
  "row_agrees s r \<longleftrightarrow> p_revision r = ps_protection_revision (cn_snapshot s) \<and>
     p_mode r = ps_mode (cn_snapshot s) \<and> p_profile_id r = cn_profile_id s \<and>
     p_profile_revision r = cn_profile_rev s \<and> (p_closed_at r \<noteq> None \<longleftrightarrow> cn_closed s)"

definition lease_ok :: "conn_state \<Rightarrow> bool" where
  "lease_ok s \<longleftrightarrow> (case cn_lease s of None \<Rightarrow> True | Some l \<Rightarrow>
     ps_mode (cn_snapshot s) = ProtectedUnlocked \<and> ps_lease_id (cn_snapshot s) = Some (ls_id l) \<and>
     \<not> cn_closed s)"

definition conn_ok :: "db \<Rightarrow> conn_state \<Rightarrow> bool" where
  "conn_ok d s \<longleftrightarrow>
     (\<exists>n. ps_protection_revision (cn_snapshot s) = dec n) \<and> (\<exists>g. snd (conn_ids s) = dec g) \<and>
     lease_ok s \<and>
     (case row_at d (conn_ids s) of None \<Rightarrow> cn_closed s | Some r \<Rightarrow> row_agrees s r)"

definition same_identity :: "conn_state \<Rightarrow> conn_state \<Rightarrow> bool" where
  "same_identity s s' \<longleftrightarrow> conn_ids s' = conn_ids s \<and> cn_gate s' = cn_gate s \<and>
     cn_lock_waiters s' = cn_lock_waiters s \<and> cn_profile_id s' = cn_profile_id s \<and>
     cn_profile_rev s' = cn_profile_rev s"

text \<open>Ledger entries carry the scope of their command, and that scope determines the command.\<close>

abbreviation unit_separator :: char where "unit_separator \<equiv> CHR 0x1F"

definition command_key_ok :: "string \<Rightarrow> string \<Rightarrow> string \<Rightarrow> bool" where
  "command_key_ok g kind req \<longleftrightarrow> (\<exists>n. g = dec n) \<and> unit_separator \<notin> set kind \<and> unit_separator \<notin> set req"

definition valid_command :: "command_record \<Rightarrow> bool" where
  "valid_command c \<longleftrightarrow> command_key_ok (cm_generation c) (cm_kind c) (cm_request_id c) \<and>
     cm_scope c = command_scope (cm_connection_id c) (cm_generation c) (cm_kind c) (cm_request_id c)"

definition ledger_ok :: "db \<Rightarrow> bool" where
  "ledger_ok d \<longleftrightarrow> (\<forall>e\<in>set (protection_ledger_t d).
     command_key_ok (pl_generation e) (pl_kind e) (pl_request_id e) \<and> pl_result_code e \<noteq> '''' \<and>
     pl_scope e = command_scope (pl_connection_id e) (pl_generation e) (pl_kind e) (pl_request_id e))"

text \<open>A lease comes only with a new revision.\<close>

definition no_new_lease :: "conn_state \<Rightarrow> conn_state \<Rightarrow> bool" where
  "no_new_lease s s' \<longleftrightarrow>
     (cn_lease s' = None \<or> cn_lease s' = cn_lease s \<or> revision_of s < revision_of s')"

definition gated_step :: "gated \<Rightarrow> gated \<Rightarrow> bool" where
  "gated_step gs gs' \<longleftrightarrow> (case (gs, gs') of ((s, d), (s', d')) \<Rightarrow>
     rows_ok d' \<and> conn_ok d' s' \<and> same_identity s s' \<and> (cn_closed s \<longrightarrow> cn_closed s') \<and>
     revision_of s \<le> revision_of s' \<and> no_new_lease s s' \<and>
     (ledger_ok d \<longrightarrow> ledger_ok d') \<and>
     (\<forall>k. k \<noteq> conn_ids s \<longrightarrow> row_at d' k = row_at d k))"

lemma gated_step_refl: "rows_ok d \<Longrightarrow> conn_ok d s \<Longrightarrow> gated_step (s, d) (s, d)"
  by (simp add: gated_step_def same_identity_def no_new_lease_def)

lemma gated_step_trans: "gated_step a b \<Longrightarrow> gated_step b c \<Longrightarrow> gated_step a c"
  by (auto simp: gated_step_def same_identity_def no_new_lease_def split: prod.splits)

lemma gated_step_ok: "gated_step a (s', d') \<Longrightarrow> rows_ok d' \<and> conn_ok d' s'"
  by (auto simp: gated_step_def split: prod.splits)

lemma conn_ok_row: "conn_ok d s \<Longrightarrow> row_at d (conn_ids s) = Some r \<Longrightarrow> row_agrees s r"
  by (simp add: conn_ok_def)

lemma read_snapshot_ids:
  "read_snapshot c g d = Some (cur, closed) \<Longrightarrow>
     \<exists>r. row_at d (c, g) = Some r \<and> cur = snapshot_of_row r \<and> closed = (p_closed_at r \<noteq> None) \<and>
       ps_connection_id cur = c \<and> ps_connection_generation cur = g"
  by (auto simp: read_snapshot_def snapshot_of_row_def dest: tbl_get_SomeD)

lemma protection_increment_dec [simp]: "protection_increment (dec n) = Inr (dec (Suc n))"
  by (simp add: protection_increment_def protection_canonical_decimal_def)

section \<open>The write of a snapshot\<close>

text \<open>The row update the sections share: a new revision, a new mode and perhaps the closing times.\<close>

definition put_row :: "string \<times> string \<Rightarrow> (protection_row \<Rightarrow> protection_row) \<Rightarrow> db \<Rightarrow> protection_row list" where
  "put_row k f d = tbl_upd (\<lambda>r. row_key r = k) f (protection_t d)"

definition keeps_identity :: "(protection_row \<Rightarrow> protection_row) \<Rightarrow> bool" where
  "keeps_identity f \<longleftrightarrow> (\<forall>r. row_key (f r) = row_key r \<and> p_profile_id (f r) = p_profile_id r \<and>
     p_profile_revision (f r) = p_profile_revision r)"

lemma rows_ok_put:
  assumes "rows_ok d" and "keeps_identity f" and "protection_t d' = put_row k f d"
    and "\<And>r. r \<in> set (protection_t d) \<Longrightarrow> row_key r = k \<Longrightarrow> (\<exists>n. p_revision (f r) = dec n) \<and>
      (p_purge_after (f r) \<noteq> None \<longrightarrow> p_closed_at (f r) \<noteq> None)"
  shows "rows_ok d'"
proof -
  have "map row_key (put_row k f d) = map row_key (protection_t d)"
    unfolding put_row_def by (rule map_key_upd) (use assms(2) in \<open>auto simp: keeps_identity_def\<close>)
  moreover have "p_generation (f r) = p_generation r" for r
    using assms(2) by (auto simp: keeps_identity_def)
  ultimately show ?thesis
    using assms(1,3,4) by (auto simp: rows_ok_def put_row_def set_tbl_upd)
qed

lemma row_at_put:
  assumes "keeps_identity f" and "protection_t d' = put_row k f d"
  shows "row_at d' j = (if j = k then map_option f (row_at d k) else row_at d j)"
proof -
  have "row_at d' j = map_option (\<lambda>r. if row_key r = k then f r else r) (row_at d j)"
    unfolding assms(2) put_row_def
    by (rule tbl_get_upd) (use assms(1) in \<open>auto simp: keeps_identity_def\<close>)
  also have "\<dots> = (if j = k then map_option f (row_at d k) else row_at d j)"
    by (cases "row_at d j") (auto dest: tbl_get_SomeD)
  finally show ?thesis .
qed

text \<open>A section that writes the row and the state alike is a gated step.\<close>

lemma gated_step_put:
  assumes ok: "rows_ok d" "conn_ok d s" and r: "row_at d (conn_ids s) = Some r"
    and f: "keeps_identity f" "protection_t d' = put_row (conn_ids s) f d"
    and s': "same_identity s s'" "row_agrees s' (f r)" "lease_ok s'" "cn_closed s \<longrightarrow> cn_closed s'"
    and n: "ps_protection_revision (cn_snapshot s') = dec n" "revision_of s \<le> n"
    and lease: "cn_lease s' = None \<or> revision_of s < n"
    and purge: "p_purge_after (f r) \<noteq> None \<longrightarrow> p_closed_at (f r) \<noteq> None"
    and ledger: "ledger_ok d \<Longrightarrow> ledger_ok d'"
  shows "gated_step (s, d) (s', d')"
proof -
  have "x = r" if "x \<in> set (protection_t d)" "row_key x = conn_ids s" for x
    using tbl_get_unique [of row_key "protection_t d" x] ok(1) that r by (simp add: rows_ok_def)
  then have "rows_ok d'"
    using s'(2) n(1) purge by (intro rows_ok_put [OF ok(1) f]) (auto simp: row_agrees_def)
  moreover have "row_at d' (conn_ids s) = Some (f r)"
    using r by (simp add: row_at_put [OF f])
  moreover have "conn_ids s' = conn_ids s" using s'(1) by (simp add: same_identity_def)
  ultimately show ?thesis
    using s' n lease ok(2) r ledger
    by (auto simp: gated_step_def conn_ok_def row_at_put [OF f] revision_of_def no_new_lease_def)
qed

lemma rows_ok_purge:
  "rows_ok d \<Longrightarrow> row_at d k = Some r \<Longrightarrow> p_purge_after r \<noteq> None \<longrightarrow> p_closed_at r \<noteq> None"
  using tbl_get_SomeD [of row_key k "protection_t d" r] by (simp add: rows_ok_def)

text \<open>A change of other tables only.\<close>

lemma gated_step_same_rows:
  assumes "rows_ok d" "conn_ok d s" and "protection_t d' = protection_t d"
    and "ledger_ok d \<Longrightarrow> ledger_ok d'"
  shows "gated_step (s, d) (s, d')"
  using assms by (simp add: gated_step_def same_identity_def rows_ok_def conn_ok_def no_new_lease_def)

section \<open>The sections are gated steps\<close>

lemmas tx_run = tx_bind_def tx_get_def tx_return_def tx_fail_def tx_lift_def tx_update_def tx_insert_def

definition advance :: "string \<Rightarrow> string \<Rightarrow> time \<Rightarrow> protection_row \<Rightarrow> protection_row" where
  "advance revision mode now r = r\<lparr>p_revision := revision, p_mode := mode, p_updated_at := now\<rparr>"

lemma advance_keeps [simp]: "keeps_identity (advance revision mode now)"
  by (simp add: keeps_identity_def advance_def)

lemma advance_fields [simp]:
  "p_revision (advance v m now r) = v" "p_mode (advance v m now r) = m"
  "p_closed_at (advance v m now r) = p_closed_at r" "p_purge_after (advance v m now r) = p_purge_after r"
  "p_profile_id (advance v m now r) = p_profile_id r"
  "p_profile_revision (advance v m now r) = p_profile_revision r"
  by (simp_all add: advance_def)

definition event_of :: "protection_snapshot \<Rightarrow> string \<Rightarrow> time \<Rightarrow> protection_event" where
  "event_of s change_type now = \<lparr>pe_connection_id = ps_connection_id s,
     pe_generation = ps_connection_generation s, pe_revision = ps_protection_revision s,
     pe_mode = ps_mode s, pe_change_type = change_type, pe_occurred_at = now\<rparr>"

text \<open>The database after a new snapshot is written with its event.\<close>

definition written :: "protection_snapshot \<Rightarrow> string \<Rightarrow> time \<Rightarrow> db \<Rightarrow> db" where
  "written s change_type now d = d\<lparr>
     protection_t := put_row (ps_connection_id s, ps_connection_generation s)
       (advance (ps_protection_revision s) (ps_mode s) now) d,
     protection_events_t := protection_events_t d @ [event_of s change_type now]\<rparr>"

lemma write_and_event:
  "tx_bind (write_snapshot_tx s now) (\<lambda>_. tx_bind (insert_protection_event s ct now) f) d =
     f () (written s ct now d)"
  by (simp add: write_snapshot_tx_def insert_protection_event_def tx_run written_def put_row_def
      advance_def [abs_def] event_of_def)

lemma written_fields [simp]:
  "protection_t (written s ct now d) = put_row (ps_connection_id s, ps_connection_generation s)
     (advance (ps_protection_revision s) (ps_mode s) now) d"
  "protection_events_t (written s ct now d) = protection_events_t d @ [event_of s ct now]"
  "protection_ledger_t (written s ct now d) = protection_ledger_t d"
  by (simp_all add: written_def)

definition locked_snapshot :: "protection_row \<Rightarrow> nat \<Rightarrow> protection_snapshot" where
  "locked_snapshot r n = (snapshot_of_row r)\<lparr>ps_protection_revision := dec n, ps_mode := ProtectedLocked\<rparr>"

lemma locked_snapshot_fields [simp]:
  "ps_connection_id (locked_snapshot r n) = p_connection_id r"
  "ps_connection_generation (locked_snapshot r n) = p_generation r"
  "ps_protection_revision (locked_snapshot r n) = dec n"
  "ps_mode (locked_snapshot r n) = ProtectedLocked"
  "ps_lease_id (locked_snapshot r n) = None"
  by (simp_all add: locked_snapshot_def snapshot_of_row_def)

lemma reconcile_tx_unlocked:
  assumes "row_at d (c, g) = Some r" "p_closed_at r = None" "p_mode r = ProtectedUnlocked"
    "p_revision r = dec n"
  shows "reconcile_tx c g now d =
    Inr ((locked_snapshot r (Suc n), False), written (locked_snapshot r (Suc n)) ''LEASE_EXPIRED'' now d)"
proof -
  have "read_snapshot c g d = Some (snapshot_of_row r, False)"
    using assms by (simp add: read_snapshot_def)
  then show ?thesis
    using assms(3,4) unfolding reconcile_tx_def
    by (subst tx_bind_def) (simp add: tx_get_def tx_bind_run(1) tx_lift_def write_and_event Let_def
        locked_snapshot_def tx_return_def snapshot_of_row_def)
qed

text \<open>An expired lease: what the row and the state hold then.\<close>

lemma expired_row:
  assumes "rows_ok d" "conn_ok d s" and "lease_expired_at (ps_mode (cn_snapshot s)) (cn_lease s) now"
  obtains r n where "row_at d (conn_ids s) = Some r" "row_agrees s r" "p_closed_at r = None"
    "p_mode r = ProtectedUnlocked" "p_revision r = dec n" "revision_of s = n" "row_key r = conn_ids s"
proof -
  obtain l where l: "cn_lease s = Some l" "ps_mode (cn_snapshot s) = ProtectedUnlocked"
    using assms(3) by (auto simp: lease_expired_at_def split: option.splits)
  with assms(2) have open_: "\<not> cn_closed s" by (simp add: conn_ok_def lease_ok_def)
  with assms(2) obtain r where r: "row_at d (conn_ids s) = Some r" "row_agrees s r"
    by (cases "row_at d (conn_ids s)") (auto simp: conn_ok_def)
  obtain n where n: "ps_protection_revision (cn_snapshot s) = dec n"
    using assms(2) by (auto simp: conn_ok_def)
  show thesis
    by (rule that [OF r]) (use r l open_ n tbl_get_SomeD [OF r(1)] in \<open>auto simp: row_agrees_def revision_of_def\<close>)
qed

definition reconciled :: "protection_snapshot \<Rightarrow> conn_state \<Rightarrow> conn_state" where
  "reconciled snap s = s\<lparr>cn_snapshot := snap, cn_lease := None\<rparr>"

lemma reconcile_cases:
  assumes ok: "rows_ok d" "conn_ok d s"
    and run: "reconcile_expired_lease io now (s, d) = (res, (s', d'))"
  shows "gated_step (s, d) (s', d')"
    and "\<And>snap. res = Inr (snap, False) \<Longrightarrow> s' = s \<and> d' = d \<and> snap = cn_snapshot s \<and>
      \<not> lease_expired_at (ps_mode (cn_snapshot s)) (cn_lease s) now"
    and "\<And>snap. res = Inr (snap, True) \<Longrightarrow> snap = cn_snapshot s' \<and> cn_lease s' = None \<and>
      ps_mode snap = ProtectedLocked \<and> revision_of s' = Suc (revision_of s) \<and>
      d' = written snap ''LEASE_EXPIRED'' now d \<and> conn_ids s' = conn_ids s \<and>
      lease_expired_at (ps_mode (cn_snapshot s)) (cn_lease s) now"
proof -
  let ?goal = "gated_step (s, d) (s', d') \<and> (\<forall>snap. res = Inr (snap, False) \<longrightarrow> s' = s \<and> d' = d \<and> snap = cn_snapshot s \<and>
      \<not> lease_expired_at (ps_mode (cn_snapshot s)) (cn_lease s) now) \<and>
    (\<forall>snap. res = Inr (snap, True) \<longrightarrow> snap = cn_snapshot s' \<and> cn_lease s' = None \<and>
      ps_mode snap = ProtectedLocked \<and> revision_of s' = Suc (revision_of s) \<and>
      d' = written snap ''LEASE_EXPIRED'' now d \<and> conn_ids s' = conn_ids s \<and>
      lease_expired_at (ps_mode (cn_snapshot s)) (cn_lease s) now)"
  have ?goal
  proof (cases "lease_expired_at (ps_mode (cn_snapshot s)) (cn_lease s) now")
    case False
    with run gated_step_refl [OF ok] show ?thesis by (auto simp: reconcile_expired_lease_def)
  next
    case True
    from expired_row [OF ok True] obtain r n where r: "row_at d (conn_ids s) = Some r" "row_agrees s r"
      "p_closed_at r = None" "p_mode r = ProtectedUnlocked" "p_revision r = dec n" "revision_of s = n"
      "row_key r = conn_ids s" .
    let ?snap = "locked_snapshot r (Suc n)"
    let ?s = "s\<lparr>cn_snapshot := ?snap, cn_lease := None\<rparr>"
    let ?d = "written ?snap ''LEASE_EXPIRED'' now d"
    have tx: "reconcile_tx (ps_connection_id (cn_snapshot s)) (ps_connection_generation (cn_snapshot s)) now d =
        Inr ((?snap, False), ?d)"
      by (rule reconcile_tx_unlocked) (use r in \<open>simp_all add: conn_ids_def\<close>)
    show ?thesis
    proof (cases io)
      case False
      with True run gated_step_refl [OF ok] show ?thesis
        by (auto simp: reconcile_expired_lease_def with_immediate_def)
    next
      case io: True
      have ids: "conn_ids ?s = conn_ids s" using r(7) by (simp add: conn_ids_def)
      have "gated_step (s, d) (?s, ?d)"
        by (rule gated_step_put [OF ok r(1), where f = "advance (dec (Suc n)) ProtectedLocked now" and n = "Suc n"])
          (use r ids rows_ok_purge [OF ok(1) r(1)] in
            \<open>auto simp: same_identity_def row_agrees_def lease_ok_def ledger_ok_def\<close>)
      moreover have "res = Inr (?snap, True)" "s' = ?s" "d' = ?d"
        using run True io tx by (auto simp: reconcile_expired_lease_def with_immediate_def)
      ultimately show ?thesis using True ids r(6) by (simp add: revision_of_def)
    qed
  qed
  then show "gated_step (s, d) (s', d')"
    and "\<And>snap. res = Inr (snap, False) \<Longrightarrow> s' = s \<and> d' = d \<and> snap = cn_snapshot s \<and>
      \<not> lease_expired_at (ps_mode (cn_snapshot s)) (cn_lease s) now"
    and "\<And>snap. res = Inr (snap, True) \<Longrightarrow> snap = cn_snapshot s' \<and> cn_lease s' = None \<and>
      ps_mode snap = ProtectedLocked \<and> revision_of s' = Suc (revision_of s) \<and>
      d' = written snap ''LEASE_EXPIRED'' now d \<and> conn_ids s' = conn_ids s \<and>
      lease_expired_at (ps_mode (cn_snapshot s)) (cn_lease s) now"
    by blast+
qed

text \<open>
  The three ways the transaction of a command commits: it replays a ledger entry and writes
  nothing, it records a rejection in the ledger, or it advances the revision and records success.
\<close>

definition with_entry :: "protection_ledger_row \<Rightarrow> db \<Rightarrow> db" where
  "with_entry e d = d\<lparr>protection_ledger_t := protection_ledger_t d @ [e]\<rparr>"

lemma with_entry_fields [simp]:
  "protection_t (with_entry e d) = protection_t d"
  "protection_events_t (with_entry e d) = protection_events_t d"
  "protection_ledger_t (with_entry e d) = protection_ledger_t d @ [e]"
  by (simp_all add: with_entry_def)

inductive command_outcome ::
  "command_record \<Rightarrow> string \<Rightarrow> time \<Rightarrow> db \<Rightarrow> command_result \<Rightarrow> string \<Rightarrow> db \<Rightarrow> bool"
  for c :: command_record and change_type :: string and now :: time and d :: db where
  replayed: "lookup_ledger (cm_scope c) d = Some e \<Longrightarrow> pl_digest e = cm_digest c \<Longrightarrow>
    replay_from e d = (result, err) \<Longrightarrow>
    code = (case err of None \<Rightarrow> '''' | Some _ \<Rightarrow> pl_result_code e) \<Longrightarrow>
    command_outcome c change_type now d (result\<lparr>cr_replayed := True\<rparr>) code d"
| rejected: "lookup_ledger (cm_scope c) d = None \<Longrightarrow>
    row_at d (cm_connection_id c, cm_generation c) = Some r \<Longrightarrow> code \<noteq> '''' \<Longrightarrow> code \<noteq> ''OK'' \<Longrightarrow>
    command_outcome c change_type now d (empty_result\<lparr>cr_snapshot := snapshot_of_row r\<rparr>) code
      (with_entry (ledger_entry c code '''' now) d)"
| committed: "lookup_ledger (cm_scope c) d = None \<Longrightarrow>
    row_at d (cm_connection_id c, cm_generation c) = Some r \<Longrightarrow> p_closed_at r = None \<Longrightarrow>
    p_revision r = dec n \<Longrightarrow> ps_protection_revision cur = dec (Suc n) \<Longrightarrow>
    (ps_connection_id cur, ps_connection_generation cur) = row_key r \<Longrightarrow>
    command_outcome c change_type now d
      \<lparr>cr_snapshot = cur, cr_applied_protection_revision = dec (Suc n), cr_replayed = False\<rparr> ''''
      (with_entry (ledger_entry c ''OK'' (dec (Suc n)) now) (written cur change_type now d))"

lemma replay_tx_Inr:
  "replay_tx c otherwise d = Inr ((result, code), d') \<longleftrightarrow>
     (case lookup_ledger (cm_scope c) d of
        None \<Rightarrow> otherwise d = Inr ((result, code), d')
      | Some e \<Rightarrow> pl_digest e = cm_digest c \<and> d' = d \<and>
          (\<exists>r0 err. replay_from e d = (r0, err) \<and> result = r0\<lparr>cr_replayed := True\<rparr> \<and>
             code = (case err of None \<Rightarrow> '''' | Some _ \<Rightarrow> pl_result_code e)))"
  by (auto simp: replay_tx_def tx_run split: option.splits prod.splits)

lemma reject_tx_Inr:
  "reject_tx c code0 now cur d = Inr ((result, code), d') \<Longrightarrow>
     code = code0 \<and> result = empty_result\<lparr>cr_snapshot := cur\<rparr> \<and>
     d' = with_entry (ledger_entry c code '''' now) d"
  by (auto simp: reject_tx_def insert_ledger_def tx_simps with_entry_def)

lemma commit_tx_Inr:
  assumes "commit_tx c ct now cur d = Inr ((result, code), d')"
  shows "code = '''' \<and> result = \<lparr>cr_snapshot = cur,
       cr_applied_protection_revision = ps_protection_revision cur, cr_replayed = False\<rparr> \<and>
     d' = with_entry (ledger_entry c ''OK'' (ps_protection_revision cur) now) (written cur ct now d)"
  using assms unfolding commit_tx_def write_and_event
  by (auto simp: insert_ledger_def tx_simps with_entry_def)

lemma row_revision:
  assumes "rows_ok d" and "row_at d k = Some r"
  obtains n where "p_revision r = dec n"
  using assms tbl_get_SomeD [OF assms(2)] by (auto simp: rows_ok_def)

definition unlocked_snapshot :: "protection_row \<Rightarrow> nat \<Rightarrow> string \<Rightarrow> time \<Rightarrow> protection_snapshot" where
  "unlocked_snapshot r n lease expires = (snapshot_of_row r)\<lparr>ps_protection_revision := dec n,
     ps_mode := ProtectedUnlocked, ps_lease_id := Some lease,
     ps_unlocked_until := Some (rfc3339nano expires)\<rparr>"

definition relocked_snapshot :: "protection_row \<Rightarrow> nat \<Rightarrow> protection_snapshot" where
  "relocked_snapshot r n = (snapshot_of_row r)\<lparr>ps_protection_revision := dec n,
     ps_mode := (if p_mode r \<noteq> PermanentReadOnly then ProtectedLocked else p_mode r)\<rparr>"

lemma snapshot_of_row_fields [simp]:
  "ps_connection_id (snapshot_of_row r) = p_connection_id r"
  "ps_connection_generation (snapshot_of_row r) = p_generation r"
  "ps_protection_revision (snapshot_of_row r) = p_revision r"
  "ps_mode (snapshot_of_row r) = p_mode r"
  "ps_lease_id (snapshot_of_row r) = None" "ps_unlocked_until (snapshot_of_row r) = None"
  by (simp_all add: snapshot_of_row_def)

lemma unlock_tx_outcome:
  assumes "rows_ok d" and run: "unlock_tx c revision lease expires now d = Inr ((result, code), d')"
  shows "command_outcome c ''UNLOCKED'' now d result code d'"
    and "code = '''' \<Longrightarrow> \<not> cr_replayed result \<Longrightarrow> \<exists>r n. row_at d (cm_connection_id c, cm_generation c) = Some r \<and>
      p_revision r = dec n \<and> revision = dec n \<and> p_mode r \<noteq> PermanentReadOnly \<and>
      cr_snapshot result = unlocked_snapshot r (Suc n) lease expires"
proof -
  have "command_outcome c ''UNLOCKED'' now d result code d' \<and>
    (code = '''' \<longrightarrow> \<not> cr_replayed result \<longrightarrow> (\<exists>r n. row_at d (cm_connection_id c, cm_generation c) = Some r \<and>
      p_revision r = dec n \<and> revision = dec n \<and> p_mode r \<noteq> PermanentReadOnly \<and>
      cr_snapshot result = unlocked_snapshot r (Suc n) lease expires))"
  proof (cases "lookup_ledger (cm_scope c) d")
    case (Some e)
    with run show ?thesis by (auto simp: unlock_tx_def replay_tx_Inr intro!: replayed)
  next
    case None
    with run obtain cur closed where read: "read_snapshot (cm_connection_id c) (cm_generation c) d = Some (cur, closed)"
      by (auto simp: unlock_tx_def replay_tx_Inr tx_run split: option.splits)
    from read_snapshot_ids [OF read] obtain r where r: "row_at d (cm_connection_id c, cm_generation c) = Some r"
      "cur = snapshot_of_row r" "closed = (p_closed_at r \<noteq> None)" by blast
    obtain n where n: "p_revision r = dec n" using row_revision [OF assms(1) r(1)] .
    then have inc: "protection_increment (p_revision r) = Inr (dec (Suc n))" by simp
    let ?rej = "if closed then Some ''CONNECTION_CLOSED''
      else if p_revision r \<noteq> revision then Some ''PROTECTION_REVISION_CONFLICT''
      else if p_mode r = PermanentReadOnly then Some ''PROTECTION_LOCKED'' else None"
    show ?thesis
    proof (cases ?rej)
      case (Some code0)
      with run None read r have "reject_tx c code0 now cur d = Inr ((result, code), d')"
        by (auto simp: unlock_tx_def replay_tx_Inr tx_bind_run(1) tx_get_def tx_bind_def split: if_splits)
      from reject_tx_Inr [OF this] Some None r show ?thesis
        by (auto split: if_splits intro!: rejected)
    next
      case rej: None
      with run None read r inc have "commit_tx c ''UNLOCKED'' now (unlocked_snapshot r (Suc n) lease expires) d =
          Inr ((result, code), d')"
        by (auto simp: unlock_tx_def replay_tx_Inr tx_get_def tx_bind_def tx_lift_def
            unlocked_snapshot_def split: if_splits)
      from commit_tx_Inr [OF this] rej None r n tbl_get_SomeD [OF r(1)] show ?thesis
        by (auto simp: unlocked_snapshot_def split: if_splits intro!: committed exI [of _ n])
    qed
  qed
  then show "command_outcome c ''UNLOCKED'' now d result code d'"
    and "code = '''' \<Longrightarrow> \<not> cr_replayed result \<Longrightarrow> \<exists>r n. row_at d (cm_connection_id c, cm_generation c) = Some r \<and>
      p_revision r = dec n \<and> revision = dec n \<and> p_mode r \<noteq> PermanentReadOnly \<and>
      cr_snapshot result = unlocked_snapshot r (Suc n) lease expires"
    by blast+
qed

lemma lock_tx_outcome:
  assumes "rows_ok d" and run: "lock_tx c now d = Inr ((result, code), d')"
  shows "command_outcome c ''LOCKED'' now d result code d' \<and>
    (code = '''' \<longrightarrow> \<not> cr_replayed result \<longrightarrow> (\<exists>r n. row_at d (cm_connection_id c, cm_generation c) = Some r \<and>
      p_revision r = dec n \<and> cr_snapshot result = relocked_snapshot r (Suc n)))"
proof (cases "lookup_ledger (cm_scope c) d")
  case (Some e)
  with run show ?thesis by (auto simp: lock_tx_def replay_tx_Inr intro!: replayed)
next
  case None
  with run obtain cur closed where read: "read_snapshot (cm_connection_id c) (cm_generation c) d = Some (cur, closed)"
    by (auto simp: lock_tx_def replay_tx_Inr tx_run split: option.splits)
  from read_snapshot_ids [OF read] obtain r where r: "row_at d (cm_connection_id c, cm_generation c) = Some r"
    "cur = snapshot_of_row r" "closed = (p_closed_at r \<noteq> None)" by blast
  obtain n where n: "p_revision r = dec n" using row_revision [OF assms(1) r(1)] .
  then have inc: "protection_increment (p_revision r) = Inr (dec (Suc n))" by simp
  show ?thesis
  proof (cases closed)
    case True
    with run None read r have "reject_tx c ''CONNECTION_CLOSED'' now cur d = Inr ((result, code), d')"
      by (simp add: lock_tx_def replay_tx_Inr tx_get_def tx_bind_def)
    from reject_tx_Inr [OF this] None r show ?thesis by (auto intro!: rejected)
  next
    case False
    with run None read r inc have "commit_tx c ''LOCKED'' now (relocked_snapshot r (Suc n)) d =
        Inr ((result, code), d')"
      by (auto simp: lock_tx_def replay_tx_Inr tx_get_def tx_bind_def tx_lift_def
          relocked_snapshot_def snapshot_of_row_def)
    from commit_tx_Inr [OF this] False None r n tbl_get_SomeD [OF r(1)] show ?thesis
      by (auto simp: relocked_snapshot_def intro!: committed)
  qed
qed

lemma snapshot_if_current_cases:
  "snapshot_from_state_if_current s snap = cn_snapshot s \<or> snapshot_from_state_if_current s snap = snap"
  by (simp add: snapshot_from_state_if_current_def)

lemma split_last_separator:
  "a @ x # b = a' @ x # b' \<Longrightarrow> x \<notin> set b \<Longrightarrow> x \<notin> set b' \<Longrightarrow> a = a' \<and> b = b'"
  by (auto simp: append_eq_append_conv2 append_eq_Cons_conv Cons_eq_append_conv)

lemma dec_no_separator: "unit_separator \<notin> set (dec n)"
proof
  assume "unit_separator \<in> set (dec n)"
  then have "is_digit unit_separator" using dec_digits [of n] by (auto simp: list_all_iff)
  then show False by (simp add: is_digit_def)
qed

lemma command_scope_inj:
  assumes "command_scope c g k r = command_scope c' g' k' r'"
    and "command_key_ok g k r" and "command_key_ok g' k' r'"
  shows "c = c' \<and> g = g' \<and> k = k' \<and> r = r'"
proof -
  have sep: "unit_separator \<notin> set g" "unit_separator \<notin> set g'"
    using assms(2,3) dec_no_separator by (auto simp: command_key_ok_def)
  have "(c @ unit_separator # g @ unit_separator # k) @ unit_separator # r =
      (c' @ unit_separator # g' @ unit_separator # k') @ unit_separator # r'"
    using assms(1) by (simp add: command_scope_def)
  from split_last_separator [OF this] assms(2,3)
  have "(c @ unit_separator # g) @ unit_separator # k = (c' @ unit_separator # g') @ unit_separator # k'" "r = r'"
    by (auto simp: command_key_ok_def)
  moreover from split_last_separator [OF this(1)] assms(2,3)
  have "c @ unit_separator # g = c' @ unit_separator # g'" "k = k'"
    by (auto simp: command_key_ok_def)
  moreover from split_last_separator [OF this(1)] sep have "c = c'" "g = g'" by auto
  ultimately show ?thesis by blast
qed

text \<open>A ledger entry found under the scope of a command is about the command's generation.\<close>

lemma ledger_entry_command:
  assumes "ledger_ok d" and "valid_command c" and "lookup_ledger (cm_scope c) d = Some e"
  shows "pl_connection_id e = cm_connection_id c \<and> pl_generation e = cm_generation c \<and>
    pl_kind e = cm_kind c \<and> pl_request_id e = cm_request_id c"
proof -
  from assms(3) have e: "e \<in> set (protection_ledger_t d)" "pl_scope e = cm_scope c"
    by (auto simp: lookup_ledger_def dest: tbl_get_SomeD)
  have "command_scope (pl_connection_id e) (pl_generation e) (pl_kind e) (pl_request_id e) =
      command_scope (cm_connection_id c) (cm_generation c) (cm_kind c) (cm_request_id c)"
    using e assms(1,2) by (auto simp: ledger_ok_def valid_command_def)
  from command_scope_inj [OF this] e(1) assms(1,2) show ?thesis
    by (auto simp: ledger_ok_def valid_command_def)
qed

lemma ledger_ok_entry:
  "valid_command c \<Longrightarrow> protection_ledger_t d' = protection_ledger_t d @ [ledger_entry c code applied now] \<Longrightarrow>
     code \<noteq> '''' \<Longrightarrow> ledger_ok d \<Longrightarrow> ledger_ok d'"
  by (auto simp: ledger_ok_def valid_command_def ledger_entry_def)

text \<open>A committed command is a gated step, on the state it belongs to.\<close>

lemma committed_step:
  assumes ok: "rows_ok d" "conn_ok d s" and ids: "conn_ids s = (cm_connection_id c, cm_generation c)"
    and r: "row_at d (conn_ids s) = Some r" "p_closed_at r = None" "p_revision r = dec n"
    and cur: "ps_protection_revision cur = dec (Suc n)"
      "(ps_connection_id cur, ps_connection_generation cur) = row_key r"
    and lease: "lease = None \<or> (\<exists>l. lease = Some l \<and> ps_mode cur = ProtectedUnlocked \<and>
      ps_lease_id cur = Some (ls_id l))"
    and valid: "valid_command c"
  shows "gated_step (s, d) (s\<lparr>cn_snapshot := cur, cn_lease := lease\<rparr>,
      with_entry (ledger_entry c ''OK'' (dec (Suc n)) now) (written cur ct now d))"
proof -
  have agree: "row_agrees s r" by (rule conn_ok_row [OF ok(2) r(1)])
  have key: "row_key r = conn_ids s" using tbl_get_SomeD [OF r(1)] by simp
  have "ps_protection_revision (cn_snapshot s) = dec n" using agree r(3) by (simp add: row_agrees_def)
  then have rev: "revision_of s = n" by (simp add: revision_of_def)
  let ?s = "s\<lparr>cn_snapshot := cur, cn_lease := lease\<rparr>"
  show ?thesis
  proof (rule gated_step_put [OF ok r(1), where f = "advance (dec (Suc n)) (ps_mode cur) now" and n = "Suc n"])
    have "conn_ids ?s = conn_ids s" using cur(2) key by (simp add: conn_ids_def)
    then show "same_identity s ?s" by (simp add: same_identity_def)
    show "row_agrees ?s (advance (dec (Suc n)) (ps_mode cur) now r)"
      using agree cur(1) r(2) by (simp add: row_agrees_def)
    have "\<not> cn_closed s" using agree r(2) by (simp add: row_agrees_def)
    then show "lease_ok ?s" using lease by (auto simp: lease_ok_def)
    show "p_purge_after (advance (dec (Suc n)) (ps_mode cur) now r) \<noteq> None \<longrightarrow>
        p_closed_at (advance (dec (Suc n)) (ps_mode cur) now r) \<noteq> None"
      using rows_ok_purge [OF ok(1) r(1)] by simp
    show "protection_t (with_entry (ledger_entry c ''OK'' (dec (Suc n)) now) (written cur ct now d)) =
        put_row (conn_ids s) (advance (dec (Suc n)) (ps_mode cur) now) d"
      using cur key by simp
    assume "ledger_ok d"
    moreover have "protection_ledger_t (with_entry (ledger_entry c ''OK'' (dec (Suc n)) now) (written cur ct now d)) =
        protection_ledger_t d @ [ledger_entry c ''OK'' (dec (Suc n)) now]" by simp
    moreover have "''OK'' \<noteq> ''''" by (rule list.distinct(2))
    ultimately show "ledger_ok (with_entry (ledger_entry c ''OK'' (dec (Suc n)) now) (written cur ct now d))"
      using ledger_ok_entry [OF valid] by blast
  qed (use rev cur in simp_all)
qed

lemma unlock_gated_step:
  assumes ok: "rows_ok d" "conn_ok d s" and ids: "conn_ids s = (cm_connection_id c, cm_generation c)"
    and valid: "valid_command c" and run: "unlock_gated io1 io2 clock lease_id revision c (s, d) = (out, (s', d'))"
  shows "gated_step (s, d) (s', d')"
proof -
  obtain res s1 d1 where rc: "reconcile_expired_lease io1 (clock 0) (s, d) = (res, (s1, d1))"
    by (metis prod.exhaust)
  have step1: "gated_step (s, d) (s1, d1)" by (rule reconcile_cases(1) [OF ok rc])
  then have ok1: "rows_ok d1" "conn_ok d1 s1" by (auto dest: gated_step_ok)
  have ids1: "conn_ids s1 = (cm_connection_id c, cm_generation c)"
    using step1 ids by (simp add: gated_step_def same_identity_def)
  have stay: "gated_step (s, d) (s1, d'')"
    if "protection_t d'' = protection_t d1" "ledger_ok d1 \<Longrightarrow> ledger_ok d''" for d''
    by (rule gated_step_trans [OF step1 gated_step_same_rows [OF ok1 that]])
  consider "s' = s1" "d' = d1"
    | lease result code d2 where "res \<noteq> Inl (PlainError '''')" "lease_id = Some lease"
      "unlock_tx c revision lease (clock 1 + unlock_duration) (clock 2) d1 = Inr ((result, code), d2)"
      "d' = d2" "s' = (if code \<noteq> '''' \<or> cr_replayed result then s1
         else s1\<lparr>cn_snapshot := cr_snapshot result,
           cn_lease := Some \<lparr>ls_id = lease, ls_expires = clock 1 + unlock_duration\<rparr>\<rparr>)"
    using run rc
    by (auto simp: unlock_gated_def with_immediate_def Let_def settle_result_def
        split: sum.splits option.splits prod.splits if_splits)
  then show ?thesis
  proof cases
    case 1
    with step1 show ?thesis by simp
  next
    case 2
    from unlock_tx_outcome [OF ok1(1) 2(3)] have
      oc: "command_outcome c ''UNLOCKED'' (clock 2) d1 result code d2" and
      un: "code = '''' \<Longrightarrow> \<not> cr_replayed result \<Longrightarrow> \<exists>r n. row_at d1 (cm_connection_id c, cm_generation c) = Some r \<and>
        p_revision r = dec n \<and> revision = dec n \<and> p_mode r \<noteq> PermanentReadOnly \<and>
        cr_snapshot result = unlocked_snapshot r (Suc n) lease (clock 1 + unlock_duration)"
      by blast+
    from oc show ?thesis
    proof (cases rule: command_outcome.cases)
      case (committed r n cur)
      with un obtain r' n' where "row_at d1 (cm_connection_id c, cm_generation c) = Some r'"
        "cur = unlocked_snapshot r' (Suc n') lease (clock 1 + unlock_duration)" by auto
      then have "ps_mode cur = ProtectedUnlocked" "ps_lease_id cur = Some lease"
        by (simp_all add: unlocked_snapshot_def)
      with committed ids1 have "gated_step (s1, d1) (s1\<lparr>cn_snapshot := cur,
          cn_lease := Some \<lparr>ls_id = lease, ls_expires = clock 1 + unlock_duration\<rparr>\<rparr>, d2)"
        by (auto intro!: committed_step [OF ok1] valid)
      with step1 committed 2 show ?thesis by (auto intro: gated_step_trans)
    next
      case (rejected r)
      then have "gated_step (s, d) (s1, d2)"
        using ledger_ok_entry [OF valid, of d2 d1] by (intro stay) auto
      with 2 rejected show ?thesis by simp
    qed (use 2 step1 in auto)
  qed
qed

text \<open>A successful replay inside the gate reads the very snapshot the state holds.\<close>

lemma replay_is_current:
  assumes ok: "rows_ok d" "conn_ok d s" and ids: "conn_ids s = (cm_connection_id c, cm_generation c)"
    and valid: "valid_command c" and ledger: "ledger_ok d"
    and e: "lookup_ledger (cm_scope c) d = Some e" "replay_from e d = (result, err)"
    and code: "(case err of None \<Rightarrow> '''' | Some _ \<Rightarrow> pl_result_code e) = ''''"
  shows "snapshot_from_state_if_current s (cr_snapshot result) = cn_snapshot s"
proof -
  from ledger_entry_command [OF ledger valid e(1)]
  have ce: "(pl_connection_id e, pl_generation e) = conn_ids s" using ids by simp
  show ?thesis
  proof (cases "row_at d (conn_ids s)")
    case None
    with e(2) ce have "err = Some protection_ErrNotFound"
      by (auto simp: replay_from_def read_snapshot_def)
    with code have "pl_result_code e = ''''" by simp
    moreover have "e \<in> set (protection_ledger_t d)"
      using e(1) by (auto simp: lookup_ledger_def dest: tbl_get_SomeD)
    ultimately show ?thesis using ledger by (auto simp: ledger_ok_def)
  next
    case (Some r)
    with e(2) ce have "cr_snapshot result = snapshot_of_row r"
      by (auto simp: replay_from_def read_snapshot_def)
    moreover have "row_agrees s r" by (rule conn_ok_row [OF ok(2) Some])
    moreover have "row_key r = conn_ids s" using tbl_get_SomeD [OF Some] by simp
    ultimately show ?thesis
      by (simp add: snapshot_from_state_if_current_def row_agrees_def conn_ids_def)
  qed
qed

lemma lock_gated_step:
  assumes ok: "rows_ok d" "conn_ok d s" and ids: "conn_ids s = (cm_connection_id c, cm_generation c)"
    and valid: "valid_command c" and ledger: "ledger_ok d" and run: "lock_gated io now c (s, d) = (out, (s', d'))"
  shows "gated_step (s, d) (s', d')"
proof -
  consider "s' = s" "d' = d"
    | result code where "lock_tx c now d = Inr ((result, code), d')"
      "s' = (if code \<noteq> '''' then s else s\<lparr>cn_snapshot := cr_snapshot (settle_result s result code), cn_lease := None\<rparr>)"
    using run by (auto simp: lock_gated_def with_immediate_def Let_def split: sum.splits prod.splits if_splits)
  then show ?thesis
  proof cases
    case 1
    with gated_step_refl [OF ok] show ?thesis by simp
  next
    case 2
    from lock_tx_outcome [OF ok(1) 2(1)] have oc: "command_outcome c ''LOCKED'' now d result code d'" by blast
    then show ?thesis
    proof (cases rule: command_outcome.cases)
      case (committed r n cur)
      then have "gated_step (s, d) (s\<lparr>cn_snapshot := cur, cn_lease := None\<rparr>, d')"
        using ids by (auto intro!: committed_step [OF ok] valid)
      with committed 2 show ?thesis by (simp add: settle_result_def)
    next
      case (rejected r)
      then have "gated_step (s, d) (s, d')"
        using ledger_ok_entry [OF valid, of d' d] by (intro gated_step_same_rows [OF ok]) auto
      with 2 rejected show ?thesis by simp
    next
      case (replayed e result0 err)
      show ?thesis
      proof (cases "code = ''''")
        case False
        with 2 replayed gated_step_refl [OF ok] show ?thesis by simp
      next
        case True
        then have "settle_result s result code = result\<lparr>cr_snapshot :=
            snapshot_from_state_if_current s (cr_snapshot result0)\<rparr>" "result = result0\<lparr>cr_replayed := True\<rparr>"
          using replayed by (auto simp: settle_result_def)
        moreover have "snapshot_from_state_if_current s (cr_snapshot result0) = cn_snapshot s"
          by (rule replay_is_current [OF ok ids valid ledger replayed(3,5)]) (use True replayed in simp)
        ultimately have "s' = s\<lparr>cn_lease := None\<rparr>" using 2(2) True by simp
        moreover have "gated_step (s, d) (s\<lparr>cn_lease := None\<rparr>, d)"
          using ok by (simp add: gated_step_def conn_ok_def conn_ids_def lease_ok_def row_agrees_def
              same_identity_def revision_of_def no_new_lease_def split: option.splits)
        ultimately show ?thesis using replayed by simp
      qed
    qed
  qed
qed

definition close_row :: "string \<Rightarrow> time \<Rightarrow> protection_row \<Rightarrow> protection_row" where
  "close_row mode now r = r\<lparr>p_mode := mode, p_closed_at := Some now,
     p_purge_after := Some (now + 24 * hour), p_updated_at := now\<rparr>"

definition closed_mode :: "string \<Rightarrow> string" where
  "closed_mode mode = (if mode \<noteq> PermanentReadOnly then ProtectedLocked else mode)"

lemma close_tx_Inr:
  assumes "close_tx c g now d = Inr (u, d')"
  obtains r where "row_at d (c, g) = Some r"
    "protection_t d' = put_row (c, g) (close_row (closed_mode (p_mode r)) now) d"
    "protection_ledger_t d' = protection_ledger_t d"
proof -
  from assms obtain cur closed where read: "read_snapshot c g d = Some (cur, closed)"
    by (auto simp: close_tx_def tx_run split: option.splits)
  from read_snapshot_ids [OF read] obtain r where r: "row_at d (c, g) = Some r" "cur = snapshot_of_row r"
    by blast
  have "protection_t d' = put_row (c, g) (close_row (closed_mode (p_mode r)) now) d"
    "protection_ledger_t d' = protection_ledger_t d"
    using assms read r by (auto simp: close_tx_def tx_run Let_def insert_protection_event_def put_row_def
        close_row_def [abs_def] closed_mode_def snapshot_of_row_def)
  with r that show thesis by blast
qed

lemma close_gated_step:
  assumes ok: "rows_ok d" "conn_ok d s" and ids: "conn_ids s = (c, g)"
    and run: "close_gated io now c g (s, d) = (out, (s', d'))"
  shows "gated_step (s, d) (s', d')" and "out = Inr u \<Longrightarrow> cn_closed s' \<and> cn_lease s' = None"
proof -
  let ?s = "s\<lparr>cn_closed := True, cn_lease := None,
            cn_snapshot := (cn_snapshot s)\<lparr>ps_lease_id := None, ps_unlocked_until := None,
              ps_mode := closed_mode (ps_mode (cn_snapshot s))\<rparr>\<rparr>"
  consider e where "s' = s" "d' = d" "out = Inl e" | "close_tx c g now d = Inr ((), d')" "s' = ?s"
    using run by (auto simp: close_gated_def with_immediate_def closed_mode_def split: sum.splits prod.splits if_splits)
  then have "gated_step (s, d) (s', d') \<and> (out = Inr u \<longrightarrow> cn_closed s' \<and> cn_lease s' = None)"
  proof cases
    case 1
    with gated_step_refl [OF ok] show ?thesis by simp
  next
    case 2
    from close_tx_Inr [OF 2(1)] obtain r where r: "row_at d (conn_ids s) = Some r"
      and d': "protection_t d' = put_row (conn_ids s) (close_row (closed_mode (p_mode r)) now) d"
      and led: "protection_ledger_t d' = protection_ledger_t d"
      using ids by auto
    have agree: "row_agrees s r" by (rule conn_ok_row [OF ok(2) r])
    obtain n where n: "ps_protection_revision (cn_snapshot s) = dec n" using ok(2) by (auto simp: conn_ok_def)
    have keep: "keeps_identity (close_row (closed_mode (p_mode r)) now)"
      by (simp add: keeps_identity_def close_row_def)
    have "gated_step (s, d) (?s, d')"
    proof (rule gated_step_put [OF ok r keep d', where n = n])
      show "same_identity s ?s" by (simp add: same_identity_def conn_ids_def)
      show "row_agrees ?s (close_row (closed_mode (p_mode r)) now r)"
        using agree by (simp add: row_agrees_def close_row_def)
      show "ledger_ok d \<Longrightarrow> ledger_ok d'" using led by (simp add: ledger_ok_def)
    qed (use n in \<open>simp_all add: lease_ok_def close_row_def revision_of_def\<close>)
    with 2 show ?thesis by simp
  qed
  then show "gated_step (s, d) (s', d')" and "out = Inr u \<Longrightarrow> cn_closed s' \<and> cn_lease s' = None" by auto
qed

text \<open>The binding of a mutation is current: it names this revision, this profile revision, this lease.\<close>

definition current_binding :: "dispatch_binding \<Rightarrow> conn_state \<Rightarrow> bool" where
  "current_binding b s \<longleftrightarrow> \<not> cn_closed s \<and> ps_mode (cn_snapshot s) = ProtectedUnlocked \<and>
     ps_connection_generation (cn_snapshot s) = db_connection_generation b \<and>
     cn_profile_rev s = db_profile_revision b \<and>
     ps_protection_revision (cn_snapshot s) = db_protection_revision b \<and>
     map_option ls_id (cn_lease s) = Some (db_lease_id b)"

lemma validate_dispatch_ok:
  assumes "validate_dispatch now s b = Inr u"
  shows "current_binding b s" and "cn_lock_waiters s = 0"
    and "\<exists>l. cn_lease s = Some l \<and> now < ls_expires l"
  using assms by (auto simp: validate_dispatch_def current_binding_def split: if_splits option.splits)

lemma authorize_gated_step:
  assumes ok: "rows_ok d" "conn_ok d s"
    and run: "authorize_gated io clock b (s, d) = (out, (s', d'))"
  shows "gated_step (s, d) (s', d')"
    and "out = Inr u \<Longrightarrow> s' = s \<and> d' = d \<and> current_binding b s \<and> cn_lock_waiters s = 0 \<and>
      (\<exists>l. cn_lease s = Some l \<and> clock 0 < ls_expires l \<and> clock 1 < ls_expires l)"
proof -
  obtain res s1 d1 where rc: "reconcile_expired_lease io (clock 0) (s, d) = (res, (s1, d1))"
    by (metis prod.exhaust)
  note rcs = reconcile_cases [OF ok rc]
  have "gated_step (s, d) (s', d') \<and> (out = Inr u \<longrightarrow> s' = s \<and> d' = d \<and> current_binding b s \<and>
      cn_lock_waiters s = 0 \<and> (\<exists>l. cn_lease s = Some l \<and> clock 0 < ls_expires l \<and> clock 1 < ls_expires l))"
  proof (cases res)
    case (Inl e)
    with run rc rcs(1) show ?thesis by (auto simp: authorize_gated_def)
  next
    case (Inr p)
    obtain snap expired where p: "p = (snap, expired)" by (cases p)
    show ?thesis
    proof (cases expired)
      case True
      with run rc Inr p rcs(1) show ?thesis by (auto simp: authorize_gated_def)
    next
      case False
      then have same: "s1 = s" "d1 = d" and live: "\<not> lease_expired_at (ps_mode (cn_snapshot s)) (cn_lease s) (clock 0)"
        using rcs(2) [of snap] Inr p by auto
      have out: "out = validate_dispatch (clock 1) s b" "s' = s" "d' = d"
        using run rc Inr p False same by (auto simp: authorize_gated_def)
      show ?thesis
      proof (cases out)
        case (Inr u')
        from validate_dispatch_ok [of "clock 1" s b u'] out Inr live gated_step_refl [OF ok]
        show ?thesis by (auto simp: current_binding_def lease_expired_at_def)
      qed (use out gated_step_refl [OF ok] in simp)
    qed
  qed
  then show "gated_step (s, d) (s', d')"
    and "out = Inr u \<Longrightarrow> s' = s \<and> d' = d \<and> current_binding b s \<and> cn_lock_waiters s = 0 \<and>
      (\<exists>l. cn_lease s = Some l \<and> clock 0 < ls_expires l \<and> clock 1 < ls_expires l)" by auto
qed

lemma grant_loop_step:
  assumes ok: "rows_ok d" "conn_ok d s"
    and run: "grant_loop n io clock c g (s, d) = (out, (s', d'))"
  shows "gated_step (s, d) (s', d') \<and>
    (\<forall>snap b. out = Some (snap, None, Some b) \<longrightarrow> s' = s \<and> d' = d \<and> cn_lock_waiters s = 0 \<and>
       (db_connection_generation b = snd (conn_ids s) \<longrightarrow> current_binding b s) \<and> snap = cn_snapshot s \<and>
       db_connection_id b = c \<and> db_connection_generation b = g \<and> (\<exists>l i. cn_lease s = Some l \<and> clock i < ls_expires l))"
  using run
proof (induction n arbitrary: clock)
  case 0
  with gated_step_refl [OF ok] show ?case by auto
next
  case (Suc n)
  obtain res s1 d1 where rc: "reconcile_expired_lease io (clock 0) (s, d) = (res, (s1, d1))"
    by (metis prod.exhaust)
  note rcs = reconcile_cases [OF ok rc]
  show ?case
  proof (cases res)
    case (Inl e)
    with Suc.prems rc rcs(1) show ?thesis by auto
  next
    case (Inr p)
    obtain snap expired where p: "p = (snap, expired)" by (cases p)
    show ?thesis
    proof (cases expired)
      case True
      with Suc.prems rc Inr p rcs(1) show ?thesis by auto
    next
      case False
      then have same: "s1 = s" "d1 = d" using rcs(2) [of snap] Inr p by auto
      show ?thesis
      proof (cases "cn_lock_waiters s = 0 \<and> \<not> cn_closed s \<and> ps_mode (cn_snapshot s) = ProtectedUnlocked \<and>
          cn_lease s \<noteq> None \<and> lease_expired_at (ps_mode (cn_snapshot s)) (cn_lease s) (clock 1)")
        case True
        with Suc.prems rc Inr p False same
        have "grant_loop n io (\<lambda>i. clock (i + 2)) c g (s, d) = (out, (s', d'))" by auto
        from Suc.IH [OF this] show ?thesis by blast
      next
        case go: False
        with Suc.prems rc Inr p False same gated_step_refl [OF ok] show ?thesis
          by (auto simp: current_binding_def conn_ids_def lease_expired_at_def
              split: if_splits option.splits intro!: exI [of _ "Suc 0"])
      qed
    qed
  qed
qed

end
