(* ===== verification/Protection_System.thy ===== *)
theory Protection_System
  imports Protection_Gate
begin

text \<open>
  The protection manager with any number of callers at work.  \<open>prot_step\<close> interleaves the sections of
  \<open>Unlock\<close>, \<open>Lock\<close>, \<open>CloseGeneration\<close>, \<open>Get\<close>, \<open>WithGrantBinding\<close>, registrations, purges, the other
  components' transactions, and mutations in flight, which hold the gate of their generation from
  their authorization until \<open>beginRoundTrip\<close> has returned.  Every step may find any clock reading
  and any transaction may fail.
\<close>

section \<open>The interleaved system\<close>

text \<open>
  Where a caller of a command stands: past its head, or accepted (counted in \<open>lockWaiters\<close>) and
  waiting for the gate.
\<close>

datatype caller =
    LockHeaded command_record
  | LockPending command_record
  | UnlockHeaded string command_record
  | ClosePending string string

record prot_sys =
  py_mgr :: manager
  py_callers :: "caller list"
  py_in_flight :: "string \<rightharpoonup> dispatch_binding"

definition command_key :: "command_record \<Rightarrow> string" where
  "command_key c = generation_key (cm_connection_id c) (cm_generation c)"

fun pending_on :: "caller \<Rightarrow> string option" where
  "pending_on (LockPending c) = Some (command_key c)"
| "pending_on (ClosePending c g) = Some (generation_key c g)"
| "pending_on (LockHeaded c) = None"
| "pending_on (UnlockHeaded v c) = None"

definition waiting_on :: "string \<Rightarrow> caller list \<Rightarrow> nat" where
  "waiting_on key callers = length (filter (\<lambda>p. pending_on p = Some key) callers)"

text \<open>A generation text without the separator of \<open>generationKey\<close>.\<close>

definition plain_generation :: "string \<Rightarrow> bool" where
  "plain_generation g \<longleftrightarrow> CHR 0x00 \<notin> set g"

definition gate_free :: "manager \<Rightarrow> string \<Rightarrow> bool" where
  "gate_free m key \<longleftrightarrow> (case mg_connections m key of None \<Rightarrow> True | Some s \<Rightarrow> cn_gate s)"

text \<open>A change of the database by another component leaves the protection tables alone.\<close>

definition foreign :: "db \<Rightarrow> db \<Rightarrow> bool" where
  "foreign d d' \<longleftrightarrow> protection_t d' = protection_t d \<and> protection_ledger_t d' = protection_ledger_t d"

definition set_gate :: "bool \<Rightarrow> string \<Rightarrow> manager \<Rightarrow> manager" where
  "set_gate b key m = m\<lparr>mg_connections := (mg_connections m)(key :=
     map_option (\<lambda>s. s\<lparr>cn_gate := b\<rparr>) (mg_connections m key))\<rparr>"

inductive prot_step :: "prot_sys \<Rightarrow> prot_sys \<Rightarrow> bool" where
  registers: "register io now req (py_mgr y) = (res, m') \<Longrightarrow>
    (\<And>g. canonical_big (rr_connection_generation req) = Some g \<Longrightarrow>
       mg_connections (py_mgr y) (generation_key (rr_connection_id req) g) = None) \<Longrightarrow>
    prot_step y (y\<lparr>py_mgr := m'\<rparr>)"
| heads: "valid_command c \<Longrightarrow>
    lookup_ledger (cm_scope c) (mg_db (py_mgr y)) \<noteq> None \<longrightarrow> gate_free (py_mgr y) (command_key c) \<Longrightarrow>
    command_head io clock c (py_mgr y) = (out, m') \<Longrightarrow>
    p = LockHeaded c \<or> p = UnlockHeaded v c \<Longrightarrow>
    prot_step y (y\<lparr>py_mgr := m', py_callers := (if out = None then [p] else []) @ py_callers y\<rparr>)"
| unlocks: "UnlockHeaded v c \<in> set (py_callers y) \<Longrightarrow>
    gate_free (py_mgr y) (command_key c) \<or>
      (\<exists>s. mg_connections (py_mgr y) (command_key c) = Some s \<and> cn_lock_waiters s \<noteq> 0) \<Longrightarrow>
    unlock_after_head io io1 io2 clock lease_id v c (py_mgr y) = (out, m') \<Longrightarrow>
    prot_step y (y\<lparr>py_mgr := m', py_callers := remove1 (UnlockHeaded v c) (py_callers y)\<rparr>)"
| accepts: "LockHeaded c \<in> set (py_callers y) \<Longrightarrow>
    prot_step y (y\<lparr>py_mgr := lock_accept (command_key c) (py_mgr y),
      py_callers := LockPending c # remove1 (LockHeaded c) (py_callers y)\<rparr>)"
| locks: "LockPending c \<in> set (py_callers y) \<Longrightarrow>
    mg_connections (py_mgr y) (command_key c) = Some s \<Longrightarrow> cn_gate s \<Longrightarrow>
    lock_commit io now c s (py_mgr y) = (out, m') \<Longrightarrow>
    prot_step y (y\<lparr>py_mgr := m', py_callers := remove1 (LockPending c) (py_callers y)\<rparr>)"
| closes: "plain_generation g \<Longrightarrow> conn_at (py_mgr y) c g = Some s \<Longrightarrow>
    prot_step y (y\<lparr>py_mgr := lock_accept (generation_key c g) (py_mgr y),
      py_callers := ClosePending c g # py_callers y\<rparr>)"
| closed: "ClosePending c g \<in> set (py_callers y) \<Longrightarrow> conn_at (py_mgr y) c g = Some s \<Longrightarrow> cn_gate s \<Longrightarrow>
    close_commit io now c g s (py_mgr y) = (res, m') \<Longrightarrow>
    prot_step y (y\<lparr>py_mgr := m', py_callers := remove1 (ClosePending c g) (py_callers y)\<rparr>)"
| gets: "plain_generation g \<Longrightarrow> gate_free (py_mgr y) (generation_key c g) \<Longrightarrow>
    get_snapshot io clock c g (py_mgr y) = (res, m') \<Longrightarrow> prot_step y (y\<lparr>py_mgr := m'\<rparr>)"
| grants: "plain_generation g \<Longrightarrow> gate_free (py_mgr y) (generation_key c g) \<Longrightarrow>
    (\<And>b snap d r d'. issue b snap d = ((r :: unit result), d') \<Longrightarrow> foreign d d') \<Longrightarrow>
    with_grant_binding io clock c g issue (py_mgr y) = (res, m') \<Longrightarrow> prot_step y (y\<lparr>py_mgr := m'\<rparr>)"
| authorizes: "plain_generation (db_connection_generation b) \<Longrightarrow>
    gate_free (py_mgr y) (generation_key (db_connection_id b) (db_connection_generation b)) \<Longrightarrow>
    (\<And>d r d'. commit d = (r, d') \<Longrightarrow> foreign d d') \<Longrightarrow>
    with_authorized_gate io clock b commit (py_mgr y) = (res, m') \<Longrightarrow> prot_step y (y\<lparr>py_mgr := m'\<rparr>)"
| dispatches: "plain_generation (db_connection_generation b) \<Longrightarrow> dispatch_enter b (py_mgr y) = Inr s \<Longrightarrow>
    cn_gate s \<Longrightarrow> authorize_gated io clock b (s, mg_db (py_mgr y)) = (Inr u, (s', d')) \<Longrightarrow>
    key = generation_key (db_connection_id b) (db_connection_generation b) \<Longrightarrow>
    prot_step y (y\<lparr>py_mgr := set_gate False key (py_mgr y), py_in_flight := (py_in_flight y)(key \<mapsto> b)\<rparr>)"
| returns: "py_in_flight y key = Some b \<Longrightarrow>
    prot_step y (y\<lparr>py_mgr := set_gate True key (py_mgr y), py_in_flight := (py_in_flight y)(key := None)\<rparr>)"
| others: "foreign (mg_db (py_mgr y)) d' \<Longrightarrow> prot_step y (y\<lparr>py_mgr := (py_mgr y)\<lparr>mg_db := d'\<rparr>\<rparr>)"
| purges: "purge_closed io now (py_mgr y) = (res, m') \<Longrightarrow> prot_step y (y\<lparr>py_mgr := m'\<rparr>)"

text \<open>
  The system starts when \<open>Recover\<close> has succeeded on a manager with no connection, over a database
  that an earlier run left.
\<close>

definition prot_start :: "prot_sys \<Rightarrow> bool" where
  "prot_start y \<longleftrightarrow> py_callers y = [] \<and> py_in_flight y = (\<lambda>_. None) \<and>
     (\<exists>io clock d. rows_ok d \<and> ledger_ok d \<and>
        recover io clock \<lparr>mg_db = d, mg_connections = (\<lambda>_. None)\<rparr> = (Inr (), py_mgr y))"

abbreviation prot_reachable :: "prot_sys \<Rightarrow> bool" where
  "prot_reachable \<equiv> reachable_from prot_start prot_step"

section \<open>The invariant\<close>

definition conns_ok :: "manager \<Rightarrow> (string \<rightharpoonup> dispatch_binding) \<Rightarrow> bool" where
  "conns_ok m fl \<longleftrightarrow> rows_ok (mg_db m) \<and> ledger_ok (mg_db m) \<and>
     (\<forall>key. mg_connections m key = None \<longrightarrow> fl key = None) \<and>
     (\<forall>key s. mg_connections m key = Some s \<longrightarrow>
        key = generation_key (fst (conn_ids s)) (snd (conn_ids s)) \<and> conn_ok (mg_db m) s \<and>
        (cn_gate s \<longleftrightarrow> fl key = None) \<and> (\<forall>b. fl key = Some b \<longrightarrow> current_binding b s))"

fun caller_ok :: "manager \<Rightarrow> caller \<Rightarrow> bool" where
  "caller_ok m (LockHeaded c) = (valid_command c \<and> mg_connections m (command_key c) \<noteq> None)"
| "caller_ok m (LockPending c) = (valid_command c \<and> mg_connections m (command_key c) \<noteq> None)"
| "caller_ok m (UnlockHeaded v c) = valid_command c"
| "caller_ok m (ClosePending c g) = (plain_generation g \<and> mg_connections m (generation_key c g) \<noteq> None)"

definition waiters_ok :: "manager \<Rightarrow> caller list \<Rightarrow> bool" where
  "waiters_ok m callers \<longleftrightarrow> (\<forall>p\<in>set callers. caller_ok m p) \<and>
     (\<forall>key s. mg_connections m key = Some s \<longrightarrow> cn_lock_waiters s = waiting_on key callers)"

definition prot_inv :: "prot_sys \<Rightarrow> bool" where
  "prot_inv y \<longleftrightarrow> conns_ok (py_mgr y) (py_in_flight y) \<and> waiters_ok (py_mgr y) (py_callers y)"

subsection \<open>Keys\<close>

lemma generation_key_inj:
  assumes "generation_key c g = generation_key c' g'" and "plain_generation g" and "plain_generation g'"
  shows "c = c' \<and> g = g'"
  using split_last_separator [of c "CHR 0x00" g c' g'] assms
  by (simp add: generation_key_def plain_generation_def)

lemma plain_dec [simp]: "plain_generation (dec n)"
  unfolding plain_generation_def
proof
  assume "CHR 0x00 \<in> set (dec n)"
  then have "is_digit (CHR 0x00)" using dec_digits [of n] by (auto simp: list_all_iff)
  then show False by (simp add: is_digit_def)
qed

lemma conn_ids_at:
  assumes "conns_ok m fl" and "mg_connections m (generation_key c g) = Some s" and "plain_generation g"
  shows "conn_ids s = (c, g)"
proof -
  have key: "generation_key c g = generation_key (fst (conn_ids s)) (snd (conn_ids s))"
    and ok: "conn_ok (mg_db m) s"
    using assms(1,2) by (auto simp: conns_ok_def)
  from ok have "plain_generation (snd (conn_ids s))" by (auto simp: conn_ok_def)
  from generation_key_inj [OF key assms(3) this] show ?thesis by (metis prod.collapse)
qed

lemma command_plain: "valid_command c \<Longrightarrow> plain_generation (cm_generation c)"
  by (auto simp: valid_command_def command_key_ok_def)

subsection \<open>Sections, ledger writes, foreign writes\<close>

lemma conns_okD:
  assumes "conns_ok m fl" and "mg_connections m key = Some s"
  shows "rows_ok (mg_db m)" "ledger_ok (mg_db m)" "conn_ok (mg_db m) s"
    "key = generation_key (fst (conn_ids s)) (snd (conn_ids s))" "cn_gate s \<longleftrightarrow> fl key = None"
    "fl key = Some b \<Longrightarrow> current_binding b s"
  using assms by (auto simp: conns_ok_def)

definition same_waiters :: "manager \<Rightarrow> manager \<Rightarrow> bool" where
  "same_waiters m m' \<longleftrightarrow> (\<forall>key. map_option cn_lock_waiters (mg_connections m' key) =
     map_option cn_lock_waiters (mg_connections m key))"

lemma same_waiters_refl [simp]: "same_waiters m m"
  by (simp add: same_waiters_def)

lemma same_waiters_trans: "same_waiters a b \<Longrightarrow> same_waiters b c \<Longrightarrow> same_waiters a c"
  by (simp add: same_waiters_def)

lemma same_waiters_None: "same_waiters m m' \<Longrightarrow> mg_connections m' key = None \<longleftrightarrow> mg_connections m key = None"
  unfolding same_waiters_def by (metis map_option_is_None)

text \<open>No connection disappears, goes back to an earlier revision, or gets a lease without a new one.\<close>

definition conn_advances :: "conn_state \<Rightarrow> conn_state \<Rightarrow> bool" where
  "conn_advances s s' \<longleftrightarrow> revision_of s \<le> revision_of s' \<and> no_new_lease s s' \<and> (cn_closed s \<longrightarrow> cn_closed s')"

definition advances :: "manager \<Rightarrow> manager \<Rightarrow> bool" where
  "advances m m' \<longleftrightarrow> (\<forall>key s. mg_connections m key = Some s \<longrightarrow>
     (\<exists>s'. mg_connections m' key = Some s' \<and> conn_advances s s'))"

lemma conn_advances_refl: "cn_snapshot s' = cn_snapshot s \<Longrightarrow> cn_lease s' = cn_lease s \<Longrightarrow>
    cn_closed s' = cn_closed s \<Longrightarrow> conn_advances s s'"
  by (simp add: conn_advances_def no_new_lease_def revision_of_def)

lemma conn_advances_trans: "conn_advances a b \<Longrightarrow> conn_advances b c \<Longrightarrow> conn_advances a c"
  by (auto simp: conn_advances_def no_new_lease_def)

lemma gated_step_advances: "gated_step (s, d) (s', d') \<Longrightarrow> conn_advances s (s'\<lparr>cn_lock_waiters := w\<rparr>)"
  by (auto simp: gated_step_def conn_advances_def no_new_lease_def revision_of_def)

lemma advances_refl: "mg_connections m' = mg_connections m \<Longrightarrow> advances m m'"
  by (auto simp: advances_def intro: conn_advances_refl)

lemma advances_trans: "advances a b \<Longrightarrow> advances b c \<Longrightarrow> advances a c"
  unfolding advances_def by (meson conn_advances_trans)

lemma advances_upd:
  "mg_connections m key = Some s \<Longrightarrow> conn_advances s s' \<Longrightarrow>
     mg_connections m' = (mg_connections m)(key \<mapsto> s') \<Longrightarrow> advances m m'"
  by (auto simp: advances_def intro: conn_advances_refl)

lemma caller_ok_same: "same_waiters m m' \<Longrightarrow> caller_ok m' p = caller_ok m p"
  by (cases p) (auto simp: same_waiters_None)

lemma waiters_ok_same:
  assumes "same_waiters m m'" and "waiters_ok m cs"
  shows "waiters_ok m' cs"
proof -
  have "cn_lock_waiters s' = waiting_on key cs" if "mg_connections m' key = Some s'" for key s'
  proof -
    from assms(1) that obtain s where "mg_connections m key = Some s" "cn_lock_waiters s = cn_lock_waiters s'"
      unfolding same_waiters_def by (metis (no_types, lifting) option.simps(9) map_option_eq_Some)
    with assms(2) show ?thesis by (auto simp: waiters_ok_def)
  qed
  with assms show ?thesis by (auto simp: waiters_ok_def caller_ok_same)
qed

text \<open>A gated step on one generation keeps the invariant of all of them.\<close>

lemma conns_ok_put:
  assumes ok: "conns_ok m fl" and s: "mg_connections m key = Some s" "cn_gate s"
    and step: "gated_step (s, mg_db m) (s', d')"
  shows "conns_ok (m\<lparr>mg_db := d', mg_connections := (mg_connections m)(key \<mapsto> s'\<lparr>cn_lock_waiters := w\<rparr>)\<rparr>) fl"
proof -
  note base = conns_okD [OF ok s(1)]
  have id: "conn_ids s' = conn_ids s" "cn_gate s'" and s': "conn_ok d' s'" and d': "rows_ok d'" "ledger_ok d'"
    and rest: "\<And>k. k \<noteq> conn_ids s \<Longrightarrow> row_at d' k = row_at (mg_db m) k"
    using step s(2) base by (auto simp: gated_step_def same_identity_def)
  have w: "conn_ids (s'\<lparr>cn_lock_waiters := w\<rparr>) = conn_ids s'" "conn_ok d' (s'\<lparr>cn_lock_waiters := w\<rparr>) = conn_ok d' s'"
    by (simp_all add: conn_ids_def conn_ok_def row_agrees_def lease_ok_def split: option.splits)
  have other: "conn_ok d' x" if x: "mg_connections m k = Some x" "k \<noteq> key" for k x
  proof -
    have "conn_ids x \<noteq> conn_ids s" using conns_okD(4) [OF ok x(1)] base(4) x(2) by auto
    with rest have "row_at d' (conn_ids x) = row_at (mg_db m) (conn_ids x)" by blast
    with conns_okD(3) [OF ok x(1)] show ?thesis by (simp add: conn_ok_def)
  qed
  show ?thesis
    using ok base id s' d' w other s by (auto simp: conns_ok_def)
qed

lemma section_ok:
  assumes ok: "conns_ok m fl" and s: "mg_connections m key = Some s" "cn_gate s"
    and f: "f (s, mg_db m) = (r, (s', d'))" "gated_step (s, mg_db m) (s', d')"
    and run: "with_conn key s f m = (res, m')"
  shows "conns_ok m' fl" and "same_waiters m m'" and "advances m m'"
proof -
  have m': "m' = m\<lparr>mg_db := d', mg_connections := (mg_connections m)(key \<mapsto> s')\<rparr>"
    using run f(1) by (simp add: with_conn_def)
  have w: "cn_lock_waiters s' = cn_lock_waiters s"
    using f(2) by (simp add: gated_step_def same_identity_def)
  then have "s'\<lparr>cn_lock_waiters := cn_lock_waiters s\<rparr> = s'" by simp
  with gated_step_advances [OF f(2), of "cn_lock_waiters s"] have "conn_advances s s'" by simp
  with m' s(1) show "advances m m'" by (intro advances_upd) simp_all
  from \<open>s'\<lparr>cn_lock_waiters := cn_lock_waiters s\<rparr> = s'\<close> conns_ok_put [OF ok s f(2), of "cn_lock_waiters s"] m'
  show "conns_ok m' fl" by simp
  show "same_waiters m m'" using m' w s(1) by (simp add: same_waiters_def)
qed

lemma conns_ok_db:
  assumes "conns_ok m fl" and "mg_connections m' = mg_connections m"
    and "protection_t (mg_db m') = protection_t (mg_db m)" and "ledger_ok (mg_db m')"
  shows "conns_ok m' fl"
  using assms by (simp add: conns_ok_def rows_ok_def conn_ok_def)

lemma same_waiters_db: "mg_connections m' = mg_connections m \<Longrightarrow> same_waiters m m'"
  by (simp add: same_waiters_def)

lemma ledger_ok_foreign: "foreign d d' \<Longrightarrow> ledger_ok d \<Longrightarrow> ledger_ok d'"
  by (simp add: foreign_def ledger_ok_def)

lemma gated_step_foreign:
  "gated_step gs (s', d') \<Longrightarrow> foreign d' d'' \<Longrightarrow> gated_step gs (s', d'')"
  by (rule gated_step_trans [OF _ gated_step_same_rows])
    (auto dest: gated_step_ok simp: foreign_def ledger_ok_def)

text \<open>The transactions that only append to the ledger.\<close>

definition ledger_write :: "command_record \<Rightarrow> db \<Rightarrow> db \<Rightarrow> bool" where
  "ledger_write c d d' \<longleftrightarrow> d' = d \<or>
     (\<exists>code now. code \<noteq> '''' \<and> d' = with_entry (ledger_entry c code '''' now) d)"

lemma ledger_write_keeps:
  assumes "ledger_write c d d'"
  shows "protection_t d' = protection_t d" and "valid_command c \<Longrightarrow> ledger_ok d \<Longrightarrow> ledger_ok d'"
proof -
  show "protection_t d' = protection_t d" using assms by (auto simp: ledger_write_def)
  assume v: "valid_command c" "ledger_ok d"
  from assms consider "d' = d" | code now where "code \<noteq> ''''" "d' = with_entry (ledger_entry c code '''' now) d"
    by (auto simp: ledger_write_def)
  then show "ledger_ok d'"
  proof cases
    case 2
    then show ?thesis using ledger_ok_entry [OF v(1) _ 2(1) v(2)] by simp
  qed (use v in simp)
qed

lemma rejection_writes:
  assumes "rejection_tx c e now d = Inr (x, d')" and "error_text e \<noteq> ''''"
  shows "ledger_write c d d'"
  using assms
  by (cases x) (auto simp: rejection_tx_def ledger_replay_tx_def tx_run ledger_write_def
      split: option.splits prod.splits if_splits dest!: reject_tx_Inr)

lemma unavailable_writes:
  assumes "unavailable_tx c now d = Inr (x, d')"
  shows "ledger_write c d d'"
  using assms
  by (cases x) (auto simp: unavailable_tx_def ledger_replay_tx_def tx_run ledger_write_def
      split: option.splits prod.splits if_splits dest!: reject_tx_Inr)

lemma ledger_write_refl [simp]: "ledger_write c d d"
  by (simp add: ledger_write_def)

lemma conns_ok_ledger:
  assumes "conns_ok m fl" and "valid_command c"
    and "mg_connections m' = mg_connections m" and "ledger_write c (mg_db m) (mg_db m')"
  shows "conns_ok m' fl"
  using assms(1,2) ledger_write_keeps [OF assms(4)]
  by (intro conns_ok_db [OF assms(1,3)]) (auto simp: conns_ok_def)

lemma persist_rejection_ok:
  assumes ok: "conns_ok m fl" "valid_command c" and e: "error_text e \<noteq> ''''"
    and run: "persist_command_rejection io now c e m = (out, m')"
  shows "conns_ok m' fl" and "same_waiters m m'" and "advances m m'"
proof -
  have m': "mg_connections m' = mg_connections m" and w: "ledger_write c (mg_db m) (mg_db m')"
    using run rejection_writes [OF _ e, of c now "mg_db m"]
    by (auto simp: persist_command_rejection_def with_immediate_def split: sum.splits prod.splits if_splits)
  show "conns_ok m' fl" by (rule conns_ok_ledger [OF ok m' w])
  show "same_waiters m m'" by (rule same_waiters_db [OF m'])
  show "advances m m'" by (rule advances_refl [OF m'])
qed

lemma reject_unavailable_ok:
  assumes ok: "conns_ok m fl" "valid_command c"
    and run: "reject_unavailable_generation io now c m = (out, m')"
  shows "conns_ok m' fl" and "same_waiters m m'" and "advances m m'"
proof -
  have m': "mg_connections m' = mg_connections m" and w: "ledger_write c (mg_db m) (mg_db m')"
    using run unavailable_writes [of c now "mg_db m"]
    by (auto simp: reject_unavailable_generation_def with_immediate_def split: sum.splits prod.splits if_splits)
  show "conns_ok m' fl" by (rule conns_ok_ledger [OF ok m' w])
  show "same_waiters m m'" by (rule same_waiters_db [OF m'])
  show "advances m m'" by (rule advances_refl [OF m'])
qed

section \<open>The methods keep the invariant\<close>

definition kept :: "manager \<Rightarrow> (string \<rightharpoonup> dispatch_binding) \<Rightarrow> manager \<Rightarrow> bool" where
  "kept m fl m' \<longleftrightarrow> conns_ok m' fl \<and> same_waiters m m' \<and> advances m m'"

lemma kept_refl: "conns_ok m fl \<Longrightarrow> kept m fl m"
  by (simp add: kept_def advances_refl)

lemma kept_trans: "kept a fl b \<Longrightarrow> kept b fl c \<Longrightarrow> kept a fl c"
  by (auto simp: kept_def intro: same_waiters_trans advances_trans)

lemma kept_section:
  assumes ok: "conns_ok m fl" and s: "mg_connections m key = Some s" "cn_gate s"
    and step: "\<And>r s' d'. f (s, mg_db m) = (r, (s', d')) \<Longrightarrow> gated_step (s, mg_db m) (s', d')"
    and run: "with_conn key s f m = (res, m')"
  shows "kept m fl m'"
proof -
  obtain r s' d' where f: "f (s, mg_db m) = (r, (s', d'))" by (metis prod.exhaust)
  from section_ok [OF ok s f step [OF f] run] show ?thesis by (simp add: kept_def)
qed

lemma gate_free_conn: "gate_free m key \<Longrightarrow> mg_connections m key = Some s \<Longrightarrow> cn_gate s"
  by (simp add: gate_free_def)

lemma lookup_replay_ok:
  assumes ok: "conns_ok m fl" and c: "valid_command c"
    and free: "lookup_ledger (cm_scope c) (mg_db m) \<noteq> None \<longrightarrow> gate_free m (command_key c)"
    and run: "lookup_replay io now (cm_scope c) digest m = (out, m')"
  shows "kept m fl m'" and "lookup_ledger (cm_scope c) (mg_db m) = None \<Longrightarrow> m' = m"
proof -
  have "kept m fl m' \<and> (lookup_ledger (cm_scope c) (mg_db m) = None \<longrightarrow> m' = m)"
  proof (cases "lookup_ledger (cm_scope c) (mg_db m)")
    case None
    with run kept_refl [OF ok] show ?thesis by (simp add: lookup_replay_def)
  next
    case (Some e)
    have key: "generation_key (pl_connection_id e) (pl_generation e) = command_key c"
      using ledger_entry_command [OF _ c Some] ok by (simp add: conns_ok_def command_key_def)
    show ?thesis
    proof (cases "pl_digest e = digest \<and> mg_connections m (command_key c) \<noteq> None")
      case False
      with run Some key kept_refl [OF ok] show ?thesis
        by (auto simp: lookup_replay_def conn_at_def split: option.splits prod.splits if_splits)
    next
      case True
      then obtain s where s: "mg_connections m (command_key c) = Some s" by auto
      note base = conns_okD [OF ok s]
      define f where "f = (\<lambda>gs. case reconcile_expired_lease io now gs of
           (Inl err, gs) \<Rightarrow> (Some (empty_result, Some err), gs)
         | (Inr _, (s, d)) \<Rightarrow>
             (let (result, err) = replay_from e d
              in (Some (result\<lparr>cr_replayed := True,
                     cr_snapshot := snapshot_from_state_if_current s (cr_snapshot result)\<rparr>, err), (s, d))))"
      have "with_conn (command_key c) s f m = (out, m')"
        using run Some True s key by (simp add: lookup_replay_def conn_at_def f_def)
      moreover have "gated_step (s, mg_db m) (s', d')" if "f (s, mg_db m) = (r, (s', d'))" for r s' d'
      proof -
        obtain res0 s0 d0 where rc: "reconcile_expired_lease io now (s, mg_db m) = (res0, (s0, d0))"
          by (metis prod.exhaust)
        with that have "s' = s0" "d' = d0" by (auto simp: f_def Let_def split: sum.splits prod.splits)
        with reconcile_cases(1) [OF base(1,3) rc] show ?thesis by simp
      qed
      moreover have "cn_gate s" using free Some gate_free_conn [OF _ s] by simp
      ultimately have "kept m fl m'" by (intro kept_section [OF ok s])
      with Some show ?thesis by simp
    qed
  qed
  then show "kept m fl m'" and "lookup_ledger (cm_scope c) (mg_db m) = None \<Longrightarrow> m' = m" by auto
qed

lemma command_head_ok:
  assumes ok: "conns_ok m fl" and c: "valid_command c"
    and free: "lookup_ledger (cm_scope c) (mg_db m) \<noteq> None \<longrightarrow> gate_free m (command_key c)"
    and run: "command_head io clock c m = (out, m')"
  shows "kept m fl m'" and "out = None \<Longrightarrow> mg_connections m' (command_key c) \<noteq> None"
proof -
  obtain found m1 where lr: "lookup_replay io (clock 0) (cm_scope c) (cm_digest c) m = (found, m1)"
    by (metis prod.exhaust)
  note l = lookup_replay_ok [OF ok c free lr]
  then have ok1: "conns_ok m1 fl" by (simp add: kept_def)
  have "kept m fl m' \<and> (out = None \<longrightarrow> mg_connections m' (command_key c) \<noteq> None)"
  proof (cases "found = None \<and> conn_at m1 (cm_connection_id c) (cm_generation c) = None")
    case True
    with run lr have rj: "reject_unavailable_generation io (clock 1) c m1 = (the out, m')" "out \<noteq> None"
      by (auto simp: command_head_def split: prod.splits)
    from reject_unavailable_ok [OF ok1 c rj(1)] have "kept m1 fl m'" by (simp add: kept_def)
    with kept_trans [OF l(1)] rj(2) show ?thesis by blast
  next
    case False
    with run lr l(1) show ?thesis
      by (auto simp: command_head_def conn_at_def command_key_def split: option.splits prod.splits)
  qed
  then show "kept m fl m'" and "out = None \<Longrightarrow> mg_connections m' (command_key c) \<noteq> None" by auto
qed

lemma unlock_after_head_ok:
  assumes ok: "conns_ok m fl" and c: "valid_command c"
    and free: "gate_free m (command_key c) \<or>
      (\<exists>s. mg_connections m (command_key c) = Some s \<and> cn_lock_waiters s \<noteq> 0)"
    and run: "unlock_after_head io io1 io2 clock lease_id v c m = (out, m')"
  shows "kept m fl m'"
proof (cases "mg_connections m (command_key c)")
  case None
  with run kept_refl [OF ok] show ?thesis by (simp add: unlock_after_head_def conn_at_def command_key_def)
next
  case (Some s)
  show ?thesis
  proof (cases "cn_lock_waiters s = 0")
    case False
    with run Some have "persist_command_rejection io (clock 0) c ErrLockPending m = (out, m')"
      by (simp add: unlock_after_head_def conn_at_def command_key_def)
    from persist_rejection_ok [OF ok c _ this] show ?thesis by (simp add: kept_def)
  next
    case True
    note base = conns_okD [OF ok Some]
    have ids: "conn_ids s = (cm_connection_id c, cm_generation c)"
      by (rule conn_ids_at [OF ok _ command_plain [OF c]]) (use Some in \<open>simp add: command_key_def\<close>)
    show ?thesis
    proof (rule kept_section [OF ok Some])
      show "cn_gate s" using free True Some by (auto simp: gate_free_def)
      show "with_conn (command_key c) s (unlock_gated io1 io2 clock lease_id v c) m = (out, m')"
        using run Some True by (simp add: unlock_after_head_def conn_at_def command_key_def)
    qed (rule unlock_gated_step [OF base(1,3) ids c])
  qed
qed

lemma get_snapshot_ok:
  assumes ok: "conns_ok m fl" and free: "gate_free m (generation_key c g)"
    and run: "get_snapshot io clock c g m = (res, m')"
  shows "kept m fl m'"
proof (cases "conn_at m c g")
  case None
  with run kept_refl [OF ok] show ?thesis by (simp add: get_snapshot_def)
next
  case (Some s)
  then have s: "mg_connections m (generation_key c g) = Some s" by (simp add: conn_at_def)
  note base = conns_okD [OF ok s]
  show ?thesis
  proof (cases "lease_expired_at (ps_mode (cn_snapshot s)) (cn_lease s) (clock 0)")
    case False
    with run Some kept_refl [OF ok] show ?thesis by (simp add: get_snapshot_def)
  next
    case True
    show ?thesis
    proof (rule kept_section [OF ok s gate_free_conn [OF free s]])
      show "with_conn (generation_key c g) s (\<lambda>gs.
            case reconcile_expired_lease io (clock 1) gs of
              (Inl e, gs) \<Rightarrow> (Inl e, gs)
            | (Inr (snapshot, _), gs) \<Rightarrow> (Inr snapshot, gs)) m = (res, m')"
        using run Some True by (simp add: get_snapshot_def)
    next
      fix r s' d'
      assume f: "(case reconcile_expired_lease io (clock 1) (s, mg_db m) of
              (Inl e, gs) \<Rightarrow> (Inl e, gs)
            | (Inr (snapshot, _), gs) \<Rightarrow> (Inr snapshot, gs)) = (r, (s', d'))"
      then obtain res0 where "reconcile_expired_lease io (clock 1) (s, mg_db m) = (res0, (s', d'))"
        by (auto split: sum.splits prod.splits)
      from reconcile_cases(1) [OF base(1,3) this] show "gated_step (s, mg_db m) (s', d')" .
    qed
  qed
qed

lemma grant_binding_ok:
  assumes ok: "conns_ok m fl" and free: "gate_free m (generation_key c g)"
    and issue: "\<And>b snap d r d'. issue b snap d = (r, d') \<Longrightarrow> foreign d d'"
    and run: "with_grant_binding io clock c g issue m = (res, m')"
  shows "kept m fl m'"
proof (cases "\<exists>s. conn_at m c g = Some s \<and> cn_lock_waiters s = 0")
  case False
  with run kept_refl [OF ok] show ?thesis by (auto simp: with_grant_binding_def split: option.splits if_splits)
next
  case True
  then obtain s where at: "conn_at m c g = Some s" "cn_lock_waiters s = 0" by blast
  then have s: "mg_connections m (generation_key c g) = Some s" by (simp add: conn_at_def)
  note base = conns_okD [OF ok s]
  let ?f = "grant_gated io clock c g issue"
  show ?thesis
  proof (rule kept_section [OF ok s gate_free_conn [OF free s]])
    show "with_conn (generation_key c g) s ?f m = (res, m')"
      using run at by (simp add: with_grant_binding_def)
  next
    fix r s' d'
    assume f: "?f (s, mg_db m) = (r, (s', d'))"
    obtain out s0 d0 where gl: "grant_loop 2 io clock c g (s, mg_db m) = (out, (s0, d0))"
      by (metis prod.exhaust)
    with grant_loop_step [OF base(1,3)] have step: "gated_step (s, mg_db m) (s0, d0)" by blast
    have "s' = s0 \<and> (d' = d0 \<or> (\<exists>b snap x. issue b snap d0 = (x, d')))"
      using f gl by (auto simp: grant_gated_def split: option.splits prod.splits)
    with gated_step_foreign [OF step] step issue show "gated_step (s, mg_db m) (s', d')" by auto
  qed
qed

lemma with_authorized_gate_unfold:
  "with_authorized_gate io clock b commit m =
     (case dispatch_enter b m of
        Inl e \<Rightarrow> (Inl e, m)
      | Inr s \<Rightarrow>
          with_conn (generation_key (db_connection_id b) (db_connection_generation b)) s (\<lambda>gs.
            case authorize_gated io clock b gs of
              (Inl e, gs) \<Rightarrow> (Inl e, gs)
            | (Inr _, (s, d)) \<Rightarrow> (case commit d of (r, d) \<Rightarrow> (r, (s, d)))) m)"
  by (simp add: with_authorized_gate_def authorized_callback_def with_conn_def split: sum.splits prod.splits)

lemma authorized_gate_ok:
  assumes ok: "conns_ok m fl"
    and free: "gate_free m (generation_key (db_connection_id b) (db_connection_generation b))"
    and commit: "\<And>d r d'. commit d = (r, d') \<Longrightarrow> foreign d d'"
    and run: "with_authorized_gate io clock b commit m = (res, m')"
  shows "kept m fl m'"
proof (cases "dispatch_enter b m")
  case (Inl e)
  with run kept_refl [OF ok] show ?thesis by (simp add: with_authorized_gate_unfold)
next
  case (Inr s)
  let ?key = "generation_key (db_connection_id b) (db_connection_generation b)"
  from Inr have s: "mg_connections m ?key = Some s"
    by (simp add: dispatch_enter_def conn_at_def split: option.splits if_splits)
  note base = conns_okD [OF ok s]
  let ?f = "\<lambda>gs. case authorize_gated io clock b gs of
              (Inl e, gs) \<Rightarrow> (Inl e, gs)
            | (Inr _, (s, d)) \<Rightarrow> (case commit d of (r, d) \<Rightarrow> (r, (s, d)))"
  show ?thesis
  proof (rule kept_section [OF ok s gate_free_conn [OF free s]])
    show "with_conn ?key s ?f m = (res, m')"
      using run Inr by (simp add: with_authorized_gate_unfold)
  next
    fix r s' d'
    assume f: "?f (s, mg_db m) = (r, (s', d'))"
    obtain out s0 d0 where ag: "authorize_gated io clock b (s, mg_db m) = (out, (s0, d0))"
      by (metis prod.exhaust)
    have step: "gated_step (s, mg_db m) (s0, d0)" by (rule authorize_gated_step(1) [OF base(1,3) ag])
    have "s' = s0 \<and> (d' = d0 \<or> (\<exists>x. commit d0 = (x, d')))"
      using f ag by (auto split: sum.splits prod.splits)
    with gated_step_foreign [OF step] step commit show "gated_step (s, mg_db m) (s', d')" by auto
  qed
qed

text \<open>Accepting and committing a lock or a close.\<close>

lemma conns_ok_accept:
  assumes ok: "conns_ok m fl"
  shows "conns_ok (lock_accept key m) fl"
proof -
  have "conn_ids (mark_lock_pending s) = conn_ids s" "conn_ok d (mark_lock_pending s) = conn_ok d s"
    "cn_gate (mark_lock_pending s) = cn_gate s" "current_binding b (mark_lock_pending s) = current_binding b s" for s d b
    by (simp_all add: mark_lock_pending_def conn_ids_def conn_ok_def row_agrees_def lease_ok_def
        current_binding_def split: option.splits)
  with ok show ?thesis by (auto simp: conns_ok_def lock_accept_def split: if_splits)
qed

lemma waiting_on_Cons [simp]:
  "waiting_on key (p # cs) = (if pending_on p = Some key then 1 else 0) + waiting_on key cs"
  by (simp add: waiting_on_def)

lemma waiting_on_remove1:
  "p \<in> set cs \<Longrightarrow> waiting_on key (remove1 p cs) = waiting_on key cs - (if pending_on p = Some key then 1 else 0)"
proof -
  assume "p \<in> set cs"
  moreover have "filter (\<lambda>p. pending_on p = Some key) (remove1 p cs) =
      remove1 p (filter (\<lambda>p. pending_on p = Some key) cs)" by (simp add: filter_remove1)
  ultimately show ?thesis by (simp add: waiting_on_def length_remove1 remove1_idem)
qed


lemma caller_ok_dom:
  "caller_ok m p \<Longrightarrow> (\<And>key. mg_connections m key \<noteq> None \<Longrightarrow> mg_connections m' key \<noteq> None) \<Longrightarrow> caller_ok m' p"
  by (cases p) auto

lemma waiters_ok_accept:
  assumes ok: "waiters_ok m cs" and p: "pending_on p = Some key" "caller_ok m p"
  shows "waiters_ok (lock_accept key m) (p # cs)"
proof -
  have "caller_ok (lock_accept key m) x" if "x \<in> set (p # cs)" for x
    by (rule caller_ok_dom [of m]) (use that assms in \<open>auto simp: waiters_ok_def lock_accept_def\<close>)
  moreover have "cn_lock_waiters s = waiting_on k (p # cs)" if "mg_connections (lock_accept key m) k = Some s" for k s
    using that assms by (auto simp: waiters_ok_def lock_accept_def mark_lock_pending_def split: if_splits)
  ultimately show ?thesis by (simp add: waiters_ok_def)
qed

lemma waiters_ok_drop:
  assumes "waiters_ok m cs" and "pending_on p = None"
  shows "waiters_ok m (remove1 p cs)"
proof -
  have "waiting_on key (remove1 p cs) = waiting_on key cs" for key
    using assms(2) waiting_on_remove1 [of p cs key] by (cases "p \<in> set cs") (auto simp: remove1_idem)
  with assms(1) show ?thesis by (auto simp: waiters_ok_def dest: notin_set_remove1)
qed

lemma commit_ok:
  assumes ok: "conns_ok m fl" "waiters_ok m cs" and p: "p \<in> set cs" "pending_on p = Some key"
    and s: "mg_connections m key = Some s" "cn_gate s"
    and f: "f (s, mg_db m) = (r, (s', d'))" "gated_step (s, mg_db m) (s', d')"
    and m': "m' = m\<lparr>mg_db := d', mg_connections := (mg_connections m)(key \<mapsto> finish_lock_pending s')\<rparr>"
  shows "conns_ok m' fl" and "waiters_ok m' (remove1 p cs)" and "advances m m'"
proof -
  show "advances m m'"
    using gated_step_advances [OF f(2)] s(1) m' by (intro advances_upd) (simp_all add: finish_lock_pending_def)
  show "conns_ok m' fl"
    using conns_ok_put [OF ok(1) s f(2), of "cn_lock_waiters s' - 1"] m' by (simp add: finish_lock_pending_def)
  have w: "cn_lock_waiters s' = waiting_on key cs"
    using f(2) ok(2) s by (auto simp: gated_step_def same_identity_def waiters_ok_def)
  have "caller_ok m' x" if "x \<in> set cs" for x
    by (rule caller_ok_dom [of m]) (use that ok(2) m' in \<open>auto simp: waiters_ok_def\<close>)
  moreover have "cn_lock_waiters x = waiting_on k (remove1 p cs)" if "mg_connections m' k = Some x" for k x
    using that ok(2) w p m' by (auto simp: waiters_ok_def waiting_on_remove1 finish_lock_pending_def split: if_splits)
  ultimately show "waiters_ok m' (remove1 p cs)" by (auto simp: waiters_ok_def dest: notin_set_remove1)
qed

lemma lock_commit_ok:
  assumes ok: "conns_ok m fl" "waiters_ok m cs" and p: "LockPending c \<in> set cs"
    and s: "mg_connections m (command_key c) = Some s" "cn_gate s"
    and run: "lock_commit io now c s m = (out, m')"
  shows "conns_ok m' fl" and "waiters_ok m' (remove1 (LockPending c) cs)" and "advances m m'"
proof -
  note base = conns_okD [OF ok(1) s(1)]
  have c: "valid_command c" using ok(2) p by (auto simp: waiters_ok_def)
  have ids: "conn_ids s = (cm_connection_id c, cm_generation c)"
    by (rule conn_ids_at [OF ok(1) _ command_plain [OF c]]) (use s in \<open>simp add: command_key_def\<close>)
  obtain r s' d' where f: "lock_gated io now c (s, mg_db m) = (r, (s', d'))" by (metis prod.exhaust)
  have step: "gated_step (s, mg_db m) (s', d')" by (rule lock_gated_step [OF base(1,3) ids c base(2) f])
  have m': "m' = m\<lparr>mg_db := d', mg_connections := (mg_connections m)(command_key c \<mapsto> finish_lock_pending s')\<rparr>"
    using run f by (simp add: lock_commit_def with_conn_def command_key_def)
  from commit_ok [where f = "lock_gated io now c", OF ok p _ s f step m']
  show "conns_ok m' fl" "waiters_ok m' (remove1 (LockPending c) cs)" "advances m m'" by simp_all
qed

lemma close_commit_ok:
  assumes ok: "conns_ok m fl" "waiters_ok m cs" and p: "ClosePending c g \<in> set cs"
    and s: "conn_at m c g = Some s" "cn_gate s"
    and run: "close_commit io now c g s m = (out, m')"
  shows "conns_ok m' fl" and "waiters_ok m' (remove1 (ClosePending c g) cs)" and "advances m m'"
proof -
  have at: "mg_connections m (generation_key c g) = Some s" using s(1) by (simp add: conn_at_def)
  note base = conns_okD [OF ok(1) at]
  have g: "plain_generation g" using ok(2) p by (auto simp: waiters_ok_def)
  have ids: "conn_ids s = (c, g)" by (rule conn_ids_at [OF ok(1) at g])
  obtain r s' d' where f: "close_gated io now c g (s, mg_db m) = (r, (s', d'))" by (metis prod.exhaust)
  have step: "gated_step (s, mg_db m) (s', d')" by (rule close_gated_step(1) [OF base(1,3) ids f])
  have m': "m' = m\<lparr>mg_db := d', mg_connections := (mg_connections m)(generation_key c g \<mapsto> finish_lock_pending s')\<rparr>"
    using run f by (simp add: close_commit_def with_conn_def)
  from commit_ok [where f = "close_gated io now c g", OF ok p _ at s(2) f step m']
  show "conns_ok m' fl" "waiters_ok m' (remove1 (ClosePending c g) cs)" "advances m m'" by simp_all
qed

section \<open>Registration, purge and recovery\<close>

lemma manager_same_db [simp]: "m\<lparr>mg_db := mg_db m\<rparr> = m"
  by (cases m) simp

lemma register_ok:
  assumes ok: "conns_ok m fl" "waiters_ok m cs"
    and fresh: "\<And>g. canonical_big (rr_connection_generation req) = Some g \<Longrightarrow>
       mg_connections m (generation_key (rr_connection_id req) g) = None"
    and run: "register io now req m = (res, m')"
  shows "conns_ok m' fl \<and> waiters_ok m' cs \<and> advances m m'"
proof -
  have "m' = m \<or> (\<exists>g pr snap row. canonical_big (rr_connection_generation req) = Some g \<and>
      snap = \<lparr>ps_connection_id = rr_connection_id req, ps_connection_generation = g,
                      ps_protection_revision = ''1'', ps_mode = rr_mode req, ps_lease_id = None,
                      ps_unlocked_until = None\<rparr> \<and>
      row = \<lparr>p_connection_id = rr_connection_id req, p_generation = g, p_profile_id = rr_profile_id req,
                p_profile_revision = pr, p_revision = ''1'', p_mode = rr_mode req, p_closed_at = None,
                p_purge_after = None, p_updated_at = now\<rparr> \<and>
      row_at (mg_db m) (row_key row) = None \<and>
      m' = m\<lparr>mg_db := (mg_db m)\<lparr>protection_t := protection_t (mg_db m) @ [row]\<rparr>,
        mg_connections := (mg_connections m) (generation_key (rr_connection_id req) g \<mapsto>
           new_connection_state snap (rr_profile_id req) pr)\<rparr>)"
    using run
    by (auto simp: register_def rbind_def Let_def with_immediate_def tx_insert_def protection_canonical_decimal_def
        has_key_iff split: if_splits sum.splits option.splits)
  then show ?thesis
  proof (elim disjE exE conjE)
    assume "m' = m" with ok show ?thesis by (simp add: advances_refl)
  next
    fix g pr and snap :: protection_snapshot and row :: protection_row
    assume g: "canonical_big (rr_connection_generation req) = Some g"
      and snap: "snap = \<lparr>ps_connection_id = rr_connection_id req, ps_connection_generation = g,
                      ps_protection_revision = ''1'', ps_mode = rr_mode req, ps_lease_id = None,
                      ps_unlocked_until = None\<rparr>"
      and row: "row = \<lparr>p_connection_id = rr_connection_id req, p_generation = g, p_profile_id = rr_profile_id req,
                p_profile_revision = pr, p_revision = ''1'', p_mode = rr_mode req, p_closed_at = None,
                p_purge_after = None, p_updated_at = now\<rparr>"
      and new: "row_at (mg_db m) (row_key row) = None"
      and m': "m' = m\<lparr>mg_db := (mg_db m)\<lparr>protection_t := protection_t (mg_db m) @ [row]\<rparr>,
        mg_connections := (mg_connections m) (generation_key (rr_connection_id req) g \<mapsto>
           new_connection_state snap (rr_profile_id req) pr)\<rparr>"
    let ?key = "generation_key (rr_connection_id req) g" and ?s = "new_connection_state snap (rr_profile_id req) pr"
    have none: "mg_connections m ?key = None" using fresh [OF g] .
    obtain n where n: "g = dec n" using g by (rule canonical_bigE)
    have one: "''1'' = dec 1" by (simp add: dec_literals)
    have rows: "rows_ok (mg_db m')"
      using ok(1) new n one unfolding m' row
      by (auto simp: conns_ok_def rows_ok_def tbl_get_None_iff)
    have at: "row_at (mg_db m') k = (if k = row_key row then Some row else row_at (mg_db m) k)" for k
      using new unfolding m' by (auto simp: table_simps split: option.splits)
    have conn: "conn_ok (mg_db m') ?s"
      using n one at [of "row_key row"]
      by (auto simp: conn_ok_def conn_ids_def new_connection_state_def snap row lease_ok_def row_agrees_def)
    have ids: "conn_ids ?s = row_key row" by (simp add: conn_ids_def new_connection_state_def snap row)
    have old: "conn_ok (mg_db m') x" if x: "mg_connections m k = Some x" for k x
    proof -
      have "conn_ids x \<noteq> row_key row"
      proof
        assume "conn_ids x = row_key row"
        then have "k = ?key" using conns_okD(4) [OF ok(1) x] by (simp add: row)
        with x none show False by simp
      qed
      then show ?thesis using conns_okD(3) [OF ok(1) x] at by (simp add: conn_ok_def)
    qed
    have c: "conns_ok m' fl"
      using ok(1) rows conn old ids none unfolding m'
      by (auto simp: conns_ok_def row new_connection_state_def ledger_ok_def)
    have zero: "waiting_on ?key cs = 0"
    proof (rule ccontr)
      assume "waiting_on ?key cs \<noteq> 0"
      then obtain p where p: "p \<in> set cs" "pending_on p = Some ?key"
        by (auto simp: waiting_on_def filter_empty_conv)
      with ok(2) have "caller_ok m p" by (simp add: waiters_ok_def)
      with p(2) none show False by (cases p) auto
    qed
    have "caller_ok m' p" if "p \<in> set cs" for p
      by (rule caller_ok_dom [of m]) (use that ok(2) in \<open>auto simp: waiters_ok_def m'\<close>)
    with ok(2) zero have "waiters_ok m' cs" unfolding m' by (auto simp: waiters_ok_def new_connection_state_def)
    moreover have "advances m m'" using none unfolding m' by (auto simp: advances_def intro: conn_advances_refl)
    ultimately show ?thesis using c by simp
  qed
qed

lemma purge_keys_result:
  "purge_keys ks d = Inr (n, d') \<Longrightarrow>
     protection_t d' = filter (\<lambda>r. row_key r \<notin> set ks) (protection_t d) \<and>
     set (protection_ledger_t d') \<subseteq> set (protection_ledger_t d)"
proof (induction ks arbitrary: d n)
  case Nil
  then show ?case by (auto simp: tx_simps)
next
  case (Cons k ks)
  let ?d1 = "d\<lparr>protection_ledger_t := filter (\<lambda>r. (pl_connection_id r, pl_generation r) \<noteq> k) (protection_ledger_t d),
    protection_t := filter (\<lambda>r. row_key r \<noteq> k) (protection_t d)\<rparr>"
  from Cons.prems obtain n1 where "purge_keys ks ?d1 = Inr (n1, d')" by (auto simp: tx_simps)
  then obtain d1 where d1: "protection_t d1 = filter (\<lambda>r. row_key r \<noteq> k) (protection_t d)"
    "set (protection_ledger_t d1) \<subseteq> set (protection_ledger_t d)" "purge_keys ks d1 = Inr (n1, d')"
    by (intro that [of ?d1]) auto
  from Cons.IH [OF d1(3)] d1(1,2) show ?case by (auto intro: filter_cong)
qed

lemma purge_closed_ok:
  assumes ok: "conns_ok m fl" and run: "purge_closed io now m = (res, m')"
  shows "kept m fl m'"
proof -
  let ?d = "mg_db m"
  let ?ks = "map row_key (filter (purge_due now) (protection_t ?d))"
  consider "m' = m" | n d' where "purge_keys ?ks ?d = Inr (n, d')" "m' = m\<lparr>mg_db := d'\<rparr>"
    using run by (auto simp: purge_closed_def with_immediate_def tx_simps tx_bind_def split: sum.splits if_splits)
  then show ?thesis
  proof cases
    case 1
    with kept_refl [OF ok] show ?thesis by simp
  next
    case 2
    from purge_keys_result [OF 2(1)]
    have rows: "protection_t d' = filter (\<lambda>r. row_key r \<notin> set ?ks) (protection_t ?d)"
      and ledger: "set (protection_ledger_t d') \<subseteq> set (protection_ledger_t ?d)" by auto
    have dist: "distinct (map row_key (protection_t ?d))" using ok by (simp add: conns_ok_def rows_ok_def)
    have "rows_ok d'"
      using ok distinct_map_filter [OF dist] unfolding rows_ok_def rows by (auto simp: conns_ok_def rows_ok_def)
    moreover have "ledger_ok d'" using ok ledger by (auto simp: conns_ok_def ledger_ok_def)
    moreover have "conn_ok d' s" if s: "mg_connections m key = Some s" for key s
    proof -
      note c = conns_okD(3) [OF ok s]
      show ?thesis
      proof (cases "row_at d' (conn_ids s)")
        case (Some r)
        then have "r \<in> set (protection_t ?d)" "row_key r = conn_ids s"
          using tbl_get_SomeD [OF Some] by (auto simp: rows)
        then have "row_at ?d (conn_ids s) = Some r" using tbl_get_unique [OF dist] by metis
        with Some c show ?thesis by (simp add: conn_ok_def)
      next
        case None
        have "cn_closed s"
        proof (cases "row_at ?d (conn_ids s)")
          case (Some r)
          have r: "r \<in> set (protection_t ?d)" "row_key r = conn_ids s" using tbl_get_SomeD [OF Some] by auto
          have "conn_ids s \<in> set ?ks"
          proof (rule ccontr)
            assume "conn_ids s \<notin> set ?ks"
            with r have "r \<in> set (protection_t d')" by (simp add: rows)
            then have "row_key r \<in> row_key ` set (protection_t d')" by (rule imageI)
            with None show False unfolding tbl_get_None_iff r(2) [symmetric] by blast
          qed
          with key_in_filter [OF dist Some] have "purge_due now r" by blast
          then have "p_purge_after r \<noteq> None" by (simp add: purge_due_def split: option.splits)
          with ok r(1) have "p_closed_at r \<noteq> None" by (simp add: conns_ok_def rows_ok_def)
          with conn_ok_row [OF c Some] show ?thesis by (simp add: row_agrees_def)
        qed (use c in \<open>simp add: conn_ok_def\<close>)
        with None c show ?thesis by (auto simp: conn_ok_def lease_ok_def)
      qed
    qed
    ultimately have "conns_ok m' fl" using ok 2(2) by (auto simp: conns_ok_def)
    then show ?thesis using 2(2) by (simp add: kept_def same_waiters_db advances_refl)
  qed
qed

text \<open>\<open>Recover\<close>, row by row: what each open row becomes.\<close>

definition relocked_row :: "protection_row \<Rightarrow> protection_row \<Rightarrow> bool" where
  "relocked_row r r' \<longleftrightarrow>
     (if p_mode r = ProtectedUnlocked
      then \<exists>n now. p_revision r = dec n \<and> r' = advance (dec (Suc n)) ProtectedLocked now r
      else r' = r)"

lemma relocked_row_fields:
  assumes "relocked_row r r'"
  shows "row_key r' = row_key r" "p_mode r' \<noteq> ProtectedUnlocked" "p_closed_at r' = p_closed_at r"
    "p_profile_id r' = p_profile_id r" "p_profile_revision r' = p_profile_revision r"
  using assms by (auto simp: relocked_row_def advance_def split: if_splits)

lemma recover_row_result:
  assumes rows: "rows_ok d" and r: "row_at d (row_key r) = Some r"
    and run: "recover_row io now r d = (res, d')"
  shows "rows_ok d'" and "protection_ledger_t d' = protection_ledger_t d"
    and "\<And>k. k \<noteq> row_key r \<Longrightarrow> row_at d' k = row_at d k"
    and "\<And>snap. res = Inr snap \<Longrightarrow>
      \<exists>r'. row_at d' (row_key r) = Some r' \<and> relocked_row r r' \<and> snap = snapshot_of_row r'"
proof -
  obtain n where n: "p_revision r = dec n" using row_revision [OF rows r] .
  let ?f = "advance (dec (Suc n)) ProtectedLocked now"
  consider "d' = d" "p_mode r \<noteq> ProtectedUnlocked" "res = Inr (snapshot_of_row r)" | e where "d' = d" "res = Inl e"
    | "p_mode r = ProtectedUnlocked" "res = Inr (locked_snapshot r (Suc n))"
      "protection_t d' = put_row (row_key r) ?f d" "protection_ledger_t d' = protection_ledger_t d"
    using run n
    by (auto simp: recover_row_def Let_def with_immediate_def recover_row_tx_def write_snapshot_tx_def
        insert_protection_event_def tx_run put_row_def advance_def [abs_def] locked_snapshot_def [symmetric]
        split: if_splits)
  then have "rows_ok d' \<and> protection_ledger_t d' = protection_ledger_t d \<and>
      (\<forall>k. k \<noteq> row_key r \<longrightarrow> row_at d' k = row_at d k) \<and> (\<forall>snap. res = Inr snap \<longrightarrow>
      (\<exists>r'. row_at d' (row_key r) = Some r' \<and> relocked_row r r' \<and> snap = snapshot_of_row r'))"
  proof cases
    case 1
    with rows r show ?thesis by (simp add: relocked_row_def)
  next
    case 2
    with rows show ?thesis by simp
  next
    case 3
    note at = row_at_put [OF advance_keeps 3(3)]
    have "rows_ok d'"
    proof (rule rows_ok_put [OF rows advance_keeps 3(3)])
      fix x assume "x \<in> set (protection_t d)" and "row_key x = row_key r"
      then show "(\<exists>n. p_revision (?f x) = dec n) \<and>
          (p_purge_after (?f x) \<noteq> None \<longrightarrow> p_closed_at (?f x) \<noteq> None)"
        using rows by (auto simp: rows_ok_def)
    qed
    moreover have "row_at d' (row_key r) = Some (?f r)" using at [of "row_key r"] r by simp
    moreover have "relocked_row r (?f r)" using 3(1) n by (auto simp: relocked_row_def)
    moreover have "locked_snapshot r (Suc n) = snapshot_of_row (?f r)"
      by (simp add: locked_snapshot_def snapshot_of_row_def advance_def)
    ultimately show ?thesis using at 3(2,4) by auto
  qed
  then show "rows_ok d'" and "protection_ledger_t d' = protection_ledger_t d"
    and "\<And>k. k \<noteq> row_key r \<Longrightarrow> row_at d' k = row_at d k"
    and "\<And>snap. res = Inr snap \<Longrightarrow>
      \<exists>r'. row_at d' (row_key r) = Some r' \<and> relocked_row r r' \<and> snap = snapshot_of_row r'"
    by blast+
qed

lemma recover_rows_result:
  assumes "rows_ok d" and "distinct (map row_key rs)" and "\<And>r. r \<in> set rs \<Longrightarrow> row_at d (row_key r) = Some r"
    and "recover_rows io clock rs d = (res, d')"
  shows "rows_ok d' \<and> protection_ledger_t d' = protection_ledger_t d \<and>
    (\<forall>k. k \<notin> row_key ` set rs \<longrightarrow> row_at d' k = row_at d k) \<and>
    (\<forall>items. res = Inr items \<longrightarrow> map fst items = rs \<and> (\<forall>(r, snap)\<in>set items.
       \<exists>r'. row_at d' (row_key r) = Some r' \<and> relocked_row r r' \<and> snap = snapshot_of_row r'))"
  using assms
proof (induction rs arbitrary: io clock d res d')
  case Nil
  then show ?case by auto
next
  case (Cons r rs)
  obtain res1 d1 where one: "recover_row (io 0) (clock 0) r d = (res1, d1)" by (metis prod.exhaust)
  have "row_at d (row_key r) = Some r" by (rule Cons.prems(3)) simp
  note step = recover_row_result [OF Cons.prems(1) this one]
  have key: "row_key r \<notin> row_key ` set rs" using Cons.prems(2) by auto
  show ?case
  proof (cases res1)
    case (Inl e)
    with Cons.prems(4) one have "res = Inl e" "d' = d1" by (auto split: prod.splits)
    have others: "\<forall>k. k \<notin> row_key ` set (r # rs) \<longrightarrow> row_at d' k = row_at d k"
    proof (intro allI impI)
      fix k assume "k \<notin> row_key ` set (r # rs)"
      then have "k \<noteq> row_key r" unfolding list.set(2) image_insert insert_iff by blast
      from step(3) [OF this] show "row_at d' k = row_at d k" unfolding \<open>d' = d1\<close> .
    qed
    from \<open>res = Inl e\<close> \<open>d' = d1\<close> step(1,2) show ?thesis
      by (intro conjI others) simp_all
  next
    case (Inr snap)
    obtain res2 d2 where two: "recover_rows (\<lambda>i. io (Suc i)) (\<lambda>i. clock (Suc i)) rs d1 = (res2, d2)"
      by (metis prod.exhaust)
    have "row_at d1 (row_key x) = Some x" if "x \<in> set rs" for x
    proof -
      have "row_key x \<in> row_key ` set rs" using that by (rule imageI)
      with key have "row_key x \<noteq> row_key r" by metis
      from step(3) [OF this] have "row_at d1 (row_key x) = row_at d (row_key x)" .
      also have "\<dots> = Some x" by (rule Cons.prems(3)) (simp add: that)
      finally show ?thesis .
    qed
    from Cons.IH [OF step(1) _ this two] Cons.prems(2)
    have IH: "rows_ok d2" "protection_ledger_t d2 = protection_ledger_t d1"
      "\<And>k. k \<notin> row_key ` set rs \<Longrightarrow> row_at d2 k = row_at d1 k"
      "\<And>items. res2 = Inr items \<Longrightarrow> map fst items = rs \<and> (\<forall>(r, snap)\<in>set items.
       \<exists>r'. row_at d2 (row_key r) = Some r' \<and> relocked_row r r' \<and> snap = snapshot_of_row r')"
      by auto
    have d': "d' = d2" "res = (case res2 of Inl e \<Rightarrow> Inl e | Inr items \<Rightarrow> Inr ((r, snap) # items))"
      using Cons.prems(4) one two Inr by (auto split: sum.splits)
    obtain r' where r': "row_at d1 (row_key r) = Some r'" "relocked_row r r'" "snap = snapshot_of_row r'"
      using step(4) [OF Inr] by blast
    have "row_at d2 (row_key r) = Some r'" using IH(3) [OF key] r'(1) by simp
    then have first: "\<exists>r'. row_at d' (row_key r) = Some r' \<and> relocked_row r r' \<and> snap = snapshot_of_row r'"
      using d'(1) r'(2,3) by blast
    have others: "\<forall>k. k \<notin> row_key ` set (r # rs) \<longrightarrow> row_at d' k = row_at d k"
    proof (intro allI impI)
      fix k assume "k \<notin> row_key ` set (r # rs)"
      then have "k \<notin> row_key ` set rs" "k \<noteq> row_key r" unfolding list.set(2) image_insert insert_iff by blast+
      from IH(3) [OF this(1)] step(3) [OF this(2)] show "row_at d' k = row_at d k" unfolding d'(1) by (rule trans)
    qed
    have items: "map fst items = r # rs \<and> (\<forall>(r, snap)\<in>set items.
       \<exists>r'. row_at d' (row_key r) = Some r' \<and> relocked_row r r' \<and> snap = snapshot_of_row r')"
      if "res = Inr items" for items
    proof -
      have "\<exists>items2. res2 = Inr items2 \<and> items = (r, snap) # items2"
        using that d'(2) by (simp split: sum.splits)
      then obtain items2 where i: "res2 = Inr items2" "items = (r, snap) # items2" by blast
      from IH(4) [OF i(1)] first show ?thesis unfolding i(2) d'(1) by simp
    qed
    have "rows_ok d'" "protection_ledger_t d' = protection_ledger_t d" using IH(1,2) step(2) d'(1) by simp_all
    with others items show ?thesis by blast
  qed
qed

definition recovered_conn :: "protection_row \<times> protection_snapshot \<Rightarrow> string \<times> conn_state" where
  "recovered_conn = (\<lambda>(r, snapshot). (generation_key (p_connection_id r) (p_generation r),
     new_connection_state snapshot (p_profile_id r) (p_profile_revision r)))"

lemma fold_upd_result:
  "fold (\<lambda>x cs. cs(f x \<mapsto> g x)) xs cs key = Some s \<Longrightarrow> cs key = Some s \<or> (\<exists>x\<in>set xs. key = f x \<and> s = g x)"
  by (induction xs arbitrary: cs) (force split: if_splits)+

lemma fold_upd_dom:
  "x \<in> set xs \<or> cs (f x) \<noteq> None \<Longrightarrow> fold (\<lambda>x cs. cs(f x \<mapsto> g x)) xs cs (f x) \<noteq> None"
  by (induction xs arbitrary: cs) auto

text \<open>What a successful recovery leaves: every open row locked, and one fresh connection for it.\<close>

lemma recover_result:
  assumes rows: "rows_ok d"
    and run: "recover io clock \<lparr>mg_db = d, mg_connections = (\<lambda>_. None)\<rparr> = (Inr (), m)"
  shows "rows_ok (mg_db m)" and "protection_ledger_t (mg_db m) = protection_ledger_t d"
    and "\<And>key s. mg_connections m key = Some s \<Longrightarrow> \<exists>r r' snap. r \<in> set (active_rows d) \<and>
      row_at (mg_db m) (row_key r) = Some r' \<and> relocked_row r r' \<and> snap = snapshot_of_row r' \<and>
      (key, s) = recovered_conn (r, snap)"
    and "\<And>r. r \<in> set (active_rows d) \<Longrightarrow>
      \<exists>r' s. row_at (mg_db m) (row_key r) = Some r' \<and> relocked_row r r' \<and>
        conn_at m (p_connection_id r) (p_generation r) = Some s"
proof -
  obtain res d' where rr: "recover_rows io clock (active_rows d) d = (res, d')" by (metis prod.exhaust)
  obtain items where items: "res = Inr items" "mg_db m = d'" "mg_connections m =
      fold (\<lambda>x cs. cs(fst (recovered_conn x) \<mapsto> snd (recovered_conn x))) items (\<lambda>_. None)"
    using run rr by (auto simp: recover_def recovered_conn_def case_prod_unfold split: sum.splits)
  have dist: "distinct (map row_key (active_rows d))"
    using rows unfolding rows_ok_def active_rows_def by (auto intro: distinct_map_filter)
  have at: "row_at d (row_key r) = Some r" if "r \<in> set (active_rows d)" for r
    by (rule tbl_get_unique) (use that rows in \<open>auto simp: rows_ok_def active_rows_def\<close>)
  from recover_rows_result [OF rows dist at rr] items(1)
  have res: "rows_ok d'" "protection_ledger_t d' = protection_ledger_t d" "map fst items = active_rows d"
    "\<And>r snap. (r, snap) \<in> set items \<Longrightarrow>
       \<exists>r'. row_at d' (row_key r) = Some r' \<and> relocked_row r r' \<and> snap = snapshot_of_row r'"
    by blast+
  show "rows_ok (mg_db m)" "protection_ledger_t (mg_db m) = protection_ledger_t d"
    using res items(2) by simp_all
  {
    fix key s assume "mg_connections m key = Some s"
    then obtain r snap where "(r, snap) \<in> set items" "(key, s) = recovered_conn (r, snap)"
      unfolding items(3) by (force dest!: fold_upd_result)
    moreover from this(1) have "r \<in> set (active_rows d)" unfolding res(3) [symmetric] by force
    ultimately show "\<exists>r r' snap. r \<in> set (active_rows d) \<and>
      row_at (mg_db m) (row_key r) = Some r' \<and> relocked_row r r' \<and> snap = snapshot_of_row r' \<and>
      (key, s) = recovered_conn (r, snap)" unfolding items(2) using res(4) by blast
  }
  {
    fix r assume "r \<in> set (active_rows d)"
    then obtain snap where i: "(r, snap) \<in> set items" unfolding res(3) [symmetric] by auto
    have "mg_connections m (fst (recovered_conn (r, snap))) \<noteq> None"
      unfolding items(3) using i by (intro fold_upd_dom) simp
    then have "\<exists>s. conn_at m (p_connection_id r) (p_generation r) = Some s"
      by (auto simp: recovered_conn_def conn_at_def)
    with res(4) [OF i] show "\<exists>r' s. row_at (mg_db m) (row_key r) = Some r' \<and> relocked_row r r' \<and>
        conn_at m (p_connection_id r) (p_generation r) = Some s" unfolding items(2) by blast
  }
qed

lemma prot_start_inv: "prot_start y \<Longrightarrow> prot_inv y"
proof -
  assume start: "prot_start y"
  then obtain io clock d where d: "rows_ok d" "ledger_ok d"
    and run: "recover io clock \<lparr>mg_db = d, mg_connections = (\<lambda>_. None)\<rparr> = (Inr (), py_mgr y)"
    and y: "py_callers y = []" "py_in_flight y = (\<lambda>_. None)" by (auto simp: prot_start_def)
  note rec = recover_result [OF d(1) run]
  have conn: "key = generation_key (fst (conn_ids s)) (snd (conn_ids s)) \<and> conn_ok (mg_db (py_mgr y)) s \<and>
      cn_gate s \<and> cn_lock_waiters s = 0"
    if s: "mg_connections (py_mgr y) key = Some s" for key s
  proof -
    from rec(3) [OF s] obtain r r' snap where r: "r \<in> set (active_rows d)"
      "row_at (mg_db (py_mgr y)) (row_key r) = Some r'" "relocked_row r r'" "snap = snapshot_of_row r'"
      "(key, s) = recovered_conn (r, snap)" by blast
    note f = relocked_row_fields [OF r(3)]
    have s': "s = new_connection_state snap (p_profile_id r) (p_profile_revision r)"
      "key = generation_key (p_connection_id r) (p_generation r)"
      using r(5) by (simp_all add: recovered_conn_def)
    have ids: "conn_ids s = row_key r" using f(1) by (simp add: s' r(4) conn_ids_def new_connection_state_def)
    obtain n where n: "p_revision r' = dec n" using row_revision [OF rec(1) r(2)] .
    have g: "\<exists>g. p_generation r = dec g" using r(1) d(1) by (auto simp: rows_ok_def active_rows_def)
    have "row_agrees s r'"
      using f r(1) by (simp add: row_agrees_def s' r(4) new_connection_state_def active_rows_def)
    moreover have "lease_ok s" by (simp add: s' new_connection_state_def lease_ok_def)
    moreover have "ps_protection_revision (cn_snapshot s) = dec n" using n by (simp add: s' r(4) new_connection_state_def)
    ultimately have "conn_ok (mg_db (py_mgr y)) s" using g r(2) ids by (auto simp: conn_ok_def)
    with ids s' show ?thesis by (simp add: new_connection_state_def)
  qed
  have "ledger_ok (mg_db (py_mgr y))" using d(2) rec(2) by (simp add: ledger_ok_def)
  with conn rec(1) y show ?thesis by (auto simp: prot_inv_def conns_ok_def waiters_ok_def waiting_on_def)
qed

section \<open>Every step keeps the invariant\<close>

lemma set_gate_at:
  "mg_connections (set_gate b key m) k =
     (if k = key then map_option (\<lambda>s. s\<lparr>cn_gate := b\<rparr>) (mg_connections m key) else mg_connections m k)"
  "mg_db (set_gate b key m) = mg_db m"
  by (simp_all add: set_gate_def)

lemma set_gate_keeps: "same_waiters m (set_gate b key m)" "advances m (set_gate b key m)"
  by (auto simp: same_waiters_def advances_def set_gate_at option.map_comp comp_def intro: conn_advances_refl)

lemma conns_ok_gate:
  assumes ok: "conns_ok m fl" and s: "mg_connections m key = Some s"
    and b: "\<And>x. fl' key = Some x \<Longrightarrow> current_binding x s" "\<And>k. k \<noteq> key \<Longrightarrow> fl' k = fl k"
      "gate \<longleftrightarrow> fl' key = None"
  shows "conns_ok (set_gate gate key m) fl'"
proof -
  have same: "conn_ids (x\<lparr>cn_gate := gate\<rparr>) = conn_ids x" "conn_ok d (x\<lparr>cn_gate := gate\<rparr>) = conn_ok d x"
    "current_binding y (x\<lparr>cn_gate := gate\<rparr>) = current_binding y x" for x d y
    by (simp_all add: conn_ids_def conn_ok_def row_agrees_def lease_ok_def current_binding_def split: option.splits)
  show ?thesis using assms same by (auto simp: conns_ok_def set_gate_at split: if_splits)
qed

lemma accept_keeps: "advances m (lock_accept key m)"
  by (auto simp: advances_def lock_accept_def mark_lock_pending_def intro: conn_advances_refl)

lemma kept_inv:
  "prot_inv y \<Longrightarrow> kept (py_mgr y) (py_in_flight y) m' \<Longrightarrow>
     prot_inv (y\<lparr>py_mgr := m'\<rparr>) \<and> advances (py_mgr y) m'"
  by (auto simp: prot_inv_def kept_def intro: waiters_ok_same)

lemma prot_step_inv: "prot_step y y' \<Longrightarrow> prot_inv y \<Longrightarrow> prot_inv y' \<and> advances (py_mgr y) (py_mgr y')"
proof (induction rule: prot_step.induct)
  case (registers io now req y res m')
  then have ok: "conns_ok (py_mgr y) (py_in_flight y)" "waiters_ok (py_mgr y) (py_callers y)"
    by (simp_all add: prot_inv_def)
  from register_ok [OF ok registers(2,1)] show ?case by (simp add: prot_inv_def)
next
  case (heads c y io clock out m' p v)
  then have ok: "conns_ok (py_mgr y) (py_in_flight y)" "waiters_ok (py_mgr y) (py_callers y)"
    by (simp_all add: prot_inv_def)
  note h = command_head_ok [OF ok(1) heads(1,2,3)]
  have w: "waiters_ok m' (py_callers y)" using h(1) waiters_ok_same [OF _ ok(2)] by (simp add: kept_def)
  have "pending_on p = None" "out = None \<Longrightarrow> caller_ok m' p" using heads(1,4) h(2) by auto
  with w have "waiters_ok m' ((if out = None then [p] else []) @ py_callers y)"
    by (cases out) (simp_all add: waiters_ok_def)
  with h(1) show ?case by (simp add: prot_inv_def kept_def)
next
  case (unlocks v c y io io1 io2 clock lease_id out m')
  then have ok: "conns_ok (py_mgr y) (py_in_flight y)" "waiters_ok (py_mgr y) (py_callers y)"
    by (simp_all add: prot_inv_def)
  have "valid_command c" using ok(2) unlocks(1) by (auto simp: waiters_ok_def)
  note k = unlock_after_head_ok [OF ok(1) this unlocks(2,3)]
  then have "waiters_ok m' (remove1 (UnlockHeaded v c) (py_callers y))"
    using waiters_ok_same [OF _ ok(2)] by (intro waiters_ok_drop) (simp_all add: kept_def)
  with k show ?case by (simp add: prot_inv_def kept_def)
next
  case (accepts c y)
  then have ok: "conns_ok (py_mgr y) (py_in_flight y)" "waiters_ok (py_mgr y) (py_callers y)"
    by (simp_all add: prot_inv_def)
  have "waiters_ok (py_mgr y) (remove1 (LockHeaded c) (py_callers y))" by (rule waiters_ok_drop [OF ok(2)]) simp
  moreover have "caller_ok (py_mgr y) (LockPending c)" using ok(2) accepts(1) by (force simp: waiters_ok_def)
  ultimately have "waiters_ok (lock_accept (command_key c) (py_mgr y))
      (LockPending c # remove1 (LockHeaded c) (py_callers y))" by (intro waiters_ok_accept) simp_all
  with conns_ok_accept [OF ok(1)] accept_keeps show ?case by (simp add: prot_inv_def)
next
  case (locks c y s io now out m')
  then have ok: "conns_ok (py_mgr y) (py_in_flight y)" "waiters_ok (py_mgr y) (py_callers y)"
    by (simp_all add: prot_inv_def)
  from lock_commit_ok [OF ok locks(1-4)] show ?case by (simp add: prot_inv_def)
next
  case (closes g y c s)
  then have ok: "conns_ok (py_mgr y) (py_in_flight y)" "waiters_ok (py_mgr y) (py_callers y)"
    by (simp_all add: prot_inv_def)
  have "waiters_ok (lock_accept (generation_key c g) (py_mgr y)) (ClosePending c g # py_callers y)"
    by (rule waiters_ok_accept [OF ok(2)]) (use closes(1,2) in \<open>simp_all add: conn_at_def\<close>)
  with conns_ok_accept [OF ok(1)] accept_keeps show ?case by (simp add: prot_inv_def)
next
  case (closed c g y s io now res m')
  then have ok: "conns_ok (py_mgr y) (py_in_flight y)" "waiters_ok (py_mgr y) (py_callers y)"
    by (simp_all add: prot_inv_def)
  from close_commit_ok [OF ok closed(1-4)] show ?case by (simp add: prot_inv_def)
next
  case (gets g y c io clock res m')
  then have "kept (py_mgr y) (py_in_flight y) m'" by (intro get_snapshot_ok) (simp_all add: prot_inv_def)
  from kept_inv [OF gets(4) this] show ?case by simp
next
  case (grants g y c issue io clock res m')
  then have "kept (py_mgr y) (py_in_flight y) m'" by (intro grant_binding_ok [OF _ grants(2,3,4)]) (simp_all add: prot_inv_def)
  from kept_inv [OF grants(5) this] show ?case by simp
next
  case (authorizes b y commit io clock res m')
  then have "kept (py_mgr y) (py_in_flight y) m'" by (intro authorized_gate_ok [OF _ authorizes(2,3,4)]) (simp_all add: prot_inv_def)
  from kept_inv [OF authorizes(5) this] show ?case by simp
next
  case (dispatches b y s io clock u s' d' key)
  then have ok: "conns_ok (py_mgr y) (py_in_flight y)" "waiters_ok (py_mgr y) (py_callers y)"
    by (simp_all add: prot_inv_def)
  have s: "mg_connections (py_mgr y) key = Some s"
    using dispatches(2,5) by (simp add: dispatch_enter_def conn_at_def split: option.splits if_splits)
  note base = conns_okD [OF ok(1) s]
  have "current_binding b s" using authorize_gated_step(2) [OF base(1,3) dispatches(4)] by blast
  then have "conns_ok (set_gate False key (py_mgr y)) ((py_in_flight y)(key \<mapsto> b))"
    by (intro conns_ok_gate [OF ok(1) s]) auto
  with set_gate_keeps ok(2) show ?case by (auto simp: prot_inv_def intro: waiters_ok_same)
next
  case (returns y key b)
  then have ok: "conns_ok (py_mgr y) (py_in_flight y)" "waiters_ok (py_mgr y) (py_callers y)"
    by (simp_all add: prot_inv_def)
  obtain s where s: "mg_connections (py_mgr y) key = Some s"
    using ok(1) returns(1) by (cases "mg_connections (py_mgr y) key") (auto simp: conns_ok_def)
  have "conns_ok (set_gate True key (py_mgr y)) ((py_in_flight y)(key := None))"
    by (rule conns_ok_gate [OF ok(1) s]) auto
  with set_gate_keeps ok(2) show ?case by (auto simp: prot_inv_def intro: waiters_ok_same)
next
  case (others y d')
  then have ok: "conns_ok (py_mgr y) (py_in_flight y)" by (simp add: prot_inv_def)
  have "conns_ok ((py_mgr y)\<lparr>mg_db := d'\<rparr>) (py_in_flight y)"
    by (rule conns_ok_db [OF ok]) (use others(1) ok ledger_ok_foreign in \<open>auto simp: foreign_def conns_ok_def\<close>)
  then have "kept (py_mgr y) (py_in_flight y) ((py_mgr y)\<lparr>mg_db := d'\<rparr>)"
    by (simp add: kept_def same_waiters_db advances_refl)
  from kept_inv [OF others(2) this] show ?case by simp
next
  case (purges io now y res m')
  then have "kept (py_mgr y) (py_in_flight y) m'" by (intro purge_closed_ok [OF _ purges(1)]) (simp_all add: prot_inv_def)
  from kept_inv [OF purges(2) this] show ?case by simp
qed

interpretation protection: transition_system prot_start prot_step prot_inv
  by unfold_locales (auto dest: prot_start_inv prot_step_inv)

lemma prot_steps_advance:
  "prot_step\<^sup>*\<^sup>* y y' \<Longrightarrow> prot_inv y \<Longrightarrow> prot_inv y' \<and> advances (py_mgr y) (py_mgr y')"
  by (induction rule: rtranclp_induct) (auto intro: advances_refl advances_trans dest: prot_step_inv)

section \<open>A run\<close>

text \<open>
  One locked generation, recovered, then unlocked for a mutation.  The clock stands ten minutes
  before the epoch, so the lease expires at instant 0.
\<close>

definition demo_row :: protection_row where
  "demo_row = \<lparr>p_connection_id = ''c'', p_generation = ''1'', p_profile_id = ''p'', p_profile_revision = ''1'',
     p_revision = ''1'', p_mode = ProtectedLocked, p_closed_at = None, p_purge_after = None, p_updated_at = 0\<rparr>"

definition demo_prot_db :: db where "demo_prot_db = empty_db\<lparr>protection_t := [demo_row]\<rparr>"

definition demo_key :: string where "demo_key = generation_key ''c'' ''1''"

definition demo_mgr :: manager where
  "demo_mgr = \<lparr>mg_db = demo_prot_db, mg_connections =
     [demo_key \<mapsto> new_connection_state (snapshot_of_row demo_row) ''p'' ''1'']\<rparr>"

definition demo_command :: "string \<Rightarrow> string \<Rightarrow> command_record" where
  "demo_command kind req = \<lparr>cm_scope = command_scope ''c'' ''1'' kind req, cm_connection_id = ''c'',
     cm_generation = ''1'', cm_kind = kind, cm_request_id = req, cm_digest = ''d''\<rparr>"

definition demo_unlock :: "string \<Rightarrow> string \<Rightarrow> manager \<Rightarrow> outcome \<times> manager" where
  "demo_unlock req revision = unlock_after_head True True True (\<lambda>_. - unlock_duration) (Some ''L'') revision
     (demo_command ''UNLOCK'' req)"

definition demo_unlocked :: manager where "demo_unlocked = snd (demo_unlock ''u'' ''1'' demo_mgr)"

definition demo_binding :: dispatch_binding where
  "demo_binding = \<lparr>db_connection_id = ''c'', db_connection_generation = ''1'', db_profile_revision = ''1'',
     db_protection_revision = ''2'', db_lease_id = ''L''\<rparr>"

lemma demo_unlocked_conn:
  "mg_connections demo_unlocked demo_key = Some
     \<lparr>cn_gate = True, cn_lock_waiters = 0, cn_snapshot = \<lparr>ps_connection_id = ''c'', ps_connection_generation = ''1'',
        ps_protection_revision = ''2'', ps_mode = ProtectedUnlocked, ps_lease_id = Some ''L'',
        ps_unlocked_until = Some (rfc3339nano 0)\<rparr>, cn_profile_id = ''p'', cn_profile_rev = ''1'',
      cn_lease = Some \<lparr>ls_id = ''L'', ls_expires = 0\<rparr>, cn_closed = False\<rparr>"
  by code_simp

definition demo_sys :: "manager \<Rightarrow> caller list \<Rightarrow> (string \<rightharpoonup> dispatch_binding) \<Rightarrow> prot_sys" where
  "demo_sys m callers fl = \<lparr>py_mgr = m, py_callers = callers, py_in_flight = fl\<rparr>"

lemma demo_command_valid: "kind = ''UNLOCK'' \<or> kind = ''LOCK'' \<Longrightarrow> req = ''u'' \<or> req = ''l'' \<or> req = ''v'' \<Longrightarrow>
    valid_command (demo_command kind req)"
proof -
  assume a: "kind = ''UNLOCK'' \<or> kind = ''LOCK''" "req = ''u'' \<or> req = ''l'' \<or> req = ''v''"
  have "''1'' = dec 1" by (simp add: dec_literals)
  then have "command_key_ok ''1'' kind req" using a by (auto simp: command_key_ok_def)
  then show ?thesis by (simp add: valid_command_def demo_command_def)
qed

lemma demo_db_ok: "rows_ok demo_prot_db" "ledger_ok demo_prot_db"
proof -
  have "''1'' = dec 1" by (simp add: dec_literals)
  then show "rows_ok demo_prot_db" unfolding rows_ok_def demo_prot_db_def demo_row_def
    by (auto simp: empty_db_def)
  show "ledger_ok demo_prot_db" by (simp add: ledger_ok_def demo_prot_db_def empty_db_def)
qed

lemma demo_started: "prot_reachable (demo_sys demo_mgr [] (\<lambda>_. None))"
proof (rule reach_init)
  have "recover (\<lambda>_. True) (\<lambda>_. 0) \<lparr>mg_db = demo_prot_db, mg_connections = (\<lambda>_. None)\<rparr> = (Inr (), demo_mgr)"
    by (simp add: recover_def active_rows_def demo_prot_db_def demo_row_def recover_row_def demo_mgr_def
        demo_key_def)
  with demo_db_ok show "prot_start (demo_sys demo_mgr [] (\<lambda>_. None))"
    by (auto simp: prot_start_def demo_sys_def)
qed

text \<open>A command that the ledger does not know passes its head without effect.\<close>

lemma head_passes:
  assumes "lookup_ledger (cm_scope c) (mg_db m) = None" and "mg_connections m (command_key c) \<noteq> None"
  shows "command_head io clock c m = (None, m)"
  using assms by (auto simp: command_head_def lookup_replay_def conn_at_def command_key_def)

lemma reach_head:
  assumes "prot_reachable (demo_sys m cs fl)" and "valid_command c"
    and "lookup_ledger (cm_scope c) (mg_db m) = None" and "mg_connections m (command_key c) \<noteq> None"
    and "p = LockHeaded c \<or> p = UnlockHeaded v c"
  shows "prot_reachable (demo_sys m (p # cs) fl)"
proof (rule reach_step [OF assms(1)])
  have "command_head True (\<lambda>_. 0) c (py_mgr (demo_sys m cs fl)) = (None, m)"
    using head_passes [OF assms(3,4)] by (simp add: demo_sys_def)
  from heads [OF assms(2) _ this assms(5)] assms(3)
  show "prot_step (demo_sys m cs fl) (demo_sys m (p # cs) fl)" by (simp add: demo_sys_def)
qed

lemma demo_command_key [simp]: "command_key (demo_command kind req) = demo_key"
  by (simp add: command_key_def demo_command_def demo_key_def)

lemma reach_demo_unlock:
  assumes "prot_reachable (demo_sys m (UnlockHeaded v (demo_command ''UNLOCK'' req) # cs) fl)"
    and "mg_connections m demo_key = Some s" and "cn_gate s" and "m' = snd (demo_unlock req v m)"
  shows "prot_reachable (demo_sys m' cs fl)"
proof (rule reach_step [OF assms(1)])
  let ?y = "demo_sys m (UnlockHeaded v (demo_command ''UNLOCK'' req) # cs) fl"
  obtain out where out: "unlock_after_head True True True (\<lambda>_. - unlock_duration) (Some ''L'') v
      (demo_command ''UNLOCK'' req) m = (out, m')"
    using assms(4) unfolding demo_unlock_def by (metis prod.collapse)
  have "prot_step ?y (?y\<lparr>py_mgr := m', py_callers := remove1 (UnlockHeaded v (demo_command ''UNLOCK'' req)) (py_callers ?y)\<rparr>)"
    by (rule unlocks [where io = True and ?io1.0 = True and ?io2.0 = True and lease_id = "Some ''L''"
          and clock = "\<lambda>_. - unlock_duration" and out = out])
      (use assms(2,3) out in \<open>simp_all add: demo_sys_def gate_free_def\<close>)
  then show "prot_step ?y (demo_sys m' cs fl)" by (simp add: demo_sys_def)
qed

lemma demo_unlocked_reachable: "prot_reachable (demo_sys demo_unlocked [] (\<lambda>_. None))"
proof (rule reach_demo_unlock)
  show "prot_reachable (demo_sys demo_mgr [UnlockHeaded ''1'' (demo_command ''UNLOCK'' ''u'')] (\<lambda>_. None))"
    by (rule reach_head [OF demo_started])
      (simp_all add: demo_command_valid, simp_all add: demo_mgr_def demo_prot_db_def empty_db_def lookup_ledger_def table_simps)
  show "mg_connections demo_mgr demo_key = Some (new_connection_state (snapshot_of_row demo_row) ''p'' ''1'')"
    by (simp add: demo_mgr_def)
qed (simp_all add: new_connection_state_def demo_unlocked_def)

definition demo_flying :: prot_sys where
  "demo_flying = demo_sys (set_gate False demo_key demo_unlocked) [] [demo_key \<mapsto> demo_binding]"

lemma demo_flying_reachable: "prot_reachable demo_flying"
proof (rule reach_step [OF demo_unlocked_reachable])
  let ?y = "demo_sys demo_unlocked [] (\<lambda>_. None)"
  obtain s where s: "mg_connections demo_unlocked demo_key = Some s" "cn_gate s" "cn_lock_waiters s = 0"
    "cn_lease s = Some \<lparr>ls_id = ''L'', ls_expires = 0\<rparr>" "\<not> cn_closed s" "cn_profile_rev s = ''1''"
    "ps_connection_generation (cn_snapshot s) = ''1''" "ps_protection_revision (cn_snapshot s) = ''2''"
    "ps_mode (cn_snapshot s) = ProtectedUnlocked"
    using demo_unlocked_conn by simp
  have "prot_step ?y (?y\<lparr>py_mgr := set_gate False demo_key (py_mgr ?y),
      py_in_flight := (py_in_flight ?y)(demo_key \<mapsto> demo_binding)\<rparr>)"
  proof (rule dispatches)
    show "plain_generation (db_connection_generation demo_binding)"
      by (simp add: demo_binding_def plain_generation_def)
    show "dispatch_enter demo_binding (py_mgr ?y) = Inr s"
      using s by (simp add: dispatch_enter_def conn_at_def demo_binding_def demo_sys_def demo_key_def)
    show "authorize_gated True (\<lambda>_. -1) demo_binding (s, mg_db (py_mgr ?y)) = (Inr (), (s, mg_db (py_mgr ?y)))"
      using s by (simp add: authorize_gated_def reconcile_expired_lease_def lease_expired_at_def
          validate_dispatch_def demo_binding_def require_def)
    show "demo_key = generation_key (db_connection_id demo_binding) (db_connection_generation demo_binding)"
      by (simp add: demo_key_def demo_binding_def)
  qed (rule s(2))
  then show "prot_step ?y demo_flying" by (simp add: demo_sys_def demo_flying_def)
qed

section \<open>What the protection promises\<close>

lemma reachable_prot_inv: "prot_reachable y \<Longrightarrow> prot_inv y"
  by (rule protection.reachable_inv)

text \<open>
  C29. In every reachable state a mutation that is in flight holds the gate of its generation, and its
  binding names the current revision, profile revision and lease of a generation that is open and
  unlocked, in memory and in the database (unless the row is gone, which only a closed generation's
  row can be).
\<close>

theorem dispatch_holds_current_lease:
  assumes "prot_reachable y" and "py_in_flight y key = Some b"
  shows "\<exists>s r. mg_connections (py_mgr y) key = Some s \<and> \<not> cn_gate s \<and> current_binding b s \<and>
    row_at (mg_db (py_mgr y)) (conn_ids s) = Some r \<and> p_revision r = db_protection_revision b \<and>
    p_mode r = ProtectedUnlocked \<and> p_closed_at r = None"
proof -
  have ok: "conns_ok (py_mgr y) (py_in_flight y)" using reachable_prot_inv [OF assms(1)] by (simp add: prot_inv_def)
  obtain s where s: "mg_connections (py_mgr y) key = Some s"
    using ok assms(2) by (cases "mg_connections (py_mgr y) key") (auto simp: conns_ok_def)
  note base = conns_okD [OF ok s]
  have cur: "current_binding b s" by (rule base(6) [OF assms(2)])
  then have "\<not> cn_closed s" by (simp add: current_binding_def)
  with base(3) obtain r where r: "row_at (mg_db (py_mgr y)) (conn_ids s) = Some r"
    by (cases "row_at (mg_db (py_mgr y)) (conn_ids s)") (auto simp: conn_ok_def)
  with conn_ok_row [OF base(3) r] cur base(5) assms(2) s show ?thesis
    by (auto simp: row_agrees_def current_binding_def)
qed

theorem dispatch_holds_current_lease_witness:
  "\<exists>s r. mg_connections (py_mgr demo_flying) demo_key = Some s \<and> \<not> cn_gate s \<and>
    current_binding demo_binding s \<and> row_at (mg_db (py_mgr demo_flying)) (conn_ids s) = Some r \<and>
    p_revision r = db_protection_revision demo_binding \<and> p_mode r = ProtectedUnlocked \<and> p_closed_at r = None"
  by (rule dispatch_holds_current_lease [OF demo_flying_reachable]) (simp add: demo_flying_def demo_sys_def)

text \<open>A mutation in flight and a lease both need a revision after the one a lock has applied.\<close>

definition locked_at :: "string \<Rightarrow> nat \<Rightarrow> manager \<Rightarrow> bool" where
  "locked_at key n m \<longleftrightarrow> (\<exists>s. mg_connections m key = Some s \<and> n \<le> revision_of s \<and>
     (cn_lease s \<noteq> None \<longrightarrow> n < revision_of s))"

lemma locked_at_advances:
  assumes "locked_at key n m" and "advances m m'"
  shows "locked_at key n m'"
proof -
  obtain s where s: "mg_connections m key = Some s" "n \<le> revision_of s"
    "cn_lease s \<noteq> None \<longrightarrow> n < revision_of s" using assms(1) by (auto simp: locked_at_def)
  from assms(2) s(1) have "\<exists>s'. mg_connections m' key = Some s' \<and> conn_advances s s'"
    unfolding advances_def by blast
  then obtain s' where s': "mg_connections m' key = Some s'" "conn_advances s s'" by blast
  from s'(2) have "revision_of s \<le> revision_of s'"
    "cn_lease s' = None \<or> cn_lease s' = cn_lease s \<or> revision_of s < revision_of s'"
    by (auto simp: conn_advances_def no_new_lease_def)
  with s have "n \<le> revision_of s'" "cn_lease s' \<noteq> None \<longrightarrow> n < revision_of s'" by auto
  with s'(1) show ?thesis by (simp add: locked_at_def)
qed

lemma locked_at_binding:
  assumes inv: "prot_inv y" and "locked_at key n (py_mgr y)" and "py_in_flight y key = Some b"
  shows "n < dec_val (db_protection_revision b)"
proof -
  obtain s where s: "mg_connections (py_mgr y) key = Some s" "cn_lease s \<noteq> None \<longrightarrow> n < revision_of s"
    using assms(2) by (auto simp: locked_at_def)
  have "current_binding b s" using inv s(1) assms(3) by (auto simp: prot_inv_def conns_ok_def)
  with s(2) show ?thesis by (auto simp: current_binding_def revision_of_def)
qed

lemma lock_commit_locked_at:
  assumes inv: "conns_ok m fl" and s: "mg_connections m (command_key c) = Some s" and c: "valid_command c"
    and run: "lock_commit io now c s m = ((result, None), m')" "\<not> cr_replayed result"
  shows "locked_at (command_key c) (dec_val (cr_applied_protection_revision result)) m'"
    and "ps_mode (cr_snapshot result) \<noteq> ProtectedUnlocked"
proof -
  note base = conns_okD [OF inv s]
  obtain s' d' where f: "lock_gated io now c (s, mg_db m) = ((result, None), (s', d'))"
    and m': "m' = m\<lparr>mg_db := d', mg_connections := (mg_connections m)(command_key c \<mapsto> finish_lock_pending s')\<rparr>"
    using run(1) by (auto simp: lock_commit_def with_conn_def command_key_def split: prod.splits)
  obtain r0 code where tx: "lock_tx c now (mg_db m) = Inr ((r0, code), d')"
    "result = settle_result s r0 code" "code = '''' \<or> command_error code = None"
    "code = '''' \<Longrightarrow> s' = s\<lparr>cn_snapshot := cr_snapshot result, cn_lease := None\<rparr>"
    using f by (auto simp: lock_gated_def with_immediate_def Let_def split: sum.splits prod.splits if_splits)
  from lock_tx_outcome [OF base(1) tx(1)] have oc: "command_outcome c ''LOCKED'' now (mg_db m) r0 code d'"
    and locked: "code = '''' \<Longrightarrow> \<not> cr_replayed r0 \<Longrightarrow> \<exists>r n. row_at (mg_db m) (cm_connection_id c, cm_generation c) = Some r \<and>
      p_revision r = dec n \<and> cr_snapshot r0 = relocked_snapshot r (Suc n)" by blast+
  from oc show "locked_at (command_key c) (dec_val (cr_applied_protection_revision result)) m'"
    and "ps_mode (cr_snapshot result) \<noteq> ProtectedUnlocked"
  proof (atomize (full), cases rule: command_outcome.cases)
    case (replayed e x err)
    with tx(2) run(2) show "locked_at (command_key c) (dec_val (cr_applied_protection_revision result)) m' \<and>
        ps_mode (cr_snapshot result) \<noteq> ProtectedUnlocked" by (simp add: settle_result_def split: if_splits)
  next
    case (rejected r)
    with tx(3) show "locked_at (command_key c) (dec_val (cr_applied_protection_revision result)) m' \<and>
        ps_mode (cr_snapshot result) \<noteq> ProtectedUnlocked" by (simp add: command_error_def)
  next
    case (committed r n cur)
    then have res: "result = r0" using tx(2) by (simp add: settle_result_def)
    obtain r' n' where "cur = relocked_snapshot r' (Suc n')" using locked committed by auto
    then have "ps_mode cur \<noteq> ProtectedUnlocked" by (simp add: relocked_snapshot_def)
    moreover have "s' = s\<lparr>cn_snapshot := cur, cn_lease := None\<rparr>" using tx(4) res committed by simp
    ultimately show "locked_at (command_key c) (dec_val (cr_applied_protection_revision result)) m' \<and>
        ps_mode (cr_snapshot result) \<noteq> ProtectedUnlocked"
      using committed res by (simp add: locked_at_def m' finish_lock_pending_def revision_of_def)
  qed
qed

text \<open>
  C30. Once a \<open>Lock\<close> has succeeded, whatever happens afterwards in any order, a mutation in flight on
  that generation is one that was authorized under a later revision: no binding from before the lock,
  nor the locked revision itself, is ever dispatched again.
\<close>

theorem lock_stops_older_bindings:
  assumes "prot_reachable y" and "LockPending c \<in> set (py_callers y)"
    and "mg_connections (py_mgr y) (command_key c) = Some s" and "cn_gate s"
    and "lock_commit io now c s (py_mgr y) = ((result, None), m')" and "\<not> cr_replayed result"
    and "prot_step\<^sup>*\<^sup>* (y\<lparr>py_mgr := m', py_callers := remove1 (LockPending c) (py_callers y)\<rparr>) y'"
    and "py_in_flight y' (command_key c) = Some b"
  shows "dec_val (cr_applied_protection_revision result) < dec_val (db_protection_revision b)"
proof -
  let ?y1 = "y\<lparr>py_mgr := m', py_callers := remove1 (LockPending c) (py_callers y)\<rparr>"
  have inv: "prot_inv y" by (rule reachable_prot_inv [OF assms(1)])
  then have ok: "conns_ok (py_mgr y) (py_in_flight y)" and c: "valid_command c"
    using assms(2) by (auto simp: prot_inv_def waiters_ok_def)
  have inv1: "prot_inv ?y1" using prot_step_inv [OF locks [OF assms(2-5)] inv] by simp
  have "locked_at (command_key c) (dec_val (cr_applied_protection_revision result)) (py_mgr ?y1)"
    using lock_commit_locked_at(1) [OF ok assms(3) c assms(5,6)] by simp
  with prot_steps_advance [OF assms(7) inv1] show ?thesis
    using locked_at_advances locked_at_binding assms(8) by blast
qed


text \<open>The run goes on: a lock is accepted and committed, and the generation unlocked again.\<close>

definition demo_lock :: command_record where "demo_lock = demo_command ''LOCK'' ''l''"

definition demo_pending :: manager where "demo_pending = lock_accept demo_key demo_unlocked"

definition demo_lock_run :: "outcome \<times> manager" where
  "demo_lock_run = lock_commit True (- unlock_duration) demo_lock
     (the (mg_connections demo_pending demo_key)) demo_pending"

definition demo_locked :: manager where "demo_locked = snd demo_lock_run"

definition demo_unlocked_again :: manager where
  "demo_unlocked_again = snd (demo_unlock ''v'' ''3'' demo_locked)"

definition demo_binding_again :: dispatch_binding where
  "demo_binding_again = demo_binding\<lparr>db_protection_revision := ''4''\<rparr>"

lemma demo_unlocked_ledger:
  "map pl_scope (protection_ledger_t (mg_db demo_unlocked)) = [command_scope ''c'' ''1'' ''UNLOCK'' ''u'']"
  by code_simp

lemma demo_lock_result:
  "fst demo_lock_run = (\<lparr>cr_snapshot = \<lparr>ps_connection_id = ''c'', ps_connection_generation = ''1'',
       ps_protection_revision = ''3'', ps_mode = ProtectedLocked, ps_lease_id = None, ps_unlocked_until = None\<rparr>,
     cr_applied_protection_revision = ''3'', cr_replayed = False\<rparr>, None)"
  by code_simp

lemma demo_locked_ledger:
  "map pl_scope (protection_ledger_t (mg_db demo_locked)) =
     [command_scope ''c'' ''1'' ''UNLOCK'' ''u'', command_scope ''c'' ''1'' ''LOCK'' ''l'']"
  by code_simp

lemma demo_locked_conn:
  "map_option (\<lambda>s. (cn_gate s, cn_lock_waiters s)) (mg_connections demo_locked demo_key) = Some (True, 0)"
  by code_simp

lemma demo_again_conn:
  "mg_connections demo_unlocked_again demo_key = Some
     \<lparr>cn_gate = True, cn_lock_waiters = 0, cn_snapshot = \<lparr>ps_connection_id = ''c'', ps_connection_generation = ''1'',
        ps_protection_revision = ''4'', ps_mode = ProtectedUnlocked, ps_lease_id = Some ''L'',
        ps_unlocked_until = Some (rfc3339nano 0)\<rparr>, cn_profile_id = ''p'', cn_profile_rev = ''1'',
      cn_lease = Some \<lparr>ls_id = ''L'', ls_expires = 0\<rparr>, cn_closed = False\<rparr>"
  by code_simp

lemma lookup_by_scopes:
  "lookup_ledger scope d = None \<longleftrightarrow> scope \<notin> set (map pl_scope (protection_ledger_t d))"
  by (auto simp: lookup_ledger_def tbl_get_None_iff)

lemma demo_unlocked_at:
  obtains s where "mg_connections demo_unlocked demo_key = Some s" "cn_gate s" "cn_lock_waiters s = 0"
  using demo_unlocked_conn by simp

lemma demo_pending_reachable: "prot_reachable (demo_sys demo_pending [LockPending demo_lock] (\<lambda>_. None))"
proof -
  have "prot_reachable (demo_sys demo_unlocked [LockHeaded demo_lock] (\<lambda>_. None))"
  proof (rule reach_head [OF demo_unlocked_reachable])
    show "valid_command demo_lock" by (simp add: demo_lock_def demo_command_valid)
    show "lookup_ledger (cm_scope demo_lock) (mg_db demo_unlocked) = None"
      by (simp add: lookup_by_scopes demo_unlocked_ledger) (simp add: demo_lock_def demo_command_def command_scope_def)
    show "mg_connections demo_unlocked (command_key demo_lock) \<noteq> None"
      using demo_unlocked_at by (auto simp: demo_lock_def)
  qed simp
  moreover have "prot_step (demo_sys demo_unlocked [LockHeaded demo_lock] (\<lambda>_. None))
      (demo_sys demo_pending [LockPending demo_lock] (\<lambda>_. None))"
    using accepts [of demo_lock "demo_sys demo_unlocked [LockHeaded demo_lock] (\<lambda>_. None)"]
    by (simp add: demo_sys_def demo_pending_def demo_lock_def)
  ultimately show ?thesis by (rule reach_step)
qed

lemma demo_pending_at:
  obtains s where "mg_connections demo_pending demo_key = Some s" "cn_gate s"
    "lock_commit True (- unlock_duration) demo_lock s demo_pending = (fst demo_lock_run, demo_locked)"
proof -
  obtain s where s: "mg_connections demo_unlocked demo_key = Some s" "cn_gate s" using demo_unlocked_at .
  then have "mg_connections demo_pending demo_key = Some (mark_lock_pending s)" "cn_gate (mark_lock_pending s)"
    by (simp_all add: demo_pending_def lock_accept_def mark_lock_pending_def)
  then show thesis by (intro that) (simp_all add: demo_locked_def demo_lock_run_def)
qed


text \<open>From the committed lock to a mutation in flight under the next unlock.\<close>

definition demo_flying_again :: prot_sys where
  "demo_flying_again = demo_sys (set_gate False demo_key demo_unlocked_again) [] [demo_key \<mapsto> demo_binding_again]"

lemma demo_locked_steps: "prot_step\<^sup>*\<^sup>* (demo_sys demo_locked [] (\<lambda>_. None)) demo_flying_again"
proof -
  let ?c = "demo_command ''UNLOCK'' ''v''"
  let ?y0 = "demo_sys demo_locked [] (\<lambda>_. None)" and ?y1 = "demo_sys demo_locked [UnlockHeaded ''3'' ?c] (\<lambda>_. None)"
    and ?y2 = "demo_sys demo_unlocked_again [] (\<lambda>_. None)"
  obtain s0 where s0: "mg_connections demo_locked demo_key = Some s0" "cn_gate s0"
    using demo_locked_conn by auto
  have none: "lookup_ledger (cm_scope ?c) (mg_db demo_locked) = None"
    by (simp add: lookup_by_scopes demo_locked_ledger) (simp add: demo_command_def command_scope_def)
  have "command_head True (\<lambda>_. 0) ?c (py_mgr ?y0) = (None, demo_locked)"
    using head_passes [OF none] s0 by (simp add: demo_sys_def)
  from heads [of ?c ?y0, OF _ _ this, of "UnlockHeaded ''3'' ?c" "''3''"] none
  have 1: "prot_step ?y0 ?y1" by (simp add: demo_command_valid demo_sys_def)
  obtain out where out: "unlock_after_head True True True (\<lambda>_. - unlock_duration) (Some ''L'') ''3'' ?c demo_locked =
      (out, demo_unlocked_again)"
    unfolding demo_unlocked_again_def demo_unlock_def by (metis prod.collapse)
  have "prot_step ?y1 (?y1\<lparr>py_mgr := demo_unlocked_again, py_callers := remove1 (UnlockHeaded ''3'' ?c) (py_callers ?y1)\<rparr>)"
    by (rule unlocks [where io = True and ?io1.0 = True and ?io2.0 = True and lease_id = "Some ''L''"
          and clock = "\<lambda>_. - unlock_duration" and out = out])
      (use s0 out in \<open>simp_all add: demo_sys_def gate_free_def\<close>)
  then have 2: "prot_step ?y1 ?y2" by (simp add: demo_sys_def)
  obtain s where s: "mg_connections demo_unlocked_again demo_key = Some s" "cn_gate s" "cn_lock_waiters s = 0"
    "cn_lease s = Some \<lparr>ls_id = ''L'', ls_expires = 0\<rparr>" "\<not> cn_closed s" "cn_profile_rev s = ''1''"
    "ps_connection_generation (cn_snapshot s) = ''1''" "ps_protection_revision (cn_snapshot s) = ''4''"
    "ps_mode (cn_snapshot s) = ProtectedUnlocked"
    using demo_again_conn by simp
  have "prot_step ?y2 (?y2\<lparr>py_mgr := set_gate False demo_key (py_mgr ?y2),
      py_in_flight := (py_in_flight ?y2)(demo_key \<mapsto> demo_binding_again)\<rparr>)"
  proof (rule dispatches)
    show "authorize_gated True (\<lambda>_. -1) demo_binding_again (s, mg_db (py_mgr ?y2)) = (Inr (), (s, mg_db (py_mgr ?y2)))"
      using s by (simp add: authorize_gated_def reconcile_expired_lease_def lease_expired_at_def
          validate_dispatch_def demo_binding_again_def demo_binding_def require_def)
    show "dispatch_enter demo_binding_again (py_mgr ?y2) = Inr s"
      using s by (simp add: dispatch_enter_def conn_at_def demo_binding_again_def demo_binding_def demo_sys_def demo_key_def)
  qed (simp_all add: s demo_key_def demo_binding_again_def demo_binding_def plain_generation_def)
  then have 3: "prot_step ?y2 demo_flying_again" by (simp add: demo_sys_def demo_flying_again_def)
  from 1 2 3 show ?thesis by (meson converse_rtranclp_into_rtranclp rtranclp.rtrancl_refl)
qed

lemma lock_stops_older_bindings_witness:
  "dec_val (cr_applied_protection_revision (fst (fst demo_lock_run))) <
     dec_val (db_protection_revision demo_binding_again) \<and> py_in_flight demo_flying_again demo_key = Some demo_binding_again"
proof -
  let ?y = "demo_sys demo_pending [LockPending demo_lock] (\<lambda>_. None)"
  obtain s where s: "mg_connections demo_pending demo_key = Some s" "cn_gate s"
    "lock_commit True (- unlock_duration) demo_lock s demo_pending = (fst demo_lock_run, demo_locked)"
    by (rule demo_pending_at)
  have none: "snd (fst demo_lock_run) = None" "\<not> cr_replayed (fst (fst demo_lock_run))"
    using demo_lock_result by simp_all
  have run: "lock_commit True (- unlock_duration) demo_lock s (py_mgr ?y) = ((fst (fst demo_lock_run), None), demo_locked)"
    using s(3) none(1) by (cases "fst demo_lock_run") (simp add: demo_sys_def)
  have fly: "py_in_flight demo_flying_again demo_key = Some demo_binding_again"
    by (simp add: demo_flying_again_def demo_sys_def)
  have "dec_val (cr_applied_protection_revision (fst (fst demo_lock_run))) <
     dec_val (db_protection_revision demo_binding_again)"
  proof (rule lock_stops_older_bindings [OF demo_pending_reachable _ _ s(2) run none(2)])
    show "prot_step\<^sup>*\<^sup>* (?y\<lparr>py_mgr := demo_locked, py_callers := remove1 (LockPending demo_lock) (py_callers ?y)\<rparr>) demo_flying_again"
      using demo_locked_steps by (simp add: demo_sys_def)
    show "mg_connections (py_mgr ?y) (command_key demo_lock) = Some s"
      using s(1) by (simp add: demo_sys_def demo_lock_def)
    show "py_in_flight demo_flying_again (command_key demo_lock) = Some demo_binding_again"
      using fly by (simp add: demo_lock_def)
  qed (simp add: demo_sys_def)
  with fly show ?thesis by simp
qed

end
