(* ===== verification/Protection_Laws.thy ===== *)
theory Protection_Laws
  imports Protection_System
begin

text \<open>
  What single methods of the protection manager promise, on the states of \<open>Protection_System\<close>: memory
  agrees with the database, recovery locks, expiry locks durably, callbacks run only when authorized,
  a repeated \<open>Lock\<close> is answered from the ledger, the grant loop ends.
\<close>

text \<open>
  C32. In every reachable state the connection state agrees with its durable row in revision, mode,
  profile and closing (a row that is gone belonged to a closed generation), a lease exists only
  while the generation is open and unlocked and is the one the snapshot names, the gate is taken
  exactly while a mutation is in flight, and \<open>lockWaiters\<close> counts the accepted locks and closes.
\<close>

theorem protection_memory_matches_db:
  assumes "prot_reachable y" and "mg_connections (py_mgr y) key = Some s"
  shows "(case row_at (mg_db (py_mgr y)) (conn_ids s) of None \<Rightarrow> cn_closed s | Some r \<Rightarrow> row_agrees s r) \<and>
    (case cn_lease s of None \<Rightarrow> True | Some l \<Rightarrow> \<not> cn_closed s \<and> ps_mode (cn_snapshot s) = ProtectedUnlocked \<and>
       ps_lease_id (cn_snapshot s) = Some (ls_id l)) \<and>
    (cn_gate s \<longleftrightarrow> py_in_flight y key = None) \<and> cn_lock_waiters s = waiting_on key (py_callers y)"
proof -
  have inv: "conns_ok (py_mgr y) (py_in_flight y)" "waiters_ok (py_mgr y) (py_callers y)"
    using reachable_prot_inv [OF assms(1)] by (simp_all add: prot_inv_def)
  note base = conns_okD [OF inv(1) assms(2)]
  from base(3) have "case row_at (mg_db (py_mgr y)) (conn_ids s) of None \<Rightarrow> cn_closed s | Some r \<Rightarrow> row_agrees s r"
    and "lease_ok s" by (simp_all add: conn_ok_def)
  moreover have "case cn_lease s of None \<Rightarrow> True | Some l \<Rightarrow> \<not> cn_closed s \<and> ps_mode (cn_snapshot s) = ProtectedUnlocked \<and>
       ps_lease_id (cn_snapshot s) = Some (ls_id l)"
    using \<open>lease_ok s\<close> by (simp add: lease_ok_def split: option.splits)
  moreover have "cn_lock_waiters s = waiting_on key (py_callers y)"
    using inv(2) assms(2) by (simp add: waiters_ok_def)
  ultimately show ?thesis using base(5) by blast
qed

lemma protection_memory_matches_db_witness:
  "\<exists>s. mg_connections demo_pending demo_key = Some s \<and> cn_lease s \<noteq> None \<and> cn_lock_waiters s = 1 \<and> cn_gate s"
proof -
  let ?y = "demo_sys demo_pending [LockPending demo_lock] (\<lambda>_. None)"
  obtain s where s: "mg_connections demo_unlocked demo_key = Some s" "cn_lease s \<noteq> None"
    using demo_unlocked_conn by simp
  then have s': "mg_connections demo_pending demo_key = Some (mark_lock_pending s)" "cn_lease (mark_lock_pending s) \<noteq> None"
    by (simp_all add: demo_pending_def lock_accept_def mark_lock_pending_def)
  then have at: "mg_connections (py_mgr ?y) demo_key = Some (mark_lock_pending s)" by (simp add: demo_sys_def)
  from protection_memory_matches_db [OF demo_pending_reachable at] s' show ?thesis
    by (simp add: demo_sys_def waiting_on_def demo_lock_def)
qed

text \<open>
  C33. After a successful \<open>Recover\<close> every generation that was open has a connection, none is unlocked
  and no connection has a lease; a generation that was left unlocked is locked at the next revision,
  and any other row is unchanged.
\<close>

theorem recover_locks_everything:
  assumes "rows_ok d" and "recover io clock \<lparr>mg_db = d, mg_connections = (\<lambda>_. None)\<rparr> = (Inr (), m)"
  shows "\<forall>r\<in>set (active_rows d). \<exists>r' s. row_at (mg_db m) (row_key r) = Some r' \<and>
      conn_at m (p_connection_id r) (p_generation r) = Some s \<and> cn_lease s = None \<and> p_mode r' \<noteq> ProtectedUnlocked \<and>
      (if p_mode r = ProtectedUnlocked
       then p_mode r' = ProtectedLocked \<and> dec_val (p_revision r') = Suc (dec_val (p_revision r)) else r' = r)"
proof (intro ballI)
  fix r assume "r \<in> set (active_rows d)"
  from recover_result(4) [OF assms this] obtain r' s where r': "row_at (mg_db m) (row_key r) = Some r'"
    "relocked_row r r'" and s: "conn_at m (p_connection_id r) (p_generation r) = Some s" by blast
  have "cn_lease s = None"
    using recover_result(3) [OF assms s [unfolded conn_at_def]] by (auto simp: recovered_conn_def new_connection_state_def)
  with r' s show "\<exists>r' s. row_at (mg_db m) (row_key r) = Some r' \<and>
      conn_at m (p_connection_id r) (p_generation r) = Some s \<and> cn_lease s = None \<and> p_mode r' \<noteq> ProtectedUnlocked \<and>
      (if p_mode r = ProtectedUnlocked
       then p_mode r' = ProtectedLocked \<and> dec_val (p_revision r') = Suc (dec_val (p_revision r)) else r' = r)"
    using relocked_row_fields(2) [OF r'(2)]
    by (intro exI [of _ r'] exI [of _ s]) (auto simp: relocked_row_def split: if_splits)
qed

definition demo_open_row :: protection_row where "demo_open_row = demo_row\<lparr>p_mode := ProtectedUnlocked\<rparr>"

lemma recover_locks_everything_witness:
  "\<exists>m. recover (\<lambda>_. True) (\<lambda>_. 0) \<lparr>mg_db = demo_prot_db\<lparr>protection_t := [demo_open_row]\<rparr>, mg_connections = (\<lambda>_. None)\<rparr>
      = (Inr (), m) \<and> (\<exists>r'. row_at (mg_db m) (row_key demo_open_row) = Some r' \<and> p_mode r' = ProtectedLocked \<and>
        dec_val (p_revision r') = 2)"
proof -
  let ?d = "demo_prot_db\<lparr>protection_t := [demo_open_row]\<rparr>"
  have one: "''1'' = dec 1" by (simp add: dec_literals)
  then have inc: "protection_increment ''1'' = Inr (dec 2)"
    using protection_increment_dec [of 1] by (simp add: numeral_2_eq_2)
  have "rows_ok ?d" using one by (auto simp: rows_ok_def demo_open_row_def demo_row_def)
  moreover obtain m where m: "recover (\<lambda>_. True) (\<lambda>_. 0) \<lparr>mg_db = ?d, mg_connections = (\<lambda>_. None)\<rparr> = (Inr (), m)"
    using inc by (auto simp: recover_def active_rows_def demo_prot_db_def demo_open_row_def demo_row_def recover_row_def
        with_immediate_def recover_row_tx_def write_snapshot_tx_def insert_protection_event_def tx_run Let_def)
  ultimately have "\<forall>r\<in>set (active_rows ?d). \<exists>r' s. row_at (mg_db m) (row_key r) = Some r' \<and>
      conn_at m (p_connection_id r) (p_generation r) = Some s \<and> cn_lease s = None \<and> p_mode r' \<noteq> ProtectedUnlocked \<and>
      (if p_mode r = ProtectedUnlocked
       then p_mode r' = ProtectedLocked \<and> dec_val (p_revision r') = Suc (dec_val (p_revision r)) else r' = r)"
    by (rule recover_locks_everything)
  moreover have "demo_open_row \<in> set (active_rows ?d)"
    by (simp add: active_rows_def demo_open_row_def demo_row_def)
  moreover have "p_mode demo_open_row = ProtectedUnlocked" "dec_val (p_revision demo_open_row) = 1"
    using dec_val_dec [of 1] one by (simp_all add: demo_open_row_def demo_row_def)
  ultimately show ?thesis using m by fastforce
qed

text \<open>
  \<open>BeginMutationDispatch\<close> runs its callbacks only when it is authorized: either the generation
  exists, no lock is pending, the binding is current and the lease is alive at both readings of the
  clock, and then \<open>persistDispatch\<close> and, if it succeeds, \<open>beginRoundTrip\<close> run on the unchanged
  database and give the result; or it returns an error that does not depend on the callbacks.
\<close>

theorem dispatch_callbacks_authorized:
  assumes "prot_reachable y" and "plain_generation (db_connection_generation b)"
  shows "(\<exists>s l. conn_at (py_mgr y) (db_connection_id b) (db_connection_generation b) = Some s \<and>
      cn_lock_waiters s = 0 \<and> current_binding b s \<and> cn_lease s = Some l \<and>
      clock 0 < ls_expires l \<and> clock 1 < ls_expires l \<and>
      (\<forall>persist_dispatch begin_round_trip. \<exists>res d'.
         dispatch_callbacks persist_dispatch begin_round_trip (mg_db (py_mgr y)) = (res, d') \<and>
         begin_mutation_dispatch io clock b persist_dispatch begin_round_trip (py_mgr y) =
           (res, (py_mgr y)\<lparr>mg_db := d'\<rparr>))) \<or>
    (\<exists>e m'. \<forall>persist_dispatch begin_round_trip.
      begin_mutation_dispatch io clock b persist_dispatch begin_round_trip (py_mgr y) = (Inl e, m'))"
proof (cases "dispatch_enter b (py_mgr y)")
  case (Inl e)
  then show ?thesis by (auto simp: begin_mutation_dispatch_def with_authorized_gate_unfold)
next
  case (Inr s)
  let ?m = "py_mgr y" and ?key = "generation_key (db_connection_id b) (db_connection_generation b)"
  from Inr have s: "mg_connections ?m ?key = Some s" and w: "cn_lock_waiters s = 0"
    by (auto simp: dispatch_enter_def conn_at_def split: option.splits if_splits)
  have ok: "conns_ok ?m (py_in_flight y)" using reachable_prot_inv [OF assms(1)] by (simp add: prot_inv_def)
  note base = conns_okD [OF ok s]
  obtain out s' d' where ag: "authorize_gated io clock b (s, mg_db ?m) = (out, (s', d'))" by (metis prod.exhaust)
  show ?thesis
  proof (cases out)
    case (Inl e)
    with Inr ag show ?thesis
      by (auto simp: begin_mutation_dispatch_def with_authorized_gate_unfold with_conn_def)
  next
    case out: (Inr u)
    from authorize_gated_step(2) [OF base(1,3) ag out] obtain l where
      a: "s' = s" "d' = mg_db ?m" "current_binding b s" "cn_lease s = Some l"
        "clock 0 < ls_expires l" "clock 1 < ls_expires l" by blast
    have same: "(mg_connections ?m)(?key \<mapsto> s) = mg_connections ?m" using s by (rule map_upd_triv)
    have "\<exists>res d'. dispatch_callbacks persist_dispatch begin_round_trip (mg_db ?m) = (res, d') \<and>
         begin_mutation_dispatch io clock b persist_dispatch begin_round_trip ?m = (res, ?m\<lparr>mg_db := d'\<rparr>)"
      for persist_dispatch begin_round_trip
    proof -
      obtain res d2 where run: "dispatch_callbacks persist_dispatch begin_round_trip (mg_db ?m) = (res, d2)"
        by (metis prod.exhaust)
      have "begin_mutation_dispatch io clock b persist_dispatch begin_round_trip ?m =
          (res, ?m\<lparr>mg_db := d2, mg_connections := (mg_connections ?m)(?key \<mapsto> s)\<rparr>)"
        using Inr ag out a(1,2) run
        by (simp add: begin_mutation_dispatch_def with_authorized_gate_unfold with_conn_def)
      also have "\<dots> = (res, ?m\<lparr>mg_db := d2\<rparr>)" by (cases ?m) (use same in simp)
      finally show ?thesis using run by blast
    qed
    with s w a(3-6) show ?thesis unfolding conn_at_def by blast
  qed
qed

lemma dispatch_callbacks_authorized_witness:
  "begin_mutation_dispatch True (\<lambda>_. -1) demo_binding (Pair (Inr ())) (Pair (Inl (PlainError ''reset''))) demo_unlocked =
     (Inl (PlainError ''reset''), demo_unlocked)"
proof -
  let ?y = "demo_sys demo_unlocked [] (\<lambda>_. None)" and ?r = "Pair (Inl (PlainError ''reset''))"
  have plain: "plain_generation (db_connection_generation demo_binding)"
    by (simp add: demo_binding_def plain_generation_def)
  have ok: "fst (begin_mutation_dispatch True (\<lambda>_. -1) demo_binding (Pair (Inr ())) (Pair (Inr ())) demo_unlocked) = Inr ()"
    using demo_unlocked_conn
    by (simp add: begin_mutation_dispatch_def with_authorized_gate_unfold dispatch_enter_def conn_at_def with_conn_def
        demo_binding_def demo_key_def [symmetric] authorize_gated_def reconcile_expired_lease_def lease_expired_at_def
        validate_dispatch_def require_def dispatch_callbacks_def)
  have mgr: "py_mgr ?y = demo_unlocked" by (simp add: demo_sys_def)
  have no_error: "\<not> (\<exists>e m'. \<forall>persist_dispatch begin_round_trip.
      begin_mutation_dispatch True (\<lambda>_. -1) demo_binding persist_dispatch begin_round_trip demo_unlocked = (Inl e, m'))"
  proof (intro notI, elim exE)
    fix e m' assume "\<forall>persist_dispatch begin_round_trip.
      begin_mutation_dispatch True (\<lambda>_. -1) demo_binding persist_dispatch begin_round_trip demo_unlocked = (Inl e, m')"
    then have "begin_mutation_dispatch True (\<lambda>_. -1) demo_binding (Pair (Inr ())) (Pair (Inr ())) demo_unlocked = (Inl e, m')"
      by blast
    with ok show False by simp
  qed
  have "\<exists>res d'. dispatch_callbacks (Pair (Inr ())) ?r (mg_db demo_unlocked) = (res, d') \<and>
      begin_mutation_dispatch True (\<lambda>_. -1) demo_binding (Pair (Inr ())) ?r demo_unlocked = (res, demo_unlocked\<lparr>mg_db := d'\<rparr>)"
    using dispatch_callbacks_authorized [OF demo_unlocked_reachable plain, of "\<lambda>_. -1" True] no_error
    unfolding mgr by blast
  then show ?thesis by (auto simp: dispatch_callbacks_def)
qed

text \<open>
  \<open>Get\<close> on a generation whose lease has expired locks it durably before it answers: the snapshot is
  locked at the next revision, so is the row, the event log ends with \<open>LEASE_EXPIRED\<close>, and from then on
  no binding is authorized until a new unlock.
\<close>

theorem expired_lease_locks:
  assumes "prot_reachable y" and "conn_at (py_mgr y) c g = Some s" and "plain_generation g"
    and "lease_expired_at (ps_mode (cn_snapshot s)) (cn_lease s) (clock 0)" and "clock 0 \<le> clock 1"
    and "get_snapshot True clock c g (py_mgr y) = (res, m')"
  shows "\<exists>snap r. res = Inr snap \<and> ps_mode snap = ProtectedLocked \<and>
      dec_val (ps_protection_revision snap) = Suc (revision_of s) \<and>
      row_at (mg_db m') (c, g) = Some r \<and> p_revision r = ps_protection_revision snap \<and> p_mode r = ProtectedLocked \<and>
      last (protection_events_t (mg_db m')) = event_of snap ''LEASE_EXPIRED'' (clock 1) \<and>
      (\<forall>io clock' b commit. db_connection_id b = c \<longrightarrow> db_connection_generation b = g \<longrightarrow>
         \<not> is_ok (fst (with_authorized_gate io clock' b commit m')))"
proof -
  let ?m = "py_mgr y" and ?key = "generation_key c g"
  have ok: "conns_ok ?m (py_in_flight y)" using reachable_prot_inv [OF assms(1)] by (simp add: prot_inv_def)
  have s: "mg_connections ?m ?key = Some s" using assms(2) by (simp add: conn_at_def)
  note base = conns_okD [OF ok s]
  have ids: "conn_ids s = (c, g)" by (rule conn_ids_at [OF ok s assms(3)])
  have expired: "lease_expired_at (ps_mode (cn_snapshot s)) (cn_lease s) (clock 1)"
    using assms(4,5) by (auto simp: lease_expired_at_def split: option.splits)
  obtain r n where r: "row_at (mg_db ?m) (conn_ids s) = Some r"
    "p_closed_at r = None" "p_mode r = ProtectedUnlocked" "p_revision r = dec n" "revision_of s = n" "row_key r = conn_ids s"
    by (rule expired_row [OF base(1,3) expired])
  obtain out s' d' where rc: "reconcile_expired_lease True (clock 1) (s, mg_db ?m) = (out, (s', d'))"
    by (metis prod.exhaust)
  have "reconcile_tx (ps_connection_id (cn_snapshot s)) (ps_connection_generation (cn_snapshot s)) (clock 1) (mg_db ?m) =
      Inr ((locked_snapshot r (Suc n), False), written (locked_snapshot r (Suc n)) ''LEASE_EXPIRED'' (clock 1) (mg_db ?m))"
    by (rule reconcile_tx_unlocked) (use r in \<open>simp_all add: conn_ids_def\<close>)
  then have out: "out = Inr (locked_snapshot r (Suc n), True)"
    using rc expired by (auto simp: reconcile_expired_lease_def with_immediate_def)
  note step = reconcile_cases [OF base(1,3) rc]
  note lk = step(3) [OF out]
  have m': "res = Inr (locked_snapshot r (Suc n))" "m' = ?m\<lparr>mg_db := d', mg_connections := (mg_connections ?m)(?key \<mapsto> s')\<rparr>"
    using assms(6,2,4) rc out by (simp_all add: get_snapshot_def with_conn_def)
  from step(1) have ok': "conn_ok d' s'" by (rule gated_step_ok [THEN conjunct2])
  have "row_at d' (c, g) \<noteq> None"
  proof -
    have "d' = written (locked_snapshot r (Suc n)) ''LEASE_EXPIRED'' (clock 1) (mg_db ?m)" using lk by blast
    then have "protection_t d' = put_row (c, g) (advance (dec (Suc n)) ProtectedLocked (clock 1)) (mg_db ?m)"
      using r(6) ids by simp
    from row_at_put [OF advance_keeps this, of "(c, g)"] r(1) ids show ?thesis by simp
  qed
  then obtain r2 where r2: "row_at d' (conn_ids s') = Some r2" using lk ids by auto
  have agree: "row_agrees s' r2" by (rule conn_ok_row [OF ok' r2])
  have refused: "\<not> is_ok (fst (with_authorized_gate io clock' b commit m'))"
    if "db_connection_id b = c" "db_connection_generation b = g" for io clock' b commit
  proof (cases "cn_lock_waiters s' = 0")
    case True
    have "lease_expired_at (ps_mode (cn_snapshot s')) (cn_lease s') t = False" for t
      using lk by (auto simp: lease_expired_at_def)
    then have "authorize_gated io clock' b (s', d') = (validate_dispatch (clock' 1) s' b, (s', d'))"
      by (simp add: authorize_gated_def reconcile_expired_lease_def)
    moreover have "\<not> is_ok (validate_dispatch (clock' 1) s' b)" using lk by (auto simp: validate_dispatch_def)
    ultimately show ?thesis using that True
      by (cases "validate_dispatch (clock' 1) s' b")
        (auto simp: with_authorized_gate_unfold dispatch_enter_def conn_at_def m'(2) with_conn_def)
  qed (use that in \<open>simp add: with_authorized_gate_unfold dispatch_enter_def conn_at_def m'(2)\<close>)
  have snap: "cn_snapshot s' = locked_snapshot r (Suc n)" and ev: "d' = written (locked_snapshot r (Suc n)) ''LEASE_EXPIRED'' (clock 1) (mg_db ?m)"
    using lk by (blast intro: sym)+
  have r2': "p_revision r2 = ps_protection_revision (locked_snapshot r (Suc n))" "p_mode r2 = ProtectedLocked"
    using agree unfolding row_agrees_def snap by simp_all
  show ?thesis
  proof (intro exI conjI allI impI)
    show "res = Inr (locked_snapshot r (Suc n))" by (rule m'(1))
    show "p_revision r2 = ps_protection_revision (locked_snapshot r (Suc n))" "p_mode r2 = ProtectedLocked" by (fact r2')+
    show "dec_val (ps_protection_revision (locked_snapshot r (Suc n))) = Suc (revision_of s)" using r(5) by simp
    fix io clock' and b :: dispatch_binding and commit
    assume "db_connection_id b = c" and "db_connection_generation b = g"
    then show "\<not> is_ok (fst (with_authorized_gate io clock' b commit m'))" by (rule refused)
  next
    show "row_at (mg_db m') (c, g) = Some r2" using r2 lk ids m'(2) by simp
    show "last (protection_events_t (mg_db m')) = event_of (locked_snapshot r (Suc n)) ''LEASE_EXPIRED'' (clock 1)"
      unfolding m'(2) ev by simp
  qed simp
qed

lemma expired_lease_locks_witness:
  "\<exists>snap m' r. get_snapshot True (\<lambda>_. 0) ''c'' ''1'' demo_unlocked = (Inr snap, m') \<and>
     ps_mode snap = ProtectedLocked \<and> dec_val (ps_protection_revision snap) = 3 \<and>
     row_at (mg_db m') (''c'', ''1'') = Some r \<and> p_mode r = ProtectedLocked"
proof -
  let ?y = "demo_sys demo_unlocked [] (\<lambda>_. None)"
  have y: "py_mgr ?y = demo_unlocked" by (simp add: demo_sys_def)
  obtain s where s: "conn_at demo_unlocked ''c'' ''1'' = Some s" "ps_mode (cn_snapshot s) = ProtectedUnlocked"
    "cn_lease s = Some \<lparr>ls_id = ''L'', ls_expires = 0\<rparr>" "ps_protection_revision (cn_snapshot s) = ''2''"
    using demo_unlocked_conn by (simp add: conn_at_def demo_key_def)
  obtain res m' where run: "get_snapshot True (\<lambda>_. 0) ''c'' ''1'' demo_unlocked = (res, m')" by (metis prod.exhaust)
  have "''2'' = dec 2" by code_simp
  then have two: "revision_of s = 2" using s(4) by (simp add: revision_of_def)
  have expired: "lease_expired_at (ps_mode (cn_snapshot s)) (cn_lease s) 0" using s by (simp add: lease_expired_at_def)
  have "\<exists>snap r. res = Inr snap \<and> ps_mode snap = ProtectedLocked \<and>
      dec_val (ps_protection_revision snap) = Suc (revision_of s) \<and>
      row_at (mg_db m') (''c'', ''1'') = Some r \<and> p_revision r = ps_protection_revision snap \<and> p_mode r = ProtectedLocked \<and>
      last (protection_events_t (mg_db m')) = event_of snap ''LEASE_EXPIRED'' 0 \<and>
      (\<forall>io clock' b commit. db_connection_id b = ''c'' \<longrightarrow> db_connection_generation b = ''1'' \<longrightarrow>
         \<not> is_ok (fst (with_authorized_gate io clock' b commit m')))"
    by (rule expired_lease_locks [OF demo_unlocked_reachable, unfolded y, OF s(1) _ expired _ run])
      (simp_all add: plain_generation_def)
  with run two show ?thesis by auto
qed

text \<open>
  C34. The loop of \<open>WithGrantBinding\<close> ends: with a clock that does not go back it takes at most two
  turns, whatever the state, the transaction outcomes and the readings are.
\<close>

theorem grant_loop_two_turns:
  assumes "\<And>i. clock i \<le> clock (Suc i)"
  shows "\<exists>out gs'. grant_loop 2 io clock c g (s, d) = (Some out, gs')"
proof -
  obtain res s1 d1 where rc: "reconcile_expired_lease io (clock 0) (s, d) = (res, (s1, d1))" by (metis prod.exhaust)
  show ?thesis
  proof (cases "\<exists>snap. res = Inr (snap, False) \<and> lease_expired_at (ps_mode (cn_snapshot s1)) (cn_lease s1) (clock 1)")
    case False
    then show ?thesis using rc
      by (cases res) (auto simp: numeral_2_eq_2 split: option.splits prod.splits)
  next
    case True
    have "clock 1 \<le> clock 2" using assms [of 1] by (simp add: numeral_2_eq_2)
    with True have again: "lease_expired_at (ps_mode (cn_snapshot s1)) (cn_lease s1) (clock 2)"
      by (auto simp: lease_expired_at_def split: option.splits)
    obtain res2 s2 d2 where rc2: "reconcile_expired_lease io (clock 2) (s1, d1) = (res2, (s2, d2))" by (metis prod.exhaust)
    with again have "\<not> (\<exists>snap. res2 = Inr (snap, False))"
      by (auto simp: reconcile_expired_lease_def split: sum.splits prod.splits)
    then have "\<exists>out gs'. grant_loop 1 io (\<lambda>i. clock (i + 2)) c g (s1, d1) = (Some out, gs')"
      using rc2 by (cases res2) (auto simp: numeral_2_eq_2 split: prod.splits)
    with True rc show ?thesis
      by (auto simp: numeral_2_eq_2 split: option.splits)
  qed
qed

lemma grant_loop_two_turns_witness:
  "\<exists>out gs'. grant_loop 2 True int ''c'' ''1'' (the (mg_connections demo_unlocked demo_key), mg_db demo_unlocked) = (Some out, gs')"
  by (rule grant_loop_two_turns) simp

text \<open>The head of a command answers without an error only by replaying.\<close>

lemma lookup_replay_marks: "lookup_replay io now scope digest m = (Some (r, None), m') \<Longrightarrow> cr_replayed r"
  by (auto simp: lookup_replay_def with_conn_def Let_def split: option.splits if_splits prod.splits sum.splits)

lemma lookup_replay_None:
  "lookup_replay io now scope digest m = (None, m') \<Longrightarrow> lookup_ledger scope (mg_db m) = None \<and> m' = m"
  by (auto simp: lookup_replay_def with_conn_def Let_def split: option.splits if_splits prod.splits sum.splits)

lemma reject_unavailable_marks:
  "reject_unavailable_generation io now c m = ((r, None), m') \<Longrightarrow> cr_replayed r"
  by (auto simp: reject_unavailable_generation_def with_immediate_def unavailable_tx_def ledger_replay_tx_def
      reject_tx_def insert_ledger_def tx_run command_error_def unavailable_generation_code_def
      split: option.splits if_splits prod.splits sum.splits)

lemma lock_gated_commits:
  assumes "rows_ok d" and run: "lock_gated io now c (s, d) = ((result, None), (s', d'))" and "\<not> cr_replayed result"
  shows "\<exists>r n cur. row_at d (cm_connection_id c, cm_generation c) = Some r \<and>
    ps_protection_revision cur = dec (Suc n) \<and> (ps_connection_id cur, ps_connection_generation cur) = row_key r \<and>
    result = \<lparr>cr_snapshot = cur, cr_applied_protection_revision = dec (Suc n), cr_replayed = False\<rparr> \<and>
    s' = s\<lparr>cn_snapshot := cur, cn_lease := None\<rparr> \<and>
    d' = with_entry (ledger_entry c ''OK'' (dec (Suc n)) now) (written cur ''LOCKED'' now d)"
proof -
  obtain r0 code where tx: "lock_tx c now d = Inr ((r0, code), d')"
    "result = settle_result s r0 code" "code = '''' \<or> command_error code = None"
    "code = '''' \<Longrightarrow> s' = s\<lparr>cn_snapshot := cr_snapshot result, cn_lease := None\<rparr>"
    using run by (auto simp: lock_gated_def with_immediate_def Let_def split: sum.splits prod.splits if_splits)
  from lock_tx_outcome [OF assms(1) tx(1)] have "command_outcome c ''LOCKED'' now d r0 code d'" by blast
  then show ?thesis
  proof (cases rule: command_outcome.cases)
    case (replayed e x err)
    with tx(2) assms(3) show ?thesis by (simp add: settle_result_def split: if_splits)
  next
    case (rejected r)
    with tx(3) show ?thesis by (simp add: command_error_def)
  next
    case (committed r n cur)
    then have "result = r0" using tx(2) by (simp add: settle_result_def)
    with committed tx(4) show ?thesis by auto
  qed
qed

text \<open>
  A \<open>Lock\<close> that has succeeded is answered from the ledger when it is sent again, with the same
  result marked as replayed; the second call changes neither the database nor any connection.
\<close>

theorem lock_replays:
  assumes "rows_ok (mg_db m)" and "lock uuid_ok sha256_hex io clock req m = ((result, None), m')"
    and "\<not> cr_replayed result"
  shows "lock uuid_ok sha256_hex io' clock' req m' = ((result\<lparr>cr_replayed := True\<rparr>, None), m')"
proof -
  obtain c where c: "lock_command uuid_ok sha256_hex req = Inr c"
    using assms(2) by (cases "lock_command uuid_ok sha256_hex req") (auto simp: lock_def)
  let ?key = "generation_key (cm_connection_id c) (cm_generation c)"
  have head: "lookup_ledger (cm_scope c) (mg_db m) = None"
    and commit: "lock_commit (io 1) (clock 2) c (the (mg_connections (lock_accept ?key m) ?key)) (lock_accept ?key m) =
      ((result, None), m')"
    using assms(2,3) c
    by (auto simp: lock_def command_head_def Let_def conn_at_def split: option.splits prod.splits
        dest: lookup_replay_marks reject_unavailable_marks lookup_replay_None)
  define s where "s = the (mg_connections (lock_accept ?key m) ?key)"
  obtain s' d' where f: "lock_gated (io 1) (clock 2) c (s, mg_db m) = ((result, None), (s', d'))"
    and m': "m' = m\<lparr>mg_db := d', mg_connections := (mg_connections m)(?key \<mapsto> finish_lock_pending s')\<rparr>"
  proof -
    have "mg_db (lock_accept ?key m) = mg_db m"
      "(lock_accept ?key m)\<lparr>mg_db := d, mg_connections := (mg_connections (lock_accept ?key m))(?key \<mapsto> x)\<rparr> =
        m\<lparr>mg_db := d, mg_connections := (mg_connections m)(?key \<mapsto> x)\<rparr>" for d x
      by (simp_all add: lock_accept_def)
    with commit show thesis
      by (auto simp: lock_commit_def with_conn_def s_def [symmetric] split: prod.splits intro: that)
  qed
  from lock_gated_commits [OF assms(1) f assms(3)] obtain r n cur where
    r: "row_at (mg_db m) (cm_connection_id c, cm_generation c) = Some r"
    and cur: "ps_protection_revision cur = dec (Suc n)" "(ps_connection_id cur, ps_connection_generation cur) = row_key r"
    and res: "result = \<lparr>cr_snapshot = cur, cr_applied_protection_revision = dec (Suc n), cr_replayed = False\<rparr>"
    and s': "s' = s\<lparr>cn_snapshot := cur, cn_lease := None\<rparr>"
    and d': "d' = with_entry (ledger_entry c ''OK'' (dec (Suc n)) (clock 2)) (written cur ''LOCKED'' (clock 2) (mg_db m))"
    by blast
  let ?e = "ledger_entry c ''OK'' (dec (Suc n)) (clock 2)" and ?s = "finish_lock_pending s'"
  have key: "row_key r = (cm_connection_id c, cm_generation c)" using tbl_get_SomeD [OF r] by simp
  have entry: "lookup_ledger (cm_scope c) (mg_db m') = Some ?e"
    using head by (simp add: m' d' lookup_ledger_def table_simps ledger_entry_def)
  have fields: "pl_digest ?e = cm_digest c" "pl_connection_id ?e = cm_connection_id c" "pl_generation ?e = cm_generation c"
    "pl_result_code ?e = ''OK''" "applied_revision ?e = dec (Suc n)"
    by (simp_all add: ledger_entry_def applied_revision_def nullable_def)
  have pt: "protection_t d' = put_row (cm_connection_id c, cm_generation c) (advance (dec (Suc n)) (ps_mode cur) (clock 2)) (mg_db m)"
    using cur key by (simp add: d')
  have "read_snapshot (cm_connection_id c) (cm_generation c) d' =
      Some (snapshot_of_row (advance (dec (Suc n)) (ps_mode cur) (clock 2) r), p_closed_at r \<noteq> None)"
    using row_at_put [OF advance_keeps pt, of "(cm_connection_id c, cm_generation c)"] r
    by (simp add: read_snapshot_def)
  then have replay: "replay_from ?e d' = (\<lparr>cr_snapshot = snapshot_of_row (advance (dec (Suc n)) (ps_mode cur) (clock 2) r),
      cr_applied_protection_revision = dec (Suc n), cr_replayed = True\<rparr>, None)"
    using fields by (simp add: replay_from_def command_error_def)
  have "p_connection_id (advance v md t r) = p_connection_id r" "p_generation (advance v md t r) = p_generation r" for v md t
    by (simp_all add: advance_def)
  then have current: "snapshot_from_state_if_current ?s (snapshot_of_row (advance (dec (Suc n)) (ps_mode cur) (clock 2) r)) = cur"
    using cur by (simp add: snapshot_from_state_if_current_def s' finish_lock_pending_def)
  have alive: "reconcile_expired_lease (io' 0) (clock' 0) (?s, d') = (Inr (cn_snapshot ?s, False), (?s, d'))"
    by (simp add: reconcile_expired_lease_def lease_expired_at_def s' finish_lock_pending_def)
  have conn: "conn_at m' (cm_connection_id c) (cm_generation c) = Some ?s" by (simp add: conn_at_def m')
  have "lookup_replay (io' 0) (clock' 0) (cm_scope c) (cm_digest c) m' =
      (Some (result\<lparr>cr_replayed := True\<rparr>, None), m'\<lparr>mg_db := d', mg_connections := (mg_connections m')(?key \<mapsto> ?s)\<rparr>)"
    using entry fields conn alive replay current
    by (simp add: lookup_replay_def with_conn_def m' res)
  also have "m'\<lparr>mg_db := d', mg_connections := (mg_connections m')(?key \<mapsto> ?s)\<rparr> = m'" by (simp add: m')
  finally show ?thesis using c by (simp add: lock_def command_head_def)
qed

definition demo_lock_call :: "manager \<Rightarrow> outcome \<times> manager" where
  "demo_lock_call = lock (\<lambda>_. True) (\<lambda>_. ''d'') (\<lambda>_. True) (\<lambda>_. - unlock_duration)
     \<lparr>lr_connection_id = ''c'', lr_command_request_id = ''l'', lr_expected_connection_generation = ''1''\<rparr>"

lemma demo_lock_call_result:
  "fst (demo_lock_call demo_unlocked) = (\<lparr>cr_snapshot = \<lparr>ps_connection_id = ''c'', ps_connection_generation = ''1'',
       ps_protection_revision = ''3'', ps_mode = ProtectedLocked, ps_lease_id = None, ps_unlocked_until = None\<rparr>,
     cr_applied_protection_revision = ''3'', cr_replayed = False\<rparr>, None)"
  by code_simp

lemma lock_replays_witness:
  "\<exists>result m'. demo_lock_call demo_unlocked = ((result, None), m') \<and>
     demo_lock_call m' = ((result\<lparr>cr_replayed := True\<rparr>, None), m')"
proof -
  have "rows_ok (mg_db (py_mgr (demo_sys demo_unlocked [] (\<lambda>_. None))))"
    using reachable_prot_inv [OF demo_unlocked_reachable] by (simp add: prot_inv_def conns_ok_def)
  then have rows: "rows_ok (mg_db demo_unlocked)" by (simp add: demo_sys_def)
  obtain result m' where run: "demo_lock_call demo_unlocked = ((result, None), m')" and new: "\<not> cr_replayed result"
    using demo_lock_call_result by (cases "demo_lock_call demo_unlocked") auto
  from lock_replays [OF rows run [unfolded demo_lock_call_def] new] run show ?thesis
    unfolding demo_lock_call_def by blast
qed

section \<open>A lock replayed inside the gate\<close>











end
