(* ===== verification/Operation.thy ===== *)
theory Operation
  imports Tasks Protection_Laws Influxql_Policy
begin

text \<open>
  \<open>internal/operation\<close> (\<open>types.go\<close>, \<open>service.go\<close>, \<open>cancel.go\<close>): a mutation is previewed under a
  protection lease, executed once from its preview token, dispatched by a goroutine under the gate of
  its generation, and may be canceled.

  \<open>op_service\<close> is \<open>Service\<close> with the manager it uses (whose \<open>mg_db\<close> is the store); \<open>Execute\<close> starts a
  goroutine, whose progress is a \<open>goroutine\<close> value of the system \<open>Operation_System\<close>.

  Parameters: the parser and printer of the query language, \<open>type_name\<close> (\<open>%T\<close> of a statement) and
  \<open>target_text\<close> (its \<open>Name\<close>, \<open>Source\<close>, \<open>Sources\<close> or \<open>QueryID\<close> as text), \<open>sha256_hex\<close>, \<open>uuid_ok\<close>, the
  new operation id, the tokens drawn from \<open>rand.Reader\<close>, \<open>decode_json\<close> (what the JSON decoder makes of
  a response body), the outcome of \<open>BeginRoundTrip\<close> and of \<open>attempt.Wait\<close>.
\<close>

section \<open>types.go\<close>

abbreviation OpQueued :: string where "OpQueued \<equiv> ''QUEUED''"
abbreviation OpDispatching :: string where "OpDispatching \<equiv> ''DISPATCHING''"
abbreviation OpSucceeded :: string where "OpSucceeded \<equiv> ''SUCCEEDED''"
abbreviation OpRejected :: string where "OpRejected \<equiv> ''REJECTED''"
abbreviation OpRejectedNotSent :: string where "OpRejectedNotSent \<equiv> ''REJECTED_NOT_SENT''"
abbreviation OpCanceledNotSent :: string where "OpCanceledNotSent \<equiv> ''CANCELED_NOT_SENT''"
abbreviation OpOutcomeUnknown :: string where "OpOutcomeUnknown \<equiv> ''OUTCOME_UNKNOWN''"
abbreviation OpFailedInternalNotSent :: string where "OpFailedInternalNotSent \<equiv> ''FAILED_INTERNAL_NOT_SENT''"

abbreviation ErrPreviewUnavailable :: go_error where
  "ErrPreviewUnavailable \<equiv> Sentinel PkgOperation ''MUTATION_PREVIEW_UNAVAILABLE''"
abbreviation ErrPreviewExpired :: go_error where
  "ErrPreviewExpired \<equiv> Sentinel PkgOperation ''MUTATION_PREVIEW_EXPIRED''"
abbreviation ErrConfirmationMismatch :: go_error where
  "ErrConfirmationMismatch \<equiv> Sentinel PkgOperation ''MUTATION_CONFIRMATION_MISMATCH''"
abbreviation op_ErrNotFound :: go_error where
  "op_ErrNotFound \<equiv> Sentinel PkgOperation ''OPERATION_NOT_FOUND''"
abbreviation op_ErrStateConflict :: go_error where
  "op_ErrStateConflict \<equiv> Sentinel PkgOperation ''OPERATION_STATE_CONFLICT''"

record preview_request =
  pq_database :: string
  pq_retention_policy :: string
  pq_query :: string

record preview =
  pv_canonical_query :: string
  pv_operation_kind :: string
  pv_target :: string
  pv_confirmation_required :: bool
  pv_executable :: bool
  pv_token :: "string option"
  pv_expires_at :: "string option"

record execute_request =
  xr_client_request_id :: string
  xr_preview_token :: string
  xr_confirmation :: string

record command_envelope =
  en_command_request_id :: string
  en_expected_state_revision :: string

record operation =
  op_task :: meta
  op_profile_id :: string
  op_profile_revision :: string
  op_connection_id :: string
  op_connection_generation :: string
  op_protection_revision :: string
  op_action_digest :: string
  op_operation_kind :: string
  op_dispatch_attempted :: bool
  op_cancel_requested :: bool
  op_replayed :: bool

definition op_canonical_decimal :: "string \<Rightarrow> string result" where
  "op_canonical_decimal value =
     (case canonical_big value of None \<Rightarrow> Inl tasks_ErrInvalidDecimal | Some s \<Rightarrow> Inr s)"

section \<open>The service\<close>

record token_record =
  tk_token :: string
  tk_canonical_query :: string
  tk_database :: string
  tk_retention_policy :: string
  tk_operation_kind :: string
  tk_target :: string
  tk_confirmation_required :: bool
  tk_action_digest :: string
  tk_binding :: dispatch_binding
  tk_expires :: time

record op_control =
  oc_started :: bool
  oc_canceled :: bool

record op_service =
  sv_mgr :: manager
  sv_profile_id :: string
  sv_profile_revision :: string
  sv_connection_id :: string
  sv_generation :: string
  sv_preview_ttl :: time
  sv_tokens :: "string \<rightharpoonup> token_record"
  sv_controls :: "string \<rightharpoonup> op_control"

definition new_service :: "manager \<Rightarrow> string \<Rightarrow> string \<Rightarrow> string \<Rightarrow> string \<Rightarrow> time \<Rightarrow> op_service" where
  "new_service m profile_id profile_revision connection_id generation ttl =
     \<lparr>sv_mgr = m, sv_profile_id = profile_id, sv_profile_revision = profile_revision,
      sv_connection_id = connection_id, sv_generation = generation,
      sv_preview_ttl = (if ttl \<le> 0 \<or> ttl > 120 * second then 120 * second else ttl),
      sv_tokens = (\<lambda>_. None), sv_controls = (\<lambda>_. None)\<rparr>"

abbreviation sv_db :: "op_service \<Rightarrow> db" where "sv_db s \<equiv> mg_db (sv_mgr s)"

definition put_db :: "db \<Rightarrow> op_service \<Rightarrow> op_service" where
  "put_db d s = s\<lparr>sv_mgr := (sv_mgr s)\<lparr>mg_db := d\<rparr>\<rparr>"

definition digest_values :: "(string \<Rightarrow> string) \<Rightarrow> string list \<Rightarrow> string" where
  "digest_values sha256_hex vs =
     sha256_hex (concat (map (\<lambda>v. dec (length v) @ [CHR 0x00] @ v) vs))"

definition action_digest :: "(string \<Rightarrow> string) \<Rightarrow> token_record \<Rightarrow> string" where
  "action_digest sha256_hex r = digest_values sha256_hex
     [''MutationActionV1'', tk_operation_kind r, tk_database r, tk_retention_policy r,
      tk_canonical_query r, db_connection_generation (tk_binding r), db_protection_revision (tk_binding r)]"

definition execute_digest :: "(string \<Rightarrow> string) \<Rightarrow> execute_request \<Rightarrow> string" where
  "execute_digest sha256_hex request = digest_values sha256_hex
     [''ExecuteMutationV1'', sha256_hex (xr_preview_token request), xr_confirmation request]"

definition purge_expired :: "time \<Rightarrow> (string \<rightharpoonup> token_record) \<Rightarrow> (string \<rightharpoonup> token_record)" where
  "purge_expired now tokens = (\<lambda>t. case tokens t of
     None \<Rightarrow> None | Some r \<Rightarrow> if now < tk_expires r then Some r else None)"

text \<open>\<open>getInTx\<close>: the task snapshot and the operation's own columns.\<close>

definition operation_of :: "meta \<Rightarrow> operation_row \<Rightarrow> operation" where
  "operation_of m r = \<lparr>op_task = m, op_profile_id = o_profile_id r, op_profile_revision = o_profile_revision r,
     op_connection_id = o_connection_id r, op_connection_generation = o_connection_generation r,
     op_protection_revision = o_protection_revision r, op_action_digest = o_action_digest r,
     op_operation_kind = o_operation_kind r, op_dispatch_attempted = o_dispatch_attempted r,
     op_cancel_requested = o_cancel_requested r, op_replayed = False\<rparr>"

definition op_get :: "string \<Rightarrow> db \<Rightarrow> operation result" where
  "op_get i d =
     (case tbl_get t_id i (tasks_t d) of
        None \<Rightarrow> Inl op_ErrNotFound
      | Some m \<Rightarrow>
          (case tbl_get o_id i (operations_t d) of
             None \<Rightarrow> Inl op_ErrNotFound
           | Some r \<Rightarrow> Inr (operation_of m r)))"

definition op_get_tx :: "string \<Rightarrow> (db, operation) tx" where
  "op_get_tx i = (\<lambda>d. tx_lift (op_get i d) d)"

definition mark_replayed :: "operation \<Rightarrow> operation" where
  "mark_replayed out = out\<lparr>op_replayed := True\<rparr>"

text \<open>\<open>lookupIdempotency\<close>: \<open>None\<close> when the ledger has no entry.\<close>

definition op_lookup_idempotency :: "string \<Rightarrow> string \<Rightarrow> db \<Rightarrow> operation result option" where
  "op_lookup_idempotency scope digest d =
     (case tbl_get ie_scope scope (idempotency_t d) of
        None \<Rightarrow> None
      | Some entry \<Rightarrow>
          if ie_request_digest entry \<noteq> digest then Some (Inl tasks_ErrIdempotencyConflict)
          else Some (case op_get (ie_resource_id entry) d of
            Inl e \<Rightarrow> Inl e | Inr out \<Rightarrow> Inr (mark_replayed out)))"

definition operation_from_record :: "meta \<Rightarrow> token_record \<Rightarrow> string \<Rightarrow> operation" where
  "operation_from_record m r profile_id = \<lparr>op_task = m, op_profile_id = profile_id,
     op_profile_revision = db_profile_revision (tk_binding r),
     op_connection_id = db_connection_id (tk_binding r),
     op_connection_generation = db_connection_generation (tk_binding r),
     op_protection_revision = db_protection_revision (tk_binding r), op_action_digest = tk_action_digest r,
     op_operation_kind = tk_operation_kind r, op_dispatch_attempted = False, op_cancel_requested = False,
     op_replayed = False\<rparr>"

section \<open>Preview\<close>

fun trim_suffix :: "string \<Rightarrow> string \<Rightarrow> string" where
  "trim_suffix s suffix =
     (if length suffix \<le> length s \<and> drop (length s - length suffix) s = suffix
      then take (length s - length suffix) s else s)"

text \<open>The text after the last dot; a text without a dot is kept, with its suffix.\<close>

definition statement_kind :: "string \<Rightarrow> string" where
  "statement_kind tn =
     (if CHR ''.'' \<in> set tn then trim_suffix (rev (takeWhile (\<lambda>c. c \<noteq> CHR ''.'') (rev tn))) ''Statement'' else tn)"

definition needs_confirmation :: "statement \<Rightarrow> bool" where
  "needs_confirmation s = (s \<in> set (map PlainStatement
     [DropDatabase, DropMeasurement, DropRetentionPolicy, DropContinuousQuery, DropUser, Delete,
      DropSeries, DeleteSeries, KillQuery]))"

definition mutation_target ::
  "(statement \<Rightarrow> string) \<Rightarrow> (statement \<Rightarrow> string) \<Rightarrow> statement \<Rightarrow> string \<times> string \<times> bool" where
  "mutation_target type_name target_text s =
     (if needs_confirmation s then (statement_kind (type_name s), target_text s, True)
      else (statement_kind (type_name s), '''', False))"

fun allocate_token :: "nat \<Rightarrow> (nat \<Rightarrow> string option) \<Rightarrow> (string \<rightharpoonup> token_record) \<Rightarrow> string result" where
  "allocate_token 0 rand tokens = Inl (PlainError ''cannot allocate unique preview token'')"
| "allocate_token (Suc n) rand tokens =
     (case rand 0 of
        None \<Rightarrow> Inl (PlainError ''rand'')
      | Some t \<Rightarrow> if tokens t = None then Inr t else allocate_token n (\<lambda>i. rand (Suc i)) tokens)"

text \<open>
  The callback of \<open>WithGrantBinding\<close>: the token map it leaves, and the token with its expiry or an
  error.  \<open>now i\<close> is the \<open>i\<close>-th reading of \<open>options.Now\<close>.
\<close>

definition issue_token ::
  "(string \<Rightarrow> string) \<Rightarrow> (nat \<Rightarrow> time) \<Rightarrow> (nat \<Rightarrow> string option) \<Rightarrow> preview_request \<Rightarrow> preview \<Rightarrow>
     dispatch_binding \<Rightarrow> time \<Rightarrow> (string \<rightharpoonup> token_record) \<Rightarrow> (string \<rightharpoonup> token_record) \<times> (string \<times> time) result" where
  "issue_token sha256_hex now rand request pv b expires tokens =
     (case allocate_token 4 rand tokens of
        Inl e \<Rightarrow> (tokens, Inl e)
      | Inr token \<Rightarrow>
          (let record0 = \<lparr>tk_token = token, tk_canonical_query = pv_canonical_query pv,
                 tk_database = pq_database request, tk_retention_policy = pq_retention_policy request,
                 tk_operation_kind = pv_operation_kind pv, tk_target = pv_target pv,
                 tk_confirmation_required = pv_confirmation_required pv, tk_action_digest = '''',
                 tk_binding = b, tk_expires = expires\<rparr>;
               record1 = record0\<lparr>tk_action_digest := action_digest sha256_hex record0\<rparr>
           in if now 3 < expires then (tokens(token \<mapsto> record1), Inr (token, expires))
              else (tokens, Inl ErrLeaseExpired)))"

definition issue_preview ::
  "(string \<Rightarrow> string) \<Rightarrow> (nat \<Rightarrow> time) \<Rightarrow> (nat \<Rightarrow> string option) \<Rightarrow> op_service \<Rightarrow> preview_request \<Rightarrow> preview \<Rightarrow>
     dispatch_binding \<Rightarrow> protection_snapshot \<Rightarrow> (string \<rightharpoonup> token_record) \<times> (string \<times> time) result" where
  "issue_preview sha256_hex now rand s request pv b snapshot =
     (if db_profile_revision b \<noteq> sv_profile_revision s then (sv_tokens s, Inl ErrBindingMismatch)
      else case ps_unlocked_until snapshot of
        None \<Rightarrow> (sv_tokens s, Inl ErrLocked)
      | Some text \<Rightarrow>
          (case parse_rfc3339nano text of
             None \<Rightarrow> (sv_tokens s, Inl ErrBindingMismatch)
           | Some lease_expiry \<Rightarrow>
               (let expires = now 0 + sv_preview_ttl s;
                    expires = (if lease_expiry < expires then lease_expiry else expires)
                in if \<not> now 1 < expires then (sv_tokens s, Inl ErrLeaseExpired)
                   else issue_token sha256_hex now rand request pv b expires
                          (purge_expired (now 2) (sv_tokens s)))))"

text \<open>What \<open>Preview\<close> makes of the outcome of \<open>WithGrantBinding\<close>: without a lease the preview is not executable.\<close>

definition preview_outcome ::
  "preview \<Rightarrow> op_service \<Rightarrow> ((string \<rightharpoonup> token_record) \<times> (string \<times> time) result) result \<Rightarrow> manager \<Rightarrow>
     preview result \<times> op_service" where
  "preview_outcome pv s issued m =
     (case issued of
        Inl e \<Rightarrow> (if e = ErrLocked \<or> e = ErrLeaseExpired then Inr pv else Inl e, s\<lparr>sv_mgr := m\<rparr>)
      | Inr (tokens, Inl e) \<Rightarrow>
          (if e = ErrLocked \<or> e = ErrLeaseExpired then Inr pv else Inl e, s\<lparr>sv_mgr := m, sv_tokens := tokens\<rparr>)
      | Inr (tokens, Inr (token, expires)) \<Rightarrow>
          (Inr (pv\<lparr>pv_executable := True, pv_token := Some token, pv_expires_at := Some (rfc3339nano expires)\<rparr>),
           s\<lparr>sv_mgr := m, sv_tokens := tokens\<rparr>))"

definition preview_mutation ::
  "(string \<Rightarrow> string + statement list) \<Rightarrow> (statement \<Rightarrow> string) \<Rightarrow> (statement list \<Rightarrow> string) \<Rightarrow>
     (statement \<Rightarrow> string) \<Rightarrow> (statement \<Rightarrow> string) \<Rightarrow> (string \<Rightarrow> string) \<Rightarrow> bool \<Rightarrow> (nat \<Rightarrow> time) \<Rightarrow> (nat \<Rightarrow> time) \<Rightarrow>
     (nat \<Rightarrow> string option) \<Rightarrow> preview_request \<Rightarrow> op_service \<Rightarrow> preview result \<times> op_service" where
  "preview_mutation parse stmt_text query_text type_name target_text sha256_hex io clock now rand request s =
     (case parse_and_classify parse stmt_text query_text (pq_query request) of
        Inl e \<Rightarrow> (Inl ErrPreviewUnavailable, s)
      | Inr a \<Rightarrow>
          if an_classification a \<noteq> MayMutate \<or> length (an_statements a) \<noteq> 1 then (Inl ErrPreviewUnavailable, s)
          else
            (let (kind, target, confirmation) =
                   mutation_target type_name target_text (case an_parsed a of Some (stmt # _) \<Rightarrow> stmt | _ \<Rightarrow> NilStatement);
                 pv = \<lparr>pv_canonical_query = an_canonical a, pv_operation_kind = kind, pv_target = target,
                   pv_confirmation_required = confirmation, pv_executable = False, pv_token = None,
                   pv_expires_at = None\<rparr>
             in case with_grant_binding io clock (sv_connection_id s) (sv_generation s)
                  (\<lambda>b snapshot d. (Inr (issue_preview sha256_hex now rand s request pv b snapshot), d)) (sv_mgr s) of
                  ((_, issued), m) \<Rightarrow> preview_outcome pv s issued m))"

section \<open>Execute\<close>

definition execute_scope :: "op_service \<Rightarrow> execute_request \<Rightarrow> string" where
  "execute_scope s request =
     ''EXECUTE_MUTATION'' @ [CHR 0x1F] @ sv_profile_id s @ [CHR 0x1F] @ xr_client_request_id request"

text \<open>The transaction: a replay, or the task, the operation row and the ledger entry.\<close>

definition execute_tx ::
  "op_service \<Rightarrow> string \<Rightarrow> string \<Rightarrow> token_record \<Rightarrow> string \<Rightarrow> time \<Rightarrow> time \<Rightarrow> (db, operation) tx" where
  "execute_tx s scope digest record operation_id now task_now =
     tx_bind (lookup_idempotency_in_tx scope) (\<lambda>found.
       case found of
         Some entry \<Rightarrow>
           if ie_request_digest entry \<noteq> digest then tx_fail tasks_ErrIdempotencyConflict
           else tx_bind (op_get_tx (ie_resource_id entry)) (\<lambda>out. tx_return (mark_replayed out))
       | None \<Rightarrow>
           tx_bind (create_in_tx task_now operation_id ''OPERATION'' OpQueued False) (\<lambda>m.
           tx_bind (tx_insert operations_t operations_t_update (\<lambda>d. \<not> has_key o_id operation_id (operations_t d))
             \<lparr>o_id = operation_id, o_profile_id = sv_profile_id s, o_profile_revision = sv_profile_revision s,
              o_connection_id = sv_connection_id s, o_connection_generation = sv_generation s,
              o_protection_revision = db_protection_revision (tk_binding record),
              o_action_digest = tk_action_digest record, o_operation_kind = tk_operation_kind record,
              o_state = OpQueued, o_dispatch_attempted = False, o_cancel_requested = False,
              o_created_at = now, o_updated_at = now\<rparr>) (\<lambda>_.
           tx_bind (insert_idempotency_in_tx \<lparr>ie_scope = scope, ie_request_digest = digest,
             ie_resource_kind = ''OPERATION'', ie_resource_id = operation_id, ie_created_at = now,
             ie_expires_at = now + 90 * 24 * hour\<rparr>) (\<lambda>_.
           tx_return (operation_from_record m record (sv_profile_id s))))))"

text \<open>
  With the token lock held.  The result tells whether a goroutine is started, with the operation id
  and the token record it runs with.  The code starts one and registers its control whenever the
  transaction commits, also when that transaction found a ledger entry; since the lookup just before
  it found none and the lock is held, it does not.
\<close>

definition execute_locked ::
  "(string \<Rightarrow> string) \<Rightarrow> bool \<Rightarrow> (nat \<Rightarrow> time) \<Rightarrow> string \<Rightarrow> execute_request \<Rightarrow> op_service \<Rightarrow>
     operation result \<times> (string \<times> token_record) option \<times> op_service" where
  "execute_locked sha256_hex io now operation_id request s =
     (let scope = execute_scope s request; digest = execute_digest sha256_hex request in
      case op_lookup_idempotency scope digest (sv_db s) of
        Some r \<Rightarrow> (r, None, s)
      | None \<Rightarrow>
          (let s = s\<lparr>sv_tokens := purge_expired (now 0) (sv_tokens s)\<rparr> in
           case sv_tokens s (xr_preview_token request) of
             None \<Rightarrow> (Inl ErrPreviewExpired, None, s)
           | Some record \<Rightarrow>
               if tk_confirmation_required record \<and> xr_confirmation request \<noteq> tk_target record
               then (Inl ErrConfirmationMismatch, None, s)
               else if \<not> now 1 < tk_expires record
               then (Inl ErrPreviewExpired, None, s\<lparr>sv_tokens := (sv_tokens s)(xr_preview_token request := None)\<rparr>)
               else (case with_immediate io (execute_tx s scope digest record operation_id (now 2) (now 3)) (sv_db s) of
                   (Inl e, d) \<Rightarrow> (Inl e, None, put_db d s)
                 | (Inr out, d) \<Rightarrow>
                     (Inr out, Some (operation_id, record),
                      (put_db d s)\<lparr>sv_tokens := (sv_tokens s)(xr_preview_token request := None),
                         sv_controls := (sv_controls s)(operation_id \<mapsto> \<lparr>oc_started = False, oc_canceled = False\<rparr>)\<rparr>))))"

definition execute ::
  "(string \<Rightarrow> bool) \<Rightarrow> (string \<Rightarrow> string) \<Rightarrow> bool \<Rightarrow> (nat \<Rightarrow> time) \<Rightarrow> string \<Rightarrow> execute_request \<Rightarrow> op_service \<Rightarrow>
     operation result \<times> (string \<times> token_record) option \<times> op_service" where
  "execute uuid_ok sha256_hex io now operation_id request s =
     (if \<not> uuid_ok (xr_client_request_id request) \<or> xr_preview_token request = ''''
      then (Inl ErrPreviewUnavailable, None, s)
      else case op_lookup_idempotency (execute_scope s request) (execute_digest sha256_hex request) (sv_db s) of
        Some r \<Rightarrow> (r, None, s)
      | None \<Rightarrow> execute_locked sha256_hex io now operation_id request s)"

text \<open>\<open>ListStored\<close>: newest first; rows of equal time, whose order SQL leaves open, stay in table order.\<close>

fun insert_newest :: "operation_row \<Rightarrow> operation_row list \<Rightarrow> operation_row list" where
  "insert_newest r [] = [r]"
| "insert_newest r (x # xs) =
     (if text_less (rfc3339nano (o_created_at r)) (rfc3339nano (o_created_at x)) then x # insert_newest r xs
      else r # x # xs)"

fun get_all :: "string list \<Rightarrow> db \<Rightarrow> operation list result" where
  "get_all [] d = Inr []"
| "get_all (i # ids) d = rbind (op_get i d) (\<lambda>out. rbind (get_all ids d) (\<lambda>outs. Inr (out # outs)))"

definition list_stored :: "int \<Rightarrow> db \<Rightarrow> operation list result" where
  "list_stored limit d =
     (let limit = (if limit \<le> 0 \<or> limit > 1000 then 200 else limit)
      in get_all (map o_id (take (nat limit) (foldr insert_newest (operations_t d) []))) d)"

section \<open>Dispatch\<close>

text \<open>\<open>INSERT INTO audit_events ... SELECT ... FROM operations WHERE operation_id=?\<close>\<close>

definition audit_operation ::
  "string \<Rightarrow> (operation_row \<Rightarrow> string) \<Rightarrow> string \<Rightarrow> string \<Rightarrow> time \<Rightarrow> (db, unit) tx" where
  "audit_operation i action outcome correlation_id now =
     (\<lambda>d. Inr ((), d\<lparr>audit_t := audit_t d @ map (\<lambda>r. \<lparr>au_category = ''MUTATION'', au_action = action r,
        au_target_id = o_id r, au_target_digest = o_action_digest r, au_outcome = outcome,
        au_correlation_id = correlation_id, au_occurred_at = now\<rparr>) (filter (\<lambda>r. o_id r = i) (operations_t d))\<rparr>))"

definition set_operation ::
  "string \<Rightarrow> string \<Rightarrow> (operation_row \<Rightarrow> operation_row) \<Rightarrow> (db, unit) tx" where
  "set_operation i previous f =
     tx_bind (tx_update operations_t operations_t_update (\<lambda>r. o_id r = i \<and> o_state r = previous) f) (\<lambda>rows.
     tx_require (rows = 1) op_ErrStateConflict)"

definition transition_tx :: "string \<Rightarrow> string \<Rightarrow> bool \<Rightarrow> string \<Rightarrow> string \<Rightarrow> time \<Rightarrow> time \<Rightarrow> (db, unit) tx" where
  "transition_tx i state terminal change_type audit_outcome task_now now =
     tx_bind (get_in_tx i) (\<lambda>current.
     tx_bind (tx_require (\<not> (t_terminal current \<or> t_state current \<noteq> OpQueued \<or> state \<noteq> OpDispatching))
       op_ErrStateConflict) (\<lambda>_.
     tx_bind (apply_in_tx task_now current (no_change\<lparr>ch_state := state, ch_terminal := terminal,
       ch_state_changed := True, ch_change_type := change_type\<rparr>)) (\<lambda>_.
     tx_bind (set_operation i OpQueued (\<lambda>r. r\<lparr>o_state := state,
       o_dispatch_attempted := o_dispatch_attempted r \<or> state = OpDispatching, o_updated_at := now\<rparr>)) (\<lambda>_.
     audit_operation i o_operation_kind audit_outcome i now))))"

definition finish_tx :: "string \<Rightarrow> string \<Rightarrow> string \<Rightarrow> string \<Rightarrow> string \<Rightarrow> time \<Rightarrow> time \<Rightarrow> (db, unit) tx" where
  "finish_tx i state code message audit task_now now =
     tx_bind (get_in_tx i) (\<lambda>current.
       if t_terminal current then tx_return ()
       else
         tx_bind (apply_in_tx task_now current (no_change\<lparr>ch_state := state, ch_terminal := True,
           ch_state_changed := True, ch_change_type := ''STATE'',
           ch_public_error_code := (if code \<noteq> '''' then Some code else None),
           ch_public_safe_message := (if code \<noteq> '''' then Some message else None)\<rparr>)) (\<lambda>_.
         tx_bind (set_operation i (t_state current) (\<lambda>r. r\<lparr>o_state := state, o_updated_at := now\<rparr>)) (\<lambda>_.
         audit_operation i o_operation_kind audit i now)))"

definition finish ::
  "bool \<Rightarrow> time \<Rightarrow> time \<Rightarrow> string \<Rightarrow> string \<times> string \<times> string \<times> string \<Rightarrow> op_service \<Rightarrow> op_service" where
  "finish io task_now now i = (\<lambda>(state, code, message, audit) s.
     put_db (snd (with_immediate io (finish_tx i state code message audit task_now now) (sv_db s))) s)"

text \<open>The response of the server: the status and what \<open>io.ReadAll\<close> of the limited body gives.\<close>

record http_response =
  hr_status :: int
  hr_body :: "string option"

record envelope =
  ev_error :: string
  ev_results :: "string list"

definition classify_mutation_response ::
  "(string \<Rightarrow> (envelope \<times> bool) option) \<Rightarrow> http_response \<Rightarrow> string \<times> string \<times> string \<times> string" where
  "classify_mutation_response decode_json response =
     (let unknown = (OpOutcomeUnknown, ''MUTATION_OUTCOME_UNKNOWN'', ''Mutation outcome is unknown'', ''UNKNOWN'');
          rejected = (OpRejected, ''MUTATION_REJECTED'', ''InfluxDB rejected the mutation'', ''REJECTED'')
      in if hr_status response < 200 \<or> hr_status response \<ge> 300
         then (if hr_status response \<ge> 500 then unknown else rejected)
         else case hr_body response of
           None \<Rightarrow> unknown
         | Some body \<Rightarrow>
             if length body > 65536 then unknown
             else (case decode_json body of
                 None \<Rightarrow> unknown
               | Some (envelope, at_end) \<Rightarrow>
                   if \<not> at_end \<or> ev_results envelope = [] then unknown
                   else if ev_error envelope \<noteq> '''' then rejected
                   else if list_ex (\<lambda>e. e \<noteq> '''') (ev_results envelope) then rejected
                   else (OpSucceeded, '''', '''', ''SUCCEEDED'')))"

text \<open>
  The goroutine up to the request on the wire: \<open>round_trip\<close> is what \<open>BeginRoundTrip\<close> returns.  The
  result tells whether the request was sent.
\<close>

definition set_control :: "string \<Rightarrow> (op_control \<Rightarrow> op_control) \<Rightarrow> op_service \<Rightarrow> op_service" where
  "set_control i f s = s\<lparr>sv_controls := (sv_controls s)(i := map_option f (sv_controls s i))\<rparr>"

definition drop_control :: "string \<Rightarrow> op_service \<Rightarrow> op_service" where
  "drop_control i s = s\<lparr>sv_controls := (sv_controls s)(i := None)\<rparr>"

definition persist_dispatch :: "bool \<Rightarrow> time \<Rightarrow> time \<Rightarrow> string \<Rightarrow> db \<Rightarrow> unit result \<times> db" where
  "persist_dispatch io task_now now i =
     with_immediate io (transition_tx i OpDispatching False ''DISPATCHING'' ''ATTEMPTED'' task_now now)"

text \<open>
  The goroutine when \<open>BeginMutationDispatch\<close> fails before its first callback: the binding is refused,
  or the context ends (canceled, or \<open>MutationTimeout\<close>) while it waits for the gate.
\<close>

definition dispatch_rejected :: "bool \<Rightarrow> time \<Rightarrow> time \<Rightarrow> string \<Rightarrow> op_service \<Rightarrow> op_service" where
  "dispatch_rejected io task_now now i s =
     drop_control i (finish io task_now now i
       (OpRejectedNotSent, ''MUTATION_AUTHORIZATION_REJECTED'', ''Mutation was not sent'', ''REJECTED'') s)"

definition dispatch_begin ::
  "(nat \<Rightarrow> bool) \<Rightarrow> (nat \<Rightarrow> time) \<Rightarrow> (nat \<Rightarrow> time) \<Rightarrow> unit result \<Rightarrow> string \<Rightarrow> token_record \<Rightarrow> op_service \<Rightarrow>
     bool \<times> op_service" where
  "dispatch_begin io clock now round_trip i record s =
     (case authorized_callback (io 0) clock (tk_binding record)
        (dispatch_callbacks (persist_dispatch (io 1) (now 0) (now 1) i) (Pair round_trip)) (sv_mgr s) of
        (Inr (Inr _), m) \<Rightarrow> (True, set_control i (\<lambda>c. c\<lparr>oc_started := True\<rparr>) (s\<lparr>sv_mgr := m\<rparr>))
      | (Inr (Inl _), m) \<Rightarrow>
          (False, drop_control i (finish (io 2) (now 2) (now 3) i
             (OpFailedInternalNotSent, ''MUTATION_START_FAILED_NOT_SENT'', ''Mutation was not sent'', ''REJECTED'')
             (s\<lparr>sv_mgr := m\<rparr>)))
      | (Inl _, m) \<Rightarrow>
          (False, dispatch_rejected (io 2) (now 2) (now 3) i (s\<lparr>sv_mgr := m\<rparr>)))"

text \<open>The goroutine after \<open>attempt.Wait\<close>: a response, or an error (\<open>None\<close>).\<close>

definition dispatch_finish ::
  "bool \<Rightarrow> time \<Rightarrow> time \<Rightarrow> (string \<Rightarrow> (envelope \<times> bool) option) \<Rightarrow> http_response option \<Rightarrow> string \<Rightarrow> op_service \<Rightarrow> op_service" where
  "dispatch_finish io task_now now decode_json response i s =
     drop_control i (finish io task_now now i
       (case response of
          None \<Rightarrow> (OpOutcomeUnknown, ''MUTATION_OUTCOME_UNKNOWN'', ''Mutation outcome is unknown'', ''UNKNOWN'')
        | Some r \<Rightarrow> classify_mutation_response decode_json r) s)"

section \<open>cancel.go\<close>

definition cancel_command_retention :: time where "cancel_command_retention = 90 * 24 * hour"

definition validate_cancel_command ::
  "(string \<Rightarrow> bool) \<Rightarrow> (string \<Rightarrow> string) \<Rightarrow> string \<Rightarrow> command_envelope \<Rightarrow> (string \<times> string \<times> string) result" where
  "validate_cancel_command uuid_ok sha256_hex i request =
     rbind (require (uuid_ok i) op_ErrNotFound) (\<lambda>_.
     rbind (require (uuid_ok (en_command_request_id request)) (PlainError ''invalid commandRequestId'')) (\<lambda>_.
     rbind (op_canonical_decimal (en_expected_state_revision request)) (\<lambda>revision.
     Inr (revision,
       ''OPERATION'' @ [CHR 0x1F] @ i @ [CHR 0x1F] @ ''CANCEL'' @ [CHR 0x1F] @ en_command_request_id request,
       digest_values sha256_hex [''CancelOperationV1'', i, revision, OpCanceledNotSent]))))"

text \<open>\<open>replayCancelCommand\<close>: \<open>None\<close> when the ledger has no entry.\<close>

definition replay_cancel_command :: "string \<Rightarrow> string \<Rightarrow> string \<Rightarrow> db \<Rightarrow> operation result option" where
  "replay_cancel_command i scope digest d =
     (case lookup_command_in_tx scope digest d of
        Inl e \<Rightarrow> Some (Inl e)
      | Inr (None, _) \<Rightarrow> None
      | Inr (Some entry, _) \<Rightarrow>
          if ce_resource_kind entry \<noteq> ''OPERATION'' \<or> ce_resource_id entry \<noteq> i
          then Some (Inl tasks_ErrCommandIdempotencyConflict)
          else Some (case op_get i d of Inl e \<Rightarrow> Inl e | Inr out \<Rightarrow> Inr (mark_replayed out)))"

definition insert_cancel_command :: "string \<Rightarrow> string \<Rightarrow> string \<Rightarrow> meta \<Rightarrow> time \<Rightarrow> (db, unit) tx" where
  "insert_cancel_command scope digest i m committed_at =
     insert_command_in_tx \<lparr>ce_scope = scope, ce_request_digest = digest, ce_resource_kind = ''OPERATION'',
       ce_resource_id = i, ce_result_state = t_state m, ce_result_state_revision = t_state_revision m,
       ce_public_error_code = None, ce_committed_at = committed_at, ce_expires_at = committed_at + cancel_command_retention\<rparr>"

text \<open>
  The transaction of \<open>applyCancel\<close>: the operation, whether it is a replay, and whether the
  cancellation was applied.  \<open>cancel_change_tx\<close> is the part that changes the state.
\<close>

definition cancel_change_tx ::
  "string \<Rightarrow> string \<Rightarrow> string \<Rightarrow> string \<Rightarrow> operation \<Rightarrow> bool \<Rightarrow> time \<Rightarrow> time \<Rightarrow> (db, operation) tx" where
  "cancel_change_tx i request_id scope digest current started task_now committed_at =
     (let previous = t_state (op_task current);
          state = (if started then OpDispatching else OpCanceledNotSent);
          change_type = (if started then ''CANCEL_REQUESTED'' else ''CANCELED_NOT_SENT'');
          audit_outcome = (if started then ''REQUESTED'' else ''CANCELED_NOT_SENT'')
      in
        tx_bind (tx_require (if started then previous = OpDispatching
          else previous = OpQueued \<or> previous = OpDispatching) op_ErrStateConflict) (\<lambda>_.
        tx_bind (apply_in_tx task_now (op_task current) (no_change\<lparr>ch_state := state,
          ch_terminal := \<not> started, ch_state_changed := True, ch_change_type := change_type\<rparr>)) (\<lambda>updated.
        tx_bind (set_operation i previous (\<lambda>r. r\<lparr>o_state := state, o_cancel_requested := True,
          o_updated_at := committed_at\<rparr>)) (\<lambda>_.
        tx_bind (insert_cancel_command scope digest i updated committed_at) (\<lambda>_.
        tx_bind (audit_operation i (\<lambda>_. ''CANCEL'') audit_outcome request_id committed_at) (\<lambda>_.
        op_get_tx i))))))"

definition apply_cancel_tx ::
  "string \<Rightarrow> string \<Rightarrow> string \<Rightarrow> string \<Rightarrow> string \<Rightarrow> bool \<Rightarrow> bool \<Rightarrow> time \<Rightarrow> time \<Rightarrow> (db, operation \<times> bool \<times> bool) tx" where
  "apply_cancel_tx i request_id revision scope digest started allow_active task_now committed_at =
     tx_bind (lookup_command_in_tx scope digest) (\<lambda>found.
       case found of
         Some entry \<Rightarrow>
           tx_bind (tx_require (ce_resource_kind entry = ''OPERATION'' \<and> ce_resource_id entry = i)
             tasks_ErrCommandIdempotencyConflict) (\<lambda>_.
           tx_bind (op_get_tx i) (\<lambda>out. tx_return (out, True, False)))
       | None \<Rightarrow>
           tx_bind (op_get_tx i) (\<lambda>current.
             if t_state (op_task current) = OpCanceledNotSent \<or> op_cancel_requested current then
               tx_bind (insert_cancel_command scope digest i (op_task current) committed_at) (\<lambda>_.
               tx_return (current, False, False))
             else if t_state_revision (op_task current) \<noteq> revision then tx_fail tasks_ErrRevisionConflict
             else if t_terminal (op_task current) \<or> \<not> allow_active then tx_fail op_ErrStateConflict
             else tx_bind (cancel_change_tx i request_id scope digest current started task_now committed_at) (\<lambda>out.
               tx_return (out, False, True))))"

definition cancel_stored_validated ::
  "bool \<Rightarrow> time \<Rightarrow> time \<Rightarrow> string \<Rightarrow> command_envelope \<Rightarrow> string \<Rightarrow> string \<Rightarrow> string \<Rightarrow> db \<Rightarrow> operation result \<times> db" where
  "cancel_stored_validated io task_now now i request revision scope digest d =
     (case replay_cancel_command i scope digest d of
        Some r \<Rightarrow> (r, d)
      | None \<Rightarrow>
          (case with_immediate io (apply_cancel_tx i (en_command_request_id request) revision scope digest
              False False task_now now) d of
             (Inl e, d) \<Rightarrow> (Inl e, d)
           | (Inr (out, replayed, _), d) \<Rightarrow> (Inr (out\<lparr>op_replayed := replayed\<rparr>), d)))"

definition cancel_stored ::
  "(string \<Rightarrow> bool) \<Rightarrow> (string \<Rightarrow> string) \<Rightarrow> bool \<Rightarrow> time \<Rightarrow> time \<Rightarrow> string \<Rightarrow> command_envelope \<Rightarrow> db \<Rightarrow>
     operation result \<times> db" where
  "cancel_stored uuid_ok sha256_hex io task_now now i request d =
     (case validate_cancel_command uuid_ok sha256_hex i request of
        Inl e \<Rightarrow> (Inl e, d)
      | Inr (revision, scope, digest) \<Rightarrow> cancel_stored_validated io task_now now i request revision scope digest d)"

text \<open>
  \<open>Cancel\<close> on a running operation, with the gate of the generation in hand; \<open>applied\<close> cancels the
  goroutine's context.
\<close>

definition cancel_active ::
  "bool \<Rightarrow> time \<Rightarrow> time \<Rightarrow> string \<Rightarrow> command_envelope \<Rightarrow> string \<Rightarrow> string \<Rightarrow> string \<Rightarrow> bool \<Rightarrow> op_service \<Rightarrow>
     operation result \<times> op_service" where
  "cancel_active io task_now now i request revision scope digest started s =
     (case with_immediate io (apply_cancel_tx i (en_command_request_id request) revision scope digest
         started True task_now now) (sv_db s) of
        (Inl e, d) \<Rightarrow> (Inl e, put_db d s)
      | (Inr (out, replayed, applied), d) \<Rightarrow>
          (Inr (out\<lparr>op_replayed := replayed\<rparr>),
           if applied then set_control i (\<lambda>c. c\<lparr>oc_canceled := True\<rparr>) (put_db d s) else put_db d s))"

definition op_cancel ::
  "(string \<Rightarrow> bool) \<Rightarrow> (string \<Rightarrow> string) \<Rightarrow> bool \<Rightarrow> time \<Rightarrow> time \<Rightarrow> string \<Rightarrow> command_envelope \<Rightarrow> op_service \<Rightarrow>
     operation result \<times> op_service" where
  "op_cancel uuid_ok sha256_hex io task_now now i request s =
     (case validate_cancel_command uuid_ok sha256_hex i request of
        Inl e \<Rightarrow> (Inl e, s)
      | Inr (revision, scope, digest) \<Rightarrow>
          (case replay_cancel_command i scope digest (sv_db s) of
             Some (Inl e) \<Rightarrow> (Inl e, s)
           | Some (Inr out) \<Rightarrow>
               (case sv_controls s i of
                  None \<Rightarrow> (Inr out, s)
                | Some _ \<Rightarrow>
                    (case conn_at (sv_mgr s) (sv_connection_id s) (sv_generation s) of
                       None \<Rightarrow> (Inl protection_ErrNotFound, s)
                     | Some _ \<Rightarrow>
                         (case op_get i (sv_db s) of Inl e \<Rightarrow> (Inl e, s) | Inr out \<Rightarrow> (Inr (mark_replayed out), s))))
           | None \<Rightarrow>
               (case op_get i (sv_db s) of
                  Inl e \<Rightarrow> (Inl e, s)
                | Inr current \<Rightarrow>
                    if op_connection_id current \<noteq> sv_connection_id s \<or>
                       op_connection_generation current \<noteq> sv_generation s then (Inl op_ErrNotFound, s)
                    else (case sv_controls s i of
                        None \<Rightarrow>
                          (case cancel_stored_validated io task_now now i request revision scope digest (sv_db s) of
                             (r, d) \<Rightarrow> (r, put_db d s))
                      | Some control \<Rightarrow>
                          (case conn_at (sv_mgr s) (sv_connection_id s) (sv_generation s) of
                             None \<Rightarrow> (Inl protection_ErrNotFound, s)
                           | Some _ \<Rightarrow>
                               cancel_active io task_now now i request revision scope digest (oc_started control) s)))))"

end
