(* ===== verification/Operation_System.thy ===== *)
theory Operation_System
  imports Operation
begin

text \<open>
  A mutation service with its goroutines.  \<open>op_step\<close> interleaves \<open>Execute\<close>, the two halves of each
  goroutine, \<open>Cancel\<close>, \<open>Preview\<close> and whatever other components do to the database and the
  connections; \<open>os_sent\<close> lists the operations whose request was put on the wire, in reverse order.
  The invariant ties the task row, the operation row, the goroutine and the wire of every operation.
\<close>

section \<open>One operation in the database\<close>

abbreviation op_row :: "db \<Rightarrow> string \<Rightarrow> operation_row option" where
  "op_row d i \<equiv> tbl_get o_id i (operations_t d)"

abbreviation op_meta :: "db \<Rightarrow> string \<Rightarrow> meta option" where
  "op_meta d i \<equiv> tbl_get t_id i (tasks_t d)"

definition live_state :: "string \<Rightarrow> bool" where
  "live_state st \<longleftrightarrow> st = OpQueued \<or> st = OpDispatching"

definition row_matches :: "operation_row \<Rightarrow> meta \<Rightarrow> bool" where
  "row_matches r m \<longleftrightarrow> t_state m = o_state r \<and> (t_terminal m \<longleftrightarrow> \<not> live_state (o_state r)) \<and>
     (o_state r = OpQueued \<longrightarrow> \<not> o_dispatch_attempted r \<and> \<not> o_cancel_requested r) \<and>
     (o_state r = OpDispatching \<longrightarrow> o_dispatch_attempted r)"

definition ops_ok :: "db \<Rightarrow> bool" where
  "ops_ok d \<longleftrightarrow> tasks_inv d \<and>
     (\<forall>i r. op_row d i = Some r \<longrightarrow> (\<exists>m. op_meta d i = Some m \<and> row_matches r m))"

text \<open>A transaction of one operation: the invariant, and the rows of the others.\<close>

definition op_moved :: "string \<Rightarrow> db \<Rightarrow> db \<Rightarrow> bool" where
  "op_moved i d d' \<longleftrightarrow> ops_ok d' \<and> (\<forall>k. k \<noteq> i \<longrightarrow> op_row d' k = op_row d k \<and> op_meta d' k = op_meta d k)"

lemma op_moved_refl: "ops_ok d \<Longrightarrow> op_moved i d d"
  by (simp add: op_moved_def)

lemma row_meta:
  assumes "ops_ok d" and "op_row d i = Some r"
  obtains m where "op_meta d i = Some m" "row_matches r m" "t_id m = i"
proof -
  from assms have "\<exists>m. op_meta d i = Some m \<and> row_matches r m" by (simp add: ops_ok_def)
  then obtain m where "op_meta d i = Some m" "row_matches r m" by blast
  with tbl_get_SomeD [of t_id i "tasks_t d" m] that show thesis by simp
qed

lemma set_operation_effect:
  assumes "set_operation i previous f d = Inr (u, d')" and "\<And>r. o_id (f r) = o_id r"
  shows "d' = d\<lparr>operations_t := tbl_upd (\<lambda>r. o_id r = i \<and> o_state r = previous) f (operations_t d)\<rparr>"
    and "op_row d' k = map_option (\<lambda>r. if o_id r = i \<and> o_state r = previous then f r else r) (op_row d k)"
proof -
  show d': "d' = d\<lparr>operations_t := tbl_upd (\<lambda>r. o_id r = i \<and> o_state r = previous) f (operations_t d)\<rparr>"
    using assms(1) by (auto simp: set_operation_def tx_simps)
  show "op_row d' k = map_option (\<lambda>r. if o_id r = i \<and> o_state r = previous then f r else r) (op_row d k)"
    unfolding d' by (simp add: tbl_get_upd assms(2))
qed

lemma audit_effect:
  "audit_operation i action outcome cid now d = Inr (u, d') \<Longrightarrow> tasks_t d' = tasks_t d \<and>
     operations_t d' = operations_t d \<and> idempotency_t d' = idempotency_t d \<and> command_t d' = command_t d \<and>
     task_events_t d' = task_events_t d \<and> event_head d' = event_head d \<and> protection_t d' = protection_t d \<and>
     protection_ledger_t d' = protection_ledger_t d"
  by (auto simp: audit_operation_def)

text \<open>
  The common shape of the three state changes: the task moves, the row moves with it, the change is
  audited.
\<close>

lemma change_effect:
  assumes ok: "ops_ok d" and cur: "op_meta d i = Some cur" and row: "op_row d i = Some r"
    and ch: "ch_state ch \<noteq> []" "ch_terminal ch \<longleftrightarrow> \<not> live_state (ch_state ch)"
    and run: "apply_in_tx tn cur ch d = Inr (m, d1)" "set_operation i (t_state cur) f d1 = Inr (u, d2)"
    and f: "\<And>r. o_id (f r) = o_id r" "o_state (f r) = ch_state ch"
      "ch_state ch = OpQueued \<longrightarrow> \<not> o_dispatch_attempted (f r) \<and> \<not> o_cancel_requested (f r)"
      "ch_state ch = OpDispatching \<longrightarrow> o_dispatch_attempted (f r)"
    and d3: "tasks_t d3 = tasks_t d2" "operations_t d3 = operations_t d2" "task_events_t d3 = task_events_t d2"
      "event_head d3 = event_head d2"
  shows "op_moved i d d3" and "op_row d3 i = Some (f r)" and "op_meta d3 i = Some m"
proof -
  have inv: "tasks_inv d" using ok by (simp add: ops_ok_def)
  note ap = apply_effect [OF inv cur run(1)]
  note so = set_operation_effect [OF run(2) f(1)]
  obtain m0 where m0: "op_meta d i = Some m0" "row_matches r m0" "t_id m0 = i" using row_meta [OF ok row] .
  with cur have st: "o_state r = t_state cur" by (simp add: row_matches_def)
  have rid: "o_id r = i" using tbl_get_SomeD [OF row] by simp
  have t3: "tasks_t d3 = tasks_t d1" using d3(1) so(1) by simp
  have inv3: "tasks_inv d3"
    using ap(1) tasks_inv_frame [of d3 d1] t3 d3 so(1) by simp
  show meta: "op_meta d3 i = Some m" using ap(6) [of i] t3 by simp
  have rowi: "op_row d3 i = Some (f r)" using so(2) [of i] ap(2) row st rid d3(2) by simp
  then show "op_row d3 i = Some (f r)" .
  have other: "op_row d3 k = op_row d k \<and> op_meta d3 k = op_meta d k" if "k \<noteq> i" for k
  proof -
    have "op_row d3 k = op_row d k"
      using so(2) [of k] ap(2) d3(2) that by (cases "op_row d k") (auto dest: tbl_get_SomeD)
    moreover have "op_meta d3 k = op_meta d k" using ap(6) [of k] t3 that by simp
    ultimately show ?thesis by simp
  qed
  have "\<exists>m. op_meta d3 k = Some m \<and> row_matches x m" if "op_row d3 k = Some x" for k x
  proof (cases "k = i")
    case True
    with that rowi have "x = f r" by simp
    with True meta ch f ap(7,8) show ?thesis by (simp add: row_matches_def)
  next
    case False
    with other [OF False] that ok show ?thesis by (simp add: ops_ok_def)
  qed
  with inv3 other show "op_moved i d d3" by (simp add: op_moved_def ops_ok_def)
qed

text \<open>\<open>finish\<close> either finds a terminal task and does nothing, or moves a live operation.\<close>

lemma finish_tx_effect:
  assumes ok: "ops_ok d" and row: "op_row d i = Some r" and st: "\<not> live_state state" "state \<noteq> []"
    and run: "finish_tx i state code message audit tn now d = Inr (u, d')"
  shows "op_moved i d d'"
    and "(\<not> live_state (o_state r) \<and> d' = d) \<or>
      (live_state (o_state r) \<and> op_row d' i = Some (r\<lparr>o_state := state, o_updated_at := now\<rparr>))"
proof -
  obtain cur where cur: "op_meta d i = Some cur" "row_matches r cur" using row_meta [OF ok row] by blast
  have "op_moved i d d' \<and> ((\<not> live_state (o_state r) \<and> d' = d) \<or>
      (live_state (o_state r) \<and> op_row d' i = Some (r\<lparr>o_state := state, o_updated_at := now\<rparr>)))"
  proof (cases "t_terminal cur")
    case True
    with run cur op_moved_refl [OF ok] show ?thesis by (auto simp: finish_tx_def tx_simps row_matches_def)
  next
    case False
    let ?ch = "no_change\<lparr>ch_state := state, ch_terminal := True, ch_state_changed := True, ch_change_type := ''STATE'',
      ch_public_error_code := (if code \<noteq> '''' then Some code else None),
      ch_public_safe_message := (if code \<noteq> '''' then Some message else None)\<rparr>"
    let ?f = "\<lambda>r. r\<lparr>o_state := state, o_updated_at := now\<rparr>"
    from run False cur(1) obtain m d1 u2 d2 where steps: "apply_in_tx tn cur ?ch d = Inr (m, d1)"
      "set_operation i (t_state cur) ?f d1 = Inr (u2, d2)"
      "audit_operation i o_operation_kind audit i now d2 = Inr (u, d')"
      by (auto simp: finish_tx_def tx_simps)
    have c: "ch_state ?ch \<noteq> []" "ch_terminal ?ch \<longleftrightarrow> \<not> live_state (ch_state ?ch)" using st by simp_all
    have f: "o_state (?f r) = ch_state ?ch" "ch_state ?ch = OpQueued \<longrightarrow> \<not> o_dispatch_attempted (?f r) \<and> \<not> o_cancel_requested (?f r)"
      "ch_state ?ch = OpDispatching \<longrightarrow> o_dispatch_attempted (?f r)"
      using st by (auto simp: live_state_def)
    note au = audit_effect [OF steps(3)]
    have "op_moved i d d'" "op_row d' i = Some (?f r)"
      using change_effect [OF ok cur(1) row c steps(1,2) _ f, of d'] au by simp_all
    moreover have "live_state (o_state r)" using False cur(2) by (simp add: row_matches_def)
    ultimately show ?thesis by simp
  qed
  then show "op_moved i d d'" and "(\<not> live_state (o_state r) \<and> d' = d) \<or>
      (live_state (o_state r) \<and> op_row d' i = Some (r\<lparr>o_state := state, o_updated_at := now\<rparr>))" by auto
qed

lemma transition_tx_effect:
  assumes ok: "ops_ok d" and row: "op_row d i = Some r"
    and run: "transition_tx i OpDispatching False ct outcome tn now d = Inr (u, d')"
  shows "op_moved i d d'" and "o_state r = OpQueued"
    and "op_row d' i = Some (r\<lparr>o_state := OpDispatching, o_dispatch_attempted := True, o_updated_at := now\<rparr>)"
proof -
  obtain cur where cur: "op_meta d i = Some cur" "row_matches r cur" using row_meta [OF ok row] by blast
  let ?ch = "no_change\<lparr>ch_state := OpDispatching, ch_terminal := False, ch_state_changed := True, ch_change_type := ct\<rparr>"
  let ?f = "\<lambda>r. r\<lparr>o_state := OpDispatching,
       o_dispatch_attempted := o_dispatch_attempted r \<or> OpDispatching = OpDispatching, o_updated_at := now\<rparr>"
  from run cur(1) obtain m d1 u2 d2 where q: "t_state cur = OpQueued" and steps: "apply_in_tx tn cur ?ch d = Inr (m, d1)"
    "set_operation i OpQueued ?f d1 = Inr (u2, d2)" "audit_operation i o_operation_kind outcome i now d2 = Inr (u, d')"
    by (auto simp: transition_tx_def tx_simps)
  have c: "ch_state ?ch \<noteq> []" "ch_terminal ?ch \<longleftrightarrow> \<not> live_state (ch_state ?ch)" by (simp_all add: live_state_def)
  have f: "o_state (?f r) = ch_state ?ch" "ch_state ?ch = OpQueued \<longrightarrow> \<not> o_dispatch_attempted (?f r) \<and> \<not> o_cancel_requested (?f r)"
    "ch_state ?ch = OpDispatching \<longrightarrow> o_dispatch_attempted (?f r)" by simp_all
  have s2: "set_operation i (t_state cur) ?f d1 = Inr (u2, d2)" using steps(2) q by simp
  note au = audit_effect [OF steps(3)]
  show "op_moved i d d'"
    using change_effect(1) [OF ok cur(1) row c steps(1) s2 _ f, of d'] au by simp
  show "op_row d' i = Some (r\<lparr>o_state := OpDispatching, o_dispatch_attempted := True, o_updated_at := now\<rparr>)"
    using change_effect(2) [OF ok cur(1) row c steps(1) s2 _ f, of d'] au by simp
  show "o_state r = OpQueued" using q cur(2) by (simp add: row_matches_def)
qed

text \<open>What \<open>applyCancel\<close> may do.\<close>

lemma op_get_Inr: "op_get i d = Inr out \<longleftrightarrow>
    (\<exists>m r. op_meta d i = Some m \<and> op_row d i = Some r \<and> out = operation_of m r)"
  by (auto simp: op_get_def split: option.splits)

lemma op_get_tx_Inr [tx_simps]: "op_get_tx i d = Inr (out, d') \<longleftrightarrow> d' = d \<and> op_get i d = Inr out"
  by (auto simp: op_get_tx_def tx_lift_def split: sum.splits)

lemma operation_of_fields [simp]: "op_task (operation_of m r) = m" "op_cancel_requested (operation_of m r) = o_cancel_requested r"
  "op_dispatch_attempted (operation_of m r) = o_dispatch_attempted r" "op_action_digest (operation_of m r) = o_action_digest r"
  by (simp_all add: operation_of_def)

definition only_commands :: "db \<Rightarrow> db \<Rightarrow> bool" where
  "only_commands d d' \<longleftrightarrow> tasks_t d' = tasks_t d \<and> operations_t d' = operations_t d \<and>
     task_events_t d' = task_events_t d \<and> event_head d' = event_head d"

lemma only_commands_moved: "ops_ok d \<Longrightarrow> only_commands d d' \<Longrightarrow> op_moved i d d'"
  using tasks_inv_frame [of d' d] by (simp add: only_commands_def op_moved_def ops_ok_def)

lemma cancel_insert_effect:
  "insert_cancel_command scope digest i m at d = Inr (u, d') \<Longrightarrow> only_commands d d' \<and>
     tbl_get ce_scope scope (command_t d') = Some \<lparr>ce_scope = scope, ce_request_digest = digest,
       ce_resource_kind = ''OPERATION'', ce_resource_id = i, ce_result_state = t_state m,
       ce_result_state_revision = t_state_revision m, ce_public_error_code = None, ce_committed_at = at,
       ce_expires_at = at + cancel_command_retention\<rparr>"
  by (auto simp: insert_cancel_command_def insert_command_in_tx_def tx_insert_def only_commands_def
      table_simps has_key_iff split: if_splits option.splits)

definition canceled_row :: "bool \<Rightarrow> time \<Rightarrow> operation_row \<Rightarrow> operation_row" where
  "canceled_row started now r = r\<lparr>o_state := (if started then OpDispatching else OpCanceledNotSent),
     o_cancel_requested := True, o_updated_at := now\<rparr>"

lemma cancel_change_effect:
  assumes ok: "ops_ok d" and row: "op_row d i = Some r" and cur: "op_meta d i = Some cur"
    and run: "cancel_change_tx i request_id scope digest (operation_of cur r) started tn now d = Inr (out, d')"
  shows "op_moved i d d'" and "op_row d' i = Some (canceled_row started now r)"
    and "if started then o_state r = OpDispatching else live_state (o_state r)"
    and "op_get i d' = Inr out" and "tbl_get ce_scope scope (command_t d') \<noteq> None"
    and "t_state (op_task out) = (if started then OpDispatching else OpCanceledNotSent)"
    and "t_terminal (op_task out) \<longleftrightarrow> \<not> started"
proof -
  let ?st = "if started then OpDispatching else OpCanceledNotSent"
  let ?ch = "no_change\<lparr>ch_state := ?st, ch_terminal := \<not> started, ch_state_changed := True,
    ch_change_type := if started then ''CANCEL_REQUESTED'' else ''CANCELED_NOT_SENT''\<rparr>"
  let ?f = "\<lambda>r. r\<lparr>o_state := ?st, o_cancel_requested := True, o_updated_at := now\<rparr>"
  have match: "row_matches r cur"
  proof -
    obtain m where "op_meta d i = Some m" "row_matches r m" using row_meta [OF ok row] by blast
    with cur show ?thesis by simp
  qed
  from run obtain m d1 u2 d2 u3 d3 u4 d4 where
    prev: "if started then t_state cur = OpDispatching else t_state cur = OpQueued \<or> t_state cur = OpDispatching"
    and steps: "apply_in_tx tn cur ?ch d = Inr (m, d1)" "set_operation i (t_state cur) ?f d1 = Inr (u2, d2)"
      "insert_cancel_command scope digest i m now d2 = Inr (u3, d3)"
      "audit_operation i (\<lambda>_. ''CANCEL'') (if started then ''REQUESTED'' else ''CANCELED_NOT_SENT'') request_id now d3 = Inr (u4, d4)"
      "d' = d4" "op_get i d4 = Inr out"
    by (auto simp: cancel_change_tx_def Let_def tx_simps)
  have c: "ch_state ?ch \<noteq> []" "ch_terminal ?ch \<longleftrightarrow> \<not> live_state (ch_state ?ch)" by (simp_all add: live_state_def)
  have f: "o_state (?f r) = ch_state ?ch" "ch_state ?ch = OpQueued \<longrightarrow> \<not> o_dispatch_attempted (?f r) \<and> \<not> o_cancel_requested (?f r)"
    "ch_state ?ch = OpDispatching \<longrightarrow> o_dispatch_attempted (?f r)"
    using prev match by (auto simp: row_matches_def)
  have d4: "tasks_t d4 = tasks_t d2" "operations_t d4 = operations_t d2" "task_events_t d4 = task_events_t d2"
    "event_head d4 = event_head d2" "command_t d4 = command_t d3"
    using cancel_insert_effect [OF steps(3)] audit_effect [OF steps(4)] by (auto simp: only_commands_def)
  note ce = change_effect [OF ok cur row c steps(1,2) _ f d4(1-4)]
  show "op_moved i d d'" "op_row d' i = Some (canceled_row started now r)"
    using ce(1,2) steps(5) by (simp_all add: canceled_row_def)
  show "if started then o_state r = OpDispatching else live_state (o_state r)"
    using prev match by (auto simp: row_matches_def live_state_def)
  show "op_get i d' = Inr out" using steps(5,6) by simp
  show "tbl_get ce_scope scope (command_t d') \<noteq> None"
    using cancel_insert_effect [OF steps(3)] d4(5) steps(5) by simp
  have "op_task out = m" using ce(3) steps(6) by (auto simp: op_get_Inr)
  moreover have "tasks_inv d" using ok by (simp add: ops_ok_def)
  ultimately show "t_state (op_task out) = (if started then OpDispatching else OpCanceledNotSent)"
    "t_terminal (op_task out) \<longleftrightarrow> \<not> started"
    using apply_effect(7,8) [OF _ cur steps(1)] by simp_all
qed

lemma apply_cancel_effect:
  assumes ok: "ops_ok d"
    and run: "apply_cancel_tx i request_id revision scope digest started allow tn now d = Inr ((out, replayed, applied), d')"
  shows "op_moved i d d'"
    and "\<not> applied \<Longrightarrow> op_row d' i = op_row d i \<and> op_meta d' i = op_meta d i"
    and "applied \<Longrightarrow> allow \<and> (\<exists>r. op_row d i = Some r \<and> op_row d' i = Some (canceled_row started now r) \<and>
      (if started then o_state r = OpDispatching else live_state (o_state r)))"
proof -
  have "op_moved i d d' \<and> (\<not> applied \<longrightarrow> op_row d' i = op_row d i \<and> op_meta d' i = op_meta d i) \<and>
    (applied \<longrightarrow> allow \<and> (\<exists>r. op_row d i = Some r \<and> op_row d' i = Some (canceled_row started now r) \<and>
      (if started then o_state r = OpDispatching else live_state (o_state r))))"
  proof (cases "tbl_get ce_scope scope (command_t d)")
    case (Some entry)
    with run op_moved_refl [OF ok] show ?thesis by (auto simp: apply_cancel_tx_def tx_simps)
  next
    case None
    with run obtain cur r where cr: "op_meta d i = Some cur" "op_row d i = Some r"
      and rest: "(if t_state cur = OpCanceledNotSent \<or> o_cancel_requested r then
               tx_bind (insert_cancel_command scope digest i (op_task (operation_of cur r)) now) (\<lambda>_. tx_return (operation_of cur r, False, False))
             else if t_state_revision (op_task (operation_of cur r)) \<noteq> revision then tx_fail tasks_ErrRevisionConflict
             else if t_terminal (op_task (operation_of cur r)) \<or> \<not> allow then tx_fail op_ErrStateConflict
             else tx_bind (cancel_change_tx i request_id scope digest (operation_of cur r) started tn now) (\<lambda>out.
               tx_return (out, False, True))) d = Inr ((out, replayed, applied), d')"
      by (auto simp: apply_cancel_tx_def tx_simps op_get_Inr)
    show ?thesis
    proof (cases "t_state cur = OpCanceledNotSent \<or> o_cancel_requested r")
      case True
      with rest obtain u where ins: "insert_cancel_command scope digest i cur now d = Inr (u, d')" "\<not> applied"
        by (auto simp: tx_simps)
      have oc: "only_commands d d'" using cancel_insert_effect [OF ins(1)] by simp
      with only_commands_moved [OF ok oc] ins(2) show ?thesis by (simp add: only_commands_def)
    next
      case False
      with rest obtain out' where ch: "cancel_change_tx i request_id scope digest (operation_of cur r) started tn now d = Inr (out', d')"
        "applied" "allow" by (auto simp: tx_simps split: if_splits)
      from cancel_change_effect [OF ok cr(2,1) ch(1)] ch(2,3) cr(2) show ?thesis by blast
    qed
  qed
  then show "op_moved i d d'"
    and "\<not> applied \<Longrightarrow> op_row d' i = op_row d i \<and> op_meta d' i = op_meta d i"
    and "applied \<Longrightarrow> allow \<and> (\<exists>r. op_row d i = Some r \<and> op_row d' i = Some (canceled_row started now r) \<and>
      (if started then o_state r = OpDispatching else live_state (o_state r)))" by auto
qed

lemma execute_tx_effect:
  assumes ok: "ops_ok d" and none: "tbl_get ie_scope scope (idempotency_t d) = None"
    and run: "execute_tx s scope digest record i now tn d = Inr (out, d')"
  shows "op_moved i d d'" and "op_meta d i = None" and "op_row d i = None"
    and "\<exists>r. op_row d' i = Some r \<and> o_state r = OpQueued \<and> \<not> o_cancel_requested r \<and>
      o_protection_revision r = db_protection_revision (tk_binding record) \<and> o_action_digest r = tk_action_digest record \<and>
      op_meta d' i = Some (op_task out)"
    and "\<exists>e. tbl_get ie_scope scope (idempotency_t d') = Some e \<and> ie_request_digest e = digest \<and> ie_resource_id e = i"
proof -
  have inv: "tasks_inv d" using ok by (simp add: ops_ok_def)
  from run none obtain m d1 u2 d2 u3 where steps: "create_in_tx tn i ''OPERATION'' OpQueued False d = Inr (m, d1)"
    "\<not> has_key o_id i (operations_t d1)"
    "d2 = d1\<lparr>operations_t := operations_t d1 @ [\<lparr>o_id = i, o_profile_id = sv_profile_id s, o_profile_revision = sv_profile_revision s,
              o_connection_id = sv_connection_id s, o_connection_generation = sv_generation s,
              o_protection_revision = db_protection_revision (tk_binding record),
              o_action_digest = tk_action_digest record, o_operation_kind = tk_operation_kind record,
              o_state = OpQueued, o_dispatch_attempted = False, o_cancel_requested = False,
              o_created_at = now, o_updated_at = now\<rparr>]\<rparr>"
    "insert_idempotency_in_tx \<lparr>ie_scope = scope, ie_request_digest = digest,
             ie_resource_kind = ''OPERATION'', ie_resource_id = i, ie_created_at = now,
             ie_expires_at = now + 90 * 24 * hour\<rparr> d2 = Inr (u3, d')"
    "out = operation_from_record m record (sv_profile_id s)"
    by (auto simp: execute_tx_def tx_simps)
  obtain n where log: "event_log_ok d n" using inv by (auto simp: tasks_inv_def)
  note cr = create_in_tx_inv [OF inv steps(1)]
  have new: "\<not> has_key t_id i (tasks_t d)" using cr by (simp add: has_key_iff)
  have d1: "tasks_t d1 = tasks_t d @ [m]" "operations_t d1 = operations_t d" "t_state m = OpQueued" "\<not> t_terminal m"
    "t_id m = i"
    using create_in_tx_run [OF inv log new, of tn "''OPERATION''" OpQueued False] steps(1) by auto
  have ids: "idempotency_t d1 = idempotency_t d" using create_in_tx_frame [OF steps(1)] by simp
  have d': "tasks_t d' = tasks_t d1" "operations_t d' = operations_t d2" "task_events_t d' = task_events_t d1"
    "event_head d' = event_head d1"
    using insert_idempotency_frame [OF steps(4)] steps(3,4) by (auto simp: insert_idempotency_in_tx_def tx_simps)
  show "op_meta d i = None" using cr by simp
  show norow: "op_row d i = None" using steps(2) d1(2) by (simp add: has_key_iff)
  define r where "r = \<lparr>o_id = i, o_profile_id = sv_profile_id s, o_profile_revision = sv_profile_revision s,
              o_connection_id = sv_connection_id s, o_connection_generation = sv_generation s,
              o_protection_revision = db_protection_revision (tk_binding record),
              o_action_digest = tk_action_digest record, o_operation_kind = tk_operation_kind record,
              o_state = OpQueued, o_dispatch_attempted = False, o_cancel_requested = False,
              o_created_at = now, o_updated_at = now\<rparr>"
  have ops: "operations_t d' = operations_t d @ [r]" using d'(2) steps(3) d1(2) by (simp add: r_def)
  have row: "op_row d' k = (if k = i then Some r else op_row d k)" for k
    using norow unfolding ops by (auto simp: table_simps r_def split: option.splits)
  have meta: "op_meta d' k = (if k = i then Some m else op_meta d k)" for k
    using cr d1(5) unfolding d'(1) d1(1) by (auto simp: table_simps split: option.splits)
  have "row_matches r m" using d1 by (simp add: row_matches_def r_def live_state_def)
  moreover have "tasks_inv d'" using cr tasks_inv_frame [of d' d1] d' by simp
  ultimately show "op_moved i d d'" using ok row meta by (auto simp: op_moved_def ops_ok_def)
  have "op_task out = m" by (simp add: steps(5) operation_from_record_def)
  then show "\<exists>r. op_row d' i = Some r \<and> o_state r = OpQueued \<and> \<not> o_cancel_requested r \<and>
      o_protection_revision r = db_protection_revision (tk_binding record) \<and> o_action_digest r = tk_action_digest record \<and>
      op_meta d' i = Some (op_task out)"
    using row [of i] meta [of i] by (simp add: r_def)
  show "\<exists>e. tbl_get ie_scope scope (idempotency_t d') = Some e \<and> ie_request_digest e = digest \<and> ie_resource_id e = i"
    using steps(3,4) ids none by (auto simp: insert_idempotency_in_tx_def tx_simps table_simps)
qed

section \<open>The system\<close>

datatype goroutine = Starting token_record | Awaiting

record op_sys =
  os_service :: op_service
  os_goroutines :: "string \<rightharpoonup> goroutine"
  os_sent :: "string list"

text \<open>Other components leave the operations alone and keep the event log in order.\<close>

definition foreign_ops :: "db \<Rightarrow> db \<Rightarrow> bool" where
  "foreign_ops d d' \<longleftrightarrow> operations_t d' = operations_t d \<and> tasks_inv d' \<and>
     (\<forall>i. op_row d i \<noteq> None \<longrightarrow> op_meta d' i = op_meta d i)"

inductive op_step :: "op_sys \<Rightarrow> op_sys \<Rightarrow> bool" where
  executes: "execute uuid_ok sha256_hex io now i request (os_service y) = (res, spawn, s') \<Longrightarrow>
    op_step y (y\<lparr>os_service := s', os_goroutines := (case spawn of None \<Rightarrow> os_goroutines y
      | Some (j, record) \<Rightarrow> (os_goroutines y)(j \<mapsto> Starting record))\<rparr>)"
| begins: "os_goroutines y i = Some (Starting record) \<Longrightarrow>
    dispatch_begin io clock now round_trip i record (os_service y) = (sent, s') \<Longrightarrow>
    op_step y (y\<lparr>os_service := s', os_goroutines := (os_goroutines y)(i := (if sent then Some Awaiting else None)),
      os_sent := (if sent then i # os_sent y else os_sent y)\<rparr>)"
| rejects: "os_goroutines y i = Some (Starting record) \<Longrightarrow>
    op_step y (y\<lparr>os_service := dispatch_rejected io task_now now i (os_service y),
      os_goroutines := (os_goroutines y)(i := None)\<rparr>)"
| finishes: "os_goroutines y i = Some Awaiting \<Longrightarrow>
    op_step y (y\<lparr>os_service := dispatch_finish io task_now now decode_json response i (os_service y),
      os_goroutines := (os_goroutines y)(i := None)\<rparr>)"
| cancels: "op_cancel uuid_ok sha256_hex io task_now now i request (os_service y) = (res, s') \<Longrightarrow>
    op_step y (y\<lparr>os_service := s'\<rparr>)"
| cancels_stored: "cancel_stored uuid_ok sha256_hex io task_now now i request (sv_db (os_service y)) = (res, d') \<Longrightarrow>
    op_step y (y\<lparr>os_service := put_db d' (os_service y)\<rparr>)"
| previews: "preview_mutation parse stmt_text query_text type_name target_text sha256_hex io clock now rand request
      (os_service y) = (res, s') \<Longrightarrow>
    op_step y (y\<lparr>os_service := s'\<rparr>)"
| elsewhere: "foreign_ops (sv_db (os_service y)) (mg_db m') \<Longrightarrow>
    op_step y (y\<lparr>os_service := (os_service y)\<lparr>sv_mgr := m'\<rparr>\<rparr>)"

definition op_start :: "op_sys \<Rightarrow> bool" where
  "op_start y \<longleftrightarrow> (\<exists>m p pr c g ttl. os_service y = new_service m p pr c g ttl \<and> ops_ok (mg_db m)) \<and>
     os_goroutines y = (\<lambda>_. None) \<and> os_sent y = []"

abbreviation op_reachable :: "op_sys \<Rightarrow> bool" where
  "op_reachable \<equiv> reachable_from op_start op_step"

definition sent_states :: "string list" where
  "sent_states = [OpDispatching, OpSucceeded, OpRejected, OpOutcomeUnknown]"

definition sent_ok :: "db \<Rightarrow> string \<Rightarrow> bool" where
  "sent_ok d i \<longleftrightarrow> (\<exists>r. op_row d i = Some r \<and> o_dispatch_attempted r \<and> o_state r \<in> set sent_states)"

definition goroutine_ok :: "op_service \<Rightarrow> (string \<rightharpoonup> goroutine) \<Rightarrow> string list \<Rightarrow> string \<Rightarrow> bool" where
  "goroutine_ok s g sent i \<longleftrightarrow> (case g i of
     None \<Rightarrow> sv_controls s i = None
   | Some (Starting record) \<Rightarrow> i \<notin> set sent \<and>
       (\<exists>r. op_row (sv_db s) i = Some r \<and> (o_state r = OpQueued \<or> o_state r = OpCanceledNotSent)) \<and>
       (\<exists>c. sv_controls s i = Some c \<and> \<not> oc_started c)
   | Some Awaiting \<Rightarrow> i \<in> set sent \<and> (\<exists>r. op_row (sv_db s) i = Some r \<and> o_state r = OpDispatching) \<and>
       (\<exists>c. sv_controls s i = Some c \<and> oc_started c))"

definition op_inv :: "op_sys \<Rightarrow> bool" where
  "op_inv y \<longleftrightarrow> ops_ok (sv_db (os_service y)) \<and> distinct (os_sent y) \<and>
     (\<forall>i\<in>set (os_sent y). sent_ok (sv_db (os_service y)) i) \<and>
     (\<forall>i. goroutine_ok (os_service y) (os_goroutines y) (os_sent y) i)"

lemma op_inv_move:
  assumes inv: "op_inv y" and moved: "op_moved i (sv_db (os_service y)) (sv_db s')"
    and same: "\<And>k. k \<noteq> i \<Longrightarrow> sv_controls s' k = sv_controls (os_service y) k"
      "\<And>k. k \<noteq> i \<Longrightarrow> g' k = os_goroutines y k"
    and sent: "sent' = os_sent y \<or> sent' = i # os_sent y \<and> i \<notin> set (os_sent y)"
    and i: "i \<in> set sent' \<Longrightarrow> sent_ok (sv_db s') i" "goroutine_ok s' g' sent' i"
  shows "op_inv (y\<lparr>os_service := s', os_goroutines := g', os_sent := sent'\<rparr>)"
proof -
  have rows: "op_row (sv_db s') k = op_row (sv_db (os_service y)) k" if "k \<noteq> i" for k
    using moved that by (simp add: op_moved_def)
  have "sent_ok (sv_db s') k" if "k \<in> set sent'" for k
  proof (cases "k = i")
    case False
    with that sent inv have "sent_ok (sv_db (os_service y)) k" by (auto simp: op_inv_def)
    with rows [OF False] show ?thesis by (simp add: sent_ok_def)
  qed (use i(1) that in simp)
  moreover have "goroutine_ok s' g' sent' k" for k
  proof (cases "k = i")
    case False
    have "goroutine_ok (os_service y) (os_goroutines y) (os_sent y) k" using inv by (simp add: op_inv_def)
    moreover have "k \<in> set sent' \<longleftrightarrow> k \<in> set (os_sent y)" using sent False by auto
    ultimately show ?thesis using rows [OF False] same [OF False]
      by (simp add: goroutine_ok_def split: option.splits goroutine.splits)
  qed (use i(2) in simp)
  moreover have "distinct sent'" using inv sent by (auto simp: op_inv_def)
  ultimately show ?thesis using moved by (simp add: op_inv_def op_moved_def)
qed

subsection \<open>Protection sections leave the operations alone\<close>

definition same_ops :: "db \<Rightarrow> db \<Rightarrow> bool" where
  "same_ops d d' \<longleftrightarrow> tasks_t d' = tasks_t d \<and> operations_t d' = operations_t d \<and>
     task_events_t d' = task_events_t d \<and> event_head d' = event_head d \<and> idempotency_t d' = idempotency_t d \<and>
     command_t d' = command_t d"

lemma same_ops_refl [simp]: "same_ops d d" by (simp add: same_ops_def)

lemma same_ops_trans: "same_ops a b \<Longrightarrow> same_ops b c \<Longrightarrow> same_ops a c"
  by (simp add: same_ops_def)

lemma ops_ok_same: "same_ops d d' \<Longrightarrow> ops_ok d \<Longrightarrow> ops_ok d'"
  using tasks_inv_frame [of d' d] by (simp add: same_ops_def ops_ok_def)

lemma moved_same: "same_ops d d1 \<Longrightarrow> op_moved i d1 d2 \<Longrightarrow> op_moved i d d2"
  by (simp add: same_ops_def op_moved_def)

lemma reconcile_same_ops:
  "reconcile_expired_lease io now (s, d) = (res, (s', d')) \<Longrightarrow> same_ops d d'"
  by (auto simp: reconcile_expired_lease_def with_immediate_def reconcile_tx_def write_snapshot_tx_def
      insert_protection_event_def tx_run Let_def same_ops_def split: if_splits sum.splits prod.splits option.splits)

lemma authorize_same_ops:
  assumes "authorize_gated io clock b (s, d) = (res, (s', d'))"
  shows "same_ops d d'"
proof -
  obtain r1 s1 d1 where rc: "reconcile_expired_lease io (clock 0) (s, d) = (r1, (s1, d1))" by (metis prod.exhaust)
  with assms have "d' = d1" by (auto simp: authorize_gated_def split: sum.splits prod.splits if_splits)
  with reconcile_same_ops [OF rc] show ?thesis by simp
qed

lemma authorized_callback_cases:
  assumes "authorized_callback io clock b f m = (res, m')"
  shows "(\<exists>e. res = Inl e \<and> same_ops (mg_db m) (mg_db m')) \<or>
    (\<exists>d1 r. same_ops (mg_db m) d1 \<and> f d1 = (r, mg_db m') \<and> res = Inr r)"
proof (cases "dispatch_enter b m")
  case (Inl e)
  with assms show ?thesis by (auto simp: authorized_callback_def)
next
  case (Inr s)
  obtain out s1 d1 where ag: "authorize_gated io clock b (s, mg_db m) = (out, (s1, d1))" by (metis prod.exhaust)
  have same: "same_ops (mg_db m) d1" by (rule authorize_same_ops [OF ag])
  show ?thesis
  proof (cases out)
    case (Inl e)
    with assms Inr ag same show ?thesis by (auto simp: authorized_callback_def with_conn_def)
  next
    case out: (Inr u)
    obtain r d2 where f: "f d1 = (r, d2)" by (metis prod.exhaust)
    with assms Inr ag out have "res = Inr r" "mg_db m' = d2" by (auto simp: authorized_callback_def with_conn_def)
    with f same show ?thesis by blast
  qed
qed

lemma grant_loop_same_ops: "grant_loop n io clock c g (s, d) = (out, (s', d')) \<Longrightarrow> same_ops d d'"
proof (induction n arbitrary: clock s d)
  case (Suc n)
  obtain r1 s1 d1 where rc: "reconcile_expired_lease io (clock 0) (s, d) = (r1, (s1, d1))" by (metis prod.exhaust)
  note same = reconcile_same_ops [OF rc]
  show ?case
  proof (cases "\<exists>snap. r1 = Inr (snap, False) \<and> lease_expired_at (ps_mode (cn_snapshot s1)) (cn_lease s1) (clock 1) \<and>
      cn_lock_waiters s1 = 0 \<and> \<not> cn_closed s1")
    case True
    with Suc.prems rc have "grant_loop n io (\<lambda>i. clock (i + 2)) c g (s1, d1) = (out, (s', d'))"
      by (auto simp: lease_expired_at_def split: option.splits)
    from Suc.IH [OF this] same show ?thesis by (rule same_ops_trans [rotated])
  next
    case False
    with Suc.prems rc have "d' = d1"
      by (auto simp: split: sum.splits prod.splits if_splits option.splits)
    with same show ?thesis by simp
  qed
qed simp

lemma grant_binding_same_ops:
  assumes "with_grant_binding io clock c g issue m = (res, m')" and "\<And>b snap d r d'. issue b snap d = (r, d') \<Longrightarrow> d' = d"
  shows "same_ops (mg_db m) (mg_db m')"
proof (cases "\<exists>s. conn_at m c g = Some s \<and> cn_lock_waiters s = 0")
  case False
  with assms(1) show ?thesis by (auto simp: with_grant_binding_def split: option.splits if_splits)
next
  case True
  then obtain s where s: "conn_at m c g = Some s" "cn_lock_waiters s = 0" by blast
  obtain out s1 d1 where gl: "grant_loop 2 io clock c g (s, mg_db m) = (out, (s1, d1))" by (metis prod.exhaust)
  obtain r s2 d2 where gg: "grant_gated io clock c g issue (s, mg_db m) = (r, (s2, d2))" by (metis prod.exhaust)
  with gl assms(2) have "d2 = d1" by (auto simp: grant_gated_def split: option.splits prod.splits)
  moreover have "mg_db m' = d2" using assms(1) s gg by (auto simp: with_grant_binding_def with_conn_def)
  ultimately show ?thesis using grant_loop_same_ops [OF gl] by simp
qed

section \<open>Every step keeps the invariant\<close>

lemma put_db_simps [simp]: "sv_db (put_db d s) = d" "sv_controls (put_db d s) = sv_controls s"
  "sv_tokens (put_db d s) = sv_tokens s" "sv_connection_id (put_db d s) = sv_connection_id s"
  "sv_generation (put_db d s) = sv_generation s"
  by (simp_all add: put_db_def)

lemma control_simps [simp]: "sv_db (set_control i f s) = sv_db s" "sv_db (drop_control i s) = sv_db s"
  "sv_controls (set_control i f s) = (sv_controls s)(i := map_option f (sv_controls s i))"
  "sv_controls (drop_control i s) = (sv_controls s)(i := None)"
  by (simp_all add: set_control_def drop_control_def)

lemma op_inv_frame:
  assumes inv: "op_inv y" and ok: "ops_ok (sv_db s')" and rows: "\<And>k. op_row (sv_db s') k = op_row (sv_db (os_service y)) k"
    and controls: "sv_controls s' = sv_controls (os_service y)"
  shows "op_inv (y\<lparr>os_service := s'\<rparr>)"
  using inv ok by (simp add: op_inv_def sent_ok_def goroutine_ok_def rows controls cong: option.case_cong goroutine.case_cong)

lemma finish_effect:
  fixes code msg audit :: string and tn now :: time and io :: bool
  assumes ok: "ops_ok (sv_db s)" and row: "op_row (sv_db s) i = Some r" and st: "\<not> live_state st" "st \<noteq> []"
  defines "s' \<equiv> finish io tn now i (st, code, msg, audit) s"
  shows "op_moved i (sv_db s) (sv_db s')" and "sv_controls s' = sv_controls s"
    and "op_row (sv_db s') i = Some r \<or>
      live_state (o_state r) \<and> op_row (sv_db s') i = Some (r\<lparr>o_state := st, o_updated_at := now\<rparr>)"
proof -
  obtain res d' where run: "with_immediate io (finish_tx i st code msg audit tn now) (sv_db s) = (res, d')"
    by (metis prod.exhaust)
  have s': "sv_db s' = d'" "sv_controls s' = sv_controls s" using run by (simp_all add: s'_def finish_def)
  have "op_moved i (sv_db s) d' \<and> (op_row d' i = Some r \<or>
      live_state (o_state r) \<and> op_row d' i = Some (r\<lparr>o_state := st, o_updated_at := now\<rparr>))"
  proof (cases res)
    case (Inl e)
    with run have "d' = sv_db s" by auto
    with op_moved_refl [OF ok] row show ?thesis by simp
  next
    case (Inr u)
    with run have "finish_tx i st code msg audit tn now (sv_db s) = Inr (u, d')" by (simp add: with_immediate_Inr)
    from finish_tx_effect [OF ok row st this] row show ?thesis by auto
  qed
  with s' show "op_moved i (sv_db s) (sv_db s')" "sv_controls s' = sv_controls s"
    "op_row (sv_db s') i = Some r \<or>
      live_state (o_state r) \<and> op_row (sv_db s') i = Some (r\<lparr>o_state := st, o_updated_at := now\<rparr>)" by simp_all
qed

lemma op_moved_trans: "op_moved i a b \<Longrightarrow> op_moved i b c \<Longrightarrow> op_moved i a c"
  by (simp add: op_moved_def)

text \<open>The first half of a goroutine.\<close>

lemma dispatch_begin_effect:
  assumes ok: "ops_ok (sv_db s)" and row: "op_row (sv_db s) i = Some r" "o_state r = OpQueued \<or> o_state r = OpCanceledNotSent"
    and run: "dispatch_begin io clock now round_trip i record s = (sent, s')"
  shows "op_moved i (sv_db s) (sv_db s')"
    and "sv_controls s' = (sv_controls s)(i := (if sent then map_option (\<lambda>c. c\<lparr>oc_started := True\<rparr>) (sv_controls s i) else None))"
    and "sent \<Longrightarrow> o_state r = OpQueued \<and> is_ok round_trip \<and>
      (\<exists>r'. op_row (sv_db s') i = Some r' \<and> o_state r' = OpDispatching \<and> o_dispatch_attempted r')"
    and "\<not> live_state (o_state r) \<Longrightarrow> op_row (sv_db s') i = Some r"
proof -
  let ?f = "dispatch_callbacks (persist_dispatch (io 1) (now 0) (now 1) i) (Pair round_trip)"
  obtain res m where ac: "authorized_callback (io 0) clock (tk_binding record) ?f (sv_mgr s) = (res, m)"
    by (metis prod.exhaust)
  have fin: "\<not> live_state OpFailedInternalNotSent" "\<not> live_state OpRejectedNotSent" "live_state OpQueued" by (simp_all add: live_state_def)
  let ?goal = "op_moved i (sv_db s) (sv_db s') \<and>
    (\<not> live_state (o_state r) \<longrightarrow> op_row (sv_db s') i = Some r) \<and>
    sv_controls s' = (sv_controls s)(i := (if sent then map_option (\<lambda>c. c\<lparr>oc_started := True\<rparr>) (sv_controls s i) else None)) \<and>
    (sent \<longrightarrow> o_state r = OpQueued \<and> is_ok round_trip \<and>
      (\<exists>r'. op_row (sv_db s') i = Some r' \<and> o_state r' = OpDispatching \<and> o_dispatch_attempted r'))"
  have failed: ?goal if m: "op_moved i (sv_db s) (mg_db m)" and row': "\<exists>r'. op_row (mg_db m) i = Some r' \<and> (live_state (o_state r) \<or> r' = r)" and unsent: "\<not> sent"
    and s': "s' = drop_control i (finish (io 2) (now 2) (now 3) i (st, code, msg, audit) (s\<lparr>sv_mgr := m\<rparr>))"
    and st: "\<not> live_state st" "st \<noteq> []" for st code msg audit
  proof -
    obtain r' where r': "op_row (mg_db m) i = Some r'" "live_state (o_state r) \<or> r' = r" using row' by blast
    have ok': "ops_ok (sv_db (s\<lparr>sv_mgr := m\<rparr>))" using m by (simp add: op_moved_def)
    have row1: "op_row (sv_db (s\<lparr>sv_mgr := m\<rparr>)) i = Some r'" using r' by simp
    note fe = finish_effect [OF ok' row1 st, of "io 2" "now 2" "now 3" code msg audit]
    from fe(1,2) fe(3) r' m unsent s' show ?thesis by (auto intro: op_moved_trans)
  qed
  have ?goal
  proof (cases "\<exists>e. res = Inl e")
    case True
    then have same: "same_ops (sv_db s) (mg_db m)" using authorized_callback_cases [OF ac] by auto
    then have "op_moved i (sv_db s) (mg_db m)" "op_row (mg_db m) i = Some r"
      using moved_same [OF same op_moved_refl [OF ops_ok_same [OF same ok]]] row by (simp_all add: same_ops_def)
    then show ?thesis
      using True run ac fin row
      by (intro failed [where st = OpRejectedNotSent and code = "''MUTATION_AUTHORIZATION_REJECTED''"
            and msg = "''Mutation was not sent''" and audit = "''REJECTED''"]) (auto simp: dispatch_begin_def dispatch_rejected_def)
  next
    case False
    with authorized_callback_cases [OF ac] obtain d1 v where d1: "same_ops (sv_db s) d1" "?f d1 = (v, mg_db m)" "res = Inr v"
      by (cases res) auto
    have ok1: "ops_ok d1" by (rule ops_ok_same [OF d1(1) ok])
    have row1: "op_row d1 i = Some r" using d1(1) row by (simp add: same_ops_def)
    obtain p d2 where p: "persist_dispatch (io 1) (now 0) (now 1) i d1 = (p, d2)" by (metis prod.exhaust)
    show ?thesis
    proof (cases p)
      case (Inl e)
      with p have "d2 = d1" by (auto simp: persist_dispatch_def)
      with d1 p Inl have m: "mg_db m = d1" "v = Inl e" by (auto simp: dispatch_callbacks_def)
      have "op_moved i (sv_db s) (mg_db m)" using moved_same [OF d1(1) op_moved_refl [OF ok1]] m by simp
      then show ?thesis
        using m row1 run ac d1(3) fin
        by (intro failed [where st = OpFailedInternalNotSent and code = "''MUTATION_START_FAILED_NOT_SENT''"
              and msg = "''Mutation was not sent''" and audit = "''REJECTED''"]) (auto simp: dispatch_begin_def)
    next
      case (Inr u)
      with p have tr: "transition_tx i OpDispatching False ''DISPATCHING'' ''ATTEMPTED'' (now 0) (now 1) d1 = Inr (u, d2)"
        by (simp add: persist_dispatch_def with_immediate_Inr)
      note te = transition_tx_effect [OF ok1 row1 tr]
      have m: "mg_db m = d2" "v = round_trip" using d1 p Inr by (auto simp: dispatch_callbacks_def)
      have mv: "op_moved i (sv_db s) (mg_db m)" using moved_same [OF d1(1) te(1)] m by simp
      show ?thesis
      proof (cases round_trip)
        case (Inl e)
        from mv show ?thesis
          using m te run ac d1(3) fin Inl
          by (intro failed [where st = OpFailedInternalNotSent and code = "''MUTATION_START_FAILED_NOT_SENT''"
                and msg = "''Mutation was not sent''" and audit = "''REJECTED''"]) (auto simp: dispatch_begin_def)
      next
        case (Inr w)
        then have "sent" "s' = set_control i (\<lambda>c. c\<lparr>oc_started := True\<rparr>) (s\<lparr>sv_mgr := m\<rparr>)"
          using run ac d1(3) m by (auto simp: dispatch_begin_def)
        with mv te m Inr show ?thesis by (simp add: live_state_def)
      qed
    qed
  qed
  then show "op_moved i (sv_db s) (sv_db s')"
    and "sv_controls s' = (sv_controls s)(i := (if sent then map_option (\<lambda>c. c\<lparr>oc_started := True\<rparr>) (sv_controls s i) else None))"
    and "sent \<Longrightarrow> o_state r = OpQueued \<and> is_ok round_trip \<and>
      (\<exists>r'. op_row (sv_db s') i = Some r' \<and> o_state r' = OpDispatching \<and> o_dispatch_attempted r')"
    and "\<not> live_state (o_state r) \<Longrightarrow> op_row (sv_db s') i = Some r" by auto
qed

lemma classify_sent: "fst (classify_mutation_response decode_json response) \<in> set sent_states"
    "\<not> live_state (fst (classify_mutation_response decode_json response))"
  by (auto simp: classify_mutation_response_def sent_states_def live_state_def Let_def split: option.splits prod.splits)

definition finish_code :: "(string \<Rightarrow> (envelope \<times> bool) option) \<Rightarrow> http_response option \<Rightarrow> string \<times> string \<times> string \<times> string" where
  "finish_code decode_json response = (case response of
      None \<Rightarrow> (OpOutcomeUnknown, ''MUTATION_OUTCOME_UNKNOWN'', ''Mutation outcome is unknown'', ''UNKNOWN'')
    | Some r \<Rightarrow> classify_mutation_response decode_json r)"

lemma finish_code_sent: "fst (finish_code decode_json response) \<in> set sent_states" "\<not> live_state (fst (finish_code decode_json response))"
  "fst (finish_code decode_json response) \<noteq> []"
proof -
  show s: "fst (finish_code decode_json response) \<in> set sent_states" "\<not> live_state (fst (finish_code decode_json response))"
    using classify_sent by (auto simp: finish_code_def sent_states_def live_state_def split: option.splits)
  from s(1) show "fst (finish_code decode_json response) \<noteq> []" by (auto simp: sent_states_def)
qed

lemma op_inv_ok: "op_inv y \<Longrightarrow> ops_ok (sv_db (os_service y))"
  by (simp add: op_inv_def)

lemma op_inv_goroutine: "op_inv y \<Longrightarrow> goroutine_ok (os_service y) (os_goroutines y) (os_sent y) i"
  by (simp add: op_inv_def)

lemma execute_cases:
  assumes "execute uuid_ok sha256_hex io now i request s = (res, spawn, s')"
  shows "(spawn = None \<and> sv_db s' = sv_db s \<and> sv_controls s' = sv_controls s) \<or>
    (\<exists>record out d'. spawn = Some (i, record) \<and> res = Inr out \<and> sv_tokens s (xr_preview_token request) = Some record \<and>
       tbl_get ie_scope (execute_scope s request) (idempotency_t (sv_db s)) = None \<and>
       execute_tx s (execute_scope s request) (execute_digest sha256_hex request) record i (now 2) (now 3) (sv_db s) = Inr (out, d') \<and>
       sv_db s' = d' \<and> sv_controls s' = (sv_controls s)(i \<mapsto> \<lparr>oc_started = False, oc_canceled = False\<rparr>) \<and>
       sv_tokens s' = (purge_expired (now 0) (sv_tokens s))(xr_preview_token request := None) \<and> sv_profile_id s' = sv_profile_id s \<and>
       (tk_confirmation_required record \<longrightarrow> xr_confirmation request = tk_target record) \<and> now 1 < tk_expires record)"
proof (cases "\<exists>rec. spawn = Some rec")
  case False
  with assms show ?thesis
    by (auto simp: execute_def execute_locked_def Let_def with_immediate_def put_db_def
        split: option.splits if_splits sum.splits prod.splits)
next
  case True
  let ?tok = "xr_preview_token request" and ?scope = "execute_scope s request"
    and ?digest = "execute_digest sha256_hex request" and ?s = "s\<lparr>sv_tokens := purge_expired (now 0) (sv_tokens s)\<rparr>"
  have none: "op_lookup_idempotency ?scope ?digest (sv_db s) = None"
    and lk: "execute_locked sha256_hex io now i request s = (res, spawn, s')"
    using assms True by (auto simp: execute_def split: option.splits if_splits)
  obtain tk where tk: "purge_expired (now 0) (sv_tokens s) ?tok = Some tk"
    using lk none True by (cases "purge_expired (now 0) (sv_tokens s) ?tok") (auto simp: execute_locked_def Let_def)
  have good: "tk_confirmation_required tk \<longrightarrow> xr_confirmation request = tk_target tk" "now 1 < tk_expires tk"
    using lk none tk True by (auto simp: execute_locked_def Let_def split: if_splits)
  obtain r d' where run: "with_immediate io (execute_tx ?s ?scope ?digest tk i (now 2) (now 3)) (sv_db s) = (r, d')"
    by (metis prod.exhaust)
  have lk': "(case r of Inl e \<Rightarrow> (Inl e, None, put_db d' ?s)
      | Inr out \<Rightarrow> (Inr out, Some (i, tk), (put_db d' ?s)\<lparr>sv_tokens := (sv_tokens ?s)(?tok := None),
          sv_controls := (sv_controls s)(i \<mapsto> \<lparr>oc_started = False, oc_canceled = False\<rparr>)\<rparr>)) = (res, spawn, s')"
  proof -
    have g: "(tk_confirmation_required tk \<and> xr_confirmation request \<noteq> tk_target tk) = False"
      "(\<not> now 1 < tk_expires tk) = False" using good by blast+
    show ?thesis
      using lk g run by (cases r) (auto simp: execute_locked_def Let_def none tk)
  qed
  then obtain out where out: "r = Inr out" using True by (cases r) auto
  have "sv_tokens s ?tok = Some tk" using tk by (auto simp: purge_expired_def split: option.splits if_splits)
  moreover have "tbl_get ie_scope ?scope (idempotency_t (sv_db s)) = None"
    using none by (auto simp: op_lookup_idempotency_def split: option.splits if_splits)
  moreover have "execute_tx ?s = execute_tx s" by (intro ext) (simp add: execute_tx_def cong: option.case_cong)
  moreover have "execute_tx ?s ?scope ?digest tk i (now 2) (now 3) (sv_db s) = Inr (out, d')"
    using run out by (simp add: with_immediate_Inr)
  ultimately show ?thesis using lk' out good by (auto simp: put_db_def)
qed

lemma cancel_stored_frame:
  assumes ok: "ops_ok d" and run: "cancel_stored_validated io tn now i request revision scope digest d = (res, d')"
  shows "ops_ok d'" and "op_row d' k = op_row d k"
proof -
  have "d' = d \<or> (\<exists>out replayed applied. apply_cancel_tx i (en_command_request_id request) revision scope digest
      False False tn now d = Inr ((out, replayed, applied), d'))"
    using run by (auto simp: cancel_stored_validated_def with_immediate_def split: option.splits sum.splits prod.splits if_splits)
  then have "ops_ok d' \<and> op_row d' k = op_row d k"
  proof (elim disjE exE)
    fix out replayed applied
    assume "apply_cancel_tx i (en_command_request_id request) revision scope digest False False tn now d =
        Inr ((out, replayed, applied), d')"
    note e = apply_cancel_effect [OF ok this]
    from e(1,2,3) show ?thesis by (cases "k = i") (auto simp: op_moved_def)
  qed (use ok in simp)
  then show "ops_ok d'" and "op_row d' k = op_row d k" by auto
qed

text \<open>The effect of \<open>Cancel\<close> on the service.\<close>

lemma op_cancel_cases:
  assumes "op_cancel uuid_ok sha256_hex io tn now i request s = (res, s')"
  shows "s' = s \<or>
    (\<exists>revision scope digest d'. cancel_stored_validated io tn now i request revision scope digest (sv_db s) = (res, d') \<and>
       s' = put_db d' s) \<or>
    (\<exists>revision scope digest control. sv_controls s i = Some control \<and>
       cancel_active io tn now i request revision scope digest (oc_started control) s = (res, s'))"
  using assms by (auto simp: op_cancel_def split: sum.splits option.splits if_splits prod.splits)

lemma cancel_step_inv:
  assumes inv: "op_inv y" and run: "op_cancel uuid_ok sha256_hex io tn now i request (os_service y) = (res, s')"
  shows "op_inv (y\<lparr>os_service := s'\<rparr>)"
proof -
  let ?s = "os_service y"
  note ok = op_inv_ok [OF inv]
  note g = op_inv_goroutine [OF inv, of i]
  consider "s' = ?s"
    | revision scope digest d' where "cancel_stored_validated io tn now i request revision scope digest (sv_db ?s) = (res, d')" "s' = put_db d' ?s"
    | revision scope digest control where "sv_controls ?s i = Some control"
      "cancel_active io tn now i request revision scope digest (oc_started control) ?s = (res, s')"
    using op_cancel_cases [OF run] by blast
  then show ?thesis
  proof cases
    case 1
    with inv show ?thesis by simp
  next
    case 2
    from cancel_stored_frame [OF ok 2(1)] 2(2) show ?thesis by (intro op_inv_frame [OF inv]) simp_all
  next
    case 3
    show ?thesis
    proof (cases "\<exists>out replayed applied d'. with_immediate io (apply_cancel_tx i (en_command_request_id request) revision scope digest
         (oc_started control) True tn now) (sv_db ?s) = (Inr (out, replayed, applied), d')")
      case False
      with 3(2) have "s' = put_db (sv_db ?s) ?s"
        by (auto simp: cancel_active_def with_immediate_def split: sum.splits prod.splits if_splits)
      then show ?thesis using op_inv_frame [OF inv, of s'] ok by simp
    next
      case True
      then obtain out replayed applied d' where im: "with_immediate io (apply_cancel_tx i (en_command_request_id request) revision scope digest
         (oc_started control) True tn now) (sv_db ?s) = (Inr (out, replayed, applied), d')" by blast
      have tx: "apply_cancel_tx i (en_command_request_id request) revision scope digest
         (oc_started control) True tn now (sv_db ?s) = Inr ((out, replayed, applied), d')"
        using im by (simp add: with_immediate_Inr)
      have s': "s' = (if applied then set_control i (\<lambda>c. c\<lparr>oc_canceled := True\<rparr>) (put_db d' ?s) else put_db d' ?s)"
        using 3(2) im by (simp add: cancel_active_def)
      note e = apply_cancel_effect [OF ok tx]
      have mv: "op_moved i (sv_db ?s) (sv_db s')" using e(1) s' by simp
      have rows: "op_row d' i = op_row (sv_db ?s) i \<or> (\<exists>r. op_row (sv_db ?s) i = Some r \<and>
          op_row d' i = Some (canceled_row (oc_started control) now r) \<and>
          (if oc_started control then o_state r = OpDispatching else live_state (o_state r)))"
        using e(2,3) by blast
      have gor: "goroutine_ok s' (os_goroutines y) (os_sent y) i"
        using g s' 3(1) rows
        by (auto simp: goroutine_ok_def canceled_row_def live_state_def split: option.splits goroutine.splits if_splits)
      have "sent_ok (sv_db s') i" if "i \<in> set (os_sent y)"
      proof -
        have "sent_ok (sv_db ?s) i" using inv that by (simp add: op_inv_def)
        moreover have "oc_started control" using g 3(1) that by (auto simp: goroutine_ok_def split: option.splits goroutine.splits)
        ultimately show ?thesis using rows s' by (auto simp: sent_ok_def canceled_row_def sent_states_def)
      qed
      then have "op_inv (y\<lparr>os_service := s', os_goroutines := os_goroutines y, os_sent := os_sent y\<rparr>)"
        using s' by (intro op_inv_move [OF inv mv _ _ _ _ gor]) simp_all
      then show ?thesis by simp
    qed
  qed
qed

lemma execute_step_inv:
  assumes inv: "op_inv y" and run: "execute uuid_ok sha256_hex io now i request (os_service y) = (res, spawn, s')"
  shows "op_inv (y\<lparr>os_service := s', os_goroutines := (case spawn of None \<Rightarrow> os_goroutines y
      | Some (j, record) \<Rightarrow> (os_goroutines y)(j \<mapsto> Starting record))\<rparr>)"
proof -
  let ?s = "os_service y"
  note ok = op_inv_ok [OF inv]
  from execute_cases [OF run] show ?thesis
  proof (elim disjE exE conjE)
    assume same: "spawn = None" "sv_db s' = sv_db ?s" "sv_controls s' = sv_controls ?s"
    have "op_inv (y\<lparr>os_service := s'\<rparr>)" by (intro op_inv_frame [OF inv]) (simp_all add: same ok)
    then show ?thesis by (simp add: same)
  next
    fix tk out d'
    assume sp: "spawn = Some (i, tk)" and none: "tbl_get ie_scope (execute_scope ?s request) (idempotency_t (sv_db ?s)) = None"
      and tx: "execute_tx ?s (execute_scope ?s request) (execute_digest sha256_hex request) tk i (now 2) (now 3) (sv_db ?s) = Inr (out, d')"
      and s': "sv_db s' = d'" "sv_controls s' = (sv_controls ?s)(i \<mapsto> \<lparr>oc_started = False, oc_canceled = False\<rparr>)"
    note e = execute_tx_effect [OF ok none tx]
    have fresh: "i \<notin> set (os_sent y)" using inv e(3) by (auto simp: op_inv_def sent_ok_def)
    have "goroutine_ok s' ((os_goroutines y)(i \<mapsto> Starting tk)) (os_sent y) i"
      using fresh s' e(4) by (auto simp: goroutine_ok_def)
    from op_inv_move [OF inv _ _ _ _ _ this] have "op_inv (y\<lparr>os_service := s',
        os_goroutines := (os_goroutines y)(i \<mapsto> Starting tk), os_sent := os_sent y\<rparr>)"
      using s' e(1) fresh by simp
    then show ?thesis by (simp add: sp)
  qed
qed

lemma begin_step_inv:
  assumes inv: "op_inv y" and g: "os_goroutines y i = Some (Starting tk)"
    and run: "dispatch_begin io clock now round_trip i tk (os_service y) = (sent, s')"
  shows "op_inv (y\<lparr>os_service := s', os_goroutines := (os_goroutines y)(i := (if sent then Some Awaiting else None)),
      os_sent := (if sent then i # os_sent y else os_sent y)\<rparr>)"
proof -
  from op_inv_goroutine [OF inv, of i] g obtain r c where fresh: "i \<notin> set (os_sent y)"
    and r: "op_row (sv_db (os_service y)) i = Some r" "o_state r = OpQueued \<or> o_state r = OpCanceledNotSent"
    and c: "sv_controls (os_service y) i = Some c" by (auto simp: goroutine_ok_def)
  note e = dispatch_begin_effect [OF op_inv_ok [OF inv] r run]
  have "goroutine_ok s' ((os_goroutines y)(i := (if sent then Some Awaiting else None))) (if sent then i # os_sent y else os_sent y) i"
    using e(2,3) c by (auto simp: goroutine_ok_def)
  moreover have "sent_ok (sv_db s') i" if "i \<in> set (if sent then i # os_sent y else os_sent y)"
    using that fresh e(3) by (auto simp: sent_ok_def sent_states_def split: if_splits)
  ultimately show ?thesis using e(2) fresh by (intro op_inv_move [OF inv e(1)]) auto
qed

lemma finish_step_inv:
  assumes inv: "op_inv y" and g: "os_goroutines y i = Some Awaiting"
  shows "op_inv (y\<lparr>os_service := dispatch_finish io tn now decode_json response i (os_service y),
      os_goroutines := (os_goroutines y)(i := None)\<rparr>)"
proof -
  let ?s = "os_service y"
  obtain st code msg audit where fc: "finish_code decode_json response = (st, code, msg, audit)" by (metis prod.exhaust)
  have s': "dispatch_finish io tn now decode_json response i ?s = drop_control i (finish io tn now i (st, code, msg, audit) ?s)"
    using fc by (simp add: dispatch_finish_def finish_code_def)
  have st: "st \<in> set sent_states" "\<not> live_state st" "st \<noteq> []"
    using finish_code_sent [of decode_json response] fc by simp_all
  from op_inv_goroutine [OF inv, of i] g obtain r where r: "op_row (sv_db ?s) i = Some r" and i: "i \<in> set (os_sent y)"
    by (auto simp: goroutine_ok_def)
  note e = finish_effect [OF op_inv_ok [OF inv] r st(2,3), of io tn now code msg audit]
  have "sent_ok (sv_db ?s) i" using inv i by (simp add: op_inv_def)
  then have "sent_ok (sv_db (drop_control i (finish io tn now i (st, code, msg, audit) ?s))) i"
    using e(3) r st(1) by (auto simp: sent_ok_def)
  then have "op_inv (y\<lparr>os_service := drop_control i (finish io tn now i (st, code, msg, audit) ?s),
      os_goroutines := (os_goroutines y)(i := None), os_sent := os_sent y\<rparr>)"
    using e(1,2) by (intro op_inv_move [OF inv, of i]) (auto simp: goroutine_ok_def)
  then show ?thesis by (simp add: s')
qed

lemma reject_step_inv:
  assumes inv: "op_inv y" and g: "os_goroutines y i = Some (Starting tk)"
  shows "op_inv (y\<lparr>os_service := dispatch_rejected io tn now i (os_service y), os_goroutines := (os_goroutines y)(i := None)\<rparr>)"
proof -
  let ?s = "os_service y"
  from op_inv_goroutine [OF inv, of i] g obtain r where r: "op_row (sv_db ?s) i = Some r" and i: "i \<notin> set (os_sent y)"
    by (auto simp: goroutine_ok_def)
  have st: "\<not> live_state OpRejectedNotSent" "OpRejectedNotSent \<noteq> []" by (simp_all add: live_state_def)
  note e = finish_effect [OF op_inv_ok [OF inv] r st, of io tn now "''MUTATION_AUTHORIZATION_REJECTED''"
      "''Mutation was not sent''" "''REJECTED''"]
  have "op_inv (y\<lparr>os_service := dispatch_rejected io tn now i ?s, os_goroutines := (os_goroutines y)(i := None),
      os_sent := os_sent y\<rparr>)"
    using e(1,2) i by (intro op_inv_move [OF inv, of i]) (auto simp: goroutine_ok_def dispatch_rejected_def)
  then show ?thesis by simp
qed

lemma preview_cases:
  assumes "preview_mutation parse stmt_text query_text type_name target_text sha256_hex io clock now rand request s = (res, s')"
  obtains "res = Inl ErrPreviewUnavailable" "s' = s"
  | pv x issued m where "with_grant_binding io clock (sv_connection_id s) (sv_generation s)
      (\<lambda>b snapshot d. (Inr (issue_preview sha256_hex now rand s request pv b snapshot), d)) (sv_mgr s) = ((x, issued), m)"
      "(res, s') = preview_outcome pv s issued m" "\<not> pv_executable pv"
proof (cases "parse_and_classify parse stmt_text query_text (pq_query request)")
  case (Inl e)
  with assms show thesis by (intro that(1)) (simp_all add: preview_mutation_def)
next
  case a: (Inr a)
  show thesis
  proof (cases "an_classification a \<noteq> MayMutate \<or> length (an_statements a) \<noteq> 1")
    case True
    with assms a show thesis by (intro that(1)) (auto simp: preview_mutation_def)
  next
    case False
    obtain kind target confirmation where mt: "mutation_target type_name target_text
        (case an_parsed a of Some (stmt # _) \<Rightarrow> stmt | _ \<Rightarrow> NilStatement) = (kind, target, confirmation)"
      by (metis prod_cases3)
    define pv where "pv = \<lparr>pv_canonical_query = an_canonical a, pv_operation_kind = kind, pv_target = target,
      pv_confirmation_required = confirmation, pv_executable = False, pv_token = None, pv_expires_at = None\<rparr>"
    obtain x issued m where wb: "with_grant_binding io clock (sv_connection_id s) (sv_generation s)
        (\<lambda>b snapshot d. (Inr (issue_preview sha256_hex now rand s request pv b snapshot), d)) (sv_mgr s) = ((x, issued), m)"
      by (metis prod.exhaust)
    have "preview_outcome pv s issued m = (res, s')"
      using assms False unfolding preview_mutation_def a mt Let_def sum.case prod.case pv_def [symmetric] wb by (simp only: if_False)
    with wb show thesis by (intro that(2) [of pv x issued m]) (simp_all add: pv_def)
  qed
qed

lemma preview_frame:
  assumes "preview_mutation parse stmt_text query_text type_name target_text sha256_hex io clock now rand request s = (res, s')"
  shows "same_ops (sv_db s) (sv_db s')" and "sv_controls s' = sv_controls s"
proof -
  from assms have "same_ops (sv_db s) (sv_db s') \<and> sv_controls s' = sv_controls s"
  proof (cases rule: preview_cases)
    case (2 pv x issued m)
    have "sv_mgr s' = m" "sv_controls s' = sv_controls s"
      using 2(2) by (auto simp: preview_outcome_def split: sum.splits prod.splits)
    with grant_binding_same_ops [OF 2(1)] show ?thesis by simp
  qed simp
  then show "same_ops (sv_db s) (sv_db s')" "sv_controls s' = sv_controls s" by simp_all
qed

lemma foreign_inv:
  assumes inv: "op_inv y" and f: "foreign_ops (sv_db (os_service y)) (mg_db m')"
  shows "op_inv (y\<lparr>os_service := (os_service y)\<lparr>sv_mgr := m'\<rparr>\<rparr>)"
proof -
  have "ops_ok (mg_db m')"
    using f op_inv_ok [OF inv] by (force simp: foreign_ops_def ops_ok_def)
  then show ?thesis using f by (intro op_inv_frame [OF inv]) (simp_all add: foreign_ops_def)
qed

lemma cancel_stored_step:
  assumes ok: "ops_ok d" and run: "cancel_stored uuid_ok sha256_hex io tn now i request d = (res, d')"
  shows "ops_ok d'" and "op_row d' k = op_row d k"
  using run ok cancel_stored_frame [OF ok] by (auto simp: cancel_stored_def split: sum.splits prod.splits)

lemma op_inv_step:
  assumes inv: "op_inv y" and step: "op_step y y'"
  shows "op_inv y'"
  using step inv
proof cases
  case executes
  then show ?thesis using execute_step_inv [OF inv] by simp
next
  case begins
  then show ?thesis using begin_step_inv [OF inv] by simp
next
  case rejects
  then show ?thesis using reject_step_inv [OF inv] by simp
next
  case finishes
  then show ?thesis using finish_step_inv [OF inv] by simp
next
  case cancels
  then show ?thesis using cancel_step_inv [OF inv] by simp
next
  case (cancels_stored uuid_ok sha256_hex io tn now i request res d')
  have "op_inv (y\<lparr>os_service := put_db d' (os_service y)\<rparr>)"
    using cancel_stored_step [OF op_inv_ok [OF inv] cancels_stored(2)] by (intro op_inv_frame [OF inv]) simp_all
  with cancels_stored show ?thesis by simp
next
  case (previews parse stmt_text query_text type_name target_text sha256_hex io clock now rand request res s')
  note pf = preview_frame [OF previews(2)]
  have "op_inv (y\<lparr>os_service := s'\<rparr>)"
    using pf ops_ok_same [OF pf(1) op_inv_ok [OF inv]] by (intro op_inv_frame [OF inv]) (simp_all add: same_ops_def)
  with previews show ?thesis by simp
next
  case elsewhere
  then show ?thesis using foreign_inv [OF inv] by simp
qed

lemma op_inv_start: "op_start y \<Longrightarrow> op_inv y"
  by (auto simp: op_start_def op_inv_def goroutine_ok_def new_service_def)

interpretation operation: transition_system op_start op_step op_inv
  by unfold_locales (auto intro: op_inv_start op_inv_step)

section \<open>Terminal operations\<close>

lemma cancel_active_moved:
  assumes ok: "ops_ok (sv_db s)" and run: "cancel_active io tn now i request revision scope digest started s = (res, s')"
  shows "op_moved i (sv_db s) (sv_db s')"
    and "op_row (sv_db s) i = Some r \<Longrightarrow> \<not> live_state (o_state r) \<Longrightarrow> op_row (sv_db s') i = Some r"
proof -
  obtain out d' where im: "with_immediate io (apply_cancel_tx i (en_command_request_id request) revision scope digest
      started True tn now) (sv_db s) = (out, d')" by (metis prod.exhaust)
  have s': "sv_db s' = d'" using run im by (auto simp: cancel_active_def split: sum.splits prod.splits if_splits)
  have "op_moved i (sv_db s) d' \<and> (\<forall>r. op_row (sv_db s) i = Some r \<and> \<not> live_state (o_state r) \<longrightarrow> op_row d' i = Some r)"
  proof (cases out)
    case (Inl e)
    with im have "d' = sv_db s" by auto
    with op_moved_refl [OF ok] show ?thesis by simp
  next
    case (Inr x)
    obtain o1 rp ap where x: "x = (o1, rp, ap)" by (metis prod_cases3)
    with im Inr have "apply_cancel_tx i (en_command_request_id request) revision scope digest started True tn now (sv_db s)
        = Inr ((o1, rp, ap), d')" by (simp add: with_immediate_Inr)
    note e = apply_cancel_effect [OF ok this]
    from e show ?thesis by (cases ap) (auto simp: live_state_def split: if_splits)
  qed
  with s' show "op_moved i (sv_db s) (sv_db s')"
    and "op_row (sv_db s) i = Some r \<Longrightarrow> \<not> live_state (o_state r) \<Longrightarrow> op_row (sv_db s') i = Some r" by auto
qed

lemma cancel_terminal:
  assumes ok: "ops_ok (sv_db s)" and run: "op_cancel uuid_ok sha256_hex io tn now i request s = (res, s')"
    and row: "op_row (sv_db s) k = Some r" "\<not> live_state (o_state r)"
  shows "op_row (sv_db s') k = Some r"
proof -
  from op_cancel_cases [OF run] show ?thesis
  proof (elim disjE exE conjE)
    fix revision scope digest d'
    assume "cancel_stored_validated io tn now i request revision scope digest (sv_db s) = (res, d')" and s': "s' = put_db d' s"
    with cancel_stored_frame(2) [OF ok] row show ?thesis by simp
  next
    fix revision scope digest control
    assume "cancel_active io tn now i request revision scope digest (oc_started control) s = (res, s')"
    note e = cancel_active_moved [OF ok this]
    show ?thesis
    proof (cases "k = i")
      case True
      with e(2) row show ?thesis by simp
    next
      case False
      with e(1) row show ?thesis by (simp add: op_moved_def)
    qed
  qed (use row in simp)
qed

lemma terminal_step:
  assumes inv: "op_inv y" and step: "op_step y y'"
    and row: "op_row (sv_db (os_service y)) k = Some r" "\<not> live_state (o_state r)"
  shows "op_row (sv_db (os_service y')) k = Some r \<and> (k \<in> set (os_sent y') \<longleftrightarrow> k \<in> set (os_sent y))"
  using step
proof cases
  case (executes uuid_ok sha256_hex io now i request res spawn s')
  from execute_cases [OF executes(2)] show ?thesis
  proof (elim disjE exE conjE)
    fix tk out d'
    assume none: "tbl_get ie_scope (execute_scope (os_service y) request) (idempotency_t (sv_db (os_service y))) = None"
      and tx: "execute_tx (os_service y) (execute_scope (os_service y) request) (execute_digest sha256_hex request) tk i
        (now 2) (now 3) (sv_db (os_service y)) = Inr (out, d')" and s': "sv_db s' = d'"
    note e = execute_tx_effect [OF op_inv_ok [OF inv] none tx]
    have "k \<noteq> i" using row e(3) by auto
    with e(1) row s' executes show ?thesis by (simp add: op_moved_def)
  qed (use executes row in simp)
next
  case (begins i tk io clock now round_trip sent s')
  from op_inv_goroutine [OF inv, of i] begins(2) obtain r0 where r0: "op_row (sv_db (os_service y)) i = Some r0"
    "o_state r0 = OpQueued \<or> o_state r0 = OpCanceledNotSent" by (auto simp: goroutine_ok_def)
  note e = dispatch_begin_effect [OF op_inv_ok [OF inv] r0 begins(3)]
  show ?thesis
  proof (cases "k = i")
    case True
    then have "r0 = r" using r0 row by simp
    with e(3,4) row True begins show ?thesis by (auto simp: live_state_def)
  next
    case False
    with e(1) row begins show ?thesis by (auto simp: op_moved_def)
  qed
next
  case (rejects i tk io tn now)
  from op_inv_goroutine [OF inv, of i] rejects(2) obtain r0 where r0: "op_row (sv_db (os_service y)) i = Some r0"
    "o_state r0 = OpQueued \<or> o_state r0 = OpCanceledNotSent" by (auto simp: goroutine_ok_def)
  have st: "\<not> live_state OpRejectedNotSent" "OpRejectedNotSent \<noteq> []" by (simp_all add: live_state_def)
  note e = finish_effect [OF op_inv_ok [OF inv] r0(1) st, of io tn now "''MUTATION_AUTHORIZATION_REJECTED''"
      "''Mutation was not sent''" "''REJECTED''"]
  show ?thesis
  proof (cases "k = i")
    case True
    then have "r0 = r" using r0 row by simp
    with e(3) row True rejects show ?thesis by (simp add: dispatch_rejected_def)
  next
    case False
    with e(1) row rejects show ?thesis by (simp add: op_moved_def dispatch_rejected_def)
  qed
next
  case (finishes i io tn now decode_json response)
  from op_inv_goroutine [OF inv, of i] finishes(2) obtain r0 where r0: "op_row (sv_db (os_service y)) i = Some r0"
    "o_state r0 = OpDispatching" by (auto simp: goroutine_ok_def)
  obtain st code msg audit where fc: "finish_code decode_json response = (st, code, msg, audit)" by (metis prod.exhaust)
  have st: "\<not> live_state st" "st \<noteq> []" using finish_code_sent [of decode_json response] fc by simp_all
  have "k \<noteq> i" using r0 row by (auto simp: live_state_def)
  with finish_effect(1) [OF op_inv_ok [OF inv] r0(1) st, of io tn now code msg audit] fc row finishes show ?thesis
    by (simp add: op_moved_def dispatch_finish_def finish_code_def)
next
  case cancels
  then show ?thesis using cancel_terminal [OF op_inv_ok [OF inv] cancels(2) row] by simp
next
  case cancels_stored
  then show ?thesis using cancel_stored_step(2) [OF op_inv_ok [OF inv] cancels_stored(2)] row by simp
next
  case previews
  then show ?thesis using preview_frame(1) [OF previews(2)] row by (simp add: same_ops_def)
next
  case elsewhere
  then show ?thesis using row by (simp add: foreign_ops_def)
qed

lemma terminal_steps:
  assumes "op_step\<^sup>*\<^sup>* y y'" and "op_inv y"
    and "op_row (sv_db (os_service y)) k = Some r" and "\<not> live_state (o_state r)"
  shows "op_row (sv_db (os_service y')) k = Some r \<and> (k \<in> set (os_sent y') \<longleftrightarrow> k \<in> set (os_sent y))"
  using assms
proof (induction rule: rtranclp_induct)
  case (step a b)
  then have "op_inv a" using operation.steps_inv by blast
  with step terminal_step [OF this step.hyps(2)] show ?case by auto
qed simp

end
