(* ===== verification/Operation_Laws.thy ===== *)
theory Operation_Laws
  imports Operation_System
begin

text \<open>
  What the mutation service promises: a request is sent at most once, a terminal operation stays as it
  is, a repeated \<open>Execute\<close> is answered from the ledger, a preview token serves one execution, a canceled
  queued operation is never sent, and what a response of the server settles.
\<close>

section \<open>A run\<close>

text \<open>One mutation on the unlocked connection of \<open>Protection_System\<close>, one second before its lease expires.\<close>

definition demo_text :: "statement \<Rightarrow> string" where "demo_text _ = ''m''"

definition demo_parse :: "string \<Rightarrow> string + statement list" where
  "demo_parse _ = Inr [PlainStatement DropMeasurement]"

definition demo_service :: op_service where
  "demo_service = new_service demo_unlocked ''p'' ''1'' ''c'' ''1'' 0"

definition demo_preview :: "preview result \<times> op_service" where
  "demo_preview = preview_mutation demo_parse demo_text (\<lambda>_. ''q'') (\<lambda>_. ''influxql.DropMeasurementStatement'')
     demo_text (\<lambda>s. s) True (\<lambda>_. -1) (\<lambda>_. -1) (\<lambda>_. Some ''T'')
     \<lparr>pq_database = ''d'', pq_retention_policy = '''', pq_query = ''q''\<rparr> demo_service"

definition demo_request :: "string \<Rightarrow> execute_request" where
  "demo_request r = \<lparr>xr_client_request_id = r, xr_preview_token = ''T'', xr_confirmation = ''m''\<rparr>"

definition demo_execute :: "string \<Rightarrow> string \<Rightarrow> op_service \<Rightarrow> operation result \<times> (string \<times> token_record) option \<times> op_service" where
  "demo_execute i r = execute (\<lambda>_. True) (\<lambda>s. s) True (\<lambda>_. -1) i (demo_request r)"

definition demo_envelope :: command_envelope where
  "demo_envelope = \<lparr>en_command_request_id = ''k'', en_expected_state_revision = ''1''\<rparr>"

definition demo_cancel :: "op_service \<Rightarrow> operation result \<times> op_service" where
  "demo_cancel = op_cancel (\<lambda>_. True) (\<lambda>s. s) True (-1) (-1) ''i'' demo_envelope"

definition demo_begin :: "string \<Rightarrow> token_record \<Rightarrow> op_service \<Rightarrow> bool \<times> op_service" where
  "demo_begin i tk = dispatch_begin (\<lambda>_. True) (\<lambda>_. -1) (\<lambda>_. -1) (Inr ()) i tk"


definition demo_issued :: op_service where "demo_issued = snd demo_preview"

lemma demo_preview_ok: "is_ok (fst demo_preview)"
  by code_simp

definition demo_executed :: op_service where "demo_executed = snd (snd (demo_execute ''i'' ''r'' demo_issued))"

definition demo_token :: token_record where
  "demo_token = snd (the (fst (snd (demo_execute ''i'' ''r'' demo_issued))))"

lemma demo_execute_ok: "case demo_execute ''i'' ''r'' demo_issued of (res, sp, s) \<Rightarrow>
    is_ok res \<and> sp \<noteq> None \<and> fst (the sp) = ''i'' \<and> fst (demo_begin ''i'' (snd (the sp)) s) \<and>
    is_ok (fst (demo_cancel s)) \<and> command_t (sv_db s) = [] \<and>
    tbl_get ie_scope (execute_scope s (demo_request ''q'')) (idempotency_t (sv_db s)) = None \<and>
    (case op_row (sv_db s) ''i'' of Some r \<Rightarrow> o_state r = OpQueued | None \<Rightarrow> False)"
  by code_simp

lemma count_distinct: "distinct xs \<Longrightarrow> count_list xs x \<le> 1"
  by (induction xs) (auto simp: count_list_0_iff)

lemma demo_execute_run: "\<exists>out. demo_execute ''i'' ''r'' demo_issued = (Inr out, Some (''i'', demo_token), demo_executed)"
  and demo_begin_sends: "fst (demo_begin ''i'' demo_token demo_executed)"
  and demo_cancel_ok: "is_ok (fst (demo_cancel demo_executed))" "command_t (sv_db demo_executed) = []"
    "\<exists>r. op_row (sv_db demo_executed) ''i'' = Some r \<and> o_state r = OpQueued"
    "tbl_get ie_scope (execute_scope demo_executed (demo_request ''q'')) (idempotency_t (sv_db demo_executed)) = None"
proof -
  obtain res sp s where run: "demo_execute ''i'' ''r'' demo_issued = (res, sp, s)" by (metis prod_cases3)
  with demo_execute_ok have a: "is_ok res" "sp \<noteq> None" "fst (the sp) = ''i''" "fst (demo_begin ''i'' (snd (the sp)) s)"
    and c: "is_ok (fst (demo_cancel s))" "command_t (sv_db s) = []"
      "tbl_get ie_scope (execute_scope s (demo_request ''q'')) (idempotency_t (sv_db s)) = None"
      "case op_row (sv_db s) ''i'' of Some r \<Rightarrow> o_state r = OpQueued | None \<Rightarrow> False"
    by simp_all
  have d: "demo_executed = s" "demo_token = snd (the sp)" by (simp_all add: demo_executed_def demo_token_def run)
  obtain j tk where sp: "sp = Some (j, tk)" using a(2) by (cases sp) auto
  obtain out where res: "res = Inr out" using a(1) by (cases res) auto
  show "\<exists>out. demo_execute ''i'' ''r'' demo_issued = (Inr out, Some (''i'', demo_token), demo_executed)"
    using a run d by (simp add: sp res)
  show "fst (demo_begin ''i'' demo_token demo_executed)" using a(4) by (simp add: d)
  show "is_ok (fst (demo_cancel demo_executed))" "command_t (sv_db demo_executed) = []"
    "\<exists>r. op_row (sv_db demo_executed) ''i'' = Some r \<and> o_state r = OpQueued"
    "tbl_get ie_scope (execute_scope demo_executed (demo_request ''q'')) (idempotency_t (sv_db demo_executed)) = None"
    using c by (simp_all add: d split: option.splits)
qed

definition op_demo_sys :: "op_service \<Rightarrow> (string \<rightharpoonup> goroutine) \<Rightarrow> string list \<Rightarrow> op_sys" where
  "op_demo_sys s g sent = \<lparr>os_service = s, os_goroutines = g, os_sent = sent\<rparr>"

lemma demo_unlocked_ops: "ops_ok (mg_db demo_unlocked)"
proof -
  have e: "tasks_t (mg_db demo_unlocked) = [] \<and> operations_t (mg_db demo_unlocked) = [] \<and>
      task_events_t (mg_db demo_unlocked) = [] \<and> event_head (mg_db demo_unlocked) = ''0''" by code_simp
  then have "tasks_inv (mg_db demo_unlocked)"
    using tasks_inv_empty tasks_inv_frame [of "mg_db demo_unlocked" empty_db] by (simp add: empty_db_def)
  with e show ?thesis by (simp add: ops_ok_def table_simps)
qed

lemma demo_issued_reachable: "op_reachable (op_demo_sys demo_issued (\<lambda>_. None) [])"
proof (rule reach_step)
  let ?y = "op_demo_sys demo_service (\<lambda>_. None) []"
  show "op_reachable ?y"
  proof (rule reach_init)
    have "os_service ?y = new_service demo_unlocked ''p'' ''1'' ''c'' ''1'' 0"
      by (simp add: op_demo_sys_def demo_service_def)
    with demo_unlocked_ops have "\<exists>m p pr c g ttl. os_service ?y = new_service m p pr c g ttl \<and> ops_ok (mg_db m)"
      by blast
    then show "op_start ?y" by (auto simp: op_start_def op_demo_sys_def)
  qed
  have "preview_mutation demo_parse demo_text (\<lambda>_. ''q'') (\<lambda>_. ''influxql.DropMeasurementStatement'')
     demo_text (\<lambda>s. s) True (\<lambda>_. -1) (\<lambda>_. -1) (\<lambda>_. Some ''T'')
     \<lparr>pq_database = ''d'', pq_retention_policy = '''', pq_query = ''q''\<rparr> (os_service ?y) = (fst demo_preview, demo_issued)"
    by (simp add: demo_issued_def demo_preview_def op_demo_sys_def)
  then have "op_step ?y (?y\<lparr>os_service := demo_issued\<rparr>)" by (rule op_step.previews)
  then show "op_step ?y (op_demo_sys demo_issued (\<lambda>_. None) [])"
    by (simp add: op_demo_sys_def)
qed

lemma demo_executed_reachable: "op_reachable (op_demo_sys demo_executed [''i'' \<mapsto> Starting demo_token] [])"
proof (rule reach_step [OF demo_issued_reachable])
  let ?y = "op_demo_sys demo_issued (\<lambda>_. None) []"
  obtain out where "demo_execute ''i'' ''r'' demo_issued = (Inr out, Some (''i'', demo_token), demo_executed)"
    using demo_execute_run by blast
  then have "op_step ?y (?y\<lparr>os_service := demo_executed,
      os_goroutines := (case Some (''i'', demo_token) of None \<Rightarrow> os_goroutines ?y
      | Some (j, tk) \<Rightarrow> (os_goroutines ?y)(j \<mapsto> Starting tk))\<rparr>)"
    by (intro op_step.executes) (simp add: op_demo_sys_def demo_execute_def)
  then show "op_step ?y (op_demo_sys demo_executed [''i'' \<mapsto> Starting demo_token] [])"
    by (simp add: op_demo_sys_def)
qed

definition demo_sent :: op_service where "demo_sent = snd (demo_begin ''i'' demo_token demo_executed)"

lemma demo_sent_reachable: "op_reachable (op_demo_sys demo_sent [''i'' \<mapsto> Awaiting] [''i''])"
proof (rule reach_step [OF demo_executed_reachable])
  let ?y = "op_demo_sys demo_executed [''i'' \<mapsto> Starting demo_token] []"
  have "demo_begin ''i'' demo_token demo_executed = (True, demo_sent)"
    using demo_begin_sends by (simp add: demo_sent_def prod_eq_iff)
  then have "op_step ?y (?y\<lparr>os_service := demo_sent, os_goroutines := (os_goroutines ?y)(''i'' := (if True then Some Awaiting else None)),
      os_sent := (if True then ''i'' # os_sent ?y else os_sent ?y)\<rparr>)"
    by (intro op_step.begins) (simp_all add: op_demo_sys_def demo_begin_def)
  then show "op_step ?y (op_demo_sys demo_sent [''i'' \<mapsto> Awaiting] [''i''])" by (simp add: op_demo_sys_def)
qed

section \<open>Properties\<close>

text \<open>
  C26. The request of an operation is put on the wire at most once, and only for an operation whose row
  says so: it has \<open>dispatch_attempted\<close> and is dispatching, succeeded, rejected by the server or of
  unknown outcome.  So \<open>REJECTED_NOT_SENT\<close>, \<open>CANCELED_NOT_SENT\<close> and \<open>FAILED_INTERNAL_NOT_SENT\<close> mean what
  they say.  The task row carries the same state, and is terminal exactly outside \<open>QUEUED\<close> and
  \<open>DISPATCHING\<close>.
\<close>

theorem mutation_sent_at_most_once:
  assumes "op_reachable y" and "op_row (sv_db (os_service y)) i = Some r"
  shows "count_list (os_sent y) i \<le> 1 \<and>
    (i \<in> set (os_sent y) \<longrightarrow> o_dispatch_attempted r \<and>
       o_state r \<in> {OpDispatching, OpSucceeded, OpRejected, OpOutcomeUnknown}) \<and>
    (\<exists>m. op_meta (sv_db (os_service y)) i = Some m \<and> t_state m = o_state r \<and>
       (t_terminal m \<longleftrightarrow> o_state r \<noteq> OpQueued \<and> o_state r \<noteq> OpDispatching))"
proof -
  have inv: "op_inv y" by (rule operation.reachable_inv [OF assms(1)])
  then have "count_list (os_sent y) i \<le> 1" using count_distinct by (auto simp: op_inv_def)
  moreover have "o_dispatch_attempted r \<and> o_state r \<in> {OpDispatching, OpSucceeded, OpRejected, OpOutcomeUnknown}"
    if "i \<in> set (os_sent y)"
    using inv that assms(2) by (auto simp: op_inv_def sent_ok_def sent_states_def)
  moreover have "\<exists>m. op_meta (sv_db (os_service y)) i = Some m \<and> t_state m = o_state r \<and>
       (t_terminal m \<longleftrightarrow> o_state r \<noteq> OpQueued \<and> o_state r \<noteq> OpDispatching)"
    using row_meta [OF op_inv_ok [OF inv] assms(2)] by (auto simp: row_matches_def live_state_def)
  ultimately show ?thesis by blast
qed

lemma mutation_sent_at_most_once_witness:
  "\<exists>r. op_row (sv_db demo_sent) ''i'' = Some r \<and> o_dispatch_attempted r \<and>
     o_state r \<in> {OpDispatching, OpSucceeded, OpRejected, OpOutcomeUnknown}"
proof -
  let ?y = "op_demo_sys demo_sent [''i'' \<mapsto> Awaiting] [''i'']"
  have "op_inv ?y" by (rule operation.reachable_inv [OF demo_sent_reachable])
  then obtain r where r: "op_row (sv_db (os_service ?y)) ''i'' = Some r"
    by (auto simp: op_inv_def sent_ok_def op_demo_sys_def)
  from mutation_sent_at_most_once [OF demo_sent_reachable r] r show ?thesis by (simp add: op_demo_sys_def)
qed

text \<open>
  C27. A terminal operation is final: whatever \<open>Execute\<close>, \<open>Preview\<close>, \<open>Cancel\<close>, its goroutine or another
  operation does afterwards, its row does not change and nothing more is sent for it.
\<close>

theorem terminal_operation_final:
  assumes "op_reachable y" and "op_row (sv_db (os_service y)) i = Some r"
    and "o_state r \<noteq> OpQueued" and "o_state r \<noteq> OpDispatching" and "op_step\<^sup>*\<^sup>* y y'"
  shows "op_row (sv_db (os_service y')) i = Some r \<and> (i \<in> set (os_sent y') \<longleftrightarrow> i \<in> set (os_sent y))"
  using terminal_steps [OF assms(5) operation.reachable_inv [OF assms(1)] assms(2)] assms(3,4)
  by (simp add: live_state_def)

text \<open>What a call of \<open>Cancel\<close> that is not a replay leaves.\<close>

lemma apply_cancel_result:
  assumes ok: "ops_ok d" and new: "tbl_get ce_scope scope (command_t d) = None"
    and run: "apply_cancel_tx i request_id revision scope digest started allow tn now d = Inr ((out, replayed, applied), d')"
  shows "\<not> applied \<Longrightarrow> \<exists>r. op_row d i = Some r \<and> (o_state r = OpCanceledNotSent \<or> o_cancel_requested r)"
proof -
  assume na: "\<not> applied"
  from run new obtain cur r where cr: "op_meta d i = Some cur" "op_row d i = Some r"
    and c: "t_state cur = OpCanceledNotSent \<or> o_cancel_requested r" using na
    by (auto simp: apply_cancel_tx_def tx_simps op_get_Inr split: if_splits)
  moreover obtain m where "op_meta d i = Some m" "row_matches r m" using row_meta [OF ok cr(2)] by blast
  ultimately show ?thesis by (auto simp: row_matches_def)
qed

lemma cancel_active_result:
  assumes ok: "ops_ok (sv_db s)" and new: "tbl_get ce_scope scope (command_t (sv_db s)) = None"
    and run: "cancel_active io tn now i request revision scope digest started s = (Inr out, s')"
  shows "\<exists>r r'. op_row (sv_db s) i = Some r \<and> op_row (sv_db s') i = Some r' \<and>
    (r' = r \<and> (o_state r = OpCanceledNotSent \<or> o_cancel_requested r) \<or>
     r' = canceled_row started now r \<and> (if started then o_state r = OpDispatching else live_state (o_state r)))"
proof -
  obtain res d' where im: "with_immediate io (apply_cancel_tx i (en_command_request_id request) revision scope digest
      started True tn now) (sv_db s) = (res, d')" by (metis prod.exhaust)
  with run obtain o1 rp ap where res: "res = Inr (o1, rp, ap)"
    by (cases res) (auto simp: cancel_active_def)
  have s': "sv_db s' = d'" using run im res by (auto simp: cancel_active_def split: if_splits)
  have tx: "apply_cancel_tx i (en_command_request_id request) revision scope digest started True tn now (sv_db s)
      = Inr ((o1, rp, ap), d')" using im res by (simp add: with_immediate_Inr)
  note e = apply_cancel_effect [OF ok tx]
  show ?thesis using apply_cancel_result [OF ok new tx] e(2,3) s' by (cases ap) auto
qed

lemma cancel_stored_result:
  assumes ok: "ops_ok d" and new: "tbl_get ce_scope scope (command_t d) = None"
    and run: "cancel_stored_validated io tn now i request revision scope digest d = (Inr out, d')"
  shows "\<exists>r. op_row d i = Some r \<and> op_row d' i = Some r \<and> (o_state r = OpCanceledNotSent \<or> o_cancel_requested r)"
proof -
  have "replay_cancel_command i scope digest d = None"
    using new by (simp add: replay_cancel_command_def lookup_command_in_tx_def tx_run)
  with run obtain o1 rp ap where im: "with_immediate io (apply_cancel_tx i (en_command_request_id request) revision scope digest
      False False tn now) d = (Inr (o1, rp, ap), d')"
    by (auto simp: cancel_stored_validated_def split: sum.splits prod.splits)
  then have tx: "apply_cancel_tx i (en_command_request_id request) revision scope digest False False tn now d
      = Inr ((o1, rp, ap), d')" by (simp add: with_immediate_Inr)
  note e = apply_cancel_effect [OF ok tx]
  from apply_cancel_result [OF ok new tx] e(3) obtain r where "op_row d i = Some r"
    "o_state r = OpCanceledNotSent \<or> o_cancel_requested r" by blast
  with cancel_stored_frame(2) [OF ok run, of i] show ?thesis by auto
qed

lemma op_cancel_result:
  assumes "op_reachable y" and "op_row (sv_db (os_service y)) i = Some r"
    and "validate_cancel_command uuid_ok sha256_hex i request = Inr (revision, scope, digest)"
    and "tbl_get ce_scope scope (command_t (sv_db (os_service y))) = None"
    and "op_cancel uuid_ok sha256_hex io tn now i request (os_service y) = (Inr out, s')"
  shows "\<exists>r'. op_row (sv_db s') i = Some r' \<and>
    o_state r' = (if o_state r = OpQueued then OpCanceledNotSent else o_state r) \<and>
    (o_state r' = OpCanceledNotSent \<or> o_cancel_requested r')"
proof -
  let ?s = "os_service y"
  have inv: "op_inv y" by (rule operation.reachable_inv [OF assms(1)])
  note ok = op_inv_ok [OF inv]
  obtain m where "row_matches r m" using row_meta [OF ok assms(2)] by blast
  then have q: "o_state r = OpQueued \<Longrightarrow> \<not> o_cancel_requested r" by (simp add: row_matches_def)
  have new: "replay_cancel_command i scope digest (sv_db ?s) = None"
    using assms(4) by (simp add: replay_cancel_command_def lookup_command_in_tx_def tx_run)
  show ?thesis
  proof (cases "sv_controls ?s i")
    case None
    with assms(3,5) new obtain d' where run: "cancel_stored_validated io tn now i request revision scope digest (sv_db ?s) = (Inr out, d')"
      "s' = put_db d' ?s" by (auto simp: op_cancel_def split: sum.splits prod.splits if_splits)
    from cancel_stored_result [OF ok assms(4) run(1)] assms(2) run(2) q show ?thesis by auto
  next
    case (Some control)
    with assms(3,5) new have run: "cancel_active io tn now i request revision scope digest (oc_started control) ?s = (Inr out, s')"
      by (auto simp: op_cancel_def split: sum.splits option.splits if_splits)
    have g: "goroutine_ok ?s (os_goroutines y) (os_sent y) i" using inv by (rule op_inv_goroutine)
    then have st: "if oc_started control then o_state r = OpDispatching else o_state r = OpQueued \<or> o_state r = OpCanceledNotSent"
      using Some assms(2) by (auto simp: goroutine_ok_def split: option.splits goroutine.splits)
    from cancel_active_result [OF ok assms(4) run] assms(2) st q show ?thesis
      by (auto simp: canceled_row_def live_state_def split: if_splits)
  qed
qed

definition demo_canceled :: op_service where "demo_canceled = snd (demo_cancel demo_executed)"

lemma demo_cancel_run:
  "\<exists>out. op_cancel (\<lambda>_. True) (\<lambda>s. s) True (-1) (-1) ''i'' demo_envelope demo_executed = (Inr out, demo_canceled)"
  using demo_cancel_ok(1) unfolding demo_canceled_def demo_cancel_def
  by (cases "op_cancel (\<lambda>_. True) (\<lambda>s. s) True (-1) (-1) ''i'' demo_envelope demo_executed";
      cases "fst (op_cancel (\<lambda>_. True) (\<lambda>s. s) True (-1) (-1) ''i'' demo_envelope demo_executed)") auto

lemma demo_canceled_row: "\<exists>r. op_row (sv_db demo_canceled) ''i'' = Some r \<and> o_state r = OpCanceledNotSent"
proof -
  let ?y = "op_demo_sys demo_executed [''i'' \<mapsto> Starting demo_token] []"
  obtain r where r: "op_row (sv_db (os_service ?y)) ''i'' = Some r" "o_state r = OpQueued"
    using demo_cancel_ok(3) by (auto simp: op_demo_sys_def)
  obtain revision scope digest where v: "validate_cancel_command (\<lambda>_. True) (\<lambda>s. s) ''i'' demo_envelope = Inr (revision, scope, digest)"
    using demo_cancel_ok(1) by (auto simp: demo_cancel_def op_cancel_def split: sum.splits)
  have c: "tbl_get ce_scope scope (command_t (sv_db (os_service ?y))) = None"
    using demo_cancel_ok(2) by (simp add: op_demo_sys_def table_simps)
  obtain out where "op_cancel (\<lambda>_. True) (\<lambda>s. s) True (-1) (-1) ''i'' demo_envelope (os_service ?y) = (Inr out, demo_canceled)"
    using demo_cancel_run by (auto simp: op_demo_sys_def)
  from op_cancel_result [OF demo_executed_reachable r(1) v c this] r(2) show ?thesis by auto
qed

text \<open>
  A \<open>Cancel\<close> that succeeds, and is not a replay from the command ledger, leaves a queued operation
  \<open>CANCELED_NOT_SENT\<close> (terminal, so by \<open>terminal_operation_final\<close> it is never sent), does not change the
  state of any other, and in each case the row is \<open>CANCELED_NOT_SENT\<close> or has \<open>cancel_requested\<close> set.
\<close>

theorem cancel_contract:
  assumes "op_reachable y" and "op_row (sv_db (os_service y)) i = Some r"
    and "validate_cancel_command uuid_ok sha256_hex i request = Inr (revision, scope, digest)"
    and "tbl_get ce_scope scope (command_t (sv_db (os_service y))) = None"
    and "op_cancel uuid_ok sha256_hex io tn now i request (os_service y) = (Inr out, s')"
  shows "\<exists>r'. op_row (sv_db s') i = Some r' \<and>
    o_state r' = (if o_state r = OpQueued then OpCanceledNotSent else o_state r) \<and>
    (o_state r' = OpCanceledNotSent \<or> o_cancel_requested r')"
  by (rule op_cancel_result [OF assms])

lemma cancel_contract_witness:
  "\<exists>r'. op_row (sv_db demo_canceled) ''i'' = Some r' \<and> o_state r' = OpCanceledNotSent"
proof -
  let ?y = "op_demo_sys demo_executed [''i'' \<mapsto> Starting demo_token] []"
  obtain r where r: "op_row (sv_db (os_service ?y)) ''i'' = Some r" "o_state r = OpQueued"
    using demo_cancel_ok(3) by (auto simp: op_demo_sys_def)
  obtain revision scope digest where v: "validate_cancel_command (\<lambda>_. True) (\<lambda>s. s) ''i'' demo_envelope = Inr (revision, scope, digest)"
    using demo_cancel_ok(1) by (auto simp: demo_cancel_def op_cancel_def split: sum.splits)
  have c: "tbl_get ce_scope scope (command_t (sv_db (os_service ?y))) = None"
    using demo_cancel_ok(2) by (simp add: op_demo_sys_def table_simps)
  obtain out where "op_cancel (\<lambda>_. True) (\<lambda>s. s) True (-1) (-1) ''i'' demo_envelope (os_service ?y) = (Inr out, demo_canceled)"
    using demo_cancel_run by (auto simp: op_demo_sys_def)
  from cancel_contract [OF demo_executed_reachable r(1) v c this] r(2) show ?thesis by auto
qed

lemma terminal_operation_final_witness: "\<not> fst (demo_begin ''i'' demo_token demo_canceled)"
proof
  assume sends: "fst (demo_begin ''i'' demo_token demo_canceled)"
  let ?y = "op_demo_sys demo_executed [''i'' \<mapsto> Starting demo_token] []"
  let ?z = "op_demo_sys demo_canceled [''i'' \<mapsto> Starting demo_token] []"
  obtain out where "op_cancel (\<lambda>_. True) (\<lambda>s. s) True (-1) (-1) ''i'' demo_envelope (os_service ?y) = (out, demo_canceled)"
    unfolding demo_canceled_def demo_cancel_def op_demo_sys_def by (simp add: prod_eq_iff)
  then have "op_step ?y (?y\<lparr>os_service := demo_canceled\<rparr>)" by (rule op_step.cancels)
  then have z: "op_reachable ?z" using demo_executed_reachable by (auto simp: op_demo_sys_def intro: reach_step)
  have "demo_begin ''i'' demo_token demo_canceled = (True, snd (demo_begin ''i'' demo_token demo_canceled))"
    using sends by (simp add: prod_eq_iff)
  then have "op_step ?z (?z\<lparr>os_service := snd (demo_begin ''i'' demo_token demo_canceled),
      os_goroutines := (os_goroutines ?z)(''i'' := (if True then Some Awaiting else None)),
      os_sent := (if True then ''i'' # os_sent ?z else os_sent ?z)\<rparr>)" (is "op_step ?z ?w")
    by (intro op_step.begins) (simp_all add: op_demo_sys_def demo_begin_def)
  then have "op_step\<^sup>*\<^sup>* ?z ?w" by blast
  moreover obtain r where "op_row (sv_db (os_service ?z)) ''i'' = Some r" "o_state r = OpCanceledNotSent"
    using demo_canceled_row by (auto simp: op_demo_sys_def)
  ultimately have "''i'' \<in> set (os_sent ?w) \<longleftrightarrow> ''i'' \<in> set (os_sent ?z)"
    using terminal_operation_final [OF z, of "''i''" r ?w] by simp
  then show False by (simp add: op_demo_sys_def)
qed

text \<open>
  C28. \<open>Execute\<close> is idempotent per client request: after a successful one, the same request is answered
  with the same operation, marked as a replay, starts nothing and changes nothing, whatever the clocks;
  a different request under the same client request id is a conflict.
\<close>

theorem execute_idempotent:
  assumes "ops_ok (sv_db s)" and "execute uuid_ok sha256_hex io now i request s = (Inr out, Some sp, s')"
    and "xr_client_request_id request' = xr_client_request_id request" and "xr_preview_token request' \<noteq> ''''"
  shows "if execute_digest sha256_hex request' = execute_digest sha256_hex request
    then \<exists>out'. execute uuid_ok sha256_hex io' now' j request' s' = (Inr out', None, s') \<and> op_replayed out' \<and>
      op_task out' = op_task out
    else execute uuid_ok sha256_hex io' now' j request' s' = (Inl tasks_ErrIdempotencyConflict, None, s')"
proof -
  from execute_cases [OF assms(2)] obtain tk d' where none: "tbl_get ie_scope (execute_scope s request) (idempotency_t (sv_db s)) = None"
    and tx: "execute_tx s (execute_scope s request) (execute_digest sha256_hex request) tk i (now 2) (now 3) (sv_db s) = Inr (out, d')"
    and s': "sv_db s' = d'" "sv_profile_id s' = sv_profile_id s" by auto
  note e = execute_tx_effect [OF assms(1) none tx]
  obtain r where r: "op_row d' i = Some r" "op_meta d' i = Some (op_task out)" using e(4) by blast
  obtain en where en: "tbl_get ie_scope (execute_scope s request) (idempotency_t d') = Some en"
    "ie_request_digest en = execute_digest sha256_hex request" "ie_resource_id en = i" using e(5) by blast
  have scope: "execute_scope s' request' = execute_scope s request"
    using assms(3) s'(2) by (simp add: execute_scope_def)
  have ok: "uuid_ok (xr_client_request_id request')"
    using assms(2,3) by (auto simp: execute_def split: if_splits)
  have get: "op_get i d' = Inr (operation_of (op_task out) r)" using r by (simp add: op_get_def)
  show ?thesis
    using ok assms(4) en scope s'(1) get
    by (simp add: execute_def op_lookup_idempotency_def mark_replayed_def)
qed

lemma execute_idempotent_witness:
  "\<exists>out'. demo_execute ''j'' ''r'' demo_executed = (Inr out', None, demo_executed) \<and> op_replayed out'"
proof -
  obtain out where run: "demo_execute ''i'' ''r'' demo_issued = (Inr out, Some (''i'', demo_token), demo_executed)"
    using demo_execute_run by blast
  have "op_inv (op_demo_sys demo_issued (\<lambda>_. None) [])" by (rule operation.reachable_inv [OF demo_issued_reachable])
  then have ok: "ops_ok (sv_db demo_issued)" by (simp add: op_inv_def op_demo_sys_def)
  show ?thesis
    using execute_idempotent [OF ok run [unfolded demo_execute_def] refl, of True "\<lambda>_. -1" "''j''"]
    by (auto simp: demo_execute_def demo_request_def)
qed

text \<open>
  A preview token serves one execution: \<open>Execute\<close> starts an operation only for a token it holds,
  before its expiry and with the confirmation the preview asked for, and consumes it; any other client
  request with that token is then refused as expired.
\<close>

theorem preview_token_single_use:
  assumes "execute uuid_ok sha256_hex io now i request s = (res, Some (j, tk), s')"
    and "xr_preview_token request' = xr_preview_token request" and "uuid_ok (xr_client_request_id request')"
    and "tbl_get ie_scope (execute_scope s' request') (idempotency_t (sv_db s')) = None"
  shows "j = i \<and> sv_tokens s (xr_preview_token request) = Some tk \<and> now 1 < tk_expires tk \<and>
    (tk_confirmation_required tk \<longrightarrow> xr_confirmation request = tk_target tk) \<and>
    (\<exists>s''. execute uuid_ok sha256_hex io' now' k request' s' = (Inl ErrPreviewExpired, None, s''))"
proof -
  from execute_cases [OF assms(1)] have c: "j = i" "sv_tokens s (xr_preview_token request) = Some tk" "now 1 < tk_expires tk"
    "tk_confirmation_required tk \<longrightarrow> xr_confirmation request = tk_target tk"
    "sv_tokens s' (xr_preview_token request) = None" by auto
  have t: "xr_preview_token request' \<noteq> ''''"
    using assms(1,2) by (auto simp: execute_def split: if_splits)
  have none: "op_lookup_idempotency (execute_scope s' request') (execute_digest sha256_hex request') (sv_db s') = None"
    using assms(4) by (simp add: op_lookup_idempotency_def)
  have "purge_expired (now' 0) (sv_tokens s') (xr_preview_token request') = None"
    using c(5) assms(2) by (simp add: purge_expired_def)
  then have "\<exists>s''. execute uuid_ok sha256_hex io' now' k request' s' = (Inl ErrPreviewExpired, None, s'')"
    using t none assms(3) by (simp add: execute_def execute_locked_def Let_def)
  with c show ?thesis by blast
qed

lemma preview_token_single_use_witness:
  "fst (demo_execute ''j'' ''q'' demo_executed) = Inl ErrPreviewExpired"
proof -
  obtain out where run: "demo_execute ''i'' ''r'' demo_issued = (Inr out, Some (''i'', demo_token), demo_executed)"
    using demo_execute_run by blast
  show ?thesis
    using preview_token_single_use [OF run [unfolded demo_execute_def], of "demo_request ''q''" True "\<lambda>_. -1" "''j''"]
      demo_cancel_ok(4)
    by (auto simp: demo_execute_def demo_request_def)
qed

text \<open>
  What a response settles.  \<open>SUCCEEDED\<close> needs a 2xx status, a body of at most 64 KiB that decodes to
  exactly one envelope with at least one result and no error; \<open>REJECTED\<close> is only a status below 500
  outside 2xx, or an error in such a body; everything else is \<open>OUTCOME_UNKNOWN\<close>.
\<close>

theorem classify_mutation_response_decides:
  "fst (classify_mutation_response decode_json response) =
     (let ok = 200 \<le> hr_status response \<and> hr_status response < 300;
          decoded = (case hr_body response of
            Some body \<Rightarrow> if length body \<le> 65536 then decode_json body else None
          | None \<Rightarrow> None)
      in case decoded of
           Some (e, True) \<Rightarrow>
             if ok \<and> ev_results e \<noteq> [] then
               (if ev_error e = '''' \<and> list_all (\<lambda>x. x = '''') (ev_results e) then OpSucceeded else OpRejected)
             else if \<not> ok \<and> hr_status response < 500 then OpRejected else OpOutcomeUnknown
         | _ \<Rightarrow> if \<not> ok \<and> hr_status response < 500 then OpRejected else OpOutcomeUnknown)"
  by (auto simp: classify_mutation_response_def Let_def list_ex_iff list_all_iff split: option.splits prod.splits bool.splits)

end
