(* ===== verification/Import.thy ===== *)
theory Import
  imports Tasks Protection
begin

text \<open>
  The import engine of \<open>internal/transfer\<close>: \<open>types.go\<close>, \<open>permit.go\<close>, \<open>checkpoint.go\<close>, the admission of
  \<open>quota.go\<close>, and of \<open>repository.go\<close> everything up to the start of an attempt, with the pauses.

  \<open>repo\<close> is \<open>Repository\<close>: the database and the process-local permits.  Every method runs its body with
  the job lock in hand, so a method is one step; the settlement of an attempt is in \<open>Import_Settle\<close>,
  commands and recovery are in \<open>Import_Control\<close>.

  Parameters: \<open>hash\<close> (the SHA-256 of the JSON text of a checkpoint), \<open>sha256_hex\<close>, \<open>uuid_ok\<close>, new ids,
  \<open>io\<close> for each transaction, the clock readings.
\<close>

section \<open>types.go\<close>

abbreviation ImportPreflighting :: string where "ImportPreflighting \<equiv> ''PREFLIGHTING''"
abbreviation ImportStaging :: string where "ImportStaging \<equiv> ''STAGING''"
abbreviation ImportReady :: string where "ImportReady \<equiv> ''READY''"
abbreviation ImportRunning :: string where "ImportRunning \<equiv> ''RUNNING''"
abbreviation ImportPausedSafe :: string where "ImportPausedSafe \<equiv> ''PAUSED_SAFE''"
abbreviation ImportPausedRestage :: string where "ImportPausedRestage \<equiv> ''PAUSED_RESTAGE''"
abbreviation ImportNeedsPartialDecision :: string where "ImportNeedsPartialDecision \<equiv> ''NEEDS_PARTIAL_DECISION''"
abbreviation ImportNeedsUnknownDecision :: string where "ImportNeedsUnknownDecision \<equiv> ''NEEDS_UNKNOWN_DECISION''"
abbreviation ImportCleaning :: string where "ImportCleaning \<equiv> ''CLEANING''"
abbreviation ImportSucceeded :: string where "ImportSucceeded \<equiv> ''SUCCEEDED''"
abbreviation ImportCanceled :: string where "ImportCanceled \<equiv> ''CANCELED''"
abbreviation ImportAborted :: string where "ImportAborted \<equiv> ''ABORTED''"
abbreviation ImportFailed :: string where "ImportFailed \<equiv> ''FAILED''"

abbreviation transfer_error :: "string \<Rightarrow> go_error" where "transfer_error \<equiv> Sentinel PkgTransfer"

abbreviation ErrTransferGlobalLimit :: go_error where "ErrTransferGlobalLimit \<equiv> transfer_error ''TRANSFER_JOB_LIMIT_GLOBAL''"
abbreviation ErrTransferProfileLimit :: go_error where "ErrTransferProfileLimit \<equiv> transfer_error ''TRANSFER_JOB_LIMIT_PROFILE''"
abbreviation ErrPrivateQuota :: go_error where "ErrPrivateQuota \<equiv> transfer_error ''PRIVATE_TRANSFER_QUOTA_EXCEEDED''"
abbreviation ErrTargetLowSpace :: go_error where "ErrTargetLowSpace \<equiv> transfer_error ''TARGET_VOLUME_LOW_SPACE''"
abbreviation ErrImportState :: go_error where "ErrImportState \<equiv> transfer_error ''IMPORT_STATE_CONFLICT''"
abbreviation ErrImportProfileMismatch :: go_error where "ErrImportProfileMismatch \<equiv> transfer_error ''IMPORT_PROFILE_MISMATCH''"
abbreviation ErrImportOffsetConflict :: go_error where "ErrImportOffsetConflict \<equiv> transfer_error ''IMPORT_OFFSET_CONFLICT''"
abbreviation ErrCheckpointConflict :: go_error where "ErrCheckpointConflict \<equiv> transfer_error ''IMPORT_CHECKPOINT_CONFLICT''"
abbreviation ErrPermitMismatch :: go_error where "ErrPermitMismatch \<equiv> transfer_error ''IMPORT_RUN_PERMIT_MISMATCH''"
abbreviation ErrRoundTripBarrier :: go_error where "ErrRoundTripBarrier \<equiv> transfer_error ''IMPORT_ROUND_TRIP_BARRIER_REQUIRED''"
abbreviation ErrOpenIncident :: go_error where "ErrOpenIncident \<equiv> transfer_error ''IMPORT_OPEN_INCIDENT''"
abbreviation ErrGrantExpired :: go_error where "ErrGrantExpired \<equiv> transfer_error ''IMPORT_RUN_GRANT_EXPIRED''"
abbreviation ErrGrantMismatch :: go_error where "ErrGrantMismatch \<equiv> transfer_error ''IMPORT_RUN_GRANT_MISMATCH''"
abbreviation ErrGrantReserved :: go_error where "ErrGrantReserved \<equiv> transfer_error ''IMPORT_RUN_GRANT_RESERVED''"
abbreviation ErrImportStagingBoundary :: go_error where "ErrImportStagingBoundary \<equiv> transfer_error ''IMPORT_STAGING_BOUNDARY_CONFLICT''"
abbreviation ErrStageFileCleanup :: go_error where "ErrStageFileCleanup \<equiv> transfer_error ''IMPORT_STAGE_FILE_CLEANUP_FAILED''"

definition retained_transfer_jobs_global :: nat where "retained_transfer_jobs_global = 64"
definition retained_transfer_jobs_per_profile :: nat where "retained_transfer_jobs_per_profile = 16"

record permit =
  pm_run_segment_id :: string
  pm_checkpoint_digest :: string
  pm_profile_id :: string
  pm_profile_revision :: string
  pm_connection_id :: string
  pm_connection_generation :: string
  pm_protection_revision :: string
  pm_lease_id :: string

text \<open>\<open>Incident\<close> has the columns of \<open>incident_row\<close>; \<open>replay_parent_incident_id\<close> is never written.\<close>

record import_job =
  im_task :: meta
  im_profile_id :: string
  im_checkpoint_digest :: string
  im_checkpoint :: checkpoint
  im_active :: "string option"
  im_pause_requested :: bool
  im_open_incident :: "incident_row option"

record create_import_request =
  ci_job_id :: string
  ci_profile_id :: string
  ci_client_scope :: string
  ci_request_digest :: string
  ci_ledger_expires_at :: time
  ci_initial_checkpoint :: checkpoint

text \<open>The zero \<open>time.Time\<close> of \<open>GrantExpiresAt\<close> is \<open>None\<close>.\<close>

record start_run_request =
  sr_job_id :: string
  sr_expected_profile_id :: string
  sr_run_segment_id :: string
  sr_kind :: string
  sr_command_scope :: string
  sr_command_digest :: string
  sr_expected_state_revision :: string
  sr_grant_expires_at :: "time option"
  sr_command_expires_at :: time
  sr_permit :: permit

record attempt_request =
  ar_job_id :: string
  ar_batch_id :: string
  ar_attempt_id :: string
  ar_run_segment_id :: string
  ar_parent_digest :: string
  ar_start_offset :: string
  ar_end_offset :: string
  ar_payload_digest :: string

definition transfer_canonical_decimal :: "string \<Rightarrow> string result" where
  "transfer_canonical_decimal value =
     (case canonical_big value of None \<Rightarrow> Inl tasks_ErrInvalidDecimal | Some s \<Rightarrow> Inr s)"

definition transfer_increment_decimal :: "string \<Rightarrow> string result" where
  "transfer_increment_decimal value =
     rbind (transfer_canonical_decimal value) (\<lambda>canonical. Inr (decimal_succ canonical))"

text \<open>\<open>compareCanonicalDecimals(left, right) > 0\<close>\<close>

definition decimal_greater :: "string \<Rightarrow> string \<Rightarrow> bool result" where
  "decimal_greater left right =
     rbind (transfer_canonical_decimal left) (\<lambda>l.
     rbind (transfer_canonical_decimal right) (\<lambda>r. Inr (dec_val r < dec_val l)))"

section \<open>checkpoint.go\<close>

definition checkpoint_digest :: "(checkpoint \<Rightarrow> string) \<Rightarrow> checkpoint \<Rightarrow> string result" where
  "checkpoint_digest hash cp =
     rbind (transfer_canonical_decimal (cp_sequence cp)) (\<lambda>_.
     rbind (transfer_canonical_decimal (cp_logical_offset cp)) (\<lambda>_.
     rbind (transfer_canonical_decimal (cp_adaptive_max_points cp)) (\<lambda>_.
     rbind (transfer_canonical_decimal (cp_adaptive_max_bytes cp)) (\<lambda>_.
     rbind (require (\<not> (cp_source_sha256 cp = '''' \<or> cp_staging_sha256 cp = '''' \<or>
         cp_normalization_version cp = '''' \<or> cp_spec_digest cp = '''' \<or> cp_target_digest cp = ''''))
       (PlainError ''checkpoint identity fields are required'')) (\<lambda>_.
     Inr (hash cp))))))"

section \<open>permit.go\<close>

type_synonym permits = "string \<rightharpoonup> permit"

definition decimal_ok :: "string \<Rightarrow> bool" where
  "decimal_ok value = is_ok (transfer_canonical_decimal value)"

definition valid_permit :: "permit \<Rightarrow> bool" where
  "valid_permit p =
     (\<not> (pm_run_segment_id p = '''' \<or> pm_checkpoint_digest p = '''' \<or> pm_profile_id p = '''' \<or>
         pm_profile_revision p = '''' \<or> pm_connection_id p = '''' \<or> pm_lease_id p = '''') \<and>
      decimal_ok (pm_profile_revision p) \<and> decimal_ok (pm_connection_generation p) \<and>
      decimal_ok (pm_protection_revision p))"

definition permit_activate :: "string \<Rightarrow> permit \<Rightarrow> permits \<Rightarrow> permits result" where
  "permit_activate i p ps =
     (if \<not> valid_permit p \<or> ps i \<noteq> None then Inl ErrPermitMismatch else Inr (ps(i \<mapsto> p)))"

definition permit_validate :: "string \<Rightarrow> permit \<Rightarrow> permits \<Rightarrow> unit result" where
  "permit_validate i expected ps =
     (case ps i of
        None \<Rightarrow> Inl ErrPermitMismatch
      | Some p \<Rightarrow> if p \<noteq> expected \<or> \<not> valid_permit p then Inl ErrPermitMismatch else Inr ())"

definition permit_cas :: "string \<Rightarrow> string \<Rightarrow> string \<Rightarrow> string \<Rightarrow> permits \<Rightarrow> bool \<times> permits" where
  "permit_cas i segment parent child ps =
     (case ps i of
        None \<Rightarrow> (False, ps)
      | Some p \<Rightarrow>
          if pm_run_segment_id p \<noteq> segment \<or> pm_checkpoint_digest p \<noteq> parent then (False, ps)
          else (True, ps(i \<mapsto> p\<lparr>pm_checkpoint_digest := child\<rparr>)))"

definition permit_revoke :: "string \<Rightarrow> permits \<Rightarrow> permits" where
  "permit_revoke i ps = ps(i := None)"

definition permit_revoke_if_match :: "string \<Rightarrow> permit \<Rightarrow> permits \<Rightarrow> bool \<times> permits" where
  "permit_revoke_if_match i expected ps =
     (if ps i = Some expected then (True, ps(i := None)) else (False, ps))"

definition permit_matches :: "string \<Rightarrow> string \<Rightarrow> string \<Rightarrow> permit \<Rightarrow> bool" where
  "permit_matches connection_id generation revision p =
     (pm_connection_id p = connection_id \<and> pm_connection_generation p = generation \<and>
      pm_protection_revision p = revision)"

section \<open>Rows\<close>

text \<open>
  The zero \<open>Checkpoint\<close>, returned when a job has no checkpoint digest.
\<close>

definition zero_checkpoint :: checkpoint where
  "zero_checkpoint = \<lparr>cp_sequence = '''', cp_parent_digest = '''', cp_logical_offset = '''',
     cp_last_settled_batch_id = '''', cp_last_disposition = '''', cp_adaptive_max_points = '''',
     cp_adaptive_max_bytes = '''', cp_source_sha256 = '''', cp_staging_sha256 = '''',
     cp_normalization_version = '''', cp_spec_digest = '''', cp_target_digest = '''', cp_lossy = False\<rparr>"

definition insert_checkpoint :: "string \<Rightarrow> string \<Rightarrow> checkpoint \<Rightarrow> time \<Rightarrow> (db, unit) tx" where
  "insert_checkpoint i digest cp now =
     tx_insert checkpoints_t checkpoints_t_update
       (\<lambda>d. \<not> list_ex (\<lambda>r. ck_job_id r = i \<and> ck_digest r = digest) (checkpoints_t d))
       \<lparr>ck_job_id = i, ck_digest = digest, ck_checkpoint = cp, ck_created_at = now\<rparr>"

definition read_checkpoint :: "string \<Rightarrow> string \<Rightarrow> (db, checkpoint) tx" where
  "read_checkpoint i digest =
     tx_bind (tx_query_row checkpoints_t (\<lambda>r. ck_job_id r = i \<and> ck_digest r = digest)) (\<lambda>r.
     tx_return (ck_checkpoint r))"

text \<open>A child checkpoint has one transition, and so has a parent.\<close>

definition insert_transition :: "transition_row \<Rightarrow> (db, unit) tx" where
  "insert_transition t =
     tx_insert transitions_t transitions_t_update
       (\<lambda>d. \<not> list_ex (\<lambda>r. tr_job_id r = tr_job_id t \<and>
          (tr_child_digest r = tr_child_digest t \<or> tr_parent_digest r = tr_parent_digest t)) (transitions_t d)) t"

definition is_open_of :: "string \<Rightarrow> incident_row \<Rightarrow> bool" where
  "is_open_of i n = (in_job_id n = i \<and> in_status n = ''OPEN'')"

definition read_open_incident :: "string \<Rightarrow> (db, incident_row option) tx" where
  "read_open_incident i = tx_get (\<lambda>d. List.find (is_open_of i) (incidents_t d))"

text \<open>\<open>import_one_open_incident_idx\<close>: at most one open incident of a job.\<close>

definition insert_incident :: "incident_row \<Rightarrow> (db, unit) tx" where
  "insert_incident n =
     tx_insert incidents_t incidents_t_update
       (\<lambda>d. \<not> has_key in_id (in_id n) (incidents_t d) \<and>
            \<not> (in_status n = ''OPEN'' \<and> list_ex (is_open_of (in_job_id n)) (incidents_t d))) n"

text \<open>\<open>import_one_live_segment_idx\<close>: at most one live run segment of a job.\<close>

definition live_segment_state :: "string \<Rightarrow> bool" where
  "live_segment_state st = (st = ''ACTIVE'' \<or> st = ''STOPPING'')"

definition is_live_of :: "string \<Rightarrow> segment_row \<Rightarrow> bool" where
  "is_live_of i s = (sg_job_id s = i \<and> live_segment_state (sg_state s))"

definition insert_segment :: "segment_row \<Rightarrow> (db, unit) tx" where
  "insert_segment s =
     tx_insert segments_t segments_t_update
       (\<lambda>d. \<not> has_key sg_id (sg_id s) (segments_t d) \<and>
            \<not> (live_segment_state (sg_state s) \<and> list_ex (is_live_of (sg_job_id s)) (segments_t d))) s"

text \<open>\<open>import_one_live_attempt_idx\<close>: at most one attempt of a job in flight.\<close>

definition is_sending_of :: "string \<Rightarrow> attempt_row \<Rightarrow> bool" where
  "is_sending_of i a = (at_job_id a = i \<and> at_state a = ''SENDING'')"

definition insert_attempt :: "attempt_row \<Rightarrow> (db, unit) tx" where
  "insert_attempt a =
     tx_insert attempts_t attempts_t_update
       (\<lambda>d. \<not> has_key at_id (at_id a) (attempts_t d) \<and>
            has_key sg_id (at_run_segment_id a) (segments_t d) \<and>
            \<not> (at_state a = ''SENDING'' \<and> list_ex (is_sending_of (at_job_id a)) (attempts_t d))) a"

definition count_sending :: "string \<Rightarrow> (db, nat) tx" where
  "count_sending i = tx_get (\<lambda>d. tbl_count (is_sending_of i) (attempts_t d))"

text \<open>\<open>UPDATE\<close> statements, without and with \<open>requireOneRow\<close>.\<close>

definition upd_job :: "(import_job_row \<Rightarrow> bool) \<Rightarrow> (import_job_row \<Rightarrow> import_job_row) \<Rightarrow> (db, nat) tx" where
  "upd_job = tx_update import_jobs_t import_jobs_t_update"

definition upd_segment :: "(segment_row \<Rightarrow> bool) \<Rightarrow> (segment_row \<Rightarrow> segment_row) \<Rightarrow> (db, nat) tx" where
  "upd_segment = tx_update segments_t segments_t_update"

definition upd_attempt :: "(attempt_row \<Rightarrow> bool) \<Rightarrow> (attempt_row \<Rightarrow> attempt_row) \<Rightarrow> (db, nat) tx" where
  "upd_attempt = tx_update attempts_t attempts_t_update"

definition upd_incident :: "(incident_row \<Rightarrow> bool) \<Rightarrow> (incident_row \<Rightarrow> incident_row) \<Rightarrow> (db, nat) tx" where
  "upd_incident = tx_update incidents_t incidents_t_update"

definition one_row :: "(db, nat) tx \<Rightarrow> go_error \<Rightarrow> (db, unit) tx" where
  "one_row m conflict = tx_bind m (\<lambda>rows. tx_require (rows = 1) conflict)"

definition set_transfer_state :: "string \<Rightarrow> string \<Rightarrow> time \<Rightarrow> (db, nat) tx" where
  "set_transfer_state i state now =
     tx_update transfer_jobs_t transfer_jobs_t_update (\<lambda>r. tj_job_id r = i)
       (\<lambda>r. r\<lparr>tj_state := state, tj_updated_at := now\<rparr>)"

definition insert_audit :: "string \<Rightarrow> string \<Rightarrow> string \<Rightarrow> string \<Rightarrow> string \<Rightarrow> time \<Rightarrow> (db, unit) tx" where
  "insert_audit action target digest outcome correlation now =
     tx_insert audit_t audit_t_update (\<lambda>_. True)
       \<lparr>au_category = ''IMPORT'', au_action = action, au_target_id = target, au_target_digest = digest,
        au_outcome = outcome, au_correlation_id = correlation, au_occurred_at = now\<rparr>"

text \<open>The revisions of the task and the time, as every \<open>UPDATE import_jobs\<close> writes them.\<close>

definition job_rev :: "meta \<Rightarrow> time \<Rightarrow> import_job_row \<Rightarrow> import_job_row" where
  "job_rev m now j = j\<lparr>ij_state_revision := t_state_revision m, ij_snapshot_revision := t_snapshot_revision m,
     ij_updated_at := now\<rparr>"

text \<open>The change of a task that goes to \<open>state\<close>.\<close>

definition state_change :: "string \<Rightarrow> bool \<Rightarrow> string \<Rightarrow> change" where
  "state_change state terminal change_type =
     no_change\<lparr>ch_state := state, ch_terminal := terminal, ch_state_changed := True, ch_change_type := change_type\<rparr>"

section \<open>repository.go: reading and creating\<close>

definition get_import_in_tx :: "string \<Rightarrow> (db, import_job) tx" where
  "get_import_in_tx i =
     tx_bind (get_in_tx i) (\<lambda>m.
     tx_bind (tx_query_row import_jobs_t (\<lambda>j. ij_job_id j = i)) (\<lambda>j.
     tx_bind (tx_query_row transfer_jobs_t (\<lambda>t. tj_job_id t = i)) (\<lambda>t.
     tx_bind (if ij_checkpoint_digest j = '''' then tx_return zero_checkpoint
              else read_checkpoint i (ij_checkpoint_digest j)) (\<lambda>cp.
     tx_bind (read_open_incident i) (\<lambda>incident.
     tx_return \<lparr>im_task = m, im_profile_id = tj_profile_id t, im_checkpoint_digest = ij_checkpoint_digest j,
       im_checkpoint = cp, im_active = ij_active_run_segment_id j, im_pause_requested = ij_pause_requested j,
       im_open_incident = incident\<rparr>)))))"

definition get_import :: "string \<Rightarrow> db \<Rightarrow> import_job result" where
  "get_import i d = (case get_import_in_tx i d of Inl e \<Rightarrow> Inl e | Inr (job, _) \<Rightarrow> Inr job)"

definition admit_in_tx :: "string \<Rightarrow> string \<Rightarrow> string \<Rightarrow> string \<Rightarrow> time \<Rightarrow> (db, unit) tx" where
  "admit_in_tx i profile_id kind state now =
     tx_bind (tx_get (\<lambda>d. filter tj_retained (transfer_jobs_t d))) (\<lambda>rows.
     tx_bind (tx_require (length rows < retained_transfer_jobs_global) ErrTransferGlobalLimit) (\<lambda>_.
     tx_bind (tx_require (length (filter (\<lambda>r. tj_profile_id r = profile_id) rows) < retained_transfer_jobs_per_profile)
       ErrTransferProfileLimit) (\<lambda>_.
     tx_insert transfer_jobs_t transfer_jobs_t_update (\<lambda>d. \<not> has_key tj_job_id i (transfer_jobs_t d))
       \<lparr>tj_job_id = i, tj_profile_id = profile_id, tj_kind = kind, tj_state = state, tj_retained = True,
        tj_created_at = now, tj_updated_at = now\<rparr>)))"

definition create_import_tx ::
  "create_import_request \<Rightarrow> string \<Rightarrow> time \<Rightarrow> time \<Rightarrow> time \<Rightarrow> (db, import_job \<times> bool) tx" where
  "create_import_tx req digest admit_now task_now now =
     tx_bind (lookup_idempotency_in_tx (ci_client_scope req)) (\<lambda>found.
       case found of
         Some entry \<Rightarrow>
           if ie_request_digest entry \<noteq> ci_request_digest req then tx_fail tasks_ErrIdempotencyConflict
           else tx_bind (get_import_in_tx (ie_resource_id entry)) (\<lambda>job. tx_return (job, True))
       | None \<Rightarrow>
           tx_bind (admit_in_tx (ci_job_id req) (ci_profile_id req) ''IMPORT'' ImportReady admit_now) (\<lambda>_.
           tx_bind (create_in_tx task_now (ci_job_id req) ''IMPORT'' ImportReady False) (\<lambda>m.
           tx_bind (tx_insert import_jobs_t import_jobs_t_update
               (\<lambda>d. \<not> has_key ij_job_id (ci_job_id req) (import_jobs_t d))
               \<lparr>ij_job_id = ci_job_id req, ij_state = ImportReady, ij_state_revision = t_state_revision m,
                ij_snapshot_revision = t_snapshot_revision m, ij_checkpoint_digest = digest,
                ij_active_run_segment_id = None, ij_pause_requested = False, ij_updated_at = now\<rparr>) (\<lambda>_.
           tx_bind (insert_checkpoint (ci_job_id req) digest (ci_initial_checkpoint req) now) (\<lambda>_.
           tx_bind (insert_idempotency_in_tx \<lparr>ie_scope = ci_client_scope req,
               ie_request_digest = ci_request_digest req, ie_resource_kind = ''IMPORT'',
               ie_resource_id = ci_job_id req, ie_created_at = now, ie_expires_at = ci_ledger_expires_at req\<rparr>) (\<lambda>_.
           tx_return (\<lparr>im_task = m, im_profile_id = ci_profile_id req, im_checkpoint_digest = digest,
             im_checkpoint = ci_initial_checkpoint req, im_active = None, im_pause_requested = False,
             im_open_incident = None\<rparr>, False)))))))"

record repo =
  rp_db :: db
  rp_permits :: permits

definition create_import ::
  "(checkpoint \<Rightarrow> string) \<Rightarrow> bool \<Rightarrow> time \<Rightarrow> time \<Rightarrow> time \<Rightarrow> create_import_request \<Rightarrow> db \<Rightarrow>
     (import_job \<times> bool) result \<times> db" where
  "create_import hash io admit_now task_now now req d =
     (case checkpoint_digest hash (ci_initial_checkpoint req) of
        Inl e \<Rightarrow> (Inl e, d)
      | Inr digest \<Rightarrow> with_immediate io (create_import_tx req digest admit_now task_now now) d)"

text \<open>\<open>ReplayCommand\<close>: \<open>None\<close> when the ledger has no entry.\<close>

definition replay_command :: "string \<Rightarrow> string \<Rightarrow> string \<Rightarrow> db \<Rightarrow> import_job result option" where
  "replay_command scope digest i d =
     (case lookup_command_in_tx scope digest d of
        Inl e \<Rightarrow> Some (Inl e)
      | Inr (None, _) \<Rightarrow> None
      | Inr (Some entry, _) \<Rightarrow>
          if ce_resource_id entry \<noteq> i then Some (Inl tasks_ErrCommandIdempotencyConflict)
          else Some (get_import i d))"

section \<open>repository.go: runs\<close>

definition active_is :: "string \<Rightarrow> import_job \<Rightarrow> bool" where
  "active_is segment job = (im_active job = Some segment)"

definition start_run_new_tx :: "start_run_request \<Rightarrow> time \<Rightarrow> time \<Rightarrow> (db, import_job) tx" where
  "start_run_new_tx req task_now now =
     (let i = sr_job_id req; segment = sr_run_segment_id req in
      tx_bind (get_import_in_tx i) (\<lambda>job.
      tx_bind (tx_require (im_profile_id job = sr_expected_profile_id req) ErrImportProfileMismatch) (\<lambda>_.
      tx_bind (tx_require (case sr_grant_expires_at req of None \<Rightarrow> False | Some t \<Rightarrow> now < t) ErrGrantExpired) (\<lambda>_.
      tx_bind (tx_require (t_state_revision (im_task job) = sr_expected_state_revision req) tasks_ErrRevisionConflict) (\<lambda>_.
      tx_bind (tx_require (t_state (im_task job) = ImportReady \<or> t_state (im_task job) = ImportPausedSafe) ErrImportState) (\<lambda>_.
      tx_bind (tx_require (pm_run_segment_id (sr_permit req) = segment \<and>
          pm_checkpoint_digest (sr_permit req) = im_checkpoint_digest job) ErrPermitMismatch) (\<lambda>_.
      tx_bind (insert_segment \<lparr>sg_id = segment, sg_job_id = i, sg_kind = sr_kind req, sg_state = ''ACTIVE'',
          sg_initial_digest = im_checkpoint_digest job, sg_committed_digest = im_checkpoint_digest job,
          sg_active_attempt_id = None, sg_stop_reason = None, sg_after_resolution = None,
          sg_resolution_command_id = None, sg_created_at = now, sg_updated_at = now\<rparr>) (\<lambda>_.
      tx_bind (apply_in_tx task_now (im_task job) (state_change ImportRunning False ''STATE'')) (\<lambda>updated.
      tx_bind (upd_job (\<lambda>j. ij_job_id j = i) (\<lambda>j. (job_rev updated now j)\<lparr>ij_state := ImportRunning,
          ij_active_run_segment_id := Some segment, ij_pause_requested := False\<rparr>)) (\<lambda>_.
      tx_bind (insert_command_in_tx \<lparr>ce_scope = sr_command_scope req, ce_request_digest = sr_command_digest req,
          ce_resource_kind = ''IMPORT'', ce_resource_id = i, ce_result_state = ImportRunning,
          ce_result_state_revision = t_state_revision updated, ce_public_error_code = None,
          ce_committed_at = now, ce_expires_at = sr_command_expires_at req\<rparr>) (\<lambda>_.
      tx_return (job\<lparr>im_task := updated, im_active := Some segment\<rparr>))))))))))))"

definition start_run_tx :: "start_run_request \<Rightarrow> time \<Rightarrow> time \<Rightarrow> (db, import_job \<times> bool) tx" where
  "start_run_tx req task_now now =
     tx_bind (lookup_command_in_tx (sr_command_scope req) (sr_command_digest req)) (\<lambda>found.
       case found of
         Some _ \<Rightarrow>
           tx_bind (get_import_in_tx (sr_job_id req)) (\<lambda>out.
           tx_bind (tx_require (im_profile_id out = sr_expected_profile_id req) ErrImportProfileMismatch) (\<lambda>_.
           tx_return (out, True)))
       | None \<Rightarrow> tx_bind (start_run_new_tx req task_now now) (\<lambda>out. tx_return (out, False)))"

text \<open>
  \<open>pausePermitDesync\<close>: the permit is gone; a run that is still at this checkpoint with nothing in
  flight is paused.
\<close>

definition pause_permit_desync_tx :: "string \<Rightarrow> string \<Rightarrow> string \<Rightarrow> time \<Rightarrow> time \<Rightarrow> (db, unit) tx" where
  "pause_permit_desync_tx i segment digest task_now now =
     tx_bind (get_import_in_tx i) (\<lambda>job.
       if t_state (im_task job) \<noteq> ImportRunning \<or> im_checkpoint_digest job \<noteq> digest \<or> \<not> active_is segment job
       then tx_return ()
       else
         tx_bind (count_sending i) (\<lambda>sending.
           if sending \<noteq> 0 then tx_return ()
           else
             tx_bind (apply_in_tx task_now (im_task job) (state_change ImportPausedSafe False ''STATE'')) (\<lambda>updated.
             tx_bind (upd_segment (\<lambda>s. sg_id s = segment) (\<lambda>s. s\<lparr>sg_state := ''CLOSED'',
               sg_stop_reason := Some ''PERMIT_CHECKPOINT_DESYNC'', sg_updated_at := now\<rparr>)) (\<lambda>_.
             tx_bind (upd_job (\<lambda>j. ij_job_id j = i) (\<lambda>j. (job_rev updated now j)\<lparr>ij_state := ImportPausedSafe,
               ij_active_run_segment_id := None\<rparr>)) (\<lambda>_. tx_return ())))))"

definition pause_permit_desync ::
  "bool \<Rightarrow> time \<Rightarrow> time \<Rightarrow> string \<Rightarrow> string \<Rightarrow> string \<Rightarrow> repo \<Rightarrow> unit result \<times> repo" where
  "pause_permit_desync io task_now now i segment digest r =
     (case with_immediate io (pause_permit_desync_tx i segment digest task_now now) (rp_db r) of
        (res, d) \<Rightarrow> (res, \<lparr>rp_db = d, rp_permits = permit_revoke i (rp_permits r)\<rparr>))"

text \<open>\<open>io 0\<close>, \<open>clock 0\<close>, \<open>clock 1\<close> belong to the transaction; \<open>io 1\<close>, \<open>clock 2\<close>, \<open>clock 3\<close> to \<open>pausePermitDesync\<close>.\<close>

definition start_run ::
  "(nat \<Rightarrow> bool) \<Rightarrow> (nat \<Rightarrow> time) \<Rightarrow> string \<Rightarrow> start_run_request \<Rightarrow> repo \<Rightarrow> (import_job \<times> bool) result \<times> repo" where
  "start_run io clock new_id request r =
     (let req = (if sr_run_segment_id request = '''' then request\<lparr>sr_run_segment_id := new_id\<rparr> else request) in
      case with_immediate (io 0) (start_run_tx req (clock 0) (clock 1)) (rp_db r) of
        (Inl e, d) \<Rightarrow> (Inl e, r\<lparr>rp_db := d\<rparr>)
      | (Inr (out, True), d) \<Rightarrow> (Inr (out, True), r\<lparr>rp_db := d\<rparr>)
      | (Inr (out, False), d) \<Rightarrow>
          (case permit_activate (sr_job_id req) (sr_permit req) (rp_permits r) of
             Inl e \<Rightarrow> (Inl e, snd (pause_permit_desync (io 1) (clock 2) (clock 3) (sr_job_id req)
               (sr_run_segment_id req) (pm_checkpoint_digest (sr_permit req)) (r\<lparr>rp_db := d\<rparr>)))
           | Inr ps \<Rightarrow> (Inr (out, False), r\<lparr>rp_db := d, rp_permits := ps\<rparr>)))"

text \<open>\<open>beginAttemptLocked\<close>: the guards on the permit and the offsets, then the durable \<open>SENDING\<close> row.\<close>

definition begin_attempt_guard :: "attempt_request \<Rightarrow> permit \<Rightarrow> permits \<Rightarrow> string result" where
  "begin_attempt_guard req p ps =
     rbind (require (ar_run_segment_id req = pm_run_segment_id p \<and> ar_parent_digest req = pm_checkpoint_digest p)
       ErrPermitMismatch) (\<lambda>_.
     rbind (permit_validate (ar_job_id req) p ps) (\<lambda>_.
     rbind (transfer_canonical_decimal (ar_start_offset req)) (\<lambda>start.
     rbind (transfer_canonical_decimal (ar_end_offset req)) (\<lambda>end_offset.
     rbind (decimal_greater end_offset start) (\<lambda>greater.
     rbind (require greater ErrImportOffsetConflict) (\<lambda>_. Inr start))))))"

text \<open>An exact replay must send the bytes of the open incident.\<close>

definition replay_matches_tx :: "attempt_request \<Rightarrow> segment_row \<Rightarrow> (db, unit) tx" where
  "replay_matches_tx req s =
     (if sg_kind s = ''REPLAY_EXACT'' then
        tx_bind (tx_query_row incidents_t (is_open_of (ar_job_id req))) (\<lambda>n.
        tx_require (in_parent_digest n = ar_parent_digest req \<and> in_start_offset n = ar_start_offset req \<and>
          in_end_offset n = ar_end_offset req \<and> in_payload_digest n = ar_payload_digest req) ErrCheckpointConflict)
      else tx_return ())"

definition begin_attempt_tx ::
  "attempt_request \<Rightarrow> string \<Rightarrow> string \<Rightarrow> permit \<Rightarrow> time \<Rightarrow> (db, unit) tx" where
  "begin_attempt_tx req start expected_profile p now =
     (let i = ar_job_id req; segment = ar_run_segment_id req; parent = ar_parent_digest req in
      tx_bind (get_import_in_tx i) (\<lambda>job.
      tx_bind (tx_require (im_profile_id job = expected_profile \<and> pm_profile_id p = expected_profile)
        ErrImportProfileMismatch) (\<lambda>_.
      tx_bind (tx_require (t_state (im_task job) = ImportRunning \<and> im_checkpoint_digest job = parent \<and>
        active_is segment job) ErrCheckpointConflict) (\<lambda>_.
      tx_bind (tx_lift (transfer_canonical_decimal (cp_logical_offset (im_checkpoint job)))) (\<lambda>offset.
      tx_bind (tx_require (start = offset) ErrImportOffsetConflict) (\<lambda>_.
      tx_bind (tx_query_row segments_t (\<lambda>s. sg_job_id s = i \<and> sg_id s = segment)) (\<lambda>s.
      tx_bind (tx_require (sg_state s = ''ACTIVE'' \<and> sg_committed_digest s = parent) ErrCheckpointConflict) (\<lambda>_.
      tx_bind (replay_matches_tx req s) (\<lambda>_.
      tx_bind (tx_require (sg_active_attempt_id s = None) ErrImportState) (\<lambda>_.
      tx_bind (count_sending i) (\<lambda>live.
      tx_bind (tx_require (live = 0) ErrImportState) (\<lambda>_.
      tx_bind (insert_attempt \<lparr>at_id = ar_attempt_id req, at_job_id = i, at_batch_id = ar_batch_id req,
          at_run_segment_id = segment, at_state = ''SENDING'', at_parent_digest = parent, at_new_digest = None,
          at_start_offset = ar_start_offset req, at_end_offset = ar_end_offset req,
          at_payload_digest = ar_payload_digest req, at_created_at = now, at_updated_at = now\<rparr>) (\<lambda>_.
      one_row (upd_segment (\<lambda>s. sg_job_id s = i \<and> sg_id s = segment \<and> sg_state s = ''ACTIVE'' \<and>
          sg_committed_digest s = parent \<and> sg_active_attempt_id s = None)
        (\<lambda>s. s\<lparr>sg_active_attempt_id := Some (ar_attempt_id req), sg_updated_at := now\<rparr>)) ErrCheckpointConflict)))))))))))))"

definition begin_attempt_locked ::
  "bool \<Rightarrow> time \<Rightarrow> attempt_request \<Rightarrow> string \<Rightarrow> permit \<Rightarrow> permits \<Rightarrow> db \<Rightarrow> unit result \<times> db" where
  "begin_attempt_locked io now req expected_profile p ps d =
     (case begin_attempt_guard req p ps of
        Inl e \<Rightarrow> (Inl e, d)
      | Inr start \<Rightarrow> with_immediate io (begin_attempt_tx req start expected_profile p now) d)"

section \<open>repository.go: pauses\<close>

definition valid_invalidation_reason :: "string \<Rightarrow> bool" where
  "valid_invalidation_reason reason =
     (reason \<in> set [''PROTECTION_LOCKED'', ''PROTECTION_BINDING_CHANGED'', ''CONNECTION_CLOSED'',
        ''LEASE_EXPIRED'', ''WINDOWS_SESSION_LOCKED'', ''RUNNER_STOPPED''])"

definition invalidate_permit_tx :: "string \<Rightarrow> permit \<Rightarrow> string \<Rightarrow> time \<Rightarrow> time \<Rightarrow> (db, unit) tx" where
  "invalidate_permit_tx i p reason task_now now =
     (let segment = pm_run_segment_id p in
      tx_bind (get_import_in_tx i) (\<lambda>job.
      tx_bind (tx_require (im_profile_id job = pm_profile_id p) ErrImportProfileMismatch) (\<lambda>_.
        if t_state (im_task job) \<noteq> ImportRunning \<or> \<not> active_is segment job then tx_return ()
        else
          tx_bind (tx_get (\<lambda>d. tbl_count (\<lambda>a. is_sending_of i a \<and> at_run_segment_id a = segment) (attempts_t d)))
            (\<lambda>sending.
          tx_bind (tx_require (sending \<le> 1) ErrImportState) (\<lambda>_.
            if sending = 0 then
              tx_bind (one_row (upd_segment (\<lambda>s. sg_job_id s = i \<and> sg_id s = segment \<and>
                  live_segment_state (sg_state s) \<and> sg_active_attempt_id s = None)
                (\<lambda>s. s\<lparr>sg_state := ''CLOSED'', sg_active_attempt_id := None, sg_stop_reason := Some reason,
                  sg_updated_at := now\<rparr>)) ErrImportState) (\<lambda>_.
              tx_bind (apply_in_tx task_now (im_task job) (state_change ImportPausedSafe False ''PAUSED'')) (\<lambda>updated.
              one_row (upd_job (\<lambda>j. ij_job_id j = i \<and> ij_state j = ImportRunning \<and>
                  ij_active_run_segment_id j = Some segment)
                (\<lambda>j. (job_rev updated now j)\<lparr>ij_state := ImportPausedSafe, ij_active_run_segment_id := None,
                  ij_pause_requested := False\<rparr>)) ErrImportState))
            else
              tx_bind (one_row (upd_segment (\<lambda>s. sg_job_id s = i \<and> sg_id s = segment \<and>
                  live_segment_state (sg_state s) \<and> sg_active_attempt_id s \<noteq> None)
                (\<lambda>s. s\<lparr>sg_state := ''STOPPING'', sg_stop_reason := Some reason, sg_updated_at := now\<rparr>)) ErrImportState) (\<lambda>_.
              tx_bind (apply_in_tx task_now (im_task job) (state_change ImportRunning False ''CONTROL'')) (\<lambda>updated.
              one_row (upd_job (\<lambda>j. ij_job_id j = i \<and> ij_state j = ImportRunning \<and>
                  ij_active_run_segment_id j = Some segment)
                (\<lambda>j. (job_rev updated now j)\<lparr>ij_pause_requested := True\<rparr>)) ErrImportState)))))))"

definition invalidate_permit ::
  "bool \<Rightarrow> time \<Rightarrow> time \<Rightarrow> string \<Rightarrow> permit \<Rightarrow> string \<Rightarrow> repo \<Rightarrow> bool result \<times> repo" where
  "invalidate_permit io task_now now i p reason r =
     (if rp_permits r i \<noteq> Some p then (Inr False, r)
      else case with_immediate io (invalidate_permit_tx i p reason task_now now) (rp_db r) of
        (Inl e, d) \<Rightarrow> (Inl e, r\<lparr>rp_db := d\<rparr>)
      | (Inr _, d) \<Rightarrow> (Inr True, \<lparr>rp_db = d, rp_permits = snd (permit_revoke_if_match i p (rp_permits r))\<rparr>))"

definition pause_run ::
  "bool \<Rightarrow> time \<Rightarrow> time \<Rightarrow> string \<Rightarrow> string \<Rightarrow> string \<Rightarrow> repo \<Rightarrow> bool result \<times> repo" where
  "pause_run io task_now now i segment reason r =
     (if i = '''' \<or> segment = '''' \<or> \<not> valid_invalidation_reason reason then (Inl ErrPermitMismatch, r)
      else case rp_permits r i of
        None \<Rightarrow> (Inr False, r)
      | Some p \<Rightarrow>
          if pm_run_segment_id p \<noteq> segment then (Inr False, r)
          else invalidate_permit io task_now now i p reason r)"

text \<open>
  \<open>InvalidatePermits\<close>: \<open>entries\<close> is \<open>permits.Matching\<close>, whose order a Go map leaves open.  The result
  is the number of permits invalidated before the end or the first error.
\<close>

fun invalidate_entries ::
  "(nat \<Rightarrow> bool) \<Rightarrow> (nat \<Rightarrow> time) \<Rightarrow> string \<Rightarrow> (string \<times> permit) list \<Rightarrow> repo \<Rightarrow> nat \<times> go_error option \<times> repo" where
  "invalidate_entries io clock reason [] r = (0, None, r)"
| "invalidate_entries io clock reason ((i, p) # entries) r =
     (case invalidate_permit (io 0) (clock 0) (clock 1) i p reason r of
        (Inl e, r) \<Rightarrow> (0, Some e, r)
      | (Inr changed, r) \<Rightarrow>
          (case invalidate_entries (\<lambda>n. io (n + 1)) (\<lambda>n. clock (n + 2)) reason entries r of
             (n, e, r) \<Rightarrow> (n + (if changed then 1 else 0), e, r)))"

definition invalidate_permits ::
  "(nat \<Rightarrow> bool) \<Rightarrow> (nat \<Rightarrow> time) \<Rightarrow> string \<Rightarrow> string \<Rightarrow> string \<Rightarrow> string \<Rightarrow> (string \<times> permit) list \<Rightarrow> repo \<Rightarrow>
     nat \<times> go_error option \<times> repo" where
  "invalidate_permits io clock connection_id generation revision reason entries r =
     (if connection_id = '''' \<or> \<not> valid_invalidation_reason reason then (0, Some ErrPermitMismatch, r)
      else if \<not> decimal_ok generation \<or> \<not> decimal_ok revision then (0, Some tasks_ErrInvalidDecimal, r)
      else invalidate_entries io clock reason entries r)"

text \<open>\<open>attemptJob\<close>, \<open>attemptSegmentKind\<close>\<close>

definition attempt_job :: "string \<Rightarrow> db \<Rightarrow> string result" where
  "attempt_job a d = (case tbl_get at_id a (attempts_t d) of None \<Rightarrow> Inl SqlNoRows | Some r \<Rightarrow> Inr (at_job_id r))"

definition attempt_segment_kind :: "string \<Rightarrow> db \<Rightarrow> string result" where
  "attempt_segment_kind a d =
     (case tbl_get at_id a (attempts_t d) of
        None \<Rightarrow> Inl SqlNoRows
      | Some r \<Rightarrow>
          (case tbl_get sg_id (at_run_segment_id r) (segments_t d) of
             None \<Rightarrow> Inl SqlNoRows
           | Some s \<Rightarrow> Inr (sg_kind s)))"

end
