(* ===== verification/Import_Settle.thy ===== *)
theory Import_Settle
  imports Import
begin

text \<open>
  The settlement of an attempt: \<open>SettleACK\<close> and \<open>RecordIncident\<close> of \<open>repository.go\<close>, \<open>settleReplayACK\<close>
  of \<open>resolution.go\<close>, \<open>worker_settlement.go\<close> and \<open>too_large.go\<close>.  Each method looks the job of the
  attempt up, then runs one transaction with the job lock in hand, then adjusts the permit.
\<close>

section \<open>Shared steps\<close>

abbreviation import_stop_user_canceled :: string where "import_stop_user_canceled \<equiv> ''USER_CANCELED''"

definition null_text :: "string option \<Rightarrow> string" where
  "null_text v = (case v of None \<Rightarrow> '''' | Some s \<Rightarrow> s)"

text \<open>The attempt row, which must be in flight.\<close>

definition sending_attempt_tx :: "string \<Rightarrow> (db, attempt_row) tx" where
  "sending_attempt_tx a =
     tx_bind (tx_query_row attempts_t (\<lambda>r. at_id r = a)) (\<lambda>r.
     tx_bind (tx_require (at_state r = ''SENDING'') ErrImportState) (\<lambda>_. tx_return r))"

text \<open>The job, which must be running this attempt from its current checkpoint.\<close>

definition running_job_tx :: "string \<Rightarrow> attempt_row \<Rightarrow> (db, import_job) tx" where
  "running_job_tx i r =
     tx_bind (get_import_in_tx i) (\<lambda>job.
     tx_bind (tx_require (t_state (im_task job) = ImportRunning \<and> im_checkpoint_digest job = at_parent_digest r \<and>
       active_is (at_run_segment_id r) job) ErrCheckpointConflict) (\<lambda>_. tx_return job))"

definition segment_row_tx :: "string \<Rightarrow> string \<Rightarrow> (db, segment_row) tx" where
  "segment_row_tx i segment = tx_query_row segments_t (\<lambda>s. sg_job_id s = i \<and> sg_id s = segment)"

definition next_checkpoint :: "string \<Rightarrow> string \<Rightarrow> string \<Rightarrow> string \<Rightarrow> checkpoint \<Rightarrow> checkpoint result" where
  "next_checkpoint parent offset batch disposition cp =
     rbind (transfer_increment_decimal (cp_sequence cp)) (\<lambda>seq.
     Inr (cp\<lparr>cp_sequence := seq, cp_parent_digest := parent, cp_logical_offset := offset,
       cp_last_settled_batch_id := batch, cp_last_disposition := disposition\<rparr>))"

text \<open>The final \<open>UPDATE import_jobs\<close> of a settlement, with its compare and set.\<close>

definition settle_job_tx ::
  "string \<Rightarrow> string \<Rightarrow> string \<Rightarrow> (import_job_row \<Rightarrow> import_job_row) \<Rightarrow> (db, unit) tx" where
  "settle_job_tx i parent segment f =
     one_row (upd_job (\<lambda>j. ij_job_id j = i \<and> ij_state j = ImportRunning \<and> ij_checkpoint_digest j = parent \<and>
       ij_active_run_segment_id j = Some segment) f) ErrCheckpointConflict"

definition stopped_job :: "string \<Rightarrow> meta \<Rightarrow> time \<Rightarrow> import_job_row \<Rightarrow> import_job_row" where
  "stopped_job state m now j = (job_rev m now j)\<lparr>ij_state := state, ij_active_run_segment_id := None,
     ij_pause_requested := False\<rparr>"

definition stopped_out :: "meta \<Rightarrow> import_job \<Rightarrow> import_job" where
  "stopped_out m job = job\<lparr>im_task := m, im_active := None, im_pause_requested := False\<rparr>"

text \<open>
  Where a segment goes when its attempt settles into the child checkpoint, and the job with it.
\<close>

definition settled_segment :: "string \<Rightarrow> string \<Rightarrow> string option \<Rightarrow> time \<Rightarrow> segment_row \<Rightarrow> segment_row" where
  "settled_segment state child stop now s = s\<lparr>sg_state := state, sg_committed_digest := child,
     sg_active_attempt_id := None, sg_stop_reason := stop, sg_updated_at := now\<rparr>"

definition settle_segment_tx ::
  "string \<Rightarrow> string \<Rightarrow> string \<Rightarrow> string \<Rightarrow> (segment_row \<Rightarrow> segment_row) \<Rightarrow> (db, unit) tx" where
  "settle_segment_tx i segment parent a f =
     one_row (upd_segment (\<lambda>s. sg_job_id s = i \<and> sg_id s = segment \<and> live_segment_state (sg_state s) \<and>
       sg_committed_digest s = parent \<and> sg_active_attempt_id s = Some a) f) ErrCheckpointConflict"

definition closed_segment :: "string option \<Rightarrow> time \<Rightarrow> segment_row \<Rightarrow> segment_row" where
  "closed_segment stop now s = s\<lparr>sg_state := ''CLOSED'', sg_active_attempt_id := None,
     sg_stop_reason := stop, sg_updated_at := now\<rparr>"

text \<open>The closing \<open>UPDATE import_run_segments\<close> that does not look at the checkpoint.\<close>

definition close_segment_tx :: "string \<Rightarrow> string \<Rightarrow> string \<Rightarrow> string \<Rightarrow> time \<Rightarrow> (db, unit) tx" where
  "close_segment_tx i segment a stop now =
     one_row (upd_segment (\<lambda>s. sg_job_id s = i \<and> sg_id s = segment \<and> live_segment_state (sg_state s) \<and>
       sg_active_attempt_id s = Some a) (closed_segment (Some stop) now)) ErrCheckpointConflict"

text \<open>The outcome of a transaction that may go on: the job, whether the run goes on, parent, child and segment.\<close>

type_synonym settled = "import_job \<times> bool \<times> string \<times> string \<times> string"

text \<open>After the commit: revoke the permit, or move it to the child checkpoint, or pause the run.\<close>

definition after_settle ::
  "bool \<Rightarrow> time \<Rightarrow> time \<Rightarrow> string \<Rightarrow> settled result \<Rightarrow> repo \<Rightarrow> import_job result \<times> repo" where
  "after_settle io task_now now i res r =
     (case res of
        Inl e \<Rightarrow> (Inl e, r)
      | Inr (out, continue_run, parent, child, segment) \<Rightarrow>
          if \<not> continue_run then (Inr out, r\<lparr>rp_permits := permit_revoke i (rp_permits r)\<rparr>)
          else case permit_cas i segment parent child (rp_permits r) of
            (True, ps) \<Rightarrow> (Inr out, r\<lparr>rp_permits := ps\<rparr>)
          | (False, _) \<Rightarrow>
              (case pause_permit_desync io task_now now i segment child r of
                 (Inl e, r) \<Rightarrow> (Inl e, r)
               | (Inr _, r) \<Rightarrow> (get_import i (rp_db r), r)))"

section \<open>SettleACK\<close>

definition ack_tx ::
  "(checkpoint \<Rightarrow> string) \<Rightarrow> string \<Rightarrow> string \<Rightarrow> time \<Rightarrow> time \<Rightarrow> (db, settled) tx" where
  "ack_tx hash a i task_now now =
     tx_bind (sending_attempt_tx a) (\<lambda>r.
     tx_bind (running_job_tx i r) (\<lambda>job.
     tx_bind (segment_row_tx i (at_run_segment_id r)) (\<lambda>s.
     tx_bind (tx_require (live_segment_state (sg_state s)) ErrImportState) (\<lambda>_.
       let segment = at_run_segment_id r; parent = at_parent_digest r;
           continue_run = (sg_state s = ''ACTIVE'' \<and> \<not> im_pause_requested job);
           user_canceled = (sg_state s = ''STOPPING'' \<and> null_text (sg_stop_reason s) = import_stop_user_canceled);
           target = (if continue_run then ImportRunning else if user_canceled then ImportCanceled else ImportPausedSafe)
       in
     tx_bind (tx_lift (next_checkpoint parent (at_end_offset r) (at_batch_id r) ''ACKED'' (im_checkpoint job))) (\<lambda>next.
     tx_bind (tx_lift (checkpoint_digest hash next)) (\<lambda>child.
     tx_bind (insert_checkpoint i child next now) (\<lambda>_.
     tx_bind (insert_transition \<lparr>tr_job_id = i, tr_sequence = cp_sequence next, tr_owner_run_segment_id = segment,
         tr_cause = ''ACK'', tr_parent_digest = parent, tr_child_digest = child, tr_batch_id = at_batch_id r,
         tr_attempt_id = a, tr_incident_id = '''', tr_command_request_id = '''', tr_committed_at = now\<rparr>) (\<lambda>_.
     tx_bind (one_row (upd_attempt (\<lambda>x. at_id x = a \<and> at_job_id x = i \<and> at_run_segment_id x = segment \<and>
         at_state x = ''SENDING'' \<and> at_parent_digest x = parent)
         (\<lambda>x. x\<lparr>at_state := ''ACKED'', at_new_digest := Some child, at_updated_at := now\<rparr>)) ErrCheckpointConflict) (\<lambda>_.
     tx_bind (settle_segment_tx i segment parent a (settled_segment
         (if continue_run then ''ACTIVE'' else ''CLOSED'') child
         (if continue_run then None else Some (null_text (sg_stop_reason s))) now)) (\<lambda>_.
     tx_bind (apply_in_tx task_now (im_task job) (no_change\<lparr>ch_state := target, ch_state_changed := \<not> continue_run,
         ch_terminal := \<not> continue_run \<and> user_canceled,
         ch_change_type := (if continue_run then ''PROGRESS'' else if user_canceled then ''CANCELED'' else ''PAUSED'')\<rparr>)) (\<lambda>updated.
     tx_bind (settle_job_tx i parent segment (\<lambda>j. (job_rev updated now j)\<lparr>ij_state := target,
         ij_checkpoint_digest := child, ij_active_run_segment_id := (if continue_run then Some segment else None),
         ij_pause_requested := False\<rparr>)) (\<lambda>_.
     tx_bind (if continue_run then tx_return 0 else set_transfer_state i target now) (\<lambda>_.
     tx_return (job\<lparr>im_task := updated, im_checkpoint := next, im_checkpoint_digest := child,
         im_pause_requested := False, im_active := (if continue_run then Some segment else None)\<rparr>,
       continue_run, parent, child, segment))))))))))))))"

definition incident_matches :: "attempt_row \<Rightarrow> import_job \<Rightarrow> bool" where
  "incident_matches r job =
     (case im_open_incident job of
        None \<Rightarrow> False
      | Some n \<Rightarrow> in_parent_digest n = at_parent_digest r \<and> in_start_offset n = at_start_offset r \<and>
          in_end_offset n = at_end_offset r \<and> in_payload_digest n = at_payload_digest r)"

text \<open>
  \<open>settleReplayACK\<close>.  Scanning \<open>resolution_command_request_id\<close> into a Go \<open>string\<close> fails on \<open>NULL\<close>.
\<close>

definition replay_segment_tx :: "string \<Rightarrow> string \<Rightarrow> (db, segment_row) tx" where
  "replay_segment_tx i segment =
     tx_bind (tx_query_row segments_t (\<lambda>s. sg_job_id s = i \<and> sg_id s = segment \<and> sg_kind s = ''REPLAY_EXACT'')) (\<lambda>s.
     tx_bind (tx_require (sg_resolution_command_id s \<noteq> None) SqlFailure) (\<lambda>_. tx_return s))"

definition replay_ack_tx ::
  "(checkpoint \<Rightarrow> string) \<Rightarrow> string \<Rightarrow> string \<Rightarrow> time \<Rightarrow> time \<Rightarrow> (db, settled) tx" where
  "replay_ack_tx hash a i task_now now =
     tx_bind (sending_attempt_tx a) (\<lambda>r.
     tx_bind (replay_segment_tx i (at_run_segment_id r)) (\<lambda>s.
     tx_bind (running_job_tx i r) (\<lambda>job.
     tx_bind (tx_require (incident_matches r job) ErrCheckpointConflict) (\<lambda>_.
       let segment = at_run_segment_id r; parent = at_parent_digest r;
           incident = the (im_open_incident job);
           continue_run = (sg_after_resolution s = Some ''CONTINUE'' \<and> sg_state s = ''ACTIVE'' \<and> \<not> im_pause_requested job);
           user_canceled = (sg_state s = ''STOPPING'' \<and> null_text (sg_stop_reason s) = import_stop_user_canceled);
           target = (if continue_run then ImportRunning else if user_canceled then ImportCanceled else ImportPausedSafe)
       in
     tx_bind (tx_lift (next_checkpoint parent (in_end_offset incident) (in_batch_id incident) ''REPLAY_ACKED''
         (im_checkpoint job))) (\<lambda>next.
     tx_bind (tx_lift (checkpoint_digest hash next)) (\<lambda>child.
     tx_bind (insert_checkpoint i child next now) (\<lambda>_.
     tx_bind (insert_transition \<lparr>tr_job_id = i, tr_sequence = cp_sequence next, tr_owner_run_segment_id = segment,
         tr_cause = ''REPLAY_ACK'', tr_parent_digest = parent, tr_child_digest = child, tr_batch_id = at_batch_id r,
         tr_attempt_id = a, tr_incident_id = in_id incident, tr_command_request_id = '''', tr_committed_at = now\<rparr>) (\<lambda>_.
     tx_bind (one_row (upd_attempt (\<lambda>x. at_id x = a \<and> at_state x = ''SENDING'' \<and> at_run_segment_id x = segment \<and>
         at_parent_digest x = parent)
         (\<lambda>x. x\<lparr>at_state := ''ACKED'', at_new_digest := Some child, at_updated_at := now\<rparr>)) ErrCheckpointConflict) (\<lambda>_.
     tx_bind (one_row (upd_incident (\<lambda>n. in_id n = in_id incident \<and> is_open_of i n)
         (\<lambda>n. n\<lparr>in_status := ''RESOLVED'', in_resolution := Some ''REPLAY_EXACT'', in_resolved_at := Some now,
           in_resolution_command_id := sg_resolution_command_id s\<rparr>)) ErrOpenIncident) (\<lambda>_.
     tx_bind (settle_segment_tx i segment parent a (settled_segment
         (if continue_run then ''ACTIVE'' else ''CLOSED'') child
         (if continue_run then None else Some (if user_canceled then import_stop_user_canceled else ''AFTER_RESOLUTION_PAUSE''))
         now)) (\<lambda>_.
     tx_bind (apply_in_tx task_now (im_task job)
         (state_change target (\<not> continue_run \<and> user_canceled) ''STATE'')) (\<lambda>updated.
     tx_bind (settle_job_tx i parent segment (\<lambda>j. (job_rev updated now j)\<lparr>ij_state := target,
         ij_checkpoint_digest := child, ij_active_run_segment_id := (if continue_run then Some segment else None),
         ij_pause_requested := False\<rparr>)) (\<lambda>_.
     tx_bind (set_transfer_state i target now) (\<lambda>_.
     tx_return (job\<lparr>im_task := updated, im_checkpoint := next, im_checkpoint_digest := child,
         im_open_incident := None, im_pause_requested := False,
         im_active := (if continue_run then Some segment else None)\<rparr>,
       continue_run, parent, child, segment)))))))))))))))"

text \<open>
  \<open>io 0\<close>, \<open>clock 0\<close>, \<open>clock 1\<close> belong to the transaction; \<open>io 1\<close>, \<open>clock 2\<close>, \<open>clock 3\<close> to
  \<open>pausePermitDesync\<close>.
\<close>

definition run_settled ::
  "(nat \<Rightarrow> bool) \<Rightarrow> (nat \<Rightarrow> time) \<Rightarrow> string \<Rightarrow> (time \<Rightarrow> time \<Rightarrow> (db, settled) tx) \<Rightarrow> repo \<Rightarrow> import_job result \<times> repo" where
  "run_settled io clock i tx r =
     (case with_immediate (io 0) (tx (clock 0) (clock 1)) (rp_db r) of
        (res, d) \<Rightarrow> after_settle (io 1) (clock 2) (clock 3) i res (r\<lparr>rp_db := d\<rparr>))"

definition with_attempt_job ::
  "string \<Rightarrow> (string \<Rightarrow> repo \<Rightarrow> import_job result \<times> repo) \<Rightarrow> repo \<Rightarrow> import_job result \<times> repo" where
  "with_attempt_job a f r = (case attempt_job a (rp_db r) of Inl e \<Rightarrow> (Inl e, r) | Inr i \<Rightarrow> f i r)"

definition settle_replay_ack ::
  "(checkpoint \<Rightarrow> string) \<Rightarrow> (nat \<Rightarrow> bool) \<Rightarrow> (nat \<Rightarrow> time) \<Rightarrow> string \<Rightarrow> repo \<Rightarrow> import_job result \<times> repo" where
  "settle_replay_ack hash io clock a =
     with_attempt_job a (\<lambda>i. run_settled io clock i (replay_ack_tx hash a i))"

definition settle_ack ::
  "(checkpoint \<Rightarrow> string) \<Rightarrow> (nat \<Rightarrow> bool) \<Rightarrow> (nat \<Rightarrow> time) \<Rightarrow> string \<Rightarrow> repo \<Rightarrow> import_job result \<times> repo" where
  "settle_ack hash io clock a r =
     (case attempt_segment_kind a (rp_db r) of
        Inl e \<Rightarrow> (Inl e, r)
      | Inr kind \<Rightarrow>
          if kind = ''REPLAY_EXACT'' then settle_replay_ack hash io clock a r
          else with_attempt_job a (\<lambda>i. run_settled io clock i (ack_tx hash a i)) r)"

section \<open>RecordIncident\<close>

definition record_incident_tx ::
  "string \<Rightarrow> string \<Rightarrow> string \<Rightarrow> string \<Rightarrow> time \<Rightarrow> time \<Rightarrow> (db, import_job) tx" where
  "record_incident_tx a incident_id kind i task_now now =
     tx_bind (sending_attempt_tx a) (\<lambda>r.
     tx_bind (running_job_tx i r) (\<lambda>job.
       let segment = at_run_segment_id r; parent = at_parent_digest r;
           target = (if kind = ''PARTIAL'' then ImportNeedsPartialDecision else ImportNeedsUnknownDecision);
           incident = \<lparr>in_id = incident_id, in_job_id = i, in_kind = kind, in_status = ''OPEN'',
             in_parent_digest = parent, in_run_segment_id = segment, in_batch_id = at_batch_id r, in_attempt_id = a,
             in_start_offset = at_start_offset r, in_end_offset = at_end_offset r,
             in_payload_digest = at_payload_digest r, in_resolution = None, in_resolved_at = None,
             in_resolution_command_id = None, in_created_at = now\<rparr>
       in
     tx_bind (one_row (upd_attempt (\<lambda>x. at_id x = a \<and> at_job_id x = i \<and> at_run_segment_id x = segment \<and>
         at_state x = ''SENDING'' \<and> at_parent_digest x = parent)
         (\<lambda>x. x\<lparr>at_state := kind, at_updated_at := now\<rparr>)) ErrCheckpointConflict) (\<lambda>_.
     tx_bind (close_segment_tx i segment a kind now) (\<lambda>_.
     tx_bind (insert_incident incident) (\<lambda>_.
     tx_bind (apply_in_tx task_now (im_task job) (state_change target False ''STATE'')) (\<lambda>updated.
     tx_bind (settle_job_tx i parent segment (stopped_job target updated now)) (\<lambda>_.
     tx_bind (set_transfer_state i target now) (\<lambda>_.
     tx_return ((stopped_out updated job)\<lparr>im_open_incident := Some incident\<rparr>)))))))))"

text \<open>The permit is revoked when the transaction commits.\<close>

definition run_revoking ::
  "bool \<Rightarrow> time \<Rightarrow> time \<Rightarrow> string \<Rightarrow> (time \<Rightarrow> time \<Rightarrow> (db, import_job) tx) \<Rightarrow> repo \<Rightarrow> import_job result \<times> repo" where
  "run_revoking io task_now now i tx r =
     (case with_immediate io (tx task_now now) (rp_db r) of
        (Inl e, d) \<Rightarrow> (Inl e, r\<lparr>rp_db := d\<rparr>)
      | (Inr out, d) \<Rightarrow> (Inr out, \<lparr>rp_db = d, rp_permits = permit_revoke i (rp_permits r)\<rparr>))"

definition record_incident ::
  "bool \<Rightarrow> time \<Rightarrow> time \<Rightarrow> string \<Rightarrow> string \<Rightarrow> string \<Rightarrow> repo \<Rightarrow> import_job result \<times> repo" where
  "record_incident io task_now now a incident_id kind r =
     (if kind \<noteq> ''PARTIAL'' \<and> kind \<noteq> ''UNKNOWN'' then (Inl (PlainError ''invalid incident kind''), r)
      else with_attempt_job a (\<lambda>i. run_revoking io task_now now i (record_incident_tx a incident_id kind i)) r)"

section \<open>worker_settlement.go\<close>

text \<open>\<open>SELECT ... FROM import_attempts a JOIN import_run_segments s\<close>\<close>

definition attempt_with_segment_tx :: "string \<Rightarrow> (db, attempt_row \<times> segment_row) tx" where
  "attempt_with_segment_tx a =
     tx_bind (tx_query_row attempts_t (\<lambda>r. at_id r = a)) (\<lambda>r.
     tx_bind (tx_query_row segments_t (\<lambda>s. sg_id s = at_run_segment_id r)) (\<lambda>s. tx_return (r, s)))"

definition stopping_target :: "segment_row \<Rightarrow> string" where
  "stopping_target s =
     (if null_text (sg_stop_reason s) = import_stop_user_canceled then ImportCanceled else ImportPausedSafe)"

definition not_sent_tx :: "string \<Rightarrow> string \<Rightarrow> time \<Rightarrow> time \<Rightarrow> (db, import_job) tx" where
  "not_sent_tx a i task_now now =
     tx_bind (attempt_with_segment_tx a) (\<lambda>(r, s).
     tx_bind (tx_require (at_state r = ''SENDING'') ErrImportState) (\<lambda>_.
     tx_bind (running_job_tx i r) (\<lambda>job.
       let segment = at_run_segment_id r; parent = at_parent_digest r; stopping = (sg_state s = ''STOPPING'');
           target = stopping_target s
       in
     tx_bind (one_row (upd_attempt (\<lambda>x. at_id x = a \<and> at_state x = ''SENDING'' \<and> at_parent_digest x = parent)
         (\<lambda>x. x\<lparr>at_state := ''FAILED_NOT_SENT'', at_updated_at := now\<rparr>)) ErrCheckpointConflict) (\<lambda>_.
     tx_bind (settle_segment_tx i segment parent a (\<lambda>x. x\<lparr>sg_state := (if stopping then ''CLOSED'' else sg_state s),
         sg_active_attempt_id := None,
         sg_stop_reason := (if stopping then Some (null_text (sg_stop_reason s)) else None),
         sg_updated_at := now\<rparr>)) (\<lambda>_.
       if \<not> stopping then tx_return job
       else
         tx_bind (apply_in_tx task_now (im_task job) (state_change target (target = ImportCanceled)
           (if target = ImportCanceled then ''CANCELED'' else ''PAUSED''))) (\<lambda>updated.
         tx_bind (settle_job_tx i parent segment (stopped_job target updated now)) (\<lambda>_.
         tx_bind (set_transfer_state i target now) (\<lambda>_. tx_return (stopped_out updated job)))))))))"

text \<open>An attempt that was never stored is no error, and gives the zero job (\<open>None\<close>).\<close>

definition mark_attempt_not_sent ::
  "bool \<Rightarrow> time \<Rightarrow> time \<Rightarrow> string \<Rightarrow> repo \<Rightarrow> import_job option result \<times> repo" where
  "mark_attempt_not_sent io task_now now a r =
     (case attempt_job a (rp_db r) of
        Inl e \<Rightarrow> (if e = SqlNoRows then Inr None else Inl e, r)
      | Inr i \<Rightarrow>
          (case with_immediate io (not_sent_tx a i task_now now) (rp_db r) of
             (Inl e, d) \<Rightarrow> (Inl e, r\<lparr>rp_db := d\<rparr>)
           | (Inr out, d) \<Rightarrow>
               (Inr (Some out), \<lparr>rp_db = d, rp_permits = (if t_state (im_task out) \<noteq> ImportRunning
                  then permit_revoke i (rp_permits r) else rp_permits r)\<rparr>)))"

definition rejected_tx :: "string \<Rightarrow> string \<Rightarrow> time \<Rightarrow> time \<Rightarrow> (db, import_job) tx" where
  "rejected_tx a i task_now now =
     tx_bind (attempt_with_segment_tx a) (\<lambda>(r, s).
     tx_bind (tx_require (at_state r = ''SENDING'' \<and> live_segment_state (sg_state s)) ErrImportState) (\<lambda>_.
     tx_bind (running_job_tx i r) (\<lambda>job.
       let segment = at_run_segment_id r; parent = at_parent_digest r;
           pausing = (sg_state s = ''STOPPING'' \<or> im_pause_requested job);
           canceled = (pausing \<and> null_text (sg_stop_reason s) = import_stop_user_canceled);
           target = (if canceled then ImportCanceled else if pausing then ImportPausedSafe else ImportFailed);
           stop = (if canceled then import_stop_user_canceled
             else if pausing then ''PAUSED_AFTER_WRITE_REJECTION'' else ''WRITE_REJECTED'')
       in
     tx_bind (one_row (upd_attempt (\<lambda>x. at_id x = a \<and> at_state x = ''SENDING'' \<and> at_parent_digest x = parent)
         (\<lambda>x. x\<lparr>at_state := ''REJECTED'', at_updated_at := now\<rparr>)) ErrCheckpointConflict) (\<lambda>_.
     tx_bind (close_segment_tx i segment a stop now) (\<lambda>_.
     tx_bind (apply_in_tx task_now (im_task job) ((state_change target (target \<noteq> ImportPausedSafe) ''STATE'')
         \<lparr>ch_public_error_code := (if pausing then None else Some ''IMPORT_WRITE_REJECTED'')\<rparr>)) (\<lambda>updated.
     tx_bind (settle_job_tx i parent segment (stopped_job target updated now)) (\<lambda>_.
     tx_bind (set_transfer_state i target now) (\<lambda>_. tx_return (stopped_out updated job)))))))))"

definition settle_rejected ::
  "bool \<Rightarrow> time \<Rightarrow> time \<Rightarrow> string \<Rightarrow> repo \<Rightarrow> import_job result \<times> repo" where
  "settle_rejected io task_now now a =
     with_attempt_job a (\<lambda>i. run_revoking io task_now now i (rejected_tx a i))"

record finish_import_request =
  fi_job_id :: string
  fi_run_segment_id :: string
  fi_checkpoint_digest :: string
  fi_staging_logical_size :: string

definition finish_import_tx ::
  "finish_import_request \<Rightarrow> string \<Rightarrow> permits \<Rightarrow> time \<Rightarrow> time \<Rightarrow> (db, import_job \<times> bool) tx" where
  "finish_import_tx req logical_size ps task_now now =
     (let i = fi_job_id req; segment = fi_run_segment_id req; digest = fi_checkpoint_digest req in
      tx_bind (get_import_in_tx i) (\<lambda>job.
        if t_state (im_task job) = ImportSucceeded then tx_return (job, True)
        else
      tx_bind (tx_require (t_state (im_task job) = ImportRunning \<and> im_checkpoint_digest job = digest \<and>
          cp_logical_offset (im_checkpoint job) = logical_size \<and> active_is segment job \<and>
          im_open_incident job = None) ErrImportStagingBoundary) (\<lambda>_.
      tx_bind (tx_require (case ps i of None \<Rightarrow> False
          | Some p \<Rightarrow> pm_run_segment_id p = segment \<and> pm_checkpoint_digest p = digest) ErrPermitMismatch) (\<lambda>_.
      tx_bind (segment_row_tx i segment) (\<lambda>s.
      tx_bind (tx_require (sg_state s = ''ACTIVE'' \<and> sg_committed_digest s = digest \<and> sg_active_attempt_id s = None)
        ErrImportStagingBoundary) (\<lambda>_.
      tx_bind (count_sending i) (\<lambda>sending.
      tx_bind (tx_get (\<lambda>d. tbl_count (is_open_of i) (incidents_t d))) (\<lambda>open_incidents.
      tx_bind (tx_require (sending = 0 \<and> open_incidents = 0) ErrImportStagingBoundary) (\<lambda>_.
      tx_bind (one_row (upd_segment (\<lambda>x. sg_job_id x = i \<and> sg_id x = segment \<and> sg_state x = ''ACTIVE'' \<and>
          sg_committed_digest x = digest \<and> sg_active_attempt_id x = None)
        (closed_segment (Some ''STAGING_EOF'') now)) ErrImportStagingBoundary) (\<lambda>_.
      tx_bind (apply_in_tx task_now (im_task job) (state_change ImportSucceeded True ''STATE'')) (\<lambda>updated.
      tx_bind (one_row (upd_job (\<lambda>j. ij_job_id j = i \<and> ij_state j = ImportRunning \<and> ij_checkpoint_digest j = digest \<and>
          ij_active_run_segment_id j = Some segment) (stopped_job ImportSucceeded updated now)) ErrImportStagingBoundary) (\<lambda>_.
      tx_bind (set_transfer_state i ImportSucceeded now) (\<lambda>_.
      tx_return (stopped_out updated job, False))))))))))))))"

definition finish_import ::
  "bool \<Rightarrow> time \<Rightarrow> time \<Rightarrow> finish_import_request \<Rightarrow> repo \<Rightarrow> (import_job \<times> bool) result \<times> repo" where
  "finish_import io task_now now req r =
     (case transfer_canonical_decimal (fi_staging_logical_size req) of
        Inl e \<Rightarrow> (Inl e, r)
      | Inr logical_size \<Rightarrow>
          if logical_size = ''0'' \<or> fi_job_id req = '''' \<or> fi_run_segment_id req = '''' \<or> fi_checkpoint_digest req = ''''
          then (Inl ErrImportStagingBoundary, r)
          else case with_immediate io (finish_import_tx req logical_size (rp_permits r) task_now now) (rp_db r) of
            (Inl e, d) \<Rightarrow> (Inl e, r\<lparr>rp_db := d\<rparr>)
          | (Inr (out, replayed), d) \<Rightarrow>
              (Inr (out, replayed), \<lparr>rp_db = d, rp_permits = (if replayed then rp_permits r
                 else permit_revoke (fi_job_id req) (rp_permits r))\<rparr>))"

section \<open>too_large.go\<close>

definition halve_positive_decimal :: "string \<Rightarrow> string result" where
  "halve_positive_decimal value =
     rbind (transfer_canonical_decimal value) (\<lambda>canonical.
     rbind (require (0 < dec_val canonical) tasks_ErrInvalidDecimal) (\<lambda>_.
     Inr (dec (max 1 (dec_val canonical div 2)))))"

definition reject_too_large_tx :: "string \<Rightarrow> string \<Rightarrow> time \<Rightarrow> (attempt_row \<Rightarrow> bool) \<Rightarrow> string option \<Rightarrow> (db, unit) tx" where
  "reject_too_large_tx a parent now extra child =
     one_row (upd_attempt (\<lambda>x. at_id x = a \<and> at_state x = ''SENDING'' \<and> at_parent_digest x = parent \<and> extra x)
       (\<lambda>x. x\<lparr>at_state := ''REJECTED_TOO_LARGE'',
          at_new_digest := (case child of None \<Rightarrow> at_new_digest x | Some c \<Rightarrow> Some c), at_updated_at := now\<rparr>))
       ErrCheckpointConflict"

text \<open>\<open>failSinglePointTooLarge\<close>; unlike the other endings it leaves \<open>transfer_jobs.state\<close> alone.\<close>

definition fail_single_point_tx ::
  "import_job \<Rightarrow> string \<Rightarrow> string \<Rightarrow> string \<Rightarrow> time \<Rightarrow> time \<Rightarrow> (db, import_job) tx" where
  "fail_single_point_tx job a segment parent task_now now =
     tx_bind (reject_too_large_tx a parent now (\<lambda>_. True) None) (\<lambda>_.
     tx_bind (one_row (upd_segment (\<lambda>s. sg_id s = segment \<and> sg_active_attempt_id s = Some a)
       (closed_segment (Some ''SINGLE_POINT_TOO_LARGE'') now)) ErrCheckpointConflict) (\<lambda>_.
     tx_bind (apply_in_tx task_now (im_task job) ((state_change ImportFailed True ''STATE'')
       \<lparr>ch_public_error_code := Some ''IMPORT_POINT_TOO_LARGE''\<rparr>)) (\<lambda>updated.
     tx_bind (settle_job_tx (t_id (im_task job)) parent segment (stopped_job ImportFailed updated now)) (\<lambda>_.
     tx_return (stopped_out updated job)))))"

text \<open>A cancellation that was waiting for this attempt.\<close>

definition cancel_too_large_tx ::
  "import_job \<Rightarrow> string \<Rightarrow> string \<Rightarrow> string \<Rightarrow> string \<Rightarrow> time \<Rightarrow> time \<Rightarrow> (db, import_job) tx" where
  "cancel_too_large_tx job i a segment parent task_now now =
     tx_bind (reject_too_large_tx a parent now (\<lambda>x. at_run_segment_id x = segment) None) (\<lambda>_.
     tx_bind (one_row (upd_segment (\<lambda>s. sg_job_id s = i \<and> sg_id s = segment \<and> sg_state s = ''STOPPING'' \<and>
       sg_active_attempt_id s = Some a) (closed_segment (Some import_stop_user_canceled) now)) ErrCheckpointConflict) (\<lambda>_.
     tx_bind (apply_in_tx task_now (im_task job) (state_change ImportCanceled True ''CANCELED'')) (\<lambda>updated.
     tx_bind (settle_job_tx i parent segment (stopped_job ImportCanceled updated now)) (\<lambda>_.
     tx_bind (set_transfer_state i ImportCanceled now) (\<lambda>_. tx_return (stopped_out updated job))))))"

definition reduced_checkpoint :: "string \<Rightarrow> string \<Rightarrow> checkpoint \<Rightarrow> checkpoint result" where
  "reduced_checkpoint parent batch cp =
     rbind (next_checkpoint parent (cp_logical_offset cp) batch ''REJECTED_TOO_LARGE'' cp) (\<lambda>next.
     rbind (halve_positive_decimal (cp_adaptive_max_points next)) (\<lambda>points.
     rbind (halve_positive_decimal (cp_adaptive_max_bytes next)) (\<lambda>bytes.
     Inr (next\<lparr>cp_adaptive_max_points := points, cp_adaptive_max_bytes := bytes\<rparr>))))"

definition too_large_tx ::
  "(checkpoint \<Rightarrow> string) \<Rightarrow> string \<Rightarrow> string \<Rightarrow> time \<Rightarrow> time \<Rightarrow> (db, settled) tx" where
  "too_large_tx hash a i task_now now =
     tx_bind (sending_attempt_tx a) (\<lambda>r.
     tx_bind (segment_row_tx i (at_run_segment_id r)) (\<lambda>s.
     tx_bind (tx_require (sg_kind s = ''NORMAL'') ErrImportState) (\<lambda>_.
     tx_bind (running_job_tx i r) (\<lambda>job.
       let segment = at_run_segment_id r; parent = at_parent_digest r in
       if sg_state s = ''STOPPING'' \<and> null_text (sg_stop_reason s) = import_stop_user_canceled then
         tx_bind (cancel_too_large_tx job i a segment parent task_now now) (\<lambda>out.
         tx_return (out, False, parent, '''', segment))
       else if cp_adaptive_max_points (im_checkpoint job) = ''1'' then
         tx_bind (fail_single_point_tx job a segment parent task_now now) (\<lambda>out.
         tx_return (out, False, parent, '''', segment))
       else
         (let continue_run = (sg_state s = ''ACTIVE'' \<and> \<not> im_pause_requested job);
              target = (if continue_run then ImportRunning else ImportPausedSafe) in
     tx_bind (tx_lift (reduced_checkpoint parent (at_batch_id r) (im_checkpoint job))) (\<lambda>next.
     tx_bind (tx_lift (checkpoint_digest hash next)) (\<lambda>child.
     tx_bind (insert_checkpoint i child next now) (\<lambda>_.
     tx_bind (insert_transition \<lparr>tr_job_id = i, tr_sequence = cp_sequence next, tr_owner_run_segment_id = segment,
         tr_cause = ''BATCH_LIMIT_REDUCED'', tr_parent_digest = parent, tr_child_digest = child,
         tr_batch_id = at_batch_id r, tr_attempt_id = a, tr_incident_id = '''', tr_command_request_id = '''',
         tr_committed_at = now\<rparr>) (\<lambda>_.
     tx_bind (reject_too_large_tx a parent now (\<lambda>x. at_run_segment_id x = segment) (Some child)) (\<lambda>_.
     tx_bind (settle_segment_tx i segment parent a (settled_segment
         (if continue_run then ''ACTIVE'' else ''CLOSED'') child
         (if continue_run then None else Some ''PAUSED_AFTER_BATCH_LIMIT_REDUCTION'') now)) (\<lambda>_.
     tx_bind (apply_in_tx task_now (im_task job) (no_change\<lparr>ch_state := target, ch_state_changed := \<not> continue_run,
         ch_change_type := ''PROGRESS''\<rparr>)) (\<lambda>updated.
     tx_bind (settle_job_tx i parent segment (\<lambda>j. (job_rev updated now j)\<lparr>ij_state := target,
         ij_checkpoint_digest := child, ij_active_run_segment_id := (if continue_run then Some segment else None),
         ij_pause_requested := False\<rparr>)) (\<lambda>_.
     tx_return (job\<lparr>im_task := updated, im_checkpoint := next, im_checkpoint_digest := child,
         im_pause_requested := False, im_active := (if continue_run then Some segment else None)\<rparr>,
       continue_run, parent, child, segment))))))))))))))"

text \<open>An exact replay that is too large goes back to the decision it came from.\<close>

definition replay_too_large_tx :: "string \<Rightarrow> string \<Rightarrow> time \<Rightarrow> time \<Rightarrow> (db, import_job) tx" where
  "replay_too_large_tx a i task_now now =
     tx_bind (sending_attempt_tx a) (\<lambda>r.
     tx_bind (running_job_tx i r) (\<lambda>job.
     tx_bind (tx_require (incident_matches r job) ErrCheckpointConflict) (\<lambda>_.
       let segment = at_run_segment_id r; parent = at_parent_digest r;
           target = (if in_kind (the (im_open_incident job)) = ''PARTIAL'' then ImportNeedsPartialDecision
             else ImportNeedsUnknownDecision)
       in
     tx_bind (reject_too_large_tx a parent now (\<lambda>_. True) None) (\<lambda>_.
     tx_bind (one_row (upd_segment (\<lambda>s. sg_id s = segment \<and> sg_kind s = ''REPLAY_EXACT'' \<and> sg_active_attempt_id s = Some a)
       (closed_segment (Some ''REPLAY_REJECTED_TOO_LARGE'') now)) ErrCheckpointConflict) (\<lambda>_.
     tx_bind (apply_in_tx task_now (im_task job) (state_change target False ''STATE'')) (\<lambda>updated.
     tx_bind (settle_job_tx i parent segment (stopped_job target updated now)) (\<lambda>_.
     tx_return (stopped_out updated job))))))))"

definition settle_normal_too_large ::
  "(checkpoint \<Rightarrow> string) \<Rightarrow> (nat \<Rightarrow> bool) \<Rightarrow> (nat \<Rightarrow> time) \<Rightarrow> string \<Rightarrow> repo \<Rightarrow> import_job result \<times> repo" where
  "settle_normal_too_large hash io clock a =
     with_attempt_job a (\<lambda>i. run_settled io clock i (too_large_tx hash a i))"

definition settle_replay_too_large ::
  "bool \<Rightarrow> time \<Rightarrow> time \<Rightarrow> string \<Rightarrow> repo \<Rightarrow> import_job result \<times> repo" where
  "settle_replay_too_large io task_now now a =
     with_attempt_job a (\<lambda>i. run_revoking io task_now now i (replay_too_large_tx a i))"

definition settle_too_large ::
  "(checkpoint \<Rightarrow> string) \<Rightarrow> (nat \<Rightarrow> bool) \<Rightarrow> (nat \<Rightarrow> time) \<Rightarrow> string \<Rightarrow> repo \<Rightarrow> import_job result \<times> repo" where
  "settle_too_large hash io clock a r =
     (case attempt_segment_kind a (rp_db r) of
        Inl e \<Rightarrow> (Inl e, r)
      | Inr kind \<Rightarrow>
          if kind = ''REPLAY_EXACT'' then settle_replay_too_large (io 0) (clock 0) (clock 1) a r
          else settle_normal_too_large hash io clock a r)"

end
