(* ===== verification/Import_Control.thy ===== *)
theory Import_Control
  imports Import_Settle
begin

text \<open>
  The commands on an import job and its recovery: \<open>Abort\<close> and \<open>CanCleanup\<close> of \<open>repository.go\<close>,
  \<open>resolution.go\<close>, \<open>import_control.go\<close> and \<open>recovery.go\<close>.

  \<open>import_preflight_details\<close> is not among the tables of the model; the cleanup's update of its
  \<open>staging_file_name\<close> is left out.  The removal of the staging files is an outcome, \<open>removed\<close>.
\<close>

section \<open>Abort\<close>

record abort_request =
  ab_job_id :: string
  ab_incident_id :: string
  ab_parent_digest :: string
  ab_expected_state_revision :: string
  ab_command_request_id :: string

definition unit_sep :: string where "unit_sep = [CHR 0x1F]"

definition newline :: string where "newline = [CHR 0x0A]"

fun join :: "string \<Rightarrow> string list \<Rightarrow> string" where
  "join sep [] = ''''"
| "join sep [x] = x"
| "join sep (x # y # xs) = x @ sep @ join sep (y # xs)"

definition abort_command_scope :: "abort_request \<Rightarrow> string" where
  "abort_command_scope req = join unit_sep [''IMPORT'', ab_job_id req, ''ABORT'', ab_command_request_id req]"

definition abort_command_digest :: "(string \<Rightarrow> string) \<Rightarrow> abort_request \<Rightarrow> string" where
  "abort_command_digest sha256_hex req = sha256_hex (join newline [''AbortImportV1'', ab_job_id req,
     ab_incident_id req, ab_parent_digest req, ab_expected_state_revision req])"

definition decision_state :: "string \<Rightarrow> bool" where
  "decision_state st = (st = ImportNeedsPartialDecision \<or> st = ImportNeedsUnknownDecision)"

definition import_command_entry :: "string \<Rightarrow> string \<Rightarrow> string \<Rightarrow> string \<Rightarrow> string \<Rightarrow> time \<Rightarrow> command_entry" where
  "import_command_entry scope digest i state revision now =
     \<lparr>ce_scope = scope, ce_request_digest = digest, ce_resource_kind = ''IMPORT'', ce_resource_id = i,
      ce_result_state = state, ce_result_state_revision = revision, ce_public_error_code = None,
      ce_committed_at = now, ce_expires_at = now + 90 * 24 * hour\<rparr>"

definition abort_new_tx :: "abort_request \<Rightarrow> string \<Rightarrow> string \<Rightarrow> time \<Rightarrow> time \<Rightarrow> (db, import_job) tx" where
  "abort_new_tx req scope digest task_now now =
     (let i = ab_job_id req; parent = ab_parent_digest req in
      tx_bind (get_import_in_tx i) (\<lambda>job.
      tx_bind (tx_require (t_state_revision (im_task job) = ab_expected_state_revision req) tasks_ErrRevisionConflict) (\<lambda>_.
      tx_bind (tx_require (decision_state (t_state (im_task job))) ErrImportState) (\<lambda>_.
      tx_bind (tx_require (im_checkpoint_digest job = parent \<and> (case im_open_incident job of None \<Rightarrow> False
          | Some n \<Rightarrow> in_id n = ab_incident_id req \<and> in_parent_digest n = parent)) ErrCheckpointConflict) (\<lambda>_.
      tx_bind (count_sending i) (\<lambda>sending.
      tx_bind (tx_require (sending = 0) ErrImportState) (\<lambda>_.
      tx_bind (one_row (upd_incident (\<lambda>n. in_id n = ab_incident_id req \<and> is_open_of i n \<and> in_parent_digest n = parent)
        (\<lambda>n. n\<lparr>in_status := ''ABORTED'', in_resolution := Some ''ABORT'', in_resolved_at := Some now,
          in_resolution_command_id := Some (ab_command_request_id req)\<rparr>)) ErrOpenIncident) (\<lambda>_.
      tx_bind (upd_segment (\<lambda>s. sg_job_id s = i \<and> sg_id s = in_run_segment_id (the (im_open_incident job)))
        (closed_segment (Some ''USER_ABORTED'') now)) (\<lambda>_.
      tx_bind (apply_in_tx task_now (im_task job) (state_change ImportAborted True ''STATE'')) (\<lambda>updated.
      tx_bind (upd_job (\<lambda>j. ij_job_id j = i) (stopped_job ImportAborted updated now)) (\<lambda>_.
      tx_bind (set_transfer_state i ImportAborted now) (\<lambda>_.
      tx_bind (insert_audit ''ABORT'' i parent ''SUCCEEDED'' (ab_command_request_id req) now) (\<lambda>_.
      tx_bind (insert_command_in_tx (import_command_entry scope digest i ImportAborted (t_state_revision updated) now)) (\<lambda>_.
      tx_return ((stopped_out updated job)\<lparr>im_open_incident := None\<rparr>)))))))))))))))"

text \<open>A transaction under a command scope: the job as it is when the ledger knows the command.\<close>

definition replay_or_tx :: "string \<Rightarrow> string \<Rightarrow> string \<Rightarrow> (db, import_job) tx \<Rightarrow> (db, import_job \<times> bool) tx" where
  "replay_or_tx scope digest i new_tx =
     tx_bind (lookup_command_in_tx scope digest) (\<lambda>found.
       case found of
         Some _ \<Rightarrow> tx_bind (get_import_in_tx i) (\<lambda>out. tx_return (out, True))
       | None \<Rightarrow> tx_bind new_tx (\<lambda>out. tx_return (out, False)))"

text \<open>The permit is revoked first, also when the transaction then fails.\<close>

definition abort ::
  "(string \<Rightarrow> bool) \<Rightarrow> (string \<Rightarrow> string) \<Rightarrow> bool \<Rightarrow> time \<Rightarrow> time \<Rightarrow> abort_request \<Rightarrow> repo \<Rightarrow>
     (import_job \<times> bool) result \<times> repo" where
  "abort uuid_ok sha256_hex io task_now now req r =
     (if \<not> uuid_ok (ab_command_request_id req) then (Inl (PlainError ''invalid commandRequestId''), r)
      else let scope = abort_command_scope req; digest = abort_command_digest sha256_hex req in
        case with_immediate io (replay_or_tx scope digest (ab_job_id req)
            (abort_new_tx req scope digest task_now now)) (rp_db r) of
          (res, d) \<Rightarrow> (res, \<lparr>rp_db = d, rp_permits = permit_revoke (ab_job_id req) (rp_permits r)\<rparr>))"

definition cleanup_state :: "string \<Rightarrow> bool" where
  "cleanup_state st = (st \<in> set [ImportAborted, ImportCanceled, ImportFailed, ImportSucceeded,
     ImportPausedSafe, ImportPausedRestage])"

definition no_live_work :: "string \<Rightarrow> db \<Rightarrow> bool" where
  "no_live_work i d = (tbl_count (is_live_of i) (segments_t d) = 0 \<and> tbl_count (is_sending_of i) (attempts_t d) = 0 \<and>
     tbl_count (is_open_of i) (incidents_t d) = 0)"

definition can_cleanup :: "string \<Rightarrow> db \<Rightarrow> unit result" where
  "can_cleanup i d =
     rbind (get_import i d) (\<lambda>job.
     rbind (require (cleanup_state (t_state (im_task job))) ErrImportState) (\<lambda>_.
     require (no_live_work i d) ErrImportState))"

section \<open>resolution.go\<close>

abbreviation DecisionReplayExact :: string where "DecisionReplayExact \<equiv> ''REPLAY_EXACT''"
abbreviation DecisionAssumeCommitted :: string where "DecisionAssumeCommitted \<equiv> ''ASSUME_COMMITTED''"
abbreviation DecisionAcceptPartial :: string where "DecisionAcceptPartial \<equiv> ''ACCEPT_PARTIAL''"
abbreviation DecisionAbort :: string where "DecisionAbort \<equiv> ''ABORT''"
abbreviation ResolutionContinue :: string where "ResolutionContinue \<equiv> ''CONTINUE''"
abbreviation ResolutionPause :: string where "ResolutionPause \<equiv> ''PAUSE''"

record resolution_commit =
  rc_job_id :: string
  rc_incident_id :: string
  rc_parent_digest :: string
  rc_expected_state_revision :: string
  rc_command_request_id :: string
  rc_decision :: string
  rc_after_resolution :: string
  rc_grant_token_hash :: string
  rc_run_segment_id :: string
  rc_permit :: "permit option"

definition incident_digest :: "(string \<Rightarrow> string) \<Rightarrow> incident_row \<Rightarrow> string" where
  "incident_digest sha256_hex n = sha256_hex (join newline [''ImportIncidentV1'', in_id n, in_kind n, in_status n,
     in_parent_digest n, in_run_segment_id n, in_batch_id n, in_attempt_id n, in_start_offset n, in_end_offset n,
     in_payload_digest n])"

definition resolution_command_scope :: "resolution_commit \<Rightarrow> string" where
  "resolution_command_scope req = join unit_sep [''IMPORT'', rc_job_id req, ''RESOLVE'', rc_command_request_id req]"

definition resolution_command_digest :: "(string \<Rightarrow> string) \<Rightarrow> resolution_commit \<Rightarrow> string" where
  "resolution_command_digest sha256_hex req = sha256_hex (join newline [''ResolveImportBatchV1'', rc_job_id req,
     rc_incident_id req, rc_parent_digest req, rc_expected_state_revision req, rc_command_request_id req,
     rc_decision req, rc_after_resolution req,
     if rc_grant_token_hash req = '''' then ''ABSENT'' else rc_grant_token_hash req])"

definition resolution_needs_grant :: "string \<Rightarrow> string \<Rightarrow> bool" where
  "resolution_needs_grant decision after =
     (decision = DecisionReplayExact \<or>
      (decision = DecisionAssumeCommitted \<or> decision = DecisionAcceptPartial) \<and> after = ResolutionContinue)"

definition is_hex_text :: "string \<Rightarrow> bool" where
  "is_hex_text s = (even (length s) \<and> list_all (\<lambda>c. c \<in> set ''0123456789abcdefABCDEF'') s)"

definition validate_resolution_commit :: "(string \<Rightarrow> bool) \<Rightarrow> resolution_commit \<Rightarrow> unit result" where
  "validate_resolution_commit uuid_ok req =
     rbind (require (uuid_ok (rc_command_request_id req) \<and> rc_job_id req \<noteq> '''' \<and> rc_incident_id req \<noteq> '''' \<and>
       rc_parent_digest req \<noteq> '''') ErrImportState) (\<lambda>_.
     rbind (transfer_canonical_decimal (rc_expected_state_revision req)) (\<lambda>_.
     rbind (require (rc_decision req \<noteq> DecisionAbort) ErrImportState) (\<lambda>_.
     rbind (require (rc_after_resolution req = ResolutionContinue \<or> rc_after_resolution req = ResolutionPause)
       ErrImportState) (\<lambda>_.
       if resolution_needs_grant (rc_decision req) (rc_after_resolution req) then
         (case rc_permit req of
            None \<Rightarrow> Inl ErrGrantMismatch
          | Some p \<Rightarrow>
              rbind (require (length (rc_grant_token_hash req) = 64 \<and> is_hex_text (rc_grant_token_hash req) \<and>
                valid_permit p) ErrGrantMismatch) (\<lambda>_.
              require (rc_run_segment_id req \<noteq> '''' \<and> pm_run_segment_id p = rc_run_segment_id req \<and>
                pm_checkpoint_digest p = rc_parent_digest req) ErrPermitMismatch))
       else require (rc_permit req = None \<and> rc_grant_token_hash req = '''' \<and>
         rc_after_resolution req = ResolutionPause) ErrGrantMismatch))))"

definition validate_resolution_state :: "resolution_commit \<Rightarrow> import_job \<Rightarrow> incident_row result" where
  "validate_resolution_state req job =
     (case im_open_incident job of
        None \<Rightarrow> Inl ErrCheckpointConflict
      | Some n \<Rightarrow>
          rbind (require (im_checkpoint_digest job = rc_parent_digest req \<and> in_id n = rc_incident_id req \<and>
            in_parent_digest n = rc_parent_digest req) ErrCheckpointConflict) (\<lambda>_.
          rbind (require (case rc_permit req of None \<Rightarrow> True | Some p \<Rightarrow> pm_profile_id p = im_profile_id job)
            ErrImportProfileMismatch) (\<lambda>_.
          rbind (require (
            if rc_decision req = DecisionReplayExact then decision_state (t_state (im_task job))
            else if rc_decision req = DecisionAssumeCommitted
              then t_state (im_task job) = ImportNeedsUnknownDecision \<and> in_kind n = ''UNKNOWN''
            else if rc_decision req = DecisionAcceptPartial
              then t_state (im_task job) = ImportNeedsPartialDecision \<and> in_kind n = ''PARTIAL''
            else False) ErrImportState) (\<lambda>_. Inr n))))"

text \<open>The checkpoint a decision other than an exact replay commits.\<close>

definition resolved_checkpoint :: "resolution_commit \<Rightarrow> incident_row \<Rightarrow> import_job \<Rightarrow> checkpoint result" where
  "resolved_checkpoint req n job =
     rbind (next_checkpoint (im_checkpoint_digest job) (in_end_offset n) (in_batch_id n)
       (if rc_decision req = DecisionAssumeCommitted then ''ASSUMED_COMMITTED''
        else if rc_decision req = DecisionAcceptPartial then ''ACCEPTED_PARTIAL''
        else cp_last_disposition (im_checkpoint job)) (im_checkpoint job)) (\<lambda>cp.
     Inr (if rc_decision req = DecisionAcceptPartial then cp\<lparr>cp_lossy := True\<rparr> else cp))"

text \<open>
  For a decision other than an exact replay: the checkpoint, its transition and the resolved incident.
\<close>

definition commit_resolution_tx ::
  "resolution_commit \<Rightarrow> incident_row \<Rightarrow> string \<Rightarrow> checkpoint \<Rightarrow> time \<Rightarrow> (db, unit) tx" where
  "commit_resolution_tx req n child cp now =
     (let i = rc_job_id req; parent = rc_parent_digest req in
      tx_bind (insert_checkpoint i child cp now) (\<lambda>_.
      tx_bind (insert_transition \<lparr>tr_job_id = i, tr_sequence = cp_sequence cp,
          tr_owner_run_segment_id = rc_run_segment_id req, tr_cause = rc_decision req, tr_parent_digest = parent,
          tr_child_digest = child, tr_batch_id = in_batch_id n, tr_attempt_id = in_attempt_id n,
          tr_incident_id = in_id n, tr_command_request_id = rc_command_request_id req, tr_committed_at = now\<rparr>) (\<lambda>_.
      one_row (upd_incident (\<lambda>x. in_id x = rc_incident_id req \<and> is_open_of i x \<and> in_parent_digest x = parent)
        (\<lambda>x. x\<lparr>in_status := ''RESOLVED'', in_resolution := Some (rc_decision req), in_resolved_at := Some now,
          in_resolution_command_id := Some (rc_command_request_id req)\<rparr>)) ErrOpenIncident)))"

definition resolve_new_tx ::
  "(checkpoint \<Rightarrow> string) \<Rightarrow> resolution_commit \<Rightarrow> string \<Rightarrow> string \<Rightarrow> time \<Rightarrow> time \<Rightarrow> (db, import_job) tx" where
  "resolve_new_tx hash req scope digest task_now now =
     (let i = rc_job_id req; parent = rc_parent_digest req; segment = rc_run_segment_id req;
          replay = (rc_decision req = DecisionReplayExact);
          pausing = (\<not> replay \<and> rc_after_resolution req = ResolutionPause);
          target = (if pausing then ImportPausedSafe else ImportRunning);
          active = (if pausing then None else Some segment)
      in
      tx_bind (get_import_in_tx i) (\<lambda>job.
      tx_bind (tx_require (t_state_revision (im_task job) = rc_expected_state_revision req) tasks_ErrRevisionConflict) (\<lambda>_.
      tx_bind (tx_lift (validate_resolution_state req job)) (\<lambda>n.
      tx_bind (count_sending i) (\<lambda>sending.
      tx_bind (tx_require (sending = 0) ErrImportState) (\<lambda>_.
      tx_bind (tx_lift (if replay then Inr (im_checkpoint job) else resolved_checkpoint req n job)) (\<lambda>cp.
      tx_bind (tx_lift (if replay then Inr (im_checkpoint_digest job) else checkpoint_digest hash cp)) (\<lambda>child.
      tx_bind (insert_segment \<lparr>sg_id = segment, sg_job_id = i,
          sg_kind = (if replay then ''REPLAY_EXACT'' else if pausing then ''RESOLUTION_ONLY'' else ''NORMAL''),
          sg_state = (if pausing then ''CLOSED'' else ''ACTIVE''), sg_initial_digest = im_checkpoint_digest job,
          sg_committed_digest = child, sg_active_attempt_id = None,
          sg_stop_reason = (if pausing then Some ''AFTER_RESOLUTION_PAUSE'' else None),
          sg_after_resolution = (if replay then Some (rc_after_resolution req) else None),
          sg_resolution_command_id = Some (rc_command_request_id req), sg_created_at = now, sg_updated_at = now\<rparr>) (\<lambda>_.
      tx_bind (if replay then tx_return () else commit_resolution_tx req n child cp now) (\<lambda>_.
      tx_bind (apply_in_tx task_now (im_task job) (state_change target False ''STATE'')) (\<lambda>updated.
      tx_bind (one_row (upd_job (\<lambda>j. ij_job_id j = i \<and> ij_state j = t_state (im_task job) \<and>
          ij_checkpoint_digest j = parent \<and> ij_active_run_segment_id j = None)
        (\<lambda>j. (job_rev updated now j)\<lparr>ij_state := target, ij_checkpoint_digest := child,
          ij_active_run_segment_id := active, ij_pause_requested := False\<rparr>)) ErrCheckpointConflict) (\<lambda>_.
      tx_bind (insert_audit (rc_decision req) i parent ''SUCCEEDED'' (rc_command_request_id req) now) (\<lambda>_.
      tx_bind (insert_command_in_tx (import_command_entry scope digest i target (t_state_revision updated) now)) (\<lambda>_.
      tx_return (job\<lparr>im_task := updated, im_checkpoint := cp, im_checkpoint_digest := child, im_active := active,
        im_open_incident := (if replay then im_open_incident job else None)\<rparr>)))))))))))))))"

text \<open>\<open>restoreReplayPermitFailure\<close>: back to the decision the replay came from.\<close>

definition restore_replay_tx :: "string \<Rightarrow> string \<Rightarrow> string \<Rightarrow> time \<Rightarrow> time \<Rightarrow> (db, unit) tx" where
  "restore_replay_tx i segment digest task_now now =
     tx_bind (get_import_in_tx i) (\<lambda>job.
       if t_state (im_task job) \<noteq> ImportRunning \<or> im_checkpoint_digest job \<noteq> digest \<or> \<not> active_is segment job \<or>
          im_open_incident job = None
       then tx_return ()
       else
         tx_bind (count_sending i) (\<lambda>sending.
           if sending \<noteq> 0 then tx_return ()
           else
             (let target = (if in_kind (the (im_open_incident job)) = ''PARTIAL'' then ImportNeedsPartialDecision
                else ImportNeedsUnknownDecision) in
             tx_bind (apply_in_tx task_now (im_task job) (state_change target False ''STATE'')) (\<lambda>updated.
             tx_bind (upd_segment (\<lambda>s. sg_id s = segment \<and> sg_state s = ''ACTIVE'') (\<lambda>s. s\<lparr>sg_state := ''CLOSED'',
               sg_stop_reason := Some ''PERMIT_ACTIVATION_FAILED'', sg_updated_at := now\<rparr>)) (\<lambda>_.
             tx_bind (upd_job (\<lambda>j. ij_job_id j = i) (\<lambda>j. (job_rev updated now j)\<lparr>ij_state := target,
               ij_active_run_segment_id := None\<rparr>)) (\<lambda>_. tx_return ()))))))"

definition restore_replay_permit_failure ::
  "bool \<Rightarrow> time \<Rightarrow> time \<Rightarrow> string \<Rightarrow> string \<Rightarrow> string \<Rightarrow> repo \<Rightarrow> unit result \<times> repo" where
  "restore_replay_permit_failure io task_now now i segment digest r =
     (case with_immediate io (restore_replay_tx i segment digest task_now now) (rp_db r) of
        (res, d) \<Rightarrow> (res, \<lparr>rp_db = d, rp_permits = permit_revoke i (rp_permits r)\<rparr>))"

text \<open>
  After the commit of a decision that needs a grant: the permit at the committed checkpoint.  When it
  cannot be activated the run is undone, and the errors of that and of reading the job back are joined.
\<close>

definition activate_resolved ::
  "bool \<Rightarrow> time \<Rightarrow> time \<Rightarrow> resolution_commit \<Rightarrow> import_job \<Rightarrow> repo \<Rightarrow> (import_job \<times> bool) result \<times> repo" where
  "activate_resolved io task_now now req out r =
     (let i = rc_job_id req; segment = rc_run_segment_id req; child = im_checkpoint_digest out;
          p = (the (rc_permit req))\<lparr>pm_run_segment_id := segment, pm_checkpoint_digest := child\<rparr>
      in case permit_activate i p (rp_permits r) of
        Inr ps \<Rightarrow> (Inr (out, False), r\<lparr>rp_permits := ps\<rparr>)
      | Inl e \<Rightarrow>
          (Inl e, snd (if rc_decision req = DecisionReplayExact
             then restore_replay_permit_failure io task_now now i segment child r
             else pause_permit_desync io task_now now i segment child r)))"

definition resolve_incident ::
  "(string \<Rightarrow> bool) \<Rightarrow> (string \<Rightarrow> string) \<Rightarrow> (checkpoint \<Rightarrow> string) \<Rightarrow> (nat \<Rightarrow> bool) \<Rightarrow> (nat \<Rightarrow> time) \<Rightarrow> string \<Rightarrow>
     resolution_commit \<Rightarrow> repo \<Rightarrow> (import_job \<times> bool) result \<times> repo" where
  "resolve_incident uuid_ok sha256_hex hash io clock new_id req r =
     (case validate_resolution_commit uuid_ok req of
        Inl e \<Rightarrow> (Inl e, r)
      | Inr _ \<Rightarrow>
          (let req = (if rc_run_segment_id req = '''' then req\<lparr>rc_run_segment_id := new_id\<rparr> else req);
               scope = resolution_command_scope req; digest = resolution_command_digest sha256_hex req
           in case with_immediate (io 0) (replay_or_tx scope digest (rc_job_id req)
               (resolve_new_tx hash req scope digest (clock 0) (clock 1))) (rp_db r) of
             (Inl e, d) \<Rightarrow> (Inl e, r\<lparr>rp_db := d\<rparr>)
           | (Inr (out, True), d) \<Rightarrow> (Inr (out, True), r\<lparr>rp_db := d\<rparr>)
           | (Inr (out, False), d) \<Rightarrow>
               if resolution_needs_grant (rc_decision req) (rc_after_resolution req)
               then activate_resolved (io 1) (clock 2) (clock 3) req out (r\<lparr>rp_db := d\<rparr>)
               else (Inr (out, False), r\<lparr>rp_db := d\<rparr>)))"

section \<open>import_control.go: cancel\<close>

definition validate_import_control ::
  "(string \<Rightarrow> bool) \<Rightarrow> (string \<Rightarrow> string) \<Rightarrow> string \<Rightarrow> string \<Rightarrow> string \<Rightarrow> string \<Rightarrow> (string \<times> string \<times> string) result" where
  "validate_import_control uuid_ok sha256_hex i kind request_id expected =
     rbind (require (i \<noteq> '''') tasks_ErrNotFound) (\<lambda>_.
     rbind (require (uuid_ok request_id) (PlainError ''invalid commandRequestId'')) (\<lambda>_.
     rbind (transfer_canonical_decimal expected) (\<lambda>revision.
     Inr (revision, join unit_sep [''IMPORT'', i, kind, request_id],
       sha256_hex (join newline [''ImportControlCommandV1'', kind, i, request_id, revision])))))"

text \<open>\<open>lookupImportControlCommand\<close>: \<open>None\<close> when the ledger has no entry.\<close>

definition lookup_import_control ::
  "string \<Rightarrow> string \<Rightarrow> string \<Rightarrow> db \<Rightarrow> (import_job \<times> command_entry) result option" where
  "lookup_import_control i scope digest d =
     (case lookup_command_in_tx scope digest d of
        Inl e \<Rightarrow> Some (Inl e)
      | Inr (None, _) \<Rightarrow> None
      | Inr (Some entry, _) \<Rightarrow>
          if ce_resource_kind entry \<noteq> ''IMPORT'' \<or> ce_resource_id entry \<noteq> i
          then Some (Inl tasks_ErrCommandIdempotencyConflict)
          else Some (case get_import i d of Inl e \<Rightarrow> Inl e | Inr out \<Rightarrow> Inr (out, entry)))"

definition require_import_entry :: "string \<Rightarrow> command_entry \<Rightarrow> (db, unit) tx" where
  "require_import_entry i entry =
     tx_require (ce_resource_kind entry = ''IMPORT'' \<and> ce_resource_id entry = i) tasks_ErrCommandIdempotencyConflict"

text \<open>With nothing in flight: the live segment, if any, is closed, and the job is canceled.\<close>

definition cancel_now_tx :: "import_job \<Rightarrow> string \<Rightarrow> segment_row option \<Rightarrow> time \<Rightarrow> time \<Rightarrow> (db, import_job) tx" where
  "cancel_now_tx job i live task_now now =
     tx_bind (case live of
         None \<Rightarrow> tx_return ()
       | Some s \<Rightarrow> one_row (upd_segment (\<lambda>x. sg_job_id x = i \<and> sg_id x = sg_id s \<and> live_segment_state (sg_state x) \<and>
           sg_active_attempt_id x = None) (closed_segment (Some import_stop_user_canceled) now)) ErrImportState) (\<lambda>_.
     tx_bind (apply_in_tx task_now (im_task job) (state_change ImportCanceled True ''CANCELED'')) (\<lambda>updated.
     tx_bind (one_row (upd_job (\<lambda>j. ij_job_id j = i \<and> ij_state j = t_state (im_task job))
       (stopped_job ImportCanceled updated now)) ErrImportState) (\<lambda>_.
     tx_return (stopped_out updated job))))"

text \<open>With an attempt in flight: the segment stops, and the settlement of the attempt ends the job.\<close>

definition cancel_request_tx :: "import_job \<Rightarrow> string \<Rightarrow> segment_row option \<Rightarrow> time \<Rightarrow> time \<Rightarrow> (db, import_job) tx" where
  "cancel_request_tx job i live task_now now =
     (case live of
        None \<Rightarrow> tx_fail ErrImportState
      | Some s \<Rightarrow>
          tx_bind (tx_require (t_state (im_task job) = ImportRunning \<and> sg_state s = ''ACTIVE'' \<and> active_is (sg_id s) job)
            ErrImportState) (\<lambda>_.
          tx_bind (one_row (upd_segment (\<lambda>x. sg_job_id x = i \<and> sg_id x = sg_id s \<and> sg_state x = ''ACTIVE'' \<and>
              sg_active_attempt_id x \<noteq> None)
            (\<lambda>x. x\<lparr>sg_state := ''STOPPING'', sg_stop_reason := Some import_stop_user_canceled, sg_updated_at := now\<rparr>))
            ErrImportState) (\<lambda>_.
          tx_bind (apply_in_tx task_now (im_task job) (state_change ImportRunning False ''CANCEL_REQUESTED'')) (\<lambda>updated.
          tx_bind (one_row (upd_job (\<lambda>j. ij_job_id j = i \<and> ij_state j = ImportRunning \<and>
              ij_active_run_segment_id j = Some (sg_id s))
            (\<lambda>j. (job_rev updated now j)\<lparr>ij_pause_requested := True\<rparr>)) ErrImportState) (\<lambda>_.
          tx_return (job\<lparr>im_task := updated, im_pause_requested := True\<rparr>))))))"

definition cancel_new_tx ::
  "string \<Rightarrow> string \<Rightarrow> string \<Rightarrow> string \<Rightarrow> string \<Rightarrow> time \<Rightarrow> time \<Rightarrow> (db, import_job) tx" where
  "cancel_new_tx i request_id revision scope digest task_now now =
     tx_bind (get_import_in_tx i) (\<lambda>job.
     tx_bind (tx_get (\<lambda>d. List.find (is_live_of i) (segments_t d))) (\<lambda>live.
     tx_bind (count_sending i) (\<lambda>sending.
     tx_bind (tx_require (\<not> (1 < sending \<or> sending = 1 \<and> (case live of None \<Rightarrow> True
         | Some s \<Rightarrow> sg_active_attempt_id s = None))) ErrImportState) (\<lambda>_.
       let satisfied = (t_state (im_task job) = ImportCanceled \<or> (case live of None \<Rightarrow> False
             | Some s \<Rightarrow> sg_state s = ''STOPPING'' \<and> null_text (sg_stop_reason s) = import_stop_user_canceled));
           entry = (\<lambda>m. import_command_entry scope digest i (t_state m) (t_state_revision m) now)
       in
       if satisfied then tx_bind (insert_command_in_tx (entry (im_task job))) (\<lambda>_. tx_return job)
       else
         tx_bind (tx_require (t_state_revision (im_task job) = revision) tasks_ErrRevisionConflict) (\<lambda>_.
         tx_bind (tx_require (\<not> (im_open_incident job \<noteq> None \<or> decision_state (t_state (im_task job)))) ErrOpenIncident) (\<lambda>_.
         tx_bind (tx_require (\<not> (t_terminal (im_task job) \<or> t_state (im_task job) = ImportCleaning)) ErrImportState) (\<lambda>_.
         tx_bind (if sending = 0 then cancel_now_tx job i live task_now now
                  else cancel_request_tx job i live task_now now) (\<lambda>out.
         tx_bind (set_transfer_state i (t_state (im_task out)) now) (\<lambda>_.
         tx_bind (insert_command_in_tx (entry (im_task out))) (\<lambda>_.
         tx_bind (insert_audit ''CANCEL'' i (im_checkpoint_digest out) ''REQUESTED'' request_id now) (\<lambda>_.
         tx_return out)))))))))))"

definition cancel_import ::
  "(string \<Rightarrow> bool) \<Rightarrow> (string \<Rightarrow> string) \<Rightarrow> bool \<Rightarrow> time \<Rightarrow> time \<Rightarrow> string \<Rightarrow> string \<Rightarrow> string \<Rightarrow> repo \<Rightarrow>
     (import_job \<times> bool) result \<times> repo" where
  "cancel_import uuid_ok sha256_hex io task_now now i request_id expected r =
     (case validate_import_control uuid_ok sha256_hex i ''CANCEL'' request_id expected of
        Inl e \<Rightarrow> (Inl e, r)
      | Inr (revision, scope, digest) \<Rightarrow>
          (case lookup_import_control i scope digest (rp_db r) of
             Some (Inl e) \<Rightarrow> (Inl e, r)
           | Some (Inr (out, _)) \<Rightarrow> (Inr (out, True), r)
           | None \<Rightarrow>
               (case with_immediate io (tx_bind (lookup_command_in_tx scope digest) (\<lambda>found.
                   case found of
                     Some entry \<Rightarrow> tx_bind (require_import_entry i entry) (\<lambda>_.
                       tx_bind (get_import_in_tx i) (\<lambda>out. tx_return (out, True)))
                   | None \<Rightarrow> tx_bind (cancel_new_tx i request_id revision scope digest task_now now) (\<lambda>out.
                       tx_return (out, False)))) (rp_db r) of
                  (Inl e, d) \<Rightarrow> (Inl e, r\<lparr>rp_db := d\<rparr>)
                | (Inr out, d) \<Rightarrow> (Inr out, \<lparr>rp_db = d, rp_permits = permit_revoke i (rp_permits r)\<rparr>))))"

section \<open>import_control.go: cleanup\<close>

text \<open>\<open>importCleanupFinalState\<close>: a paused job ends canceled, because its staging is removed.\<close>

definition cleanup_final_state :: "string \<Rightarrow> string" where
  "cleanup_final_state st = (if st = ImportPausedSafe \<or> st = ImportPausedRestage then ImportCanceled else st)"

definition terminal_import_state :: "string \<Rightarrow> bool" where
  "terminal_import_state st = (st \<in> set [ImportAborted, ImportCanceled, ImportFailed, ImportSucceeded])"

definition require_no_live_work :: "string \<Rightarrow> (db, unit) tx" where
  "require_no_live_work i = tx_bind (tx_get (no_live_work i)) (\<lambda>quiet. tx_require quiet ErrImportState)"

definition cleanup_new_tx ::
  "string \<Rightarrow> string \<Rightarrow> string \<Rightarrow> string \<Rightarrow> string \<Rightarrow> time \<Rightarrow> time \<Rightarrow> (db, import_job) tx" where
  "cleanup_new_tx i request_id revision scope digest task_now now =
     tx_bind (get_import_in_tx i) (\<lambda>job.
     tx_bind (tx_require (t_state_revision (im_task job) = revision) tasks_ErrRevisionConflict) (\<lambda>_.
     tx_bind (tx_require (cleanup_state (t_state (im_task job))) ErrImportState) (\<lambda>_.
     tx_bind (require_no_live_work (t_id (im_task job))) (\<lambda>_.
     tx_bind (apply_in_tx task_now (im_task job) (state_change ImportCleaning False ''CLEANING'')) (\<lambda>updated.
     tx_bind (one_row (upd_job (\<lambda>j. ij_job_id j = i \<and> ij_state j = t_state (im_task job))
       (stopped_job ImportCleaning updated now)) ErrImportState) (\<lambda>_.
     tx_bind (set_transfer_state i (cleanup_final_state (t_state (im_task job))) now) (\<lambda>_.
     tx_bind (insert_command_in_tx (import_command_entry scope digest i ImportCleaning (t_state_revision updated) now)) (\<lambda>_.
     tx_bind (insert_audit ''CLEANUP'' i (im_checkpoint_digest job) ''STARTED'' request_id now) (\<lambda>_.
     tx_return (stopped_out updated job))))))))))"

text \<open>The job, whether the command is a replay, and whether its cleanup has already ended.\<close>

definition begin_cleanup_tx ::
  "string \<Rightarrow> string \<Rightarrow> string \<Rightarrow> string \<Rightarrow> string \<Rightarrow> time \<Rightarrow> time \<Rightarrow> (db, import_job \<times> bool \<times> bool) tx" where
  "begin_cleanup_tx i request_id revision scope digest task_now now =
     tx_bind (lookup_command_in_tx scope digest) (\<lambda>found.
       case found of
         Some entry \<Rightarrow>
           tx_bind (require_import_entry i entry) (\<lambda>_.
           tx_bind (get_import_in_tx i) (\<lambda>out.
             if ce_result_state entry \<noteq> ImportCleaning then tx_return (out, True, True)
             else tx_bind (tx_require (t_state (im_task out) = ImportCleaning) ErrImportState) (\<lambda>_.
               tx_return (out, True, False))))
       | None \<Rightarrow>
           tx_bind (cleanup_new_tx i request_id revision scope digest task_now now) (\<lambda>out.
           tx_return (out, False, False)))"

text \<open>
  \<open>completeImportCleanupLocked\<close>.  The recovery target is what the first transaction left in
  \<open>transfer_jobs.state\<close>.
\<close>

definition finish_cleanup_tx ::
  "string \<Rightarrow> string \<Rightarrow> string \<Rightarrow> string \<Rightarrow> import_job \<Rightarrow> string \<Rightarrow> time \<Rightarrow> time \<Rightarrow> (db, import_job) tx" where
  "finish_cleanup_tx i scope digest correlation job original task_now now =
     tx_bind (tx_delete reservations_t reservations_t_update (\<lambda>v. rv_job_id v = i)) (\<lambda>_.
     tx_bind (tx_update transfer_jobs_t transfer_jobs_t_update (\<lambda>t. tj_job_id t = i)
       (\<lambda>t. t\<lparr>tj_retained := False, tj_state := original, tj_updated_at := now\<rparr>)) (\<lambda>_.
     tx_bind (apply_in_tx task_now (im_task job)
       (state_change original (terminal_import_state original) ''CLEANED'')) (\<lambda>updated.
     tx_bind (one_row (upd_job (\<lambda>j. ij_job_id j = i \<and> ij_state j = ImportCleaning)
       (stopped_job original updated now)) ErrImportState) (\<lambda>_.
     tx_bind (one_row (tx_update command_t command_t_update
         (\<lambda>c. ce_scope c = scope \<and> ce_request_digest c = digest \<and> ce_resource_kind c = ''IMPORT'' \<and>
           ce_resource_id c = i \<and> ce_result_state c = ImportCleaning)
         (\<lambda>c. c\<lparr>ce_result_state := original, ce_result_state_revision := t_state_revision updated\<rparr>))
       tasks_ErrCommandIdempotencyConflict) (\<lambda>_.
     tx_bind (insert_audit ''CLEANUP'' i (im_checkpoint_digest job) ''SUCCEEDED'' correlation now) (\<lambda>_.
     tx_return (job\<lparr>im_task := updated\<rparr>)))))))"

definition complete_cleanup_tx ::
  "string \<Rightarrow> string \<Rightarrow> string \<Rightarrow> string \<Rightarrow> time \<Rightarrow> time \<Rightarrow> (db, import_job) tx" where
  "complete_cleanup_tx i scope digest correlation task_now now =
     tx_bind (lookup_command_in_tx scope digest) (\<lambda>found.
       case found of
         None \<Rightarrow> tx_fail tasks_ErrCommandIdempotencyConflict
       | Some entry \<Rightarrow>
           tx_bind (require_import_entry i entry) (\<lambda>_.
           tx_bind (get_import_in_tx i) (\<lambda>job.
             if ce_result_state entry \<noteq> ImportCleaning then tx_return job
             else
               tx_bind (tx_require (t_state (im_task job) = ImportCleaning) ErrImportState) (\<lambda>_.
               tx_bind (require_no_live_work i) (\<lambda>_.
               tx_bind (tx_query_row transfer_jobs_t (\<lambda>t. tj_job_id t = i)) (\<lambda>t.
               tx_bind (tx_require (cleanup_state (tj_state t)) ErrImportState) (\<lambda>_.
               finish_cleanup_tx i scope digest correlation job (tj_state t) task_now now)))))))"

text \<open>
  \<open>CleanupImport\<close> from the job lock on.  \<open>removed\<close>: the files of the job are gone after the call of
  \<open>removeFiles\<close>.  \<open>io 0\<close>, \<open>clock 0\<close>, \<open>clock 1\<close> belong to the first transaction, \<open>io 1\<close>, \<open>clock 2\<close>,
  \<open>clock 3\<close> to the second.
\<close>

definition run_cleanup ::
  "(nat \<Rightarrow> bool) \<Rightarrow> (nat \<Rightarrow> time) \<Rightarrow> string \<Rightarrow> string \<Rightarrow> string \<Rightarrow> string \<Rightarrow> string \<Rightarrow> bool \<Rightarrow> repo \<Rightarrow>
     (import_job \<times> bool) result \<times> repo" where
  "run_cleanup io clock i request_id revision scope digest removed r =
     (case with_immediate (io 0) (begin_cleanup_tx i request_id revision scope digest (clock 0) (clock 1)) (rp_db r) of
        (Inl e, d) \<Rightarrow> (Inl e, r\<lparr>rp_db := d\<rparr>)
      | (Inr (out, replayed, finished), d) \<Rightarrow>
          if finished then (Inr (out, replayed), r\<lparr>rp_db := d\<rparr>)
          else
            (let ps = permit_revoke i (rp_permits r) in
             if \<not> removed then (Inl ErrStageFileCleanup, \<lparr>rp_db = d, rp_permits = ps\<rparr>)
             else case with_immediate (io 1) (complete_cleanup_tx i scope digest request_id (clock 2) (clock 3)) d of
               (Inl e, d) \<Rightarrow> (Inl e, \<lparr>rp_db = d, rp_permits = ps\<rparr>)
             | (Inr out, d) \<Rightarrow> (Inr (out, replayed), \<lparr>rp_db = d, rp_permits = ps\<rparr>)))"

text \<open>\<open>remove_files\<close> is \<open>None\<close> for the nil function.\<close>

definition cleanup_import ::
  "(string \<Rightarrow> bool) \<Rightarrow> (string \<Rightarrow> string) \<Rightarrow> (nat \<Rightarrow> bool) \<Rightarrow> (nat \<Rightarrow> time) \<Rightarrow> string \<Rightarrow> string \<Rightarrow> string \<Rightarrow>
     bool option \<Rightarrow> repo \<Rightarrow> (import_job \<times> bool) result \<times> repo" where
  "cleanup_import uuid_ok sha256_hex io clock i request_id expected remove_files r =
     (case remove_files of
        None \<Rightarrow> (Inl ErrStageFileCleanup, r)
      | Some removed \<Rightarrow>
          (case validate_import_control uuid_ok sha256_hex i ''CLEANUP'' request_id expected of
             Inl e \<Rightarrow> (Inl e, r)
           | Inr (revision, scope, digest) \<Rightarrow>
               (case lookup_import_control i scope digest (rp_db r) of
                  Some (Inl e) \<Rightarrow> (Inl e, r)
                | Some (Inr (out, entry)) \<Rightarrow>
                    if ce_result_state entry \<noteq> ImportCleaning then (Inr (out, True), r)
                    else run_cleanup io clock i request_id revision scope digest removed r
                | None \<Rightarrow> run_cleanup io clock i request_id revision scope digest removed r)))"

text \<open>
  \<open>RecoverImportCleanups\<close>: the number of cleanups completed before the end or the first error.
\<close>

definition pending_cleanups :: "db \<Rightarrow> (string \<times> string \<times> string) list" where
  "pending_cleanups d =
     map (\<lambda>c. (ce_resource_id c, ce_scope c, ce_request_digest c))
       (filter (\<lambda>c. ce_resource_kind c = ''IMPORT'' \<and> ce_result_state c = ImportCleaning \<and>
          list_ex (\<lambda>j. ij_job_id j = ce_resource_id c \<and> ij_state j = ImportCleaning) (import_jobs_t d)) (command_t d))"

fun recover_cleanup_entries ::
  "(nat \<Rightarrow> bool) \<Rightarrow> (nat \<Rightarrow> time) \<Rightarrow> (string \<Rightarrow> bool) \<Rightarrow> (string \<times> string \<times> string) list \<Rightarrow> repo \<Rightarrow>
     nat \<times> go_error option \<times> repo" where
  "recover_cleanup_entries io clock removed [] r = (0, None, r)"
| "recover_cleanup_entries io clock removed ((i, scope, digest) # items) r =
     (let ps = permit_revoke i (rp_permits r) in
      if \<not> removed i then (0, Some ErrStageFileCleanup, r\<lparr>rp_permits := ps\<rparr>)
      else case with_immediate (io 0) (complete_cleanup_tx i scope digest ''RECOVERY'' (clock 0) (clock 1)) (rp_db r) of
        (Inl e, d) \<Rightarrow> (0, Some e, \<lparr>rp_db = d, rp_permits = ps\<rparr>)
      | (Inr _, d) \<Rightarrow>
          (case recover_cleanup_entries (\<lambda>n. io (n + 1)) (\<lambda>n. clock (n + 2)) removed items \<lparr>rp_db = d, rp_permits = ps\<rparr> of
             (n, e, r) \<Rightarrow> (n + 1, e, r)))"

definition recover_import_cleanups ::
  "(nat \<Rightarrow> bool) \<Rightarrow> (nat \<Rightarrow> time) \<Rightarrow> (string \<Rightarrow> bool) option \<Rightarrow> repo \<Rightarrow> nat \<times> go_error option \<times> repo" where
  "recover_import_cleanups io clock remove_files r =
     (case remove_files of
        None \<Rightarrow> (0, Some ErrStageFileCleanup, r)
      | Some removed \<Rightarrow> recover_cleanup_entries io clock removed (pending_cleanups (rp_db r)) r)"

section \<open>recovery.go\<close>

definition recover_import_state_tx :: "import_job \<Rightarrow> string \<Rightarrow> string \<Rightarrow> time \<Rightarrow> time \<Rightarrow> (db, unit) tx" where
  "recover_import_state_tx job state reason task_now now =
     tx_bind (apply_in_tx task_now (im_task job) (no_change\<lparr>ch_state := state, ch_state_changed := True,
       ch_change_type := ''RECOVERED'', ch_public_error_code := Some reason\<rparr>)) (\<lambda>updated.
     tx_bind (upd_job (\<lambda>j. ij_job_id j = t_id (im_task job)) (stopped_job state updated now)) (\<lambda>_.
     tx_bind (set_transfer_state (t_id (im_task job)) state now) (\<lambda>_. tx_return ())))"

definition read_sending_attempt :: "string \<Rightarrow> (db, attempt_row option) tx" where
  "read_sending_attempt i = tx_get (\<lambda>d. List.find (is_sending_of i) (attempts_t d))"

definition lost_segment :: "string \<Rightarrow> time \<Rightarrow> (db, nat) tx" where
  "lost_segment segment now = upd_segment (\<lambda>s. sg_id s = segment) (closed_segment (Some ''LOST_ON_RESTART'') now)"

text \<open>An attempt that was in flight may have been written: the user has to decide.\<close>

definition recover_sending_tx :: "import_job \<Rightarrow> string \<Rightarrow> attempt_row \<Rightarrow> string \<Rightarrow> time \<Rightarrow> time \<Rightarrow> (db, unit) tx" where
  "recover_sending_tx job i a incident_id task_now now =
     tx_bind (upd_attempt (\<lambda>x. at_id x = at_id a \<and> at_state x = ''SENDING'')
       (\<lambda>x. x\<lparr>at_state := ''UNKNOWN'', at_updated_at := now\<rparr>)) (\<lambda>_.
     tx_bind (lost_segment (at_run_segment_id a) now) (\<lambda>_.
     tx_bind (insert_incident \<lparr>in_id = incident_id, in_job_id = i, in_kind = ''UNKNOWN'', in_status = ''OPEN'',
         in_parent_digest = at_parent_digest a, in_run_segment_id = at_run_segment_id a, in_batch_id = at_batch_id a,
         in_attempt_id = at_id a, in_start_offset = at_start_offset a, in_end_offset = at_end_offset a,
         in_payload_digest = at_payload_digest a, in_resolution = None, in_resolved_at = None,
         in_resolution_command_id = None, in_created_at = now\<rparr>) (\<lambda>_.
     recover_import_state_tx job ImportNeedsUnknownDecision ''UNKNOWN_ON_RESTART'' task_now now)))"

definition recover_import_tx :: "string \<Rightarrow> string \<Rightarrow> time \<Rightarrow> time \<Rightarrow> (db, unit) tx" where
  "recover_import_tx i incident_id task_now now =
     tx_bind (get_import_in_tx i) (\<lambda>job.
       if t_state (im_task job) = ImportPreflighting \<or> t_state (im_task job) = ImportStaging
       then recover_import_state_tx job ImportPausedRestage ''RESTAGE_REQUIRED'' task_now now
       else
         tx_bind (read_sending_attempt i) (\<lambda>attempt.
           case attempt of
             Some a \<Rightarrow> recover_sending_tx job i a incident_id task_now now
           | None \<Rightarrow>
               tx_bind (case im_active job of None \<Rightarrow> tx_return 0 | Some segment \<Rightarrow> lost_segment segment now) (\<lambda>_.
               recover_import_state_tx job ImportPausedSafe ''LOST_ON_RESTART'' task_now now)))"

definition recoverable_imports :: "db \<Rightarrow> string list" where
  "recoverable_imports d = map ij_job_id (filter (\<lambda>j. ij_state j \<in> set [ImportPreflighting, ImportStaging, ImportRunning])
     (import_jobs_t d))"

text \<open>\<open>new_id n\<close> is the id drawn for the incident of the \<open>n\<close>-th job.\<close>

fun recover_import_ids ::
  "(nat \<Rightarrow> bool) \<Rightarrow> (nat \<Rightarrow> time) \<Rightarrow> (nat \<Rightarrow> string) \<Rightarrow> string list \<Rightarrow> db \<Rightarrow> nat \<times> go_error option \<times> db" where
  "recover_import_ids io clock new_id [] d = (0, None, d)"
| "recover_import_ids io clock new_id (i # ids) d =
     (case with_immediate (io 0) (recover_import_tx i (new_id 0) (clock 0) (clock 1)) d of
        (Inl e, d) \<Rightarrow> (0, Some e, d)
      | (Inr _, d) \<Rightarrow>
          (case recover_import_ids (\<lambda>n. io (n + 1)) (\<lambda>n. clock (n + 2)) (\<lambda>n. new_id (n + 1)) ids d of
             (n, e, d) \<Rightarrow> (n + 1, e, d)))"

definition recover_imports ::
  "(nat \<Rightarrow> bool) \<Rightarrow> (nat \<Rightarrow> time) \<Rightarrow> (nat \<Rightarrow> string) \<Rightarrow> repo \<Rightarrow> nat \<times> go_error option \<times> repo" where
  "recover_imports io clock new_id r =
     (case recover_import_ids io clock new_id (recoverable_imports (rp_db r)) (rp_db r) of
        (n, e, d) \<Rightarrow> (n, e, \<lparr>rp_db = d, rp_permits = Map.empty\<rparr>))"

end
