(* ===== verification/Import_Slice.thy ===== *)
theory Import_Slice
  imports Import_Control
begin

text \<open>
  The import jobs as separate slices of the database.  \<open>slice i\<close> is what the database holds of job
  \<open>i\<close>: its task, its row, its live run segments, its attempts in flight, its open incidents, its
  checkpoints and its transitions.  Every statement of the engine changes one slice in one way (the
  \<open>at_\<close> rules), so a transaction is run symbolically on the slice of its job and the slices of the
  other jobs stay.
\<close>

section \<open>Slices\<close>

record slice =
  sl_meta :: "meta option"
  sl_job :: "import_job_row option"
  sl_live :: "segment_row set"
  sl_sending :: "attempt_row set"
  sl_open :: "incident_row set"
  sl_cps :: "string \<rightharpoonup> checkpoint"
  sl_trs :: "transition_row list"

definition slice :: "string \<Rightarrow> db \<Rightarrow> slice" where
  "slice i d = \<lparr>sl_meta = tbl_get t_id i (tasks_t d), sl_job = tbl_get ij_job_id i (import_jobs_t d),
     sl_live = {s \<in> set (segments_t d). is_live_of i s}, sl_sending = {a \<in> set (attempts_t d). is_sending_of i a},
     sl_open = {n \<in> set (incidents_t d). is_open_of i n},
     sl_cps = (\<lambda>c. map_option ck_checkpoint (List.find (\<lambda>r. ck_job_id r = i \<and> ck_digest r = c) (checkpoints_t d))),
     sl_trs = filter (\<lambda>t. tr_job_id t = i) (transitions_t d)\<rparr>"

definition keys_ok :: "db \<Rightarrow> bool" where
  "keys_ok d \<longleftrightarrow> distinct (map sg_id (segments_t d)) \<and> distinct (map at_id (attempts_t d)) \<and>
     distinct (map in_id (incidents_t d)) \<and> distinct (map ij_job_id (import_jobs_t d))"

text \<open>\<open>at_slice d0 i l d\<close>: in the middle of a transaction of job \<open>i\<close> that began in \<open>d0\<close>.\<close>

definition at_slice :: "db \<Rightarrow> string \<Rightarrow> slice \<Rightarrow> db \<Rightarrow> bool" where
  "at_slice d0 i l d \<longleftrightarrow> keys_ok d \<and> tasks_inv d \<and> slice i d = l \<and> (\<forall>k. k \<noteq> i \<longrightarrow> slice k d = slice k d0)"

lemma at_start: "keys_ok d \<Longrightarrow> tasks_inv d \<Longrightarrow> at_slice d i (slice i d) d"
  by (simp add: at_slice_def)

text \<open>Updating the row with a given key.\<close>

lemma upd_one:
  assumes "distinct (map key rows)" and "x \<in> set rows" and "P x" and "\<And>r. P r \<Longrightarrow> key r = key x"
  shows "set (tbl_upd P f rows) = insert (f x) (set rows - {x})"
proof -
  have "P r \<longleftrightarrow> r = x" if "r \<in> set rows" for r
    using assms that by (metis distinct_map inj_onD)
  then show ?thesis using assms(2) by (auto simp: set_tbl_upd image_iff)
qed

lemma count_one:
  assumes "distinct (map key rows)" and "x \<in> set rows" and "\<And>r. P r \<Longrightarrow> key r = key x" and "tbl_count P rows = Suc 0"
  shows "P x"
proof -
  have "\<exists>r\<in>set rows. P r" using assms(4) tbl_count_0_iff [of P rows] by auto
  then obtain r where "r \<in> set rows" "P r" by blast
  with assms(1,2,3) have "r = x" by (metis distinct_map inj_onD)
  with \<open>P r\<close> show ?thesis by simp
qed

lemma map_key_tbl_upd: "(\<And>r. key (f r) = key r) \<Longrightarrow> map key (tbl_upd P f rows) = map key rows"
  by (induction rows) (auto simp: tbl_upd_def)

lemma find_SomeD: "List.find P xs = Some x \<Longrightarrow> x \<in> set xs \<and> P x"
  by (auto simp: find_Some_iff)

section \<open>Statements on a slice\<close>

text \<open>Statements that touch no slice.\<close>

lemma at_frame:
  assumes "at_slice d0 i l d" and "tasks_inv d'" and "tasks_t d' = tasks_t d" and "import_jobs_t d' = import_jobs_t d"
    and "segments_t d' = segments_t d" and "attempts_t d' = attempts_t d" and "incidents_t d' = incidents_t d"
    and "checkpoints_t d' = checkpoints_t d" and "transitions_t d' = transitions_t d"
  shows "at_slice d0 i l d'"
  using assms by (simp add: at_slice_def slice_def keys_ok_def)

lemma at_quiet:
  assumes at: "at_slice d0 i l d"
  shows "set_transfer_state j st now d = Inr (n, d') \<Longrightarrow> at_slice d0 i l d'"
    and "insert_audit action target digest outcome cid now d = Inr (u, d') \<Longrightarrow> at_slice d0 i l d'"
    and "insert_command_in_tx e d = Inr (u, d') \<Longrightarrow> at_slice d0 i l d'"
    and "insert_idempotency_in_tx ie d = Inr (u, d') \<Longrightarrow> at_slice d0 i l d'"
    and "tx_update transfer_jobs_t transfer_jobs_t_update P1 f1 d = Inr (n, d') \<Longrightarrow> at_slice d0 i l d'"
    and "tx_delete reservations_t reservations_t_update P2 d = Inr (n, d') \<Longrightarrow> at_slice d0 i l d'"
    and "tx_update command_t command_t_update P3 f3 d = Inr (n, d') \<Longrightarrow> at_slice d0 i l d'"
    and "tx_insert transfer_jobs_t transfer_jobs_t_update ok row d = Inr (u, d') \<Longrightarrow> at_slice d0 i l d'"
proof -
  have inv: "tasks_inv d" using at by (simp add: at_slice_def)
  have fr: "at_slice d0 i l d'"
    if "tasks_t d' = tasks_t d" "task_events_t d' = task_events_t d" "event_head d' = event_head d"
      "import_jobs_t d' = import_jobs_t d" "segments_t d' = segments_t d" "attempts_t d' = attempts_t d"
      "incidents_t d' = incidents_t d" "checkpoints_t d' = checkpoints_t d" "transitions_t d' = transitions_t d" for d'
    using at_frame [OF at] tasks_inv_frame [of d' d] that inv by simp
  show "set_transfer_state j st now d = Inr (n, d') \<Longrightarrow> at_slice d0 i l d'"
    by (rule fr) (auto simp: set_transfer_state_def tx_simps)
  show "insert_audit action target digest outcome cid now d = Inr (u, d') \<Longrightarrow> at_slice d0 i l d'"
    by (rule fr) (auto simp: insert_audit_def tx_simps)
  show "insert_command_in_tx e d = Inr (u, d') \<Longrightarrow> at_slice d0 i l d'"
    by (rule fr) (auto simp: insert_command_in_tx_def tx_simps)
  show "insert_idempotency_in_tx ie d = Inr (u, d') \<Longrightarrow> at_slice d0 i l d'"
    by (rule fr) (auto simp: insert_idempotency_in_tx_def tx_simps)
  show "tx_update transfer_jobs_t transfer_jobs_t_update P1 f1 d = Inr (n, d') \<Longrightarrow> at_slice d0 i l d'"
    by (rule fr) (auto simp: tx_simps)
  show "tx_delete reservations_t reservations_t_update P2 d = Inr (n, d') \<Longrightarrow> at_slice d0 i l d'"
    by (rule fr) (auto simp: tx_simps)
  show "tx_update command_t command_t_update P3 f3 d = Inr (n, d') \<Longrightarrow> at_slice d0 i l d'"
    by (rule fr) (auto simp: tx_simps)
  show "tx_insert transfer_jobs_t transfer_jobs_t_update ok row d = Inr (u, d') \<Longrightarrow> at_slice d0 i l d'"
    by (rule fr) (auto simp: tx_simps)
qed

lemma at_one_row: "one_row m e d = Inr (u, d') \<longleftrightarrow> (\<exists>n. m d = Inr (n, d') \<and> n = 1)"
  by (auto simp: one_row_def tx_simps)

text \<open>The task.\<close>

lemma at_apply:
  assumes at: "at_slice d0 i l d" and cur: "sl_meta l = Some cur" and run: "apply_in_tx tn cur ch d = Inr (m, d')"
  shows "at_slice d0 i (l\<lparr>sl_meta := Some m\<rparr>) d'"
    and "t_state m = (if ch_state ch \<noteq> [] then ch_state ch else t_state cur)" and "t_terminal m = ch_terminal ch"
    and "t_kind m = t_kind cur" and "t_id m = i"
proof -
  have inv: "tasks_inv d" and l: "slice i d = l" using at by (simp_all add: at_slice_def)
  then have got: "tbl_get t_id i (tasks_t d) = Some cur" using cur by (auto simp: slice_def)
  note ap = apply_effect [OF inv got run]
  obtain ts es h where d': "d' = d\<lparr>tasks_t := ts, task_events_t := es, event_head := h\<rparr>" using ap(11) by blast
  show "at_slice d0 i (l\<lparr>sl_meta := Some m\<rparr>) d'"
    using at ap(1) ap(6) unfolding at_slice_def d' by (auto simp: slice_def keys_ok_def)
  show "t_state m = (if ch_state ch \<noteq> [] then ch_state ch else t_state cur)" "t_terminal m = ch_terminal ch"
    "t_kind m = t_kind cur" "t_id m = i"
    using ap by simp_all
qed

text \<open>The row of the job.\<close>

lemma at_job:
  assumes at: "at_slice d0 i l d" and job: "sl_job l = Some j"
    and P: "\<And>r. P r \<Longrightarrow> ij_job_id r = i" and f: "\<And>r. ij_job_id (f r) = ij_job_id r"
  shows "one_row (upd_job P f) e d = Inr (u, d') \<Longrightarrow> P j \<and> at_slice d0 i (l\<lparr>sl_job := Some (f j)\<rparr>) d'"
    and "upd_job P f d = Inr (n, d') \<Longrightarrow> P j \<Longrightarrow> at_slice d0 i (l\<lparr>sl_job := Some (f j)\<rparr>) d'"
proof -
  have keys: "keys_ok d" and inv: "tasks_inv d" and l: "slice i d = l" using at by (simp_all add: at_slice_def)
  then have got: "tbl_get ij_job_id i (import_jobs_t d) = Some j" using job by (auto simp: slice_def)
  have j: "j \<in> set (import_jobs_t d)" "ij_job_id j = i" using tbl_get_SomeD [OF got] by simp_all
  have upd: "at_slice d0 i (l\<lparr>sl_job := Some (f j)\<rparr>) (import_jobs_t_update (\<lambda>_. tbl_upd P f (import_jobs_t d)) d)"
    if "P j"
  proof -
    let ?d = "import_jobs_t_update (\<lambda>_. tbl_upd P f (import_jobs_t d)) d"
    have "tbl_get ij_job_id k (import_jobs_t ?d) =
        (if k = i then Some (f j) else tbl_get ij_job_id k (import_jobs_t d))" for k
    proof -
      have eq: "tbl_get ij_job_id k (import_jobs_t ?d) =
          map_option (\<lambda>r. if P r then f r else r) (tbl_get ij_job_id k (import_jobs_t d))"
        by (simp add: tbl_get_upd [where key = ij_job_id, OF f])
      show ?thesis
      proof (cases "k = i")
        case True
        with eq got that show ?thesis by simp
      next
        case False
        have "\<not> P r" if "tbl_get ij_job_id k (import_jobs_t d) = Some r" for r
          using P [of r] tbl_get_SomeD [OF that] False by blast
        with eq False show ?thesis by (cases "tbl_get ij_job_id k (import_jobs_t d)") simp_all
      qed
    qed
    then show ?thesis using at inv tasks_inv_frame [of ?d d]
      by (auto simp: at_slice_def slice_def keys_ok_def map_key_tbl_upd f)
  qed
  show "one_row (upd_job P f) e d = Inr (u, d') \<Longrightarrow> P j \<and> at_slice d0 i (l\<lparr>sl_job := Some (f j)\<rparr>) d'"
    using upd count_one [of ij_job_id "import_jobs_t d" j P] keys j P
    by (auto simp: at_one_row upd_job_def tx_simps keys_ok_def)
  show "upd_job P f d = Inr (n, d') \<Longrightarrow> P j \<Longrightarrow> at_slice d0 i (l\<lparr>sl_job := Some (f j)\<rparr>) d'"
    using upd by (auto simp: upd_job_def tx_simps)
qed

text \<open>
  The tables of which a slice holds a subset: updating the row \<open>x\<close> of the subset, whose key the
  condition fixes.
\<close>

lemma subset_upd:
  assumes keys: "distinct (map key rows)" and x: "x \<in> {r \<in> set rows. live i r}" and P: "P x" "\<And>r. P r \<Longrightarrow> key r = key x"
    and job: "\<And>k r. live k r \<Longrightarrow> job_of r = k" "job_of (f x) = i"
  shows "{r \<in> set (tbl_upd P f rows). live k r} =
    (if k = i then {r \<in> set rows. live i r} - {x} \<union> {r. r = f x \<and> live i r} else {r \<in> set rows. live k r})"
proof -
  have mem: "x \<in> set rows" "live i x" using x by simp_all
  have eq: "set (tbl_upd P f rows) = insert (f x) (set rows - {x})"
    using upd_one [of key rows x P f] keys mem(1) P by blast
  show ?thesis
  proof (cases "k = i")
    case True
    then show ?thesis unfolding eq by auto
  next
    case False
    have "\<not> live k (f x)" "\<not> live k x" using False job mem(2) by blast+
    with False show ?thesis unfolding eq by auto
  qed
qed

definition only_if :: "bool \<Rightarrow> 'a \<Rightarrow> 'a set" where
  "only_if b x = {r. r = x \<and> b}"

lemma only_if_simps [simp]: "only_if True x = {x}" "only_if False x = {}"
  by (auto simp: only_if_def)

lemma is_of_job: "is_live_of k s \<Longrightarrow> sg_job_id s = k" "is_sending_of k a \<Longrightarrow> at_job_id a = k" "is_open_of k n \<Longrightarrow> in_job_id n = k"
  by (simp_all add: is_live_of_def is_sending_of_def is_open_of_def)

lemma at_segment:
  assumes at: "at_slice d0 i l d" and s: "s \<in> sl_live l"
    and P: "\<And>r. P r \<Longrightarrow> sg_id r = sg_id s" and f: "\<And>r. sg_id (f r) = sg_id r" "sg_job_id (f s) = i"
  shows "one_row (upd_segment P f) e d = Inr (u, d') \<Longrightarrow>
      P s \<and> at_slice d0 i (l\<lparr>sl_live := sl_live l - {s} \<union> only_if (live_segment_state (sg_state (f s))) (f s)\<rparr>) d'"
    and "upd_segment P f d = Inr (n, d') \<Longrightarrow> P s \<Longrightarrow>
      at_slice d0 i (l\<lparr>sl_live := sl_live l - {s} \<union> only_if (live_segment_state (sg_state (f s))) (f s)\<rparr>) d'"
proof -
  let ?l = "l\<lparr>sl_live := sl_live l - {s} \<union> only_if (live_segment_state (sg_state (f s))) (f s)\<rparr>"
  have keys: "distinct (map sg_id (segments_t d))" and inv: "tasks_inv d" and l: "slice i d = l"
    using at by (simp_all add: at_slice_def keys_ok_def)
  have mem: "s \<in> {r \<in> set (segments_t d). is_live_of i r}" using s l by (auto simp: slice_def)
  have upd: "at_slice d0 i ?l (segments_t_update (\<lambda>_. tbl_upd P f (segments_t d)) d)" if "P s"
  proof -
    let ?d = "segments_t_update (\<lambda>_. tbl_upd P f (segments_t d)) d"
    have "{r. r = f s \<and> is_live_of i r} = only_if (live_segment_state (sg_state (f s))) (f s)"
      using f(2) by (auto simp: is_live_of_def only_if_def)
    then have "slice k ?d = (if k = i then ?l else slice k d)" for k
      using subset_upd [of sg_id "segments_t d" s is_live_of i P sg_job_id f k, OF keys mem that P is_of_job(1) f(2)] l
      by (auto simp: slice_def)
    then show ?thesis using at inv tasks_inv_frame [of ?d d]
      by (simp add: at_slice_def keys_ok_def map_key_tbl_upd f(1))
  qed
  show "one_row (upd_segment P f) e d = Inr (u, d') \<Longrightarrow> P s \<and> at_slice d0 i ?l d'"
    using upd count_one [of sg_id "segments_t d" s P] keys P mem
    by (auto simp: at_one_row upd_segment_def tx_simps)
  show "upd_segment P f d = Inr (n, d') \<Longrightarrow> P s \<Longrightarrow> at_slice d0 i ?l d'"
    using upd by (auto simp: upd_segment_def tx_simps)
qed

lemma at_attempt:
  assumes at: "at_slice d0 i l d" and s: "a \<in> sl_sending l"
    and P: "\<And>r. P r \<Longrightarrow> at_id r = at_id a" and f: "\<And>r. at_id (f r) = at_id r" "at_job_id (f a) = i"
  shows "one_row (upd_attempt P f) e d = Inr (u, d') \<Longrightarrow>
      P a \<and> at_slice d0 i (l\<lparr>sl_sending := sl_sending l - {a} \<union> only_if (at_state (f a) = ''SENDING'') (f a)\<rparr>) d'"
    and "upd_attempt P f d = Inr (n, d') \<Longrightarrow> P a \<Longrightarrow>
      at_slice d0 i (l\<lparr>sl_sending := sl_sending l - {a} \<union> only_if (at_state (f a) = ''SENDING'') (f a)\<rparr>) d'"
proof -
  let ?l = "l\<lparr>sl_sending := sl_sending l - {a} \<union> only_if (at_state (f a) = ''SENDING'') (f a)\<rparr>"
  have keys: "distinct (map at_id (attempts_t d))" and inv: "tasks_inv d" and l: "slice i d = l"
    using at by (simp_all add: at_slice_def keys_ok_def)
  have mem: "a \<in> {r \<in> set (attempts_t d). is_sending_of i r}" using s l by (auto simp: slice_def)
  have upd: "at_slice d0 i ?l (attempts_t_update (\<lambda>_. tbl_upd P f (attempts_t d)) d)" if "P a"
  proof -
    let ?d = "attempts_t_update (\<lambda>_. tbl_upd P f (attempts_t d)) d"
    have "{r. r = f a \<and> is_sending_of i r} = only_if (at_state (f a) = ''SENDING'') (f a)"
      using f(2) by (auto simp: is_sending_of_def only_if_def)
    then have "slice k ?d = (if k = i then ?l else slice k d)" for k
      using subset_upd [of at_id "attempts_t d" a is_sending_of i P at_job_id f k, OF keys mem that P is_of_job(2) f(2)] l
      by (auto simp: slice_def)
    then show ?thesis using at inv tasks_inv_frame [of ?d d]
      by (simp add: at_slice_def keys_ok_def map_key_tbl_upd f(1))
  qed
  show "one_row (upd_attempt P f) e d = Inr (u, d') \<Longrightarrow> P a \<and> at_slice d0 i ?l d'"
    using upd count_one [of at_id "attempts_t d" a P] keys P mem
    by (auto simp: at_one_row upd_attempt_def tx_simps)
  show "upd_attempt P f d = Inr (n, d') \<Longrightarrow> P a \<Longrightarrow> at_slice d0 i ?l d'"
    using upd by (auto simp: upd_attempt_def tx_simps)
qed

lemma at_incident:
  assumes at: "at_slice d0 i l d" and s: "x \<in> sl_open l"
    and P: "\<And>r. P r \<Longrightarrow> in_id r = in_id x" and f: "\<And>r. in_id (f r) = in_id r" "in_job_id (f x) = i"
    and run: "one_row (upd_incident P f) e d = Inr (u, d')"
  shows "P x \<and> at_slice d0 i (l\<lparr>sl_open := sl_open l - {x} \<union> only_if (in_status (f x) = ''OPEN'') (f x)\<rparr>) d'"
proof -
  let ?l = "l\<lparr>sl_open := sl_open l - {x} \<union> only_if (in_status (f x) = ''OPEN'') (f x)\<rparr>"
  have keys: "distinct (map in_id (incidents_t d))" and inv: "tasks_inv d" and l: "slice i d = l"
    using at by (simp_all add: at_slice_def keys_ok_def)
  have mem: "x \<in> {r \<in> set (incidents_t d). is_open_of i r}" using s l by (auto simp: slice_def)
  have upd: "at_slice d0 i ?l (incidents_t_update (\<lambda>_. tbl_upd P f (incidents_t d)) d)" if "P x"
  proof -
    let ?d = "incidents_t_update (\<lambda>_. tbl_upd P f (incidents_t d)) d"
    have "{r. r = f x \<and> is_open_of i r} = only_if (in_status (f x) = ''OPEN'') (f x)"
      using f(2) by (auto simp: is_open_of_def only_if_def)
    then have "slice k ?d = (if k = i then ?l else slice k d)" for k
      using subset_upd [of in_id "incidents_t d" x is_open_of i P in_job_id f k, OF keys mem that P is_of_job(3) f(2)] l
      by (auto simp: slice_def)
    then show ?thesis using at inv tasks_inv_frame [of ?d d]
      by (simp add: at_slice_def keys_ok_def map_key_tbl_upd f(1))
  qed
  show ?thesis
    using run upd count_one [of in_id "incidents_t d" x P] keys P mem
    by (auto simp: at_one_row upd_incident_def tx_simps)
qed

text \<open>Insertions.\<close>

lemma at_insert_checkpoint:
  assumes at: "at_slice d0 i l d" and run: "insert_checkpoint i c cp now d = Inr (u, d')"
  shows "sl_cps l c = None" and "at_slice d0 i (l\<lparr>sl_cps := (sl_cps l)(c \<mapsto> cp)\<rparr>) d'"
proof -
  have inv: "tasks_inv d" and l: "slice i d = l" using at by (simp_all add: at_slice_def)
  let ?row = "\<lparr>ck_job_id = i, ck_digest = c, ck_checkpoint = cp, ck_created_at = now\<rparr>"
  have fresh: "List.find (\<lambda>r. ck_job_id r = i \<and> ck_digest r = c) (checkpoints_t d) = None"
    and d': "d' = d\<lparr>checkpoints_t := checkpoints_t d @ [?row]\<rparr>"
    using run by (auto simp: insert_checkpoint_def tx_simps find_None_iff list_ex_iff)
  show "sl_cps l c = None" using fresh l by (auto simp: slice_def)
  have find_app: "List.find P (xs @ [y]) = (case List.find P xs of None \<Rightarrow> if P y then Some y else None | Some z \<Rightarrow> Some z)"
    for P and xs :: "checkpoint_row list" and y by (induction xs) auto
  have "sl_cps (slice k d') = (if k = i then (sl_cps (slice k d))(c \<mapsto> cp) else sl_cps (slice k d))" for k
    using fresh by (auto simp: slice_def d' find_app fun_eq_iff split: option.splits)
  then have "slice k d' = (if k = i then l\<lparr>sl_cps := (sl_cps l)(c \<mapsto> cp)\<rparr> else slice k d)" for k
    using l by (auto simp: slice_def d')
  then show "at_slice d0 i (l\<lparr>sl_cps := (sl_cps l)(c \<mapsto> cp)\<rparr>) d'"
    using at inv tasks_inv_frame [of d' d] by (simp add: at_slice_def keys_ok_def d')
qed

lemma at_insert_transition:
  assumes at: "at_slice d0 i l d" and i: "tr_job_id t = i" and run: "insert_transition t d = Inr (u, d')"
  shows "at_slice d0 i (l\<lparr>sl_trs := sl_trs l @ [t]\<rparr>) d'"
    and "list_all (\<lambda>r. tr_child_digest r \<noteq> tr_child_digest t \<and> tr_parent_digest r \<noteq> tr_parent_digest t) (sl_trs l)"
proof -
  have inv: "tasks_inv d" and l: "slice i d = l" using at by (simp_all add: at_slice_def)
  have d': "d' = d\<lparr>transitions_t := transitions_t d @ [t]\<rparr>"
    and fresh: "\<not> list_ex (\<lambda>r. tr_job_id r = tr_job_id t \<and>
      (tr_child_digest r = tr_child_digest t \<or> tr_parent_digest r = tr_parent_digest t)) (transitions_t d)"
    using run by (auto simp: insert_transition_def tx_simps)
  have "slice k d' = (if k = i then l\<lparr>sl_trs := sl_trs l @ [t]\<rparr> else slice k d)" for k
    using l i by (auto simp: slice_def d')
  then show "at_slice d0 i (l\<lparr>sl_trs := sl_trs l @ [t]\<rparr>) d'"
    using at inv tasks_inv_frame [of d' d] by (simp add: at_slice_def keys_ok_def d')
  show "list_all (\<lambda>r. tr_child_digest r \<noteq> tr_child_digest t \<and> tr_parent_digest r \<noteq> tr_parent_digest t) (sl_trs l)"
    using fresh l i by (auto simp: slice_def list_ex_iff list_all_iff)
qed

lemma at_insert_segment:
  assumes at: "at_slice d0 i l d" and i: "sg_job_id s = i" and run: "insert_segment s d = Inr (u, d')"
  shows "at_slice d0 i (l\<lparr>sl_live := sl_live l \<union> only_if (live_segment_state (sg_state s)) s\<rparr>) d'"
    and "live_segment_state (sg_state s) \<Longrightarrow> sl_live l = {}"
proof -
  have inv: "tasks_inv d" and l: "slice i d = l" using at by (simp_all add: at_slice_def)
  have d': "d' = d\<lparr>segments_t := segments_t d @ [s]\<rparr>" and key: "\<not> has_key sg_id (sg_id s) (segments_t d)"
    and one: "\<not> (live_segment_state (sg_state s) \<and> list_ex (is_live_of (sg_job_id s)) (segments_t d))"
    using run by (auto simp: insert_segment_def tx_simps)
  have "slice k d' = (if k = i then l\<lparr>sl_live := sl_live l \<union> only_if (live_segment_state (sg_state s)) s\<rparr> else slice k d)" for k
    using l i by (auto simp: slice_def d' only_if_def is_live_of_def)
  then show "at_slice d0 i (l\<lparr>sl_live := sl_live l \<union> only_if (live_segment_state (sg_state s)) s\<rparr>) d'"
    using at inv tasks_inv_frame [of d' d] key by (simp add: at_slice_def keys_ok_def d' has_key_set)
  show "live_segment_state (sg_state s) \<Longrightarrow> sl_live l = {}"
    using one l i by (auto simp: slice_def list_ex_iff)
qed

lemma at_insert_attempt:
  assumes at: "at_slice d0 i l d" and i: "at_job_id a = i" "at_state a = ''SENDING''" and run: "insert_attempt a d = Inr (u, d')"
  shows "at_slice d0 i (l\<lparr>sl_sending := {a}\<rparr>) d'" and "sl_sending l = {}"
proof -
  have inv: "tasks_inv d" and l: "slice i d = l" using at by (simp_all add: at_slice_def)
  have d': "d' = d\<lparr>attempts_t := attempts_t d @ [a]\<rparr>" and key: "\<not> has_key at_id (at_id a) (attempts_t d)"
    and one: "\<not> list_ex (is_sending_of (at_job_id a)) (attempts_t d)"
    using run i by (auto simp: insert_attempt_def tx_simps)
  show e: "sl_sending l = {}" using one l i by (auto simp: slice_def list_ex_iff)
  have "slice k d' = (if k = i then l\<lparr>sl_sending := sl_sending l \<union> {a}\<rparr> else slice k d)" for k
    using l i by (auto simp: slice_def d' is_sending_of_def)
  then show "at_slice d0 i (l\<lparr>sl_sending := {a}\<rparr>) d'"
    using at inv tasks_inv_frame [of d' d] key e by (simp add: at_slice_def keys_ok_def d' has_key_set)
qed

lemma at_insert_incident:
  assumes at: "at_slice d0 i l d" and i: "in_job_id n = i" "in_status n = ''OPEN''" and run: "insert_incident n d = Inr (u, d')"
  shows "at_slice d0 i (l\<lparr>sl_open := {n}\<rparr>) d'" and "sl_open l = {}"
proof -
  have inv: "tasks_inv d" and l: "slice i d = l" using at by (simp_all add: at_slice_def)
  have d': "d' = d\<lparr>incidents_t := incidents_t d @ [n]\<rparr>" and key: "\<not> has_key in_id (in_id n) (incidents_t d)"
    and one: "\<not> list_ex (is_open_of (in_job_id n)) (incidents_t d)"
    using run i by (auto simp: insert_incident_def tx_simps)
  show e: "sl_open l = {}" using one l i by (auto simp: slice_def list_ex_iff)
  have "slice k d' = (if k = i then l\<lparr>sl_open := sl_open l \<union> {n}\<rparr> else slice k d)" for k
    using l i by (auto simp: slice_def d' is_open_of_def)
  then show "at_slice d0 i (l\<lparr>sl_open := {n}\<rparr>) d'"
    using at inv tasks_inv_frame [of d' d] key e by (simp add: at_slice_def keys_ok_def d' has_key_set)
qed

text \<open>What \<open>getImportInTx\<close> returns, read off the slice.\<close>

lemma at_get_import:
  assumes at: "at_slice d0 i l d" and run: "get_import_in_tx i d = Inr (job, d')"
  obtains j where "d' = d" "sl_job l = Some j" "sl_meta l = Some (im_task job)" "t_id (im_task job) = i"
    "ij_job_id j = i" "im_checkpoint_digest job = ij_checkpoint_digest j" "im_active job = ij_active_run_segment_id j"
    "im_pause_requested job = ij_pause_requested j"
    "if ij_checkpoint_digest j = '''' then im_checkpoint job = zero_checkpoint
     else sl_cps l (ij_checkpoint_digest j) = Some (im_checkpoint job)"
    "case im_open_incident job of None \<Rightarrow> sl_open l = {} | Some n \<Rightarrow> n \<in> sl_open l"
proof -
  have l: "slice i d = l" using at by (simp add: at_slice_def)
  from run obtain m j pid cp d1 where steps: "tbl_get t_id i (tasks_t d) = Some m"
    "List.find (\<lambda>j. ij_job_id j = i) (import_jobs_t d) = Some j"
    "(if ij_checkpoint_digest j = '''' then tx_return zero_checkpoint else read_checkpoint i (ij_checkpoint_digest j)) d = Inr (cp, d1)"
    "d' = d1"
    and job: "job = \<lparr>im_task = m, im_profile_id = pid, im_checkpoint_digest = ij_checkpoint_digest j,
       im_checkpoint = cp, im_active = ij_active_run_segment_id j, im_pause_requested = ij_pause_requested j,
       im_open_incident = List.find (is_open_of i) (incidents_t d1)\<rparr>"
    unfolding get_import_in_tx_def tx_bind_Inr by (auto simp: read_open_incident_def tx_simps)
  have m: "tbl_get t_id i (tasks_t d) = Some m" by (rule steps(1))
  have d1: "d1 = d" using steps(3) by (auto simp: read_checkpoint_def tx_simps split: if_splits)
  have j: "tbl_get ij_job_id i (import_jobs_t d) = Some j" using steps(2) by (simp add: tbl_get_def)
  show thesis
  proof (rule that [of j])
    show "if ij_checkpoint_digest j = '''' then im_checkpoint job = zero_checkpoint
        else sl_cps l (ij_checkpoint_digest j) = Some (im_checkpoint job)"
      using steps(3) l by (auto simp: job read_checkpoint_def tx_simps slice_def split: if_splits)
    show "case im_open_incident job of None \<Rightarrow> sl_open l = {} | Some n \<Rightarrow> n \<in> sl_open l"
      using l by (auto simp: job d1 slice_def find_None_iff dest: find_SomeD split: option.splits)
  qed (use m j l tbl_get_SomeD [OF m] tbl_get_SomeD [OF j] steps(4) d1 in \<open>auto simp: job slice_def\<close>)
qed

lemma at_count_sending:
  assumes "at_slice d0 i l d" and "count_sending i d = Inr (n, d')"
  shows "d' = d" and "n = 0 \<longleftrightarrow> sl_sending l = {}"
  using assms by (auto simp: count_sending_def tx_simps at_slice_def slice_def tbl_count_0_iff)

text \<open>Rows read by their keys.\<close>

lemma at_sending_row:
  assumes "at_slice d0 i l d" and "r \<in> set (attempts_t d)" and "at_state r = ''SENDING''" and "at_job_id r = i"
  shows "r \<in> sl_sending l"
  using assms by (auto simp: at_slice_def slice_def is_sending_of_def)

lemma at_live_row:
  assumes at: "at_slice d0 i l d" and s: "s \<in> sl_live l" and r: "r \<in> set (segments_t d)" "sg_id r = sg_id s"
  shows "r = s"
proof -
  have "s \<in> set (segments_t d)" "distinct (map sg_id (segments_t d))"
    using at s by (auto simp: at_slice_def slice_def keys_ok_def)
  with r show ?thesis by (metis distinct_map inj_onD)
qed

end
