(* ===== verification/Import_System.thy ===== *)
theory Import_System
  imports Import_Slice
begin

text \<open>
  The invariant of the import engine, and its methods as steps of one job.

  A job rests or runs.  A running job has one live segment at the committed checkpoint and at most one
  attempt in flight, which starts there; the checkpoints of a job form a chain of transitions from its
  first one to the committed one; a job that waits for a decision has an open incident at the committed
  checkpoint.  \<open>slice_step\<close> names what one transaction may do to a job; every transaction of the engine
  is one of these steps on its own job and leaves the others alone.
\<close>

section \<open>Offsets and checkpoints\<close>

definition offset_of :: "string \<Rightarrow> nat option" where
  "offset_of v = map_option dec_val (canonical_big v)"

definition offset_less :: "string \<Rightarrow> string \<Rightarrow> bool" where
  "offset_less u v = (case (offset_of u, offset_of v) of (Some m, Some n) \<Rightarrow> m < n | _ \<Rightarrow> False)"

text \<open>The range \<open>[start_offset, end_offset)\<close> of an attempt or an incident begins where its parent checkpoint ends.\<close>

definition range_ok :: "(string \<rightharpoonup> checkpoint) \<Rightarrow> string \<Rightarrow> string \<Rightarrow> string \<Rightarrow> bool" where
  "range_ok cps parent start end_offset =
     (case cps parent of None \<Rightarrow> False
      | Some p \<Rightarrow> offset_of start = offset_of (cp_logical_offset p) \<and> offset_less (cp_logical_offset p) end_offset)"

text \<open>A reduction of the batch limits keeps the offset; every other transition settles a batch.\<close>

definition keeps_offset :: "transition_row \<Rightarrow> bool" where
  "keeps_offset t = (tr_cause t = ''BATCH_LIMIT_REDUCED'')"

definition advances :: "transition_row \<Rightarrow> checkpoint \<Rightarrow> checkpoint \<Rightarrow> bool" where
  "advances t p c =
     (transfer_increment_decimal (cp_sequence p) = Inr (cp_sequence c) \<and> tr_sequence t = cp_sequence c \<and>
      cp_parent_digest c = tr_parent_digest t \<and>
      (if keeps_offset t
       then cp_logical_offset c = cp_logical_offset p \<and>
         halve_positive_decimal (cp_adaptive_max_points p) = Inr (cp_adaptive_max_points c) \<and>
         halve_positive_decimal (cp_adaptive_max_bytes p) = Inr (cp_adaptive_max_bytes c)
       else offset_less (cp_logical_offset p) (cp_logical_offset c) \<and>
         cp_adaptive_max_points c = cp_adaptive_max_points p \<and> cp_adaptive_max_bytes c = cp_adaptive_max_bytes p) \<and>
      (cp_lossy c \<longleftrightarrow> cp_lossy p \<or> tr_cause t = ''ACCEPT_PARTIAL'') \<and>
      cp_source_sha256 c = cp_source_sha256 p \<and> cp_staging_sha256 c = cp_staging_sha256 p \<and>
      cp_normalization_version c = cp_normalization_version p \<and> cp_spec_digest c = cp_spec_digest p \<and>
      cp_target_digest c = cp_target_digest p)"

definition transition_ok :: "(string \<rightharpoonup> checkpoint) \<Rightarrow> transition_row \<Rightarrow> bool" where
  "transition_ok cps t =
     (case (cps (tr_parent_digest t), cps (tr_child_digest t)) of (Some p, Some c) \<Rightarrow> advances t p c | _ \<Rightarrow> False)"

fun path :: "string \<Rightarrow> transition_row list \<Rightarrow> string \<Rightarrow> bool" where
  "path a [] b = (a = b)"
| "path a (t # ts) b = (tr_parent_digest t = a \<and> path (tr_child_digest t) ts b)"

definition first_digest :: "transition_row list \<Rightarrow> string \<Rightarrow> string" where
  "first_digest ts digest = (case ts of [] \<Rightarrow> digest | t # _ \<Rightarrow> tr_parent_digest t)"

text \<open>A job that is still being staged has no checkpoint; its digest is empty.\<close>

definition chain_ok :: "(string \<rightharpoonup> checkpoint) \<Rightarrow> transition_row list \<Rightarrow> string \<Rightarrow> bool" where
  "chain_ok cps ts digest =
     (digest = '''' \<and> ts = [] \<or>
      path (first_digest ts digest) ts digest \<and> cps digest \<noteq> None \<and> list_all (transition_ok cps) ts)"

lemma path_snoc: "path a (ts @ [t]) b \<longleftrightarrow> path a ts (tr_parent_digest t) \<and> tr_child_digest t = b"
  by (induction ts arbitrary: a) auto

lemma fresh_digest: "cps c = None \<Longrightarrow> cps p = Some x \<Longrightarrow> (cps(c \<mapsto> y)) p = Some x"
  by auto

lemma range_ok_fresh: "range_ok cps p st en \<Longrightarrow> cps c = None \<Longrightarrow> range_ok (cps(c \<mapsto> y)) p st en"
  by (auto simp: range_ok_def split: option.splits)

lemma transition_ok_fresh: "transition_ok cps t \<Longrightarrow> cps c = None \<Longrightarrow> transition_ok (cps(c \<mapsto> y)) t"
  by (auto simp: transition_ok_def split: option.splits)

lemma chain_extend:
  assumes "chain_ok cps ts digest" and "cps digest = Some p" and "cps (tr_child_digest t) = None"
    and "tr_parent_digest t = digest" and "advances t p c"
  shows "chain_ok (cps(tr_child_digest t \<mapsto> c)) (ts @ [t]) (tr_child_digest t)"
proof -
  have "path (first_digest ts digest) ts digest" and ok: "list_all (transition_ok cps) ts"
    using assms(1) by (auto simp: chain_ok_def first_digest_def)
  moreover have "first_digest (ts @ [t]) (tr_child_digest t) = first_digest ts digest"
    using assms(4) by (cases ts) (simp_all add: first_digest_def)
  moreover have "list_all (transition_ok (cps(tr_child_digest t \<mapsto> c))) ts"
    using ok transition_ok_fresh [of cps _ "tr_child_digest t" c] assms(3) by (auto simp: list_all_iff)
  moreover have "transition_ok (cps(tr_child_digest t \<mapsto> c)) t"
    using assms by (auto simp: transition_ok_def)
  ultimately show ?thesis using assms(4) by (simp add: chain_ok_def path_snoc)
qed

section \<open>The invariant\<close>

definition digest_of :: "slice \<Rightarrow> string" where
  "digest_of l = (case sl_job l of None \<Rightarrow> '''' | Some j \<Rightarrow> ij_checkpoint_digest j)"

text \<open>The task of a job says what its row says.\<close>

definition task_is :: "slice \<Rightarrow> string \<Rightarrow> bool" where
  "task_is l st = (case sl_meta l of None \<Rightarrow> False
     | Some m \<Rightarrow> t_state m = st \<and> (t_terminal m \<longleftrightarrow> terminal_import_state st) \<and> t_kind m = ''IMPORT'')"

definition resting :: "slice \<Rightarrow> string \<Rightarrow> bool" where
  "resting l st = (st \<noteq> ImportRunning \<and> task_is l st \<and> sl_live l = {} \<and> sl_sending l = {} \<and>
     (case sl_job l of None \<Rightarrow> False
      | Some j \<Rightarrow> ij_state j = st \<and> ij_active_run_segment_id j = None \<and> \<not> ij_pause_requested j))"

definition in_flight_ok :: "slice \<Rightarrow> segment_row \<Rightarrow> bool" where
  "in_flight_ok l s =
     (case sg_active_attempt_id s of
        None \<Rightarrow> sl_sending l = {} \<and> sg_state s = ''ACTIVE''
      | Some x \<Rightarrow> (\<exists>a\<in>sl_sending l. sl_sending l = {a} \<and> at_id a = x \<and> at_run_segment_id a = sg_id s \<and>
          at_parent_digest a = digest_of l \<and>
          range_ok (sl_cps l) (at_parent_digest a) (at_start_offset a) (at_end_offset a)))"

definition running :: "slice \<Rightarrow> segment_row \<Rightarrow> bool" where
  "running l s = (task_is l ImportRunning \<and> sl_live l = {s} \<and> sg_committed_digest s = digest_of l \<and> in_flight_ok l s \<and>
     live_segment_state (sg_state s) \<and>
     (case sl_job l of None \<Rightarrow> False
      | Some j \<Rightarrow> ij_state j = ImportRunning \<and> ij_active_run_segment_id j = Some (sg_id s) \<and>
          (ij_pause_requested j \<longleftrightarrow> sg_state s = ''STOPPING'')))"

definition kind_of_state :: "string \<Rightarrow> string" where
  "kind_of_state st = (if st = ImportNeedsPartialDecision then ''PARTIAL'' else ''UNKNOWN'')"

definition open_ok :: "slice \<Rightarrow> bool" where
  "open_ok l = (\<forall>n\<in>sl_open l. sl_open l = {n} \<and> (in_kind n = ''PARTIAL'' \<or> in_kind n = ''UNKNOWN'') \<and>
     range_ok (sl_cps l) (in_parent_digest n) (in_start_offset n) (in_end_offset n))"

text \<open>The decision a job waits for is about an incident at its checkpoint.\<close>

definition decision_ok :: "slice \<Rightarrow> string \<Rightarrow> bool" where
  "decision_ok l st = (decision_state st \<longrightarrow>
     (\<exists>n\<in>sl_open l. in_parent_digest n = digest_of l \<and> in_kind n = kind_of_state st))"

definition job_ok :: "slice \<Rightarrow> bool" where
  "job_ok l = (if sl_job l = None then sl_live l = {} \<and> sl_sending l = {} \<and> sl_open l = {} \<and> sl_trs l = []
     else ((\<exists>s. running l s) \<or> (\<exists>st. resting l st \<and> decision_ok l st)) \<and>
       chain_ok (sl_cps l) (sl_trs l) (digest_of l) \<and> open_ok l)"

definition imp_inv :: "db \<Rightarrow> bool" where
  "imp_inv d = (keys_ok d \<and> tasks_inv d \<and> (\<forall>i. job_ok (slice i d)))"

lemma imp_invD: "imp_inv d \<Longrightarrow> keys_ok d" "imp_inv d \<Longrightarrow> tasks_inv d" "imp_inv d \<Longrightarrow> job_ok (slice i d)"
  by (simp_all add: imp_inv_def)

lemma imp_inv_at: "imp_inv d \<Longrightarrow> at_slice d i (slice i d) d"
  by (simp add: at_start imp_inv_def)

lemma imp_inv_moved:
  assumes "imp_inv d" and "at_slice d i l' d'" and "job_ok l'"
  shows "imp_inv d'"
  using assms unfolding imp_inv_def at_slice_def by metis

section \<open>What a transaction may do to a job\<close>

definition same_ledger :: "slice \<Rightarrow> slice \<Rightarrow> bool" where
  "same_ledger l l' = (digest_of l' = digest_of l \<and> sl_cps l' = sl_cps l \<and> sl_trs l' = sl_trs l)"

definition extends_ledger :: "slice \<Rightarrow> transition_row \<Rightarrow> checkpoint \<Rightarrow> slice \<Rightarrow> bool" where
  "extends_ledger l t c l' =
     (tr_parent_digest t = digest_of l \<and> digest_of l' = tr_child_digest t \<and> sl_cps l (tr_child_digest t) = None \<and>
      sl_cps l' = (sl_cps l)(tr_child_digest t \<mapsto> c) \<and> sl_trs l' = sl_trs l @ [t] \<and>
      (case sl_cps l (digest_of l) of None \<Rightarrow> False | Some p \<Rightarrow> advances t p c))"

definition has_job :: "slice \<Rightarrow> bool" where "has_job l = (sl_job l \<noteq> None)"

definition same_range :: "attempt_row \<Rightarrow> incident_row \<Rightarrow> bool" where
  "same_range a n = (in_parent_digest n = at_parent_digest a \<and> in_start_offset n = at_start_offset a \<and>
     in_end_offset n = at_end_offset a \<and> in_payload_digest n = at_payload_digest a)"

text \<open>
  \<open>settles\<close>: the attempt in flight is settled into a child checkpoint; \<open>decided\<close>: an incident is.
\<close>

inductive slice_step :: "slice \<Rightarrow> slice \<Rightarrow> bool" where
  creates: "\<not> has_job l \<Longrightarrow> resting l' ImportReady \<Longrightarrow> sl_open l' = {} \<Longrightarrow> sl_trs l' = [] \<Longrightarrow>
    chain_ok (sl_cps l') [] (digest_of l') \<Longrightarrow> slice_step l l'"
| rests: "has_job l \<Longrightarrow> resting l' st \<Longrightarrow> \<not> decision_state st \<Longrightarrow> same_ledger l l' \<Longrightarrow> sl_open l' = sl_open l \<Longrightarrow>
    slice_step l l'"
| starts: "resting l st \<Longrightarrow> st = ImportReady \<or> st = ImportPausedSafe \<or> decision_state st \<Longrightarrow> running l' s \<Longrightarrow>
    sl_sending l' = {} \<Longrightarrow> same_ledger l l' \<Longrightarrow> sl_open l' = sl_open l \<Longrightarrow> slice_step l l'"
| sends: "running l s \<Longrightarrow> sl_sending l = {} \<Longrightarrow> running l' s' \<Longrightarrow> sg_id s' = sg_id s \<Longrightarrow> sl_sending l' = {a} \<Longrightarrow>
    same_ledger l l' \<Longrightarrow> sl_open l' = sl_open l \<Longrightarrow> slice_step l l'"
| stops: "running l s \<Longrightarrow> running l' s' \<Longrightarrow> sg_id s' = sg_id s \<Longrightarrow> sg_state s' = ''STOPPING'' \<Longrightarrow> sl_sending l' = sl_sending l \<Longrightarrow>
    same_ledger l l' \<Longrightarrow> sl_open l' = sl_open l \<Longrightarrow> slice_step l l'"
| returns: "running l s \<Longrightarrow> sl_sending l = {a} \<Longrightarrow> running l' s' \<Longrightarrow> sg_id s' = sg_id s \<Longrightarrow> sl_sending l' = {} \<Longrightarrow>
    same_ledger l l' \<Longrightarrow> sl_open l' = sl_open l \<Longrightarrow> slice_step l l'"
| settles: "running l s \<Longrightarrow> sl_sending l = {a} \<Longrightarrow> extends_ledger l t c l' \<Longrightarrow> tr_attempt_id t = at_id a \<Longrightarrow>
    tr_cause t = ''BATCH_LIMIT_REDUCED'' \<or>
      (tr_cause t = ''ACK'' \<or> tr_cause t = ''REPLAY_ACK'') \<and> cp_logical_offset c = at_end_offset a \<Longrightarrow>
    (running l' s' \<and> sg_id s' = sg_id s \<and> sl_sending l' = {}) \<or> (resting l' st \<and> \<not> decision_state st) \<Longrightarrow>
    sl_open l' = (if tr_cause t = ''REPLAY_ACK'' then {} else sl_open l) \<Longrightarrow> slice_step l l'"
| doubts: "running l s \<Longrightarrow> sl_sending l = {a} \<Longrightarrow> resting l' st \<Longrightarrow> decision_state st \<Longrightarrow> same_ledger l l' \<Longrightarrow>
    sl_open l' = {n} \<Longrightarrow> same_range a n \<Longrightarrow> in_kind n = kind_of_state st \<Longrightarrow> slice_step l l'"
| undoes: "running l s \<Longrightarrow> sl_sending l = {} \<Longrightarrow> resting l' st \<Longrightarrow> decision_ok l' st \<Longrightarrow> same_ledger l l' \<Longrightarrow>
    sl_open l' = sl_open l \<Longrightarrow> slice_step l l'"
| decides: "resting l st \<Longrightarrow> decision_state st \<Longrightarrow> sl_open l = {n} \<Longrightarrow> extends_ledger l t c l' \<Longrightarrow> tr_incident_id t = in_id n \<Longrightarrow>
    tr_cause t = ''ASSUME_COMMITTED'' \<or> tr_cause t = ''ACCEPT_PARTIAL'' \<Longrightarrow> cp_logical_offset c = in_end_offset n \<Longrightarrow>
    (running l' s' \<and> sl_sending l' = {}) \<or> resting l' ImportPausedSafe \<Longrightarrow> sl_open l' = {} \<Longrightarrow> slice_step l l'"
| aborts: "resting l st \<Longrightarrow> decision_state st \<Longrightarrow> resting l' ImportAborted \<Longrightarrow> same_ledger l l' \<Longrightarrow> sl_open l' = {} \<Longrightarrow>
    slice_step l l'"

lemma running_has_job: "running l s \<Longrightarrow> has_job l" "resting l st \<Longrightarrow> has_job l"
  by (auto simp: running_def resting_def has_job_def split: option.splits)

lemma same_ledger_parts:
  assumes "same_ledger l l'"
  shows "chain_ok (sl_cps l') (sl_trs l') (digest_of l') = chain_ok (sl_cps l) (sl_trs l) (digest_of l)"
    and "sl_open l' = sl_open l \<Longrightarrow> open_ok l' = open_ok l" and "sl_open l' = {} \<Longrightarrow> open_ok l'"
  using assms by (simp_all add: same_ledger_def open_ok_def)

lemma extends_ledger_parts:
  assumes "extends_ledger l t c l'" and "chain_ok (sl_cps l) (sl_trs l) (digest_of l)"
  shows "chain_ok (sl_cps l') (sl_trs l') (digest_of l')"
    and "open_ok l \<Longrightarrow> sl_open l' = sl_open l \<or> sl_open l' = {} \<Longrightarrow> open_ok l'"
proof -
  obtain p where p: "sl_cps l (digest_of l) = Some p" "advances t p c"
    using assms(1) by (auto simp: extends_ledger_def split: option.splits)
  show "chain_ok (sl_cps l') (sl_trs l') (digest_of l')"
    using chain_extend [OF assms(2) p(1) _ _ p(2)] assms(1) by (simp add: extends_ledger_def)
  show "open_ok l'" if "open_ok l" "sl_open l' = sl_open l \<or> sl_open l' = {}"
  proof -
    have "range_ok (sl_cps l) p st en \<Longrightarrow> range_ok (sl_cps l') p st en" for p st en
      using assms(1) range_ok_fresh [of "sl_cps l" p st en "tr_child_digest t" c] by (simp add: extends_ledger_def)
    with that show ?thesis unfolding open_ok_def by (elim disjE) simp_all
  qed
qed

lemma job_ok_parts:
  assumes "job_ok l" and "has_job l"
  shows "chain_ok (sl_cps l) (sl_trs l) (digest_of l)" and "open_ok l"
  using assms by (auto simp: job_ok_def has_job_def)

lemma job_okI:
  assumes "(\<exists>s. running l s) \<or> (\<exists>st. resting l st \<and> decision_ok l st)"
    and "chain_ok (sl_cps l) (sl_trs l) (digest_of l)" and "open_ok l"
  shows "job_ok l"
proof -
  have "has_job l" using assms(1) running_has_job by blast
  then have "sl_job l \<noteq> None" by (simp add: has_job_def)
  with assms show ?thesis unfolding job_ok_def by (simp only: if_False simp_thms)
qed

lemma not_decision_ok: "\<not> decision_state st \<Longrightarrow> decision_ok l st"
  by (simp add: decision_ok_def)

lemma in_flight_range:
  assumes "running l s" and "sl_sending l = {a}"
  shows "range_ok (sl_cps l) (at_parent_digest a) (at_start_offset a) (at_end_offset a)"
    and "at_parent_digest a = digest_of l" and "at_run_segment_id a = sg_id s" and "sg_active_attempt_id s = Some (at_id a)"
  using assms by (auto simp: running_def in_flight_ok_def split: option.splits)

lemma doubt_ok:
  assumes "running l s" and "sl_sending l = {a}" and "same_ledger l l'" and "sl_open l' = {n}" and "same_range a n"
    and "in_kind n = kind_of_state st"
  shows "open_ok l'" and "decision_ok l' st"
  using in_flight_range [OF assms(1,2)] assms(3-6)
  by (auto simp: open_ok_def decision_ok_def same_ledger_def same_range_def kind_of_state_def)

lemma slice_step_ok:
  assumes "slice_step l l'" and ok: "job_ok l"
  shows "job_ok l'"
  using assms(1)
proof cases
  case creates
  then have "open_ok l'" "decision_ok l' ImportReady" by (simp_all add: open_ok_def decision_ok_def decision_state_def)
  with creates show ?thesis by (intro job_okI) auto
next
  case (rests st)
  then show ?thesis using job_ok_parts [OF ok] same_ledger_parts [of l l'] by (intro job_okI) (auto intro: not_decision_ok)
next
  case (starts st s)
  then show ?thesis using job_ok_parts [OF ok] running_has_job(2) same_ledger_parts [of l l'] by (intro job_okI) auto
next
  case (sends s s' a)
  then show ?thesis using job_ok_parts [OF ok] running_has_job(1) same_ledger_parts [of l l'] by (intro job_okI) auto
next
  case (stops s s')
  then show ?thesis using job_ok_parts [OF ok] running_has_job(1) same_ledger_parts [of l l'] by (intro job_okI) auto
next
  case (returns s a s')
  then show ?thesis using job_ok_parts [OF ok] running_has_job(1) same_ledger_parts [of l l'] by (intro job_okI) auto
next
  case (settles s a t c s' st)
  have "sl_open l' = sl_open l \<or> sl_open l' = {}" using settles(7) by auto
  with settles show ?thesis using job_ok_parts [OF ok] running_has_job(1) extends_ledger_parts [of l t c l']
    by (intro job_okI) (auto intro: not_decision_ok)
next
  case (doubts s a st n)
  then show ?thesis using job_ok_parts(1) [OF ok] running_has_job(1) [of l s] same_ledger_parts(1) [of l l'] doubt_ok
    by (intro job_okI) blast+
next
  case (undoes s st)
  then show ?thesis using job_ok_parts [OF ok] running_has_job(1) same_ledger_parts [of l l'] by (intro job_okI) auto
next
  case (decides st n t c s')
  have "\<not> decision_state ImportPausedSafe" by (simp add: decision_state_def)
  with decides show ?thesis using job_ok_parts [OF ok] running_has_job(2) extends_ledger_parts [of l t c l']
    by (intro job_okI) (auto intro: not_decision_ok)
next
  case (aborts st)
  have "\<not> decision_state ImportAborted" by (simp add: decision_state_def)
  with aborts show ?thesis using job_ok_parts [OF ok] running_has_job(2) same_ledger_parts [of l l']
    by (intro job_okI) (auto intro: not_decision_ok)
qed

end
