(* ===== verification/Import_Steps.thy ===== *)
theory Import_Steps
  imports Import_System
begin

text \<open>
  Every transaction of the import engine is a step of \<open>slice_step\<close> on its own job.  The proofs run the
  transaction statement by statement on the slice of the job with the \<open>at_\<close> rules.
\<close>

definition moves :: "string \<Rightarrow> db \<Rightarrow> db \<Rightarrow> bool" where
  "moves i d d' = (at_slice d i (slice i d') d' \<and> (slice i d' = slice i d \<or> slice_step (slice i d) (slice i d')))"

lemma movesI: "at_slice d i l d' \<Longrightarrow> slice_step (slice i d) l \<Longrightarrow> moves i d d'"
  by (auto simp: moves_def at_slice_def)

lemma moves_refl: "imp_inv d \<Longrightarrow> moves i d d"
  by (simp add: moves_def imp_inv_at)

lemma moves_inv: "imp_inv d \<Longrightarrow> moves i d d' \<Longrightarrow> imp_inv d'"
  using imp_inv_moved slice_step_ok imp_invD(3) by (metis moves_def)

section \<open>The attempt in flight\<close>

lemma find_key: "List.find (\<lambda>r. key r = k) rows = tbl_get key k rows"
  by (simp add: tbl_get_def)

lemma attempt_job_Inr: "attempt_job a d = Inr i \<longleftrightarrow> (\<exists>r. tbl_get at_id a (attempts_t d) = Some r \<and> at_job_id r = i)"
  by (auto simp: attempt_job_def split: option.splits)

lemma running_slice:
  assumes inv: "imp_inv d" and a: "r \<in> sl_sending (slice i d)"
  obtains s where "running (slice i d) s" "sl_sending (slice i d) = {r}"
proof -
  have ok: "job_ok (slice i d)" using inv by (rule imp_invD)
  have "sl_job (slice i d) \<noteq> None" using ok a by (auto simp: job_ok_def split: if_splits)
  with ok a obtain s where s: "running (slice i d) s" by (auto simp: job_ok_def resting_def)
  then have "sl_sending (slice i d) = {r}" using a by (auto simp: running_def in_flight_ok_def split: option.splits)
  with s that show thesis by blast
qed

lemma live_job: "s \<in> sl_live (slice i d) \<Longrightarrow> sg_job_id s = i"
  by (simp add: slice_def is_live_of_def)

section \<open>Running a transaction\<close>

text \<open>\<open>post m d Q\<close>: if \<open>m\<close> commits from \<open>d\<close>, its result and state satisfy \<open>Q\<close>.\<close>

definition post :: "('s, 'a) tx \<Rightarrow> 's \<Rightarrow> ('a \<Rightarrow> 's \<Rightarrow> bool) \<Rightarrow> bool" where
  "post m d Q \<longleftrightarrow> (\<forall>a d'. m d = Inr (a, d') \<longrightarrow> Q a d')"

lemma postI: "(\<And>a d'. m d = Inr (a, d') \<Longrightarrow> Q a d') \<Longrightarrow> post m d Q"
  by (simp add: post_def)

lemma postD: "post m d Q \<Longrightarrow> m d = Inr (a, d') \<Longrightarrow> Q a d'"
  by (simp add: post_def)

lemma post_bind: "post m d (\<lambda>a d'. post (f a) d' Q) \<Longrightarrow> post (tx_bind m f) d Q"
  by (auto simp: post_def tx_bind_Inr)

lemma post_atomic:
  "Q1 a d \<Longrightarrow> post (tx_return a) d Q1"
  "(b \<Longrightarrow> Q2 () d) \<Longrightarrow> post (tx_require b e) d Q2"
  "(\<And>x. v = Inr x \<Longrightarrow> Q3 x d) \<Longrightarrow> post (tx_lift v) d Q3"
  "Q4 (g d) d \<Longrightarrow> post (tx_get g) d Q4"
  "(\<And>r. List.find p (tbl d) = Some r \<Longrightarrow> Q5 r d) \<Longrightarrow> post (tx_query_row tbl p) d Q5"
  "post (tx_fail e) d Q6"
  by (auto simp: post_def tx_simps)

lemma post_if: "(b \<Longrightarrow> post m d Q) \<Longrightarrow> (\<not> b \<Longrightarrow> post n d Q) \<Longrightarrow> post (if b then m else n) d Q"
  by simp

lemma post_quiet:
  assumes "at_slice d0 i l d" and "\<And>u d'. at_slice d0 i l d' \<Longrightarrow> Q u d'"
  shows "post (set_transfer_state j st now) d Q"
  by (rule postI, erule assms(2) [OF at_quiet(1) [OF assms(1)]])

lemma post_quiet_unit:
  assumes "at_slice d0 i l d" and "\<And>u d'. at_slice d0 i l d' \<Longrightarrow> Q u d'"
  shows "post (insert_audit action target digest outcome cid now) d Q"
    and "post (insert_command_in_tx e) d Q"
    and "post (insert_idempotency_in_tx ie) d Q"
    and "post (tx_insert transfer_jobs_t transfer_jobs_t_update ok row) d Q"
  by (rule postI, erule assms(2) [OF at_quiet(2) [OF assms(1)]])
    (rule postI, erule assms(2) [OF at_quiet(3) [OF assms(1)]],
     rule postI, erule assms(2) [OF at_quiet(4) [OF assms(1)]],
     rule postI, erule assms(2) [OF at_quiet(8) [OF assms(1)]])

lemma post_quiet_count:
  assumes "at_slice d0 i l d" and "\<And>u d'. at_slice d0 i l d' \<Longrightarrow> Q u d'"
  shows "post (tx_update transfer_jobs_t transfer_jobs_t_update P1 f1) d Q"
    and "post (tx_delete reservations_t reservations_t_update P2) d Q"
  by (rule postI, erule assms(2) [OF at_quiet(5) [OF assms(1)]])
    (rule postI, erule assms(2) [OF at_quiet(6) [OF assms(1)]])

lemma post_quiet_command:
  assumes "at_slice d0 i l d" and "\<And>u d'. at_slice d0 i l d' \<Longrightarrow> Q u d'"
  shows "post (one_row (tx_update command_t command_t_update P f) e) d Q"
  using assms at_quiet(7) by (auto intro!: postI simp: at_one_row)

lemma post_apply:
  assumes "at_slice d0 i l d" and "sl_meta l = Some cur"
    and "\<And>m d'. at_slice d0 i (l\<lparr>sl_meta := Some m\<rparr>) d' \<Longrightarrow>
      t_state m = (if ch_state ch \<noteq> [] then ch_state ch else t_state cur) \<Longrightarrow> t_terminal m = ch_terminal ch \<Longrightarrow>
      t_kind m = t_kind cur \<Longrightarrow> Q m d'"
  shows "post (apply_in_tx tn cur ch) d Q"
proof (rule postI)
  fix m d' assume "apply_in_tx tn cur ch d = Inr (m, d')"
  note ap = at_apply [OF assms(1,2) this]
  show "Q m d'" by (rule assms(3) [OF ap(1-4)])
qed

lemma post_job:
  assumes "at_slice d0 i l d" and "sl_job l = Some j" and "\<And>r. P r \<Longrightarrow> ij_job_id r = i"
    and "\<And>r. ij_job_id (f r) = ij_job_id r"
    and "\<And>d'. P j \<Longrightarrow> at_slice d0 i (l\<lparr>sl_job := Some (f j)\<rparr>) d' \<Longrightarrow> Q () d'"
  shows "post (one_row (upd_job P f) e) d Q"
proof (rule postI)
  fix u d' assume "one_row (upd_job P f) e d = Inr (u, d')"
  note jb = at_job(1) [OF assms(1-4) this]
  show "Q u d'" using assms(5) jb by simp
qed

lemma post_job_all:
  assumes "at_slice d0 i l d" and "sl_job l = Some j" and "ij_job_id j = i" and "\<And>r. ij_job_id (f r) = ij_job_id r"
    and "\<And>n d'. at_slice d0 i (l\<lparr>sl_job := Some (f j)\<rparr>) d' \<Longrightarrow> Q n d'"
  shows "post (upd_job (\<lambda>r. ij_job_id r = i) f) d Q"
proof (rule postI)
  fix n d' assume "upd_job (\<lambda>r. ij_job_id r = i) f d = Inr (n, d')"
  from at_job(2) [OF assms(1,2) _ assms(4) this assms(3)] show "Q n d'" by (intro assms(5)) simp
qed

lemma post_settle_job:
  assumes "at_slice d0 i l d" and "sl_job l = Some j" and "\<And>r. ij_job_id (f r) = ij_job_id r"
    and "\<And>d'. at_slice d0 i (l\<lparr>sl_job := Some (f j)\<rparr>) d' \<Longrightarrow> Q () d'"
  shows "post (settle_job_tx i parent segment f) d Q"
  unfolding settle_job_tx_def by (rule post_job [OF assms(1,2) _ assms(3)]) (auto intro: assms(4))

lemma post_segment:
  assumes at: "at_slice d0 i l d" and s: "sl_live l = {s}" and P: "\<And>r. P r \<Longrightarrow> sg_id r = sg_id s"
    and f: "\<And>r. sg_id (f r) = sg_id r" "\<And>r. sg_job_id (f r) = sg_job_id r"
    and Q: "\<And>d'. P s \<Longrightarrow> at_slice d0 i (l\<lparr>sl_live := only_if (live_segment_state (sg_state (f s))) (f s)\<rparr>) d' \<Longrightarrow> Q () d'"
  shows "post (one_row (upd_segment P f) e) d Q"
proof -
  have mem: "s \<in> sl_live l" and "sg_job_id s = i" using at s live_job [of s i d] by (simp_all add: at_slice_def)
  then have job: "sg_job_id (f s) = i" by (simp add: f(2))
  show ?thesis
  proof (rule postI)
    fix u d' assume "one_row (upd_segment P f) e d = Inr (u, d')"
    from at_segment(1) [OF at mem P f(1) job this] show "Q u d'" using Q s by simp
  qed
qed

lemma post_segment_all:
  assumes at: "at_slice d0 i l d" and s: "sl_live l = {s}" and P: "\<And>r. P r \<Longrightarrow> sg_id r = sg_id s" "P s"
    and f: "\<And>r. sg_id (f r) = sg_id r" "\<And>r. sg_job_id (f r) = sg_job_id r"
    and Q: "\<And>n d'. at_slice d0 i (l\<lparr>sl_live := only_if (live_segment_state (sg_state (f s))) (f s)\<rparr>) d' \<Longrightarrow> Q n d'"
  shows "post (upd_segment P f) d Q"
proof -
  have mem: "s \<in> sl_live l" and "sg_job_id s = i" using at s live_job [of s i d] by (simp_all add: at_slice_def)
  then have job: "sg_job_id (f s) = i" by (simp add: f(2))
  show ?thesis
  proof (rule postI)
    fix n d' assume "upd_segment P f d = Inr (n, d')"
    from at_segment(2) [OF at mem P(1) f(1) job this P(2)] show "Q n d'" using Q s by simp
  qed
qed

lemma post_settle_segment:
  assumes "at_slice d0 i l d" and "sl_live l = {s}" and "sg_id s = segment"
    and "\<And>r. sg_id (f r) = sg_id r" "\<And>r. sg_job_id (f r) = sg_job_id r"
    and "\<And>d'. at_slice d0 i (l\<lparr>sl_live := only_if (live_segment_state (sg_state (f s))) (f s)\<rparr>) d' \<Longrightarrow> Q () d'"
  shows "post (settle_segment_tx i segment parent a f) d Q"
  unfolding settle_segment_tx_def by (rule post_segment [OF assms(1,2) _ assms(4,5)]) (use assms(3,6) in auto)

lemma post_attempt:
  assumes at: "at_slice d0 i l d" and a: "sl_sending l = {a}" and P: "\<And>r. P r \<Longrightarrow> at_id r = at_id a"
    and f: "\<And>r. at_id (f r) = at_id r" "\<And>r. at_job_id (f r) = at_job_id r" "at_state (f a) \<noteq> ''SENDING''"
    and Q: "\<And>d'. at_slice d0 i (l\<lparr>sl_sending := {}\<rparr>) d' \<Longrightarrow> Q () d'"
  shows "post (one_row (upd_attempt P f) e) d Q"
proof -
  have mem: "a \<in> sl_sending l" using a by simp
  then have "at_job_id a = i" using at by (auto simp: at_slice_def slice_def is_sending_of_def)
  then have job: "at_job_id (f a) = i" by (simp add: f(2))
  show ?thesis
  proof (rule postI)
    fix u d' assume "one_row (upd_attempt P f) e d = Inr (u, d')"
    from at_attempt(1) [OF at mem P f(1) job this] show "Q u d'" using Q a f(3) by simp
  qed
qed

lemma post_insert_checkpoint:
  assumes "at_slice d0 i l d" and "\<And>d'. sl_cps l c = None \<Longrightarrow> at_slice d0 i (l\<lparr>sl_cps := (sl_cps l)(c \<mapsto> cp)\<rparr>) d' \<Longrightarrow> Q () d'"
  shows "post (insert_checkpoint i c cp now) d Q"
  using at_insert_checkpoint [OF assms(1)] assms(2) by (auto intro!: postI)

lemma post_insert_transition:
  assumes "at_slice d0 i l d" and "tr_job_id t = i" and "\<And>d'. at_slice d0 i (l\<lparr>sl_trs := sl_trs l @ [t]\<rparr>) d' \<Longrightarrow> Q () d'"
  shows "post (insert_transition t) d Q"
  using at_insert_transition(1) [OF assms(1,2)] assms(3) by (auto intro!: postI)

text \<open>Reading.\<close>

lemma get_import_same: "get_import_in_tx i d = Inr (job, d') \<Longrightarrow> d' = d"
  by (auto simp: get_import_in_tx_def read_open_incident_def read_checkpoint_def tx_simps split: if_splits)

lemma post_get_import: "(\<And>job. get_import_in_tx i d = Inr (job, d) \<Longrightarrow> Q job d) \<Longrightarrow> post (get_import_in_tx i) d Q"
  by (rule postI) (metis get_import_same)

lemma post_sending_attempt:
  "(\<And>r. tbl_get at_id a (attempts_t d) = Some r \<Longrightarrow> at_state r = ''SENDING'' \<Longrightarrow> Q r d) \<Longrightarrow> post (sending_attempt_tx a) d Q"
  by (auto simp: post_def sending_attempt_tx_def tx_simps find_key)

lemma post_running_job:
  assumes "\<And>job. get_import_in_tx i d = Inr (job, d) \<Longrightarrow> im_checkpoint_digest job = at_parent_digest r \<Longrightarrow>
    active_is (at_run_segment_id r) job \<Longrightarrow> Q job d"
  shows "post (running_job_tx i r) d Q"
  unfolding running_job_tx_def
  by (intro post_bind post_get_import post_atomic) (use assms in blast)

lemma post_segment_row:
  "(\<And>s. s \<in> set (segments_t d) \<Longrightarrow> sg_job_id s = i \<Longrightarrow> sg_id s = segment \<Longrightarrow> Q s d) \<Longrightarrow> post (segment_row_tx i segment) d Q"
  by (auto simp: post_def segment_row_tx_def tx_simps dest: find_SomeD)

lemma post_attempt_with_segment:
  assumes "\<And>r s. tbl_get at_id a (attempts_t d) = Some r \<Longrightarrow> s \<in> set (segments_t d) \<Longrightarrow> sg_id s = at_run_segment_id r \<Longrightarrow> Q (r, s) d"
  shows "post (attempt_with_segment_tx a) d Q"
  unfolding attempt_with_segment_tx_def
  by (intro post_bind post_atomic) (use assms in \<open>auto simp: find_key dest: tbl_get_SomeD\<close>)

text \<open>What is known of the job, its segment and the attempt when the attempt settles.\<close>

definition settling :: "string \<Rightarrow> db \<Rightarrow> attempt_row \<Rightarrow> import_job \<Rightarrow> segment_row \<Rightarrow> import_job_row \<Rightarrow> bool" where
  "settling i d r job s j = (imp_inv d \<and> running (slice i d) s \<and> sl_sending (slice i d) = {r} \<and> sl_live (slice i d) = {s} \<and>
     sl_job (slice i d) = Some j \<and> sl_meta (slice i d) = Some (im_task job) \<and> t_kind (im_task job) = ''IMPORT'' \<and>
     t_state (im_task job) = ImportRunning \<and> t_id (im_task job) = i \<and>
     ij_job_id j = i \<and> ij_state j = ImportRunning \<and> ij_checkpoint_digest j = at_parent_digest r \<and>
     im_checkpoint_digest job = at_parent_digest r \<and> ij_active_run_segment_id j = Some (sg_id s) \<and>
     at_run_segment_id r = sg_id s \<and> sg_active_attempt_id s = Some (at_id r) \<and> sg_job_id s = i \<and>
     sg_committed_digest s = at_parent_digest r \<and> live_segment_state (sg_state s) \<and>
     (ij_pause_requested j \<longleftrightarrow> sg_state s = ''STOPPING'') \<and> (im_pause_requested job \<longleftrightarrow> sg_state s = ''STOPPING'') \<and>
     digest_of (slice i d) = at_parent_digest r \<and>
     (if at_parent_digest r = '''' then im_checkpoint job = zero_checkpoint
      else sl_cps (slice i d) (at_parent_digest r) = Some (im_checkpoint job)) \<and>
     (case im_open_incident job of None \<Rightarrow> sl_open (slice i d) = {} | Some n \<Rightarrow> n \<in> sl_open (slice i d)))"

lemma settlingI:
  assumes inv: "imp_inv d" and job: "attempt_job a d = Inr i" and row: "tbl_get at_id a (attempts_t d) = Some r"
    and st: "at_state r = ''SENDING''" and run: "get_import_in_tx i d = Inr (job, d)"
    and s: "s \<in> set (segments_t d)" "sg_id s = at_run_segment_id r"
  shows "\<exists>j. settling i d r job s j" and "at_id r = a"
proof -
  let ?l = "slice i d"
  have r: "r \<in> set (attempts_t d)" "at_id r = a" using tbl_get_SomeD [OF row] by simp_all
  show "at_id r = a" by (rule r(2))
  have i: "at_job_id r = i" using job row by (simp add: attempt_job_Inr)
  have sending: "r \<in> sl_sending ?l" using at_sending_row [OF imp_inv_at [OF inv] r(1) st i] .
  obtain s0 where s0: "running ?l s0" "sl_sending ?l = {r}" using running_slice [OF inv sending] .
  have live: "sl_live ?l = {s0}" using s0(1) by (simp add: running_def)
  note fl = in_flight_range [OF s0]
  have eq: "s = s0" using at_live_row [OF imp_inv_at [OF inv], of s0 i s] live s fl(3) by simp
  obtain j where j: "sl_job ?l = Some j" "sl_meta ?l = Some (im_task job)" "t_id (im_task job) = i"
    "ij_job_id j = i" "im_checkpoint_digest job = ij_checkpoint_digest j" "im_pause_requested job = ij_pause_requested j"
    "if ij_checkpoint_digest j = '''' then im_checkpoint job = zero_checkpoint
     else sl_cps ?l (ij_checkpoint_digest j) = Some (im_checkpoint job)"
    "case im_open_incident job of None \<Rightarrow> sl_open ?l = {} | Some n \<Rightarrow> n \<in> sl_open ?l"
    by (rule at_get_import [OF imp_inv_at [OF inv] run]) blast
  have dg: "digest_of ?l = ij_checkpoint_digest j" using j(1) by (simp add: digest_of_def)
  have "settling i d r job s j"
    using s0 fl j live dg r i live_job [of s i d] inv unfolding eq settling_def by (auto simp: running_def task_is_def)
  then show "\<exists>j. settling i d r job s j" by blast
qed

text \<open>The job after its attempt.\<close>

lemma running_after:
  assumes "sl_job l = Some j" and "ij_state j = ImportRunning" and "ij_active_run_segment_id j = Some (sg_id s)"
    and "\<not> ij_pause_requested j" and "ij_checkpoint_digest j = sg_committed_digest s" and "sl_live l = {s}"
    and "sl_sending l = {}" and "sg_state s = ''ACTIVE''" and "sg_active_attempt_id s = None" and "task_is l ImportRunning"
  shows "running l s"
  using assms by (simp add: running_def in_flight_ok_def digest_of_def live_segment_state_def)

lemma resting_after:
  assumes "sl_job l = Some j" and "ij_state j = st" and "ij_active_run_segment_id j = None"
    and "\<not> ij_pause_requested j" and "sl_live l = {}" and "sl_sending l = {}" and "st \<noteq> ImportRunning" and "task_is l st"
  shows "resting l st"
  using assms by (simp add: resting_def)

lemma task_isI: "sl_meta l = Some m \<Longrightarrow> t_state m = st \<Longrightarrow> t_terminal m = terminal_import_state st \<Longrightarrow> t_kind m = ''IMPORT'' \<Longrightarrow> task_is l st"
  by (simp add: task_is_def)

lemma zero_no_child: "next_checkpoint parent offset batch disposition zero_checkpoint \<noteq> Inr c"
  by (simp add: next_checkpoint_def zero_checkpoint_def transfer_increment_decimal_def transfer_canonical_decimal_def
      canonical_big_def parse_digits_def)

lemma child_advances:
  assumes "next_checkpoint parent offset batch disposition p = Inr c" and "offset_less (cp_logical_offset p) offset"
    and "tr_parent_digest t = parent" and "tr_sequence t = cp_sequence c"
    and "tr_cause t \<noteq> ''BATCH_LIMIT_REDUCED''" and "tr_cause t \<noteq> ''ACCEPT_PARTIAL''"
  shows "advances t p c" and "cp_logical_offset c = offset"
  using assms by (auto simp: next_checkpoint_def rbind_Inr_iff advances_def keeps_offset_def)

definition goes_on :: "string \<Rightarrow> db \<Rightarrow> string \<Rightarrow> string \<Rightarrow> string \<Rightarrow> db \<Rightarrow> bool" where
  "goes_on i d segment parent child d' = (\<exists>s s'. running (slice i d) s \<and> running (slice i d') s' \<and> sg_id s = segment \<and>
     sg_id s' = segment \<and> sg_committed_digest s = parent \<and> sg_committed_digest s' = child)"

lemma settlingD:
  assumes "settling i d r jb s j"
  shows "imp_inv d" and "running (slice i d) s" and "sl_sending (slice i d) = {r}" and "sl_live (slice i d) = {s}"
    and "sl_job (slice i d) = Some j" and "sl_meta (slice i d) = Some (im_task jb)" and "t_kind (im_task jb) = ''IMPORT''"
    and "t_id (im_task jb) = i" and "ij_job_id j = i" and "at_run_segment_id r = sg_id s"
    and "sg_active_attempt_id s = Some (at_id r)" and "sg_committed_digest s = at_parent_digest r"
    and "im_pause_requested jb \<longleftrightarrow> sg_state s = ''STOPPING''" and "digest_of (slice i d) = at_parent_digest r"
    and "live_segment_state (sg_state s)" and "im_checkpoint_digest jb = at_parent_digest r"
    and "ij_state j = ImportRunning" and "t_state (im_task jb) = ImportRunning"
    and "ij_active_run_segment_id j = Some (sg_id s)"
    and "case im_open_incident jb of None \<Rightarrow> sl_open (slice i d) = {} | Some n \<Rightarrow> n \<in> sl_open (slice i d)"
  using assms by (simp_all add: settling_def)

lemma settling_child:
  assumes ctx: "settling i d r jb s j"
    and nxt: "next_checkpoint (at_parent_digest r) (at_end_offset r) batch disposition (im_checkpoint jb) = Inr c"
  shows "sl_cps (slice i d) (at_parent_digest r) = Some (im_checkpoint jb)"
    and "offset_less (cp_logical_offset (im_checkpoint jb)) (at_end_offset r)"
proof -
  have "at_parent_digest r \<noteq> ''''" using nxt zero_no_child ctx by (auto simp: settling_def)
  then show cp: "sl_cps (slice i d) (at_parent_digest r) = Some (im_checkpoint jb)" using ctx by (simp add: settling_def)
  show "offset_less (cp_logical_offset (im_checkpoint jb)) (at_end_offset r)"
    using in_flight_range(1) [of "slice i d" s r] settlingD(2,3) [OF ctx] cp by (simp add: range_ok_def)
qed

text \<open>The end of a transaction that settles the attempt into a child checkpoint.\<close>

lemma settle_moves:
  assumes ctx: "settling i d r jb s j" and at: "at_slice d i l' d'" and t: "t = last (sl_trs l')"
    and child: "sl_cps (slice i d) (digest_of l') = None" "sl_cps l' = (sl_cps (slice i d))(digest_of l' \<mapsto> c)"
      "sl_trs l' = sl_trs (slice i d) @ [t]"
    and t: "tr_parent_digest t = at_parent_digest r" "tr_child_digest t = digest_of l'" "tr_attempt_id t = at_id r"
    and adv: "sl_cps (slice i d) (at_parent_digest r) = Some p" "advances t p c"
    and cause: "tr_cause t = ''BATCH_LIMIT_REDUCED'' \<or>
      (tr_cause t = ''ACK'' \<or> tr_cause t = ''REPLAY_ACK'') \<and> cp_logical_offset c = at_end_offset r"
    and to: "(running l' s' \<and> sg_id s' = sg_id s \<and> sl_sending l' = {}) \<or> (resting l' st \<and> \<not> decision_state st)"
    and op: "sl_open l' = (if tr_cause t = ''REPLAY_ACK'' then {} else sl_open (slice i d))"
  shows "moves i d d'"
proof (rule movesI [OF at])
  have "extends_ledger (slice i d) t c l'"
    using settlingD(14) [OF ctx] child t adv by (simp add: extends_ledger_def)
  then show "slice_step (slice i d) l'"
    using settles [OF settlingD(2,3) [OF ctx] _ t(3) cause to op] by blast
qed

lemma at_sliceD: "at_slice d0 i l d \<Longrightarrow> slice i d = l"
  by (simp add: at_slice_def)

lemma at_self: "at_slice d0 i l d \<Longrightarrow> at_slice d0 i (slice i d) d"
  by (simp add: at_slice_def)

lemma goes_onI:
  "settling i d r jb s j \<Longrightarrow> at_slice d i l' d' \<Longrightarrow> running l' s' \<Longrightarrow> sg_id s' = sg_id s \<Longrightarrow> sg_committed_digest s' = child \<Longrightarrow>
     goes_on i d (at_run_segment_id r) (at_parent_digest r) child d'"
  unfolding goes_on_def at_slice_def by (metis settlingD(2,10,12))

lemma only_if_iff [simp]: "only_if b x = {} \<longleftrightarrow> \<not> b"
  by (cases b) simp_all

lemmas slice_simps = running_def resting_def in_flight_ok_def task_is_def digest_of_def live_segment_state_def
  terminal_import_state_def

lemmas record_updates = settled_segment_def closed_segment_def stopped_job_def job_rev_def state_change_def no_change_def

lemma ack_post:
  assumes inv: "imp_inv d" and job: "attempt_job a d = Inr i"
  shows "post (ack_tx hash a i tn now) d (\<lambda>(out, cont, parent, child, segment) d'.
    moves i d d' \<and> (cont \<longrightarrow> goes_on i d segment parent child d'))"
  unfolding ack_tx_def Let_def
  apply (intro post_bind post_sending_attempt post_running_job post_segment_row post_atomic)
  subgoal premises p for r jb s c child
  proof -
    obtain j where ctx: "settling i d r jb s j" "at_id r = a" using settlingI [OF inv job p(1,2,3,6)] p(8) by metis
    note c = settlingD [OF ctx(1)] and at0 = imp_inv_at [OF inv, of i] and ch = settling_child [OF ctx(1) p(10)]

    show ?thesis
      apply (rule post_insert_checkpoint [OF at0], rule post_bind, rule post_insert_transition, assumption, simp)
      apply (rule post_bind, rule post_attempt, assumption)
          apply (use c(3) ctx(2) in simp, use ctx(2) in simp, simp, simp, simp)
      apply (rule post_bind, rule post_settle_segment, assumption)
          apply (use c in simp, use c in simp, simp add: settled_segment_def, simp add: settled_segment_def)
      apply (rule post_bind, rule post_apply, assumption, use c in simp)
      apply (rule post_bind, rule post_settle_job, assumption, use c in simp, simp add: job_rev_def)
      apply (rule post_bind, rule post_if)
       apply (rule post_atomic, rule post_atomic)
      subgoal premises q for d1 d2 d3 d4 m d5 d6
      proof -
        note l = at_sliceD [OF q(10)]
        have dg: "digest_of (slice i d6) = child" by (simp add: l digest_of_def)
        have adv: "advances (last (sl_trs (slice i d6))) (im_checkpoint jb) c" "cp_logical_offset c = at_end_offset r"
          using child_advances [OF p(10) ch(2), of "last (sl_trs (slice i d6))"] by (simp_all add: l)
        have run: "running (slice i d6) (settled_segment ''ACTIVE'' child None now s)"
          using q(7-9,11) c by (simp add: l record_updates slice_simps)
        have "moves i d d6"
          by (rule settle_moves [OF ctx(1) at_self [OF q(10)] refl, where c = c and p = "im_checkpoint jb"
                and s' = "settled_segment ''ACTIVE'' child None now s" and st = ImportPausedSafe])
            (use q(1) dg adv run ch ctx(2) c(10) in \<open>simp_all add: l settled_segment_def\<close>)
        moreover have "goes_on i d (at_run_segment_id r) (at_parent_digest r) child d6"
          by (rule goes_onI [OF ctx(1) at_self [OF q(10)] run]) (simp_all add: settled_segment_def)
        ultimately show ?thesis by simp
      qed
      apply (rule post_quiet, assumption, rule post_atomic)
      subgoal premises q for d1 d2 d3 d4 m d5 d6 n d7
      proof -
        note l = at_sliceD [OF q(12)]
        let ?st = "if sg_state s = ''STOPPING'' \<and> null_text (sg_stop_reason s) = import_stop_user_canceled
          then ImportCanceled else ImportPausedSafe"
        have dg: "digest_of (slice i d7) = child" by (simp add: l digest_of_def)
        have adv: "advances (last (sl_trs (slice i d7))) (im_checkpoint jb) c" "cp_logical_offset c = at_end_offset r"
          using child_advances [OF p(10) ch(2), of "last (sl_trs (slice i d7))"] by (simp_all add: l)
        have run: "resting (slice i d7) ?st" "\<not> decision_state ?st"
          using q(7-9,11) c by (simp_all add: l record_updates slice_simps decision_state_def)
        have "moves i d d7"
          by (rule settle_moves [OF ctx(1) at_self [OF q(12)] refl, where c = c and p = "im_checkpoint jb" and st = ?st])
            (use q(1) dg adv run ch ctx(2) c(10) in \<open>simp_all add: l\<close>)
        then show ?thesis using q(11) by auto
      qed
      done
  qed
  done

lemma post_incident:
  assumes at: "at_slice d0 i l d" and n: "sl_open l = {n}" and P: "\<And>r. P r \<Longrightarrow> in_id r = in_id n"
    and f: "\<And>r. in_id (f r) = in_id r" "\<And>r. in_job_id (f r) = in_job_id r" "in_status (f n) \<noteq> ''OPEN''"
    and Q: "\<And>d'. at_slice d0 i (l\<lparr>sl_open := {}\<rparr>) d' \<Longrightarrow> Q () d'"
  shows "post (one_row (upd_incident P f) e) d Q"
proof -
  have mem: "n \<in> sl_open l" using n by simp
  then have "in_job_id n = i" using at by (auto simp: at_slice_def slice_def is_open_of_def)
  then have job: "in_job_id (f n) = i" by (simp add: f(2))
  show ?thesis
  proof (rule postI)
    fix u d' assume "one_row (upd_incident P f) e d = Inr (u, d')"
    from at_incident [OF at mem P f(1) job this] show "Q u d'" using Q n f(3) by simp
  qed
qed

lemma post_insert_incident:
  assumes "at_slice d0 i l d" and "in_job_id n = i" "in_status n = ''OPEN''"
    and "\<And>d'. sl_open l = {} \<Longrightarrow> at_slice d0 i (l\<lparr>sl_open := {n}\<rparr>) d' \<Longrightarrow> Q () d'"
  shows "post (insert_incident n) d Q"
  using at_insert_incident [OF assms(1-3)] assms(4) by (auto intro!: postI)

lemma post_close_segment:
  assumes "at_slice d0 i l d" and "sl_live l = {s}" and "sg_id s = segment"
    and "\<And>d'. at_slice d0 i (l\<lparr>sl_live := {}\<rparr>) d' \<Longrightarrow> Q () d'"
  shows "post (close_segment_tx i segment a stop now) d Q"
  unfolding close_segment_tx_def
  by (rule post_segment [OF assms(1,2)]) (use assms(3,4) in \<open>auto simp: closed_segment_def live_segment_state_def\<close>)

lemma open_single: "imp_inv d \<Longrightarrow> n \<in> sl_open (slice i d) \<Longrightarrow> sl_open (slice i d) = {n}"
  using imp_invD(3) [of d i] by (auto simp: job_ok_def open_ok_def split: if_splits)

text \<open>An exact replay: its incident is the open one.\<close>

lemma replay_ack_post:
  assumes inv: "imp_inv d" and job: "attempt_job a d = Inr i"
  shows "post (replay_ack_tx hash a i tn now) d (\<lambda>(out, cont, parent, child, segment) d'.
    moves i d d' \<and> (cont \<longrightarrow> goes_on i d segment parent child d'))"
  unfolding replay_ack_tx_def replay_segment_tx_def Let_def
  apply (intro post_bind post_sending_attempt post_running_job post_atomic)
  subgoal premises p for r s jb c child
  proof -
    have s: "s \<in> set (segments_t d)" "sg_id s = at_run_segment_id r" using find_SomeD [OF p(3)] by simp_all
    obtain j where ctx: "settling i d r jb s j" "at_id r = a" using settlingI [OF inv job p(1,2,5) s] by metis
    obtain n where n: "im_open_incident jb = Some n" "same_range r n"
      using p(8) by (auto simp: incident_matches_def same_range_def split: option.splits)
    have op: "sl_open (slice i d) = {n}" using open_single [OF inv] settlingD(20) [OF ctx(1)] n(1) by simp
    have nx: "next_checkpoint (at_parent_digest r) (at_end_offset r) (in_batch_id n) ''REPLAY_ACKED'' (im_checkpoint jb) = Inr c"
      using p(9) n by (simp add: same_range_def)
    note c = settlingD [OF ctx(1)] and at0 = imp_inv_at [OF inv, of i] and ch = settling_child [OF ctx(1) nx]
    show ?thesis
      apply (rule post_insert_checkpoint [OF at0], rule post_bind, rule post_insert_transition, assumption, simp)
      apply (rule post_bind, rule post_attempt, assumption)
          apply (use c(3) ctx(2) in simp, use ctx(2) in simp, simp, simp, simp)
      apply (rule post_bind, rule post_incident, assumption)
          apply (use op in simp, use n in simp, simp, simp, simp)
      apply (rule post_bind, rule post_settle_segment, assumption)
          apply (use c in simp, use c in simp, simp add: settled_segment_def, simp add: settled_segment_def)
      apply (rule post_bind, rule post_apply, assumption, use c in simp)
      apply (rule post_bind, rule post_settle_job, assumption, use c in simp, simp add: job_rev_def)
      apply (rule post_bind, rule post_quiet, assumption, rule post_atomic)
      subgoal premises q for d1 d2 d3 d4 d5 m d6 d7 u d8
      proof -
        note l = at_sliceD [OF q(12)]
        let ?cont = "sg_after_resolution s = Some ''CONTINUE'' \<and> sg_state s = ''ACTIVE'' \<and> \<not> im_pause_requested jb"
        let ?st = "if sg_state s = ''STOPPING'' \<and> null_text (sg_stop_reason s) = import_stop_user_canceled
          then ImportCanceled else ImportPausedSafe"
        let ?s = "settled_segment ''ACTIVE'' child None now s"
        have dg: "digest_of (slice i d8) = child" by (simp add: l digest_of_def)
        have adv: "advances (last (sl_trs (slice i d8))) (im_checkpoint jb) c" "cp_logical_offset c = at_end_offset r"
          using child_advances [OF nx ch(2), of "last (sl_trs (slice i d8))"] by (simp_all add: l)
        have rest: "resting (slice i d8) ?st" "\<not> decision_state ?st" if "\<not> ?cont"
          using q(8-10) that c by (simp_all add: l record_updates slice_simps decision_state_def)
        have run: "running (slice i d8) ?s" if "?cont"
          using q(8-10) that c by (simp add: l record_updates slice_simps)
        have sn: "sl_sending (slice i d8) = {}" "sg_id ?s = sg_id s" by (simp_all add: l settled_segment_def)
        have to: "(running (slice i d8) ?s \<and> sg_id ?s = sg_id s \<and> sl_sending (slice i d8) = {}) \<or>
            (resting (slice i d8) ?st \<and> \<not> decision_state ?st)"
          using rest run sn by blast
        have "moves i d d8"
          by (rule settle_moves [OF ctx(1) at_self [OF q(12)] refl, where c = c and p = "im_checkpoint jb" and s' = ?s and st = ?st])
            (use q(1) dg adv to ch ctx(2) c(10) in \<open>simp_all add: l\<close>)
        moreover have "goes_on i d (at_run_segment_id r) (at_parent_digest r) child d8" if ?cont
          by (rule goes_onI [OF ctx(1) at_self [OF q(12)] run [OF that]]) (simp_all add: settled_segment_def)
        ultimately show ?thesis by simp
      qed
      done
  qed
  done

section \<open>Settlements that keep the checkpoint\<close>

lemma rests_moves:
  assumes "at_slice d i l' d'" and "has_job (slice i d)" and "resting (slice i d') st" and "\<not> decision_state st"
    and "same_ledger (slice i d) (slice i d')" and "sl_open (slice i d') = sl_open (slice i d)"
  shows "moves i d d'"
  using movesI [OF at_self [OF assms(1)]] rests [OF assms(2-6)] by blast

lemma doubts_moves:
  assumes ctx: "settling i d r jb s j" and at: "at_slice d i l' d'" and "resting (slice i d') st" and "decision_state st"
    and "same_ledger (slice i d) (slice i d')" and "sl_open (slice i d') = {n}" and "same_range r n"
    and "in_kind n = kind_of_state st"
  shows "moves i d d'"
  using movesI [OF at_self [OF at]] doubts [OF settlingD(2,3) [OF ctx] assms(3-8)] by blast

lemma attempt_segment:
  assumes "imp_inv d" and "attempt_job a d = Inr i" and "tbl_get at_id a (attempts_t d) = Some r" "at_state r = ''SENDING''"
  obtains s where "s \<in> set (segments_t d)" "sg_id s = at_run_segment_id r"
proof -
  have "r \<in> sl_sending (slice i d)"
    using tbl_get_SomeD [OF assms(3)] assms(2-4) by (auto simp: attempt_job_Inr slice_def is_sending_of_def)
  then obtain s where s: "running (slice i d) s" "sl_sending (slice i d) = {r}" using running_slice [OF assms(1)] by blast
  have "s \<in> sl_live (slice i d)" using s(1) by (simp add: running_def)
  then show thesis using that [of s] in_flight_range(3) [OF s] by (auto simp: slice_def)
qed

lemma record_incident_post:
  assumes inv: "imp_inv d" and job: "attempt_job a d = Inr i" and kind: "kind = ''PARTIAL'' \<or> kind = ''UNKNOWN''"
  shows "post (record_incident_tx a incident_id kind i tn now) d (\<lambda>_ d'. moves i d d' \<and> sl_open (slice i d) = {})"
  unfolding record_incident_tx_def Let_def
  apply (intro post_bind post_sending_attempt)
  apply (rule post_running_job)
  subgoal premises p for r jb
  proof -
    obtain s where s: "s \<in> set (segments_t d)" "sg_id s = at_run_segment_id r" using attempt_segment [OF inv job p(1,2)] .
    obtain j where ctx: "settling i d r jb s j" "at_id r = a" using settlingI [OF inv job p(1-3) s] by metis
    note c = settlingD [OF ctx(1)] and at0 = imp_inv_at [OF inv, of i]
    let ?st = "if kind = ''PARTIAL'' then ImportNeedsPartialDecision else ImportNeedsUnknownDecision"
    show ?thesis
      apply (rule post_bind, rule post_attempt [OF at0 c(3)])
          apply (use ctx(2) in simp, simp, simp, use kind in force)
      apply (rule post_bind, rule post_close_segment, assumption, use c in simp, use c in simp)
      apply (rule post_bind, rule post_insert_incident, assumption, simp, simp)
      apply (rule post_bind, rule post_apply, assumption, use c in simp)
      apply (rule post_bind, rule post_settle_job, assumption, use c in simp, simp add: record_updates)
      apply (rule post_bind, rule post_quiet, assumption, rule post_atomic)
      subgoal premises q for d1 d2 d3 m d4 d5 u d6
      proof -
        note l = at_sliceD [OF q(10)]
        have st: "decision_state ?st" by (simp add: decision_state_def)
        have rest: "resting (slice i d6) ?st"
          using q(6-8) c by (simp add: l record_updates slice_simps)
        have led: "same_ledger (slice i d) (slice i d6)"
          using c by (simp add: same_ledger_def l digest_of_def stopped_job_def job_rev_def)
        have "moves i d d6"
          by (rule doubts_moves [OF ctx(1) q(10) rest st led, of "the_elem (sl_open (slice i d6))"])
            (use kind in \<open>auto simp: l same_range_def kind_of_state_def\<close>)
        then show ?thesis using q(3) by simp
      qed
      done
  qed
  done

text \<open>A rejection ends the job, or serves the stop that was requested.\<close>

lemma rejected_post:
  assumes inv: "imp_inv d" and job: "attempt_job a d = Inr i"
  shows "post (rejected_tx a i tn now) d (\<lambda>_ d'. moves i d d')"
  unfolding rejected_tx_def Let_def
  apply (intro post_bind)
  apply (rule post_attempt_with_segment, simp only: prod.case)
  apply (intro post_bind post_running_job post_atomic)
  subgoal premises p for r s jb
  proof -
    obtain j where ctx: "settling i d r jb s j" "at_id r = a" using settlingI [OF inv job p(1) _ p(5) p(2,3)] p(4) by metis
    note c = settlingD [OF ctx(1)] and at0 = imp_inv_at [OF inv, of i]
    let ?pausing = "sg_state s = ''STOPPING'' \<or> im_pause_requested jb"
    let ?st = "if ?pausing \<and> null_text (sg_stop_reason s) = import_stop_user_canceled then ImportCanceled
      else if ?pausing then ImportPausedSafe else ImportFailed"
    show ?thesis
      apply (rule post_attempt [OF at0 c(3)])
          apply (use ctx(2) in simp, simp, simp, simp)
      apply (rule post_bind, rule post_close_segment, assumption, use c in simp, use c in simp)
      apply (rule post_bind, rule post_apply, assumption, use c in simp)
      apply (rule post_bind, rule post_settle_job, assumption, use c in simp, simp add: record_updates)
      apply (rule post_bind, rule post_quiet, assumption, rule post_atomic)
      subgoal premises q for d1 d2 m d3 d4 u d5
      proof -
        note l = at_sliceD [OF q(8)]
        have st: "\<not> decision_state ?st" by (simp add: decision_state_def)
        have rest: "resting (slice i d5) ?st"
          using q(4-6) c by (simp add: l record_updates slice_simps)
        have led: "same_ledger (slice i d) (slice i d5)"
          using c by (simp add: same_ledger_def l digest_of_def record_updates)
        show ?thesis
          by (rule rests_moves [OF q(8) running_has_job(1) [OF c(2)] rest st led]) (simp add: l)
      qed
      done
  qed
  done

definition keeps_run :: "string \<Rightarrow> db \<Rightarrow> db \<Rightarrow> bool" where
  "keeps_run i d d' = (\<exists>s s'. running (slice i d) s \<and> running (slice i d') s' \<and> sg_id s' = sg_id s \<and>
     sg_committed_digest s' = sg_committed_digest s)"

text \<open>An attempt that was not sent leaves the run at its checkpoint, unless it has to stop.\<close>

lemma not_sent_post:
  assumes inv: "imp_inv d" and job: "attempt_job a d = Inr i"
  shows "post (not_sent_tx a i tn now) d (\<lambda>out d'. moves i d d' \<and> (t_state (im_task out) = ImportRunning \<longrightarrow> keeps_run i d d'))"
  unfolding not_sent_tx_def Let_def
  apply (intro post_bind)
  apply (rule post_attempt_with_segment, simp only: prod.case)
  apply (intro post_bind post_running_job post_atomic)
  subgoal premises p for r s jb
  proof -
    obtain j where ctx: "settling i d r jb s j" "at_id r = a" using settlingI [OF inv job p(1,4,5) p(2,3)] by metis
    note c = settlingD [OF ctx(1)] and at0 = imp_inv_at [OF inv, of i]
    let ?s = "s\<lparr>sg_active_attempt_id := None, sg_stop_reason := None, sg_updated_at := now\<rparr>"
    show ?thesis
      apply (rule post_attempt [OF at0 c(3)])
          apply (use ctx(2) in simp, simp, simp, simp)
      apply (rule post_bind, rule post_settle_segment, assumption, use c in simp, use c in simp, simp, simp)
      apply (rule post_if)
       apply (rule post_atomic)
      subgoal premises q for d1 d2
      proof -
        note l = at_sliceD [OF q(2)]
        have act: "sg_state s = ''ACTIVE''" using c(15) q(3) by (simp add: live_segment_state_def)
        have run: "running (slice i d2) ?s" using c q(3) act
          by (simp add: l slice_simps split: option.splits)
        have led: "same_ledger (slice i d) (slice i d2)" by (simp add: same_ledger_def l digest_of_def)
        have "moves i d d2"
          by (rule movesI [OF at_self [OF q(2)]], rule returns [OF c(2,3) run _ _ led]) (simp_all add: l)
        moreover have "keeps_run i d d2" unfolding keeps_run_def using c(2) run by fastforce
        ultimately show ?thesis by simp
      qed
      apply (rule post_bind, rule post_apply, assumption, use c in simp)
      apply (rule post_bind, rule post_settle_job, assumption, use c in simp, simp add: record_updates)
      apply (rule post_bind, rule post_quiet, assumption, rule post_atomic)
      subgoal premises q for d1 d2 m d3 d4 u d5
      proof -
        note l = at_sliceD [OF q(9)]
        have st: "\<not> decision_state (stopping_target s)" by (simp add: stopping_target_def decision_state_def)
        have rest: "resting (slice i d5) (stopping_target s)"
          using q(3-7) c by (simp add: l record_updates slice_simps stopping_target_def)
        have led: "same_ledger (slice i d) (slice i d5)"
          using c by (simp add: same_ledger_def l digest_of_def record_updates)
        have "moves i d d5"
          by (rule rests_moves [OF q(9) running_has_job(1) [OF c(2)] rest st led]) (simp add: l)
        moreover have "t_state m \<noteq> ImportRunning" using q(5) by (simp add: record_updates stopping_target_def)
        ultimately show ?thesis by (simp add: stopped_out_def)
      qed
      done
  qed
  done

lemma post_reject_too_large:
  assumes "at_slice d0 i l d" and "sl_sending l = {r}" and "at_id r = a"
    and "\<And>d'. at_slice d0 i (l\<lparr>sl_sending := {}\<rparr>) d' \<Longrightarrow> Q () d'"
  shows "post (reject_too_large_tx a parent now extra child) d Q"
  unfolding reject_too_large_tx_def by (rule post_attempt [OF assms(1,2)]) (use assms(3,4) in auto)

lemma replay_too_large_post:
  assumes inv: "imp_inv d" and job: "attempt_job a d = Inr i"
  shows "post (replay_too_large_tx a i tn now) d (\<lambda>_ d'. moves i d d')"
  unfolding replay_too_large_tx_def Let_def
  apply (intro post_bind post_sending_attempt post_running_job post_atomic)
  subgoal premises p for r jb
  proof -
    obtain s where s: "s \<in> set (segments_t d)" "sg_id s = at_run_segment_id r" using attempt_segment [OF inv job p(1,2)] .
    obtain j where ctx: "settling i d r jb s j" "at_id r = a" using settlingI [OF inv job p(1-3) s] by metis
    note c = settlingD [OF ctx(1)] and at0 = imp_inv_at [OF inv, of i]
    obtain n where n: "im_open_incident jb = Some n" "same_range r n"
      using p(6) by (auto simp: incident_matches_def same_range_def split: option.splits)
    have op: "sl_open (slice i d) = {n}" using open_single [OF inv] c(20) n(1) by simp
    have kind: "in_kind n = ''PARTIAL'' \<or> in_kind n = ''UNKNOWN''"
      using imp_invD(3) [OF inv, of i] c(5) op by (auto simp: job_ok_def open_ok_def)
    let ?st = "if in_kind n = ''PARTIAL'' then ImportNeedsPartialDecision else ImportNeedsUnknownDecision"
    show ?thesis
      unfolding n(1) option.sel
      apply (rule post_reject_too_large [OF at0 c(3) ctx(2)])
      apply (rule post_bind, rule post_segment, assumption)
          apply (use c in simp, use c in simp, simp add: closed_segment_def, simp add: closed_segment_def)
      apply (rule post_bind, rule post_apply, assumption, use c in simp)
      apply (rule post_bind, rule post_settle_job, assumption, use c in simp, simp add: record_updates)
      apply (rule post_atomic)
      subgoal premises q for d1 d2 m d3 d4
      proof -
        note l = at_sliceD [OF q(8)]
        have st: "decision_state ?st" by (simp add: decision_state_def)
        have rest: "resting (slice i d4) ?st"
          using q(5-7) c by (simp add: l record_updates slice_simps)
        have led: "same_ledger (slice i d) (slice i d4)"
          using c by (simp add: same_ledger_def l digest_of_def record_updates)
        show ?thesis
          by (rule doubts_moves [OF ctx(1) q(8) rest st led, of n])
            (use kind op n(2) in \<open>auto simp: l kind_of_state_def\<close>)
      qed
      done
  qed
  done

lemma reduced_advances:
  assumes "reduced_checkpoint parent batch p = Inr c" and "tr_parent_digest t = parent" and "tr_sequence t = cp_sequence c"
    and "tr_cause t = ''BATCH_LIMIT_REDUCED''"
  shows "advances t p c"
  using assms by (auto simp: reduced_checkpoint_def next_checkpoint_def rbind_Inr_iff advances_def keeps_offset_def)

lemma reduced_not_zero: "reduced_checkpoint parent batch zero_checkpoint \<noteq> Inr c"
  using zero_no_child by (auto simp: reduced_checkpoint_def rbind_Inr_iff)

text \<open>The two branches that end the job.\<close>

lemma fail_single_point_post:
  assumes ctx: "settling i d r jb s j" "at_id r = a"
  shows "post (fail_single_point_tx jb a (at_run_segment_id r) (at_parent_digest r) tn now) d (\<lambda>_ d'. moves i d d')"
  unfolding fail_single_point_tx_def
  apply (insert settlingD [OF ctx(1)] imp_inv_at [OF settlingD(1) [OF ctx(1)], of i])
  subgoal premises c
    unfolding c(8)
    apply (rule post_bind, rule post_reject_too_large [OF c(21) c(3) ctx(2)])
    apply (rule post_bind, rule post_segment, assumption)
        apply (use c in simp, use c in simp, simp add: closed_segment_def, simp add: closed_segment_def)
    apply (rule post_bind, rule post_apply, assumption, use c in simp)
    apply (rule post_bind, rule post_settle_job, assumption, use c in simp, simp add: record_updates)
    apply (rule post_atomic)
    subgoal premises q for d1 d2 m d3 d4
    proof -
      note l = at_sliceD [OF q(8)]
      have st: "\<not> decision_state ImportFailed" by (simp add: decision_state_def)
      have rest: "resting (slice i d4) ImportFailed"
        using q(5-7) c by (simp add: l record_updates slice_simps)
      have led: "same_ledger (slice i d) (slice i d4)"
        using c by (simp add: same_ledger_def l digest_of_def record_updates)
      show ?thesis
        by (rule rests_moves [OF q(8) running_has_job(1) [OF c(2)] rest st led]) (simp add: l)
    qed
    done
  done

lemma cancel_too_large_post:
  assumes ctx: "settling i d r jb s j" "at_id r = a"
  shows "post (cancel_too_large_tx jb i a (at_run_segment_id r) (at_parent_digest r) tn now) d (\<lambda>_ d'. moves i d d')"
  unfolding cancel_too_large_tx_def
  apply (insert settlingD [OF ctx(1)] imp_inv_at [OF settlingD(1) [OF ctx(1)], of i])
  subgoal premises c
    apply (rule post_bind, rule post_reject_too_large [OF c(21) c(3) ctx(2)])
    apply (rule post_bind, rule post_segment, assumption)
        apply (use c in simp, use c in simp, simp add: closed_segment_def, simp add: closed_segment_def)
    apply (rule post_bind, rule post_apply, assumption, use c in simp)
    apply (rule post_bind, rule post_settle_job, assumption, use c in simp, simp add: record_updates)
    apply (rule post_bind, rule post_quiet, assumption, rule post_atomic)
    subgoal premises q for d1 d2 m d3 d4 u d5
    proof -
      note l = at_sliceD [OF q(9)]
      have st: "\<not> decision_state ImportCanceled" by (simp add: decision_state_def)
      have rest: "resting (slice i d5) ImportCanceled"
        using q(5-7) c by (simp add: l record_updates slice_simps)
      have led: "same_ledger (slice i d) (slice i d5)"
        using c by (simp add: same_ledger_def l digest_of_def record_updates)
      show ?thesis
        by (rule rests_moves [OF q(9) running_has_job(1) [OF c(2)] rest st led]) (simp add: l)
    qed
    done
  done

lemma post_imp: "post m d Q \<Longrightarrow> (\<And>x d'. Q x d' \<Longrightarrow> R x d') \<Longrightarrow> post m d R"
  by (simp add: post_def)

lemma too_large_post:
  assumes inv: "imp_inv d" and job: "attempt_job a d = Inr i"
  shows "post (too_large_tx hash a i tn now) d (\<lambda>(out, cont, parent, child, segment) d'.
    moves i d d' \<and> (cont \<longrightarrow> goes_on i d segment parent child d'))"
  unfolding too_large_tx_def Let_def
  apply (intro post_bind post_sending_attempt post_segment_row)
  apply (rule post_atomic, intro post_bind post_running_job)
  subgoal premises p for r s jb
  proof -
    obtain j where ctx: "settling i d r jb s j" "at_id r = a" using settlingI [OF inv job p(1,2,7) p(3,5)] by metis
    note c = settlingD [OF ctx(1)] and at0 = imp_inv_at [OF inv, of i]
    show ?thesis
      apply (rule post_if, rule post_bind, rule post_imp [OF cancel_too_large_post [OF ctx]], rule post_atomic, simp)
      apply (rule post_if, rule post_bind, rule post_imp [OF fail_single_point_post [OF ctx]], rule post_atomic, simp)
      apply (rule post_bind, rule post_atomic, rule post_bind, rule post_atomic)
      subgoal premises e for c child
      proof -
        have nz: "at_parent_digest r \<noteq> ''''" using e(3) reduced_not_zero ctx(1) by (auto simp: settling_def)
        then have cp: "sl_cps (slice i d) (at_parent_digest r) = Some (im_checkpoint jb)" using ctx(1) by (simp add: settling_def)
        note c = settlingD [OF ctx(1)]
        let ?cont = "sg_state s = ''ACTIVE'' \<and> \<not> im_pause_requested jb"
        let ?s = "settled_segment ''ACTIVE'' child None now s"
        show ?thesis
          apply (rule post_bind, rule post_insert_checkpoint [OF at0], rule post_bind, rule post_insert_transition, assumption, simp)
          apply (rule post_bind, rule post_reject_too_large, assumption, use c in simp, use ctx(2) in simp)
          apply (rule post_bind, rule post_settle_segment, assumption)
              apply (use c in simp, use c in simp, simp add: settled_segment_def, simp add: settled_segment_def)
          apply (rule post_bind, rule post_apply, assumption, use c in simp)
          apply (rule post_bind, rule post_settle_job, assumption, use c in simp, simp add: job_rev_def)
          apply (rule post_atomic)
          subgoal premises q for d1 d2 d3 d4 m d5 d6
          proof -
            note l = at_sliceD [OF q(10)]
            have dg: "digest_of (slice i d6) = child" by (simp add: l digest_of_def)
            have adv: "advances (last (sl_trs (slice i d6))) (im_checkpoint jb) c"
              using reduced_advances [OF e(3), of "last (sl_trs (slice i d6))"] by (simp add: l)
            have run: "running (slice i d6) ?s" if "?cont"
              using q(7-9) that c by (simp add: l record_updates slice_simps)
            have rest: "resting (slice i d6) ImportPausedSafe" "\<not> decision_state ImportPausedSafe" if "\<not> ?cont"
              using q(7-9) that c by (simp_all add: l record_updates slice_simps decision_state_def)
            have sn: "sl_sending (slice i d6) = {}" "sg_id ?s = sg_id s" by (simp_all add: l settled_segment_def)
            have to: "(running (slice i d6) ?s \<and> sg_id ?s = sg_id s \<and> sl_sending (slice i d6) = {}) \<or>
                (resting (slice i d6) ImportPausedSafe \<and> \<not> decision_state ImportPausedSafe)"
              using rest run sn by blast
            have "moves i d d6"
              by (rule settle_moves [OF ctx(1) at_self [OF q(10)] refl, where c = c and p = "im_checkpoint jb" and s' = ?s
                  and st = ImportPausedSafe])
                (use q(1) dg adv to cp ctx(2) c(10) in \<open>simp_all add: l\<close>)
            moreover have "goes_on i d (at_run_segment_id r) (at_parent_digest r) child d6" if ?cont
              by (rule goes_onI [OF ctx(1) at_self [OF q(10)] run [OF that]]) (simp_all add: settled_segment_def)
            ultimately show ?thesis by simp
          qed
          done
      qed
      done
  qed
  done

text \<open>Transactions on a job that is read first.\<close>

lemma job_read:
  assumes inv: "imp_inv d" and run: "get_import_in_tx i d = Inr (job, d)"
  obtains j where "sl_job (slice i d) = Some j" "sl_meta (slice i d) = Some (im_task job)" "t_id (im_task job) = i"
    "ij_job_id j = i" "im_checkpoint_digest job = ij_checkpoint_digest j" "im_active job = ij_active_run_segment_id j"
    "im_pause_requested job = ij_pause_requested j" "t_state (im_task job) = ij_state j" "t_kind (im_task job) = ''IMPORT''"
    "case im_open_incident job of None \<Rightarrow> sl_open (slice i d) = {} | Some n \<Rightarrow> sl_open (slice i d) = {n}"
    "if ij_checkpoint_digest j = '''' then im_checkpoint job = zero_checkpoint
     else sl_cps (slice i d) (ij_checkpoint_digest j) = Some (im_checkpoint job)"
    "digest_of (slice i d) = ij_checkpoint_digest j"
    "ij_state j = ImportRunning \<Longrightarrow> \<exists>s. running (slice i d) s \<and> ij_active_run_segment_id j = Some (sg_id s)"
    "ij_state j \<noteq> ImportRunning \<Longrightarrow> resting (slice i d) (ij_state j) \<and> decision_ok (slice i d) (ij_state j)"
proof -
  let ?l = "slice i d"
  have ok: "job_ok ?l" using inv by (rule imp_invD)
  obtain j where j: "sl_job ?l = Some j" "sl_meta ?l = Some (im_task job)" "t_id (im_task job) = i"
    "ij_job_id j = i" "im_checkpoint_digest job = ij_checkpoint_digest j" "im_active job = ij_active_run_segment_id j"
    "im_pause_requested job = ij_pause_requested j"
    "if ij_checkpoint_digest j = '''' then im_checkpoint job = zero_checkpoint
     else sl_cps ?l (ij_checkpoint_digest j) = Some (im_checkpoint job)"
    "case im_open_incident job of None \<Rightarrow> sl_open ?l = {} | Some n \<Rightarrow> n \<in> sl_open ?l"
    by (rule at_get_import [OF imp_inv_at [OF inv] run]) blast
  have op: "case im_open_incident job of None \<Rightarrow> sl_open ?l = {} | Some n \<Rightarrow> sl_open ?l = {n}"
    using j(9) open_single [OF inv] by (auto split: option.splits)
  have either: "(\<exists>s. running ?l s) \<or> (\<exists>st. resting ?l st \<and> decision_ok ?l st)"
    using ok j(1) by (auto simp: job_ok_def)
  have task: "t_state (im_task job) = ij_state j \<and> t_kind (im_task job) = ''IMPORT''"
    using either j(1,2) by (auto simp: running_def resting_def task_is_def)
  have r: "ij_state j = ImportRunning \<Longrightarrow> \<exists>s. running ?l s \<and> ij_active_run_segment_id j = Some (sg_id s)"
    using either j(1) by (auto simp: running_def resting_def)
  have n: "ij_state j \<noteq> ImportRunning \<Longrightarrow> resting ?l (ij_state j) \<and> decision_ok ?l (ij_state j)"
    using either j(1) by (auto simp: running_def resting_def)
  show thesis by (rule that [OF j(1-7) _ _ op j(8)]) (use task j(1) r n in \<open>auto simp: digest_of_def\<close>)
qed

definition reading :: "string \<Rightarrow> db \<Rightarrow> import_job \<Rightarrow> import_job_row \<Rightarrow> bool" where
  "reading i d job j = (imp_inv d \<and> sl_job (slice i d) = Some j \<and> sl_meta (slice i d) = Some (im_task job) \<and>
     t_id (im_task job) = i \<and> ij_job_id j = i \<and> im_checkpoint_digest job = ij_checkpoint_digest j \<and>
     im_active job = ij_active_run_segment_id j \<and> im_pause_requested job = ij_pause_requested j \<and>
     t_state (im_task job) = ij_state j \<and> t_kind (im_task job) = ''IMPORT'' \<and> digest_of (slice i d) = ij_checkpoint_digest j \<and>
     (case im_open_incident job of None \<Rightarrow> sl_open (slice i d) = {} | Some n \<Rightarrow> sl_open (slice i d) = {n}) \<and>
     (if ij_checkpoint_digest j = '''' then im_checkpoint job = zero_checkpoint
      else sl_cps (slice i d) (ij_checkpoint_digest j) = Some (im_checkpoint job)) \<and>
     (ij_state j = ImportRunning \<longrightarrow> (\<exists>s. running (slice i d) s \<and> ij_active_run_segment_id j = Some (sg_id s))) \<and>
     (ij_state j \<noteq> ImportRunning \<longrightarrow> resting (slice i d) (ij_state j) \<and> decision_ok (slice i d) (ij_state j)))"

lemma readingI: "imp_inv d \<Longrightarrow> get_import_in_tx i d = Inr (job, d) \<Longrightarrow> \<exists>j. reading i d job j"
  by (rule job_read, assumption+) (auto simp: reading_def)

lemma readingD:
  assumes "reading i d job j"
  shows "imp_inv d" and "sl_job (slice i d) = Some j" and "sl_meta (slice i d) = Some (im_task job)"
    and "t_id (im_task job) = i" and "ij_job_id j = i" and "im_checkpoint_digest job = ij_checkpoint_digest j"
    and "im_active job = ij_active_run_segment_id j" and "t_state (im_task job) = ij_state j"
    and "t_kind (im_task job) = ''IMPORT''" and "digest_of (slice i d) = ij_checkpoint_digest j"
    and "case im_open_incident job of None \<Rightarrow> sl_open (slice i d) = {} | Some n \<Rightarrow> sl_open (slice i d) = {n}"
    and "has_job (slice i d)"
  using assms by (simp_all add: reading_def has_job_def)

lemma reading_running:
  assumes "reading i d job j" and "ij_state j = ImportRunning"
  obtains s where "running (slice i d) s" "sl_live (slice i d) = {s}" "ij_active_run_segment_id j = Some (sg_id s)"
    "sg_committed_digest s = ij_checkpoint_digest j" "live_segment_state (sg_state s)"
    "ij_pause_requested j \<longleftrightarrow> sg_state s = ''STOPPING''" "sg_job_id s = i"
    "sl_sending (slice i d) = {} \<longleftrightarrow> sg_active_attempt_id s = None"
proof -
  obtain s where s: "running (slice i d) s" "ij_active_run_segment_id j = Some (sg_id s)" using assms by (auto simp: reading_def)
  have "s \<in> sl_live (slice i d)" using s(1) by (simp add: running_def)
  then have "sg_job_id s = i" by (rule live_job)
  moreover have "sl_sending (slice i d) = {} \<longleftrightarrow> sg_active_attempt_id s = None"
    using s(1) by (auto simp: running_def in_flight_ok_def split: option.splits)
  ultimately show thesis using that [of s] s assms(1) by (auto simp: running_def reading_def)
qed

lemma reading_resting:
  assumes "reading i d job j" and "ij_state j \<noteq> ImportRunning"
  shows "resting (slice i d) (ij_state j)" and "decision_ok (slice i d) (ij_state j)" and "sl_live (slice i d) = {}"
    and "sl_sending (slice i d) = {}" and "ij_active_run_segment_id j = None" and "\<not> ij_pause_requested j"
  using assms by (auto simp: reading_def resting_def)

lemma post_count_sending:
  assumes "at_slice d0 i l d" and "\<And>n. n = 0 \<longleftrightarrow> sl_sending l = {} \<Longrightarrow> Q n d"
  shows "post (count_sending i) d Q"
  using at_count_sending [OF assms(1)] assms(2) by (auto intro!: postI)

text \<open>\<open>FinishImport\<close>, \<open>pausePermitDesync\<close>, \<open>invalidatePermit\<close>.\<close>

lemma finish_import_post:
  assumes inv: "imp_inv d"
  shows "post (finish_import_tx req bytes ps tn now) d (\<lambda>_ d'. moves (fi_job_id req) d d')"
  unfolding finish_import_tx_def Let_def
  apply (intro post_bind post_get_import post_if, rule post_atomic, rule moves_refl [OF inv])
  apply (intro post_bind post_atomic post_segment_row post_count_sending [OF imp_inv_at [OF inv]])
  subgoal premises p for jb s n
  proof -
    let ?i = "fi_job_id req"
    obtain j where r: "reading ?i d jb j" using readingI [OF inv p(1)] by blast
    note c = readingD [OF r] and at0 = imp_inv_at [OF inv, of ?i]
    have run: "ij_state j = ImportRunning" using p(3) c(8) by simp
    obtain s0 where s0: "running (slice ?i d) s0" "sl_live (slice ?i d) = {s0}" "ij_active_run_segment_id j = Some (sg_id s0)"
      "sl_sending (slice ?i d) = {} \<longleftrightarrow> sg_active_attempt_id s0 = None"
      by (rule reading_running [OF r run], rule that, assumption+)
    have s: "s = s0" using at_live_row [OF at0, of s0 s] s0(2,3) p(3,5,7) c(7) by (simp add: active_is_def)
    have send: "sl_sending (slice ?i d) = {}" using p(9,10) by simp
    show ?thesis
      apply (rule post_segment [OF at0 s0(2)])
          apply (use p(7) s in simp, simp add: closed_segment_def, simp add: closed_segment_def)
      apply (rule post_bind, rule post_apply, assumption, use c in simp)
      apply (rule post_bind, rule post_job, assumption, use c in simp, simp, simp add: record_updates)
      apply (rule post_bind, rule post_quiet, assumption, rule post_atomic)
      subgoal premises q for d1 m d2 d3 u d4
      proof -
        note l = at_sliceD [OF q(9)]
        have st: "\<not> decision_state ImportSucceeded" by (simp add: decision_state_def)
        have rest: "resting (slice ?i d4) ImportSucceeded"
          using q(4-6) c send by (simp add: l record_updates slice_simps)
        have led: "same_ledger (slice ?i d) (slice ?i d4)"
          using c by (simp add: same_ledger_def l digest_of_def record_updates)
        show ?thesis
          by (rule rests_moves [OF q(9) c(12) rest st led]) (simp add: l)
      qed
      done
  qed
  done

text \<open>The run of a job ends with nothing in flight.\<close>

lemma pause_permit_desync_post:
  assumes inv: "imp_inv d"
  shows "post (pause_permit_desync_tx i segment digest tn now) d (\<lambda>_ d'. moves i d d')"
  unfolding pause_permit_desync_tx_def
  apply (intro post_bind post_get_import post_if, rule post_atomic, rule moves_refl [OF inv])
  apply (intro post_bind post_count_sending [OF imp_inv_at [OF inv]] post_if, rule post_atomic, rule moves_refl [OF inv])
  subgoal premises p for jb n
  proof -
    obtain j where r: "reading i d jb j" using readingI [OF inv p(1)] by blast
    note c = readingD [OF r] and at0 = imp_inv_at [OF inv, of i]
    have run: "ij_state j = ImportRunning" using p(2) c(8) by simp
    obtain s where s: "running (slice i d) s" "sl_live (slice i d) = {s}" "ij_active_run_segment_id j = Some (sg_id s)"
      "sg_committed_digest s = ij_checkpoint_digest j" "live_segment_state (sg_state s)"
      "ij_pause_requested j \<longleftrightarrow> sg_state s = ''STOPPING''" "sg_job_id s = i" "sl_sending (slice i d) = {} \<longleftrightarrow> sg_active_attempt_id s = None"
      by (rule reading_running [OF r run], rule that, assumption+)
    have send: "sl_sending (slice i d) = {}" using p(3,4) by simp
    have act: "sg_state s = ''ACTIVE''" using s(1,8) send by (auto simp: running_def in_flight_ok_def)
    show ?thesis
      apply (rule post_apply [OF at0 c(3)])
      apply (rule post_bind, rule post_segment_all [where s = s], assumption)
           apply (use p(2) c s in \<open>simp add: active_is_def\<close>, use p(2) c s in \<open>simp add: active_is_def\<close>,
             use p(2) c s in \<open>simp add: active_is_def\<close>, simp, simp)
      apply (rule post_bind, rule post_job_all, assumption, use c in simp, use c in simp, simp add: record_updates)
      apply (rule post_atomic)
      subgoal premises q for m d1 u d2 v d3
      proof -
        note l = at_sliceD [OF q(6)]
        have st: "\<not> decision_state ImportPausedSafe" by (simp add: decision_state_def)
        have rest: "resting (slice i d3) ImportPausedSafe"
          using q(2-4) c send s(6) act by (simp add: l record_updates slice_simps)
        have led: "same_ledger (slice i d) (slice i d3)"
          using c by (simp add: same_ledger_def l digest_of_def record_updates)
        show ?thesis
          by (rule rests_moves [OF q(6) c(12) rest st led]) (simp add: l)
      qed
      done
  qed
  done

lemma invalidate_permit_post:
  assumes inv: "imp_inv d"
  shows "post (invalidate_permit_tx i p reason tn now) d (\<lambda>_ d'. moves i d d')"
  unfolding invalidate_permit_tx_def Let_def
  apply (intro post_bind post_get_import, rule post_atomic, intro post_if, rule post_atomic, rule moves_refl [OF inv])
  apply (rule post_bind, rule post_atomic, rule post_bind, rule post_atomic)
  subgoal premises p for jb
  proof -
    obtain j where r: "reading i d jb j" using readingI [OF inv p(1)] by blast
    note c = readingD [OF r] and at0 = imp_inv_at [OF inv, of i]
    have run: "ij_state j = ImportRunning" using p(3) c(8) by simp
    obtain s where s: "running (slice i d) s" "sl_live (slice i d) = {s}" "ij_active_run_segment_id j = Some (sg_id s)"
      "sg_committed_digest s = ij_checkpoint_digest j" "live_segment_state (sg_state s)"
      "ij_pause_requested j \<longleftrightarrow> sg_state s = ''STOPPING''" "sg_job_id s = i" "sl_sending (slice i d) = {} \<longleftrightarrow> sg_active_attempt_id s = None"
      by (rule reading_running [OF r run], rule that, assumption+)
    have id: "sg_id s = pm_run_segment_id p" using p(3) c(7) s(3) by (simp add: active_is_def)
    show ?thesis
      apply (rule post_if)
       apply (rule post_bind, rule post_segment [OF at0 s(2)], use id in simp, simp, simp)
       apply (rule post_bind, rule post_apply, assumption, use c in simp)
       apply (rule post_job, assumption, use c in simp, simp, simp add: record_updates)
      subgoal premises q for d1 m d2 d3
      proof -
        note l = at_sliceD [OF q(9)]
        have send: "sl_sending (slice i d) = {}" using q(2) s(8) by simp
        have st: "\<not> decision_state ImportPausedSafe" by (simp add: decision_state_def)
        have rest: "resting (slice i d3) ImportPausedSafe"
          using q(5-7) c send by (simp add: l record_updates slice_simps)
        have led: "same_ledger (slice i d) (slice i d3)"
          using c by (simp add: same_ledger_def l digest_of_def record_updates)
        show ?thesis
          by (rule rests_moves [OF q(9) c(12) rest st led]) (simp add: l)
      qed
      apply (rule post_bind, rule post_segment [OF at0 s(2)], use id in simp, simp, simp)
      apply (rule post_bind, rule post_apply, assumption, use c in simp)
      apply (rule post_job, assumption, use c in simp, simp, simp add: record_updates)
      subgoal premises q for d1 m d2 d3
      proof -
        note l = at_sliceD [OF q(9)]
        let ?s = "s\<lparr>sg_state := ''STOPPING'', sg_stop_reason := Some reason, sg_updated_at := now\<rparr>"
        have act: "sg_active_attempt_id s \<noteq> None" using q(2) by simp
        have fl: "in_flight_ok (slice i d) s" using s(1) by (simp add: running_def)
        have rest: "running (slice i d3) ?s"
          using q(5-7) c s fl act run by (auto simp: l record_updates slice_simps in_flight_ok_def)
        have led: "same_ledger (slice i d) (slice i d3)"
          using c by (simp add: same_ledger_def l digest_of_def record_updates)
        show ?thesis
          by (rule movesI [OF at_self [OF q(9)]], rule stops [OF s(1) rest _ _ _ led]) (simp_all add: l)
      qed
      done
  qed
  done

section \<open>Starting a run and an attempt\<close>

lemma post_insert_segment:
  assumes "at_slice d0 i l d" and "sg_job_id s = i"
    and "\<And>d'. live_segment_state (sg_state s) \<longrightarrow> sl_live l = {} \<Longrightarrow>
      at_slice d0 i (l\<lparr>sl_live := sl_live l \<union> only_if (live_segment_state (sg_state s)) s\<rparr>) d' \<Longrightarrow> Q () d'"
  shows "post (insert_segment s) d Q"
  using at_insert_segment [OF assms(1,2)] assms(3) by (auto intro!: postI)

lemma post_insert_attempt:
  assumes "at_slice d0 i l d" and "at_job_id a = i" "at_state a = ''SENDING''"
    and "\<And>d'. sl_sending l = {} \<Longrightarrow> at_slice d0 i (l\<lparr>sl_sending := {a}\<rparr>) d' \<Longrightarrow> Q () d'"
  shows "post (insert_attempt a) d Q"
  using at_insert_attempt [OF assms(1-3)] assms(4) by (auto intro!: postI)

definition runs_at :: "string \<Rightarrow> db \<Rightarrow> string \<Rightarrow> string \<Rightarrow> bool" where
  "runs_at i d segment digest = (\<exists>s. running (slice i d) s \<and> sg_id s = segment \<and> sg_committed_digest s = digest)"

lemma start_run_new_post:
  assumes inv: "imp_inv d"
  shows "post (start_run_new_tx req tn now) d (\<lambda>_ d'. moves (sr_job_id req) d d' \<and>
    runs_at (sr_job_id req) d' (sr_run_segment_id req) (pm_checkpoint_digest (sr_permit req)) \<and>
    sl_live (slice (sr_job_id req) d) = {})"
  unfolding start_run_new_tx_def Let_def
  apply (intro post_bind post_get_import, rule post_atomic, intro post_bind, rule post_atomic)
  apply (rule post_bind, rule post_atomic, rule post_bind, rule post_atomic, rule post_bind, rule post_atomic)
  subgoal premises p for jb
  proof -
    let ?i = "sr_job_id req" and ?seg = "sr_run_segment_id req"
    obtain j where r: "reading ?i d jb j" using readingI [OF inv p(1)] by blast
    note c = readingD [OF r] and at0 = imp_inv_at [OF inv, of ?i]
    have nr: "ij_state j \<noteq> ImportRunning" and st: "ij_state j = ImportReady \<or> ij_state j = ImportPausedSafe"
      using p(5) c(8) by auto
    have st': "ij_state j = ImportReady \<or> ij_state j = ImportPausedSafe \<or> decision_state (ij_state j)" using st by blast
    note rr = reading_resting [OF r nr]
    show ?thesis
      apply (rule post_bind, rule post_insert_segment [OF at0], simp)
      apply (rule post_bind, rule post_apply, assumption, use c in simp)
      apply (rule post_bind, rule post_job_all, assumption, use c in simp, use c in simp, simp add: record_updates)
      apply (rule post_bind, rule post_quiet_unit, assumption, rule post_atomic)
      subgoal premises q for d1 m d2 u d3 v d4
      proof -
        note l = at_sliceD [OF q(8)]
        let ?s = "\<lparr>sg_id = ?seg, sg_job_id = ?i, sg_kind = sr_kind req, sg_state = ''ACTIVE'',
          sg_initial_digest = im_checkpoint_digest jb, sg_committed_digest = im_checkpoint_digest jb,
          sg_active_attempt_id = None, sg_stop_reason = None, sg_after_resolution = None,
          sg_resolution_command_id = None, sg_created_at = now, sg_updated_at = now\<rparr>"
        have run: "running (slice ?i d4) ?s"
          using q(4-6) c rr by (simp add: l record_updates slice_simps)
        have led: "same_ledger (slice ?i d) (slice ?i d4)"
          using c by (simp add: same_ledger_def l digest_of_def record_updates)
        have "moves ?i d d4"
          by (rule movesI [OF at_self [OF q(8)]], rule starts [OF rr(1) st' run _ led]) (use rr(4) in \<open>simp_all add: l\<close>)
        moreover have "runs_at ?i d4 ?seg (pm_checkpoint_digest (sr_permit req))"
          unfolding runs_at_def using run p(6) by (intro exI [of _ ?s]) simp
        ultimately show ?thesis using rr(3) by simp
      qed
      done
  qed
  done

lemma transfer_canonical_Inr: "transfer_canonical_decimal v = Inr w \<longleftrightarrow> canonical_big v = Some w"
  by (auto simp: transfer_canonical_decimal_def split: option.splits)

lemma begin_guard_range:
  assumes "begin_attempt_guard req p ps = Inr start" and "transfer_canonical_decimal (cp_logical_offset c) = Inr start"
  shows "offset_of (ar_start_offset req) = offset_of (cp_logical_offset c)"
    and "offset_less (cp_logical_offset c) (ar_end_offset req)"
proof -
  from assms(1) obtain e where g: "transfer_canonical_decimal (ar_start_offset req) = Inr start"
    "transfer_canonical_decimal (ar_end_offset req) = Inr e" "decimal_greater e start = Inr True"
    by (auto simp: begin_attempt_guard_def rbind_Inr_iff)
  have idem: "canonical_big start = Some start" "canonical_big e = Some e"
    using g(1,2) canonical_big_idem by (auto simp: transfer_canonical_Inr)
  have "dec_val start < dec_val e"
    using g(3) idem by (auto simp: decimal_greater_def rbind_Inr_iff transfer_canonical_Inr)
  with g(1,2) assms(2) show "offset_of (ar_start_offset req) = offset_of (cp_logical_offset c)"
    "offset_less (cp_logical_offset c) (ar_end_offset req)"
    by (simp_all add: transfer_canonical_Inr offset_of_def offset_less_def)
qed

lemma post_replay_matches: "Q () d \<Longrightarrow> post (replay_matches_tx req s) d Q"
  by (auto simp: replay_matches_tx_def post_def tx_simps)

lemma begin_attempt_post:
  assumes inv: "imp_inv d" and guard: "begin_attempt_guard req p ps = Inr start"
  shows "post (begin_attempt_tx req start profile p now) d
    (\<lambda>_ d'. moves (ar_job_id req) d d' \<and> keeps_run (ar_job_id req) d d')"
  unfolding begin_attempt_tx_def Let_def
  apply (intro post_bind post_get_import, rule post_atomic, intro post_bind, rule post_atomic)
  apply (rule post_bind, rule post_atomic, rule post_bind, rule post_atomic)
  apply (rule post_bind, rule post_atomic, rule post_bind, rule post_atomic)
  apply (rule post_bind, rule post_replay_matches)
  apply (rule post_bind, rule post_atomic)
  apply (rule post_bind, rule post_count_sending [OF imp_inv_at [OF inv]])
  apply (rule post_bind, rule post_atomic)
  subgoal premises q0 for jb offset s n
  proof -
    let ?i = "ar_job_id req"
    obtain j where r: "reading ?i d jb j" using readingI [OF inv q0(1)] by blast
    note c = readingD [OF r] and at0 = imp_inv_at [OF inv, of ?i]
    have run: "ij_state j = ImportRunning" using q0(3) c(8) by simp
    obtain s0 where s0: "running (slice ?i d) s0" "sl_live (slice ?i d) = {s0}" "ij_active_run_segment_id j = Some (sg_id s0)"
      "sg_committed_digest s0 = ij_checkpoint_digest j" "live_segment_state (sg_state s0)"
      "ij_pause_requested j \<longleftrightarrow> sg_state s0 = ''STOPPING''" "sg_job_id s0 = ?i" "sl_sending (slice ?i d) = {} \<longleftrightarrow> sg_active_attempt_id s0 = None"
      by (rule reading_running [OF r run], rule that, assumption+)
    have s: "s = s0" using at_live_row [OF at0, of s0 s] s0(2,3) q0(3,6) c(7) by (auto simp: active_is_def dest: find_SomeD)
    have cp: "sl_cps (slice ?i d) (ij_checkpoint_digest j) = Some (im_checkpoint jb)"
    proof -
      have "im_checkpoint jb \<noteq> zero_checkpoint" using q0(4) by (auto simp: zero_checkpoint_def transfer_canonical_decimal_def canonical_big_def parse_digits_def)
      then show ?thesis using r by (auto simp: reading_def split: if_splits)
    qed
    have rg: "offset_of (ar_start_offset req) = offset_of (cp_logical_offset (im_checkpoint jb))"
      "offset_less (cp_logical_offset (im_checkpoint jb)) (ar_end_offset req)"
      using begin_guard_range [OF guard, of "im_checkpoint jb"] q0(4,5) by simp_all
    show ?thesis
      apply (rule post_bind, rule post_insert_attempt [OF at0], simp, simp)
      apply (rule post_segment [where s = s], assumption, use s s0 in simp, use s s0 q0(3) c in \<open>simp add: active_is_def\<close>, simp, simp)
      subgoal premises q for d1 d2
      proof -
        note l = at_sliceD [OF q(4)]
        let ?s = "s\<lparr>sg_active_attempt_id := Some (ar_attempt_id req), sg_updated_at := now\<rparr>"
        have run': "running (slice ?i d2) ?s"
          using s0 run c cp rg s q(3) q0(3) by (auto simp: l slice_simps range_ok_def split: option.splits)
        have led: "same_ledger (slice ?i d) (slice ?i d2)" by (simp add: same_ledger_def l digest_of_def)
        have "moves ?i d d2"
          by (rule movesI [OF at_self [OF q(4)]], rule sends [OF s0(1) q(1) run' _ _ led]) (simp_all add: l s)
        moreover have "keeps_run ?i d d2" unfolding keeps_run_def using s0(1) run' s by (intro exI [of _ s0] exI [of _ ?s]) simp
        ultimately show ?thesis by simp
      qed
      done
  qed
  done

end
