(* ===== verification/Import_Commands.thy ===== *)
theory Import_Commands
  imports Import_Steps
begin

text \<open>
  The commands and the recovery of the import engine as steps of \<open>slice_step\<close>, in the way of
  \<open>Import_Steps\<close>: abort, decisions, cancel, cleanup, creation, recovery.
\<close>

section \<open>Abort and cancel\<close>

lemma decision_resting:
  assumes r: "reading i d job j" and st: "decision_state (ij_state j)"
  obtains n where "resting (slice i d) (ij_state j)" "im_open_incident job = Some n" "sl_open (slice i d) = {n}"
    "in_parent_digest n = ij_checkpoint_digest j" "in_kind n = kind_of_state (ij_state j)"
    "range_ok (sl_cps (slice i d)) (in_parent_digest n) (in_start_offset n) (in_end_offset n)"
proof -
  have "ij_state j \<noteq> ImportRunning" using st by (auto simp: decision_state_def)
  note rr = reading_resting [OF r this]
  obtain n where n: "n \<in> sl_open (slice i d)" "in_parent_digest n = digest_of (slice i d)" "in_kind n = kind_of_state (ij_state j)"
    using rr(2) st by (auto simp: decision_ok_def)
  have op: "sl_open (slice i d) = {n}" using open_single [OF readingD(1) [OF r] n(1)] .
  then have im: "im_open_incident job = Some n" using readingD(11) [OF r] by (auto split: option.splits)
  have "open_ok (slice i d)" using imp_invD(3) [OF readingD(1) [OF r]] readingD(12) [OF r] by (rule job_ok_parts)
  then have "range_ok (sl_cps (slice i d)) (in_parent_digest n) (in_start_offset n) (in_end_offset n)"
    using n(1) by (simp add: open_ok_def)
  with rr(1) im op n(2,3) that readingD(10) [OF r] show thesis by simp
qed

lemma post_closed_segment:
  assumes at: "at_slice d0 i l d" and none: "sl_live l = {}" and P: "\<And>s. P s \<Longrightarrow> sg_job_id s = i"
    and f: "\<And>s. sg_id (f s) = sg_id s" "\<And>s. sg_job_id (f s) = sg_job_id s" "\<And>s. \<not> live_segment_state (sg_state (f s))"
    and Q: "\<And>n d'. at_slice d0 i l d' \<Longrightarrow> Q n d'"
  shows "post (upd_segment P f) d Q"
proof (rule postI)
  fix n d' assume "upd_segment P f d = Inr (n, d')"
  then have d': "d' = segments_t_update (\<lambda>_. tbl_upd P f (segments_t d)) d" by (auto simp: upd_segment_def tx_simps)
  have inv: "tasks_inv d" and l: "slice i d = l" using at by (simp_all add: at_slice_def)
  have "{s \<in> set (segments_t d'). is_live_of k s} = {s \<in> set (segments_t d). is_live_of k s}" for k
  proof (cases "k = i")
    case True
    have "{s \<in> set (segments_t d). is_live_of i s} = {}" using none l by (auto simp: slice_def)
    then show ?thesis using f True by (auto simp: d' set_tbl_upd is_live_of_def)
  next
    case False
    have "\<not> P s" if "is_live_of k s" for s using P [of s] that False by (auto simp: is_live_of_def)
    moreover have "\<not> is_live_of k (f s)" for s using f(3) by (simp add: is_live_of_def)
    ultimately show ?thesis by (auto simp: d' set_tbl_upd image_iff)
  qed
  then have "slice k d' = slice k d" for k by (simp add: slice_def d')
  then have "at_slice d0 i l d'"
    using at inv tasks_inv_frame [of d' d] by (simp add: at_slice_def keys_ok_def d' map_key_tbl_upd f)
  then show "Q n d'" by (rule Q)
qed

lemma abort_new_post:
  assumes inv: "imp_inv d"
  shows "post (abort_new_tx req scope digest tn now) d (\<lambda>_ d'. moves (ab_job_id req) d d')"
  unfolding abort_new_tx_def Let_def
  apply (intro post_bind post_get_import, rule post_atomic, intro post_bind, rule post_atomic)
  apply (rule post_bind, rule post_atomic, rule post_bind, rule post_count_sending [OF imp_inv_at [OF inv]])
  apply (rule post_bind, rule post_atomic)
  subgoal premises p for jb n0
  proof -
    let ?i = "ab_job_id req"
    obtain j where r: "reading ?i d jb j" using readingI [OF inv p(1)] by blast
    note c = readingD [OF r] and at0 = imp_inv_at [OF inv, of ?i]
    have st: "decision_state (ij_state j)" using p(3) c(8) by simp
    obtain n where n: "resting (slice ?i d) (ij_state j)" "im_open_incident jb = Some n" "sl_open (slice ?i d) = {n}"
      "in_parent_digest n = ij_checkpoint_digest j" "in_kind n = kind_of_state (ij_state j)"
      by (rule decision_resting [OF r st])
    have rest0: "sl_live (slice ?i d) = {}" "sl_sending (slice ?i d) = {}" using n(1) by (simp_all add: resting_def)
    show ?thesis
      apply (rule post_bind, rule post_incident [OF at0 n(3)])
          apply (use p(4) n(2) in simp, simp, simp, simp)
      apply (rule post_bind, rule post_closed_segment, assumption, use rest0 in simp, simp, simp add: closed_segment_def,
          simp add: closed_segment_def, simp add: closed_segment_def live_segment_state_def)
      apply (rule post_bind, rule post_apply, assumption, use c in simp)
      apply (rule post_bind, rule post_job_all, assumption, use c in simp, use c in simp, simp add: record_updates)
      apply (rule post_bind, rule post_quiet, assumption)
      apply (rule post_bind, rule post_quiet_unit, assumption, rule post_bind, rule post_quiet_unit, assumption, rule post_atomic)
      subgoal premises q for d1 u d2 m d3 v d4 w d5 x d6 y d7
      proof -
        note l = at_sliceD [OF q(10)]
        have rest: "resting (slice ?i d7) ImportAborted"
          using q(4-6) c rest0 by (simp add: l record_updates slice_simps)
        have led: "same_ledger (slice ?i d) (slice ?i d7)"
          using c by (simp add: same_ledger_def l digest_of_def record_updates)
        show ?thesis
          by (rule movesI [OF at_self [OF q(10)]], rule aborts [OF n(1) st rest led]) (simp add: l)
      qed
      done
  qed
  done

section \<open>Decisions\<close>

lemma validate_stateD:
  assumes "validate_resolution_state req job = Inr n"
  shows "im_open_incident job = Some n" and "im_checkpoint_digest job = rc_parent_digest req" and "in_id n = rc_incident_id req"
    and "in_parent_digest n = rc_parent_digest req" and "decision_state (t_state (im_task job))"
    and "rc_decision req \<noteq> DecisionReplayExact \<Longrightarrow> rc_decision req = DecisionAssumeCommitted \<or> rc_decision req = DecisionAcceptPartial"
  using assms by (auto simp: validate_resolution_state_def rbind_Inr_iff decision_state_def split: option.splits if_splits)

lemma resolved_advances:
  assumes "resolved_checkpoint req n job = Inr c" and "offset_less (cp_logical_offset (im_checkpoint job)) (in_end_offset n)"
    and "tr_parent_digest t = im_checkpoint_digest job" and "tr_sequence t = cp_sequence c" and "tr_cause t = rc_decision req"
    and "rc_decision req = DecisionAssumeCommitted \<or> rc_decision req = DecisionAcceptPartial"
  shows "advances t (im_checkpoint job) c" and "cp_logical_offset c = in_end_offset n"
  using assms by (auto simp: resolved_checkpoint_def next_checkpoint_def rbind_Inr_iff advances_def keeps_offset_def split: if_splits)

lemma resolved_not_zero: "im_checkpoint job = zero_checkpoint \<Longrightarrow> resolved_checkpoint req n job \<noteq> Inr c"
  using zero_no_child by (auto simp: resolved_checkpoint_def rbind_Inr_iff)

definition may_return :: "string \<Rightarrow> db \<Rightarrow> bool" where
  "may_return i d = (\<exists>n. sl_open (slice i d) = {n} \<and> in_parent_digest n = digest_of (slice i d) \<and>
     (in_kind n = ''PARTIAL'' \<or> in_kind n = ''UNKNOWN''))"

text \<open>The facts a decision starts from.\<close>

lemma deciding:
  assumes inv: "imp_inv d" and run: "get_import_in_tx i d = Inr (jb, d)" and v: "validate_resolution_state req jb = Inr n"
  obtains j where "reading i d jb j" "resting (slice i d) (ij_state j)" "decision_state (ij_state j)" "sl_open (slice i d) = {n}"
    "sl_live (slice i d) = {}" "sl_sending (slice i d) = {}" "in_parent_digest n = ij_checkpoint_digest j"
    "in_kind n = ''PARTIAL'' \<or> in_kind n = ''UNKNOWN''"
    "range_ok (sl_cps (slice i d)) (in_parent_digest n) (in_start_offset n) (in_end_offset n)"
proof -
  obtain j where r: "reading i d jb j" using readingI [OF inv run] by blast
  note c = readingD [OF r] and w = validate_stateD [OF v]
  have st: "decision_state (ij_state j)" using w(5) c(8) by simp
  obtain n' where n: "resting (slice i d) (ij_state j)" "im_open_incident jb = Some n'" "sl_open (slice i d) = {n'}"
    "in_parent_digest n' = ij_checkpoint_digest j" "in_kind n' = kind_of_state (ij_state j)"
    "range_ok (sl_cps (slice i d)) (in_parent_digest n') (in_start_offset n') (in_end_offset n')"
    by (rule decision_resting [OF r st])
  have "n' = n" using n(2) w(1) by simp
  with n r st that [of j] show thesis by (simp add: kind_of_state_def resting_def)
qed

lemma resolve_replay_post:
  assumes inv: "imp_inv d" and replay: "rc_decision req = DecisionReplayExact"
  shows "post (resolve_new_tx hash req scope digest tn now) d (\<lambda>out d'. moves (rc_job_id req) d d' \<and>
    sl_live (slice (rc_job_id req) d) = {} \<and> runs_at (rc_job_id req) d' (rc_run_segment_id req) (im_checkpoint_digest out) \<and>
    may_return (rc_job_id req) d')"
  unfolding resolve_new_tx_def Let_def replay
  apply (simp only: refl if_True simp_thms if_False)
  apply (intro post_bind post_get_import, rule post_atomic, intro post_bind, rule post_atomic)
  apply (rule post_bind, rule post_count_sending [OF imp_inv_at [OF inv]])
  apply (rule post_bind, rule post_atomic, rule post_bind, rule post_atomic, rule post_bind, rule post_atomic)
  subgoal premises p for jb n k c child
  proof -
    let ?i = "rc_job_id req" and ?seg = "rc_run_segment_id req"
    obtain j where r: "reading ?i d jb j" and rest: "resting (slice ?i d) (ij_state j)" and st: "decision_state (ij_state j)"
      and op: "sl_open (slice ?i d) = {n}" and rest0: "sl_live (slice ?i d) = {}" "sl_sending (slice ?i d) = {}"
      and n: "in_parent_digest n = ij_checkpoint_digest j" "in_kind n = ''PARTIAL'' \<or> in_kind n = ''UNKNOWN''"
      by (rule deciding [OF inv p(1,3)])
    note c = readingD [OF r] and at0 = imp_inv_at [OF inv, of ?i]
    have ch: "child = ij_checkpoint_digest j" using p(7) c(6) by simp
    show ?thesis
      apply (rule post_bind, rule post_insert_segment [OF at0], simp)
      apply (rule post_bind, rule post_atomic)
      apply (rule post_bind, rule post_apply, assumption, use c in simp)
      apply (rule post_bind, rule post_job, assumption, use c in simp, simp, simp add: record_updates)
      apply (rule post_bind, rule post_quiet_unit, assumption, rule post_bind, rule post_quiet_unit, assumption, rule post_atomic)
      subgoal premises q for d1 m d2 d3 u d4 v d5
      proof -
        note l = at_sliceD [OF q(10)]
        let ?s = "the_elem (sl_live (slice ?i d5))"
        have run: "running (slice ?i d5) ?s"
          using q(4-6) c rest0 ch by (simp add: l record_updates slice_simps)
        have led: "same_ledger (slice ?i d) (slice ?i d5)"
          using c ch by (simp add: same_ledger_def l digest_of_def record_updates)
        have "moves ?i d d5"
          by (rule movesI [OF at_self [OF q(10)]], rule starts [OF rest _ run _ led]) (use st rest0 in \<open>simp_all add: l\<close>)
        moreover have "runs_at ?i d5 ?seg child"
          unfolding runs_at_def using run rest0 by (intro exI [of _ ?s]) (simp add: l live_segment_state_def)
        moreover have "may_return ?i d5"
          using op n ch c by (simp add: may_return_def l digest_of_def)
        ultimately show ?thesis using rest0 by simp
      qed
      done
  qed
  done

lemma commit_resolution_post:
  assumes at: "at_slice d0 i l d" and i: "rc_job_id req = i" and op: "sl_open l = {n}" and id: "rc_incident_id req = in_id n"
    and Q: "\<And>d' t. sl_cps l child = None \<Longrightarrow> tr_job_id t = i \<Longrightarrow> tr_sequence t = cp_sequence cp \<Longrightarrow> tr_cause t = rc_decision req \<Longrightarrow>
      tr_parent_digest t = rc_parent_digest req \<Longrightarrow> tr_child_digest t = child \<Longrightarrow> tr_incident_id t = in_id n \<Longrightarrow>
      at_slice d0 i (l\<lparr>sl_cps := (sl_cps l)(child \<mapsto> cp), sl_trs := sl_trs l @ [t], sl_open := {}\<rparr>) d' \<Longrightarrow> Q () d'"
  shows "post (commit_resolution_tx req n child cp now) d Q"
  unfolding commit_resolution_tx_def Let_def i
  apply (rule post_bind, rule post_insert_checkpoint [OF at], rule post_bind, rule post_insert_transition, assumption, simp)
  apply (rule post_incident, assumption, use op in simp, use id in simp, simp, simp, simp)
  subgoal premises q for d1 d2 d3
    by (rule Q [OF q(1) _ _ _ _ _ _ q(4) [simplified]]) simp_all
  done

lemma resolve_commit_post:
  assumes inv: "imp_inv d" and commit: "rc_decision req \<noteq> DecisionReplayExact"
  shows "post (resolve_new_tx hash req scope digest tn now) d (\<lambda>out d'. moves (rc_job_id req) d d' \<and>
    sl_live (slice (rc_job_id req) d) = {} \<and> (rc_after_resolution req = ResolutionPause \<or>
      runs_at (rc_job_id req) d' (rc_run_segment_id req) (im_checkpoint_digest out)))"
  unfolding resolve_new_tx_def Let_def
  apply (simp only: commit not_False_eq_True if_False simp_thms)
  apply (intro post_bind post_get_import, rule post_atomic, intro post_bind, rule post_atomic)
  apply (rule post_bind, rule post_count_sending [OF imp_inv_at [OF inv]])
  apply (rule post_bind, rule post_atomic, rule post_bind, rule post_atomic, rule post_bind, rule post_atomic)
  subgoal premises p for jb n k c child
  proof -
    let ?i = "rc_job_id req" and ?seg = "rc_run_segment_id req" and ?pausing = "rc_after_resolution req = ResolutionPause"
    obtain j where r: "reading ?i d jb j" and rest: "resting (slice ?i d) (ij_state j)" and st: "decision_state (ij_state j)"
      and op: "sl_open (slice ?i d) = {n}" and rest0: "sl_live (slice ?i d) = {}" "sl_sending (slice ?i d) = {}"
      and n: "in_parent_digest n = ij_checkpoint_digest j"
      and rg: "range_ok (sl_cps (slice ?i d)) (in_parent_digest n) (in_start_offset n) (in_end_offset n)"
      by (rule deciding [OF inv p(1,3)])
    note c = readingD [OF r] and at0 = imp_inv_at [OF inv, of ?i] and v = validate_stateD [OF p(3)]
    have "im_checkpoint jb \<noteq> zero_checkpoint" using resolved_not_zero p(6) by blast
    then have cp: "sl_cps (slice ?i d) (ij_checkpoint_digest j) = Some (im_checkpoint jb)"
      using r by (auto simp: reading_def split: if_splits)
    have less: "offset_less (cp_logical_offset (im_checkpoint jb)) (in_end_offset n)" using rg cp n by (simp add: range_ok_def)
    note adv = resolved_advances [OF p(6) less _ _ _ v(6) [OF commit]]
    show ?thesis
      apply (rule post_bind, rule post_insert_segment [OF at0], simp)
      apply (rule post_bind, rule commit_resolution_post [where n = n], assumption, simp, use op in simp, use v(3) in simp)
      apply (rule post_bind, rule post_apply, assumption, use c in simp)
      apply (rule post_bind, rule post_job, assumption, use c in simp, simp, simp add: record_updates)
      apply (rule post_bind, rule post_quiet_unit, assumption, rule post_bind, rule post_quiet_unit, assumption, rule post_atomic)
      subgoal premises q for d1 d2 t m d3 d4 u d5 w d6
      proof -
        note l = at_sliceD [OF q(18)]
        let ?s = "the_elem (sl_live (slice ?i d6))"
        have run: "running (slice ?i d6) ?s" if "\<not> ?pausing"
          using q(12-14) c rest0 that by (simp add: l record_updates slice_simps)
        have paused: "resting (slice ?i d6) ImportPausedSafe" if "?pausing"
          using q(12-14) c rest0 that by (simp add: l record_updates slice_simps)
        have t: "advances t (im_checkpoint jb) c" "cp_logical_offset c = in_end_offset n"
          using adv [of t] q(5-7) v(2) by simp_all
        have led: "extends_ledger (slice ?i d) t c (slice ?i d6)"
          using q(3,7,8) c(6,10) v(2) cp t by (simp add: extends_ledger_def l digest_of_def)
        have to: "(running (slice ?i d6) ?s \<and> sl_sending (slice ?i d6) = {}) \<or> resting (slice ?i d6) ImportPausedSafe"
          using run paused rest0 by (cases ?pausing) (simp_all add: l)
        have "moves ?i d d6"
          by (rule movesI [OF at_self [OF q(18)]], rule decides [OF rest st op led q(9) _ t(2) to]) (use v(6) [OF commit] q(6) in \<open>simp_all add: l\<close>)
        moreover have "runs_at ?i d6 ?seg child" if "\<not> ?pausing"
          unfolding runs_at_def using run [OF that] rest0 that by (intro exI [of _ ?s]) (simp add: l live_segment_state_def)
        ultimately show ?thesis using rest0 by auto
      qed
      done
  qed
  done

text \<open>A replay whose permit cannot be activated goes back to its decision.\<close>

lemma restore_replay_post:
  assumes inv: "imp_inv d" and ret: "may_return i d"
  shows "post (restore_replay_tx i segment digest tn now) d (\<lambda>_ d'. moves i d d')"
  unfolding restore_replay_tx_def
  apply (intro post_bind post_get_import post_if, rule post_atomic, rule moves_refl [OF inv])
  apply (intro post_bind post_count_sending [OF imp_inv_at [OF inv]] post_if, rule post_atomic, rule moves_refl [OF inv])
  unfolding Let_def
  subgoal premises p for jb k
  proof -
    obtain j where r: "reading i d jb j" using readingI [OF inv p(1)] by blast
    note c = readingD [OF r] and at0 = imp_inv_at [OF inv, of i]
    have run: "ij_state j = ImportRunning" using p(2) c(8) by simp
    obtain s where s: "running (slice i d) s" "sl_live (slice i d) = {s}" "ij_active_run_segment_id j = Some (sg_id s)"
      "sg_committed_digest s = ij_checkpoint_digest j" "live_segment_state (sg_state s)"
      "ij_pause_requested j \<longleftrightarrow> sg_state s = ''STOPPING''" "sg_job_id s = i" "sl_sending (slice i d) = {} \<longleftrightarrow> sg_active_attempt_id s = None"
      by (rule reading_running [OF r run], rule that, assumption+)
    have send: "sl_sending (slice i d) = {}" using p(3,4) by simp
    have act: "sg_state s = ''ACTIVE''" using s(1,8) send by (auto simp: running_def in_flight_ok_def)
    obtain n where n: "sl_open (slice i d) = {n}" "in_parent_digest n = digest_of (slice i d)"
      "in_kind n = ''PARTIAL'' \<or> in_kind n = ''UNKNOWN''" using ret by (auto simp: may_return_def)
    have im: "im_open_incident jb = Some n" using c(11) n(1) by (auto split: option.splits)
    let ?st = "if in_kind n = ''PARTIAL'' then ImportNeedsPartialDecision else ImportNeedsUnknownDecision"
    show ?thesis
      unfolding im option.sel
      apply (rule post_bind, rule post_apply [OF at0 c(3)])
      apply (rule post_bind, rule post_segment_all [where s = s], assumption)
           apply (use s in simp, use s p(2) c in \<open>simp add: active_is_def\<close>, use s p(2) c act in \<open>simp add: active_is_def\<close>, simp, simp)
      apply (rule post_bind, rule post_job_all, assumption, use c in simp, use c in simp, simp add: record_updates)
      apply (rule post_atomic)
      subgoal premises q for m d1 u d2 v d3
      proof -
        note l = at_sliceD [OF q(6)]
        have rest: "resting (slice i d3) ?st"
          using q(2-4) c send s(6) act by (simp add: l record_updates slice_simps)
        have led: "same_ledger (slice i d) (slice i d3)"
          using c by (simp add: same_ledger_def l digest_of_def record_updates)
        have "digest_of (slice i d3) = digest_of (slice i d)" using led by (simp add: same_ledger_def)
        then have dec: "decision_ok (slice i d3) ?st"
          using n by (auto simp: decision_ok_def l kind_of_state_def)
        show ?thesis
          by (rule movesI [OF at_self [OF q(6)]], rule undoes [OF s(1) send rest dec led]) (simp add: l)
      qed
      done
  qed
  done

lemma cancel_now_post:
  assumes r: "reading i d jb j" and live: "sl_live (slice i d) = set_option live" and send: "sl_sending (slice i d) = {}"
  shows "post (cancel_now_tx jb i live tn now) d (\<lambda>_ d'. moves i d d')"
proof -
  note c = readingD [OF r] and at0 = imp_inv_at [OF readingD(1) [OF r], of i]
  have rest: "moves i d d'"
    if "at_slice d i ((slice i d)\<lparr>sl_live := {}, sl_meta := Some m, sl_job := Some (stopped_job ImportCanceled m now j)\<rparr>) d'"
      "t_state m = ImportCanceled" "t_terminal m" "t_kind m = t_kind (im_task jb)" for m d'
  proof -
    note l = at_sliceD [OF that(1)]
    have st: "\<not> decision_state ImportCanceled" by (simp add: decision_state_def)
    have rest: "resting (slice i d') ImportCanceled"
      using that(2-4) c send by (simp add: l record_updates slice_simps)
    have led: "same_ledger (slice i d) (slice i d')"
      using c by (simp add: same_ledger_def l digest_of_def record_updates)
    show ?thesis by (rule rests_moves [OF that(1) c(12) rest st led]) (simp add: l)
  qed
  have tail: "post (tx_bind (apply_in_tx tn (im_task jb) (state_change ImportCanceled True ''CANCELED'')) (\<lambda>updated.
     tx_bind (one_row (upd_job (\<lambda>j. ij_job_id j = i \<and> ij_state j = t_state (im_task jb))
       (stopped_job ImportCanceled updated now)) ErrImportState) (\<lambda>_.
     tx_return (stopped_out updated jb)))) d1 (\<lambda>_ d'. moves i d d')"
    if at: "at_slice d i ((slice i d)\<lparr>sl_live := {}\<rparr>) d1" for d1
    apply (rule post_bind, rule post_apply [OF at], use c in simp)
    apply (rule post_bind, rule post_job, assumption, use c in simp, simp, simp add: record_updates)
    apply (rule post_atomic)
    subgoal premises q for m d2 d3
      by (rule rest [OF q(6)]) (use q(2-4) in \<open>simp_all add: record_updates\<close>)
    done
  show ?thesis
  proof (cases live)
    case None
    have "at_slice d i ((slice i d)\<lparr>sl_live := {}\<rparr>) d" using at0 live None by (simp add: at_slice_def)
    note t = tail [OF this]
    show ?thesis unfolding cancel_now_tx_def None option.case
      by (rule post_bind, rule post_atomic, rule t)
  next
    case (Some s)
    have one: "sl_live (slice i d) = {s}" using live Some by simp
    show ?thesis unfolding cancel_now_tx_def Some option.case
      apply (rule post_bind, rule post_segment [OF at0 one], simp, simp add: closed_segment_def, simp add: closed_segment_def)
      apply (rule tail, simp add: closed_segment_def live_segment_state_def)
      done
  qed
qed

lemma cancel_request_post:
  assumes r: "reading i d jb j" and live: "sl_live (slice i d) = set_option live"
  shows "post (cancel_request_tx jb i live tn now) d (\<lambda>_ d'. moves i d d')"
proof (cases live)
  case None
  then show ?thesis by (simp add: cancel_request_tx_def post_atomic)
next
  case (Some s)
  note c = readingD [OF r] and at0 = imp_inv_at [OF readingD(1) [OF r], of i]
  have one: "sl_live (slice i d) = {s}" using live Some by simp
  show ?thesis
    unfolding cancel_request_tx_def Some option.case
    apply (rule post_bind, rule post_atomic)
    apply (rule post_bind, rule post_segment [OF at0 one], simp, simp, simp)
    apply (rule post_bind, rule post_apply, assumption, use c in simp)
    apply (rule post_bind, rule post_job, assumption, use c in simp, simp, simp add: record_updates)
    apply (rule post_atomic)
    subgoal premises q for d1 m d2 d3
    proof -
      note l = at_sliceD [OF q(9)]
      have run: "ij_state j = ImportRunning" using q(1) c(8) by simp
      obtain s0 where s0: "running (slice i d) s0" "sl_live (slice i d) = {s0}" "ij_active_run_segment_id j = Some (sg_id s0)"
        "sg_committed_digest s0 = ij_checkpoint_digest j" "live_segment_state (sg_state s0)"
        "ij_pause_requested j \<longleftrightarrow> sg_state s0 = ''STOPPING''" "sg_job_id s0 = i" "sl_sending (slice i d) = {} \<longleftrightarrow> sg_active_attempt_id s0 = None"
        by (rule reading_running [OF r run], rule that, assumption+)
      have s: "s0 = s" using s0(2) one by simp
      let ?s = "s\<lparr>sg_state := ''STOPPING'', sg_stop_reason := Some import_stop_user_canceled, sg_updated_at := now\<rparr>"
      have fl: "in_flight_ok (slice i d) s" using s0(1) s by (simp add: running_def)
      have run': "running (slice i d3) ?s"
        using q(2) q(5-7) c s0 s fl run by (auto simp: l record_updates slice_simps in_flight_ok_def)
      have led: "same_ledger (slice i d) (slice i d3)"
        using c by (simp add: same_ledger_def l digest_of_def record_updates)
      show ?thesis
        by (rule movesI [OF at_self [OF q(9)]], rule stops [OF s0(1) run' _ _ _ led]) (simp_all add: l s)
    qed
    done
qed

lemma moves_at: "moves i d d' \<Longrightarrow> at_slice d i (slice i d') d'"
  by (simp add: moves_def)

lemma moves_quiet: "moves i d d1 \<Longrightarrow> at_slice d i (slice i d1) d2 \<Longrightarrow> moves i d d2"
  by (auto simp: moves_def at_slice_def)

lemma live_option:
  assumes inv: "imp_inv d"
  shows "sl_live (slice i d) = set_option (List.find (is_live_of i) (segments_t d))"
proof (cases "List.find (is_live_of i) (segments_t d)")
  case None
  note none = None [unfolded find_None_iff]
  show ?thesis using none by (simp add: slice_def None)
next
  case (Some s)
  then have s: "s \<in> sl_live (slice i d)" by (auto simp: slice_def dest: find_SomeD)
  have "job_ok (slice i d)" using inv by (rule imp_invD)
  with s have "sl_live (slice i d) = {s}"
    by (auto simp: job_ok_def running_def resting_def split: if_splits)
  with Some show ?thesis by simp
qed

lemma cancel_new_post:
  assumes inv: "imp_inv d"
  shows "post (cancel_new_tx i request_id revision scope digest tn now) d (\<lambda>_ d'. moves i d d')"
  unfolding cancel_new_tx_def Let_def
  apply (intro post_bind post_get_import, rule post_atomic, rule post_bind, rule post_count_sending [OF imp_inv_at [OF inv]])
  apply (rule post_bind, rule post_atomic, rule post_if)
   apply (rule post_bind, rule post_quiet_unit [OF imp_inv_at [OF inv]], rule post_atomic,
      erule moves_quiet [OF moves_refl [OF inv]])
  apply (intro post_bind, rule post_atomic, rule post_bind, rule post_atomic, rule post_bind, rule post_atomic)
  subgoal premises p for jb k
  proof -
    obtain j where r: "reading i d jb j" using readingI [OF inv p(1)] by blast
    note live = live_option [OF inv, of i]
    have "post (if k = 0 then cancel_now_tx jb i (List.find (is_live_of i) (segments_t d)) tn now
        else cancel_request_tx jb i (List.find (is_live_of i) (segments_t d)) tn now) d (\<lambda>_ d'. moves i d d')"
      using p(2) by (intro post_if cancel_now_post [OF r live] cancel_request_post [OF r live]) simp
    then show ?thesis
      apply (intro post_bind, elim post_imp)
      subgoal premises m for out d1
        apply (rule post_bind, rule post_quiet [OF moves_at [OF m(2)]])
        apply (rule post_bind, rule post_quiet_unit, assumption, rule post_bind, rule post_quiet_unit, assumption, rule post_atomic)
        by (rule moves_quiet [OF m(2)])
      done
  qed
  done

text \<open>A command found in the ledger decides the transaction.\<close>

lemma post_option:
  "(v = None \<Longrightarrow> post m d Q) \<Longrightarrow> (\<And>x. v = Some x \<Longrightarrow> post (f x) d Q) \<Longrightarrow>
     post (case v of None \<Rightarrow> m | Some x \<Rightarrow> f x) d Q"
  by (cases v) simp_all

lemma post_lookup_command: "(\<And>v. Q v d) \<Longrightarrow> post (lookup_command_in_tx scope digest) d Q"
  unfolding lookup_command_in_tx_def by (intro postI) (auto simp: tx_simps split: option.splits if_splits)

lemma post_require_entry: "Q () d \<Longrightarrow> post (require_import_entry i entry) d Q"
  unfolding require_import_entry_def by (rule post_atomic)

text \<open>Cleanup: the two transactions and what they leave.\<close>

lemma resting_state: "cleanup_state st \<Longrightarrow> st \<noteq> ImportRunning" "cleanup_state st \<Longrightarrow> \<not> decision_state st"
  "cleanup_state st \<Longrightarrow> st \<noteq> []"
  by (auto simp: cleanup_state_def decision_state_def)

lemma no_work_slice:
  assumes "no_live_work i d"
  shows "sl_live (slice i d) = {}" and "sl_sending (slice i d) = {}" and "sl_open (slice i d) = {}"
  using assms by (auto simp: no_live_work_def slice_def tbl_count_0_iff)

lemma cleanup_new_post:
  assumes inv: "imp_inv d"
  shows "post (cleanup_new_tx i request_id revision scope digest tn now) d (\<lambda>_ d'. moves i d d')"
  unfolding cleanup_new_tx_def require_no_live_work_def
  apply (intro post_bind post_get_import, rule post_atomic, rule post_bind, rule post_atomic)
  apply (intro post_bind, rule post_atomic, rule post_atomic)
  subgoal premises p for jb
  proof -
    obtain j where r: "reading i d jb j" using readingI [OF inv p(1)] by blast
    note c = readingD [OF r] and at0 = imp_inv_at [OF inv, of i]
    note none = no_work_slice [OF p(4) [unfolded c(4)]]
    show ?thesis
      apply (rule post_bind, rule post_apply [OF at0], use c in simp)
      apply (rule post_bind, rule post_job, assumption, use c in simp, simp, simp add: record_updates)
      apply (rule post_bind, rule post_quiet, assumption, rule post_bind, rule post_quiet_unit, assumption)
      apply (rule post_bind, rule post_quiet_unit, assumption, rule post_atomic)
      subgoal premises q for m d1 d2 u d3 v d4 w d5
      proof -
        note l = at_sliceD [OF q(9)]
        have rest: "resting (slice i d5) ImportCleaning"
          using q(2-4) c none by (simp add: l record_updates slice_simps)
        have led: "same_ledger (slice i d) (slice i d5)"
          using c by (simp add: same_ledger_def l digest_of_def record_updates)
        show ?thesis
          by (rule rests_moves [OF q(9) c(12) rest _ led]) (simp_all add: l decision_state_def)
      qed
      done
  qed
  done

lemma complete_cleanup_post:
  assumes inv: "imp_inv d"
  shows "post (complete_cleanup_tx i scope digest correlation tn now) d (\<lambda>_ d'. moves i d d')"
  unfolding complete_cleanup_tx_def require_no_live_work_def
  apply (rule post_bind, rule post_lookup_command, rule post_option, rule post_atomic)
  subgoal premises e for v entry
    apply (rule post_bind, rule post_require_entry, intro post_bind post_get_import post_if)
     apply (rule post_atomic, rule moves_refl [OF inv])
    apply (rule post_atomic, intro post_bind, rule post_atomic, rule post_atomic)
    apply (rule post_bind, rule post_atomic, rule post_bind, rule post_atomic)
    subgoal premises p for jb t
    proof -
      obtain j where r: "reading i d jb j" using readingI [OF inv p(1)] by blast
      note c = readingD [OF r] and at0 = imp_inv_at [OF inv, of i]
      note none = no_work_slice [OF p(4)]
      note st = resting_state [OF p(6)]
      show ?thesis
        unfolding finish_cleanup_tx_def
        apply (rule post_bind, rule post_quiet_count [OF at0], rule post_bind, rule post_quiet_count, assumption)
        apply (rule post_bind, rule post_apply, assumption, use c in simp)
        apply (rule post_bind, rule post_job, assumption, use c in simp, simp, simp add: record_updates)
        apply (rule post_bind, rule post_quiet_command, assumption, rule post_bind, rule post_quiet_unit, assumption, rule post_atomic)
        subgoal premises q for n1 d1 n2 d2 m d3 d4 u d5 v d6
        proof -
          note l = at_sliceD [OF q(10)]
          have rest: "resting (slice i d6) (tj_state t)"
            using q(4-7) c none st by (simp add: l record_updates slice_simps)
          have led: "same_ledger (slice i d) (slice i d6)"
            using c by (simp add: same_ledger_def l digest_of_def record_updates)
          show ?thesis
            by (rule rests_moves [OF q(10) c(12) rest st(2) led]) (simp_all add: l)
        qed
        done
    qed
    done
  done

lemma begin_cleanup_post:
  assumes inv: "imp_inv d"
  shows "post (begin_cleanup_tx i request_id revision scope digest tn now) d (\<lambda>_ d'. moves i d d')"
  unfolding begin_cleanup_tx_def
  apply (rule post_bind, rule post_lookup_command, rule post_option)
   apply (rule post_bind, rule post_imp [OF cleanup_new_post [OF inv]], rule post_atomic, assumption)
  apply (rule post_bind, rule post_require_entry, intro post_bind post_get_import post_if)
   apply (rule post_atomic, rule moves_refl [OF inv])
  apply (rule post_atomic, rule post_atomic, rule moves_refl [OF inv])
  done

text \<open>Recovery after a restart.\<close>

lemma post_attempt_all:
  assumes at: "at_slice d0 i l d" and a: "sl_sending l = {a}" and P: "\<And>r. P r \<Longrightarrow> at_id r = at_id a" "P a"
    and f: "\<And>r. at_id (f r) = at_id r" "\<And>r. at_job_id (f r) = at_job_id r" "at_state (f a) \<noteq> ''SENDING''"
    and Q: "\<And>n d'. at_slice d0 i (l\<lparr>sl_sending := {}\<rparr>) d' \<Longrightarrow> Q n d'"
  shows "post (upd_attempt P f) d Q"
proof -
  have mem: "a \<in> sl_sending l" using a by simp
  then have "at_job_id a = i" using at by (auto simp: at_slice_def slice_def is_sending_of_def)
  then have job: "at_job_id (f a) = i" by (simp add: f(2))
  show ?thesis
  proof (rule postI)
    fix n d' assume "upd_attempt P f d = Inr (n, d')"
    from at_attempt(2) [OF at mem P(1) f(1) job this P(2)] show "Q n d'" using Q a f(3) by simp
  qed
qed

text \<open>A segment that is not live any more may be the one a recovery closes.\<close>

lemma post_recover_state:
  assumes at: "at_slice d i l d1" and r: "reading i d jb j" and l: "sl_meta l = Some (im_task jb)" "sl_job l = Some j"
    and st: "st \<noteq> []" and Q: "\<And>m d'. at_slice d i (l\<lparr>sl_meta := Some m, sl_job := Some (stopped_job st m now j)\<rparr>) d' \<Longrightarrow>
      t_state m = st \<Longrightarrow> \<not> t_terminal m \<Longrightarrow> t_kind m = ''IMPORT'' \<Longrightarrow> Q () d'"
  shows "post (recover_import_state_tx jb st reason tn now) d1 Q"
proof -
  note c = readingD [OF r]
  show ?thesis
    unfolding recover_import_state_tx_def c(4)
    apply (rule post_bind, rule post_apply [OF at], use l in simp)
    apply (rule post_bind, rule post_job_all, assumption, use l in simp, use c in simp, simp add: record_updates)
    apply (rule post_bind, rule post_quiet, assumption, rule post_atomic)
    subgoal premises q for m d2 u d3 v d4
      by (rule Q [of m]) (use q c st in \<open>simp_all add: record_updates\<close>)
    done
qed

text \<open>What recovery makes of one job.\<close>

definition recovered :: "slice \<Rightarrow> slice \<Rightarrow> bool" where
  "recovered l l' = (same_ledger l l' \<and>
     (case sl_job l of None \<Rightarrow> False
      | Some j \<Rightarrow>
          if ij_state j = ImportRunning then
            (if sl_sending l = {} then resting l' ImportPausedSafe \<and> sl_open l' = sl_open l
             else sl_open l = {} \<and> resting l' ImportNeedsUnknownDecision \<and>
               (\<exists>a\<in>sl_sending l. \<exists>n\<in>sl_open l'. same_range a n \<and> in_kind n = ''UNKNOWN''))
          else resting l' ImportPausedRestage \<and> sl_open l' = sl_open l))"

lemma recover_import_post:
  assumes inv: "imp_inv d" and due: "sl_job (slice i d) = Some j0" "ij_state j0 = ImportRunning \<or> ij_state j0 = ImportPreflighting \<or> ij_state j0 = ImportStaging"
  shows "post (recover_import_tx i incident_id tn now) d (\<lambda>_ d'. moves i d d' \<and> recovered (slice i d) (slice i d'))"
  unfolding recover_import_tx_def read_sending_attempt_def
  apply (intro post_bind post_get_import post_if)
  subgoal premises p for jb
  proof -
    obtain j where r: "reading i d jb j" using readingI [OF inv p(1)] by blast
    note c = readingD [OF r] and at0 = imp_inv_at [OF inv, of i]
    have nr: "ij_state j \<noteq> ImportRunning" using p(2) c(8) by auto
    note rr = reading_resting [OF r nr]
    show ?thesis
      apply (rule post_recover_state [OF at0 r c(3,2)], simp)
      subgoal premises q for m d'
      proof -
        note l = at_sliceD [OF q(1)]
        have rest: "resting (slice i d') ImportPausedRestage"
          using q(2-4) c rr by (simp add: l record_updates slice_simps)
        have led: "same_ledger (slice i d) (slice i d')"
          using c by (simp add: same_ledger_def l digest_of_def record_updates)
        have "moves i d d'"
          by (rule rests_moves [OF q(1) c(12) rest _ led]) (simp_all add: l decision_state_def)
        moreover have "recovered (slice i d) (slice i d')" using rest led c nr by (simp add: recovered_def l)
        ultimately show ?thesis by blast
      qed
      done
  qed
  apply (rule post_atomic, rule post_option)
  subgoal premises p for jb
  proof -
    obtain j where r: "reading i d jb j" using readingI [OF inv p(1)] by blast
    note c = readingD [OF r] and at0 = imp_inv_at [OF inv, of i]
    have run: "ij_state j = ImportRunning" using p(2) due c(2,8) by auto
    obtain s where s: "running (slice i d) s" "sl_live (slice i d) = {s}" "ij_active_run_segment_id j = Some (sg_id s)"
      by (rule reading_running [OF r run], rule that, assumption+)
    have send: "sl_sending (slice i d) = {}" using p(3) [unfolded find_None_iff] by (auto simp: slice_def)
    have act: "im_active jb = Some (sg_id s)" using c(7) s(3) by simp
    show ?thesis
      unfolding act option.case lost_segment_def
      apply (rule post_bind, rule post_segment_all [OF at0 s(2)], simp, simp, simp add: closed_segment_def, simp add: closed_segment_def)
      apply (rule post_recover_state [OF _ r], assumption, use c in simp, use c in simp, simp)
      subgoal premises q for n d1 m d'
      proof -
        note l = at_sliceD [OF q(2)]
        have rest: "resting (slice i d') ImportPausedSafe"
          using q(3-5) c send by (simp add: l record_updates slice_simps)
        have led: "same_ledger (slice i d) (slice i d')"
          using c by (simp add: same_ledger_def l digest_of_def record_updates)
        have "moves i d d'"
          by (rule rests_moves [OF q(2) c(12) rest _ led]) (simp_all add: l decision_state_def)
        moreover have "recovered (slice i d) (slice i d')" using rest led c run send by (simp add: recovered_def l)
        ultimately show ?thesis by blast
      qed
      done
  qed
  subgoal premises p for jb a
  proof -
    obtain j where r: "reading i d jb j" using readingI [OF inv p(1)] by blast
    note c = readingD [OF r] and at0 = imp_inv_at [OF inv, of i]
    have a: "a \<in> sl_sending (slice i d)" using p(3) by (auto simp: slice_def dest: find_SomeD)
    obtain s where s: "running (slice i d) s" "sl_sending (slice i d) = {a}" by (rule running_slice [OF inv a])
    have live: "sl_live (slice i d) = {s}" using s(1) by (simp add: running_def)
    note fl = in_flight_range [OF s]
    have "a \<in> set (attempts_t d)" "at_state a = ''SENDING''" using a by (auto simp: slice_def is_sending_of_def)
    note sending = this(2)
    show ?thesis
      unfolding recover_sending_tx_def lost_segment_def
      apply (rule post_bind, rule post_attempt_all [OF at0 s(2)], simp, simp add: sending, simp, simp, simp)
      apply (rule post_bind, rule post_segment_all [where s = s], assumption, use live in simp, use fl in simp, use fl in simp,
          simp add: closed_segment_def, simp add: closed_segment_def)
      apply (rule post_bind, rule post_insert_incident, assumption, simp, simp)
      apply (rule post_recover_state [OF _ r], assumption, use c in simp, use c in simp, simp)
      subgoal premises q for n1 d1 n2 d2 d3 m d4
      proof -
        note l = at_sliceD [OF q(5)]
        have rest: "resting (slice i d4) ImportNeedsUnknownDecision"
          using q(6-8) c by (simp add: l record_updates slice_simps)
        have led: "same_ledger (slice i d) (slice i d4)"
          using c by (simp add: same_ledger_def l digest_of_def record_updates)
        have "moves i d d4"
          by (rule movesI [OF at_self [OF q(5)]], rule doubts [OF s rest _ led])
            ((simp_all add: l decision_state_def same_range_def kind_of_state_def)?, simp_all)
        moreover have "ij_state j = ImportRunning" using s(1) c(2) by (simp add: running_def)
        then have "recovered (slice i d) (slice i d4)"
          using rest led c s(2) q(3) by (simp add: recovered_def l same_range_def)
        ultimately show ?thesis by blast
      qed
      done
  qed
  done

text \<open>Creating a job.\<close>

lemma post_create:
  assumes at: "at_slice d0 i l d"
    and Q: "\<And>m d'. sl_meta l = None \<Longrightarrow> at_slice d0 i (l\<lparr>sl_meta := Some m\<rparr>) d' \<Longrightarrow> t_state m = st \<Longrightarrow>
      \<not> t_terminal m \<Longrightarrow> t_kind m = kind \<Longrightarrow> Q m d'"
  shows "post (create_in_tx now i kind st ra) d Q"
proof (rule postI)
  fix m d' assume run: "create_in_tx now i kind st ra d = Inr (m, d')"
  have inv: "tasks_inv d" and l: "slice i d = l" using at by (simp_all add: at_slice_def)
  have new: "\<not> has_key t_id i (tasks_t d)" using run by (auto simp: create_in_tx_def Let_def tx_simps)
  obtain n where log: "event_log_ok d n" using inv by (auto simp: tasks_inv_def)
  obtain es h where d': "d' = d\<lparr>tasks_t := tasks_t d @ [m], task_events_t := es, event_head := h\<rparr>"
    and m: "t_id m = i" "t_state m = st" "\<not> t_terminal m" "t_kind m = kind"
    using create_in_tx_run [OF inv log new, of now kind st ra] run by auto
  have app: "tbl_get t_id k (tasks_t d @ [m]) = (if k = i then Some m else tbl_get t_id k (tasks_t d))" for k
    using new m(1) by (auto simp: has_key_iff table_simps split: option.splits)
  have none: "tbl_get t_id i (tasks_t d) = None" using create_in_tx_inv [OF inv run] by simp
  have "slice k d' = (if k = i then l\<lparr>sl_meta := Some m\<rparr> else slice k d)" for k
    using l by (auto simp: slice_def d' app)
  moreover have "tasks_inv d'" using create_in_tx_inv [OF inv run] by simp
  moreover have "keys_ok d'" using at by (simp add: at_slice_def keys_ok_def d')
  ultimately have "at_slice d0 i (l\<lparr>sl_meta := Some m\<rparr>) d'" using at by (auto simp: at_slice_def)
  then show "Q m d'" using Q none l m by (auto simp: slice_def)
qed

lemma post_insert_job:
  assumes at: "at_slice d0 i l d" and i: "ij_job_id j = i"
    and Q: "\<And>d'. sl_job l = None \<Longrightarrow> at_slice d0 i (l\<lparr>sl_job := Some j\<rparr>) d' \<Longrightarrow> Q () d'"
  shows "post (tx_insert import_jobs_t import_jobs_t_update (\<lambda>d. \<not> has_key ij_job_id i (import_jobs_t d)) j) d Q"
proof (rule postI)
  fix u d' assume run: "tx_insert import_jobs_t import_jobs_t_update (\<lambda>d. \<not> has_key ij_job_id i (import_jobs_t d)) j d = Inr (u, d')"
  have inv: "tasks_inv d" and l: "slice i d = l" using at by (simp_all add: at_slice_def)
  have new: "\<not> has_key ij_job_id i (import_jobs_t d)" and d': "d' = d\<lparr>import_jobs_t := import_jobs_t d @ [j]\<rparr>"
    using run by (auto simp: tx_simps)
  have none: "tbl_get ij_job_id i (import_jobs_t d) = None" using new by (simp add: has_key_iff)
  have app: "tbl_get ij_job_id k (import_jobs_t d @ [j]) = (if k = i then Some j else tbl_get ij_job_id k (import_jobs_t d))" for k
    using none i by (auto simp: table_simps split: option.splits)
  have "slice k d' = (if k = i then l\<lparr>sl_job := Some j\<rparr> else slice k d)" for k
    using l by (auto simp: slice_def d' app)
  moreover have "keys_ok d'" using at i new by (auto simp: at_slice_def keys_ok_def d' has_key_set)
  ultimately have "at_slice d0 i (l\<lparr>sl_job := Some j\<rparr>) d'" using at tasks_inv_frame [of d' d] by (simp add: at_slice_def d')
  then show "Q u d'" using Q none l by (auto simp: slice_def)
qed

lemma create_import_post:
  assumes inv: "imp_inv d"
  shows "post (create_import_tx req digest an tn now) d (\<lambda>_ d'.
    moves (ci_job_id req) d d' \<and> (d' = d \<or> \<not> has_job (slice (ci_job_id req) d)))"
  unfolding create_import_tx_def
  apply (rule post_bind, rule postI)
  subgoal premises f for found d1
  proof -
    have d1: "d1 = d" using f by (auto simp: lookup_idempotency_in_tx_def tx_simps)
    let ?i = "ci_job_id req"
    note at0 = imp_inv_at [OF inv, of ?i]
    have ok: "job_ok (slice ?i d)" using inv by (rule imp_invD)
    show ?thesis
      unfolding d1
      apply (rule post_option)
       apply (rule post_bind)
      unfolding admit_in_tx_def
       apply (rule post_bind, rule post_atomic, intro post_bind, rule post_atomic, rule post_bind, rule post_atomic)
       apply (rule post_quiet_unit [OF at0], rule post_bind, rule post_create, assumption)
       apply (rule post_bind, rule post_insert_job, assumption, simp)
       apply (rule post_bind, rule post_insert_checkpoint, assumption, rule post_bind, rule post_quiet_unit, assumption, rule post_atomic)
      subgoal premises q for v d2 m d3 d4 d5 w d6
      proof -
        note l = at_sliceD [OF q(14)]
        have job: "sl_job (slice ?i d) = None" using q(10) by simp
        then have e: "sl_live (slice ?i d) = {}" "sl_sending (slice ?i d) = {}" "sl_open (slice ?i d) = {}" "sl_trs (slice ?i d) = []"
          using ok by (simp_all add: job_ok_def)
        have rest: "resting (slice ?i d6) ImportReady"
          using q(7-9) e by (simp add: l record_updates slice_simps)
        have "moves ?i d d6"
          by (rule movesI [OF at_self [OF q(14)]], rule creates [OF _ rest])
            (use job e in \<open>simp_all add: l has_job_def digest_of_def chain_ok_def first_digest_def\<close>)
        then show ?thesis using job by (simp add: has_job_def)
      qed
      apply (rule post_if, rule post_atomic, rule post_bind, rule post_get_import, rule post_atomic)
      using moves_refl [OF inv] by blast
  qed
  done

end
