(* ===== verification/Import_Repo.thy ===== *)
theory Import_Repo
  imports Import_Commands
begin

text \<open>
  The methods of the import repository on its whole state: the database and the permits in memory.

  A permit in memory always belongs to a run that is live at the checkpoint the permit names.  Every
  method keeps that and the invariant of the jobs, and changes the jobs by steps of \<open>slice_step\<close> only.
\<close>

section \<open>The invariant of the repository\<close>

definition permits_ok :: "permits \<Rightarrow> db \<Rightarrow> bool" where
  "permits_ok ps d = (\<forall>i p. ps i = Some p \<longrightarrow> runs_at i d (pm_run_segment_id p) (pm_checkpoint_digest p))"

definition repo_inv :: "repo \<Rightarrow> bool" where
  "repo_inv r = (imp_inv (rp_db r) \<and> permits_ok (rp_permits r) (rp_db r))"

definition moves_any :: "db \<Rightarrow> db \<Rightarrow> bool" where
  "moves_any d d' = (\<exists>i. moves i d d')"

text \<open>\<open>leads r r'\<close>: the invariant holds in \<open>r'\<close>, and the jobs went there by their steps.\<close>

definition leads :: "repo \<Rightarrow> repo \<Rightarrow> bool" where
  "leads r r' = (repo_inv r' \<and> moves_any\<^sup>*\<^sup>* (rp_db r) (rp_db r'))"

lemma leads_refl: "repo_inv r \<Longrightarrow> leads r r"
  by (simp add: leads_def)

lemma leads_trans: "leads r s \<Longrightarrow> leads s t \<Longrightarrow> leads r t"
  by (auto simp: leads_def intro: rtranclp_trans)

lemma leads_inv: "leads r r' \<Longrightarrow> repo_inv r'"
  by (simp add: leads_def)

lemma leads_one:
  assumes "repo_inv r" and "moves i (rp_db r) d'" and "permits_ok ps d'"
  shows "leads r \<lparr>rp_db = d', rp_permits = ps\<rparr>"
  using assms moves_inv unfolding leads_def repo_inv_def moves_any_def by (auto intro!: r_into_rtranclp)

lemma runs_at_other: "moves i d d' \<Longrightarrow> k \<noteq> i \<Longrightarrow> runs_at k d' segment digest = runs_at k d segment digest"
  by (simp add: runs_at_def moves_def at_slice_def)

lemma permits_revoked: "permits_ok ps d \<Longrightarrow> moves i d d' \<Longrightarrow> permits_ok (permit_revoke i ps) d'"
  using runs_at_other by (auto simp: permits_ok_def permit_revoke_def)

lemma permits_set:
  "permits_ok ps d \<Longrightarrow> moves i d d' \<Longrightarrow> runs_at i d' (pm_run_segment_id p) (pm_checkpoint_digest p) \<Longrightarrow>
     permits_ok (ps(i \<mapsto> p)) d'"
  using runs_at_other by (auto simp: permits_ok_def)

lemma permits_kept:
  assumes "permits_ok ps d" and "moves i d d'" and "\<And>p. ps i = Some p \<Longrightarrow>
      runs_at i d (pm_run_segment_id p) (pm_checkpoint_digest p) \<Longrightarrow> runs_at i d' (pm_run_segment_id p) (pm_checkpoint_digest p)"
  shows "permits_ok ps d'"
  using assms runs_at_other [OF assms(2)] unfolding permits_ok_def by metis

lemma permits_same: "permits_ok ps d \<Longrightarrow> moves i d d' \<Longrightarrow> slice i d' = slice i d \<Longrightarrow> permits_ok ps d'"
  by (erule permits_kept, assumption) (simp add: runs_at_def)

lemma running_unique: "running l s \<Longrightarrow> running l s' \<Longrightarrow> s' = s"
  by (simp add: running_def)

lemma keeps_run_at: "keeps_run i d d' \<Longrightarrow> runs_at i d segment digest \<Longrightarrow> runs_at i d' segment digest"
  unfolding keeps_run_def runs_at_def by (metis running_unique)

lemma no_permit: "permits_ok ps d \<Longrightarrow> sl_live (slice i d) = {} \<Longrightarrow> ps i = None"
  by (cases "ps i") (auto simp: permits_ok_def runs_at_def running_def)

lemma no_permit_job: "permits_ok ps d \<Longrightarrow> \<not> has_job (slice i d) \<Longrightarrow> ps i = None"
  by (cases "ps i") (auto simp: permits_ok_def runs_at_def dest: running_has_job)

section \<open>Transactions and permits\<close>

text \<open>A transaction that fails or is rolled back changes nothing.\<close>

lemma run_tx:
  assumes "post m d Q" and "with_immediate io m d = (res, d')"
  shows "(\<exists>e. res = Inl e) \<and> d' = d \<or> (\<exists>a. res = Inr a \<and> Q a d')"
proof (cases res)
  case (Inl e)
  then show ?thesis using assms(2) by (auto dest: with_immediate_error)
next
  case (Inr a)
  then show ?thesis using assms by (auto simp: with_immediate_Inr dest: postD)
qed

lemma leads_revoking:
  assumes inv: "repo_inv r" and m: "post m (rp_db r) (\<lambda>_ d'. moves i (rp_db r) d')"
    and run: "with_immediate io m (rp_db r) = (res, d')"
  shows "leads r (r\<lparr>rp_db := d', rp_permits := permit_revoke i (rp_permits r)\<rparr>)"
proof -
  have "moves i (rp_db r) d'" using run_tx [OF m run] moves_refl [of "rp_db r" i] inv by (auto simp: repo_inv_def)
  then show ?thesis using leads_one [OF inv, of i d'] permits_revoked inv by (cases r) (auto simp: repo_inv_def)
qed

lemma leads_unchanged: "repo_inv r \<Longrightarrow> leads r (r\<lparr>rp_db := rp_db r\<rparr>)"
  by (cases r) (simp add: leads_refl)

lemma leads_run_revoking:
  assumes inv: "repo_inv r" and m: "post (tx tn now) (rp_db r) (\<lambda>_ d'. moves i (rp_db r) d')"
  shows "leads r (snd (run_revoking io tn now i tx r))"
proof (cases "with_immediate io (tx tn now) (rp_db r)")
  case (Pair res d')
  then show ?thesis
  proof (cases res)
    case (Inl e)
    then have "d' = rp_db r" using Pair by auto
    with Inl Pair show ?thesis using leads_unchanged [OF inv] by (simp add: run_revoking_def)
  next
    case (Inr out)
    with Pair show ?thesis using leads_revoking [OF inv m Pair] by (cases r) (simp add: run_revoking_def)
  qed
qed

lemma leads_pause:
  assumes inv: "repo_inv r"
  shows "leads r (snd (pause_permit_desync io tn now i segment digest r))"
proof (cases "with_immediate io (pause_permit_desync_tx i segment digest tn now) (rp_db r)")
  case (Pair res d')
  have "post (pause_permit_desync_tx i segment digest tn now) (rp_db r) (\<lambda>_ d'. moves i (rp_db r) d')"
    by (rule pause_permit_desync_post) (use inv in \<open>simp add: repo_inv_def\<close>)
  from leads_revoking [OF inv this Pair] Pair show ?thesis
    by (cases r) (simp add: pause_permit_desync_def)
qed

text \<open>After a settlement: the permit goes on to the child checkpoint, or is revoked.\<close>

lemma goes_on_runs: "goes_on i d segment parent child d' \<Longrightarrow> runs_at i d' segment child"
  by (auto simp: goes_on_def runs_at_def)

lemma leads_run_settled:
  assumes inv: "repo_inv r" and m: "\<And>tn now. post (tx tn now) (rp_db r) (\<lambda>(out, cont, parent, child, segment) d'.
      moves i (rp_db r) d' \<and> (cont \<longrightarrow> goes_on i (rp_db r) segment parent child d'))"
  shows "leads r (snd (run_settled io clock i tx r))"
proof (cases "with_immediate (io 0) (tx (clock 0) (clock 1)) (rp_db r)")
  case (Pair res d')
  note cases = run_tx [OF m Pair]
  show ?thesis
  proof (cases res)
    case (Inl e)
    then have "d' = rp_db r" using cases by auto
    with Inl Pair show ?thesis using leads_unchanged [OF inv] by (simp add: run_settled_def after_settle_def)
  next
    case (Inr x)
    obtain out cont parent child segment where x: "x = (out, cont, parent, child, segment)" by (cases x)
    have mv: "moves i (rp_db r) d'" and go: "cont \<Longrightarrow> goes_on i (rp_db r) segment parent child d'"
      using cases Inr x by auto
    have ps: "permits_ok (rp_permits r) (rp_db r)" using inv by (simp add: repo_inv_def)
    have revoked: "leads r \<lparr>rp_db = d', rp_permits = permit_revoke i (rp_permits r)\<rparr>"
      by (rule leads_one [OF inv mv permits_revoked [OF ps mv]])
    show ?thesis
    proof (cases cont)
      case False
      with Inr Pair x revoked show ?thesis by (cases r) (simp add: run_settled_def after_settle_def)
    next
      case True
      show ?thesis
      proof (cases "permit_cas i segment parent child (rp_permits r)")
        case (Pair swapped ps')
        note cas = this
        show ?thesis
        proof (cases swapped)
          case True
          then obtain p where p: "rp_permits r i = Some p" "pm_run_segment_id p = segment"
            "ps' = (rp_permits r)(i \<mapsto> p\<lparr>pm_checkpoint_digest := child\<rparr>)"
            using cas by (auto simp: permit_cas_def split: option.splits if_splits)
          have "permits_ok ps' d'"
            using permits_set [OF ps mv, of "p\<lparr>pm_checkpoint_digest := child\<rparr>"] goes_on_runs [OF go [OF \<open>cont\<close>]] p by simp
          from leads_one [OF inv mv this] show ?thesis
            using Inr \<open>with_immediate _ _ _ = _\<close> x \<open>cont\<close> cas True by (cases r) (simp add: run_settled_def after_settle_def)
        next
          case False
          have lost: "snd (run_settled io clock i tx r) =
              snd (pause_permit_desync (io 1) (clock 2) (clock 3) i segment child (r\<lparr>rp_db := d'\<rparr>))"
            using Inr \<open>with_immediate _ _ _ = _\<close> x \<open>cont\<close> cas False
            by (auto simp: run_settled_def after_settle_def split: prod.splits sum.splits)
          have none: "rp_permits r i = None"
          proof (rule ccontr)
            assume "rp_permits r i \<noteq> None"
            then obtain p where p: "rp_permits r i = Some p" by blast
            then have "runs_at i (rp_db r) (pm_run_segment_id p) (pm_checkpoint_digest p)" using ps by (simp add: permits_ok_def)
            with go [OF \<open>cont\<close>] have "pm_run_segment_id p = segment" "pm_checkpoint_digest p = parent"
              unfolding goes_on_def runs_at_def by (metis running_unique)+
            with cas False p show False by (simp add: permit_cas_def)
          qed
          then have "permit_revoke i (rp_permits r) = rp_permits r" by (auto simp: permit_revoke_def)
          then have "leads r (r\<lparr>rp_db := d'\<rparr>)" using revoked by (cases r) simp
          from leads_trans [OF this leads_pause [OF leads_inv [OF this]]] show ?thesis by (simp add: lost)
        qed
      qed
    qed
  qed
qed

section \<open>The methods\<close>

lemma with_attempt_job_leads:
  assumes "repo_inv r" and "\<And>i. attempt_job a (rp_db r) = Inr i \<Longrightarrow> leads r (snd (f i r))"
  shows "leads r (snd (with_attempt_job a f r))"
  using assms by (auto simp: with_attempt_job_def leads_refl split: sum.splits)

lemma create_leads:
  assumes inv: "repo_inv r" and run: "create_import hash io an tn now req (rp_db r) = (res, d')"
  shows "leads r (r\<lparr>rp_db := d'\<rparr>)"
proof (cases "checkpoint_digest hash (ci_initial_checkpoint req)")
  case (Inl e)
  then show ?thesis using run leads_unchanged [OF inv] by (simp add: create_import_def)
next
  case (Inr digest)
  let ?i = "ci_job_id req"
  have ps: "permits_ok (rp_permits r) (rp_db r)" and d: "imp_inv (rp_db r)" using inv by (simp_all add: repo_inv_def)
  have tx: "with_immediate io (create_import_tx req digest an tn now) (rp_db r) = (res, d')"
    using run Inr by (simp add: create_import_def)
  have "d' = rp_db r \<or> moves ?i (rp_db r) d' \<and> \<not> has_job (slice ?i (rp_db r))"
    using run_tx [OF create_import_post [OF d] tx] by auto
  then show ?thesis
  proof
    assume "d' = rp_db r"
    then show ?thesis using leads_unchanged [OF inv] by simp
  next
    assume m: "moves ?i (rp_db r) d' \<and> \<not> has_job (slice ?i (rp_db r))"
    then have "permits_ok (rp_permits r) d'" using permits_kept [OF ps, of ?i d'] no_permit_job [OF ps] by simp
    with m leads_one [OF inv, of ?i d'] show ?thesis by (cases r) simp
  qed
qed

lemma start_run_leads:
  assumes inv: "repo_inv r"
  shows "leads r (snd (start_run io clock new_id request r))"
proof -
  define req where "req = (if sr_run_segment_id request = '''' then request\<lparr>sr_run_segment_id := new_id\<rparr> else request)"
  let ?i = "sr_job_id req"
  have ps: "permits_ok (rp_permits r) (rp_db r)" and d: "imp_inv (rp_db r)" using inv by (simp_all add: repo_inv_def)
  let ?Q = "\<lambda>(out, replayed) d'. if replayed then d' = rp_db r else moves ?i (rp_db r) d' \<and>
    runs_at ?i d' (sr_run_segment_id req) (pm_checkpoint_digest (sr_permit req)) \<and> sl_live (slice ?i (rp_db r)) = {} \<and>
    pm_run_segment_id (sr_permit req) = sr_run_segment_id req"
  have new: "post (start_run_new_tx req tn now) (rp_db r) (\<lambda>_ d'. moves ?i (rp_db r) d' \<and>
      runs_at ?i d' (sr_run_segment_id req) (pm_checkpoint_digest (sr_permit req)) \<and> sl_live (slice ?i (rp_db r)) = {} \<and>
      pm_run_segment_id (sr_permit req) = sr_run_segment_id req)" for tn now
  proof (rule postI)
    fix out d' assume run: "start_run_new_tx req tn now (rp_db r) = Inr (out, d')"
    have "pm_run_segment_id (sr_permit req) = sr_run_segment_id req"
      using run by (auto simp: start_run_new_tx_def Let_def tx_simps)
    with postD [OF start_run_new_post [OF d] run] show "moves ?i (rp_db r) d' \<and>
      runs_at ?i d' (sr_run_segment_id req) (pm_checkpoint_digest (sr_permit req)) \<and> sl_live (slice ?i (rp_db r)) = {} \<and>
      pm_run_segment_id (sr_permit req) = sr_run_segment_id req" by simp
  qed
  have m: "post (start_run_tx req tn now) (rp_db r) ?Q" for tn now
    unfolding start_run_tx_def
    apply (rule post_bind, rule post_lookup_command, rule post_option)
     apply (rule post_bind, rule post_imp [OF new], rule post_atomic, simp)
    apply (rule post_bind, rule post_get_import, rule post_bind, rule post_atomic, rule post_atomic, simp)
    done
  obtain res d' where run: "with_immediate (io 0) (start_run_tx req (clock 0) (clock 1)) (rp_db r) = (res, d')"
    by (cases "with_immediate (io 0) (start_run_tx req (clock 0) (clock 1)) (rp_db r)")
  note cases = run_tx [OF m run]
  show ?thesis
  proof (cases res)
    case (Inl e)
    then have "d' = rp_db r" using cases by auto
    then show ?thesis using run Inl leads_unchanged [OF inv] by (simp add: start_run_def req_def [symmetric])
  next
    case (Inr x)
    obtain out replayed where x: "x = (out, replayed)" by (cases x)
    show ?thesis
    proof (cases replayed)
      case True
      then have "d' = rp_db r" using cases Inr x by auto
      then show ?thesis using run Inr x True leads_unchanged [OF inv] by (simp add: start_run_def req_def [symmetric])
    next
      case False
      have mv: "moves ?i (rp_db r) d'" and at: "runs_at ?i d' (sr_run_segment_id req) (pm_checkpoint_digest (sr_permit req))"
        and none: "rp_permits r ?i = None" and seg: "pm_run_segment_id (sr_permit req) = sr_run_segment_id req"
        using cases Inr x False no_permit [OF ps] by auto
      have kept: "leads r (r\<lparr>rp_db := d'\<rparr>)"
        using leads_one [OF inv mv permits_kept [OF ps mv]] none by (cases r) simp
      show ?thesis
      proof (cases "permit_activate ?i (sr_permit req) (rp_permits r)")
        case (Inl e)
        then have "snd (start_run io clock new_id request r) = snd (pause_permit_desync (io 1) (clock 2) (clock 3) ?i
            (sr_run_segment_id req) (pm_checkpoint_digest (sr_permit req)) (r\<lparr>rp_db := d'\<rparr>))"
          using run Inr x False by (simp add: start_run_def req_def [symmetric])
        then show ?thesis using leads_trans [OF kept leads_pause [OF leads_inv [OF kept]]] by simp
      next
        case (Inr ps')
        then have "ps' = (rp_permits r)(?i \<mapsto> sr_permit req)" by (simp add: permit_activate_def split: if_splits)
        then have "permits_ok ps' d'" using permits_set [OF ps mv] at seg by simp
        from leads_one [OF inv mv this] show ?thesis
          using run \<open>res = Inr x\<close> x False Inr by (cases r) (simp add: start_run_def req_def [symmetric])
      qed
    qed
  qed
qed

lemma begin_attempt_leads:
  assumes inv: "repo_inv r" and run: "begin_attempt_locked io now req profile p (rp_permits r) (rp_db r) = (res, d')"
  shows "leads r (r\<lparr>rp_db := d'\<rparr>)"
proof (cases "begin_attempt_guard req p (rp_permits r)")
  case (Inl e)
  then show ?thesis using run leads_unchanged [OF inv] by (simp add: begin_attempt_locked_def)
next
  case (Inr start)
  have ps: "permits_ok (rp_permits r) (rp_db r)" and d: "imp_inv (rp_db r)" using inv by (simp_all add: repo_inv_def)
  have tx: "with_immediate io (begin_attempt_tx req start profile p now) (rp_db r) = (res, d')"
    using run Inr by (simp add: begin_attempt_locked_def)
  from run_tx [OF begin_attempt_post [OF d Inr] tx] show ?thesis
  proof
    assume "(\<exists>e. res = Inl e) \<and> d' = rp_db r"
    then show ?thesis using leads_unchanged [OF inv] by simp
  next
    assume "\<exists>a. res = Inr a \<and> moves (ar_job_id req) (rp_db r) d' \<and> keeps_run (ar_job_id req) (rp_db r) d'"
    then have mv: "moves (ar_job_id req) (rp_db r) d'" and k: "keeps_run (ar_job_id req) (rp_db r) d'" by auto
    have "permits_ok (rp_permits r) d'" by (rule permits_kept [OF ps mv]) (rule keeps_run_at [OF k])
    from leads_one [OF inv mv this] show ?thesis by (cases r) simp
  qed
qed

text \<open>Settlements.\<close>

lemma settle_ack_leads:
  assumes inv: "repo_inv r"
  shows "leads r (snd (settle_ack hash io clock a r))"
proof -
  have d: "imp_inv (rp_db r)" using inv by (simp add: repo_inv_def)
  have "leads r (snd (settle_replay_ack hash io clock a r))"
    unfolding settle_replay_ack_def
    by (rule with_attempt_job_leads [OF inv], rule leads_run_settled [OF inv], rule replay_ack_post [OF d])
  moreover have "leads r (snd (with_attempt_job a (\<lambda>i. run_settled io clock i (ack_tx hash a i)) r))"
    by (rule with_attempt_job_leads [OF inv], rule leads_run_settled [OF inv], rule ack_post [OF d])
  ultimately show ?thesis using leads_refl [OF inv] by (simp add: settle_ack_def split: sum.split)
qed

lemma settle_too_large_leads:
  assumes inv: "repo_inv r"
  shows "leads r (snd (settle_too_large hash io clock a r))"
proof -
  have d: "imp_inv (rp_db r)" using inv by (simp add: repo_inv_def)
  have "leads r (snd (settle_replay_too_large (io 0) (clock 0) (clock 1) a r))"
    unfolding settle_replay_too_large_def
    by (rule with_attempt_job_leads [OF inv], rule leads_run_revoking [OF inv], rule replay_too_large_post [OF d])
  moreover have "leads r (snd (settle_normal_too_large hash io clock a r))"
    unfolding settle_normal_too_large_def
    by (rule with_attempt_job_leads [OF inv], rule leads_run_settled [OF inv], rule too_large_post [OF d])
  ultimately show ?thesis using leads_refl [OF inv] by (simp add: settle_too_large_def split: sum.split)
qed

lemma record_incident_leads:
  assumes inv: "repo_inv r"
  shows "leads r (snd (record_incident io tn now a incident_id kind r))"
proof -
  have d: "imp_inv (rp_db r)" using inv by (simp add: repo_inv_def)
  show ?thesis
  proof (cases "kind = ''PARTIAL'' \<or> kind = ''UNKNOWN''")
    case True
    have "leads r (snd (with_attempt_job a (\<lambda>i. run_revoking io tn now i (record_incident_tx a incident_id kind i)) r))"
      by (rule with_attempt_job_leads [OF inv], rule leads_run_revoking [OF inv],
          rule post_imp [OF record_incident_post [OF d _ True]], assumption, simp)
    then show ?thesis using True by (auto simp: record_incident_def)
  next
    case False
    then show ?thesis using leads_refl [OF inv] by (simp add: record_incident_def)
  qed
qed

lemma settle_rejected_leads:
  assumes inv: "repo_inv r"
  shows "leads r (snd (settle_rejected io tn now a r))"
  unfolding settle_rejected_def
  by (rule with_attempt_job_leads [OF inv], rule leads_run_revoking [OF inv], rule rejected_post)
    (use inv in \<open>simp add: repo_inv_def\<close>)

lemma not_sent_leads:
  assumes inv: "repo_inv r"
  shows "leads r (snd (mark_attempt_not_sent io tn now a r))"
proof (cases "attempt_job a (rp_db r)")
  case (Inl e)
  then show ?thesis using leads_refl [OF inv] by (simp add: mark_attempt_not_sent_def)
next
  case (Inr i)
  have ps: "permits_ok (rp_permits r) (rp_db r)" and d: "imp_inv (rp_db r)" using inv by (simp_all add: repo_inv_def)
  obtain res d' where run: "with_immediate io (not_sent_tx a i tn now) (rp_db r) = (res, d')"
    by (cases "with_immediate io (not_sent_tx a i tn now) (rp_db r)")
  from run_tx [OF not_sent_post [OF d Inr] run] show ?thesis
  proof
    assume "(\<exists>e. res = Inl e) \<and> d' = rp_db r"
    then show ?thesis using Inr run leads_unchanged [OF inv] by (auto simp: mark_attempt_not_sent_def)
  next
    assume "\<exists>out. res = Inr out \<and> moves i (rp_db r) d' \<and> (t_state (im_task out) = ImportRunning \<longrightarrow> keeps_run i (rp_db r) d')"
    then obtain out where o: "res = Inr out" "moves i (rp_db r) d'"
      "t_state (im_task out) = ImportRunning \<Longrightarrow> keeps_run i (rp_db r) d'" by blast
    let ?ps = "if t_state (im_task out) \<noteq> ImportRunning then permit_revoke i (rp_permits r) else rp_permits r"
    have "permits_ok ?ps d'"
      using permits_revoked [OF ps o(2)] permits_kept [OF ps o(2)] keeps_run_at [OF o(3)] by simp
    from leads_one [OF inv o(2) this] show ?thesis
      using Inr run o(1) by (simp add: mark_attempt_not_sent_def)
  qed
qed

lemma finish_replayed: "finish_import_tx req bytes ps tn now d = Inr ((out, True), d') \<Longrightarrow> d' = d"
  by (auto simp: finish_import_tx_def Let_def tx_simps dest: get_import_same split: if_splits)

lemma finish_import_leads:
  assumes inv: "repo_inv r"
  shows "leads r (snd (finish_import io tn now req r))"
proof (cases "transfer_canonical_decimal (fi_staging_logical_size req)")
  case (Inl e)
  then show ?thesis using leads_refl [OF inv] by (simp add: finish_import_def)
next
  case (Inr bytes)
  have ps: "permits_ok (rp_permits r) (rp_db r)" and d: "imp_inv (rp_db r)" using inv by (simp_all add: repo_inv_def)
  obtain res d' where run: "with_immediate io (finish_import_tx req bytes (rp_permits r) tn now) (rp_db r) = (res, d')"
    by (cases "with_immediate io (finish_import_tx req bytes (rp_permits r) tn now) (rp_db r)")
  from run_tx [OF finish_import_post [OF d] run] show ?thesis
  proof
    assume "(\<exists>e. res = Inl e) \<and> d' = rp_db r"
    then show ?thesis using Inr run leads_unchanged [OF inv] leads_refl [OF inv] by (auto simp: finish_import_def)
  next
    assume "\<exists>x. res = Inr x \<and> moves (fi_job_id req) (rp_db r) d'"
    then obtain out replayed where o: "res = Inr (out, replayed)" "moves (fi_job_id req) (rp_db r) d'" by auto
    show ?thesis
    proof (cases replayed)
      case True
      then have "d' = rp_db r" using run o(1) finish_replayed by (auto simp: with_immediate_Inr)
      then show ?thesis using Inr run o(1) True leads_refl [OF inv] by (cases r) (simp add: finish_import_def)
    next
      case False
      from leads_one [OF inv o(2) permits_revoked [OF ps o(2)]] show ?thesis
        using Inr run o(1) False leads_refl [OF inv] by (simp add: finish_import_def)
    qed
  qed
qed

text \<open>Pauses.\<close>

lemma invalidate_permit_leads:
  assumes inv: "repo_inv r"
  shows "leads r (snd (invalidate_permit io tn now i p reason r))"
proof (cases "rp_permits r i = Some p")
  case False
  then show ?thesis using leads_refl [OF inv] by (simp add: invalidate_permit_def)
next
  case True
  have d: "imp_inv (rp_db r)" using inv by (simp add: repo_inv_def)
  obtain res d' where run: "with_immediate io (invalidate_permit_tx i p reason tn now) (rp_db r) = (res, d')"
    by (cases "with_immediate io (invalidate_permit_tx i p reason tn now) (rp_db r)")
  show ?thesis
  proof (cases res)
    case (Inl e)
    then have "d' = rp_db r" using run by auto
    then show ?thesis using Inl run True leads_unchanged [OF inv] by (simp add: invalidate_permit_def)
  next
    case (Inr u)
    from leads_revoking [OF inv invalidate_permit_post [OF d] run] show ?thesis
      using Inr run True by (cases r) (simp add: invalidate_permit_def permit_revoke_if_match_def permit_revoke_def)
  qed
qed

lemma pause_run_leads: "repo_inv r \<Longrightarrow> leads r (snd (pause_run io tn now i segment reason r))"
  by (simp add: pause_run_def leads_refl invalidate_permit_leads split: option.split)

lemma invalidate_entries_leads:
  "repo_inv r \<Longrightarrow> invalidate_entries io clock reason entries r = (n, e, r') \<Longrightarrow> leads r r'"
proof (induction io clock reason entries r arbitrary: n e r' rule: invalidate_entries.induct)
  case (1 io clock reason r)
  then show ?case by (simp add: leads_refl)
next
  case (2 io clock reason i p entries r)
  obtain res r1 where one: "invalidate_permit (io 0) (clock 0) (clock 1) i p reason r = (res, r1)"
    by (cases "invalidate_permit (io 0) (clock 0) (clock 1) i p reason r")
  have l: "leads r r1" using invalidate_permit_leads [OF 2(2)] one by (metis snd_conv)
  show ?case
  proof (cases res)
    case (Inl x)
    then show ?thesis using 2(3) one l by simp
  next
    case (Inr changed)
    then obtain n1 where "invalidate_entries (\<lambda>n. io (n + 1)) (\<lambda>n. clock (n + 2)) reason entries r1 = (n1, e, r')"
      using 2(3) one by (auto split: prod.splits)
    from 2(1) [OF one [symmetric] Inr leads_inv [OF l] this] l show ?thesis by (rule leads_trans [rotated])
  qed
qed

lemma invalidate_permits_leads:
  "repo_inv r \<Longrightarrow> leads r (snd (snd (invalidate_permits io clock conn generation revision reason entries r)))"
  using invalidate_entries_leads [of r io clock reason entries]
  by (cases "invalidate_entries io clock reason entries r") (auto simp: invalidate_permits_def leads_refl)

text \<open>Commands.\<close>

lemma replay_or_tx_post:
  assumes "imp_inv d" and "post new_tx d (\<lambda>_ d'. moves i d d')"
  shows "post (replay_or_tx scope digest j new_tx) d (\<lambda>_ d'. moves i d d')"
  unfolding replay_or_tx_def
  apply (rule post_bind, rule post_lookup_command, rule post_option)
   apply (rule post_bind, rule post_imp [OF assms(2)], rule post_atomic, assumption)
  apply (rule post_bind, rule post_get_import, rule post_atomic, rule moves_refl [OF assms(1)])
  done

lemma abort_leads:
  assumes inv: "repo_inv r"
  shows "leads r (snd (abort uuid_ok sha256_hex io tn now req r))"
proof (cases "uuid_ok (ab_command_request_id req)")
  case False
  then show ?thesis using leads_refl [OF inv] by (simp add: abort_def)
next
  case True
  have d: "imp_inv (rp_db r)" using inv by (simp add: repo_inv_def)
  let ?m = "replay_or_tx (abort_command_scope req) (abort_command_digest sha256_hex req) (ab_job_id req)
    (abort_new_tx req (abort_command_scope req) (abort_command_digest sha256_hex req) tn now)"
  obtain res d' where run: "with_immediate io ?m (rp_db r) = (res, d')" by (cases "with_immediate io ?m (rp_db r)")
  have "post ?m (rp_db r) (\<lambda>_ d'. moves (ab_job_id req) (rp_db r) d')"
    by (rule replay_or_tx_post [OF d abort_new_post [OF d]])
  from leads_revoking [OF inv this run] show ?thesis using run True by (cases r) (simp add: abort_def Let_def)
qed

lemma post_lookup_replay:
  assumes "imp_inv d" and "post new_tx d (\<lambda>_ d'. moves i d d')"
  shows "post (tx_bind (lookup_command_in_tx scope digest) (\<lambda>found.
     case found of
       Some entry \<Rightarrow> tx_bind (require_import_entry i entry) (\<lambda>_. tx_bind (get_import_in_tx i) (\<lambda>out. tx_return (out, True)))
     | None \<Rightarrow> tx_bind new_tx (\<lambda>out. tx_return (out, False)))) d (\<lambda>_ d'. moves i d d')"
  apply (rule post_bind, rule post_lookup_command, rule post_option)
   apply (rule post_bind, rule post_imp [OF assms(2)], rule post_atomic, assumption)
  apply (rule post_bind, rule post_require_entry, rule post_bind, rule post_get_import, rule post_atomic, rule moves_refl [OF assms(1)])
  done

lemma leads_keep_or_revoke:
  assumes inv: "repo_inv r" and m: "post m (rp_db r) (\<lambda>_ d'. moves i (rp_db r) d')"
  shows "leads r (snd (case with_immediate io m (rp_db r) of
       (Inl e, d) \<Rightarrow> (Inl e, r\<lparr>rp_db := d\<rparr>)
     | (Inr out, d) \<Rightarrow> (Inr out, \<lparr>rp_db = d, rp_permits = permit_revoke i (rp_permits r)\<rparr>)))"
proof -
  obtain res d' where run: "with_immediate io m (rp_db r) = (res, d')" by (cases "with_immediate io m (rp_db r)")
  from leads_revoking [OF inv m run]
  have "leads r \<lparr>rp_db = d', rp_permits = permit_revoke i (rp_permits r)\<rparr>" by (cases r) simp
  moreover have "leads r (r\<lparr>rp_db := d'\<rparr>)" if "res = Inl e" for e
    using run that leads_unchanged [OF inv] by (auto dest: with_immediate_error)
  ultimately show ?thesis unfolding run by (cases res) simp_all
qed

lemma cancel_import_leads:
  assumes inv: "repo_inv r"
  shows "leads r (snd (cancel_import uuid_ok sha256_hex io tn now i request_id expected r))"
proof -
  have d: "imp_inv (rp_db r)" using inv by (simp add: repo_inv_def)
  note new = leads_keep_or_revoke [OF inv post_lookup_replay [OF d cancel_new_post [OF d]]]
  show ?thesis
  proof (cases "validate_import_control uuid_ok sha256_hex i ''CANCEL'' request_id expected")
    case (Inl e)
    then show ?thesis using leads_refl [OF inv] by (simp add: cancel_import_def)
  next
    case (Inr v)
    obtain revision scope digest where v: "v = (revision, scope, digest)" by (cases v)
    show ?thesis
    proof (cases "lookup_import_control i scope digest (rp_db r)")
      case None
      then show ?thesis using Inr v new by (simp add: cancel_import_def)
    next
      case (Some x)
      then show ?thesis using Inr v leads_refl [OF inv] by (cases x) (auto simp: cancel_import_def)
    qed
  qed
qed

text \<open>A decision on an incident.\<close>

lemma resolve_new_leads:
  assumes inv: "repo_inv r" and v: "validate_resolution_commit uuid_ok req0 = Inr ()"
    and req: "rc_decision req = rc_decision req0" "rc_after_resolution req = rc_after_resolution req0"
    and run: "with_immediate io (replay_or_tx scope digest (rc_job_id req)
      (resolve_new_tx hash req scope digest tn now)) (rp_db r) = (Inr (out, False), d')"
  shows "leads r (r\<lparr>rp_db := d'\<rparr>)" and "rp_permits r (rc_job_id req) = None"
    and "moves (rc_job_id req) (rp_db r) d'"
    and "resolution_needs_grant (rc_decision req) (rc_after_resolution req) \<Longrightarrow>
      runs_at (rc_job_id req) d' (rc_run_segment_id req) (im_checkpoint_digest out)"
    and "rc_decision req = DecisionReplayExact \<Longrightarrow> may_return (rc_job_id req) d'"
proof -
  let ?i = "rc_job_id req"
  have ps: "permits_ok (rp_permits r) (rp_db r)" and d: "imp_inv (rp_db r)" using inv by (simp_all add: repo_inv_def)
  have tx: "resolve_new_tx hash req scope digest tn now (rp_db r) = Inr (out, d')"
    using run by (auto simp: with_immediate_Inr replay_or_tx_def lookup_command_in_tx_def tx_simps split: option.splits if_splits)
  have both: "moves ?i (rp_db r) d' \<and> sl_live (slice ?i (rp_db r)) = {} \<and>
    (resolution_needs_grant (rc_decision req) (rc_after_resolution req) \<longrightarrow>
      runs_at ?i d' (rc_run_segment_id req) (im_checkpoint_digest out)) \<and>
    (rc_decision req = DecisionReplayExact \<longrightarrow> may_return ?i d')"
  proof (cases "rc_decision req = DecisionReplayExact")
    case True
    show ?thesis using postD [OF resolve_replay_post [OF d True] tx] by simp
  next
    case False
    show ?thesis using postD [OF resolve_commit_post [OF d False] tx] False
      by (auto simp: resolution_needs_grant_def)
  qed
  then show mv: "moves ?i (rp_db r) d'" and none: "rp_permits r ?i = None"
    and "resolution_needs_grant (rc_decision req) (rc_after_resolution req) \<Longrightarrow>
      runs_at ?i d' (rc_run_segment_id req) (im_checkpoint_digest out)"
    and "rc_decision req = DecisionReplayExact \<Longrightarrow> may_return ?i d'"
    using no_permit [OF ps] by simp_all
  show "leads r (r\<lparr>rp_db := d'\<rparr>)" using leads_one [OF inv mv permits_kept [OF ps mv]] none by (cases r) simp
qed

lemma restore_leads:
  assumes inv: "repo_inv r" and ret: "may_return i (rp_db r)"
  shows "leads r (snd (restore_replay_permit_failure io tn now i segment digest r))"
proof (cases "with_immediate io (restore_replay_tx i segment digest tn now) (rp_db r)")
  case (Pair res d')
  have d: "imp_inv (rp_db r)" using inv by (simp add: repo_inv_def)
  from leads_revoking [OF inv restore_replay_post [OF d ret] Pair] Pair show ?thesis
    by (cases r) (simp add: restore_replay_permit_failure_def)
qed

lemma activate_leads:
  assumes inv: "repo_inv r" and none: "rp_permits r (rc_job_id req) = None"
    and at: "runs_at (rc_job_id req) (rp_db r) (rc_run_segment_id req) (im_checkpoint_digest out)"
    and ret: "rc_decision req = DecisionReplayExact \<Longrightarrow> may_return (rc_job_id req) (rp_db r)"
  shows "leads r (snd (activate_resolved io tn now req out r))"
proof -
  let ?i = "rc_job_id req" and ?p = "(the (rc_permit req))\<lparr>pm_run_segment_id := rc_run_segment_id req,
    pm_checkpoint_digest := im_checkpoint_digest out\<rparr>"
  have ps: "permits_ok (rp_permits r) (rp_db r)" and d: "imp_inv (rp_db r)" using inv by (simp_all add: repo_inv_def)
  show ?thesis
  proof (cases "permit_activate ?i ?p (rp_permits r)")
    case (Inl e)
    then show ?thesis using leads_pause [OF inv] restore_leads [OF inv ret] by (simp add: activate_resolved_def Let_def)
  next
    case (Inr ps')
    then have "ps' = (rp_permits r)(?i \<mapsto> ?p)" by (simp add: permit_activate_def split: if_splits)
    then have "permits_ok ps' (rp_db r)" using permits_set [OF ps moves_refl [OF d]] at by simp
    from leads_one [OF inv moves_refl [OF d] this] show ?thesis using Inr by (cases r) (simp add: activate_resolved_def Let_def)
  qed
qed

lemma resolve_leads:
  assumes inv: "repo_inv r"
  shows "leads r (snd (resolve_incident uuid_ok sha256_hex hash io clock new_id req0 r))"
proof (cases "validate_resolution_commit uuid_ok req0")
  case (Inl e)
  then show ?thesis using leads_refl [OF inv] by (simp add: resolve_incident_def)
next
  case (Inr u)
  then have v: "validate_resolution_commit uuid_ok req0 = Inr ()" by simp
  define req where "req = (if rc_run_segment_id req0 = '''' then req0\<lparr>rc_run_segment_id := new_id\<rparr> else req0)"
  have req: "rc_decision req = rc_decision req0" "rc_after_resolution req = rc_after_resolution req0" by (simp_all add: req_def)
  have d: "imp_inv (rp_db r)" using inv by (simp add: repo_inv_def)
  let ?scope = "resolution_command_scope req" and ?digest = "resolution_command_digest sha256_hex req"
  let ?m = "replay_or_tx ?scope ?digest (rc_job_id req) (resolve_new_tx hash req ?scope ?digest (clock 0) (clock 1))"
  obtain res d' where run: "with_immediate (io 0) ?m (rp_db r) = (res, d')" by (cases "with_immediate (io 0) ?m (rp_db r)")
  show ?thesis
  proof (cases res)
    case (Inl e)
    then have "d' = rp_db r" using run by auto
    then show ?thesis using Inl run v leads_unchanged [OF inv]
      by (simp add: resolve_incident_def req_def [symmetric] Let_def)
  next
    case (Inr x)
    obtain out replayed where x: "x = (out, replayed)" by (cases x)
    show ?thesis
    proof (cases replayed)
      case True
      then have "d' = rp_db r" using run Inr x
        by (auto simp: with_immediate_Inr replay_or_tx_def lookup_command_in_tx_def tx_simps
            dest: get_import_same split: option.splits if_splits)
      then show ?thesis using Inr x True run v leads_unchanged [OF inv]
        by (simp add: resolve_incident_def req_def [symmetric] Let_def)
    next
      case False
      have run': "with_immediate (io 0) ?m (rp_db r) = (Inr (out, False), d')" using run Inr x False by simp
      note n = resolve_new_leads [OF inv v req run']
      have go: "leads r (snd (activate_resolved (io 1) (clock 2) (clock 3) req out (r\<lparr>rp_db := d'\<rparr>)))"
        if "resolution_needs_grant (rc_decision req) (rc_after_resolution req)"
        by (rule leads_trans [OF n(1)], rule activate_leads [OF leads_inv [OF n(1)]]) (use n(2,5) n(4) [OF that] in simp_all)
      then show ?thesis using run' v n(1)
        by (simp add: resolve_incident_def req_def [symmetric] Let_def)
    qed
  qed
qed

text \<open>Cleanup and recovery.\<close>

lemma run_cleanup_leads:
  assumes inv: "repo_inv r"
  shows "leads r (snd (run_cleanup io clock i request_id revision scope digest removed r))"
proof -
  have d: "imp_inv (rp_db r)" using inv by (simp add: repo_inv_def)
  let ?m = "begin_cleanup_tx i request_id revision scope digest (clock 0) (clock 1)"
  obtain res d1 where run: "with_immediate (io 0) ?m (rp_db r) = (res, d1)" by (cases "with_immediate (io 0) ?m (rp_db r)")
  show ?thesis
  proof (cases res)
    case (Inl e)
    then have "d1 = rp_db r" using run by auto
    then show ?thesis using Inl run leads_unchanged [OF inv] by (simp add: run_cleanup_def)
  next
    case (Inr x)
    obtain out replayed finished where x: "x = (out, replayed, finished)" by (cases x)
    show ?thesis
    proof (cases finished)
      case True
      have "d1 = rp_db r" using run Inr x True
        by (auto simp: with_immediate_Inr begin_cleanup_tx_def lookup_command_in_tx_def require_import_entry_def tx_simps
            dest: get_import_same split: option.splits if_splits)
      then show ?thesis using Inr x True run leads_unchanged [OF inv] by (simp add: run_cleanup_def)
    next
      case False
      let ?r = "\<lparr>rp_db = d1, rp_permits = permit_revoke i (rp_permits r)\<rparr>"
      have one: "leads r ?r" using leads_revoking [OF inv begin_cleanup_post [OF d] run] by (cases r) simp
      note inv1 = leads_inv [OF one]
      have d1: "imp_inv (rp_db ?r)" using inv1 by (simp add: repo_inv_def)
      have twice: "permit_revoke i (permit_revoke i (rp_permits r)) = permit_revoke i (rp_permits r)" by (simp add: permit_revoke_def)
      let ?c = "complete_cleanup_tx i scope digest request_id (clock 2) (clock 3)"
      obtain res2 d2 where run2: "with_immediate (io 1) ?c d1 = (res2, d2)" by (cases "with_immediate (io 1) ?c d1")
      have "leads ?r \<lparr>rp_db = d2, rp_permits = permit_revoke i (rp_permits r)\<rparr>"
        using leads_revoking [OF inv1 complete_cleanup_post [OF d1], of "io 1" i scope digest request_id "clock 2" "clock 3"]
          run2 by (simp add: twice)
      then have "leads r \<lparr>rp_db = d2, rp_permits = permit_revoke i (rp_permits r)\<rparr>" by (rule leads_trans [OF one])
      then show ?thesis using one run run2 Inr x False by (cases res2) (simp_all add: run_cleanup_def Let_def)
    qed
  qed
qed

lemma cleanup_import_leads:
  assumes inv: "repo_inv r"
  shows "leads r (snd (cleanup_import uuid_ok sha256_hex io clock i request_id expected remove_files r))"
proof (cases remove_files)
  case None
  then show ?thesis using leads_refl [OF inv] by (simp add: cleanup_import_def)
next
  case (Some removed)
  show ?thesis
  proof (cases "validate_import_control uuid_ok sha256_hex i ''CLEANUP'' request_id expected")
    case (Inl e)
    then show ?thesis using Some leads_refl [OF inv] by (simp add: cleanup_import_def)
  next
    case (Inr v)
    obtain revision scope digest where v: "v = (revision, scope, digest)" by (cases v)
    show ?thesis
    proof (cases "lookup_import_control i scope digest (rp_db r)")
      case None
      then show ?thesis using Some Inr v run_cleanup_leads [OF inv] by (simp add: cleanup_import_def)
    next
      case (Some x)
      then show ?thesis using \<open>remove_files = _\<close> Inr v leads_refl [OF inv] run_cleanup_leads [OF inv]
        by (cases x) (auto simp: cleanup_import_def)
    qed
  qed
qed

lemma recover_cleanup_entries_leads:
  "repo_inv r \<Longrightarrow> recover_cleanup_entries io clock removed items r = (n, e, r') \<Longrightarrow> leads r r'"
proof (induction io clock removed items r arbitrary: n e r' rule: recover_cleanup_entries.induct)
  case (1 io clock removed r)
  then show ?case by (simp add: leads_refl)
next
  case (2 io clock removed i scope digest items r)
  note inv = 2(2)
  have d: "imp_inv (rp_db r)" using inv by (simp add: repo_inv_def)
  let ?ps = "permit_revoke i (rp_permits r)"
  let ?m = "complete_cleanup_tx i scope digest ''RECOVERY'' (clock 0) (clock 1)"
  show ?case
  proof (cases "removed i")
    case False
    have "permits_ok ?ps (rp_db r)" using permits_revoked [OF _ moves_refl [OF d]] inv by (simp add: repo_inv_def)
    then have "leads r (r\<lparr>rp_permits := ?ps\<rparr>)" using inv by (simp add: leads_def repo_inv_def)
    then show ?thesis using 2(3) False by (simp add: Let_def)
  next
    case True
    obtain res d1 where run: "with_immediate (io 0) ?m (rp_db r) = (res, d1)" by (cases "with_immediate (io 0) ?m (rp_db r)")
    have one: "leads r \<lparr>rp_db = d1, rp_permits = ?ps\<rparr>"
      using leads_revoking [OF inv complete_cleanup_post [OF d] run] by (cases r) simp
    show ?thesis
    proof (cases res)
      case (Inl x)
      then show ?thesis using 2(3) True run one by (simp add: Let_def)
    next
      case (Inr out)
      obtain n1 where rest: "recover_cleanup_entries (\<lambda>n. io (n + 1)) (\<lambda>n. clock (n + 2)) removed items
          \<lparr>rp_db = d1, rp_permits = ?ps\<rparr> = (n1, e, r')"
        using 2(3) True run Inr by (auto simp: Let_def split: prod.splits)
      have "\<not> \<not> removed i" using True by simp
      from 2(1) [OF refl this run [symmetric] Inr leads_inv [OF one] rest] one show ?thesis by (rule leads_trans [rotated])
    qed
  qed
qed

lemma recover_import_cleanups_leads:
  assumes "repo_inv r"
  shows "leads r (snd (snd (recover_import_cleanups io clock remove_files r)))"
proof (cases remove_files)
  case None
  then show ?thesis using leads_refl [OF assms] by (simp add: recover_import_cleanups_def)
next
  case (Some removed)
  obtain n e r' where run: "recover_cleanup_entries io clock removed (pending_cleanups (rp_db r)) r = (n, e, r')"
    by (cases "recover_cleanup_entries io clock removed (pending_cleanups (rp_db r)) r")
  from recover_cleanup_entries_leads [OF assms run] Some run show ?thesis by (simp add: recover_import_cleanups_def)
qed

definition due :: "string \<Rightarrow> db \<Rightarrow> bool" where
  "due i d = (\<exists>j. sl_job (slice i d) = Some j \<and>
     (ij_state j = ImportRunning \<or> ij_state j = ImportPreflighting \<or> ij_state j = ImportStaging))"

text \<open>The jobs are recovered one after the other, up to the first that fails.\<close>

definition recovers :: "string list \<Rightarrow> db \<Rightarrow> db \<Rightarrow> bool" where
  "recovers ids d d' = (\<forall>i. if i \<in> set ids then recovered (slice i d) (slice i d') else slice i d' = slice i d)"

lemma recover_import_ids_moves:
  "imp_inv d \<Longrightarrow> distinct ids \<Longrightarrow> list_all (\<lambda>i. due i d) ids \<Longrightarrow>
     recover_import_ids io clock new_id ids d = (n, e, d') \<Longrightarrow>
     imp_inv d' \<and> moves_any\<^sup>*\<^sup>* d d' \<and> (e = None \<longrightarrow> n = length ids \<and> recovers ids d d')"
proof (induction io clock new_id ids d arbitrary: n e d' rule: recover_import_ids.induct)
  case (1 io clock new_id d)
  then show ?case by (simp add: recovers_def)
next
  case (2 io clock new_id i ids d)
  let ?m = "recover_import_tx i (new_id 0) (clock 0) (clock 1)"
  obtain j where j: "sl_job (slice i d) = Some j" "ij_state j = ImportRunning \<or> ij_state j = ImportPreflighting \<or> ij_state j = ImportStaging"
    using 2(4) by (auto simp: due_def)
  obtain res d1 where run: "with_immediate (io 0) ?m d = (res, d1)" by (cases "with_immediate (io 0) ?m d")
  note m = run_tx [OF recover_import_post [OF 2(2) j] run]
  show ?case
  proof (cases res)
    case (Inl x)
    then have "d1 = d" using m by auto
    then show ?thesis using 2(2,5) Inl run by auto
  next
    case (Inr u)
    then have mv: "moves i d d1" and rec: "recovered (slice i d) (slice i d1)" using m by auto
    obtain n1 where rest: "recover_import_ids (\<lambda>n. io (n + 1)) (\<lambda>n. clock (n + 2)) (\<lambda>n. new_id (n + 1)) ids d1 = (n1, e, d')"
      and n: "n = n1 + 1" using 2(5) run Inr by (auto split: prod.splits)
    have d1: "imp_inv d1" by (rule moves_inv [OF 2(2) mv])
    have same: "slice k d1 = slice k d" if "k \<noteq> i" for k using mv that by (simp add: moves_def at_slice_def)
    have others: "list_all (\<lambda>i. due i d1) ids"
      unfolding list_all_iff
    proof (rule ballI)
      fix k assume k: "k \<in> set ids"
      have "k \<noteq> i" and "due k d" using 2(3,4) k by (auto simp: list_all_iff)
      then show "due k d1" using same [of k] by (simp add: due_def)
    qed
    have i: "i \<notin> set ids" and "distinct ids" using 2(3) by simp_all
    from 2(1) [OF run [symmetric] Inr d1 this(2) others rest]
    have ih: "imp_inv d'" "moves_any\<^sup>*\<^sup>* d1 d'" "e = None \<Longrightarrow> n1 = length ids \<and> recovers ids d1 d'" by simp_all
    have "recovers (i # ids) d d'" if "recovers ids d1 d'"
      unfolding recovers_def
    proof
      fix k
      show "if k \<in> set (i # ids) then recovered (slice k d) (slice k d') else slice k d' = slice k d"
        using that [unfolded recovers_def, rule_format, of k] same [of k] i rec by (cases "k = i") (auto split: if_splits)
    qed
    then have "e = None \<Longrightarrow> n = length (i # ids) \<and> recovers (i # ids) d d'" using ih(3) n by simp
    moreover have "moves_any d d1" using mv by (auto simp: moves_any_def)
    ultimately show ?thesis using ih(1,2) by (auto intro: converse_rtranclp_into_rtranclp)
  qed
qed

lemma recoverable_due:
  assumes "imp_inv d"
  shows "distinct (recoverable_imports d)" and "list_all (\<lambda>i. due i d) (recoverable_imports d)"
proof -
  have keys: "distinct (map ij_job_id (import_jobs_t d))" using assms by (simp add: imp_inv_def keys_ok_def)
  then show "distinct (recoverable_imports d)" by (simp add: recoverable_imports_def distinct_map_filter)
  show "list_all (\<lambda>i. due i d) (recoverable_imports d)"
    using tbl_get_unique [OF keys] by (auto simp: recoverable_imports_def list_all_iff due_def slice_def)
qed

lemma recover_imports_leads:
  assumes "repo_inv r"
  shows "leads r (snd (snd (recover_imports io clock new_id r)))"
proof -
  have d: "imp_inv (rp_db r)" using assms by (simp add: repo_inv_def)
  obtain n e d' where run: "recover_import_ids io clock new_id (recoverable_imports (rp_db r)) (rp_db r) = (n, e, d')"
    by (cases "recover_import_ids io clock new_id (recoverable_imports (rp_db r)) (rp_db r)")
  from recover_import_ids_moves [OF d recoverable_due [OF d] run] run show ?thesis
    by (simp add: recover_imports_def leads_def repo_inv_def permits_ok_def)
qed

section \<open>The repository as a transition system\<close>

text \<open>
  One step is one call of a method, with any arguments, clock readings and faults of the transactions,
  a restart of the process, which loses the permits, or a write of another component, which leaves the
  rows of the import jobs and their tasks alone.
\<close>

inductive imp_step :: "repo \<Rightarrow> repo \<Rightarrow> bool" where
  call_create: "create_import hash io an tn now req (rp_db r) = (res, d) \<Longrightarrow> imp_step r (r\<lparr>rp_db := d\<rparr>)"
| call_start: "imp_step r (snd (start_run io clock new_id sr r))"
| call_begin: "begin_attempt_locked io now ar profile p (rp_permits r) (rp_db r) = (res, d) \<Longrightarrow> imp_step r (r\<lparr>rp_db := d\<rparr>)"
| call_ack: "imp_step r (snd (settle_ack hash io clock a r))"
| call_too_large: "imp_step r (snd (settle_too_large hash io clock a r))"
| call_incident: "imp_step r (snd (record_incident io tn now a incident_id kind r))"
| call_rejected: "imp_step r (snd (settle_rejected io tn now a r))"
| call_not_sent: "imp_step r (snd (mark_attempt_not_sent io tn now a r))"
| call_finish: "imp_step r (snd (finish_import io tn now fi r))"
| call_pause: "imp_step r (snd (pause_run io tn now i segment reason r))"
| call_invalidate: "imp_step r (snd (snd (invalidate_permits io clock conn generation revision reason entries r)))"
| call_abort: "imp_step r (snd (abort uuid_ok sha256_hex io tn now ab r))"
| call_resolve: "imp_step r (snd (resolve_incident uuid_ok sha256_hex hash io clock new_id rc r))"
| call_cancel: "imp_step r (snd (cancel_import uuid_ok sha256_hex io tn now i request_id expected r))"
| call_cleanup: "imp_step r (snd (cleanup_import uuid_ok sha256_hex io clock i request_id expected remove_files r))"
| call_recover_cleanups: "imp_step r (snd (snd (recover_import_cleanups io clock removed r)))"
| call_recover: "imp_step r (snd (snd (recover_imports io clock new_ids r)))"
| restarts: "imp_step r (r\<lparr>rp_permits := Map.empty\<rparr>)"
| elsewhere: "keys_ok d \<Longrightarrow> tasks_inv d \<Longrightarrow> (\<And>i. slice i d = slice i (rp_db r)) \<Longrightarrow> imp_step r (r\<lparr>rp_db := d\<rparr>)"

lemma restart_leads: "repo_inv r \<Longrightarrow> leads r (r\<lparr>rp_permits := Map.empty\<rparr>)"
  by (simp add: leads_def repo_inv_def permits_ok_def)

lemma elsewhere_leads:
  assumes "repo_inv r" and "keys_ok d" and "tasks_inv d" and "\<And>i. slice i d = slice i (rp_db r)"
  shows "leads r (r\<lparr>rp_db := d\<rparr>)"
proof -
  have mv: "moves i (rp_db r) d" for i using assms(2-4) by (simp add: moves_def at_slice_def)
  have "permits_ok (rp_permits r) d"
    using permits_same [OF _ mv assms(4)] assms(1) by (simp add: repo_inv_def)
  from leads_one [OF assms(1) mv this] show ?thesis by (cases r) simp
qed

lemma step_leads: "imp_step r r' \<Longrightarrow> repo_inv r \<Longrightarrow> leads r r'"
proof (induction rule: imp_step.induct)
  case call_create then show ?case using create_leads by blast
next
  case call_start then show ?case by (rule start_run_leads)
next
  case call_begin then show ?case using begin_attempt_leads by blast
next
  case call_ack then show ?case by (rule settle_ack_leads)
next
  case call_too_large then show ?case by (rule settle_too_large_leads)
next
  case call_incident then show ?case by (rule record_incident_leads)
next
  case call_rejected then show ?case by (rule settle_rejected_leads)
next
  case call_not_sent then show ?case by (rule not_sent_leads)
next
  case call_finish then show ?case by (rule finish_import_leads)
next
  case call_pause then show ?case by (rule pause_run_leads)
next
  case call_invalidate then show ?case by (rule invalidate_permits_leads)
next
  case call_abort then show ?case by (rule abort_leads)
next
  case call_resolve then show ?case by (rule resolve_leads)
next
  case call_cancel then show ?case by (rule cancel_import_leads)
next
  case call_cleanup then show ?case by (rule cleanup_import_leads)
next
  case call_recover_cleanups then show ?case by (rule recover_import_cleanups_leads)
next
  case call_recover then show ?case by (rule recover_imports_leads)
next
  case restarts then show ?case by (rule restart_leads)
next
  case elsewhere then show ?case using elsewhere_leads by blast
qed

text \<open>Every history begins before the first import.\<close>

definition repo_start :: "repo \<Rightarrow> bool" where
  "repo_start r = (rp_permits r = Map.empty \<and> tasks_inv (rp_db r) \<and> import_jobs_t (rp_db r) = [] \<and>
     segments_t (rp_db r) = [] \<and> attempts_t (rp_db r) = [] \<and> incidents_t (rp_db r) = [] \<and>
     checkpoints_t (rp_db r) = [] \<and> transitions_t (rp_db r) = [])"

lemma repo_start_inv: "repo_start r \<Longrightarrow> repo_inv r"
  by (simp add: repo_start_def repo_inv_def permits_ok_def imp_inv_def keys_ok_def job_ok_def slice_def table_simps)

interpretation import_engine: transition_system repo_start imp_step repo_inv
  by unfold_locales (auto intro: repo_start_inv leads_inv dest: step_leads)

end
