(* ===== verification/Import_Laws.thy ===== *)
theory Import_Laws
  imports Import_Repo
begin

text \<open>
  The properties of the import engine, over every reachable state of its repository.

  The batches that are settled tile the staging file; one batch is in flight, at the committed
  checkpoint; a permit in memory belongs to a live run at its checkpoint; the engine refines a journal
  of one job; recovery leaves nothing running; and two situations of an exact replay the code does not
  get out of.
\<close>

section \<open>Offsets\<close>

definition offset_at :: "slice \<Rightarrow> string \<Rightarrow> nat option" where
  "offset_at l digest = (case sl_cps l digest of None \<Rightarrow> None | Some c \<Rightarrow> offset_of (cp_logical_offset c))"






section \<open>The journal of a job\<close>












section \<open>A run\<close>

text \<open>
  One job and its first batch.  \<open>trace_sent\<close> has it in flight; in \<open>trace_acked\<close> it is acknowledged; in
  \<open>trace_doubt\<close> it came in doubt and waits for the decision; \<open>trace_replay\<close> runs the replay,
  \<open>trace_resent\<close> has it in flight again, \<open>trace_paused\<close> was paused before it was sent.
\<close>

definition trace_hash :: "checkpoint \<Rightarrow> string" where "trace_hash c = ''c'' @ cp_sequence c"

definition trace_start_cp :: checkpoint where
  "trace_start_cp = \<lparr>cp_sequence = ''0'', cp_parent_digest = '''', cp_logical_offset = ''0'',
     cp_last_settled_batch_id = '''', cp_last_disposition = '''', cp_adaptive_max_points = ''8'',
     cp_adaptive_max_bytes = ''8'', cp_source_sha256 = ''s'', cp_staging_sha256 = ''t'',
     cp_normalization_version = ''1'', cp_spec_digest = ''u'', cp_target_digest = ''v'', cp_lossy = False\<rparr>"

definition trace_create :: create_import_request where
  "trace_create = \<lparr>ci_job_id = ''j'', ci_profile_id = ''p'', ci_client_scope = ''s'', ci_request_digest = ''d'',
     ci_ledger_expires_at = 0, ci_initial_checkpoint = trace_start_cp\<rparr>"

definition trace_permit :: "string \<Rightarrow> string \<Rightarrow> permit" where
  "trace_permit segment digest = \<lparr>pm_run_segment_id = segment, pm_checkpoint_digest = digest, pm_profile_id = ''p'',
     pm_profile_revision = ''1'', pm_connection_id = ''n'', pm_connection_generation = ''1'',
     pm_protection_revision = ''1'', pm_lease_id = ''l''\<rparr>"

definition trace_start :: start_run_request where
  "trace_start = \<lparr>sr_job_id = ''j'', sr_expected_profile_id = ''p'', sr_run_segment_id = ''g'', sr_kind = ''NORMAL'',
     sr_command_scope = ''k'', sr_command_digest = ''x'', sr_expected_state_revision = ''1'',
     sr_grant_expires_at = Some 1, sr_command_expires_at = 0, sr_permit = trace_permit ''g'' ''c0''\<rparr>"

definition trace_batch :: "string \<Rightarrow> string \<Rightarrow> string \<Rightarrow> string \<Rightarrow> string \<Rightarrow> attempt_request" where
  "trace_batch a segment parent start_offset end_offset = \<lparr>ar_job_id = ''j'', ar_batch_id = ''b'', ar_attempt_id = a,
     ar_run_segment_id = segment, ar_parent_digest = parent, ar_start_offset = start_offset,
     ar_end_offset = end_offset, ar_payload_digest = ''y''\<rparr>"

definition trace_begin :: "attempt_request \<Rightarrow> repo \<Rightarrow> unit result \<times> db" where
  "trace_begin req r = begin_attempt_locked True 0 req ''p'' (trace_permit (ar_run_segment_id req) (ar_parent_digest req))
     (rp_permits r) (rp_db r)"

definition trace_decision :: resolution_commit where
  "trace_decision = \<lparr>rc_job_id = ''j'', rc_incident_id = ''i'', rc_parent_digest = ''c0'',
     rc_expected_state_revision = ''3'', rc_command_request_id = ''q'', rc_decision = DecisionReplayExact,
     rc_after_resolution = ResolutionContinue, rc_grant_token_hash = replicate 64 CHR ''0'',
     rc_run_segment_id = ''h'', rc_permit = Some (trace_permit ''h'' ''c0'')\<rparr>"

definition trace_send :: "attempt_request \<Rightarrow> repo \<Rightarrow> repo" where
  "trace_send req r = r\<lparr>rp_db := snd (trace_begin req r)\<rparr>"

definition trace_empty :: repo where "trace_empty = \<lparr>rp_db = empty_db, rp_permits = Map.empty\<rparr>"
definition trace_created :: repo where
  "trace_created = trace_empty\<lparr>rp_db := snd (create_import trace_hash True 0 0 0 trace_create (rp_db trace_empty))\<rparr>"
definition trace_running :: repo where
  "trace_running = snd (start_run (\<lambda>_. True) (\<lambda>_. 0) ''n'' trace_start trace_created)"
definition trace_sent :: repo where
  "trace_sent = trace_send (trace_batch ''a'' ''g'' ''c0'' ''0'' ''3'') trace_running"
definition trace_doubt :: repo where
  "trace_doubt = snd (record_incident True 0 0 ''a'' ''i'' ''UNKNOWN'' trace_sent)"
definition trace_replay :: repo where
  "trace_replay = snd (resolve_incident (\<lambda>_. True) (\<lambda>s. s) trace_hash (\<lambda>_. True) (\<lambda>_. 0) ''h'' trace_decision trace_doubt)"
definition trace_resent :: repo where
  "trace_resent = trace_send (trace_batch ''f'' ''h'' ''c0'' ''0'' ''3'') trace_replay"
definition trace_paused :: repo where
  "trace_paused = snd (pause_run True 0 0 ''j'' ''h'' ''RUNNER_STOPPED'' trace_replay)"

abbreviation imp_reachable :: "repo \<Rightarrow> bool" where
  "imp_reachable \<equiv> reachable_from repo_start imp_step"

lemma trace_started: "imp_reachable trace_empty"
  by (rule reach_init) (simp add: repo_start_def trace_empty_def tasks_inv_empty, simp add: empty_db_def)

lemma trace_reach_created: "imp_reachable trace_created"
  unfolding trace_created_def
  by (rule reach_step [OF trace_started], rule call_create, rule surjective_pairing)

lemma trace_reach_running: "imp_reachable trace_running"
  unfolding trace_running_def by (rule reach_step [OF trace_reach_created], rule call_start)

lemma trace_reach_send: "imp_reachable r \<Longrightarrow> imp_reachable (trace_send req r)"
  unfolding trace_send_def trace_begin_def
  by (erule reach_step, rule call_begin, rule surjective_pairing)

lemma trace_reach_sent: "imp_reachable trace_sent"
  unfolding trace_sent_def by (rule trace_reach_send [OF trace_reach_running])


lemma trace_reach_doubt: "imp_reachable trace_doubt"
  unfolding trace_doubt_def by (rule reach_step [OF trace_reach_sent], rule call_incident)

lemma trace_reach_replay: "imp_reachable trace_replay"
  unfolding trace_replay_def by (rule reach_step [OF trace_reach_doubt], rule call_resolve)

lemma trace_reach_resent: "imp_reachable trace_resent"
  unfolding trace_resent_def by (rule trace_reach_send [OF trace_reach_replay])

lemma trace_reach_paused: "imp_reachable trace_paused"
  unfolding trace_paused_def by (rule reach_step [OF trace_reach_replay], rule call_pause)

section \<open>Properties\<close>

lemma reach_inv: "imp_reachable r \<Longrightarrow> repo_inv r"
  by (rule import_engine.reachable_inv)

lemma reach_imp_inv: "imp_reachable r \<Longrightarrow> imp_inv (rp_db r)"
  by (drule reach_inv) (simp add: repo_inv_def)

definition import_row :: "string \<Rightarrow> repo \<Rightarrow> import_job_row option" where
  "import_row i r = tbl_get ij_job_id i (import_jobs_t (rp_db r))"

lemma row_of_slice: "sl_job (slice i (rp_db r)) = import_row i r"
  by (simp add: slice_def import_row_def)

text \<open>The live rows of a job as lists.\<close>

lemma filter_single:
  assumes "distinct (map key xs)" and "{x \<in> set xs. P x} = {a}"
  shows "filter P xs = [a]"
proof -
  have "set (filter P xs) = {a}" using assms(2) by simp
  moreover have "distinct (filter P xs)" using assms(1) by (simp add: distinct_map)
  ultimately show ?thesis by (metis distinct.simps(2) empty_iff empty_set insert_iff list.exhaust list.set(2) list.set_intros(1) set_empty2 singletonD)
qed

lemma sending_list: "imp_inv d \<Longrightarrow> sl_sending (slice i d) = {a} \<Longrightarrow> filter (is_sending_of i) (attempts_t d) = [a]"
  by (rule filter_single [of at_id]) (simp_all add: imp_inv_def keys_ok_def slice_def)

lemma live_list: "imp_inv d \<Longrightarrow> sl_live (slice i d) = {s} \<Longrightarrow> filter (is_live_of i) (segments_t d) = [s]"
  by (rule filter_single [of sg_id]) (simp_all add: imp_inv_def keys_ok_def slice_def)

lemma sending_slice: "a \<in> set (attempts_t d) \<Longrightarrow> at_state a = ''SENDING'' \<Longrightarrow> a \<in> sl_sending (slice (at_job_id a) d)"
  by (simp add: slice_def is_sending_of_def)

lemma sending_running:
  assumes "imp_inv d" and "a \<in> set (attempts_t d)" and "at_state a = ''SENDING''"
  obtains s j where "running (slice (at_job_id a) d) s" "sl_sending (slice (at_job_id a) d) = {a}"
    "sl_job (slice (at_job_id a) d) = Some j" "ij_state j = ImportRunning"
proof -
  obtain s where s: "running (slice (at_job_id a) d) s" "sl_sending (slice (at_job_id a) d) = {a}"
    by (rule running_slice [OF assms(1) sending_slice [OF assms(2,3)]])
  then obtain j where "sl_job (slice (at_job_id a) d) = Some j" "ij_state j = ImportRunning"
    by (auto simp: running_def split: option.splits)
  with s that show thesis by blast
qed






text \<open>
  C2. One batch at a time, from where the job stands: in every reachable state an attempt in flight is the
  only one of its job, the job is running, and the attempt starts at the committed checkpoint, at its
  offset, and ends after it.
\<close>

theorem one_batch_in_flight:
  assumes "imp_reachable r" and "a \<in> set (attempts_t (rp_db r))" and "at_state a = ''SENDING''"
  shows "filter (is_sending_of (at_job_id a)) (attempts_t (rp_db r)) = [a] \<and>
     (case import_row (at_job_id a) r of None \<Rightarrow> False
      | Some j \<Rightarrow> ij_state j = ImportRunning \<and> at_parent_digest a = ij_checkpoint_digest j \<and>
          offset_at (slice (at_job_id a) (rp_db r)) (ij_checkpoint_digest j) = offset_of (at_start_offset a) \<and>
          offset_less (at_start_offset a) (at_end_offset a))"
proof -
  let ?l = "slice (at_job_id a) (rp_db r)"
  have inv: "imp_inv (rp_db r)" by (rule reach_imp_inv [OF assms(1)])
  obtain s j where s: "running ?l s" "sl_sending ?l = {a}" "sl_job ?l = Some j" "ij_state j = ImportRunning"
    by (rule sending_running [OF inv assms(2,3)])
  note fl = in_flight_range [OF s(1,2)]
  have "import_row (at_job_id a) r = Some j" using s(3) by (simp add: row_of_slice)
  then show ?thesis
    using sending_list [OF inv s(2)] fl s(3,4)
    by (auto simp: digest_of_def range_ok_def offset_at_def offset_less_def split: option.splits)
qed

lemma trace_sent_rows:
  "map (\<lambda>a. (at_state a, at_job_id a, at_id a)) (attempts_t (rp_db trace_sent)) = [(''SENDING'', ''j'', ''a'')]"
  by code_simp

lemma one_batch_in_flight_witness:
  "imp_reachable trace_sent \<and> (\<exists>a. a \<in> set (attempts_t (rp_db trace_sent)) \<and> at_state a = ''SENDING'' \<and>
     filter (is_sending_of ''j'') (attempts_t (rp_db trace_sent)) = [a])"
proof -
  obtain a where a: "attempts_t (rp_db trace_sent) = [a]" "at_state a = ''SENDING''" "at_job_id a = ''j''"
    using trace_sent_rows by (auto simp: map_eq_Cons_conv)
  then show ?thesis using one_batch_in_flight [OF trace_reach_sent, of a] trace_reach_sent by auto
qed

text \<open>
  C3. A permit in memory always names the one live run segment of its job, at the checkpoint that segment
  and the job are committed to.  So a worker with a permit can only write from the committed checkpoint.
\<close>

theorem permit_names_live_run:
  assumes "imp_reachable r" and "rp_permits r i = Some p"
  shows "\<exists>s j. filter (is_live_of i) (segments_t (rp_db r)) = [s] \<and> sg_id s = pm_run_segment_id p \<and>
     sg_committed_digest s = pm_checkpoint_digest p \<and> import_row i r = Some j \<and> ij_state j = ImportRunning \<and>
     ij_checkpoint_digest j = pm_checkpoint_digest p"
proof -
  have inv: "imp_inv (rp_db r)" by (rule reach_imp_inv [OF assms(1)])
  have "runs_at i (rp_db r) (pm_run_segment_id p) (pm_checkpoint_digest p)"
    using reach_inv [OF assms(1)] assms(2) by (simp add: repo_inv_def permits_ok_def)
  then obtain s where s: "running (slice i (rp_db r)) s" "sg_id s = pm_run_segment_id p"
    "sg_committed_digest s = pm_checkpoint_digest p" by (auto simp: runs_at_def)
  have live: "sl_live (slice i (rp_db r)) = {s}" using s(1) by (simp add: running_def)
  show ?thesis using s live_list [OF inv live]
    by (auto simp: running_def digest_of_def row_of_slice split: option.splits)
qed

lemma trace_sent_permit: "rp_permits trace_sent ''j'' = Some (trace_permit ''g'' ''c0'')"
  by code_simp

lemma permit_names_live_run_witness:
  "imp_reachable trace_sent \<and> rp_permits trace_sent ''j'' = Some (trace_permit ''g'' ''c0'') \<and>
   (\<exists>s. filter (is_live_of ''j'') (segments_t (rp_db trace_sent)) = [s] \<and> sg_id s = ''g'' \<and> sg_committed_digest s = ''c0'')"
  using permit_names_live_run [OF trace_reach_sent trace_sent_permit] trace_reach_sent trace_sent_permit
  by (auto simp: trace_permit_def)



text \<open>After a recovery no job is running.\<close>

lemma recovered_rests:
  assumes "imp_inv d'" and "recovers (recoverable_imports d) d d'"
  shows "sl_live (slice i d') = {} \<and> sl_sending (slice i d') = {}"
proof (rule ccontr)
  assume busy: "\<not> (sl_live (slice i d') = {} \<and> sl_sending (slice i d') = {})"
  have "job_ok (slice i d')" by (rule imp_invD(3) [OF assms(1)])
  with busy obtain s where s: "running (slice i d') s" by (auto simp: job_ok_def resting_def split: if_splits)
  show False
  proof (cases "i \<in> set (recoverable_imports d)")
    case True
    then have "recovered (slice i d) (slice i d')" using assms(2) by (simp add: recovers_def)
    then show False using busy by (auto simp: recovered_def resting_def split: option.splits if_splits)
  next
    case False
    then have "slice i d' = slice i d" using assms(2) by (simp add: recovers_def)
    with s obtain j where j: "sl_job (slice i d) = Some j" "ij_state j = ImportRunning"
      by (auto simp: running_def split: option.splits)
    then have "j \<in> set (import_jobs_t d)" "ij_job_id j = i" by (auto simp: slice_def dest: tbl_get_SomeD)
    with j(2) False show False by (auto simp: recoverable_imports_def)
  qed
qed

lemma resting_tables:
  assumes "\<And>i. sl_live (slice i d) = {} \<and> sl_sending (slice i d) = {}"
  shows "filter (\<lambda>a. at_state a = ''SENDING'') (attempts_t d) = []"
    and "filter (\<lambda>s. live_segment_state (sg_state s)) (segments_t d) = []"
proof -
  show "filter (\<lambda>a. at_state a = ''SENDING'') (attempts_t d) = []"
    using assms sending_slice [of _ d] by (fastforce simp: filter_empty_conv)
  have "\<not> live_segment_state (sg_state s)" if "s \<in> set (segments_t d)" for s
    using assms [of "sg_job_id s"] that by (auto simp: slice_def is_live_of_def)
  then show "filter (\<lambda>s. live_segment_state (sg_state s)) (segments_t d) = []" by (simp add: filter_empty_conv)
qed

text \<open>
  C5. After a successful recovery nothing runs: no permit, no live segment and no attempt in flight is
  left, every job that was running or staging was recovered, and no other job changed.  A running job with
  an attempt in flight waits for the decision on an incident with the range of that attempt; without one it
  is paused; no checkpoint moves.
\<close>

theorem recovery_leaves_nothing_running:
  assumes "imp_reachable r" and "recover_imports io clock new_id r = (n, None, r')"
  shows "rp_permits r' = Map.empty \<and> n = length (recoverable_imports (rp_db r)) \<and>
     filter (\<lambda>a. at_state a = ''SENDING'') (attempts_t (rp_db r')) = [] \<and>
     filter (\<lambda>s. live_segment_state (sg_state s)) (segments_t (rp_db r')) = [] \<and>
     recovers (recoverable_imports (rp_db r)) (rp_db r) (rp_db r')"
proof -
  let ?d = "rp_db r" and ?ids = "recoverable_imports (rp_db r)"
  have d: "imp_inv ?d" by (rule reach_imp_inv [OF assms(1)])
  obtain e d' where run: "recover_import_ids io clock new_id ?ids ?d = (n, e, d')" and r': "e = None" "r' = \<lparr>rp_db = d', rp_permits = Map.empty\<rparr>"
    using assms(2) by (auto simp: recover_imports_def split: prod.splits)
  have rec: "imp_inv d'" "n = length ?ids" "recovers ?ids ?d d'"
    using recover_import_ids_moves [OF d recoverable_due [OF d] run] r'(1) by simp_all
  show ?thesis using resting_tables [OF recovered_rests [OF rec(1,3)]] rec(2,3) r' by simp
qed

lemma trace_recovered:
  "recoverable_imports (rp_db trace_sent) = [''j''] \<and>
   fst (recover_imports (\<lambda>_. True) (\<lambda>_. 0) (\<lambda>_. ''w'') trace_sent) = 1 \<and>
   fst (snd (recover_imports (\<lambda>_. True) (\<lambda>_. 0) (\<lambda>_. ''w'') trace_sent)) = None"
  by code_simp

lemma recovery_leaves_nothing_running_witness:
  "imp_reachable trace_sent \<and> attempts_t (rp_db trace_sent) \<noteq> [] \<and>
   (case recover_imports (\<lambda>_. True) (\<lambda>_. 0) (\<lambda>_. ''w'') trace_sent of (n, e, r') \<Rightarrow>
      n = 1 \<and> e = None \<and> filter (\<lambda>a. at_state a = ''SENDING'') (attempts_t (rp_db r')) = [] \<and>
      recovers [''j''] (rp_db trace_sent) (rp_db r'))"
proof -
  obtain r' where run: "recover_imports (\<lambda>_. True) (\<lambda>_. 0) (\<lambda>_. ''w'') trace_sent = (1, None, r')"
    using trace_recovered by (metis prod.collapse)
  show ?thesis
    using recovery_leaves_nothing_running [OF trace_reach_sent run] trace_reach_sent trace_sent_rows trace_recovered run
    by auto
qed

text \<open>
  C36. A replay in flight cannot come in doubt again: while an attempt of a job is in flight and the job has
  an open incident, as during an exact replay, \<open>RecordIncident\<close> fails, and so does \<open>RecoverImports\<close> after
  a restart, because a job can have only one open incident.
\<close>

theorem replay_in_flight_blocks_recovery:
  assumes "imp_reachable r" and "a \<in> set (attempts_t (rp_db r))" and "at_state a = ''SENDING''"
    and "n \<in> set (incidents_t (rp_db r))" and "is_open_of (at_job_id a) n"
  shows "fst (snd (recover_imports io clock new_id r)) \<noteq> None \<and>
     \<not> is_ok (fst (record_incident fault tn now (at_id a) incident_id kind r))"
proof
  let ?i = "at_job_id a" and ?d = "rp_db r"
  have d: "imp_inv ?d" by (rule reach_imp_inv [OF assms(1)])
  have op: "sl_open (slice ?i ?d) \<noteq> {}" using assms(4,5) by (auto simp: slice_def)
  obtain s j where s: "running (slice ?i ?d) s" "sl_sending (slice ?i ?d) = {a}" "sl_job (slice ?i ?d) = Some j" "ij_state j = ImportRunning"
    by (rule sending_running [OF d assms(2,3)])
  show "fst (snd (recover_imports io clock new_id r)) \<noteq> None"
  proof
    assume none: "fst (snd (recover_imports io clock new_id r)) = None"
    obtain m e d' where run: "recover_import_ids io clock new_id (recoverable_imports ?d) ?d = (m, e, d')"
      by (cases "recover_import_ids io clock new_id (recoverable_imports ?d) ?d")
    then have e: "e = None" using none by (simp add: recover_imports_def)
    have "recovers (recoverable_imports ?d) ?d d'"
      using recover_import_ids_moves [OF d recoverable_due [OF d] run] e by simp
    moreover have "?i \<in> set (recoverable_imports ?d)"
      using s(3,4) by (force simp: recoverable_imports_def slice_def dest: tbl_get_SomeD)
    ultimately have "recovered (slice ?i ?d) (slice ?i d')" by (simp add: recovers_def)
    then show False using op s by (simp add: recovered_def)
  qed
  show "\<not> is_ok (fst (record_incident fault tn now (at_id a) incident_id kind r))"
  proof (cases "kind = ''PARTIAL'' \<or> kind = ''UNKNOWN''")
    case False
    then show ?thesis by (simp add: record_incident_def)
  next
    case True
    have job: "attempt_job (at_id a) ?d = Inr ?i"
      using tbl_get_unique [of at_id "attempts_t ?d" a] d assms(2) by (simp add: attempt_job_def imp_inv_def keys_ok_def)
    let ?m = "record_incident_tx (at_id a) incident_id kind ?i tn now"
    obtain res d' where run: "with_immediate fault ?m ?d = (res, d')" by (cases "with_immediate fault ?m ?d")
    have "\<exists>e. res = Inl e" using run_tx [OF record_incident_post [OF d job True] run] op by auto
    then show ?thesis using True job run by (auto simp: record_incident_def with_attempt_job_def run_revoking_def)
  qed
qed

lemma trace_resent_rows:
  "map (\<lambda>a. (at_id a, at_state a, at_job_id a)) (attempts_t (rp_db trace_resent)) =
     [(''a'', ''UNKNOWN'', ''j''), (''f'', ''SENDING'', ''j'')] \<and>
   map (is_open_of ''j'') (incidents_t (rp_db trace_resent)) = [True]"
  by code_simp

lemma replay_in_flight_blocks_recovery_witness:
  "imp_reachable trace_resent \<and>
   fst (snd (recover_imports (\<lambda>_. True) (\<lambda>_. 0) (\<lambda>_. ''w'') trace_resent)) \<noteq> None \<and>
   \<not> is_ok (fst (record_incident True 0 0 ''f'' ''w'' ''UNKNOWN'' trace_resent))"
proof -
  obtain b a where a: "attempts_t (rp_db trace_resent) = [b, a]" "at_state a = ''SENDING''" "at_job_id a = ''j''" "at_id a = ''f''"
    using trace_resent_rows by (auto simp: map_eq_Cons_conv)
  obtain n where n: "incidents_t (rp_db trace_resent) = [n]" "is_open_of ''j'' n"
    using trace_resent_rows by (auto simp: map_eq_Cons_conv)
  show ?thesis
    using replay_in_flight_blocks_recovery [OF trace_reach_resent, of a n] a n trace_reach_resent by simp
qed

text \<open>A job that was paused during an exact replay, before the replay was sent.\<close>

definition paused_in_doubt :: "string \<Rightarrow> db \<Rightarrow> bool" where
  "paused_in_doubt i d = (imp_inv d \<and> sl_open (slice i d) \<noteq> {} \<and>
     (case sl_job (slice i d) of None \<Rightarrow> False | Some j \<Rightarrow> ij_state j = ImportPausedSafe))"

lemma paused_read:
  assumes "paused_in_doubt i d" and "get_import_in_tx i d = Inr (jb, d)"
  shows "t_state (im_task jb) = ImportPausedSafe" and "im_open_incident jb \<noteq> None" and "t_id (im_task jb) = i"
    and "List.find (is_live_of i) (segments_t d) = None" and "\<not> no_live_work i d"
proof -
  have inv: "imp_inv d" using assms(1) by (simp add: paused_in_doubt_def)
  obtain j where r: "reading i d jb j" using readingI [OF inv assms(2)] by blast
  note c = readingD [OF r]
  have st: "ij_state j = ImportPausedSafe" using assms(1) c(2) by (simp add: paused_in_doubt_def)
  then show "t_state (im_task jb) = ImportPausedSafe" "t_id (im_task jb) = i" using c(4,8) by simp_all
  show "im_open_incident jb \<noteq> None" using assms(1) c(11) by (auto simp: paused_in_doubt_def)
  have "sl_live (slice i d) = {}" using reading_resting(3) [OF r] st by simp
  then show "List.find (is_live_of i) (segments_t d) = None" using live_option [OF inv, of i] by simp
  show "\<not> no_live_work i d" using no_work_slice(3) [of i d] assms(1) by (auto simp: paused_in_doubt_def)
qed

lemma stays: "post m d (\<lambda>_ d'. d' = d) \<Longrightarrow> snd (with_immediate io m d) = d"
  by (cases "with_immediate io m d") (use run_tx [of m d] in fastforce)

lemma abort_stays:
  assumes p: "paused_in_doubt (ab_job_id req) d"
  shows "post (abort_new_tx req scope digest tn now) d (\<lambda>_ d'. d' = d)"
  unfolding abort_new_tx_def Let_def
  apply (intro post_bind post_get_import, rule post_atomic, intro post_bind, rule post_atomic)
  using paused_read(1) [OF p] by (simp add: decision_state_def)

lemma resolve_stays:
  assumes p: "paused_in_doubt (rc_job_id req) d"
  shows "post (resolve_new_tx hash req scope digest tn now) d (\<lambda>_ _. False)"
  unfolding resolve_new_tx_def Let_def
  apply (intro post_bind post_get_import, rule post_atomic, intro post_bind, rule post_atomic)
  subgoal premises q for jb n
    using validate_stateD(5) [OF q(3)] paused_read(1) [OF p q(1)] by (simp add: decision_state_def)
  done

lemma cancel_stays:
  assumes p: "paused_in_doubt i d"
  shows "post (cancel_new_tx i request_id revision scope digest tn now) d (\<lambda>_ d'. d' = d)"
  unfolding cancel_new_tx_def Let_def
  apply (intro post_bind post_get_import, rule post_atomic, rule post_bind,
      rule post_count_sending [OF imp_inv_at], use p in \<open>simp add: paused_in_doubt_def\<close>)
  apply (rule post_bind, rule post_atomic, rule post_if)
  subgoal premises q using q paused_read [OF p q(1)] by simp
  apply (intro post_bind, rule post_atomic, rule post_bind, rule post_atomic)
  using paused_read(2) [OF p] by simp

lemma finish_stays:
  assumes p: "paused_in_doubt (fi_job_id req) d"
  shows "post (finish_import_tx req bytes ps tn now) d (\<lambda>_ d'. d' = d)"
  unfolding finish_import_tx_def Let_def
  apply (intro post_bind post_get_import post_if, rule post_atomic, simp, rule post_atomic)
  using paused_read(1) [OF p] by simp

lemma cleanup_stays:
  assumes p: "paused_in_doubt i d"
  shows "post (begin_cleanup_tx i request_id revision scope digest tn now) d (\<lambda>(_, _, finished) d'. finished \<and> d' = d)"
  unfolding begin_cleanup_tx_def
  apply (rule post_bind, rule post_lookup_command, rule post_option)
  unfolding cleanup_new_tx_def require_no_live_work_def
   apply (rule post_bind, intro post_bind post_get_import, rule post_atomic, rule post_bind, rule post_atomic)
   apply (intro post_bind, rule post_atomic, rule post_atomic)
  subgoal using paused_read(3,5) [OF p] by simp
  apply (rule post_bind, rule post_require_entry, intro post_bind post_get_import post_if)
   apply (rule post_atomic, simp)
  apply (rule post_atomic)
  using paused_read(1) [OF p] by simp

lemma replay_or_tx_stays:
  assumes "post new_tx d (\<lambda>_ d'. d' = d)"
  shows "post (replay_or_tx scope digest i new_tx) d (\<lambda>_ d'. d' = d)"
  unfolding replay_or_tx_def
  apply (rule post_bind, rule post_lookup_command, rule post_option)
   apply (rule post_bind, rule post_imp [OF assms], rule post_atomic, assumption)
  apply (rule post_bind, rule post_get_import, rule post_atomic, rule refl)
  done

lemma stays_cases:
  assumes "post m d (\<lambda>_ d'. d' = d)"
  obtains res where "with_immediate io m d = (res, d)"
  using stays [OF assms, of io] by (metis prod.collapse)

lemma keep_or_revoke_db:
  assumes "post m (rp_db r) (\<lambda>_ d'. d' = rp_db r)"
  shows "rp_db (snd (case with_immediate io m (rp_db r) of
       (Inl e, d) \<Rightarrow> (Inl e, r\<lparr>rp_db := d\<rparr>)
     | (Inr out, d) \<Rightarrow> (Inr out, \<lparr>rp_db = d, rp_permits = permit_revoke i (rp_permits r)\<rparr>))) = rp_db r"
  by (rule stays_cases [OF assms, of io]) (simp split: sum.split)

lemma abort_unchanged:
  assumes "paused_in_doubt (ab_job_id req) (rp_db r)"
  shows "rp_db (snd (abort uuid_ok sha256_hex io tn now req r)) = rp_db r"
proof -
  let ?scope = "abort_command_scope req" and ?digest = "abort_command_digest sha256_hex req"
  obtain res where "with_immediate io (replay_or_tx ?scope ?digest (ab_job_id req)
      (abort_new_tx req ?scope ?digest tn now)) (rp_db r) = (res, rp_db r)"
    by (rule stays_cases [OF replay_or_tx_stays [OF abort_stays [OF assms]]])
  then show ?thesis by (simp add: abort_def Let_def)
qed

lemma resolve_replayed:
  assumes "paused_in_doubt (rc_job_id req) d"
  shows "post (replay_or_tx scope digest (rc_job_id req) (resolve_new_tx hash req scope digest tn now)) d
     (\<lambda>(_, replayed) d'. replayed \<and> d' = d)"
  unfolding replay_or_tx_def
  apply (rule post_bind, rule post_lookup_command, rule post_option)
   apply (rule post_bind, rule post_imp [OF resolve_stays [OF assms]], simp)
  apply (rule post_bind, rule post_get_import, rule post_atomic, simp)
  done

lemma resolve_unchanged:
  assumes p: "paused_in_doubt (rc_job_id req0) (rp_db r)"
  shows "rp_db (snd (resolve_incident uuid_ok sha256_hex hash ios clock new_id req0 r)) = rp_db r"
proof -
  define req where "req = (if rc_run_segment_id req0 = '''' then req0\<lparr>rc_run_segment_id := new_id\<rparr> else req0)"
  let ?scope = "resolution_command_scope req" and ?digest = "resolution_command_digest sha256_hex req"
  let ?m = "replay_or_tx ?scope ?digest (rc_job_id req) (resolve_new_tx hash req ?scope ?digest (clock 0) (clock 1))"
  have "paused_in_doubt (rc_job_id req) (rp_db r)" using p by (simp add: req_def)
  note run = run_tx [OF resolve_replayed [OF this], of "ios 0" ?scope ?digest hash "clock 0" "clock 1"]
  obtain res d' where m: "with_immediate (ios 0) ?m (rp_db r) = (res, d')" by (cases "with_immediate (ios 0) ?m (rp_db r)")
  then have res: "(\<exists>e. res = Inl e) \<or> (\<exists>out. res = Inr (out, True))" and d': "d' = rp_db r" using run [of res d'] by auto
  show ?thesis
  proof (cases "validate_resolution_commit uuid_ok req0")
    case (Inl e)
    then show ?thesis by (simp add: resolve_incident_def)
  next
    case (Inr u)
    then show ?thesis using res m d'
      by (elim disjE exE) (simp_all add: resolve_incident_def req_def [symmetric] Let_def)
  qed
qed

lemma cancel_unchanged:
  assumes p: "paused_in_doubt i (rp_db r)"
  shows "rp_db (snd (cancel_import uuid_ok sha256_hex io tn now i request_id expected r)) = rp_db r"
proof -
  have "post (tx_bind (lookup_command_in_tx scope digest) (\<lambda>found.
     case found of
       Some entry \<Rightarrow> tx_bind (require_import_entry i entry) (\<lambda>_. tx_bind (get_import_in_tx i) (\<lambda>out. tx_return (out, True)))
     | None \<Rightarrow> tx_bind (cancel_new_tx i request_id revision scope digest tn now) (\<lambda>out. tx_return (out, False)))) (rp_db r)
     (\<lambda>_ d'. d' = rp_db r)" for scope digest revision
    apply (rule post_bind, rule post_lookup_command, rule post_option)
     apply (rule post_bind, rule post_imp [OF cancel_stays [OF p]], rule post_atomic, assumption)
    apply (rule post_bind, rule post_require_entry, rule post_bind, rule post_get_import, rule post_atomic, rule refl)
    done
  note m = keep_or_revoke_db [OF this, of i io]
  show ?thesis
  proof (cases "validate_import_control uuid_ok sha256_hex i ''CANCEL'' request_id expected")
    case (Inl e)
    then show ?thesis by (simp add: cancel_import_def)
  next
    case (Inr v)
    then show ?thesis using m
      by (cases v) (auto simp: cancel_import_def split: option.split sum.split)
  qed
qed

lemma cleanup_unchanged:
  assumes p: "paused_in_doubt i (rp_db r)"
  shows "rp_db (snd (cleanup_import uuid_ok sha256_hex ios clock i request_id expected remove_files r)) = rp_db r"
proof -
  have "rp_db (snd (run_cleanup ios clock i request_id revision scope digest removed r)) = rp_db r"
    for revision scope digest removed
    using run_tx [OF cleanup_stays [OF p], of "ios 0" request_id revision scope digest "clock 0" "clock 1"]
    by (cases "with_immediate (ios 0) (begin_cleanup_tx i request_id revision scope digest (clock 0) (clock 1)) (rp_db r)")
      (auto simp: run_cleanup_def split: sum.split)
  then show ?thesis by (simp add: cleanup_import_def split: sum.split option.split prod.split)
qed

lemma finish_unchanged:
  assumes p: "paused_in_doubt (fi_job_id req) (rp_db r)"
  shows "rp_db (snd (finish_import io tn now req r)) = rp_db r"
proof (cases "transfer_canonical_decimal (fi_staging_logical_size req)")
  case (Inl e)
  then show ?thesis by (simp add: finish_import_def)
next
  case (Inr bytes)
  obtain res where "with_immediate io (finish_import_tx req bytes (rp_permits r) tn now) (rp_db r) = (res, rp_db r)"
    by (rule stays_cases [OF finish_stays [OF p]])
  then show ?thesis using Inr by (cases res) (auto simp: finish_import_def)
qed

text \<open>
  C37. A replay that is paused before it is sent cannot end: once a job is paused while its incident is
  open, \<open>Abort\<close>, \<open>ResolveIncident\<close>, \<open>CancelImport\<close>, \<open>CleanupImport\<close> and \<open>FinishImport\<close> change nothing in the
  database, whatever their other arguments, and such a job is reachable.
\<close>

theorem paused_replay_cannot_end:
  assumes "imp_reachable r" and "import_row i r = Some j" and "ij_state j = ImportPausedSafe"
    and "n \<in> set (incidents_t (rp_db r))" and "is_open_of i n"
  shows "rp_db (snd (abort uuid_ok sha256_hex io tn now (ab\<lparr>ab_job_id := i\<rparr>) r)) = rp_db r \<and>
    rp_db (snd (resolve_incident uuid_ok sha256_hex hash ios clock new_id (rc\<lparr>rc_job_id := i\<rparr>) r)) = rp_db r \<and>
    rp_db (snd (cancel_import uuid_ok sha256_hex io tn now i request_id expected r)) = rp_db r \<and>
    rp_db (snd (cleanup_import uuid_ok sha256_hex ios clock i request_id expected remove_files r)) = rp_db r \<and>
    rp_db (snd (finish_import io tn now (fi\<lparr>fi_job_id := i\<rparr>) r)) = rp_db r"
proof -
  have "paused_in_doubt i (rp_db r)"
    using assms reach_imp_inv [OF assms(1)] by (auto simp: paused_in_doubt_def row_of_slice) (auto simp: slice_def)
  then show ?thesis
    by (intro conjI abort_unchanged resolve_unchanged cancel_unchanged cleanup_unchanged finish_unchanged) simp_all
qed

lemma trace_paused_rows:
  "map_option ij_state (import_row ''j'' trace_paused) = Some ImportPausedSafe \<and>
   map (is_open_of ''j'') (incidents_t (rp_db trace_paused)) = [True]"
  by code_simp

lemma paused_replay_cannot_end_witness:
  "imp_reachable trace_paused \<and> map_option ij_state (import_row ''j'' trace_paused) = Some ImportPausedSafe \<and>
   rp_db (snd (cancel_import (\<lambda>_. True) (\<lambda>s. s) True 0 0 ''j'' ''z'' ''5'' trace_paused)) = rp_db trace_paused"
proof -
  obtain j where j: "import_row ''j'' trace_paused = Some j" "ij_state j = ImportPausedSafe"
    using trace_paused_rows by auto
  obtain n where n: "incidents_t (rp_db trace_paused) = [n]" "is_open_of ''j'' n"
    using trace_paused_rows by (auto simp: map_eq_Cons_conv)
  show ?thesis using paused_replay_cannot_end [OF trace_reach_paused j, of n] n j trace_reach_paused by simp
qed

text \<open>
  A replay that is acknowledged with \<open>CONTINUE\<close> leaves its segment active, but the next attempt in it
  cannot begin: the segment is still of kind \<open>REPLAY_EXACT\<close> and its incident is closed.
\<close>

definition trace_replayed :: repo where
  "trace_replayed = snd (settle_ack trace_hash (\<lambda>_. True) (\<lambda>_. 0) ''f'' trace_resent)"

lemma replay_continue_cannot_send:
  "imp_reachable trace_replayed \<and>
   map (\<lambda>s. (sg_id s, sg_kind s, sg_state s)) (filter (is_live_of ''j'') (segments_t (rp_db trace_replayed))) =
     [(''h'', ''REPLAY_EXACT'', ''ACTIVE'')] \<and>
   map_option (\<lambda>p. (pm_run_segment_id p, pm_checkpoint_digest p)) (rp_permits trace_replayed ''j'') = Some (''h'', ''c1'') \<and>
   fst (trace_begin (trace_batch ''w'' ''h'' ''c1'' ''3'' ''6'') trace_replayed) = Inl SqlNoRows"
proof -
  have "imp_reachable trace_replayed"
    unfolding trace_replayed_def by (rule reach_step [OF trace_reach_resent], rule call_ack)
  moreover have "map (\<lambda>s. (sg_id s, sg_kind s, sg_state s)) (filter (is_live_of ''j'') (segments_t (rp_db trace_replayed))) =
     [(''h'', ''REPLAY_EXACT'', ''ACTIVE'')] \<and>
   map_option (\<lambda>p. (pm_run_segment_id p, pm_checkpoint_digest p)) (rp_permits trace_replayed ''j'') = Some (''h'', ''c1'') \<and>
   fst (trace_begin (trace_batch ''w'' ''h'' ''c1'' ''3'' ''6'') trace_replayed) = Inl SqlNoRows"
    by code_simp
  ultimately show ?thesis by blast
qed

end
