(* ===== verification/Go_Conv.thy ===== *)
theory Go_Conv
  imports Decimal "HOL-Library.List_Lexorder" "HOL-Library.Char_ord"
begin

text \<open>
  The parts of Go's \<open>strconv\<close>, \<open>strings\<close>, \<open>sort\<close> and \<open>unicode/utf8\<close> the line-protocol code relies on.
  A Go string is its list of bytes.

  \<open>ParseFloat\<close> followed by \<open>FormatFloat(f, 'g', -1, 64)\<close> is a parameter of the definitions that use it,
  \<open>float_text\<close>: \<open>None\<close> for an error, else whether the number is finite and its text.  \<open>float_text_ok\<close>
  is what its documentation promises: the shortest text that parses to the same number again.
\<close>

section \<open>Integers\<close>

definition parse_int :: "nat \<Rightarrow> string \<Rightarrow> int option" where
  "parse_int bits s =
     (case big_set_string s of
        None \<Rightarrow> None
      | Some n \<Rightarrow> if - (2 ^ (bits - 1)) \<le> n \<and> n < 2 ^ (bits - 1) then Some n else None)"

definition parse_uint :: "nat \<Rightarrow> string \<Rightarrow> int option" where
  "parse_uint bits s =
     (case parse_digits s of None \<Rightarrow> None | Some n \<Rightarrow> if n < 2 ^ bits then Some n else None)"

definition format_int :: "int \<Rightarrow> string" where "format_int n = big_string n"

lemma dec_Cons: "\<exists>c cs. dec n = c # cs \<and> is_digit c \<and> list_all is_digit cs"
  using dec_digits [of n] dec_nonempty [of n] by (cases "dec n") simp_all

lemma parse_digits_dec [simp]: "parse_digits (dec n) = Some (int n)"
  by (simp add: parse_digits_def dec_digits)

lemma big_set_format [simp]: "big_set_string (format_int n) = Some n"
  by (cases "n < 0") (simp_all add: format_int_def big_string_def)

lemma parse_format_int: "parse_int bits s = Some n \<Longrightarrow> parse_int bits (format_int n) = Some n"
  by (auto simp: parse_int_def split: option.splits if_splits)

lemma parse_format_uint: "parse_uint bits s = Some n \<Longrightarrow> parse_uint bits (format_int n) = Some n"
  by (auto simp: parse_uint_def parse_digits_def format_int_def big_string_def dec_digits split: option.splits if_splits)

lemma format_int_chars: "list_all (\<lambda>c. is_digit c \<or> c = CHR ''-'') (format_int n)" "format_int n \<noteq> []"
proof -
  show "list_all (\<lambda>c. is_digit c \<or> c = CHR ''-'') (format_int n)"
    using dec_digits by (auto simp: format_int_def big_string_def list_all_iff)
  show "format_int n \<noteq> []" by (simp add: format_int_def big_string_def)
qed

section \<open>Floats\<close>

definition float_chars :: string where "float_chars = ''0123456789+-.e''"

definition float_text_ok :: "(string \<Rightarrow> (bool \<times> string) option) \<Rightarrow> bool" where
  "float_text_ok float_text = (\<forall>v t. float_text v = Some (True, t) \<longrightarrow>
     float_text t = Some (True, t) \<and> t \<noteq> '''' \<and> list_all (\<lambda>c. c \<in> set float_chars) t)"

section \<open>Bytes and UTF-8\<close>

definition byte :: "char \<Rightarrow> nat" where "byte c = of_char c"

definition contains_any :: "string \<Rightarrow> string \<Rightarrow> bool" where
  "contains_any s chars = list_ex (\<lambda>c. c \<in> set chars) s"

definition continuation :: "char \<Rightarrow> bool" where
  "continuation c = (0x80 \<le> byte c \<and> byte c \<le> 0xBF)"

text \<open>The bounds of the second byte after a lead byte of a three or four byte sequence.\<close>

definition second_ok :: "nat \<Rightarrow> char \<Rightarrow> bool" where
  "second_ok b c =
     (if b = 0xE0 then 0xA0 \<le> byte c \<and> byte c \<le> 0xBF
      else if b = 0xED then 0x80 \<le> byte c \<and> byte c \<le> 0x9F
      else if b = 0xF0 then 0x90 \<le> byte c \<and> byte c \<le> 0xBF
      else if b = 0xF4 then 0x80 \<le> byte c \<and> byte c \<le> 0x8F
      else continuation c)"

fun utf8_valid :: "string \<Rightarrow> bool" where
  "utf8_valid [] = True"
| "utf8_valid (a # s) =
     (if byte a < 0x80 then utf8_valid s
      else if byte a < 0xC2 then False
      else if byte a \<le> 0xDF then (case s of c # s \<Rightarrow> continuation c \<and> utf8_valid s | [] \<Rightarrow> False)
      else if byte a \<le> 0xEF then
        (case s of c # d # s \<Rightarrow> second_ok (byte a) c \<and> continuation d \<and> utf8_valid s | _ \<Rightarrow> False)
      else if byte a \<le> 0xF4 then
        (case s of c # d # e # s \<Rightarrow> second_ok (byte a) c \<and> continuation d \<and> continuation e \<and> utf8_valid s | _ \<Rightarrow> False)
      else False)"

text \<open>The code points of a valid string, one after the other.\<close>

lemma utf8_induct [consumes 1, case_names Nil ascii two three four]:
  assumes "utf8_valid s" and "P []" and "\<And>a s. byte a < 0x80 \<Longrightarrow> utf8_valid s \<Longrightarrow> P s \<Longrightarrow> P (a # s)"
    and "\<And>a c s. \<not> byte a < 0x80 \<Longrightarrow> 0x80 \<le> byte c \<Longrightarrow> utf8_valid s \<Longrightarrow> P s \<Longrightarrow> (\<And>t. utf8_valid (a # c # t) = utf8_valid t) \<Longrightarrow> P (a # c # s)"
    and "\<And>a c d s. \<not> byte a < 0x80 \<Longrightarrow> 0x80 \<le> byte c \<Longrightarrow> 0x80 \<le> byte d \<Longrightarrow> utf8_valid s \<Longrightarrow> P s \<Longrightarrow>
      (\<And>t. utf8_valid (a # c # d # t) = utf8_valid t) \<Longrightarrow> P (a # c # d # s)"
    and "\<And>a c d e s. \<not> byte a < 0x80 \<Longrightarrow> 0x80 \<le> byte c \<Longrightarrow> 0x80 \<le> byte d \<Longrightarrow> 0x80 \<le> byte e \<Longrightarrow> utf8_valid s \<Longrightarrow> P s \<Longrightarrow>
      (\<And>t. utf8_valid (a # c # d # e # t) = utf8_valid t) \<Longrightarrow> P (a # c # d # e # s)"
  shows "P s"
  using assms(1)
proof (induction s rule: utf8_valid.induct)
  case 1
  show ?case by (rule assms(2))
next
  case (2 a s)
  have cont: "second_ok b c \<Longrightarrow> 0x80 \<le> byte c" for b c by (auto simp: second_ok_def continuation_def split: if_splits)
  consider "byte a < 0x80" | "\<not> byte a < 0x80" "\<not> byte a < 0xC2" "byte a \<le> 0xDF"
    | "\<not> byte a \<le> 0xDF" "byte a \<le> 0xEF" | "\<not> byte a \<le> 0xEF" "byte a \<le> 0xF4"
    using 2(5) by (auto split: if_splits)
  then show ?case
  proof cases
    case 1
    then show ?thesis using 2(1,5) by (intro assms(3)) simp_all
  next
    case r: 2
    then obtain c t where s: "s = c # t" "continuation c" "utf8_valid t"
      using 2(5) by (cases s) (auto split: if_splits)
    have "P t" using 2(2) [OF r(1,2,3) s(1) s(3)] .
    then show ?thesis unfolding s(1) using r s by (intro assms(4)) (auto simp: continuation_def)
  next
    case r: 3
    then obtain c d t where s: "s = c # d # t" "second_ok (byte a) c" "continuation d" "utf8_valid t"
      using 2(5) by (cases s; cases "tl s") (auto split: if_splits list.splits)
    have "P t" by (rule 2(3) [OF _ _ _ _ s(1) refl s(4)]) (use r in auto)
    then show ?thesis unfolding s(1) using r s cont by (intro assms(5)) (auto simp: continuation_def)
  next
    case r: 4
    then obtain c d e t where s: "s = c # d # e # t" "second_ok (byte a) c" "continuation d" "continuation e" "utf8_valid t"
      using 2(5) by (cases s; cases "tl s"; cases "tl (tl s)") (auto split: if_splits list.splits)
    have "P t" by (rule 2(4) [OF _ _ _ _ _ s(1) refl refl s(5)]) (use r in auto)
    then show ?thesis unfolding s(1) using r s cont by (intro assms(6)) (auto simp: continuation_def)
  qed
qed

lemma utf8_append: "utf8_valid s \<Longrightarrow> utf8_valid (s @ t) = utf8_valid t"
  by (induction s rule: utf8_induct) simp_all

lemma utf8_ascii: "list_all (\<lambda>c. byte c < 0x80) s \<Longrightarrow> utf8_valid s"
  by (induction s) simp_all

section \<open>strings.Replacer\<close>

text \<open>A replacer of single bytes, as \<open>strings.NewReplacer\<close> builds for such a table.\<close>

definition replace_bytes :: "(char \<times> string) list \<Rightarrow> string \<Rightarrow> string" where
  "replace_bytes table s = concat (map (\<lambda>c. case map_of table c of None \<Rightarrow> [c] | Some r \<Rightarrow> r) s)"

text \<open>\<open>strings.ToLower\<close>, for the comparison with ASCII words.\<close>

definition lower_byte :: "char \<Rightarrow> char" where
  "lower_byte c = (if 65 \<le> byte c \<and> byte c \<le> 90 then char_of (byte c + 32) else c)"

definition to_lower :: "string \<Rightarrow> string" where "to_lower s = map lower_byte s"

end
