(* ===== verification/Line_Protocol.thy ===== *)
theory Line_Protocol
  imports Go_Conv
begin

text \<open>
  Canonical line protocol, from \<open>internal/transfer/staging_lp.go\<close>: the scanners, the parser and the
  printer of one point.  A Go map is the list of its entries in the order they were inserted, its keys
  distinct; an index of \<open>-1\<close> is \<open>None\<close>.  The loops keep the code's variables: \<open>escaped\<close>, \<open>quoted\<close>, and for
  \<open>splitStageEscaped\<close> the bytes from \<open>start\<close> to \<open>index\<close>.

  The lemmas show how each scanner moves past escaped text, that a printed point parses to its own
  entries, and that the parser leaves its own output unchanged.
\<close>

section \<open>Bytes and errors\<close>

abbreviation backslash :: char where "backslash \<equiv> CHR 0x5C"

abbreviation dquote :: char where "dquote \<equiv> CHR 0x22"

definition line_breaks :: string where "line_breaks = [CHR 0x0D, CHR 0x0A]"

definition control_bytes :: string where "control_bytes = [CHR 0x0D, CHR 0x0A, CHR 0x00]"

abbreviation stage_error :: "string \<Rightarrow> go_error" where "stage_error \<equiv> Sentinel PkgTransfer"

definition err_stage_invalid_input :: go_error where
  "err_stage_invalid_input = stage_error ''IMPORT_STAGE_INVALID_INPUT''"

definition err_stage_missing_timestamp :: go_error where
  "err_stage_missing_timestamp = stage_error ''IMPORT_STAGE_TIMESTAMP_REQUIRED''"

section \<open>Scanners\<close>

fun find_unescaped_loop :: "bool \<Rightarrow> char \<Rightarrow> string \<Rightarrow> nat option" where
  "find_unescaped_loop escaped target [] = None"
| "find_unescaped_loop escaped target (c # s) =
     (if escaped then map_option Suc (find_unescaped_loop False target s)
      else if c = backslash then map_option Suc (find_unescaped_loop True target s)
      else if c = target then Some 0
      else map_option Suc (find_unescaped_loop False target s))"

definition find_unescaped_byte :: "string \<Rightarrow> char \<Rightarrow> nat option" where
  "find_unescaped_byte s target = find_unescaped_loop False target s"

fun find_unquoted_loop :: "bool \<Rightarrow> bool \<Rightarrow> char \<Rightarrow> string \<Rightarrow> nat option" where
  "find_unquoted_loop escaped quoted target [] = None"
| "find_unquoted_loop escaped quoted target (c # s) =
     (if escaped then map_option Suc (find_unquoted_loop False quoted target s)
      else if c = backslash then map_option Suc (find_unquoted_loop True quoted target s)
      else if c = dquote then map_option Suc (find_unquoted_loop False (\<not> quoted) target s)
      else if \<not> quoted \<and> c = target then Some 0
      else map_option Suc (find_unquoted_loop False quoted target s))"

definition find_unquoted_byte :: "string \<Rightarrow> char \<Rightarrow> nat \<Rightarrow> nat option" where
  "find_unquoted_byte s target start =
     map_option ((+) start) (find_unquoted_loop False False target (drop start s))"

fun split_stage_loop :: "char \<Rightarrow> bool \<Rightarrow> bool \<Rightarrow> bool \<Rightarrow> string \<Rightarrow> string \<Rightarrow> string list result" where
  "split_stage_loop separator quotes escaped quoted part [] =
     (if escaped \<or> quoted \<or> part = [] then Inl err_stage_invalid_input else Inr [part])"
| "split_stage_loop separator quotes escaped quoted part (c # s) =
     (if escaped then split_stage_loop separator quotes False quoted (part @ [c]) s
      else if c = backslash then split_stage_loop separator quotes True quoted (part @ [c]) s
      else if quotes \<and> c = dquote then split_stage_loop separator quotes False (\<not> quoted) (part @ [c]) s
      else if \<not> quoted \<and> c = separator then
        (if part = [] then Inl err_stage_invalid_input
         else rbind (split_stage_loop separator quotes False quoted [] s) (\<lambda>parts. Inr (part # parts)))
      else split_stage_loop separator quotes False quoted (part @ [c]) s)"

definition split_stage_escaped :: "string \<Rightarrow> char \<Rightarrow> bool \<Rightarrow> string list result" where
  "split_stage_escaped s separator quotes = split_stage_loop separator quotes False False [] s"

section \<open>Tokens and strings\<close>

fun unescape_stage_loop :: "string \<Rightarrow> string \<Rightarrow> string option" where
  "unescape_stage_loop allowed [] = Some []"
| "unescape_stage_loop allowed (c # s) =
     (if c \<noteq> backslash then map_option ((#) c) (unescape_stage_loop allowed s)
      else case s of
        [] \<Rightarrow> None
      | d # s' \<Rightarrow> if d \<in> set allowed then map_option ((#) d) (unescape_stage_loop allowed s') else None)"

definition valid_stage_string_value :: "string \<Rightarrow> bool" where
  "valid_stage_string_value s \<longleftrightarrow> utf8_valid s \<and> \<not> contains_any s control_bytes"

definition valid_stage_text :: "string \<Rightarrow> bool" where
  "valid_stage_text s \<longleftrightarrow> s \<noteq> '''' \<and> utf8_valid s \<and> \<not> contains_any s control_bytes"

definition unescape_stage_token :: "string \<Rightarrow> string \<Rightarrow> string result" where
  "unescape_stage_token s allowed =
     (case unescape_stage_loop allowed s of
        None \<Rightarrow> Inl err_stage_invalid_input
      | Some decoded \<Rightarrow>
          if \<not> utf8_valid decoded \<or> contains_any decoded control_bytes then Inl err_stage_invalid_input
          else Inr decoded)"

fun escape_stage_token :: "string \<Rightarrow> bool \<Rightarrow> bool \<Rightarrow> string" where
  "escape_stage_token [] escape_comma escape_equals = []"
| "escape_stage_token (c # s) escape_comma escape_equals =
     (if c = backslash \<or> c = CHR '' '' \<or> (escape_comma \<and> c = CHR '','') \<or> (escape_equals \<and> c = CHR ''='')
      then [backslash, c] else [c]) @ escape_stage_token s escape_comma escape_equals"

definition string_replacer :: "(char \<times> string) list" where
  "string_replacer = [(backslash, [backslash, backslash]), (dquote, [backslash, dquote])]"

definition encode_stage_string :: "string \<Rightarrow> string" where
  "encode_stage_string s = dquote # replace_bytes string_replacer s @ [dquote]"

fun decode_stage_loop :: "string \<Rightarrow> string option" where
  "decode_stage_loop [] = Some []"
| "decode_stage_loop (c # s) =
     (if c \<noteq> backslash then (if c = dquote then None else map_option ((#) c) (decode_stage_loop s))
      else case s of
        [] \<Rightarrow> None
      | d # s' \<Rightarrow>
          if d = backslash \<or> d = dquote then map_option ((#) d) (decode_stage_loop s')
          else map_option ((#) backslash) (decode_stage_loop s))"

definition decode_stage_string :: "string \<Rightarrow> string result" where
  "decode_stage_string s =
     (if length s < 2 \<or> last s \<noteq> dquote then Inl err_stage_invalid_input
      else case decode_stage_loop (butlast (tl s)) of
        None \<Rightarrow> Inl err_stage_invalid_input
      | Some decoded \<Rightarrow>
          if \<not> utf8_valid decoded \<or> contains_any decoded control_bytes then Inl err_stage_invalid_input
          else Inr decoded)"

definition canonical_stage_field_value :: "(string \<Rightarrow> (bool \<times> string) option) \<Rightarrow> string \<Rightarrow> string result" where
  "canonical_stage_field_value float_text s =
     (if s = '''' then Inl err_stage_invalid_input
      else if hd s = dquote then rbind (decode_stage_string s) (\<lambda>decoded. Inr (encode_stage_string decoded))
      else if to_lower s = ''t'' \<or> to_lower s = ''true'' then Inr ''true''
      else if to_lower s = ''f'' \<or> to_lower s = ''false'' then Inr ''false''
      else if last s = CHR ''i'' then
        (case parse_int 64 (butlast s) of
           None \<Rightarrow> Inl err_stage_invalid_input
         | Some number \<Rightarrow> Inr (format_int number @ ''i''))
      else if last s = CHR ''u'' then
        (case parse_uint 64 (butlast s) of
           None \<Rightarrow> Inl err_stage_invalid_input
         | Some number \<Rightarrow> Inr (format_int number @ ''u''))
      else case float_text s of
        Some (True, text) \<Rightarrow> Inr text
      | _ \<Rightarrow> Inl err_stage_invalid_input)"

section \<open>Points\<close>

type_synonym entries = "(string \<times> string) list"

definition sorted_stage_keys :: "(string \<times> 'v) list \<Rightarrow> string list" where
  "sorted_stage_keys m = sort (map fst m)"

definition sorted_entries :: "(string \<times> 'v) list \<Rightarrow> (string \<times> 'v) list" where
  "sorted_entries m = map (\<lambda>k. (k, the (map_of m k))) (sorted_stage_keys m)"

definition escape_key :: "string \<Rightarrow> string" where
  "escape_key s = escape_stage_token s True True"

definition tag_text :: "string \<times> string \<Rightarrow> string" where
  "tag_text e = escape_key (fst e) @ ''='' @ escape_key (snd e)"

definition field_text :: "string \<times> string \<Rightarrow> string" where
  "field_text e = escape_key (fst e) @ ''='' @ snd e"

fun commas :: "string list \<Rightarrow> string" where
  "commas [] = []"
| "commas [p] = p"
| "commas (p # q # ps) = p @ '','' @ commas (q # ps)"

definition point_text :: "string \<Rightarrow> entries \<Rightarrow> entries \<Rightarrow> string \<Rightarrow> string" where
  "point_text measurement tags fields timestamp =
     escape_stage_token measurement True False @ concat (map (\<lambda>e. '','' @ tag_text e) tags) @ '' '' @
     commas (map field_text fields) @ '' '' @ timestamp"

definition encode_canonical_stage_point :: "string \<Rightarrow> entries \<Rightarrow> entries \<Rightarrow> string \<Rightarrow> string result" where
  "encode_canonical_stage_point measurement tags fields timestamp =
     (if \<not> valid_stage_text measurement \<or> fields = [] then Inl err_stage_invalid_input
      else if list_ex (\<lambda>k. k \<in> set (map fst fields)) (map fst tags) then Inl err_stage_invalid_input
      else if list_ex (\<lambda>(k, v). \<not> valid_stage_text k \<or> \<not> valid_stage_text v) (sorted_entries tags)
        then Inl err_stage_invalid_input
      else if list_ex (\<lambda>(k, v). \<not> valid_stage_text k \<or> v = '''' \<or> contains_any v control_bytes) (sorted_entries fields)
        then Inl err_stage_invalid_input
      else Inr (point_text measurement (sorted_entries tags) (sorted_entries fields) timestamp))"

fun parse_stage_tags :: "entries \<Rightarrow> string list \<Rightarrow> entries result" where
  "parse_stage_tags tags [] = Inr tags"
| "parse_stage_tags tags (part # parts) =
     (case find_unescaped_byte part (CHR ''='') of
        None \<Rightarrow> Inl err_stage_invalid_input
      | Some assignment \<Rightarrow>
          if assignment = 0 \<or> assignment + 1 \<ge> length part then Inl err_stage_invalid_input
          else (case (unescape_stage_token (take assignment part) [CHR '' '', CHR '','', CHR ''='', backslash],
                     unescape_stage_token (drop (assignment + 1) part) [CHR '' '', CHR '','', CHR ''='', backslash]) of
            (Inr key, Inr v) \<Rightarrow>
              if key = '''' \<or> v = '''' then Inl err_stage_invalid_input
              else if key \<in> set (map fst tags) then Inl err_stage_invalid_input
              else parse_stage_tags (tags @ [(key, v)]) parts
          | _ \<Rightarrow> Inl err_stage_invalid_input))"

definition parse_stage_series :: "string \<Rightarrow> (string \<times> entries) result" where
  "parse_stage_series s =
     (case split_stage_escaped s (CHR '','') False of
        Inr (first # parts) \<Rightarrow>
          (case unescape_stage_token first [CHR '' '', CHR '','', backslash] of
             Inr measurement \<Rightarrow>
               if measurement = '''' then Inl err_stage_invalid_input
               else rbind (parse_stage_tags [] parts) (\<lambda>tags. Inr (measurement, tags))
           | Inl e \<Rightarrow> Inl err_stage_invalid_input)
      | _ \<Rightarrow> Inl err_stage_invalid_input)"

fun parse_field_parts :: "(string \<Rightarrow> (bool \<times> string) option) \<Rightarrow> entries \<Rightarrow> string list \<Rightarrow> entries result" where
  "parse_field_parts float_text fields [] = Inr fields"
| "parse_field_parts float_text fields (part # parts) =
     (case find_unquoted_byte part (CHR ''='') 0 of
        None \<Rightarrow> Inl err_stage_invalid_input
      | Some assignment \<Rightarrow>
          if assignment = 0 \<or> assignment + 1 \<ge> length part then Inl err_stage_invalid_input
          else (case unescape_stage_token (take assignment part) [CHR '' '', CHR '','', CHR ''='', backslash] of
            Inl e \<Rightarrow> Inl err_stage_invalid_input
          | Inr key \<Rightarrow>
              if key = '''' then Inl err_stage_invalid_input
              else if key \<in> set (map fst fields) then Inl err_stage_invalid_input
              else rbind (canonical_stage_field_value float_text (drop (assignment + 1) part)) (\<lambda>encoded.
                parse_field_parts float_text (fields @ [(key, encoded)]) parts)))"

definition parse_stage_fields :: "(string \<Rightarrow> (bool \<times> string) option) \<Rightarrow> string \<Rightarrow> entries result" where
  "parse_stage_fields float_text s =
     (case split_stage_escaped s (CHR '','') True of
        Inl e \<Rightarrow> Inl err_stage_invalid_input
      | Inr [] \<Rightarrow> Inl err_stage_invalid_input
      | Inr parts \<Rightarrow> rbind (parse_field_parts float_text [] parts) (\<lambda>fields.
          if fields = [] then Inl err_stage_invalid_input else Inr fields))"

definition parse_canonical_lp_point :: "(string \<Rightarrow> (bool \<times> string) option) \<Rightarrow> string \<Rightarrow> string result" where
  "parse_canonical_lp_point float_text line =
     (if line = '''' \<or> \<not> utf8_valid line \<or> contains_any line control_bytes then Inl err_stage_invalid_input
      else case find_unescaped_byte line (CHR '' '') of
        None \<Rightarrow> Inl err_stage_missing_timestamp
      | Some series_end \<Rightarrow>
          if series_end = 0 then Inl err_stage_missing_timestamp
          else (case find_unquoted_byte line (CHR '' '') (series_end + 1) of
            None \<Rightarrow> Inl err_stage_missing_timestamp
          | Some fields_end \<Rightarrow>
              if fields_end \<le> series_end + 1 then Inl err_stage_missing_timestamp
              else if fields_end + 1 \<ge> length line \<or> CHR '' '' \<in> set (drop (fields_end + 1) line)
                then Inl err_stage_invalid_input
              else (case parse_int 64 (drop (fields_end + 1) line) of
                None \<Rightarrow> Inl err_stage_invalid_input
              | Some timestamp \<Rightarrow>
                  rbind (parse_stage_series (take series_end line)) (\<lambda>(measurement, tags).
                    rbind (parse_stage_fields float_text (take (fields_end - (series_end + 1)) (drop (series_end + 1) line)))
                      (\<lambda>fields. encode_canonical_stage_point measurement tags fields (format_int timestamp))))))"

section \<open>Escaped text\<close>

definition esc :: "char set \<Rightarrow> string \<Rightarrow> string" where
  "esc special s = concat (map (\<lambda>c. if c \<in> special then [backslash, c] else [c]) s)"

lemma esc_simps [simp]:
  "esc special [] = []"
  "esc special (c # s) = (if c \<in> special then [backslash, c] else [c]) @ esc special s"
  "esc special (s @ t) = esc special s @ esc special t"
  by (simp_all add: esc_def)

definition measurement_special :: "char set" where "measurement_special = {backslash, CHR '' '', CHR '',''}"

definition key_special :: "char set" where "key_special = {backslash, CHR '' '', CHR '','', CHR ''=''}"

lemma special_mem [simp]:
  "backslash \<in> measurement_special" "CHR '' '' \<in> measurement_special" "CHR '','' \<in> measurement_special"
  "backslash \<in> key_special" "CHR '' '' \<in> key_special" "CHR '','' \<in> key_special" "CHR ''='' \<in> key_special"
  "dquote \<notin> key_special" "dquote \<notin> measurement_special"
  by (simp_all add: measurement_special_def key_special_def)

lemma escape_measurement_esc: "escape_stage_token s True False = esc measurement_special s"
  by (induction s) (auto simp: measurement_special_def)

lemma escape_key_esc: "escape_key s = esc key_special s"
  unfolding escape_key_def by (induction s) (auto simp: key_special_def)

lemma esc_Nil_iff [simp]: "esc special s = [] \<longleftrightarrow> s = []"
  by (cases s) auto

lemma unescape_esc:
  "special \<subseteq> set allowed \<Longrightarrow> backslash \<in> special \<Longrightarrow> unescape_stage_loop allowed (esc special s) = Some s"
  by (induction s) auto

lemma unescape_token_esc:
  "special \<subseteq> set allowed \<Longrightarrow> backslash \<in> special \<Longrightarrow> valid_stage_text s \<Longrightarrow>
     unescape_stage_token (esc special s) allowed = Inr s"
  by (simp add: unescape_stage_token_def unescape_esc valid_stage_text_def)

text \<open>Escaping keeps a string valid: only ASCII bytes are escaped, and only by ASCII bytes.\<close>

lemma utf8_esc: "\<forall>c\<in>special. byte c < 0x80 \<Longrightarrow> utf8_valid s \<Longrightarrow> utf8_valid (esc special s)"
proof -
  assume ascii: "\<forall>c\<in>special. byte c < 0x80"
  have high: "c \<notin> special" if "\<not> byte c < 0x80 \<or> 0x80 \<le> byte c" for c using ascii that by force
  have bs: "byte backslash < 0x80" by (simp add: byte_def)
  assume "utf8_valid s"
  then show ?thesis
  proof (induction rule: utf8_induct)
    case (ascii a s)
    then show ?case using bs by auto
  qed (simp_all add: high)
qed

lemma special_ascii [simp]: "\<forall>c\<in>measurement_special. byte c < 0x80" "\<forall>c\<in>key_special. byte c < 0x80"
  by (simp_all add: measurement_special_def key_special_def byte_def)

lemma contains_any_append [simp]: "contains_any (s @ t) chars \<longleftrightarrow> contains_any s chars \<or> contains_any t chars"
  "contains_any (c # t) chars \<longleftrightarrow> c \<in> set chars \<or> contains_any t chars" "\<not> contains_any [] chars"
  by (simp_all add: contains_any_def)

lemma contains_any_esc: "backslash \<notin> set chars \<Longrightarrow> contains_any (esc special s) chars = contains_any s chars"
  by (induction s) auto

lemma control_mem [simp]:
  "CHR '','' \<notin> set control_bytes" "CHR '' '' \<notin> set control_bytes" "CHR ''='' \<notin> set control_bytes"
  "backslash \<notin> set control_bytes" "dquote \<notin> set control_bytes"
  by (simp_all add: control_bytes_def)

lemma control_esc [simp]: "contains_any (esc special s) control_bytes = contains_any s control_bytes"
  by (rule contains_any_esc) (simp add: control_bytes_def)

section \<open>Moving a scanner past a piece of text\<close>

definition skips :: "char \<Rightarrow> string \<Rightarrow> bool" where
  "skips t s \<longleftrightarrow> (\<forall>r. find_unescaped_loop False t (s @ r) = map_option ((+) (length s)) (find_unescaped_loop False t r))"

definition uskips :: "char \<Rightarrow> bool \<Rightarrow> string \<Rightarrow> bool \<Rightarrow> bool" where
  "uskips t q s q' \<longleftrightarrow>
     (\<forall>r. find_unquoted_loop False q t (s @ r) = map_option ((+) (length s)) (find_unquoted_loop False q' t r))"

definition keeps :: "bool \<Rightarrow> bool \<Rightarrow> string \<Rightarrow> bool \<Rightarrow> bool" where
  "keeps quotes q s q' \<longleftrightarrow>
     (\<forall>p r. split_stage_loop (CHR '','') quotes False q p (s @ r) = split_stage_loop (CHR '','') quotes False q' (p @ s) r)"

lemma shift_option [simp]:
  "map_option ((+) (0::nat)) x = x" "map_option ((+) (m::nat)) (map_option ((+) n) x) = map_option ((+) (m + n)) x"
  by (cases x; simp)+

lemma skips_Nil [simp]: "skips t []"
  by (simp add: skips_def)

lemma skips_append: "skips t s \<Longrightarrow> skips t s' \<Longrightarrow> skips t (s @ s')"
  unfolding skips_def by simp

lemma skips_one: "c \<noteq> t \<Longrightarrow> c \<noteq> backslash \<Longrightarrow> skips t [c]"
  unfolding skips_def by (auto intro!: map_option_cong)

lemma skips_two: "skips t [backslash, c]"
  unfolding skips_def by (auto simp: option.map_comp comp_def intro!: map_option_cong)

lemma skips_esc: "t \<in> special \<Longrightarrow> backslash \<in> special \<Longrightarrow> skips t (esc special s)"
proof (induction s)
  case (Cons c s)
  have "skips t (if c \<in> special then [backslash, c] else [c])"
    using Cons.prems by (auto intro: skips_one skips_two)
  from skips_append [OF this Cons.IH [OF Cons.prems]] show ?case by simp
qed simp

lemma find_after: "skips t s \<Longrightarrow> t \<noteq> backslash \<Longrightarrow> find_unescaped_byte (s @ t # r) t = Some (length s)"
  by (simp add: skips_def find_unescaped_byte_def)

lemma uskips_Nil [simp]: "uskips t q [] q"
  by (simp add: uskips_def)

lemma uskips_append: "uskips t q s q' \<Longrightarrow> uskips t q' s' q'' \<Longrightarrow> uskips t q (s @ s') q''"
  unfolding uskips_def by simp

lemma uskips_one: "q \<or> c \<noteq> t \<Longrightarrow> c \<noteq> backslash \<Longrightarrow> c \<noteq> dquote \<Longrightarrow> uskips t q [c] q"
  unfolding uskips_def by (auto intro!: map_option_cong)

lemma uskips_quote: "uskips t q [dquote] (\<not> q)"
  unfolding uskips_def by (auto intro!: map_option_cong)

lemma uskips_two: "uskips t q [backslash, c] q"
  unfolding uskips_def by (auto simp: option.map_comp comp_def intro!: map_option_cong)

lemma keeps_Nil [simp]: "keeps quotes q [] q"
  by (simp add: keeps_def)

lemma keeps_append: "keeps quotes q s q' \<Longrightarrow> keeps quotes q' s' q'' \<Longrightarrow> keeps quotes q (s @ s') q''"
  unfolding keeps_def by simp

lemma keeps_one: "q \<or> c \<noteq> CHR '','' \<Longrightarrow> c \<noteq> backslash \<Longrightarrow> \<not> quotes \<or> c \<noteq> dquote \<Longrightarrow> keeps quotes q [c] q"
  unfolding keeps_def by auto

lemma keeps_quote: "keeps True q [dquote] (\<not> q)"
  unfolding keeps_def by auto

lemma keeps_two: "keeps quotes q [backslash, c] q"
  unfolding keeps_def by simp

text \<open>Every quote of a token flips the scanners that watch quotes.\<close>

definition quote_parity :: "bool \<Rightarrow> string \<Rightarrow> bool" where
  "quote_parity q s = foldl (\<lambda>q c. if c = dquote then \<not> q else q) q s"

lemma quote_parity_simps [simp]:
  "quote_parity q [] = q" "quote_parity q (c # s) = quote_parity (if c = dquote then \<not> q else q) s"
  by (simp_all add: quote_parity_def)

lemma uskips_esc: "t \<in> special \<Longrightarrow> backslash \<in> special \<Longrightarrow> dquote \<notin> special \<Longrightarrow> uskips t q (esc special s) (quote_parity q s)"
proof (induction s arbitrary: q)
  case (Cons c s)
  have "uskips t q (if c \<in> special then [backslash, c] else [c]) (if c = dquote then \<not> q else q)"
    using Cons.prems by (auto intro: uskips_one uskips_two uskips_quote)
  from uskips_append [OF this Cons.IH [OF Cons.prems]] show ?case by simp
qed simp

lemma keeps_esc_quotes:
  "CHR '','' \<in> special \<Longrightarrow> backslash \<in> special \<Longrightarrow> dquote \<notin> special \<Longrightarrow> keeps True q (esc special s) (quote_parity q s)"
proof (induction s arbitrary: q)
  case (Cons c s)
  have "keeps True q (if c \<in> special then [backslash, c] else [c]) (if c = dquote then \<not> q else q)"
    using Cons.prems by (auto intro: keeps_one keeps_two keeps_quote)
  from keeps_append [OF this Cons.IH [OF Cons.prems]] show ?case by simp
qed simp

lemma keeps_esc: "CHR '','' \<in> special \<Longrightarrow> backslash \<in> special \<Longrightarrow> keeps False q (esc special s) q"
proof (induction s)
  case (Cons c s)
  have "keeps False q (if c \<in> special then [backslash, c] else [c]) q"
    using Cons.prems by (auto intro: keeps_one keeps_two)
  from keeps_append [OF this Cons.IH [OF Cons.prems]] show ?case by simp
qed simp

lemma find_unquoted_after:
  "uskips t False s False \<Longrightarrow> t \<noteq> backslash \<Longrightarrow> t \<noteq> dquote \<Longrightarrow> find_unquoted_byte (s @ t # r) t 0 = Some (length s)"
  "uskips t False s False \<Longrightarrow> t \<noteq> backslash \<Longrightarrow> t \<noteq> dquote \<Longrightarrow> start = length p \<Longrightarrow>
     find_unquoted_byte (p @ s @ t # r) t start = Some (start + length s)"
  by (simp_all add: uskips_def find_unquoted_byte_def)

section \<open>Field values\<close>

definition string_special :: "char set" where "string_special = {backslash, dquote}"

lemma encode_stage_string_esc: "encode_stage_string s = dquote # esc string_special s @ [dquote]"
proof -
  have "replace_bytes string_replacer s = esc string_special s"
    unfolding replace_bytes_def esc_def string_replacer_def string_special_def
    by (rule arg_cong [of _ _ concat], rule map_cong [OF refl]) auto
  then show ?thesis by (simp add: encode_stage_string_def)
qed

lemma decode_loop_esc: "decode_stage_loop (esc string_special s) = Some s"
  by (induction s) (auto simp: string_special_def)

lemma decode_encode_string: "valid_stage_string_value s \<Longrightarrow> decode_stage_string (encode_stage_string s) = Inr s"
  by (simp add: decode_stage_string_def encode_stage_string_esc butlast_append decode_loop_esc valid_stage_string_value_def)

lemma decode_string_valid: "decode_stage_string s = Inr d \<Longrightarrow> valid_stage_string_value d"
  by (auto simp: decode_stage_string_def valid_stage_string_value_def split: if_splits option.splits)

definition plain_byte :: "char \<Rightarrow> bool" where
  "plain_byte c \<longleftrightarrow> byte c < 0x80 \<and> c \<notin> {backslash, dquote, CHR '' '', CHR '','', CHR ''=''} \<union> set control_bytes"

definition scannable :: "string \<Rightarrow> bool" where
  "scannable v \<longleftrightarrow> list_all plain_byte v \<or> (\<exists>s. v = encode_stage_string s \<and> valid_stage_string_value s)"

lemma plain_scan:
  assumes "list_all plain_byte v"
  shows "uskips (CHR '' '') False v False" "keeps True False v False" "utf8_valid v" "\<not> contains_any v control_bytes"
proof -
  show "uskips (CHR '' '') False v False"
    using assms uskips_append [of _ False "[_]" False, OF uskips_one] by (induction v) (auto simp: plain_byte_def)
  show "keeps True False v False"
    using assms keeps_append [of True False "[_]" False, OF keeps_one] by (induction v) (auto simp: plain_byte_def)
  show "utf8_valid v" using assms by (intro utf8_ascii) (auto simp: plain_byte_def list_all_iff)
  show "\<not> contains_any v control_bytes"
    using assms by (auto simp: plain_byte_def list_all_iff contains_any_def list_ex_iff)
qed

lemma string_body: "uskips t True (esc string_special s) True" if "t \<noteq> backslash"
proof (induction s)
  case (Cons c s)
  have "uskips t True (if c \<in> string_special then [backslash, c] else [c]) True"
    by (auto simp: string_special_def intro: uskips_one uskips_two)
  from uskips_append [OF this Cons.IH] show ?case by simp
qed simp

lemma string_body_keeps: "keeps True True (esc string_special s) True"
proof (induction s)
  case (Cons c s)
  have "keeps True True (if c \<in> string_special then [backslash, c] else [c]) True"
    by (auto simp: string_special_def intro: keeps_one keeps_two)
  from keeps_append [OF this Cons.IH] show ?case by simp
qed simp

lemma string_scan:
  assumes "valid_stage_string_value s"
  shows "uskips (CHR '' '') False (encode_stage_string s) False" "keeps True False (encode_stage_string s) False"
    "utf8_valid (encode_stage_string s)" "\<not> contains_any (encode_stage_string s) control_bytes"
proof -
  have e: "encode_stage_string s = [dquote] @ esc string_special s @ [dquote]" by (simp add: encode_stage_string_esc)
  show "uskips (CHR '' '') False (encode_stage_string s) False"
    unfolding e by (rule uskips_append [OF _ uskips_append [OF string_body]])
      (use uskips_quote [of "CHR '' ''" False] uskips_quote [of "CHR '' ''" True] in simp_all)
  show "keeps True False (encode_stage_string s) False"
    unfolding e by (rule keeps_append [OF _ keeps_append [OF string_body_keeps]])
      (use keeps_quote [of False] keeps_quote [of True] in simp_all)
  have "utf8_valid (esc string_special s)"
    using assms by (intro utf8_esc) (auto simp: string_special_def byte_def valid_stage_string_value_def)
  then show "utf8_valid (encode_stage_string s)" by (simp add: encode_stage_string_esc byte_def utf8_append)
  show "\<not> contains_any (encode_stage_string s) control_bytes"
    using assms by (auto simp: encode_stage_string_esc valid_stage_string_value_def control_bytes_def contains_any_esc)
qed

lemma scannable_scan:
  assumes "scannable v"
  shows "uskips (CHR '' '') False v False" "keeps True False v False" "utf8_valid v" "\<not> contains_any v control_bytes"
  using assms plain_scan string_scan unfolding scannable_def by auto

definition canonical_value :: "(string \<Rightarrow> (bool \<times> string) option) \<Rightarrow> string \<Rightarrow> bool" where
  "canonical_value float_text v \<longleftrightarrow> v \<noteq> '''' \<and> scannable v \<and> canonical_stage_field_value float_text v = Inr v"

lemma canonical_string: "valid_stage_string_value s \<Longrightarrow> canonical_value float_text (encode_stage_string s)"
proof -
  assume s: "valid_stage_string_value s"
  have "hd (encode_stage_string s) = dquote" "encode_stage_string s \<noteq> []" by (simp_all add: encode_stage_string_def)
  then show ?thesis
    using s by (auto simp: canonical_value_def scannable_def canonical_stage_field_value_def decode_encode_string)
qed

lemma canonical_bool: "canonical_value float_text ''true''" "canonical_value float_text ''false''"
  by (simp_all add: canonical_value_def scannable_def canonical_stage_field_value_def plain_byte_def control_bytes_def
      to_lower_def lower_byte_def byte_def)

lemma to_lower_last: "s \<noteq> [] \<Longrightarrow> last (to_lower s) = lower_byte (last s)"
  by (simp add: to_lower_def last_map)

lemma not_word:
  assumes "s \<noteq> []" and "lower_byte (last s) \<notin> set ''tef''"
  shows "to_lower s \<noteq> ''t''" "to_lower s \<noteq> ''true''" "to_lower s \<noteq> ''f''" "to_lower s \<noteq> ''false''"
  using assms to_lower_last [OF assms(1)] by auto

lemma digit_plain: "is_digit c \<or> c = CHR ''-'' \<Longrightarrow> plain_byte c"
  by (auto simp: plain_byte_def is_digit_def byte_def control_bytes_def)

lemma format_int_plain: "list_all plain_byte (format_int n)"
  using format_int_chars(1) [of n] digit_plain by (auto simp: list_all_iff)

lemma number_text:
  assumes "c = CHR ''i'' \<or> c = CHR ''u''"
  shows "scannable (format_int n @ [c])" "hd (format_int n @ [c]) \<noteq> dquote"
proof -
  note all = format_int_plain [of n]
  have "plain_byte c" using assms by (auto simp: plain_byte_def byte_def control_bytes_def)
  with all show "scannable (format_int n @ [c])" by (simp add: scannable_def)
  show "hd (format_int n @ [c]) \<noteq> dquote"
    using all format_int_chars(2) [of n] by (cases "format_int n") (auto simp: plain_byte_def)
qed

lemma canonical_int: "parse_int 64 s = Some n \<Longrightarrow> canonical_value float_text (format_int n @ ''i'')"
  using number_text [of "CHR ''i''" n] not_word [of "format_int n @ ''i''"] parse_format_int [of 64 s n]
  by (simp add: canonical_value_def canonical_stage_field_value_def lower_byte_def byte_def)

lemma canonical_uint: "parse_uint 64 s = Some n \<Longrightarrow> canonical_value float_text (format_int n @ ''u'')"
  using number_text [of "CHR ''u''" n] not_word [of "format_int n @ ''u''"] parse_format_uint [of 64 s n]
  by (simp add: canonical_value_def canonical_stage_field_value_def lower_byte_def byte_def)

lemma canonical_float:
  assumes "float_text_ok float_text" and "float_text v = Some (True, t)"
  shows "canonical_value float_text t"
proof -
  have t: "float_text t = Some (True, t)" "t \<noteq> []" "list_all (\<lambda>c. c \<in> set float_chars) t"
    using assms unfolding float_text_ok_def by blast+
  have fc: "plain_byte c \<and> lower_byte c \<notin> set ''tf'' \<and> c \<noteq> CHR ''i'' \<and> c \<noteq> CHR ''u''" if "c \<in> set float_chars" for c
    using that by (auto simp: float_chars_def plain_byte_def byte_def control_bytes_def lower_byte_def)
  have first: "hd (to_lower t) = lower_byte (hd t)" "hd t \<in> set float_chars" "last t \<in> set float_chars"
    using t by (auto simp: to_lower_def hd_map list_all_iff)
  have w: "to_lower t \<noteq> ''t''" "to_lower t \<noteq> ''true''" "to_lower t \<noteq> ''f''" "to_lower t \<noteq> ''false''"
    using first(1) fc [OF first(2)] by auto
  have "scannable t" using t(3) fc by (auto simp: scannable_def list_all_iff)
  moreover have "hd t \<noteq> dquote" using fc [OF first(2)] by (auto simp: plain_byte_def)
  ultimately show ?thesis
    using t w fc [OF first(3)] by (simp add: canonical_value_def canonical_stage_field_value_def)
qed

lemma canonical_field_value:
  assumes "float_text_ok float_text" and "canonical_stage_field_value float_text v = Inr t"
  shows "canonical_value float_text t"
  using assms(2) canonical_string canonical_bool canonical_int canonical_uint canonical_float [OF assms(1)] decode_string_valid
  by (auto simp: canonical_stage_field_value_def rbind_Inr_iff split: if_splits option.splits bool.splits)

section \<open>A printed point parses to its entries\<close>

lemma commas_concat: "commas (p # ps) = p @ concat (map (\<lambda>q. '','' @ q) ps)"
  by (induction ps arbitrary: p) simp_all

lemma keeps_end: "keeps quotes q p q' \<Longrightarrow>
    split_stage_loop (CHR '','') quotes False q s p = split_stage_loop (CHR '','') quotes False q' (s @ p) []"
  unfolding keeps_def by (metis append.right_neutral)

lemma split_commas:
  assumes "ps \<noteq> []" and "\<And>p. p \<in> set ps \<Longrightarrow> p \<noteq> [] \<and> keeps quotes False p False"
  shows "split_stage_escaped (commas ps) (CHR '','') quotes = Inr ps"
  unfolding split_stage_escaped_def using assms
proof (induction ps rule: commas.induct)
  case (2 p)
  then have "keeps quotes False p False" by simp
  from keeps_end [OF this] 2 show ?case by simp
next
  case (3 p q ps)
  then have "split_stage_loop (CHR '','') quotes False False [] (p @ '','' @ commas (q # ps)) =
      split_stage_loop (CHR '','') quotes False False ([] @ p) ('','' @ commas (q # ps))"
    unfolding keeps_def by simp
  with 3 show ?case by (auto simp del: append_assoc)
qed simp

definition tag_ok :: "string \<times> string \<Rightarrow> bool" where
  "tag_ok e \<longleftrightarrow> valid_stage_text (fst e) \<and> valid_stage_text (snd e)"

definition field_ok :: "(string \<Rightarrow> (bool \<times> string) option) \<Rightarrow> string \<times> string \<Rightarrow> bool" where
  "field_ok float_text e \<longleftrightarrow>
     valid_stage_text (fst e) \<and> \<not> quote_parity False (fst e) \<and> canonical_value float_text (snd e)"

abbreviation key_allowed :: string where "key_allowed \<equiv> [CHR '' '', CHR '','', CHR ''='', backslash]"

lemma allowed_sets: "key_special \<subseteq> set key_allowed" "measurement_special \<subseteq> set [CHR '' '', CHR '','', backslash]"
  by (auto simp: key_special_def measurement_special_def)

lemma valid_text_nonempty: "valid_stage_text s \<Longrightarrow> s \<noteq> []"
  by (simp add: valid_stage_text_def)

lemma unescape_key: "valid_stage_text s \<Longrightarrow> unescape_stage_token (esc key_special s) key_allowed = Inr s"
  by (rule unescape_token_esc [OF allowed_sets(1)]) simp_all

lemma utf8_esc_text:
  "valid_stage_text s \<Longrightarrow> utf8_valid (esc key_special s)" "valid_stage_text s \<Longrightarrow> utf8_valid (esc measurement_special s)"
  using utf8_esc [OF special_ascii(1)] utf8_esc [OF special_ascii(2)] by (simp_all add: valid_stage_text_def)

lemma tag_part:
  assumes "tag_ok e"
  shows "find_unescaped_byte (tag_text e) (CHR ''='') = Some (length (esc key_special (fst e)))"
    "take (length (esc key_special (fst e))) (tag_text e) = esc key_special (fst e)"
    "drop (length (esc key_special (fst e)) + 1) (tag_text e) = esc key_special (snd e)"
    "length (esc key_special (fst e)) + 1 < length (tag_text e)" "fst e \<noteq> []" "snd e \<noteq> []"
    "unescape_stage_token (esc key_special (fst e)) key_allowed = Inr (fst e)"
    "unescape_stage_token (esc key_special (snd e)) key_allowed = Inr (snd e)"
  using assms by (auto simp: tag_text_def escape_key_esc tag_ok_def find_after skips_esc unescape_key
      simp del: unescape_stage_loop.simps dest: valid_text_nonempty)

lemma parse_tag_texts:
  assumes "\<And>e. e \<in> set es \<Longrightarrow> tag_ok e" and "distinct (map fst (tags @ es))"
  shows "parse_stage_tags tags (map tag_text es) = Inr (tags @ es)"
  using assms
proof (induction es arbitrary: tags)
  case (Cons e es)
  have "parse_stage_tags (tags @ [e]) (map tag_text es) = Inr ((tags @ [e]) @ es)"
    using Cons.prems by (intro Cons.IH) auto
  moreover have "fst e \<notin> fst ` set tags" using Cons.prems(2) by auto
  ultimately show ?case
    using tag_part [OF Cons.prems(1) [of e]] by (simp del: unescape_stage_loop.simps)
qed simp

lemma series_text:
  "escape_stage_token m True False @ concat (map (\<lambda>e. '','' @ tag_text e) tags) = commas (esc measurement_special m # map tag_text tags)"
  by (simp add: commas_concat escape_measurement_esc comp_def)

lemma split_series:
  assumes "valid_stage_text m"
  shows "split_stage_escaped (commas (esc measurement_special m # map tag_text tags)) (CHR '','') False =
    Inr (esc measurement_special m # map tag_text tags)"
proof -
  have tag: "tag_text e \<noteq> [] \<and> keeps False False (tag_text e) False" for e
    by (auto simp: tag_text_def escape_key_esc intro!: keeps_append keeps_esc keeps_one [of False "CHR ''=''", simplified] simp del: append_Cons)
  then show ?thesis using valid_text_nonempty [OF assms] by (intro split_commas) (auto intro: keeps_esc)
qed

lemma parse_series_text:
  assumes "valid_stage_text m" and "\<And>e. e \<in> set tags \<Longrightarrow> tag_ok e" and "distinct (map fst tags)"
  shows "parse_stage_series (commas (esc measurement_special m # map tag_text tags)) = Inr (m, tags)"
proof -
  note split_series [OF assms(1), of tags]
  moreover have "unescape_stage_token (esc measurement_special m) [CHR '' '', CHR '','', backslash] = Inr m"
    using assms(1) by (intro unescape_token_esc allowed_sets) simp_all
  moreover have "parse_stage_tags [] (map tag_text tags) = Inr tags" using parse_tag_texts [of tags "[]"] assms by simp
  ultimately show ?thesis using valid_text_nonempty [OF assms(1)] by (simp add: parse_stage_series_def)
qed

lemma field_part:
  assumes "field_ok float_text e"
  shows "find_unquoted_byte (field_text e) (CHR ''='') 0 = Some (length (esc key_special (fst e)))"
    "take (length (esc key_special (fst e))) (field_text e) = esc key_special (fst e)"
    "drop (length (esc key_special (fst e)) + 1) (field_text e) = snd e"
    "length (esc key_special (fst e)) + 1 < length (field_text e)" "fst e \<noteq> []"
    "unescape_stage_token (esc key_special (fst e)) key_allowed = Inr (fst e)"
    "canonical_stage_field_value float_text (snd e) = Inr (snd e)"
proof -
  have "uskips (CHR ''='') False (esc key_special (fst e)) False"
    using uskips_esc [of "CHR ''=''" key_special False "fst e"] assms by (simp add: field_ok_def)
  from find_unquoted_after(1) [OF this]
  show "find_unquoted_byte (field_text e) (CHR ''='') 0 = Some (length (esc key_special (fst e)))"
    by (simp add: field_text_def escape_key_esc)
qed (use assms in \<open>auto simp: field_text_def escape_key_esc field_ok_def unescape_key canonical_value_def
      simp del: unescape_stage_loop.simps dest: valid_text_nonempty\<close>)

lemma parse_field_texts:
  assumes "\<And>e. e \<in> set es \<Longrightarrow> field_ok float_text e" and "distinct (map fst (fields @ es))"
  shows "parse_field_parts float_text fields (map field_text es) = Inr (fields @ es)"
  using assms
proof (induction es arbitrary: fields)
  case (Cons e es)
  have "parse_field_parts float_text (fields @ [e]) (map field_text es) = Inr ((fields @ [e]) @ es)"
    using Cons.prems by (intro Cons.IH) auto
  moreover have "fst e \<notin> fst ` set fields" using Cons.prems(2) by auto
  ultimately show ?case
    using field_part [OF Cons.prems(1) [of e]] by (simp del: unescape_stage_loop.simps)
qed simp

lemma field_text_scan:
  assumes "field_ok float_text e"
  shows "field_text e \<noteq> []" "keeps True False (field_text e) False" "uskips (CHR '' '') False (field_text e) False"
    "utf8_valid (field_text e)" "\<not> contains_any (field_text e) control_bytes"
proof -
  have e: "field_text e = esc key_special (fst e) @ ''='' @ snd e" by (simp add: field_text_def escape_key_esc)
  have v: "scannable (snd e)" and q: "\<not> quote_parity False (fst e)" and k: "valid_stage_text (fst e)"
    using assms by (simp_all add: field_ok_def canonical_value_def)
  note s = scannable_scan [OF v]
  show "field_text e \<noteq> []" by (simp add: e)
  show "keeps True False (field_text e) False"
    unfolding e using keeps_esc_quotes [of key_special False "fst e"] q s(2)
    by (intro keeps_append [of _ _ _ False] keeps_one) simp_all
  show "uskips (CHR '' '') False (field_text e) False"
    unfolding e using uskips_esc [of "CHR '' ''" key_special False "fst e"] q s(1)
    by (intro uskips_append [of _ _ _ False] uskips_one) simp_all
  show "utf8_valid (field_text e)"
    unfolding e using utf8_esc_text(1) [OF k] s(3) by (simp add: utf8_append byte_def)
  show "\<not> contains_any (field_text e) control_bytes"
    unfolding e using k s(4) by (simp add: valid_stage_text_def control_bytes_def contains_any_esc)
qed

lemma utf8_concat: "(\<And>s. s \<in> set ss \<Longrightarrow> utf8_valid s) \<Longrightarrow> utf8_valid (concat ss)"
  by (induction ss) (simp_all add: utf8_append)

text \<open>A tag the exporter writes: its value may be empty.\<close>

definition tag_printable :: "string \<times> string \<Rightarrow> bool" where
  "tag_printable e \<longleftrightarrow> valid_stage_text (fst e) \<and> valid_stage_string_value (snd e)"

lemma tag_ok_iff: "tag_ok e \<longleftrightarrow> tag_printable e \<and> snd e \<noteq> []"
  by (auto simp: tag_ok_def tag_printable_def valid_stage_text_def valid_stage_string_value_def)

lemma series_scan:
  assumes "valid_stage_text m" and "\<And>e. e \<in> set tags \<Longrightarrow> tag_printable e"
  defines "s \<equiv> commas (esc measurement_special m # map tag_text tags)"
  shows "skips (CHR '' '') s" "utf8_valid s" "\<not> contains_any s control_bytes" "s \<noteq> []"
proof -
  have tag: "skips (CHR '' '') ('','' @ tag_text e)" for e
    using skips_append [OF skips_one [of "CHR '',''" "CHR '' ''"]
        skips_append [OF skips_esc [of "CHR '' ''" key_special "fst e"]
          skips_append [OF skips_one [of "CHR ''=''" "CHR '' ''"] skips_esc [of "CHR '' ''" key_special "snd e"]]]]
    by (simp add: tag_text_def escape_key_esc)
  have tags: "skips (CHR '' '') (concat (map (\<lambda>e. '','' @ tag_text e) es))" for es
    by (induction es) (use tag skips_append in force)+
  have s: "s = esc measurement_special m @ concat (map (\<lambda>e. '','' @ tag_text e) tags)"
    by (simp add: s_def commas_concat comp_def)
  show "skips (CHR '' '') s" unfolding s by (rule skips_append [OF skips_esc tags]) simp_all
  have u: "utf8_valid ('','' @ tag_text e)" "\<not> contains_any ('','' @ tag_text e) control_bytes" if "e \<in> set tags" for e
    using assms(2) [OF that] utf8_esc_text(1) [of "fst e"] utf8_esc [OF special_ascii(2), of "snd e"]
    by (simp_all add: tag_text_def escape_key_esc tag_printable_def byte_def utf8_append valid_stage_text_def
        valid_stage_string_value_def control_bytes_def contains_any_esc)
  show "utf8_valid s" unfolding s using utf8_esc_text(2) [OF assms(1)] u(1)
    by (simp add: utf8_append) (rule utf8_concat, auto)
  have "\<not> contains_any (concat (map (\<lambda>e. '','' @ tag_text e) tags)) control_bytes"
    using u(2) by (auto simp: contains_any_def list_ex_iff)
  with assms(1) show "\<not> contains_any s control_bytes" by (simp add: s valid_stage_text_def)
  show "s \<noteq> []" using valid_text_nonempty [OF assms(1)] by (simp add: s)
qed

lemma fields_scan:
  assumes "fields \<noteq> []" and "\<And>e. e \<in> set fields \<Longrightarrow> field_ok float_text e"
  defines "s \<equiv> commas (map field_text fields)"
  shows "uskips (CHR '' '') False s False" "utf8_valid s" "\<not> contains_any s control_bytes" "s \<noteq> []"
  unfolding s_def using assms(1,2)
proof (induction fields rule: induct_list012)
  case (2 e)
  {
    case 1 then show ?case using field_text_scan [of float_text e] by simp
  next
    case 2 then show ?case using field_text_scan [of float_text e] by simp
  next
    case 3 then show ?case using field_text_scan [of float_text e] by simp
  next
    case 4 then show ?case using field_text_scan [of float_text e] by simp
  }
next
  case (3 e f fields)
  have rest: "uskips (CHR '' '') False (commas (map field_text (f # fields))) False" "utf8_valid (commas (map field_text (f # fields)))"
    "\<not> contains_any (commas (map field_text (f # fields))) control_bytes"
    if "\<And>x. x \<in> set (e # f # fields) \<Longrightarrow> field_ok float_text x"
    using 3 that by simp_all
  {
    case 1
    then show ?case
      using uskips_append [OF field_text_scan(3) [of float_text e] uskips_append [OF uskips_one [of False "CHR '',''"] rest(1)]]
      by simp
  next
    case 2 then show ?case using rest(2) field_text_scan(4) [of float_text e] by (simp add: utf8_append byte_def)
  next
    case 3 then show ?case using rest(3) field_text_scan(5) [of float_text e] by (simp add: control_bytes_def)
  next
    case 4 then show ?case using field_text_scan(1) [of float_text e] by simp
  }
qed simp_all

lemma parse_fields_text:
  assumes "fields \<noteq> []" and "\<And>e. e \<in> set fields \<Longrightarrow> field_ok float_text e" and "distinct (map fst fields)"
  shows "parse_stage_fields float_text (commas (map field_text fields)) = Inr fields"
proof -
  have "split_stage_escaped (commas (map field_text fields)) (CHR '','') True = Inr (map field_text fields)"
    by (rule split_commas) (use assms(1) field_text_scan(1,2) [OF assms(2)] in auto)
  moreover have "parse_field_parts float_text [] (map field_text fields) = Inr fields"
    using parse_field_texts [of fields float_text "[]"] assms by simp
  ultimately show ?thesis using assms(1) by (cases fields) (simp_all add: parse_stage_fields_def)
qed

lemma sorted_entries_id: "sorted (map fst m) \<Longrightarrow> distinct (map fst m) \<Longrightarrow> sorted_entries m = m"
proof -
  assume a: "sorted (map fst m)" "distinct (map fst m)"
  have "map (\<lambda>k. (k, the (map_of m k))) (map fst m) = map (\<lambda>e. e) m"
    unfolding map_map comp_def by (rule map_cong [OF refl]) (use a(2) in auto)
  with a(1) show ?thesis by (simp add: sorted_entries_def sorted_stage_keys_def sorted_sort_id)
qed

lemma sorted_entries_keys [simp]: "map fst (sorted_entries m) = sort (map fst m)"
  by (simp add: sorted_entries_def sorted_stage_keys_def comp_def)

lemma sorted_entries_set: "distinct (map fst m) \<Longrightarrow> set (sorted_entries m) = set m"
  by (force simp: sorted_entries_def sorted_stage_keys_def image_iff)

lemma sorted_entries_Nil_iff [simp]: "sorted_entries m = [] \<longleftrightarrow> m = []"
  by (simp add: sorted_entries_def sorted_stage_keys_def) (metis Nil_is_map_conv length_0_conv length_sort)

text \<open>What a printed point must satisfy for the parser to read it back.\<close>

definition point_ok ::
  "(string \<Rightarrow> (bool \<times> string) option) \<Rightarrow> string \<Rightarrow> entries \<Rightarrow> entries \<Rightarrow> string \<Rightarrow> bool" where
  "point_ok float_text m tags fields ts \<longleftrightarrow>
     valid_stage_text m \<and> (\<forall>e\<in>set tags. tag_ok e) \<and> fields \<noteq> [] \<and> (\<forall>e\<in>set fields. field_ok float_text e) \<and>
     sorted (map fst tags) \<and> distinct (map fst tags) \<and> sorted (map fst fields) \<and> distinct (map fst fields) \<and>
     set (map fst tags) \<inter> set (map fst fields) = {} \<and> (\<exists>n. ts = format_int n \<and> parse_int 64 ts = Some n)"

lemma encode_point_ok:
  assumes "point_ok float_text m tags fields ts"
  shows "encode_canonical_stage_point m tags fields ts = Inr (point_text m tags fields ts)"
proof -
  have "\<forall>e\<in>set fields. valid_stage_text (fst e) \<and> snd e \<noteq> [] \<and> \<not> contains_any (snd e) control_bytes"
    using assms scannable_scan(4) by (auto simp: point_ok_def field_ok_def canonical_value_def)
  then show ?thesis
    using assms by (auto simp: encode_canonical_stage_point_def point_ok_def sorted_entries_id list_ex_iff tag_ok_def)
qed

text \<open>The parser on a line of the right shape: series, fields and timestamp are cut out as printed.\<close>

lemma parse_shape:
  assumes s: "skips (CHR '' '') s" "utf8_valid s" "\<not> contains_any s control_bytes" "s \<noteq> []"
    and f: "uskips (CHR '' '') False f False" "utf8_valid f" "\<not> contains_any f control_bytes" "f \<noteq> []"
    and ts: "ts = format_int n" "parse_int 64 ts = Some n"
  shows "parse_canonical_lp_point float_text (s @ '' '' @ f @ '' '' @ ts) =
    rbind (parse_stage_series s) (\<lambda>(measurement, tags).
      rbind (parse_stage_fields float_text f) (\<lambda>fields. encode_canonical_stage_point measurement tags fields ts))"
proof -
  define line where "line = s @ '' '' @ f @ '' '' @ ts"
  have t: "ts \<noteq> []" "CHR '' '' \<notin> set ts" "utf8_valid ts" "\<not> contains_any ts control_bytes"
    using format_int_plain [of n] plain_scan(3,4) [OF format_int_plain, of n] unfolding ts(1)
    by (auto simp: format_int_chars list_all_iff plain_byte_def)
  have a: "find_unescaped_byte line (CHR '' '') = Some (length s)"
    using find_after [OF s(1)] by (simp add: line_def)
  have b: "find_unquoted_byte line (CHR '' '') (length s + 1) = Some (length s + 1 + length f)"
    using find_unquoted_after(2) [OF f(1), of "length s + 1" "s @ '' ''" ts] by (simp add: line_def)
  have u: "utf8_valid line" using s(2) f(2) t(3) by (simp add: line_def utf8_append byte_def)
  have c: "\<not> contains_any line control_bytes" using s(3) f(3) t(4) by (simp add: line_def)
  have cut: "take (length s) line = s" "drop (length s + 1 + length f + 1) line = ts" "line \<noteq> []"
    "take (length s + 1 + length f - (length s + 1)) (drop (length s + 1) line) = f" "length s + 1 + length f + 1 < length line"
    using t(1) by (simp_all add: line_def)
  have conds: "(line = [] \<or> \<not> utf8_valid line \<or> contains_any line control_bytes) = False" "(length s = 0) = False"
    "(length s + 1 + length f \<le> length s + 1) = False"
    "(length line \<le> length s + 1 + length f + 1 \<or> CHR '' '' \<in> set ts) = False"
    using u c cut(3,5) s(4) f(4) t(2) by simp_all
  show ?thesis
    unfolding parse_canonical_lp_point_def line_def [symmetric]
    by (simp only: a b conds cut(1,2,4) ts(2) ts(1) [symmetric] if_False option.case)
qed

lemma point_text_shape:
  "point_text m tags fields ts =
     commas (esc measurement_special m # map tag_text tags) @ '' '' @ commas (map field_text fields) @ '' '' @ ts"
  unfolding point_text_def by (simp add: series_text [symmetric, of m tags])

lemma parse_printed:
  assumes "valid_stage_text m" and "\<And>e. e \<in> set tags \<Longrightarrow> tag_printable e"
    and "fields \<noteq> []" and "\<And>e. e \<in> set fields \<Longrightarrow> field_ok float_text e" and "distinct (map fst fields)"
    and "ts = format_int n" and "parse_int 64 ts = Some n"
  shows "parse_canonical_lp_point float_text (point_text m tags fields ts) =
    rbind (parse_stage_series (commas (esc measurement_special m # map tag_text tags))) (\<lambda>(measurement, tags).
      encode_canonical_stage_point measurement tags fields ts)"
  unfolding point_text_shape
  using parse_shape [where float_text = float_text,
      OF series_scan [of m tags, OF assms(1,2)] fields_scan [of fields float_text, OF assms(3,4)] assms(6,7)]
    parse_fields_text [OF assms(3-5)] by simp

lemma parse_point_text:
  assumes "point_ok float_text m tags fields ts"
  shows "parse_canonical_lp_point float_text (point_text m tags fields ts) = Inr (point_text m tags fields ts)"
proof -
  have ok: "valid_stage_text m" "\<And>e. e \<in> set tags \<Longrightarrow> tag_ok e" "fields \<noteq> []" "\<And>e. e \<in> set fields \<Longrightarrow> field_ok float_text e"
    "distinct (map fst tags)" "distinct (map fst fields)"
    using assms by (simp_all add: point_ok_def)
  obtain n where n: "ts = format_int n" "parse_int 64 ts = Some n" using assms by (auto simp: point_ok_def)
  have "tag_printable e" if "e \<in> set tags" for e using ok(2) [OF that] by (simp add: tag_ok_iff)
  from parse_printed [OF ok(1) this ok(3,4,6) n] show ?thesis
    by (simp add: parse_series_text [OF ok(1,2,5)] encode_point_ok [OF assms])
qed

text \<open>An empty tag value makes the series unreadable.\<close>

lemma parse_empty_tag:
  "(\<And>e. e \<in> set es \<Longrightarrow> tag_printable e) \<Longrightarrow> e \<in> set es \<Longrightarrow> snd e = [] \<Longrightarrow>
     parse_stage_tags tags (map tag_text es) = Inl err_stage_invalid_input"
proof (induction es arbitrary: tags)
  case (Cons x es)
  show ?case
  proof (cases "snd x = []")
    case True
    have "find_unescaped_byte (tag_text x) (CHR ''='') = Some (length (esc key_special (fst x)))"
      by (simp add: tag_text_def escape_key_esc find_after skips_esc)
    with True show ?thesis by (simp add: tag_text_def escape_key_esc)
  next
    case False
    then have "tag_ok x" using Cons.prems(1) [of x] by (simp add: tag_ok_iff)
    note x = tag_part [OF this]
    have "parse_stage_tags (tags @ [x]) (map tag_text es) = Inl err_stage_invalid_input"
      using Cons.prems False by (intro Cons.IH) auto
    with x show ?thesis by (simp del: unescape_stage_loop.simps)
  qed
qed simp

lemma parse_empty_tag_series:
  assumes "valid_stage_text m" and "\<And>e. e \<in> set tags \<Longrightarrow> tag_printable e" and "e \<in> set tags" and "snd e = []"
  shows "parse_stage_series (commas (esc measurement_special m # map tag_text tags)) = Inl err_stage_invalid_input"
proof -
  have "unescape_stage_token (esc measurement_special m) [CHR '' '', CHR '','', backslash] = Inr m"
    using assms(1) by (intro unescape_token_esc allowed_sets) simp_all
  then show ?thesis
    using parse_empty_tag [OF assms(2-4)] valid_text_nonempty [OF assms(1)]
    by (simp add: parse_stage_series_def split_series [OF assms(1)])
qed

section \<open>The parser's own output\<close>

lemma unescape_token_valid: "unescape_stage_token s allowed = Inr d \<Longrightarrow> d \<noteq> '''' \<Longrightarrow> valid_stage_text d"
  by (auto simp: unescape_stage_token_def valid_stage_text_def split: option.splits if_splits)

lemma parse_tags_ok:
  "parse_stage_tags tags parts = Inr es \<Longrightarrow> \<forall>e\<in>set tags. tag_ok e \<Longrightarrow> distinct (map fst tags) \<Longrightarrow>
     (\<forall>e\<in>set es. tag_ok e) \<and> distinct (map fst es)"
proof (induction parts arbitrary: tags)
  case (Cons part parts)
  from Cons.prems(1) obtain k v where "parse_stage_tags (tags @ [(k, v)]) parts = Inr es" "k \<notin> fst ` set tags" "tag_ok (k, v)"
    by (simp split: option.splits if_splits sum.splits) (auto simp: tag_ok_def intro: unescape_token_valid)
  with Cons.prems(2,3) show ?case by (intro Cons.IH [of "tags @ [(k, v)]"]) auto
qed simp

lemma unquoted_parity:
  "find_unquoted_loop False q t s = Some n \<Longrightarrow> unescape_stage_loop allowed (take n s) = Some d \<Longrightarrow>
     dquote \<notin> set allowed \<Longrightarrow> \<not> quote_parity q d"
proof (induction allowed s arbitrary: q n d rule: unescape_stage_loop.induct)
  case (2 allowed c s)
  show ?case
  proof (cases "c = backslash")
    case False
    show ?thesis
    proof (cases "n = 0")
      case True
      with False "2.prems" show ?thesis by (auto split: if_splits)
    next
      case n: False
      then obtain k where k: "n = Suc k" by (cases n) auto
      with False "2.prems"(2) obtain e where e: "d = c # e" "unescape_stage_loop allowed (take k s) = Some e" by auto
      have "find_unquoted_loop False (if c = dquote then \<not> q else q) t s = Some k"
        using "2.prems"(1) False k by (auto split: if_splits)
      from "2.IH"(1) [OF False this e(2) "2.prems"(3)] show ?thesis by (simp add: e(1))
    qed
  next
    case True
    with "2.prems"(1) obtain k where k: "n = Suc k" "find_unquoted_loop True q t s = Some k" by auto
    with True "2.prems"(2) obtain x s' where s: "s = x # s'" by (cases s) auto
    with k obtain j where j: "k = Suc j" "find_unquoted_loop False q t s' = Some j" by auto
    with True k s "2.prems"(2) obtain e where e: "d = x # e" "x \<in> set allowed" "unescape_stage_loop allowed (take j s') = Some e"
      by (auto split: if_splits)
    have "\<not> quote_parity q e" using "2.IH"(2) [of x s'] True s e j(2) "2.prems"(3) by blast
    with e "2.prems"(3) show ?thesis by auto
  qed
qed simp

lemma parse_fields_ok:
  assumes "float_text_ok float_text"
  shows "parse_field_parts float_text fields parts = Inr es \<Longrightarrow> \<forall>e\<in>set fields. field_ok float_text e \<Longrightarrow>
     distinct (map fst fields) \<Longrightarrow> (\<forall>e\<in>set es. field_ok float_text e) \<and> distinct (map fst es)"
proof (induction parts arbitrary: fields)
  case (Cons part parts)
  from Cons.prems(1) obtain n k v where f: "find_unquoted_byte part (CHR ''='') 0 = Some n"
    and u: "unescape_stage_token (take n part) key_allowed = Inr k" "k \<noteq> []" "k \<notin> fst ` set fields"
    and v: "canonical_stage_field_value float_text (drop (n + 1) part) = Inr v"
    and rest: "parse_field_parts float_text (fields @ [(k, v)]) parts = Inr es"
    by (simp split: option.splits if_splits sum.splits add: rbind_Inr_iff) fastforce
  have "find_unquoted_loop False False (CHR ''='') part = Some n"
    using f by (auto simp: find_unquoted_byte_def)
  moreover have "unescape_stage_loop key_allowed (take n part) = Some k"
    using u(1) by (auto simp: unescape_stage_token_def split: option.splits if_splits)
  ultimately have "\<not> quote_parity False k" by (rule unquoted_parity) simp
  then have "field_ok float_text (k, v)"
    using unescape_token_valid [OF u(1,2)] canonical_field_value [OF assms v] by (simp add: field_ok_def)
  with rest u(3) Cons.prems(2,3) show ?case by (intro Cons.IH [of "fields @ [(k, v)]"]) auto
qed simp

lemma parse_series_ok:
  "parse_stage_series s = Inr (m, tags) \<Longrightarrow> valid_stage_text m \<and> (\<forall>e\<in>set tags. tag_ok e) \<and> distinct (map fst tags)"
  using parse_tags_ok [of "[]" _ tags]
  by (auto simp: parse_stage_series_def rbind_Inr_iff unescape_token_valid split: sum.splits list.splits if_splits)

lemma parse_fields_result:
  "float_text_ok float_text \<Longrightarrow> parse_stage_fields float_text s = Inr fields \<Longrightarrow>
     fields \<noteq> [] \<and> (\<forall>e\<in>set fields. field_ok float_text e) \<and> distinct (map fst fields)"
  using parse_fields_ok [of float_text "[]" _ fields]
  by (simp add: parse_stage_fields_def rbind_Inr_iff del: parse_field_parts.simps split: sum.splits list.splits if_splits) blast

lemma encode_result:
  assumes "encode_canonical_stage_point m tags fields ts = Inr line"
  shows "line = point_text m (sorted_entries tags) (sorted_entries fields) ts"
    "fields \<noteq> []" "set (map fst tags) \<inter> set (map fst fields) = {}" "valid_stage_text m"
    "\<forall>e\<in>set (sorted_entries tags). tag_ok e" "\<forall>e\<in>set (sorted_entries fields). valid_stage_text (fst e)"
  using assms by (auto simp: encode_canonical_stage_point_def list_ex_iff tag_ok_def split: if_splits)

lemma parse_result:
  assumes "float_text_ok float_text" and "parse_canonical_lp_point float_text line = Inr c"
  obtains m tags fields ts where "point_ok float_text m tags fields ts" "c = point_text m tags fields ts"
proof -
  obtain s f x n m tags fields where n: "parse_int 64 x = Some n" and s: "parse_stage_series s = Inr (m, tags)"
    and f: "parse_stage_fields float_text f = Inr fields"
    and e: "encode_canonical_stage_point m tags fields (format_int n) = Inr c"
    using assms(2) by (auto simp: parse_canonical_lp_point_def rbind_Inr_iff split: if_splits option.splits)
  note so = parse_series_ok [OF s] and fo = parse_fields_result [OF assms(1) f] and eo = encode_result [OF e]
  have "point_ok float_text m (sorted_entries tags) (sorted_entries fields) (format_int n)"
    using so fo eo(3) parse_format_int [OF n] by (auto simp: point_ok_def sorted_entries_set)
  with eo(1) show thesis by (rule that [rotated])
qed

lemma parse_idem:
  assumes "float_text_ok float_text" and "parse_canonical_lp_point float_text line = Inr c"
  shows "parse_canonical_lp_point float_text c = Inr c"
  using parse_result [OF assms] parse_point_text by metis

end
