(* ===== verification/Line_Export.thy ===== *)
theory Line_Export
  imports Line_Protocol
begin

text \<open>
  The exporter's side of line protocol: the typed scalars a query result is decoded to
  (\<open>internal/query/scalar.go\<close>) and their encoders (\<open>internal/exportfmt/encode.go\<close>).  A JSON token is a
  \<open>json_value\<close>, a number kept as its text (\<open>json.Number\<close>).

  The lemmas show that the exporter escapes as the importer does and that the line of a clean point is a
  printed point of \<open>Line_Protocol\<close>.
\<close>

section \<open>Typed scalars\<close>

datatype scalar_kind = ScalarNull | ScalarString | ScalarBoolean | ScalarTimestampNS | ScalarInt64
  | ScalarUint64 | ScalarFloat64 | ScalarNumericText | ScalarOther string

record typed_scalar =
  sc_kind :: scalar_kind
  sc_decimal_text :: string
  sc_string_value :: string
  sc_boolean_value :: "bool option"

datatype json_value = JsonNull | JsonString string | JsonBool bool | JsonNumber string | JsonComposite

definition no_scalar :: "scalar_kind \<Rightarrow> typed_scalar" where
  "no_scalar kind = \<lparr>sc_kind = kind, sc_decimal_text = '''', sc_string_value = '''', sc_boolean_value = None\<rparr>"

definition numeric_scalar ::
  "(string \<Rightarrow> (bool \<times> string) option) \<Rightarrow> string \<Rightarrow> scalar_kind \<Rightarrow> typed_scalar result" where
  "numeric_scalar float_text raw kind =
     (if kind = ScalarTimestampNS \<or> kind = ScalarInt64 then
        (case parse_int 64 raw of
           None \<Rightarrow> Inl (PlainError ''invalid signed 64-bit decimal'')
         | Some n \<Rightarrow> Inr ((no_scalar kind)\<lparr>sc_decimal_text := format_int n\<rparr>))
      else if kind = ScalarUint64 then
        (case parse_uint 64 raw of
           None \<Rightarrow> Inl (PlainError ''invalid unsigned 64-bit decimal'')
         | Some n \<Rightarrow> Inr ((no_scalar kind)\<lparr>sc_decimal_text := format_int n\<rparr>))
      else if kind = ScalarFloat64 then
        (case float_text raw of
           Some (True, _) \<Rightarrow> Inr ((no_scalar kind)\<lparr>sc_decimal_text := raw\<rparr>)
         | _ \<Rightarrow> Inl (PlainError ''invalid finite binary64 value''))
      else if kind = ScalarNumericText then Inr ((no_scalar kind)\<lparr>sc_decimal_text := raw\<rparr>)
      else Inl (PlainError ''invalid numeric scalar kind''))"

fun scalar_from_value ::
  "(string \<Rightarrow> (bool \<times> string) option) \<Rightarrow> json_value \<Rightarrow> scalar_kind \<Rightarrow> typed_scalar result" where
  "scalar_from_value float_text JsonNull kind = Inr (no_scalar ScalarNull)"
| "scalar_from_value float_text (JsonString s) kind = Inr ((no_scalar ScalarString)\<lparr>sc_string_value := s\<rparr>)"
| "scalar_from_value float_text (JsonBool b) kind = Inr ((no_scalar ScalarBoolean)\<lparr>sc_boolean_value := Some b\<rparr>)"
| "scalar_from_value float_text (JsonNumber raw) kind = numeric_scalar float_text raw kind"
| "scalar_from_value float_text JsonComposite kind = Inl (PlainError ''unsupported JSON scalar type'')"

section \<open>Encoders\<close>

abbreviation export_error :: "string \<Rightarrow> go_error" where "export_error \<equiv> Sentinel PkgExportfmt"

definition err_ambiguous_numeric :: go_error where
  "err_ambiguous_numeric = export_error ''NUMERIC_TYPE_AMBIGUOUS''"

definition err_invalid_point :: go_error where
  "err_invalid_point = export_error ''INVALID_LINE_PROTOCOL_POINT''"

definition format_bool :: "bool \<Rightarrow> string" where
  "format_bool b = (if b then ''true'' else ''false'')"

definition scalar_text :: "typed_scalar \<Rightarrow> string result" where
  "scalar_text v =
     (case sc_kind v of
        ScalarNull \<Rightarrow> Inr ''''
      | ScalarString \<Rightarrow> Inr (sc_string_value v)
      | ScalarBoolean \<Rightarrow>
          (case sc_boolean_value v of
             None \<Rightarrow> Inl (PlainError ''boolean scalar has no value'')
           | Some b \<Rightarrow> Inr (format_bool b))
      | ScalarOther _ \<Rightarrow> Inl (PlainError ''unknown scalar kind'')
      | _ \<Rightarrow>
          if sc_decimal_text v = '''' then Inl (PlainError ''numeric scalar has no decimalText'')
          else Inr (sc_decimal_text v))"

definition lp_field :: "(string \<Rightarrow> (bool \<times> string) option) \<Rightarrow> typed_scalar \<Rightarrow> string result" where
  "lp_field float_text v =
     (case sc_kind v of
        ScalarString \<Rightarrow> Inr (dquote # replace_bytes string_replacer (sc_string_value v) @ [dquote])
      | ScalarBoolean \<Rightarrow>
          (case sc_boolean_value v of None \<Rightarrow> Inl err_invalid_point | Some b \<Rightarrow> Inr (format_bool b))
      | ScalarInt64 \<Rightarrow>
          (case parse_int 64 (sc_decimal_text v) of
             None \<Rightarrow> Inl err_invalid_point
           | Some _ \<Rightarrow> Inr (sc_decimal_text v @ ''i''))
      | ScalarUint64 \<Rightarrow>
          (case parse_uint 64 (sc_decimal_text v) of
             None \<Rightarrow> Inl err_invalid_point
           | Some _ \<Rightarrow> Inr (sc_decimal_text v @ ''u''))
      | ScalarFloat64 \<Rightarrow>
          (case float_text (sc_decimal_text v) of
             None \<Rightarrow> Inl err_invalid_point
           | Some (_, text) \<Rightarrow> Inr text)
      | ScalarNumericText \<Rightarrow> Inl err_ambiguous_numeric
      | _ \<Rightarrow> Inl err_invalid_point)"

definition measurement_replacer :: "(char \<times> string) list" where
  "measurement_replacer =
     [(backslash, [backslash, backslash]), (CHR '','', [backslash, CHR '','']), (CHR '' '', [backslash, CHR '' ''])]"

definition tag_replacer :: "(char \<times> string) list" where
  "tag_replacer =
     [(backslash, [backslash, backslash]), (CHR '','', [backslash, CHR '','']),
      (CHR ''='', [backslash, CHR ''='']), (CHR '' '', [backslash, CHR '' ''])]"

definition escape_measurement :: "string \<Rightarrow> string" where
  "escape_measurement s = replace_bytes measurement_replacer s"

definition escape_tag :: "string \<Rightarrow> string" where
  "escape_tag s = replace_bytes tag_replacer s"

definition escape_field_key :: "string \<Rightarrow> string" where
  "escape_field_key s = escape_tag s"

fun lp_fields :: "(string \<Rightarrow> (bool \<times> string) option) \<Rightarrow> (string \<times> typed_scalar) list \<Rightarrow> string list result" where
  "lp_fields float_text [] = Inr []"
| "lp_fields float_text ((key, v) # es) =
     (if key = '''' \<or> contains_any key line_breaks then Inl err_invalid_point
      else rbind (lp_field float_text v) (\<lambda>text.
        rbind (lp_fields float_text es) (\<lambda>texts. Inr ((escape_field_key key @ ''='' @ text) # texts))))"

definition encode_lp_point ::
  "(string \<Rightarrow> (bool \<times> string) option) \<Rightarrow> string \<Rightarrow> entries \<Rightarrow> (string \<times> typed_scalar) list \<Rightarrow> typed_scalar \<Rightarrow>
     string result" where
  "encode_lp_point float_text measurement tags vals timestamp =
     (if measurement = '''' \<or> contains_any measurement line_breaks \<or> vals = [] then Inl err_invalid_point
      else if sc_kind timestamp \<noteq> ScalarTimestampNS \<or> sc_decimal_text timestamp = '''' then Inl err_invalid_point
      else if parse_int 64 (sc_decimal_text timestamp) = None then Inl err_invalid_point
      else if list_ex (\<lambda>(k, v). k = '''' \<or> contains_any k line_breaks \<or> contains_any v line_breaks) (sorted_entries tags)
        then Inl err_invalid_point
      else rbind (lp_fields float_text (sorted_entries vals)) (\<lambda>texts.
        Inr (escape_measurement measurement @
          concat (map (\<lambda>(k, v). '','' @ escape_tag k @ ''='' @ escape_tag v) (sorted_entries tags)) @ '' '' @
          commas texts @ '' '' @ sc_decimal_text timestamp)))"

section \<open>The exporter's lines are printed points\<close>

lemma replace_esc:
  assumes "\<And>c. map_of table c = (if c \<in> special then Some [backslash, c] else None)"
  shows "replace_bytes table s = esc special s"
  unfolding replace_bytes_def esc_def by (rule arg_cong [of _ _ concat], rule map_cong [OF refl]) (simp add: assms)

lemma exporter_escapes: "escape_measurement s = esc measurement_special s" "escape_tag s = esc key_special s"
  unfolding escape_measurement_def escape_tag_def
  by (rule replace_esc, auto simp: measurement_replacer_def tag_replacer_def measurement_special_def key_special_def)+

text \<open>A scalar as the decoder of query results makes it.\<close>

definition decoded_scalar :: "(string \<Rightarrow> (bool \<times> string) option) \<Rightarrow> typed_scalar \<Rightarrow> bool" where
  "decoded_scalar float_text v \<longleftrightarrow>
     (\<exists>raw kind. scalar_from_value float_text raw kind = Inr v) \<and> valid_stage_string_value (sc_string_value v)"

lemma decoded_cases:
  assumes "scalar_from_value float_text raw kind = Inr v"
  shows "(sc_kind v = ScalarInt64 \<or> sc_kind v = ScalarTimestampNS \<longrightarrow>
        (\<exists>n s. sc_decimal_text v = format_int n \<and> parse_int 64 s = Some n)) \<and>
     (sc_kind v = ScalarUint64 \<longrightarrow> (\<exists>n s. sc_decimal_text v = format_int n \<and> parse_uint 64 s = Some n)) \<and>
     (sc_kind v = ScalarFloat64 \<longrightarrow> (\<exists>t. float_text (sc_decimal_text v) = Some (True, t)))"
  using assms by (cases raw) (auto simp: numeric_scalar_def no_scalar_def split: if_splits option.splits bool.splits)

lemma lp_field_canonical:
  assumes "float_text_ok float_text" and "decoded_scalar float_text v" and "lp_field float_text v = Inr t"
  shows "canonical_value float_text t"
proof -
  obtain raw kind where v: "scalar_from_value float_text raw kind = Inr v" using assms(2) by (auto simp: decoded_scalar_def)
  note d = decoded_cases [OF v]
  have s: "valid_stage_string_value (sc_string_value v)" using assms(2) by (simp add: decoded_scalar_def)
  show ?thesis
    using assms(3) d canonical_string [OF s, of float_text] canonical_bool [of float_text] canonical_int [of _ _ float_text]
      canonical_uint [of _ _ float_text] canonical_float [OF assms(1)]
    by (cases "sc_kind v") (auto simp: lp_field_def encode_stage_string_def format_bool_def split: option.splits if_splits)
qed

text \<open>A point whose names are text the importer accepts; \<open>clean_point\<close> has no empty tag value.\<close>

definition exportable_point ::
  "(string \<Rightarrow> (bool \<times> string) option) \<Rightarrow> string \<Rightarrow> entries \<Rightarrow> (string \<times> typed_scalar) list \<Rightarrow> typed_scalar \<Rightarrow> bool" where
  "exportable_point float_text m tags vals ts \<longleftrightarrow>
     valid_stage_text m \<and> list_all tag_printable tags \<and>
     list_all (\<lambda>(k, v). valid_stage_text k \<and> \<not> quote_parity False k \<and> decoded_scalar float_text v) vals \<and>
     distinct (map fst tags) \<and> distinct (map fst vals) \<and> set (map fst tags) \<inter> set (map fst vals) = {} \<and>
     decoded_scalar float_text ts"

definition clean_point ::
  "(string \<Rightarrow> (bool \<times> string) option) \<Rightarrow> string \<Rightarrow> entries \<Rightarrow> (string \<times> typed_scalar) list \<Rightarrow> typed_scalar \<Rightarrow> bool" where
  "clean_point float_text m tags vals ts \<longleftrightarrow>
     exportable_point float_text m tags vals ts \<and> list_all (\<lambda>e. snd e \<noteq> '''') tags"

fun field_values ::
  "(string \<Rightarrow> (bool \<times> string) option) \<Rightarrow> (string \<times> typed_scalar) list \<Rightarrow> entries result" where
  "field_values float_text [] = Inr []"
| "field_values float_text ((key, v) # es) =
     rbind (lp_field float_text v) (\<lambda>t. rbind (field_values float_text es) (\<lambda>r. Inr ((key, t) # r)))"

lemma lp_fields_values:
  "(\<And>e. e \<in> set es \<Longrightarrow> valid_stage_text (fst e)) \<Longrightarrow>
     lp_fields float_text es = rbind (field_values float_text es) (\<lambda>r. Inr (map field_text r))"
proof (induction es)
  case (Cons e es)
  obtain k v where e: "e = (k, v)" by (cases e)
  have "valid_stage_text k" using Cons.prems [of e] by (simp add: e)
  then have k: "k \<noteq> []" "\<not> contains_any k line_breaks"
    by (auto simp: valid_stage_text_def contains_any_def list_ex_iff control_bytes_def line_breaks_def)
  have IH: "lp_fields float_text es = rbind (field_values float_text es) (\<lambda>r. Inr (map field_text r))"
    using Cons by simp
  show ?case
    using k by (cases "lp_field float_text v"; cases "field_values float_text es")
      (simp_all add: e IH field_text_def escape_field_key_def exporter_escapes escape_key_esc)
qed simp

lemma field_values_ok:
  "field_values float_text es = Inr r \<Longrightarrow> map fst r = map fst es \<and>
     (\<forall>e\<in>set r. \<exists>v. (fst e, v) \<in> set es \<and> lp_field float_text v = Inr (snd e))"
proof (induction es arbitrary: r)
  case (Cons e es)
  obtain k v where "e = (k, v)" by (cases e)
  with Cons show ?case by (fastforce simp: rbind_Inr_iff)
qed simp

lemma valid_text_breaks: "valid_stage_text s \<Longrightarrow> s \<noteq> [] \<and> \<not> contains_any s line_breaks"
  by (auto simp: valid_stage_text_def contains_any_def list_ex_iff control_bytes_def line_breaks_def)

lemma clean_timestamp:
  assumes "decoded_scalar float_text ts" and "sc_kind ts = ScalarTimestampNS"
  shows "sc_decimal_text ts \<noteq> []" "\<exists>n. parse_int 64 (sc_decimal_text ts) = Some n \<and> sc_decimal_text ts = format_int n"
proof -
  obtain raw kind where "scalar_from_value float_text raw kind = Inr ts" using assms(1) by (auto simp: decoded_scalar_def)
  from decoded_cases [OF this] assms(2) obtain n s where n: "sc_decimal_text ts = format_int n" "parse_int 64 s = Some n" by blast
  with parse_format_int show "\<exists>n. parse_int 64 (sc_decimal_text ts) = Some n \<and> sc_decimal_text ts = format_int n" by auto
  show "sc_decimal_text ts \<noteq> []" using n format_int_chars(2) by simp
qed

text \<open>The texts of a clean point's fields make a printed point.\<close>

lemma exportable_parts:
  assumes "exportable_point float_text m tags vals ts"
  shows "valid_stage_text m" "\<forall>e\<in>set tags. tag_printable e" "distinct (map fst tags)" "distinct (map fst vals)"
    "decoded_scalar float_text ts" "set (map fst tags) \<inter> set (map fst vals) = {}" "\<forall>e\<in>set vals. valid_stage_text (fst e)"
  using assms by (auto simp: exportable_point_def list_all_iff)

lemma field_values_fields:
  assumes "float_text_ok float_text" and "exportable_point float_text m tags vals ts" and "vals \<noteq> []"
    and "field_values float_text (sorted_entries vals) = Inr fs"
  shows "fs \<noteq> []" "\<And>e. e \<in> set fs \<Longrightarrow> field_ok float_text e" "map fst fs = sort (map fst vals)"
proof -
  note fv = field_values_ok [OF assms(4)]
  show "field_ok float_text e" if e: "e \<in> set fs" for e
  proof -
    obtain v where v: "(fst e, v) \<in> set vals" "lp_field float_text v = Inr (snd e)"
      using fv e by (auto simp: sorted_entries_set [OF exportable_parts(4) [OF assms(2)]])
    with assms(2) have "decoded_scalar float_text v" "valid_stage_text (fst e)" "\<not> quote_parity False (fst e)"
      by (auto simp: exportable_point_def list_all_iff)
    then show ?thesis using lp_field_canonical [OF assms(1) _ v(2)] by (simp add: field_ok_def)
  qed
  show "map fst fs = sort (map fst vals)" using fv by simp
  show "fs \<noteq> []" using fv assms(3) by (metis list.map_disc_iff sorted_entries_Nil_iff)
qed

lemma field_values_point:
  assumes "float_text_ok float_text" and "clean_point float_text m tags vals ts" and "vals \<noteq> []"
    and "sc_kind ts = ScalarTimestampNS" and "field_values float_text (sorted_entries vals) = Inr fs"
  shows "point_ok float_text m (sorted_entries tags) fs (sc_decimal_text ts)"
proof -
  have e: "exportable_point float_text m tags vals ts" "\<forall>e\<in>set tags. tag_ok e"
    using assms(2) by (auto simp: clean_point_def exportable_point_def tag_ok_iff list_all_iff)
  note c = exportable_parts [OF e(1)] and f = field_values_fields [OF assms(1) e(1) assms(3,5)]
  have "set (map fst fs) = set (map fst vals)" using f(3) by simp
  then show ?thesis
    using c e(2) f clean_timestamp(2) [OF c(5) assms(4)] by (auto simp: point_ok_def sorted_entries_set)
qed

lemma encode_clean:
  assumes "exportable_point float_text m tags vals ts" and "vals \<noteq> []" and "sc_kind ts = ScalarTimestampNS"
  shows "encode_lp_point float_text m tags vals ts =
    rbind (field_values float_text (sorted_entries vals)) (\<lambda>r. Inr (point_text m (sorted_entries tags) r (sc_decimal_text ts)))"
proof -
  note c = exportable_parts [OF assms(1)]
  have lines: "lp_fields float_text (sorted_entries vals) =
      rbind (field_values float_text (sorted_entries vals)) (\<lambda>r. Inr (map field_text r))"
    using c(4,7) by (intro lp_fields_values) (auto simp: sorted_entries_set)
  have "\<not> contains_any v line_breaks" if "valid_stage_string_value v" for v
    using that by (auto simp: valid_stage_string_value_def contains_any_def list_ex_iff control_bytes_def line_breaks_def)
  then have "fst e \<noteq> [] \<and> \<not> contains_any (fst e) line_breaks \<and> \<not> contains_any (snd e) line_breaks" if "e \<in> set tags" for e
    using c(2) that valid_text_breaks by (auto simp: tag_printable_def)
  then have "\<not> list_ex (\<lambda>(k, v). k = [] \<or> contains_any k line_breaks \<or> contains_any v line_breaks) (sorted_entries tags)"
    by (force simp: list_ex_iff sorted_entries_set [OF c(3)])
  then show ?thesis
    using assms(2,3) clean_timestamp [OF c(5) assms(3)] valid_text_breaks [OF c(1)]
    by (cases "field_values float_text (sorted_entries vals)")
      (auto simp: encode_lp_point_def lines point_text_def exporter_escapes escape_measurement_esc tag_text_def
        escape_key_esc split_beta' comp_def)
qed

lemma exported_line:
  assumes "exportable_point float_text m tags vals ts" and "encode_lp_point float_text m tags vals ts = Inr line"
  obtains fs where "vals \<noteq> []" "sc_kind ts = ScalarTimestampNS" "field_values float_text (sorted_entries vals) = Inr fs"
    "line = point_text m (sorted_entries tags) fs (sc_decimal_text ts)"
proof -
  have v: "vals \<noteq> []" "sc_kind ts = ScalarTimestampNS" using assms(2) by (auto simp: encode_lp_point_def split: if_splits)
  with assms(2) that show thesis by (auto simp: encode_clean [OF assms(1) v] rbind_Inr_iff)
qed

lemma exported_stable:
  assumes "float_text_ok float_text" and "clean_point float_text m tags vals ts"
    and "encode_lp_point float_text m tags vals ts = Inr line"
  shows "parse_canonical_lp_point float_text line = Inr line"
proof -
  have "exportable_point float_text m tags vals ts" using assms(2) by (simp add: clean_point_def)
  from this assms(3) obtain fs where v: "vals \<noteq> []" "sc_kind ts = ScalarTimestampNS"
    "field_values float_text (sorted_entries vals) = Inr fs" "line = point_text m (sorted_entries tags) fs (sc_decimal_text ts)"
    by (rule exported_line)
  from parse_point_text [OF field_values_point [OF assms(1,2) v(1-3)]] show ?thesis by (simp add: v(4))
qed

lemma exported_empty_tag:
  assumes "float_text_ok float_text" and "exportable_point float_text m tags vals ts"
    and "encode_lp_point float_text m tags vals ts = Inr line" and "(k, []) \<in> set tags"
  shows "parse_canonical_lp_point float_text line = Inl err_stage_invalid_input"
proof -
  from assms(2,3) obtain fs where v: "vals \<noteq> []" "sc_kind ts = ScalarTimestampNS"
    "field_values float_text (sorted_entries vals) = Inr fs" "line = point_text m (sorted_entries tags) fs (sc_decimal_text ts)"
    by (rule exported_line)
  note c = exportable_parts [OF assms(2)] and f = field_values_fields [OF assms(1,2) v(1,3)]
  have t: "\<And>e. e \<in> set (sorted_entries tags) \<Longrightarrow> tag_printable e" "(k, []) \<in> set (sorted_entries tags)"
    using c(2) assms(4) by (simp_all add: sorted_entries_set [OF c(3)])
  obtain n where n: "sc_decimal_text ts = format_int n" "parse_int 64 (sc_decimal_text ts) = Some n"
    using clean_timestamp(2) [OF c(5) v(2)] by auto
  have d: "distinct (map fst fs)" using f(3) c(4) by simp
  show ?thesis
    using parse_printed [OF c(1) t(1) f(1,2) d n] parse_empty_tag_series [OF c(1) t] by (simp add: v(4))
qed

end
