(* ===== verification/Staging.thy ===== *)
theory Staging
  imports Line_Export
begin

text \<open>
  Staging of an import, from \<open>internal/transfer/staging.go\<close>: \<open>StageImport\<close>, the reader of records, the
  writer that reserves disk space in extents, and \<open>processLP\<close> of \<open>staging_lp.go\<close>.

  \<open>stage\<close> is everything one call changes: the unread source, the bytes the destination accepted, the
  writer and the processor.  A cancellation is \<open>st_cancel_after\<close>, the number of times the context is
  still found alive.  \<open>stage_env\<close> are the callbacks: whether the \<open>n\<close>-th reservation succeeds, what the
  \<open>n\<close>-th \<open>Write\<close> of the destination returns, whether the settlement succeeds.  A \<open>bufio.Reader\<close> of 64 KiB
  hands out a record in fragments of at most that size.  SHA-256 is a parameter.

  The lemmas give the file a successful call leaves: canonical lines only, their number and bytes, and
  the extents reserved for them.
\<close>

section \<open>Constants\<close>

definition max_int64 :: int where "max_int64 = 2 ^ 63 - 1"

definition canonical_point_limit :: int where "canonical_point_limit = 5 * 1024 * 1024"

definition reservation_extent :: int where "reservation_extent = 67108864"

definition read_buffer_size :: int where "read_buffer_size = 64 * 1024"

definition newline :: char where "newline = CHR 0x0A"

definition carriage_return :: char where "carriage_return = CHR 0x0D"

definition err_stage_canceled :: go_error where "err_stage_canceled = stage_error ''IMPORT_STAGE_CANCELED''"

definition err_stage_point_too_large :: go_error where
  "err_stage_point_too_large = stage_error ''IMPORT_STAGE_POINT_TOO_LARGE''"

definition err_stage_write :: go_error where "err_stage_write = stage_error ''IMPORT_STAGE_WRITE_FAILED''"

definition err_stage_read :: go_error where "err_stage_read = stage_error ''IMPORT_STAGE_READ_FAILED''"

definition err_stage_reservation :: go_error where
  "err_stage_reservation = stage_error ''IMPORT_STAGE_RESERVATION_FAILED''"

definition err_stage_settlement :: go_error where
  "err_stage_settlement = stage_error ''IMPORT_STAGE_RESERVATION_SETTLEMENT_FAILED''"

definition err_stage_empty :: go_error where "err_stage_empty = stage_error ''IMPORT_STAGE_EMPTY''"

definition stage_errors :: "string list" where
  "stage_errors =
     [''IMPORT_STAGE_INVALID_REQUEST'', ''IMPORT_STAGE_INVALID_INPUT'', ''IMPORT_STAGE_INVALID_GZIP'',
      ''IMPORT_STAGE_GZIP_LIMIT_EXCEEDED'', ''IMPORT_STAGE_POINT_TOO_LARGE'', ''IMPORT_STAGE_TIMESTAMP_REQUIRED'',
      ''IMPORT_STAGE_NUMERIC_TYPE_REQUIRED'', ''IMPORT_STAGE_RESERVATION_FAILED'',
      ''IMPORT_STAGE_RESERVATION_SETTLEMENT_FAILED'', ''IMPORT_STAGE_WRITE_FAILED'', ''IMPORT_STAGE_READ_FAILED'',
      ''IMPORT_STAGE_CANCELED'', ''IMPORT_STAGE_CSV_MAPPING_REQUIRED'', ''IMPORT_STAGE_CSV_MAPPING_INVALID'',
      ''IMPORT_STAGE_EMPTY'']"

definition is_safe_stage_error :: "go_error \<Rightarrow> bool" where
  "is_safe_stage_error e =
     (case e of Sentinel PkgTransfer code \<Rightarrow> List.member stage_errors code | _ \<Rightarrow> False)"

section \<open>State\<close>

record stage_env =
  env_reserve :: "nat \<Rightarrow> bool"
  env_write :: "nat \<Rightarrow> nat \<Rightarrow> int \<times> bool"
  env_settle :: "int \<Rightarrow> int \<Rightarrow> bool"

record stage =
  st_source :: string
  st_read_fails :: bool
  st_cancel_after :: "nat option"
  st_out :: string
  st_writes :: nat
  st_reserve_calls :: nat
  st_written :: int
  st_reserved :: int
  st_points :: int

definition stage_context_error :: "stage \<Rightarrow> unit result \<times> stage" where
  "stage_context_error s =
     (case st_cancel_after s of
        None \<Rightarrow> (Inr (), s)
      | Some 0 \<Rightarrow> (Inl err_stage_canceled, s)
      | Some (Suc n) \<Rightarrow> (Inr (), s\<lparr>st_cancel_after := Some n\<rparr>))"

definition stage_bind ::
  "(stage \<Rightarrow> 'a result \<times> stage) \<Rightarrow> ('a \<Rightarrow> stage \<Rightarrow> 'b result \<times> stage) \<Rightarrow> stage \<Rightarrow> 'b result \<times> stage" where
  "stage_bind f g s = (case f s of (Inl e, s1) \<Rightarrow> (Inl e, s1) | (Inr a, s1) \<Rightarrow> g a s1)"

definition guard_stage :: "bool \<Rightarrow> go_error \<Rightarrow> stage \<Rightarrow> unit result \<times> stage" where
  "guard_stage b e s = (if b then (Inl e, s) else (Inr (), s))"

lemma stage_bind_Inr [simp]:
  "stage_bind f g s = (Inr b, s2) \<longleftrightarrow> (\<exists>a s1. f s = (Inr a, s1) \<and> g a s1 = (Inr b, s2))"
  by (simp add: stage_bind_def split: prod.splits sum.splits)

lemma guard_stage_Inr [simp]: "guard_stage b e s = (Inr u, s1) \<longleftrightarrow> \<not> b \<and> s1 = s"
  by (auto simp: guard_stage_def)

text \<open>Operations that leave the source alone.\<close>

definition same_source :: "(stage \<Rightarrow> 'a result \<times> stage) \<Rightarrow> bool" where
  "same_source f \<longleftrightarrow> (\<forall>s. st_source (snd (f s)) = st_source s)"

lemma same_source_bind: "same_source f \<Longrightarrow> (\<And>a. same_source (g a)) \<Longrightarrow> same_source (stage_bind f g)"
  unfolding same_source_def by (simp add: stage_bind_def split: prod.splits sum.splits) (metis snd_conv)

lemma same_source_guard: "same_source (guard_stage b e)"
  by (simp add: same_source_def guard_stage_def)

section \<open>The extent writer\<close>

text \<open>The loop that reserves until the payload fits.  \<open>StageImport\<close> passes a positive extent only.\<close>

function reserve_loop :: "stage_env \<Rightarrow> int \<Rightarrow> int \<Rightarrow> stage \<Rightarrow> unit result \<times> stage" where
  "reserve_loop env extent needed s =
     (if needed \<le> st_reserved s \<or> extent \<le> 0 then (Inr (), s)
      else if \<not> env_reserve env (st_reserve_calls s)
        then (Inl err_stage_reservation, s\<lparr>st_reserve_calls := st_reserve_calls s + 1\<rparr>)
      else if st_reserved s > max_int64 - extent
        then (Inl err_stage_reservation, s\<lparr>st_reserve_calls := st_reserve_calls s + 1\<rparr>)
      else reserve_loop env extent needed
        (s\<lparr>st_reserve_calls := st_reserve_calls s + 1, st_reserved := st_reserved s + extent\<rparr>))"
  by pat_completeness auto
termination by (relation "measure (\<lambda>(env, extent, needed, s). nat (needed - st_reserved s))") auto

declare reserve_loop.simps [simp del]

definition destination_write :: "stage_env \<Rightarrow> string \<Rightarrow> stage \<Rightarrow> unit result \<times> stage" where
  "destination_write env payload s =
     (let (n, failed) = env_write env (st_writes s) (length payload); s1 = s\<lparr>st_writes := st_writes s + 1\<rparr> in
      if n < 0 \<or> n > int (length payload) then (Inl err_stage_write, s1)
      else let s2 = s1\<lparr>st_out := st_out s1 @ take (nat n) payload, st_written := st_written s1 + n\<rparr> in
        if failed \<or> n \<noteq> int (length payload) then (Inl err_stage_write, s2) else (Inr (), s2))"

definition reserve_for :: "stage_env \<Rightarrow> int \<Rightarrow> string \<Rightarrow> stage \<Rightarrow> unit result \<times> stage" where
  "reserve_for env extent payload s =
     (if int (length payload) > max_int64 - st_written s then (Inl err_stage_write, s)
      else reserve_loop env extent (st_written s + int (length payload)) s)"

definition extent_write :: "stage_env \<Rightarrow> int \<Rightarrow> string \<Rightarrow> stage \<Rightarrow> unit result \<times> stage" where
  "extent_write env extent payload =
     stage_bind stage_context_error (\<lambda>_.
     stage_bind (reserve_for env extent payload) (\<lambda>_.
     stage_bind stage_context_error (\<lambda>_.
     destination_write env payload)))"

definition count_point :: "stage \<Rightarrow> unit result \<times> stage" where
  "count_point s =
     (if st_points s = max_int64 then (Inl err_stage_invalid_input, s)
      else (Inr (), s\<lparr>st_points := st_points s + 1\<rparr>))"

definition write_point :: "stage_env \<Rightarrow> int \<Rightarrow> string \<Rightarrow> stage \<Rightarrow> unit result \<times> stage" where
  "write_point env extent canonical =
     stage_bind stage_context_error (\<lambda>_.
     stage_bind (guard_stage (int (length canonical) > canonical_point_limit) err_stage_point_too_large) (\<lambda>_.
     stage_bind (extent_write env extent (canonical @ [newline])) (\<lambda>_.
     count_point)))"

section \<open>Records of the source\<close>

datatype slice_end = SliceNewline | SliceFull | SliceEOF | SliceFailed

text \<open>\<open>bufio.Reader.ReadSlice('\n')\<close>: the fragment and how it ended.\<close>

definition read_slice :: "stage \<Rightarrow> string \<times> slice_end \<times> stage" where
  "read_slice s =
     (let src = st_source s; line = takeWhile (\<lambda>c. c \<noteq> newline) src in
      if int (length line) \<ge> read_buffer_size then
        (take (nat read_buffer_size) src, SliceFull, s\<lparr>st_source := drop (nat read_buffer_size) src\<rparr>)
      else case dropWhile (\<lambda>c. c \<noteq> newline) src of
        [] \<Rightarrow> (line, if st_read_fails s then SliceFailed else SliceEOF, s\<lparr>st_source := []\<rparr>)
      | c # rest \<Rightarrow> (line @ [c], SliceNewline, s\<lparr>st_source := rest\<rparr>))"

definition drop_last :: "char \<Rightarrow> string \<Rightarrow> string" where
  "drop_last c s = (if s \<noteq> [] \<and> last s = c then butlast s else s)"

definition trim_stage_line_ending :: "string \<Rightarrow> int \<Rightarrow> string result" where
  "trim_stage_line_ending line maximum =
     (let line = drop_last carriage_return (drop_last newline line) in
      if int (length line) > maximum then Inl err_stage_point_too_large else Inr line)"

definition some_line :: "string result \<Rightarrow> string option result" where
  "some_line r = rbind r (\<lambda>line. Inr (Some line))"

definition source_failure :: go_error where "source_failure = PlainError ''read''"

lemma read_slice_shrinks: "read_slice s = (f, SliceFull, s') \<Longrightarrow> length (st_source s') < length (st_source s)"
proof -
  assume r: "read_slice s = (f, SliceFull, s')"
  have "read_buffer_size \<le> int (length (takeWhile (\<lambda>c. c \<noteq> newline) (st_source s)))"
    and s': "st_source s' = drop (nat read_buffer_size) (st_source s)"
    using r by (auto simp: read_slice_def Let_def split: if_splits list.splits)
  moreover have "length (takeWhile (\<lambda>c. c \<noteq> newline) (st_source s)) \<le> length (st_source s)" by (rule length_takeWhile_le)
  ultimately show ?thesis by (simp add: read_buffer_size_def)
qed

lemma same_source_context: "same_source stage_context_error"
  by (auto simp: same_source_def stage_context_error_def split: option.splits nat.splits)

lemma context_keeps_source: "(r, s1) = stage_context_error s \<Longrightarrow> st_source s1 = st_source s"
  using same_source_context unfolding same_source_def by (metis snd_conv)

text \<open>\<open>Inr None\<close> is \<open>io.EOF\<close>.\<close>

function read_stage_record :: "int \<Rightarrow> string \<Rightarrow> stage \<Rightarrow> string option result \<times> stage" where
  "read_stage_record maximum buffer s =
     (case stage_context_error s of
        (Inl e, s1) \<Rightarrow> (Inl e, s1)
      | (Inr _, s1) \<Rightarrow>
          (case read_slice s1 of (fragment, how, s2) \<Rightarrow>
            if int (length (buffer @ fragment)) > maximum + 2 then (Inl err_stage_point_too_large, s2)
            else (case how of
              SliceNewline \<Rightarrow> (some_line (trim_stage_line_ending (buffer @ fragment) maximum), s2)
            | SliceFull \<Rightarrow> read_stage_record maximum (buffer @ fragment) s2
            | SliceEOF \<Rightarrow>
                if buffer @ fragment = [] then (Inr None, s2)
                else (some_line (trim_stage_line_ending (buffer @ fragment) maximum), s2)
            | SliceFailed \<Rightarrow> (Inl source_failure, s2))))"
  by pat_completeness auto
termination
  by (relation "measure (\<lambda>(maximum, buffer, s). length (st_source s))")
    (auto dest!: read_slice_shrinks [OF sym] context_keeps_source)

declare read_stage_record.simps [simp del]

lemma read_slice_length:
  "read_slice s = (f, how, s') \<Longrightarrow> st_source s = f @ st_source s' \<and> (how = SliceNewline \<longrightarrow> f \<noteq> [])"
proof -
  define t d where "t = takeWhile (\<lambda>c. c \<noteq> newline) (st_source s)" and "d = dropWhile (\<lambda>c. c \<noteq> newline) (st_source s)"
  have "t @ d = st_source s" by (simp add: t_def d_def)
  moreover assume "read_slice s = (f, how, s')"
  ultimately show ?thesis
    unfolding read_slice_def Let_def t_def [symmetric] d_def [symmetric] by (cases d) (auto split: if_splits)
qed

lemma read_record_source:
  "read_stage_record maximum buffer s = (Inr (Some line), s') \<Longrightarrow>
     length (st_source s') + (if buffer = [] then 1 else 0) \<le> length (st_source s)"
proof (induction maximum buffer s rule: read_stage_record.induct)
  case (1 maximum buffer s)
  obtain r s1 where c: "stage_context_error s = (r, s1)" by fastforce
  obtain f how s2 where f: "read_slice s1 = (f, how, s2)" by (metis prod_cases3)
  have src: "st_source s1 = st_source s" by (rule context_keeps_source [OF c [symmetric]])
  note sl = read_slice_length [OF f]
  from 1(2) c f obtain u where r: "r = Inr u" "\<not> int (length (buffer @ f)) > maximum + 2"
    by (cases r) (auto simp: read_stage_record.simps [of maximum buffer s] split: if_splits)
  show ?case
  proof (cases how)
    case SliceFull
    have "read_stage_record maximum (buffer @ f) s2 = (Inr (Some line), s')"
      using 1(2) c f r SliceFull by (simp add: read_stage_record.simps [of maximum buffer s])
    from 1(1) [OF c [symmetric] r(1) f [symmetric] refl r(2) SliceFull this] show ?thesis
      using sl src by (cases f) (auto split: if_splits)
  next
    case SliceNewline
    then show ?thesis using 1(2) c f r sl src
      by (cases f) (auto simp: read_stage_record.simps [of maximum buffer s] some_line_def rbind_Inr_iff)
  next
    case SliceEOF
    then show ?thesis using 1(2) c f r sl src
      by (cases f) (auto simp: read_stage_record.simps [of maximum buffer s] some_line_def rbind_Inr_iff split: if_splits)
  next
    case SliceFailed
    then show ?thesis using 1(2) c f r by (simp add: read_stage_record.simps [of maximum buffer s])
  qed
qed

lemma record_shrinks:
  "(Inr (Some line), s1) = read_stage_record maximum [] s \<Longrightarrow> length (st_source s1) < length (st_source s)"
  using read_record_source [of maximum "[]" s line s1] by simp

lemma reserve_loop_source: "st_source (snd (reserve_loop env extent needed s)) = st_source s"
proof (induction env extent needed s rule: reserve_loop.induct)
  case (1 env extent needed s)
  then show ?case by (simp add: reserve_loop.simps [of env extent needed s])
qed

lemma same_source_write: "same_source (write_point env extent canonical)"
proof -
  have "same_source (reserve_for env extent payload)" for payload
    by (simp add: same_source_def reserve_for_def reserve_loop_source)
  moreover have "same_source (destination_write env payload)" for payload
    by (simp add: same_source_def destination_write_def Let_def split: prod.splits)
  moreover have "same_source count_point" by (simp add: same_source_def count_point_def)
  ultimately show ?thesis
    unfolding write_point_def extent_write_def
    by (intro same_source_bind same_source_guard same_source_context)
qed

lemma write_keeps_source: "(r, s2) = write_point env extent canonical s1 \<Longrightarrow> st_source s2 = st_source s1"
  using same_source_write unfolding same_source_def by (metis snd_conv)

section \<open>Line protocol input\<close>

definition skipped_line :: "string \<Rightarrow> bool" where
  "skipped_line line \<longleftrightarrow> line = [] \<or> hd line = CHR ''#''"

definition lp_record_limit :: int where "lp_record_limit = canonical_point_limit * 2"

function process_lp ::
  "stage_env \<Rightarrow> (string \<Rightarrow> (bool \<times> string) option) \<Rightarrow> int \<Rightarrow> stage \<Rightarrow> unit result \<times> stage" where
  "process_lp env float_text extent s =
     (case read_stage_record lp_record_limit [] s of
        (Inl e, s1) \<Rightarrow> (Inl e, s1)
      | (Inr None, s1) \<Rightarrow> (Inr (), s1)
      | (Inr (Some line), s1) \<Rightarrow>
          if skipped_line line then process_lp env float_text extent s1
          else (case parse_canonical_lp_point float_text line of
            Inl e \<Rightarrow> (Inl e, s1)
          | Inr canonical \<Rightarrow>
              (case write_point env extent canonical s1 of
                 (Inl e, s2) \<Rightarrow> (Inl e, s2)
               | (Inr _, s2) \<Rightarrow> process_lp env float_text extent s2)))"
  by pat_completeness auto
termination
  by (relation "measure (\<lambda>(env, float_text, extent, s). length (st_source s))")
    (auto dest!: record_shrinks write_keeps_source)

declare process_lp.simps [simp del]

section \<open>A whole import\<close>

record stage_result =
  sr_source_sha256 :: string
  sr_staging_sha256 :: string
  sr_logical_bytes :: string
  sr_reserved_bytes :: string
  sr_point_count :: string

definition stage_extent :: "int \<Rightarrow> int" where
  "stage_extent unit_bytes =
     (if unit_bytes \<le> 0 \<or> unit_bytes > reservation_extent then reservation_extent else unit_bytes)"

definition mask_stage_error :: "unit result \<times> stage \<Rightarrow> unit result \<times> stage" where
  "mask_stage_error r =
     (case r of
        (Inl e, s) \<Rightarrow> (Inl (if is_safe_stage_error e then e else err_stage_read), s)
      | (Inr u, s) \<Rightarrow> (Inr u, s))"

text \<open>\<open>StageImport\<close> for one format; \<open>process\<close> is the processor its switch selects.\<close>

definition stage_import ::
  "(string \<Rightarrow> string) \<Rightarrow> stage_env \<Rightarrow> (int \<Rightarrow> stage \<Rightarrow> unit result \<times> stage) \<Rightarrow> int \<Rightarrow> stage \<Rightarrow> stage_result result \<times> stage" where
  "stage_import sha256 env process unit_bytes s0 =
     (case stage_context_error s0 of
        (Inl e, s) \<Rightarrow> (Inl e, s)
      | (Inr _, s) \<Rightarrow>
          (case process (stage_extent unit_bytes) (s\<lparr>st_written := 0, st_reserved := 0, st_points := 0\<rparr>) of
             (Inl e, s) \<Rightarrow> (Inl e, s)
           | (Inr _, s) \<Rightarrow>
               if st_points s = 0 then (Inl err_stage_empty, s)
               else (case stage_context_error s of
                 (Inl e, s) \<Rightarrow> (Inl e, s)
               | (Inr _, s) \<Rightarrow>
                   if \<not> env_settle env (st_reserved s) (st_written s) then (Inl err_stage_settlement, s)
                   else (Inr \<lparr>sr_source_sha256 = sha256 (st_source s0), sr_staging_sha256 = sha256 (st_out s),
                     sr_logical_bytes = format_int (st_written s), sr_reserved_bytes = format_int (st_reserved s),
                     sr_point_count = format_int (st_points s)\<rparr>, s))))"

definition stage_import_lp ::
  "(string \<Rightarrow> string) \<Rightarrow> stage_env \<Rightarrow> (string \<Rightarrow> (bool \<times> string) option) \<Rightarrow> int \<Rightarrow> stage \<Rightarrow> stage_result result \<times> stage" where
  "stage_import_lp sha256 env float_text unit_bytes s =
     stage_import sha256 env (\<lambda>extent s. mask_stage_error (process_lp env float_text extent s)) unit_bytes s"

section \<open>What a successful write leaves\<close>

definition file_of :: "string list \<Rightarrow> string" where
  "file_of lines = concat (map (\<lambda>l. l @ [newline]) lines)"

lemma file_of_simps [simp]:
  "file_of [] = []" "file_of (l # ls) = l @ newline # file_of ls" "file_of (ls @ [l]) = file_of ls @ l @ [newline]"
  by (simp_all add: file_of_def)

definition stage_inv :: "int \<Rightarrow> stage \<Rightarrow> bool" where
  "stage_inv extent s \<longleftrightarrow>
     st_written s = int (length (st_out s)) \<and> st_reserved s = int (st_reserve_calls s) * extent \<and>
     st_written s \<le> st_reserved s \<and> st_reserved s < st_written s + extent \<and> st_reserved s \<le> max_int64"

lemma reserve_loop_ok:
  "reserve_loop env extent needed s = (Inr u, s') \<Longrightarrow> 0 < extent \<Longrightarrow>
     (\<exists>k. s' = s\<lparr>st_reserve_calls := st_reserve_calls s + k, st_reserved := st_reserved s + int k * extent\<rparr>) \<and>
     needed \<le> st_reserved s' \<and> (st_reserved s' = st_reserved s \<or> st_reserved s' < needed + extent \<and> st_reserved s' \<le> max_int64)"
proof (induction env extent needed s rule: reserve_loop.induct)
  case (1 env extent needed s)
  show ?case
  proof (cases "needed \<le> st_reserved s")
    case True
    with 1(2) have "s' = s" by (simp add: reserve_loop.simps [of env extent needed s])
    with True show ?thesis by (auto intro!: exI [of _ 0])
  next
    case False
    define s1 where "s1 = s\<lparr>st_reserve_calls := st_reserve_calls s + 1, st_reserved := st_reserved s + extent\<rparr>"
    from False 1(2,3) have g: "env_reserve env (st_reserve_calls s)" "\<not> st_reserved s > max_int64 - extent"
      "reserve_loop env extent needed s1 = (Inr u, s')"
      by (auto simp: reserve_loop.simps [of env extent needed s] s1_def split: if_splits)
    have "\<not> (needed \<le> st_reserved s \<or> extent \<le> 0)" using False 1(3) by simp
    from 1(1) [OF this, folded s1_def, OF _ g(2,3) 1(3)] g(1) obtain k
      where k: "s' = s1\<lparr>st_reserve_calls := st_reserve_calls s1 + k, st_reserved := st_reserved s1 + int k * extent\<rparr>"
        and r: "needed \<le> st_reserved s'" "st_reserved s' = st_reserved s1 \<or> st_reserved s' < needed + extent \<and> st_reserved s' \<le> max_int64"
      by blast
    have "s' = s\<lparr>st_reserve_calls := st_reserve_calls s + Suc k, st_reserved := st_reserved s + int (Suc k) * extent\<rparr>"
      using k by (simp add: s1_def algebra_simps)
    moreover have "st_reserved s' < needed + extent \<and> st_reserved s' \<le> max_int64"
      using r False g(2) by (auto simp: s1_def)
    ultimately show ?thesis using r(1) by blast
  qed
qed

lemma context_ok: "stage_context_error s = (Inr u, s') \<Longrightarrow> \<exists>c. s' = s\<lparr>st_cancel_after := c\<rparr>"
  by (auto simp: stage_context_error_def split: option.splits nat.splits intro: exI [of _ None])

lemma destination_ok:
  "destination_write env payload s = (Inr u, s') \<Longrightarrow>
     s' = s\<lparr>st_writes := st_writes s + 1, st_out := st_out s @ payload, st_written := st_written s + int (length payload)\<rparr>"
  by (auto simp: destination_write_def Let_def split: prod.splits if_splits)

lemma write_point_ok:
  assumes "write_point env extent canonical s = (Inr u, s')" and "0 < extent"
  obtains c k where
    "s' = s\<lparr>st_cancel_after := c, st_reserve_calls := st_reserve_calls s + k, st_reserved := st_reserved s + int k * extent,
       st_writes := st_writes s + 1, st_out := st_out s @ canonical @ [newline],
       st_written := st_written s + int (length canonical) + 1, st_points := st_points s + 1\<rparr>"
    "int (length canonical) \<le> canonical_point_limit" "st_written s' \<le> st_reserved s'"
    "st_reserved s' = st_reserved s \<or> st_reserved s' < st_written s' + extent \<and> st_reserved s' \<le> max_int64"
proof -
  from assms(1) obtain s1 s2 s3 s4 s5 where step: "stage_context_error s = (Inr (), s1)" "int (length canonical) \<le> canonical_point_limit"
    "stage_context_error s1 = (Inr (), s2)" "reserve_for env extent (canonical @ [newline]) s2 = (Inr (), s3)"
    "stage_context_error s3 = (Inr (), s4)" "destination_write env (canonical @ [newline]) s4 = (Inr (), s5)"
    "count_point s5 = (Inr u, s')"
    unfolding write_point_def extent_write_def by auto
  obtain c1 c2 c4 where c: "s1 = s\<lparr>st_cancel_after := c1\<rparr>" "s2 = s1\<lparr>st_cancel_after := c2\<rparr>" "s4 = s3\<lparr>st_cancel_after := c4\<rparr>"
    using context_ok [OF step(1)] context_ok [OF step(3)] context_ok [OF step(5)] by blast
  have "reserve_loop env extent (st_written s2 + int (length (canonical @ [newline]))) s2 = (Inr (), s3)"
    using step(4) by (auto simp: reserve_for_def split: if_splits)
  from reserve_loop_ok [OF this assms(2)] obtain k
    where k: "s3 = s2\<lparr>st_reserve_calls := st_reserve_calls s2 + k, st_reserved := st_reserved s2 + int k * extent\<rparr>"
      and r: "st_written s2 + int (length (canonical @ [newline])) \<le> st_reserved s3"
        "st_reserved s3 = st_reserved s2 \<or> st_reserved s3 < st_written s2 + int (length (canonical @ [newline])) + extent \<and> st_reserved s3 \<le> max_int64"
    by blast
  have s': "s' = s5\<lparr>st_points := st_points s5 + 1\<rparr>" using step(7) by (auto simp: count_point_def split: if_splits)
  note d = destination_ok [OF step(6)]
  show thesis
    by (rule that [where c = c4 and k = k]) (use step(2) c k r s' d in \<open>auto simp: algebra_simps\<close>)
qed

lemma write_point_inv:
  assumes "write_point env extent canonical s = (Inr u, s')" and "0 < extent" and "stage_inv extent s"
  shows "stage_inv extent s'"
  using assms(1,2) by (rule write_point_ok) (use assms(3) in \<open>auto simp: stage_inv_def algebra_simps\<close>)

lemma write_point_out:
  assumes "write_point env extent canonical s = (Inr u, s')" and "0 < extent"
  shows "st_out s' = st_out s @ canonical @ [newline]" "st_points s' = st_points s + 1" "st_source s' = st_source s"
    "int (length canonical) \<le> canonical_point_limit"
  using assms by (rule write_point_ok; simp)+

section \<open>The records of a source\<close>

text \<open>What \<open>readStageRecord\<close> hands out of a source, one after the other.\<close>

function records :: "string \<Rightarrow> string list" where
  "records src =
     (if src = [] then []
      else drop_last carriage_return (takeWhile (\<lambda>c. c \<noteq> newline) src) # records (tl (dropWhile (\<lambda>c. c \<noteq> newline) src)))"
  by pat_completeness auto
termination
proof (relation "measure length", goal_cases)
  case (2 src)
  have "length (dropWhile (\<lambda>c. c \<noteq> newline) src) \<le> length src" by (rule length_dropWhile_le)
  with 2 show ?case by (cases src) auto
qed simp

declare records.simps [simp del]

lemma drop_last_newline: "newline \<notin> set s \<Longrightarrow> drop_last newline s = s" "drop_last newline (s @ [newline]) = s"
  using last_in_set by (fastforce simp: drop_last_def)+

lemma read_slice_full:
  assumes "read_slice s = (f, SliceFull, s')"
  defines "n \<equiv> nat read_buffer_size"
  shows "n \<le> length (takeWhile (\<lambda>c. c \<noteq> newline) (st_source s))" "f = take n (st_source s)"
    "s' = s\<lparr>st_source := drop n (st_source s)\<rparr>"
  using assms by (auto simp: read_slice_def Let_def read_buffer_size_def split: if_splits list.splits)

lemma read_slice_other:
  assumes "read_slice s = (f, how, s')" and "how \<noteq> SliceFull"
  defines "t \<equiv> takeWhile (\<lambda>c. c \<noteq> newline) (st_source s)" and "d \<equiv> dropWhile (\<lambda>c. c \<noteq> newline) (st_source s)"
  shows "d = [] \<and> f = t \<and> how \<noteq> SliceNewline \<and> s' = s\<lparr>st_source := tl d\<rparr> \<or>
     d \<noteq> [] \<and> f = t @ [newline] \<and> how = SliceNewline \<and> s' = s\<lparr>st_source := tl d\<rparr>"
proof -
  have "d \<noteq> [] \<Longrightarrow> hd d = newline" using hd_dropWhile [of "\<lambda>c. c \<noteq> newline" "st_source s"] by (simp add: d_def)
  then show ?thesis
    using assms(1,2) unfolding read_slice_def Let_def t_def [symmetric] d_def [symmetric]
    by (cases d) (auto split: if_splits)
qed

lemma read_record_spec:
  "read_stage_record maximum buffer s = (Inr r, s') \<Longrightarrow> newline \<notin> set buffer \<Longrightarrow>
     (\<exists>c. s' = s\<lparr>st_source := tl (dropWhile (\<lambda>c. c \<noteq> newline) (st_source s)), st_cancel_after := c\<rparr>) \<and>
     (case r of None \<Rightarrow> buffer @ st_source s = []
      | Some line \<Rightarrow> buffer @ st_source s \<noteq> [] \<and>
          line = drop_last carriage_return (buffer @ takeWhile (\<lambda>c. c \<noteq> newline) (st_source s)))"
proof (induction maximum buffer s rule: read_stage_record.induct)
  case (1 maximum buffer s)
  obtain r' s1 where c: "stage_context_error s = (r', s1)" by fastforce
  obtain f how s2 where f: "read_slice s1 = (f, how, s2)" by (metis prod_cases3)
  from 1(2) c f obtain u where u: "r' = Inr u" "\<not> int (length (buffer @ f)) > maximum + 2"
    by (cases r') (auto simp: read_stage_record.simps [of maximum buffer s] split: if_splits)
  obtain x where s1: "s1 = s\<lparr>st_cancel_after := x\<rparr>" using context_ok c u by blast
  define t d where "t = takeWhile (\<lambda>c. c \<noteq> newline) (st_source s)" and "d = dropWhile (\<lambda>c. c \<noteq> newline) (st_source s)"
  have td: "st_source s = t @ d" "newline \<notin> set t" by (auto simp: t_def d_def dest: set_takeWhileD)
  show ?case
  proof (cases "how = SliceFull")
    case True
    define n where "n = nat read_buffer_size"
    note full = read_slice_full [OF f [unfolded True], folded n_def]
    have n: "n \<le> length t" "f = take n t" "st_source s2 = drop n t @ d"
    proof -
      show len: "n \<le> length t" using full(1) unfolding s1 t_def by simp
      have "st_source s1 = t @ d" using td(1) by (simp add: s1)
      then show "f = take n t" "st_source s2 = drop n t @ d" using full(2,3) len by simp_all
    qed
    have no: "newline \<notin> set (drop n t)" "newline \<notin> set f" using td(2) n(2) by (auto dest: in_set_dropD in_set_takeD)
    have "takeWhile (\<lambda>c. c \<noteq> newline) d = []" "dropWhile (\<lambda>c. c \<noteq> newline) d = d"
      using hd_dropWhile [of "\<lambda>c. c \<noteq> newline" "st_source s"] unfolding d_def [symmetric] by (cases d; simp)+
    then have tw: "takeWhile (\<lambda>c. c \<noteq> newline) (st_source s2) = drop n t" "dropWhile (\<lambda>c. c \<noteq> newline) (st_source s2) = d"
      using no(1) n(3) by (simp_all add: takeWhile_append2 dropWhile_append2 takeWhile_append dropWhile_append)
    have "read_stage_record maximum (buffer @ f) s2 = (Inr r, s')"
      using 1(2) c f u True by (simp add: read_stage_record.simps [of maximum buffer s])
    moreover have "newline \<notin> set (buffer @ f)" using 1(3) no(2) by simp
    ultimately have "\<exists>c. s' = s2\<lparr>st_source := tl d, st_cancel_after := c\<rparr>"
      "case r of None \<Rightarrow> (buffer @ f) @ st_source s2 = []
       | Some line \<Rightarrow> (buffer @ f) @ st_source s2 \<noteq> [] \<and> line = drop_last carriage_return ((buffer @ f) @ drop n t)"
      using 1(1) [OF c [symmetric] u(1) f [symmetric] refl u(2) True, unfolded tw] by blast+
    moreover have "(buffer @ f) @ st_source s2 = buffer @ st_source s" "(buffer @ f) @ drop n t = buffer @ t"
      using n td(1) by simp_all
    moreover have "\<exists>c. s' = s\<lparr>st_source := tl d, st_cancel_after := c\<rparr>" if "\<exists>c. s' = s2\<lparr>st_source := tl d, st_cancel_after := c\<rparr>"
      using that full(3) by (auto simp: s1)
    ultimately show ?thesis unfolding t_def [symmetric] d_def [symmetric] by (cases r) auto
  next
    case False
    have "st_source s1 = st_source s" by (simp add: s1)
    note other = read_slice_other [OF f False, unfolded this, folded t_def d_def]
    then have "s2 = s\<lparr>st_source := tl d, st_cancel_after := x\<rparr>" by (auto simp: s1)
    moreover have "s' = s2"
      using 1(2) c f u False by (cases how) (auto simp: read_stage_record.simps [of maximum buffer s] split: if_splits)
    ultimately have "\<exists>c. s' = s\<lparr>st_source := tl d, st_cancel_after := c\<rparr>" by blast
    moreover have "case r of None \<Rightarrow> buffer @ st_source s = []
      | Some line \<Rightarrow> buffer @ st_source s \<noteq> [] \<and> line = drop_last carriage_return (buffer @ t)"
      using 1(2) c f u False other td 1(3)
      by (cases how) (auto simp: read_stage_record.simps [of maximum buffer s] trim_stage_line_ending_def Let_def
          some_line_def rbind_Inr_iff drop_last_newline append_assoc [symmetric] simp del: append_assoc split: if_splits)
    ultimately show ?thesis unfolding t_def [symmetric] d_def [symmetric] by blast
  qed
qed

lemma process_lp_run:
  "process_lp env float_text extent s = (Inr u, s') \<Longrightarrow> 0 < extent \<Longrightarrow>
     (\<exists>lines. map (parse_canonical_lp_point float_text) (filter (\<lambda>l. \<not> skipped_line l) (records (st_source s))) = map Inr lines \<and>
        (\<forall>l\<in>set lines. int (length l) \<le> canonical_point_limit) \<and>
        st_out s' = st_out s @ file_of lines \<and> st_points s' = st_points s + int (length lines)) \<and>
     (stage_inv extent s \<longrightarrow> stage_inv extent s')"
proof (induction env float_text extent s rule: process_lp.induct)
  case (1 env float_text extent s)
  obtain r s1 where r: "read_stage_record lp_record_limit [] s = (r, s1)" by fastforce
  from 1(3) r obtain x where x: "r = Inr x" by (cases r) (auto simp: process_lp.simps [of env float_text extent s])
  note sp = read_record_spec [OF r [unfolded x], simplified]
  have s1: "st_out s1 = st_out s" "st_points s1 = st_points s" "stage_inv extent s \<longrightarrow> stage_inv extent s1"
    "st_source s1 = tl (dropWhile (\<lambda>c. c \<noteq> newline) (st_source s))"
    using sp by (auto simp: stage_inv_def)
  show ?case
  proof (cases x)
    case None
    with 1(3) r x sp s1 show ?thesis
      by (simp add: process_lp.simps [of env float_text extent s] records.simps [of "[]"])
  next
    case (Some line)
    then have rec: "records (st_source s) = line # records (st_source s1)"
      using sp s1(4) by (simp add: records.simps [of "st_source s"])
    show ?thesis
    proof (cases "skipped_line line")
      case True
      with 1(3) r x Some have "process_lp env float_text extent s1 = (Inr u, s')"
        by (simp add: process_lp.simps [of env float_text extent s])
      from 1(1) [OF r [symmetric] x Some True this 1(4)] s1 True show ?thesis by (simp add: rec)
    next
      case False
      with 1(3) r x Some obtain c w s2 where p: "parse_canonical_lp_point float_text line = Inr c"
        "write_point env extent c s1 = (Inr w, s2)" "process_lp env float_text extent s2 = (Inr u, s')"
        by (auto simp: process_lp.simps [of env float_text extent s] split: sum.splits prod.splits)
      note w = write_point_out [OF p(2) 1(4)] write_point_inv [OF p(2) 1(4)]
      from 1(2) [OF r [symmetric] x Some False p(1) p(2) [symmetric] refl p(3) 1(4)] obtain lines
        where l: "map (parse_canonical_lp_point float_text) (filter (\<lambda>l. \<not> skipped_line l) (records (st_source s2))) = map Inr lines"
          "\<forall>l\<in>set lines. int (length l) \<le> canonical_point_limit" "st_out s' = st_out s2 @ file_of lines"
          "st_points s' = st_points s2 + int (length lines)" "stage_inv extent s2 \<longrightarrow> stage_inv extent s'" by blast
      have "map (parse_canonical_lp_point float_text) (filter (\<lambda>l. \<not> skipped_line l) (records (st_source s))) = map Inr (c # lines)"
        using l(1) w(3) p(1) False by (simp add: rec)
      moreover have "st_out s' = st_out s @ file_of (c # lines)" "st_points s' = st_points s + int (length (c # lines))"
        using l(3,4) w(1,2) s1(1,2) by simp_all
      moreover have "\<forall>l\<in>set (c # lines). int (length l) \<le> canonical_point_limit" using l(2) w(4) by simp
      ultimately show ?thesis using l(5) w(5) s1(3) by blast
    qed
  qed
qed

section \<open>Canonical files are staged unchanged\<close>

definition smooth_env :: "stage_env \<Rightarrow> bool" where
  "smooth_env env \<longleftrightarrow> (\<forall>n. env_reserve env n) \<and> (\<forall>n k. env_write env n k = (int k, False)) \<and> (\<forall>r w. env_settle env r w)"

lemma context_calm: "st_cancel_after s = None \<Longrightarrow> stage_context_error s = (Inr (), s)"
  by (simp add: stage_context_error_def)

lemma read_slice_line:
  assumes "st_source s = l @ newline # rest" and "newline \<notin> set l"
  shows "read_slice s =
    (if int (length l) \<ge> read_buffer_size
     then (take (nat read_buffer_size) l, SliceFull, s\<lparr>st_source := drop (nat read_buffer_size) l @ newline # rest\<rparr>)
     else (l @ [newline], SliceNewline, s\<lparr>st_source := rest\<rparr>))"
proof -
  have "takeWhile (\<lambda>c. c \<noteq> newline) (l @ newline # rest) = l" "dropWhile (\<lambda>c. c \<noteq> newline) (l @ newline # rest) = newline # rest"
    using assms(2) by (induction l) auto
  then show ?thesis using assms(1) by (simp add: read_slice_def Let_def)
qed

lemma trim_line:
  "l = [] \<or> last l \<noteq> carriage_return \<Longrightarrow> int (length l) \<le> maximum \<Longrightarrow>
     some_line (trim_stage_line_ending (l @ [newline]) maximum) = Inr (Some l)"
  by (auto simp: trim_stage_line_ending_def drop_last_def some_line_def)

lemma read_record_line:
  "st_cancel_after s = None \<Longrightarrow> st_source s = l @ newline # rest \<Longrightarrow> newline \<notin> set l \<Longrightarrow>
     buffer @ l = [] \<or> last (buffer @ l) \<noteq> carriage_return \<Longrightarrow> int (length (buffer @ l)) \<le> maximum \<Longrightarrow>
     read_stage_record maximum buffer s = (Inr (Some (buffer @ l)), s\<lparr>st_source := rest\<rparr>)"
proof (induction "length l" arbitrary: buffer l s rule: less_induct)
  case less
  note step = read_stage_record.simps [of maximum buffer s] context_calm [OF less(2)] read_slice_line [OF less(3,4)]
  show ?case
  proof (cases "int (length l) \<ge> read_buffer_size")
    case True
    define n where "n = nat read_buffer_size"
    have n: "n \<le> length l" "0 < n" using True by (simp_all add: n_def read_buffer_size_def)
    have "newline \<notin> set (drop n l)" using less(4) by (meson in_set_dropD)
    moreover have "(buffer @ take n l) @ drop n l = buffer @ l" by simp
    ultimately have IH: "read_stage_record maximum (buffer @ take n l) (s\<lparr>st_source := drop n l @ newline # rest\<rparr>) =
        (Inr (Some (buffer @ l)), s\<lparr>st_source := rest\<rparr>)"
      using less(1) [of "drop n l" "s\<lparr>st_source := drop n l @ newline # rest\<rparr>" "buffer @ take n l"] less(2,5,6) n by simp
    have "\<not> int (length (buffer @ take n l)) > maximum + 2" using less(6) n by simp
    with IH True show ?thesis by (simp add: step n_def)
  next
    case False
    then show ?thesis using less(5,6) trim_line [of "buffer @ l" maximum] by (simp add: step)
  qed
qed

lemma read_record_end:
  "st_cancel_after s = None \<Longrightarrow> \<not> st_read_fails s \<Longrightarrow> st_source s = [] \<Longrightarrow> 0 \<le> maximum \<Longrightarrow>
     read_stage_record maximum [] s = (Inr None, s\<lparr>st_source := []\<rparr>)"
  by (simp add: read_stage_record.simps context_calm read_slice_def Let_def read_buffer_size_def)

lemma reserve_loop_smooth:
  "smooth_env env \<Longrightarrow> needed + extent \<le> max_int64 \<Longrightarrow>
     \<exists>s'. reserve_loop env extent needed s = (Inr (), s') \<and> st_cancel_after s' = st_cancel_after s \<and> st_points s' = st_points s"
proof (induction env extent needed s rule: reserve_loop.induct)
  case (1 env extent needed s)
  then show ?case
    by (cases "needed \<le> st_reserved s \<or> extent \<le> 0") (auto simp: reserve_loop.simps [of env extent needed s] smooth_env_def)
qed

lemma write_point_smooth:
  assumes "smooth_env env" and "st_cancel_after s = None" and "int (length canonical) \<le> canonical_point_limit"
    and "st_written s + int (length canonical) + 1 + extent \<le> max_int64" and "0 < extent" and "st_points s < max_int64"
  shows "\<exists>s'. write_point env extent canonical s = (Inr (), s') \<and> st_cancel_after s' = None"
proof -
  have "st_written s + int (length (canonical @ [newline])) + extent \<le> max_int64" using assms(4) by simp
  from reserve_loop_smooth [OF assms(1) this] obtain s1
    where s1: "reserve_loop env extent (st_written s + int (length (canonical @ [newline]))) s = (Inr (), s1)"
      "st_cancel_after s1 = None" "st_points s1 = st_points s" using assms(2) by metis
  have r: "reserve_for env extent (canonical @ [newline]) s = (Inr (), s1)"
    using s1(1) assms(4,5) by (simp add: reserve_for_def)
  have d: "destination_write env p s1 = (Inr (), s1\<lparr>st_writes := st_writes s1 + 1, st_out := st_out s1 @ p, st_written := st_written s1 + int (length p)\<rparr>)" for p
    using assms(1) by (simp add: destination_write_def smooth_env_def Let_def)
  show ?thesis
    using assms(3,6) s1
    by (simp add: write_point_def extent_write_def stage_bind_def guard_stage_def context_calm [OF assms(2)] r
        context_calm [OF s1(2)] d count_point_def)
qed

lemma process_lp_file:
  assumes "smooth_env env" and "0 < extent" and "\<And>l. l \<in> set ls \<Longrightarrow> parse_canonical_lp_point float_text l = Inr l \<and>
      hd l \<noteq> CHR ''#'' \<and> int (length l) \<le> canonical_point_limit"
  shows "st_cancel_after s = None \<Longrightarrow> \<not> st_read_fails s \<Longrightarrow> st_source s = file_of ls \<Longrightarrow>
     st_written s + int (length (file_of ls)) + extent \<le> max_int64 \<Longrightarrow> st_points s + int (length ls) \<le> max_int64 \<Longrightarrow>
     \<exists>s'. process_lp env float_text extent s = (Inr (), s') \<and> st_out s' = st_out s @ file_of ls \<and>
       st_points s' = st_points s + int (length ls) \<and> st_cancel_after s' = None"
  using assms(3)
proof (induction ls arbitrary: s)
  case Nil
  then show ?case
    using read_record_end [of s lp_record_limit]
    by (simp add: process_lp.simps [of env float_text extent s] lp_record_limit_def canonical_point_limit_def)
next
  case (Cons l ls)
  have l: "parse_canonical_lp_point float_text l = Inr l" "hd l \<noteq> CHR ''#''" "int (length l) \<le> canonical_point_limit"
    using Cons.prems(6) by simp_all
  then have ne: "l \<noteq> []" "newline \<notin> set l" "carriage_return \<notin> set l"
    by (auto simp: parse_canonical_lp_point_def contains_any_def list_ex_iff control_bytes_def newline_def carriage_return_def split: if_splits)
  define s1 where "s1 = s\<lparr>st_source := file_of ls\<rparr>"
  have cr: "last l \<noteq> carriage_return" using ne last_in_set by metis
  have r: "read_stage_record lp_record_limit [] s = (Inr (Some l), s1)"
    using read_record_line [of s l "file_of ls" "[]" lp_record_limit] Cons.prems(1,3) ne l(3) cr
    by (simp add: s1_def lp_record_limit_def)
  have "\<exists>s2. write_point env extent l s1 = (Inr (), s2) \<and> st_cancel_after s2 = None"
    using Cons.prems(1,4,5) l(3) by (intro write_point_smooth [OF assms(1)] assms(2)) (auto simp: s1_def)
  then obtain s2 where w: "write_point env extent l s1 = (Inr (), s2)" "st_cancel_after s2 = None" by blast
  from write_point_ok [OF w(1) assms(2)] obtain c k where s2: "s2 = s1\<lparr>st_cancel_after := c, st_reserve_calls := st_reserve_calls s1 + k,
      st_reserved := st_reserved s1 + int k * extent, st_writes := st_writes s1 + 1, st_out := st_out s1 @ l @ [newline],
      st_written := st_written s1 + int (length l) + 1, st_points := st_points s1 + 1\<rparr>" by metis
  have "\<exists>s'. process_lp env float_text extent s2 = (Inr (), s') \<and> st_out s' = st_out s2 @ file_of ls \<and>
      st_points s' = st_points s2 + int (length ls) \<and> st_cancel_after s' = None"
    by (rule Cons.IH) (use w(2) Cons.prems s2 in \<open>auto simp: s1_def\<close>)
  moreover have "process_lp env float_text extent s = process_lp env float_text extent s2"
    using r w(1) l ne by (simp add: process_lp.simps [of env float_text extent s] skipped_line_def)
  ultimately show ?case by (auto simp: s2 s1_def)
qed

end
