(* ===== verification/Staging_Laws.thy ===== *)
theory Staging_Laws
  imports Staging
begin

text \<open>
  What staging and the line-protocol export promise together: a staged file is canonical and fits its
  reservation; a canonical point stays as it is; the exporter writes what the importer would print, and a
  file of exported points is staged byte for byte.  The last section holds the points for which the two
  sides do not fit together.
\<close>

section \<open>The exporter's line and the importer's\<close>

text \<open>C18.  The two encoders are one: for a clean point \<open>EncodeLPPoint\<close> returns what
  \<open>encodeCanonicalStagePoint\<close> returns for the texts of its fields, or the error of a field.\<close>

theorem encoders_agree:
  assumes "float_text_ok float_text" and "clean_point float_text m tags vals ts"
    and "vals \<noteq> []" and "sc_kind ts = ScalarTimestampNS"
  shows "encode_lp_point float_text m tags vals ts =
    rbind (field_values float_text (sorted_entries vals)) (\<lambda>fs. encode_canonical_stage_point m tags fs (sc_decimal_text ts))"
proof -
  have e: "exportable_point float_text m tags vals ts" using assms(2) by (simp add: clean_point_def)
  show ?thesis
  proof (cases "field_values float_text (sorted_entries vals)")
    case (Inr fs)
    have "encode_canonical_stage_point m tags fs x = encode_canonical_stage_point m (sorted_entries tags) fs x" for x
      using exportable_parts(3) [OF e]
      by (simp add: encode_canonical_stage_point_def sorted_entries_id list_ex_iff flip: set_map)
    with encode_point_ok [OF field_values_point [OF assms Inr]] Inr show ?thesis
      by (simp add: encode_clean [OF e assms(3,4)])
  qed (simp add: encode_clean [OF e assms(3,4)])
qed

section \<open>The staged file\<close>

lemma context_frame: "stage_context_error s = (Inr u, s') \<Longrightarrow>
    st_out s' = st_out s \<and> st_source s' = st_source s \<and> st_points s' = st_points s \<and> st_written s' = st_written s \<and>
    st_reserved s' = st_reserved s \<and> st_reserve_calls s' = st_reserve_calls s"
  using context_ok by fastforce

lemma stage_extent_pos: "0 < stage_extent unit_bytes"
  by (simp add: stage_extent_def reservation_extent_def)

text \<open>The stages of a successful import.\<close>

lemma stage_import_lp_run:
  assumes "stage_import_lp sha256 env float_text unit_bytes s = (Inr r, s')" and "st_out s = []" and "st_reserve_calls s = 0"
  obtains lines where
    "map (parse_canonical_lp_point float_text) (filter (\<lambda>l. \<not> skipped_line l) (records (st_source s))) = map Inr lines"
    "\<forall>l\<in>set lines. int (length l) \<le> canonical_point_limit" "st_out s' = file_of lines" "lines \<noteq> []"
    "stage_inv (stage_extent unit_bytes) s'" "env_settle env (st_reserved s') (st_written s')"
    "r = \<lparr>sr_source_sha256 = sha256 (st_source s), sr_staging_sha256 = sha256 (st_out s'),
       sr_logical_bytes = format_int (st_written s'), sr_reserved_bytes = format_int (st_reserved s'),
       sr_point_count = format_int (int (length lines))\<rparr>"
proof -
  obtain s1 s2 where run: "stage_context_error s = (Inr (), s1)"
    "process_lp env float_text (stage_extent unit_bytes) (s1\<lparr>st_written := 0, st_reserved := 0, st_points := 0\<rparr>) = (Inr (), s2)"
    "st_points s2 \<noteq> 0" "stage_context_error s2 = (Inr (), s')" "env_settle env (st_reserved s') (st_written s')"
    "r = \<lparr>sr_source_sha256 = sha256 (st_source s), sr_staging_sha256 = sha256 (st_out s'),
       sr_logical_bytes = format_int (st_written s'), sr_reserved_bytes = format_int (st_reserved s'),
       sr_point_count = format_int (st_points s')\<rparr>"
  proof -
    obtain x s1 where a: "stage_context_error s = (x, s1)" by fastforce
    define s0 where "s0 = s1\<lparr>st_written := 0, st_reserved := 0, st_points := 0\<rparr>"
    obtain y s2 where b: "process_lp env float_text (stage_extent unit_bytes) s0 = (y, s2)" by fastforce
    obtain z s3 where c: "stage_context_error s2 = (z, s3)" by fastforce
    note run = assms(1) [unfolded stage_import_lp_def stage_import_def a mask_stage_error_def, simplified, folded s0_def]
    have x: "x = Inr ()" using run by (cases x) (simp_all add: unit_eq)
    have y: "y = Inr ()" using run x b by (cases y) (simp_all add: unit_eq)
    have p: "st_points s2 \<noteq> 0" using run x b y by (cases "st_points s2 = 0") simp_all
    have z: "z = Inr ()" using run x b y p c by (cases z) (simp_all add: unit_eq)
    have "env_settle env (st_reserved s3) (st_written s3)"
      using run x b y p c z by (cases "env_settle env (st_reserved s3) (st_written s3)") simp_all
    with run x b y p c z have r: "s3 = s'"
      "\<lparr>sr_source_sha256 = sha256 (st_source s), sr_staging_sha256 = sha256 (st_out s3),
         sr_logical_bytes = format_int (st_written s3), sr_reserved_bytes = format_int (st_reserved s3),
         sr_point_count = format_int (st_points s3)\<rparr> = r" by auto
    show thesis
      by (rule that [of s1 s2])
        (use a b c x y z p \<open>env_settle env (st_reserved s3) (st_written s3)\<close> r(1) in \<open>simp_all add: s0_def r(2) [symmetric]\<close>)
  qed
  note f1 = context_frame [OF run(1)] and f2 = context_frame [OF run(4)]
  have "stage_inv (stage_extent unit_bytes) (s1\<lparr>st_written := 0, st_reserved := 0, st_points := 0\<rparr>)"
    using f1 assms(2,3) stage_extent_pos by (simp add: stage_inv_def max_int64_def)
  with process_lp_run [OF run(2) stage_extent_pos] obtain lines where l:
    "map (parse_canonical_lp_point float_text) (filter (\<lambda>l. \<not> skipped_line l) (records (st_source s))) = map Inr lines"
    "\<forall>l\<in>set lines. int (length l) \<le> canonical_point_limit" "st_out s2 = file_of lines" "st_points s2 = int (length lines)"
    "stage_inv (stage_extent unit_bytes) s2"
    using f1 assms(2) by auto
  show thesis
  proof (rule that)
    show "stage_inv (stage_extent unit_bytes) s'" using l(5) f2 by (simp add: stage_inv_def)
  qed (use l f2 run(3,5,6) in auto)
qed

lemma map_Inr_mem: "map f xs = map Inr ys \<Longrightarrow> y \<in> set ys \<Longrightarrow> \<exists>x\<in>set xs. f x = Inr y"
proof -
  assume e: "map f xs = map Inr ys" and "y \<in> set ys"
  then have "Inr y \<in> set (map f xs)" by simp
  then show ?thesis by auto
qed

text \<open>C17.  A successful import of line protocol stages exactly the points of its source: the records of the
  source that are neither blank nor comments, each in canonical form, in order and one per line; every
  staged line parses to itself and is at most 5 MiB long, and the result counts lines and bytes.\<close>

theorem staged_file_is_canonical_source:
  assumes "float_text_ok float_text" and "st_out s = ''''" and "st_reserve_calls s = 0"
    and "stage_import_lp sha256 env float_text unit_bytes s = (Inr r, s')"
  shows "\<exists>lines. map (parse_canonical_lp_point float_text) (filter (\<lambda>l. \<not> skipped_line l) (records (st_source s))) = map Inr lines \<and>
    st_out s' = file_of lines \<and> lines \<noteq> [] \<and>
    (\<forall>l\<in>set lines. parse_canonical_lp_point float_text l = Inr l \<and> int (length l) \<le> canonical_point_limit) \<and>
    sr_point_count r = format_int (int (length lines)) \<and> sr_logical_bytes r = format_int (int (length (st_out s'))) \<and>
    sr_staging_sha256 r = sha256 (st_out s') \<and> sr_source_sha256 r = sha256 (st_source s)"
  using assms(4,2,3)
proof (rule stage_import_lp_run)
  fix lines
  assume l: "map (parse_canonical_lp_point float_text) (filter (\<lambda>l. \<not> skipped_line l) (records (st_source s))) = map Inr lines"
    "\<forall>l\<in>set lines. int (length l) \<le> canonical_point_limit" "st_out s' = file_of lines" "lines \<noteq> []"
    "stage_inv (stage_extent unit_bytes) s'"
    "r = \<lparr>sr_source_sha256 = sha256 (st_source s), sr_staging_sha256 = sha256 (st_out s'),
       sr_logical_bytes = format_int (st_written s'), sr_reserved_bytes = format_int (st_reserved s'),
       sr_point_count = format_int (int (length lines))\<rparr>"
  have "parse_canonical_lp_point float_text x = Inr x" if "x \<in> set lines" for x
    using map_Inr_mem [OF l(1) that] parse_idem [OF assms(1)] by blast
  then show ?thesis using l by (intro exI [of _ lines]) (auto simp: stage_inv_def)
qed

text \<open>The reservation covers the staged file: after a successful import the writer has reserved whole
  extents, no more than one beyond the bytes it wrote and never beyond \<open>int64\<close>, and exactly these two
  numbers were settled.\<close>

theorem staged_file_fits_reservation:
  assumes "st_out s = ''''" and "st_reserve_calls s = 0"
    and "stage_import_lp sha256 env float_text unit_bytes s = (Inr r, s')"
  shows "int (length (st_out s')) \<le> int (st_reserve_calls s') * stage_extent unit_bytes \<and>
    int (st_reserve_calls s') * stage_extent unit_bytes < int (length (st_out s')) + stage_extent unit_bytes \<and>
    int (st_reserve_calls s') * stage_extent unit_bytes \<le> max_int64 \<and>
    sr_reserved_bytes r = format_int (int (st_reserve_calls s') * stage_extent unit_bytes) \<and>
    env_settle env (int (st_reserve_calls s') * stage_extent unit_bytes) (int (length (st_out s')))"
  using assms(3,1,2) by (rule stage_import_lp_run) (auto simp: stage_inv_def)

text \<open>Canonical form is final: what the parser returns for a line, it returns for its own result.\<close>

theorem canonical_point_stable:
  assumes "float_text_ok float_text" and "parse_canonical_lp_point float_text line = Inr c"
  shows "parse_canonical_lp_point float_text c = Inr c"
  by (rule parse_idem [OF assms])

section \<open>Export and import again\<close>

lemma stage_import_file:
  assumes "smooth_env env" and "ls \<noteq> []" and "\<And>l. l \<in> set ls \<Longrightarrow> parse_canonical_lp_point float_text l = Inr l \<and>
      hd l \<noteq> CHR ''#'' \<and> int (length l) \<le> canonical_point_limit"
    and "int (length (file_of ls)) + reservation_extent \<le> max_int64"
    and "st_cancel_after s = None" and "\<not> st_read_fails s" and "st_source s = file_of ls" and "st_out s = []"
  shows "\<exists>r s'. stage_import_lp sha256 env float_text unit_bytes s = (Inr r, s') \<and> st_out s' = file_of ls \<and>
    sr_point_count r = format_int (int (length ls))"
proof -
  have len: "length ls \<le> length (file_of ls)" by (induction ls) auto
  have ext: "stage_extent unit_bytes \<le> reservation_extent" by (simp add: stage_extent_def)
  define s1 where "s1 = s\<lparr>st_written := 0, st_reserved := 0, st_points := 0\<rparr>"
  have "\<exists>s2. process_lp env float_text (stage_extent unit_bytes) s1 = (Inr (), s2) \<and> st_out s2 = st_out s1 @ file_of ls \<and>
      st_points s2 = st_points s1 + int (length ls) \<and> st_cancel_after s2 = None"
    using assms(4-8) len ext stage_extent_pos [of unit_bytes]
    by (intro process_lp_file [OF assms(1) stage_extent_pos assms(3)]) (auto simp: s1_def reservation_extent_def)
  then obtain s2 where s2: "process_lp env float_text (stage_extent unit_bytes) s1 = (Inr (), s2)"
    "st_out s2 = file_of ls" "st_points s2 = int (length ls)" "st_cancel_after s2 = None" by (auto simp: s1_def assms(8))
  have "env_settle env x y" for x y using assms(1) by (simp add: smooth_env_def)
  then show ?thesis
    using s2 assms(2) context_calm [OF assms(5)] context_calm [OF s2(4)]
    by (simp add: stage_import_lp_def stage_import_def mask_stage_error_def s1_def)
qed

lemma esc_hd: "s \<noteq> [] \<Longrightarrow> hd (esc special s @ r) = (if hd s \<in> special then backslash else hd s)"
  by (cases s) auto

lemma exported_hd:
  assumes "exportable_point float_text m tags vals ts" and "encode_lp_point float_text m tags vals ts = Inr line"
  shows "line \<noteq> []" "hd line = CHR ''#'' \<longleftrightarrow> hd m = CHR ''#''"
proof -
  from assms obtain fs where line: "line = point_text m (sorted_entries tags) fs (sc_decimal_text ts)" by (rule exported_line)
  have "m \<noteq> []" using exportable_parts(1) [OF assms(1)] by (rule valid_text_nonempty)
  then show "hd line = CHR ''#'' \<longleftrightarrow> hd m = CHR ''#''"
    unfolding line point_text_def escape_measurement_esc esc_hd [OF \<open>m \<noteq> []\<close>] by (simp add: measurement_special_def)
  show "line \<noteq> []" by (simp add: line point_text_def)
qed

type_synonym export_row = "string \<times> entries \<times> (string \<times> typed_scalar) list \<times> typed_scalar"

definition export_line :: "(string \<Rightarrow> (bool \<times> string) option) \<Rightarrow> export_row \<Rightarrow> string result" where
  "export_line float_text p = (case p of (m, tags, vals, ts) \<Rightarrow> encode_lp_point float_text m tags vals ts)"

definition reimportable :: "(string \<Rightarrow> (bool \<times> string) option) \<Rightarrow> export_row \<Rightarrow> bool" where
  "reimportable float_text p =
     (case p of (m, tags, vals, ts) \<Rightarrow> clean_point float_text m tags vals ts \<and> hd m \<noteq> CHR ''#'')"

text \<open>C16.  Export and import are inverse: the lines \<open>EncodeLPPoint\<close> writes for points with clean names,
  put into one file, are staged byte for byte, and every point is counted.\<close>

theorem exported_file_staged_unchanged:
  assumes "float_text_ok float_text" and "smooth_env env" and "points \<noteq> []"
    and "\<forall>p\<in>set points. reimportable float_text p"
    and "map (export_line float_text) points = map Inr lines"
    and "\<forall>l\<in>set lines. int (length l) \<le> canonical_point_limit"
    and "int (length (file_of lines)) + reservation_extent \<le> max_int64"
    and "st_cancel_after s = None" and "\<not> st_read_fails s" and "st_source s = file_of lines" and "st_out s = ''''"
  shows "\<exists>r s'. stage_import_lp sha256 env float_text unit_bytes s = (Inr r, s') \<and> st_out s' = st_source s \<and>
    sr_point_count r = format_int (int (length points))"
proof -
  have len: "length points = length lines" using assms(5) by (metis length_map)
  have "parse_canonical_lp_point float_text l = Inr l \<and> hd l \<noteq> CHR ''#'' \<and> int (length l) \<le> canonical_point_limit"
    if l: "l \<in> set lines" for l
  proof -
    obtain p where "p \<in> set points" "export_line float_text p = Inr l" using map_Inr_mem [OF assms(5) l] by blast
    then obtain m tags vals ts where p: "clean_point float_text m tags vals ts" "hd m \<noteq> CHR ''#''"
      "encode_lp_point float_text m tags vals ts = Inr l"
      using assms(4) by (cases p) (auto simp: reimportable_def export_line_def)
    then have "exportable_point float_text m tags vals ts" by (simp add: clean_point_def)
    from exported_hd [OF this p(3)] exported_stable [OF assms(1) p(1,3)] p(2) assms(6) l show ?thesis by blast
  qed
  moreover have "lines \<noteq> []" using assms(3) len by auto
  ultimately show ?thesis
    using stage_import_file [OF assms(2), of lines float_text s sha256 unit_bytes] assms(7-11) len by simp
qed

section \<open>Points that do not survive\<close>

text \<open>C38.  The importer takes an exported line exactly when no tag value is empty.  \<open>rowToLP\<close> hands the tags
  of a series of \<open>GROUP BY *\<close> to \<open>EncodeLPPoint\<close> as they are, and InfluxDB reports a tag the series does not
  have as an empty value.\<close>

theorem exported_line_accepted_iff:
  assumes "float_text_ok float_text" and "exportable_point float_text m tags vals ts"
    and "encode_lp_point float_text m tags vals ts = Inr line"
  shows "parse_canonical_lp_point float_text line =
    (if \<exists>e\<in>set tags. snd e = '''' then Inl err_stage_invalid_input else Inr line)"
proof (cases "\<exists>e\<in>set tags. snd e = []")
  case True
  then obtain k where "(k, []) \<in> set tags" by (metis prod.collapse)
  from exported_empty_tag [OF assms this] True show ?thesis by simp
next
  case False
  then have "clean_point float_text m tags vals ts" using assms(2) by (auto simp: clean_point_def list_all_iff)
  from exported_stable [OF assms(1) this assms(3)] False show ?thesis by simp
qed

lemma process_lp_comment:
  assumes "st_cancel_after s = None" and "st_source s = line @ newline # rest" and "newline \<notin> set line"
    and "carriage_return \<notin> set line" and "hd line = CHR ''#''" and "int (length line) \<le> lp_record_limit"
  shows "process_lp env float_text extent s = process_lp env float_text extent (s\<lparr>st_source := rest\<rparr>)"
proof -
  have "line = [] \<or> last line \<noteq> carriage_return" using assms(4) last_in_set by metis
  with assms have "read_stage_record lp_record_limit [] s = (Inr (Some line), s\<lparr>st_source := rest\<rparr>)"
    using read_record_line [of s line rest "[]" lp_record_limit] by simp
  then show ?thesis using assms(5) by (simp add: process_lp.simps [of env float_text extent s] skipped_line_def)
qed

text \<open>C39.  A point whose measurement begins with \<open>#\<close> is lost in silence: neither encoder escapes the \<open>#\<close>, so
  its exported line is a comment, which \<open>processLP\<close> reads over without an error or a point.\<close>

theorem comment_measurement_lost:
  assumes "float_text_ok float_text" and "clean_point float_text m tags vals ts" and "hd m = CHR ''#''"
    and "encode_lp_point float_text m tags vals ts = Inr line" and "int (length line) \<le> lp_record_limit"
    and "st_cancel_after s = None" and "st_source s = line @ newline # rest"
  shows "process_lp env float_text extent s = process_lp env float_text extent (s\<lparr>st_source := rest\<rparr>)"
proof -
  have e: "exportable_point float_text m tags vals ts" using assms(2) by (simp add: clean_point_def)
  have "parse_canonical_lp_point float_text line = Inr line" by (rule exported_stable [OF assms(1,2,4)])
  then have "newline \<notin> set line" "carriage_return \<notin> set line"
    by (auto simp: parse_canonical_lp_point_def contains_any_def list_ex_iff control_bytes_def newline_def carriage_return_def split: if_splits)
  then show ?thesis using exported_hd [OF e assms(4)] assms(3,5-7) by (intro process_lp_comment) auto
qed

section \<open>Field keys with quotes\<close>

text \<open>The fields \<open>a"\<close> and \<open>b"\<close> of one exported point come back as the single field \<open>a"=1i,b"\<close>: the exporter
  leaves quotes in keys alone and the importer reads them as the bounds of a string.\<close>

definition quoted_fields :: "(string \<times> typed_scalar) list" where
  "quoted_fields =
     [([CHR ''a'', dquote], (no_scalar ScalarInt64)\<lparr>sc_decimal_text := ''1''\<rparr>),
      ([CHR ''b'', dquote], (no_scalar ScalarInt64)\<lparr>sc_decimal_text := ''2''\<rparr>)]"

lemma quoted_keys_merge:
  "rbind (encode_lp_point (\<lambda>_. None) ''m'' [] quoted_fields ((no_scalar ScalarTimestampNS)\<lparr>sc_decimal_text := ''7''\<rparr>))
     (parse_canonical_lp_point (\<lambda>_. None)) =
   encode_canonical_stage_point ''m'' [] [([CHR ''a'', dquote] @ ''=1i,b'' @ [dquote], ''2i'')] ''7''"
  by code_simp

section \<open>A run\<close>

definition demo_float :: "string \<Rightarrow> (bool \<times> string) option" where
  "demo_float v = (if v = ''0.5'' then Some (True, ''0.5'') else None)"

lemma demo_float_ok: "float_text_ok demo_float"
  by (auto simp: float_text_ok_def demo_float_def float_chars_def split: if_splits)

definition demo_time :: typed_scalar where
  "demo_time = (no_scalar ScalarTimestampNS)\<lparr>sc_decimal_text := ''7''\<rparr>"

definition demo_fields :: "(string \<times> typed_scalar) list" where
  "demo_fields =
     [(''v'', (no_scalar ScalarFloat64)\<lparr>sc_decimal_text := ''0.5''\<rparr>), (''n'', (no_scalar ScalarInt64)\<lparr>sc_decimal_text := ''3''\<rparr>)]"

definition demo_line :: string where
  "demo_line = ''cpu,host=a'' @ [backslash] @ '' b n=3i,v=0.5 7''"

lemma demo_decoded:
  "decoded_scalar demo_float demo_time" "\<forall>e\<in>set demo_fields. decoded_scalar demo_float (snd e)"
proof -
  have n: "numeric_scalar demo_float ''7'' ScalarTimestampNS = Inr demo_time"
    "numeric_scalar demo_float ''0.5'' ScalarFloat64 = Inr ((no_scalar ScalarFloat64)\<lparr>sc_decimal_text := ''0.5''\<rparr>)"
    "numeric_scalar demo_float ''3'' ScalarInt64 = Inr ((no_scalar ScalarInt64)\<lparr>sc_decimal_text := ''3''\<rparr>)"
    by code_simp+
  have v: "valid_stage_string_value (sc_string_value (x\<lparr>sc_decimal_text := t\<rparr>))" if "sc_string_value x = []" for x :: typed_scalar and t
    using that by (simp add: valid_stage_string_value_def)
  show "decoded_scalar demo_float demo_time"
    unfolding decoded_scalar_def using n(1) v
    by (auto simp: demo_time_def no_scalar_def valid_stage_string_value_def intro!: exI [of _ "JsonNumber ''7''"] exI [of _ ScalarTimestampNS])
  show "\<forall>e\<in>set demo_fields. decoded_scalar demo_float (snd e)"
    unfolding decoded_scalar_def demo_fields_def using n(2,3)
    by (auto simp: no_scalar_def valid_stage_string_value_def intro!: exI [of _ "JsonNumber _"])
qed

lemma demo_clean: "clean_point demo_float m [(''host'', ''a b'')] demo_fields demo_time" if "valid_stage_text m"
  using that demo_decoded
  by (auto simp: clean_point_def exportable_point_def tag_printable_def demo_fields_def valid_stage_text_def valid_stage_string_value_def
      contains_any_def control_bytes_def byte_def)

lemma demo_cpu: "clean_point demo_float ''cpu'' [(''host'', ''a b'')] demo_fields demo_time"
  by (rule demo_clean) (simp add: valid_stage_text_def contains_any_def control_bytes_def byte_def)

lemma demo_export: "encode_lp_point demo_float ''cpu'' [(''host'', ''a b'')] demo_fields demo_time = Inr demo_line"
  by code_simp

definition demo_env :: stage_env where
  "demo_env = \<lparr>env_reserve = \<lambda>_. True, env_write = \<lambda>_ k. (int k, False), env_settle = \<lambda>_ _. True\<rparr>"

definition demo_stage :: "string \<Rightarrow> stage" where
  "demo_stage src = \<lparr>st_source = src, st_read_fails = False, st_cancel_after = None, st_out = [], st_writes = 0,
     st_reserve_calls = 0, st_written = 0, st_reserved = 0, st_points = 0\<rparr>"

lemma demo_env_smooth: "smooth_env demo_env"
  by (simp add: smooth_env_def demo_env_def)

theorem encoders_agree_witness:
  "encode_lp_point demo_float ''cpu'' [(''host'', ''a b'')] demo_fields demo_time =
     rbind (field_values demo_float (sorted_entries demo_fields))
       (\<lambda>fs. encode_canonical_stage_point ''cpu'' [(''host'', ''a b'')] fs (sc_decimal_text demo_time))"
  by (rule encoders_agree [OF demo_float_ok demo_cpu]) (simp_all add: demo_fields_def demo_time_def no_scalar_def)

theorem canonical_point_stable_witness:
  "parse_canonical_lp_point demo_float ''cpu,host=a n=3i,v=0.5 7'' = Inr ''cpu,host=a n=3i,v=0.5 7''"
  by (rule canonical_point_stable [OF demo_float_ok, of "''cpu,host=a v=0.5,n=+3i 07''"]) code_simp

theorem exported_file_staged_unchanged_witness:
  "\<exists>r s'. stage_import_lp (\<lambda>s. s) demo_env demo_float 0 (demo_stage (file_of [demo_line])) = (Inr r, s') \<and>
     st_out s' = st_source (demo_stage (file_of [demo_line])) \<and>
     sr_point_count r = format_int (int (length [(''cpu'', [(''host'', ''a b'')], demo_fields, demo_time)]))"
  by (rule exported_file_staged_unchanged [OF demo_float_ok demo_env_smooth, where lines = "[demo_line]"])
    (use demo_cpu demo_export in \<open>simp_all add: reimportable_def export_line_def demo_stage_def demo_line_def
      canonical_point_limit_def reservation_extent_def max_int64_def\<close>)

theorem exported_line_accepted_iff_witness:
  "parse_canonical_lp_point demo_float demo_line =
     (if \<exists>e\<in>set [(''host'', ''a b'')]. snd e = '''' then Inl err_stage_invalid_input else Inr demo_line)"
  by (rule exported_line_accepted_iff [OF demo_float_ok _ demo_export]) (use demo_cpu in \<open>simp add: clean_point_def\<close>)

theorem comment_measurement_lost_witness:
  "process_lp demo_env demo_float 16 (demo_stage ((CHR ''#'' # tl demo_line) @ [newline])) =
     process_lp demo_env demo_float 16 ((demo_stage ((CHR ''#'' # tl demo_line) @ [newline]))\<lparr>st_source := []\<rparr>)"
proof (rule comment_measurement_lost [OF demo_float_ok])
  show "clean_point demo_float ''#pu'' [(''host'', ''a b'')] demo_fields demo_time"
    by (rule demo_clean) (simp add: valid_stage_text_def contains_any_def control_bytes_def byte_def)
  show "encode_lp_point demo_float ''#pu'' [(''host'', ''a b'')] demo_fields demo_time = Inr (CHR ''#'' # tl demo_line)"
    by code_simp
qed (simp_all add: demo_stage_def demo_line_def lp_record_limit_def canonical_point_limit_def)

text \<open>A source with a blank line, a comment, a carriage return and no final newline.\<close>

definition demo_source :: string where
  "demo_source = ''#c'' @ [newline, newline] @ ''m b=2u,a=t 5'' @ [carriage_return, newline] @ ''m a=F 6''"

lemma demo_run:
  "fst (stage_import_lp (\<lambda>s. s) demo_env demo_float 16 (demo_stage demo_source)) =
     Inr \<lparr>sr_source_sha256 = demo_source, sr_staging_sha256 = file_of [''m a=true,b=2u 5'', ''m a=false 6''],
       sr_logical_bytes = ''28'', sr_reserved_bytes = ''32'', sr_point_count = ''2''\<rparr>"
  by code_simp

theorem staged_file_is_canonical_source_witness:
  "\<exists>r s' lines. stage_import_lp (\<lambda>s. s) demo_env demo_float 16 (demo_stage demo_source) = (Inr r, s') \<and>
     map (parse_canonical_lp_point demo_float) (filter (\<lambda>l. \<not> skipped_line l) (records demo_source)) = map Inr lines \<and>
     st_out s' = file_of lines \<and> sr_point_count r = format_int (int (length lines))"
proof -
  obtain r s' where run: "stage_import_lp (\<lambda>s. s) demo_env demo_float 16 (demo_stage demo_source) = (Inr r, s')"
    using demo_run by (metis prod.collapse)
  have "st_out (demo_stage demo_source) = ''''" "st_reserve_calls (demo_stage demo_source) = 0" "st_source (demo_stage demo_source) = demo_source"
    by (simp_all add: demo_stage_def)
  with staged_file_is_canonical_source [OF demo_float_ok this(1,2) run] run show ?thesis by metis
qed

theorem staged_file_fits_reservation_witness:
  "\<exists>r s'. stage_import_lp (\<lambda>s. s) demo_env demo_float 16 (demo_stage demo_source) = (Inr r, s') \<and>
     int (length (st_out s')) \<le> int (st_reserve_calls s') * stage_extent 16 \<and>
     int (st_reserve_calls s') * stage_extent 16 < int (length (st_out s')) + stage_extent 16"
proof -
  obtain r s' where run: "stage_import_lp (\<lambda>s. s) demo_env demo_float 16 (demo_stage demo_source) = (Inr r, s')"
    using demo_run by (metis prod.collapse)
  have "st_out (demo_stage demo_source) = ''''" "st_reserve_calls (demo_stage demo_source) = 0"
    by (simp_all add: demo_stage_def)
  from staged_file_fits_reservation [OF this run] run show ?thesis by blast
qed

end
