(* ===== verification/Quota.thy ===== *)
theory Quota
  imports Import Staging
begin

text \<open>
  \<open>internal/transfer/quota.go\<close>: the disk space that is promised before it is written.  A reservation of one
  extent is a row of \<open>transfer_reservations\<close>; \<open>PRIVATE\<close> rows share a quota, and every scope leaves a floor of
  its volume free.  The sums of the code are \<open>int64\<close>, written here with their wrap-around; in every reachable
  state they are exact.
\<close>

section \<open>Operations\<close>

definition private_transfer_quota_bytes :: int where "private_transfer_quota_bytes = 53687091200"

definition reservation_extent_bytes :: int where "reservation_extent_bytes = 67108864"

definition wrap64 :: "int \<Rightarrow> int" where "wrap64 n = signed_take_bit 63 n"

definition two_gib :: int where "two_gib = 2 * 1024 * 1024 * 1024"

text \<open>Integer division truncates in Go and rounds down here; below zero both are under \<open>two_gib\<close>.\<close>

definition volume_reserve_floor :: "int \<Rightarrow> int" where
  "volume_reserve_floor capacity =
     (if capacity div 20 < two_gib then two_gib
      else if capacity div 20 > 5 * two_gib then 5 * two_gib
      else capacity div 20)"

abbreviation ErrPrivateQuota :: go_error where "ErrPrivateQuota \<equiv> transfer_error ''PRIVATE_TRANSFER_QUOTA_EXCEEDED''"
abbreviation ErrTargetLowSpace :: go_error where "ErrTargetLowSpace \<equiv> transfer_error ''TARGET_VOLUME_LOW_SPACE''"
abbreviation ErrParseInt :: go_error where "ErrParseInt \<equiv> PlainError ''strconv.ParseInt''"

definition parse_bytes :: "string \<Rightarrow> int result" where
  "parse_bytes v = (case parse_int 64 v of None \<Rightarrow> Inl ErrParseInt | Some n \<Rightarrow> Inr n)"

text \<open>The two sums of the loop: all \<open>PRIVATE\<close> bytes, and the bytes of the scope that are not written yet.\<close>

fun sum_reservations :: "string \<Rightarrow> string \<Rightarrow> reservation_row list \<Rightarrow> int \<times> int \<Rightarrow> (int \<times> int) result" where
  "sum_reservations kind scope [] sums = Inr sums"
| "sum_reservations kind scope (r # rows) (private, outstanding) =
     rbind (parse_bytes (rv_reserved_bytes r)) (\<lambda>reserved.
     rbind (parse_bytes (rv_consumed_bytes r)) (\<lambda>consumed.
     sum_reservations kind scope rows
       (if rv_scope_kind r = ''PRIVATE'' then wrap64 (private + reserved) else private,
        if rv_scope_kind r = kind \<and> rv_scope_id r = scope then wrap64 (outstanding + wrap64 (reserved - consumed))
        else outstanding)))"

definition reservation_fits :: "string \<Rightarrow> int \<Rightarrow> int \<Rightarrow> int \<Rightarrow> int \<times> int \<Rightarrow> unit result" where
  "reservation_fits kind requested free capacity sums =
     (case sums of (private, outstanding) \<Rightarrow>
        if kind = ''PRIVATE'' \<and> wrap64 (private + requested) > private_transfer_quota_bytes then Inl ErrPrivateQuota
        else if wrap64 (wrap64 (free - outstanding) - requested) < volume_reserve_floor capacity
        then Inl (if kind = ''PRIVATE'' then ErrPrivateQuota else ErrTargetLowSpace)
        else Inr ())"

definition new_reservation :: "string \<Rightarrow> string \<Rightarrow> string \<Rightarrow> string \<Rightarrow> int \<Rightarrow> time \<Rightarrow> reservation_row" where
  "new_reservation new_id i kind scope requested now =
     \<lparr>rv_id = new_id, rv_job_id = i, rv_scope_kind = kind, rv_scope_id = scope, rv_reserved_bytes = format_int requested,
      rv_consumed_bytes = ''0'', rv_created_at = now, rv_updated_at = now\<rparr>"

definition insert_reservation :: "reservation_row \<Rightarrow> (db, unit) tx" where
  "insert_reservation r =
     tx_insert reservations_t reservations_t_update
       (\<lambda>d. \<not> has_key rv_id (rv_id r) (reservations_t d) \<and> has_key tj_job_id (rv_job_id r) (transfer_jobs_t d)) r"

definition reserve_extent_tx ::
  "string \<Rightarrow> string \<Rightarrow> string \<Rightarrow> int \<Rightarrow> int \<Rightarrow> int \<Rightarrow> string \<Rightarrow> time \<Rightarrow> (db, reservation_row) tx" where
  "reserve_extent_tx i kind scope requested free capacity new_id now =
     tx_bind (tx_get (\<lambda>d. tbl_get tj_job_id i (transfer_jobs_t d))) (\<lambda>found.
     tx_bind (tx_require (found \<noteq> None) (PlainError ''transfer job not found'')) (\<lambda>_.
     tx_bind (tx_require (tj_retained (the found)) (PlainError ''transfer job is not retained'')) (\<lambda>_.
     tx_bind (tx_get reservations_t) (\<lambda>rows.
     tx_bind (tx_lift (sum_reservations kind scope rows (0, 0))) (\<lambda>sums.
     tx_bind (tx_lift (reservation_fits kind requested free capacity sums)) (\<lambda>_.
       let r = new_reservation new_id i kind scope requested now in
     tx_bind (insert_reservation r) (\<lambda>_. tx_return r)))))))"

definition reserve_extent ::
  "bool \<Rightarrow> string \<Rightarrow> time \<Rightarrow> string \<Rightarrow> string \<Rightarrow> string \<Rightarrow> int \<Rightarrow> int \<Rightarrow> int \<Rightarrow> db \<Rightarrow> reservation_row result \<times> db" where
  "reserve_extent io new_id now i kind scope requested free capacity d =
     (if requested \<le> 0 \<or> requested > reservation_extent_bytes then (Inl (PlainError ''reservation must be within one extent''), d)
      else if free < 0 \<or> capacity \<le> 0 then (Inl (PlainError ''invalid volume capacity''), d)
      else if kind \<noteq> ''PRIVATE'' \<and> kind \<noteq> ''VOLUME'' then (Inl (PlainError ''invalid reservation scope''), d)
      else with_immediate io (reserve_extent_tx i kind scope requested free capacity new_id now) d)"

definition consume_tx :: "string \<Rightarrow> int \<Rightarrow> time \<Rightarrow> (db, nat) tx" where
  "consume_tx rid consumed now =
     tx_bind (tx_query_row reservations_t (\<lambda>r. rv_id r = rid)) (\<lambda>r.
     tx_bind (tx_lift (parse_bytes (rv_reserved_bytes r))) (\<lambda>reserved.
     tx_bind (tx_lift (parse_bytes (rv_consumed_bytes r))) (\<lambda>current.
     tx_bind (tx_require (\<not> (consumed < current \<or> consumed > reserved)) (PlainError ''invalid reservation consumption'')) (\<lambda>_.
     tx_update reservations_t reservations_t_update (\<lambda>x. rv_id x = rid)
       (\<lambda>x. x\<lparr>rv_consumed_bytes := format_int consumed, rv_updated_at := now\<rparr>)))))"

definition consume :: "bool \<Rightarrow> time \<Rightarrow> string \<Rightarrow> int \<Rightarrow> db \<Rightarrow> nat result \<times> db" where
  "consume io now rid consumed d = with_immediate io (consume_tx rid consumed now) d"

definition release :: "bool \<Rightarrow> string \<Rightarrow> db \<Rightarrow> nat result \<times> db" where
  "release io rid d = with_immediate io (tx_delete reservations_t reservations_t_update (\<lambda>r. rv_id r = rid)) d"

definition release_retained_tx :: "string \<Rightarrow> time \<Rightarrow> (db, nat) tx" where
  "release_retained_tx i now =
     tx_bind (tx_get (\<lambda>d. tbl_count (\<lambda>r. rv_job_id r = i) (reservations_t d))) (\<lambda>n.
     tx_bind (tx_require (n = 0) (PlainError ''job still has reservations'')) (\<lambda>_.
     tx_update transfer_jobs_t transfer_jobs_t_update (\<lambda>r. tj_job_id r = i)
       (\<lambda>r. r\<lparr>tj_retained := False, tj_updated_at := now\<rparr>)))"

definition release_retained :: "bool \<Rightarrow> time \<Rightarrow> string \<Rightarrow> db \<Rightarrow> nat result \<times> db" where
  "release_retained io now i d = with_immediate io (release_retained_tx i now) d"

definition admit :: "bool \<Rightarrow> time \<Rightarrow> string \<Rightarrow> string \<Rightarrow> string \<Rightarrow> string \<Rightarrow> db \<Rightarrow> unit result \<times> db" where
  "admit io now i profile kind state d = with_immediate io (admit_in_tx i profile kind state now) d"

section \<open>The ledger of reservations\<close>

definition row_bytes :: "reservation_row \<Rightarrow> int \<times> int" where
  "row_bytes r = (the (parse_int 64 (rv_reserved_bytes r)), the (parse_int 64 (rv_consumed_bytes r)))"

definition row_ok :: "reservation_row \<Rightarrow> bool" where
  "row_ok r \<longleftrightarrow> (\<exists>reserved consumed. parse_int 64 (rv_reserved_bytes r) = Some reserved \<and>
     parse_int 64 (rv_consumed_bytes r) = Some consumed \<and> 0 \<le> consumed \<and> consumed \<le> reserved)"

definition private_bytes :: "reservation_row list \<Rightarrow> int" where
  "private_bytes rows = (\<Sum>r\<leftarrow>rows. if rv_scope_kind r = ''PRIVATE'' then fst (row_bytes r) else 0)"

definition outstanding_bytes :: "string \<Rightarrow> string \<Rightarrow> reservation_row list \<Rightarrow> int" where
  "outstanding_bytes kind scope rows =
     (\<Sum>r\<leftarrow>rows. if rv_scope_kind r = kind \<and> rv_scope_id r = scope then fst (row_bytes r) - snd (row_bytes r) else 0)"

definition ledger_ok :: "reservation_row list \<Rightarrow> bool" where
  "ledger_ok rows \<longleftrightarrow> distinct (map rv_id rows) \<and> (\<forall>r\<in>set rows. row_ok r) \<and>
     private_bytes rows \<le> private_transfer_quota_bytes \<and>
     (\<forall>kind scope. outstanding_bytes kind scope rows \<le> max_int64 - two_gib)"

lemma wrap64_id: "- (2 ^ 63) \<le> n \<Longrightarrow> n \<le> max_int64 \<Longrightarrow> wrap64 n = n"
  by (simp add: wrap64_def max_int64_def signed_take_bit_int_eq_self)

lemma row_bytes_ok: "row_ok r \<Longrightarrow> 0 \<le> snd (row_bytes r) \<and> snd (row_bytes r) \<le> fst (row_bytes r) \<and>
  parse_bytes (rv_reserved_bytes r) = Inr (fst (row_bytes r)) \<and> parse_bytes (rv_consumed_bytes r) = Inr (snd (row_bytes r)) \<and>
  fst (row_bytes r) \<le> max_int64"
  by (auto simp: row_ok_def row_bytes_def parse_bytes_def parse_int_def max_int64_def split: option.splits if_splits)

lemma sums_Cons:
  "private_bytes (r # rows) = (if rv_scope_kind r = ''PRIVATE'' then fst (row_bytes r) else 0) + private_bytes rows"
  "outstanding_bytes kind scope (r # rows) =
     (if rv_scope_kind r = kind \<and> rv_scope_id r = scope then fst (row_bytes r) - snd (row_bytes r) else 0) + outstanding_bytes kind scope rows"
  by (simp_all add: private_bytes_def outstanding_bytes_def)

lemma sums_Nil: "private_bytes [] = 0" "outstanding_bytes kind scope [] = 0"
  by (simp_all add: private_bytes_def outstanding_bytes_def)

lemma sums_append:
  "private_bytes (xs @ ys) = private_bytes xs + private_bytes ys"
  "outstanding_bytes kind scope (xs @ ys) = outstanding_bytes kind scope xs + outstanding_bytes kind scope ys"
  by (simp_all add: private_bytes_def outstanding_bytes_def)

lemma sums_nonneg:
  assumes "\<forall>r\<in>set rows. row_ok r"
  shows "0 \<le> private_bytes rows" "0 \<le> outstanding_bytes kind scope rows"
proof -
  have "0 \<le> private_bytes rows \<and> 0 \<le> outstanding_bytes kind scope rows"
    using assms by (induction rows) (auto simp: sums_Cons sums_Nil dest!: row_bytes_ok)
  then show "0 \<le> private_bytes rows" "0 \<le> outstanding_bytes kind scope rows" by blast+
qed

text \<open>On a good ledger no sum of the loop wraps around.\<close>

lemma sum_reservations_exact:
  assumes "\<forall>r\<in>set rows. row_ok r" and "0 \<le> p" "0 \<le> q" and "p + private_bytes rows \<le> max_int64"
    and "q + outstanding_bytes kind scope rows \<le> max_int64"
  shows "sum_reservations kind scope rows (p, q) = Inr (p + private_bytes rows, q + outstanding_bytes kind scope rows)"
  using assms
proof (induction rows arbitrary: p q)
  case Nil
  then show ?case by (simp add: sums_Nil)
next
  case (Cons r rows)
  have ok: "row_ok r" "\<forall>r\<in>set rows. row_ok r" using Cons.prems(1) by simp_all
  note r = row_bytes_ok [OF ok(1)] and n = sums_nonneg [OF ok(2)]
  let ?p = "if rv_scope_kind r = ''PRIVATE'' then p + fst (row_bytes r) else p"
  let ?q = "if rv_scope_kind r = kind \<and> rv_scope_id r = scope then q + (fst (row_bytes r) - snd (row_bytes r)) else q"
  have b: "0 \<le> ?p" "0 \<le> ?q" "?p + private_bytes rows \<le> max_int64" "?q + outstanding_bytes kind scope rows \<le> max_int64"
    using Cons.prems(2-5) r by (auto simp: sums_Cons)
  then have w: "?p \<le> max_int64" "?q \<le> max_int64" using n(1) n(2) [of kind scope] by linarith+
  have d: "wrap64 (fst (row_bytes r) - snd (row_bytes r)) = fst (row_bytes r) - snd (row_bytes r)"
    using r by (intro wrap64_id) auto
  have "(if rv_scope_kind r = ''PRIVATE'' then wrap64 (p + fst (row_bytes r)) else p) = ?p"
    "(if rv_scope_kind r = kind \<and> rv_scope_id r = scope then wrap64 (q + wrap64 (fst (row_bytes r) - snd (row_bytes r))) else q) = ?q"
    using b w d by (auto intro!: wrap64_id split: if_splits)
  then have "sum_reservations kind scope (r # rows) (p, q) = sum_reservations kind scope rows (?p, ?q)"
    using r by simp
  also have "\<dots> = Inr (?p + private_bytes rows, ?q + outstanding_bytes kind scope rows)"
    by (rule Cons.IH [OF ok(2) b])
  finally show ?case by (auto simp: sums_Cons)
qed

lemma ledger_sums:
  assumes "ledger_ok rows"
  shows "sum_reservations kind scope rows (0, 0) = Inr (private_bytes rows, outstanding_bytes kind scope rows)"
    "0 \<le> private_bytes rows" "0 \<le> outstanding_bytes kind scope rows" "outstanding_bytes kind scope rows \<le> max_int64 - two_gib"
    "private_bytes rows \<le> private_transfer_quota_bytes"
proof -
  have ok: "\<forall>r\<in>set rows. row_ok r" "private_bytes rows \<le> private_transfer_quota_bytes"
    "outstanding_bytes kind scope rows \<le> max_int64 - two_gib" using assms by (auto simp: ledger_ok_def)
  show "sum_reservations kind scope rows (0, 0) = Inr (private_bytes rows, outstanding_bytes kind scope rows)"
    using sum_reservations_exact [OF ok(1), of 0 0 kind scope] ok(2,3)
    by (simp add: private_transfer_quota_bytes_def max_int64_def two_gib_def)
  show "0 \<le> private_bytes rows" "0 \<le> outstanding_bytes kind scope rows" by (rule sums_nonneg [OF ok(1)])+
  show "outstanding_bytes kind scope rows \<le> max_int64 - two_gib" "private_bytes rows \<le> private_transfer_quota_bytes" by (fact ok)+
qed

lemma volume_reserve_floor_range: "two_gib \<le> volume_reserve_floor capacity" "volume_reserve_floor capacity \<le> 5 * two_gib"
  by (auto simp: volume_reserve_floor_def two_gib_def)

lemma parse_format_bytes: "0 \<le> n \<Longrightarrow> n \<le> max_int64 \<Longrightarrow> parse_int 64 (format_int n) = Some n"
  by (simp add: parse_int_def max_int64_def)

lemma parse_zero: "parse_int 64 ''0'' = Some 0"
  by code_simp

text \<open>A reservation that fits keeps the ledger good and the floor free.\<close>

lemma reserve_fits:
  assumes "ledger_ok rows" and "0 < requested" "requested \<le> reservation_extent_bytes" "0 \<le> free" "free \<le> max_int64"
    and "sum_reservations kind scope rows (0, 0) = Inr sums" and "reservation_fits kind requested free capacity sums = Inr u"
    and "r = new_reservation new_id i kind scope requested now" and "new_id \<notin> rv_id ` set rows"
  shows "ledger_ok (rows @ [r])"
    and "free - outstanding_bytes kind scope (rows @ [r]) \<ge> volume_reserve_floor capacity"
proof -
  note l = ledger_sums [OF assms(1)]
  have sums: "sums = (private_bytes rows, outstanding_bytes kind scope rows)" using assms(6) l(1) by simp
  have req: "requested \<le> max_int64" using assms(3) by (simp add: reservation_extent_bytes_def max_int64_def)
  have r: "row_ok r" "row_bytes r = (requested, 0)" "rv_scope_kind r = kind" "rv_scope_id r = scope" "rv_id r = new_id"
    using assms(2,8) parse_format_bytes [OF _ req] parse_zero by (simp_all add: new_reservation_def row_ok_def row_bytes_def)
  have "wrap64 (free - outstanding_bytes kind scope rows) = free - outstanding_bytes kind scope rows"
    using l(3,4) [of kind scope] assms(4,5) by (intro wrap64_id) (auto simp: max_int64_def two_gib_def)
  moreover have "wrap64 (free - outstanding_bytes kind scope rows - requested) = free - outstanding_bytes kind scope rows - requested"
    using l(3,4) [of kind scope] assms(2-5) by (intro wrap64_id) (auto simp: max_int64_def two_gib_def reservation_extent_bytes_def)
  ultimately have fl: "free - outstanding_bytes kind scope rows - requested \<ge> volume_reserve_floor capacity"
    using assms(7) sums by (auto simp: reservation_fits_def split: if_splits)
  have pr: "wrap64 (private_bytes rows + requested) = private_bytes rows + requested"
    using l(2,5) assms(2,3) by (intro wrap64_id) (auto simp: max_int64_def private_transfer_quota_bytes_def reservation_extent_bytes_def)
  have q: "kind = ''PRIVATE'' \<longrightarrow> private_bytes rows + requested \<le> private_transfer_quota_bytes"
    using assms(7) sums pr by (auto simp: reservation_fits_def split: if_splits)
  have new: "private_bytes [r] = (if kind = ''PRIVATE'' then requested else 0)"
    "outstanding_bytes k s [r] = (if k = kind \<and> s = scope then requested else 0)" for k s
    using r by (auto simp: sums_Cons sums_Nil)
  show "free - outstanding_bytes kind scope (rows @ [r]) \<ge> volume_reserve_floor capacity"
    using fl by (simp add: sums_append new)
  have "outstanding_bytes k s (rows @ [r]) \<le> max_int64 - two_gib" for k s
    using fl l(4) [of k s] assms(5) volume_reserve_floor_range(1) [of capacity] by (auto simp: sums_append new)
  then show "ledger_ok (rows @ [r])"
    using assms(1,9) r q l(5) by (auto simp: ledger_ok_def sums_append new)
qed

section \<open>The manager in use\<close>

text \<open>
  \<open>quota_step\<close>: any call of the manager, and the rows that cleanup and delivery delete.  Exports keep \<open>VOLUME\<close> rows
  of their own in this table (\<open>internal/exportjob\<close>, not modelled); those are no steps here.
\<close>

inductive quota_step :: "db \<Rightarrow> db \<Rightarrow> bool" where
  quota_reserve: "reserve_extent io new_id now i kind scope requested free capacity d = (res, d') \<Longrightarrow> free \<le> max_int64 \<Longrightarrow>
    quota_step d d'"
| quota_consume: "consume io now rid consumed d = (res, d') \<Longrightarrow> consumed \<le> max_int64 \<Longrightarrow> quota_step d d'"
| quota_release: "release io rid d = (res, d') \<Longrightarrow> quota_step d d'"
| quota_release_retained: "release_retained io now i d = (res, d') \<Longrightarrow> quota_step d d'"
| quota_admit: "admit io now i profile kind state d = (res, d') \<Longrightarrow> quota_step d d'"
| quota_delete: "reservations_t d' = filter keep (reservations_t d) \<Longrightarrow> quota_step d d'"

definition quota_inv :: "db \<Rightarrow> bool" where "quota_inv d \<longleftrightarrow> ledger_ok (reservations_t d)"

lemma reserve_extent_effect:
  assumes "reserve_extent io new_id now i kind scope requested free capacity d = (Inr r, d')" and "quota_inv d" and "free \<le> max_int64"
  shows "quota_inv d' \<and> reservations_t d' = reservations_t d @ [r] \<and> rv_scope_kind r = kind \<and> rv_scope_id r = scope \<and>
    rv_reserved_bytes r = format_int requested \<and>
    free - outstanding_bytes kind scope (reservations_t d') \<ge> volume_reserve_floor capacity"
proof -
  have g: "0 < requested" "requested \<le> reservation_extent_bytes" "0 \<le> free"
    and t: "reserve_extent_tx i kind scope requested free capacity new_id now d = Inr (r, d')"
    using assms(1) by (auto simp: reserve_extent_def with_immediate_Inr split: if_splits)
  obtain sums where s: "sum_reservations kind scope (reservations_t d) (0, 0) = Inr sums"
    "reservation_fits kind requested free capacity sums = Inr ()" "r = new_reservation new_id i kind scope requested now"
    "d' = d\<lparr>reservations_t := reservations_t d @ [r]\<rparr>" "\<not> has_key rv_id (rv_id r) (reservations_t d)"
    using t by (auto simp: reserve_extent_tx_def Let_def tx_simps insert_reservation_def)
  have fresh: "new_id \<notin> rv_id ` set (reservations_t d)" using s(3,5) by (simp add: has_key_set new_reservation_def)
  note f = reserve_fits [OF assms(2) [unfolded quota_inv_def] g(1,2,3) assms(3) s(1,2,3) fresh]
  show ?thesis using f s(3,4) by (simp add: quota_inv_def) (simp add: new_reservation_def)
qed

lemma outstanding_filter: "(\<forall>r\<in>set rows. row_ok r) \<Longrightarrow> outstanding_bytes kind scope (filter keep rows) \<le> outstanding_bytes kind scope rows"
  "(\<forall>r\<in>set rows. row_ok r) \<Longrightarrow> private_bytes (filter keep rows) \<le> private_bytes rows"
  by (induction rows) (auto simp: sums_Cons sums_Nil dest!: row_bytes_ok)

lemma ledger_filter: "ledger_ok rows \<Longrightarrow> ledger_ok (filter keep rows)"
  unfolding ledger_ok_def
  by (intro conjI) (auto simp: distinct_map inj_on_def intro: order_trans [OF outstanding_filter(1)] order_trans [OF outstanding_filter(2)])

text \<open>Rows that change keep or lower what they take.\<close>

lemma ledger_map:
  assumes "ledger_ok rows" and "\<And>r. r \<in> set rows \<Longrightarrow> row_ok (f r) \<and> rv_id (f r) = rv_id r \<and> rv_scope_kind (f r) = rv_scope_kind r \<and>
    rv_scope_id (f r) = rv_scope_id r \<and> fst (row_bytes (f r)) \<le> fst (row_bytes r) \<and>
    fst (row_bytes (f r)) - snd (row_bytes (f r)) \<le> fst (row_bytes r) - snd (row_bytes r)"
  shows "ledger_ok (map f rows)"
proof -
  have i: "map rv_id (map f rows) = map rv_id rows" using assms(2) by simp
  have s: "private_bytes (map f xs) \<le> private_bytes xs \<and> outstanding_bytes kind scope (map f xs) \<le> outstanding_bytes kind scope xs"
    if "set xs \<subseteq> set rows" for xs kind scope
    using that
  proof (induction xs)
    case (Cons x xs)
    then have x: "x \<in> set rows" and xs: "set xs \<subseteq> set rows" by simp_all
    from assms(2) [OF x] Cons.IH [OF xs] show ?case by (auto simp: sums_Cons)
  qed (simp add: sums_Nil)
  have "private_bytes (map f rows) \<le> private_transfer_quota_bytes" "\<forall>kind scope. outstanding_bytes kind scope (map f rows) \<le> max_int64 - two_gib"
    using s [OF subset_refl] assms(1) unfolding ledger_ok_def by (meson order_trans)+
  then show ?thesis using assms i unfolding ledger_ok_def by (simp only: i) (auto simp: ledger_ok_def)
qed

lemma consume_inv:
  assumes "consume_tx rid consumed now d = Inr (n, d')" and "quota_inv d" and "consumed \<le> max_int64"
  shows "quota_inv d'"
proof -
  obtain r reserved current where r: "List.find (\<lambda>r. rv_id r = rid) (reservations_t d) = Some r"
    "parse_bytes (rv_reserved_bytes r) = Inr reserved" "parse_bytes (rv_consumed_bytes r) = Inr current"
    "current \<le> consumed" "consumed \<le> reserved"
    and d': "reservations_t d' = tbl_upd (\<lambda>x. rv_id x = rid) (\<lambda>x. x\<lparr>rv_consumed_bytes := format_int consumed, rv_updated_at := now\<rparr>) (reservations_t d)"
    using assms(1) by (auto simp: consume_tx_def tx_simps)
  have rin: "r \<in> set (reservations_t d)" "rv_id r = rid" using r(1) by (auto simp: find_Some_iff)
  have ok: "\<forall>x\<in>set (reservations_t d). row_ok x" "distinct (map rv_id (reservations_t d))"
    using assms(2) by (simp_all add: quota_inv_def ledger_ok_def)
  note rb = row_bytes_ok [OF ok(1) [rule_format, OF rin(1)]]
  have same: "x = r" if "x \<in> set (reservations_t d)" "rv_id x = rid" for x
    using that rin ok(2) by (metis distinct_map inj_onD)
  have p: "parse_int 64 (format_int consumed) = Some consumed" using rb r(3,4) assms(3) by (intro parse_format_bytes) auto
  have "ledger_ok (reservations_t d')" unfolding d' tbl_upd_def
  proof (rule ledger_map)
    show "ledger_ok (reservations_t d)" using assms(2) by (simp add: quota_inv_def)
    fix x assume x: "x \<in> set (reservations_t d)"
    let ?f = "if rv_id x = rid then x\<lparr>rv_consumed_bytes := format_int consumed, rv_updated_at := now\<rparr> else x"
    show "row_ok ?f \<and> rv_id ?f = rv_id x \<and> rv_scope_kind ?f = rv_scope_kind x \<and> rv_scope_id ?f = rv_scope_id x \<and>
        fst (row_bytes ?f) \<le> fst (row_bytes x) \<and> fst (row_bytes ?f) - snd (row_bytes ?f) \<le> fst (row_bytes x) - snd (row_bytes x)"
    proof (cases "rv_id x = rid")
      case True
      then have xr: "x = r" using same x by blast
      then show ?thesis using True p rb r ok(1) rin(1)
        by (auto simp: row_ok_def row_bytes_def parse_bytes_def split: option.splits)
    qed (use ok(1) x in simp)
  qed
  then show ?thesis by (simp add: quota_inv_def)
qed

lemma quota_step_inv:
  assumes "quota_step d d'" and "quota_inv d"
  shows "quota_inv d'"
  using assms(1)
proof cases
  case (quota_reserve io new_id now i kind scope requested free capacity res)
  then show ?thesis
  proof (cases res)
    case (Inl e)
    then have "d' = d" using quota_reserve(1) by (auto simp: reserve_extent_def split: if_splits)
    then show ?thesis using assms(2) by simp
  next
    case (Inr r)
    then show ?thesis using reserve_extent_effect quota_reserve assms(2) by metis
  qed
next
  case (quota_consume io now rid consumed res)
  then show ?thesis using consume_inv [OF _ assms(2)] assms(2)
    by (cases res) (auto simp: consume_def with_immediate_Inr)
next
  case (quota_release io rid res)
  then show ?thesis using assms(2) ledger_filter
    by (cases res) (auto simp: release_def with_immediate_Inr tx_simps quota_inv_def)
next
  case (quota_release_retained io now i res)
  then show ?thesis using assms(2)
    by (cases res) (auto simp: release_retained_def release_retained_tx_def with_immediate_Inr tx_simps quota_inv_def)
next
  case (quota_admit io now i profile kind state res)
  then show ?thesis using assms(2)
    by (cases res) (auto simp: admit_def admit_in_tx_def with_immediate_Inr tx_simps quota_inv_def)
next
  case (quota_delete keep)
  then show ?thesis using assms(2) ledger_filter by (simp add: quota_inv_def)
qed

interpretation quota: transition_system "\<lambda>d. d = empty_db" quota_step quota_inv
proof unfold_locales
  show "d = empty_db \<Longrightarrow> quota_inv d" for d
    by (simp add: quota_inv_def ledger_ok_def empty_db_def sums_Nil private_transfer_quota_bytes_def max_int64_def two_gib_def)
qed (use quota_step_inv in blast)

section \<open>Properties\<close>

text \<open>C13.  The private quota: whatever the order of reservations, settlements, releases and deletions, the
  private reservations never promise more than \<open>PrivateTransferQuotaBytes\<close>, no reservation is used beyond
  its size, and the running sums of the code never wrap around, so its check is exact.\<close>

theorem private_quota_kept:
  assumes "reachable_from (\<lambda>d. d = empty_db) quota_step d"
  shows "private_bytes (reservations_t d) \<le> private_transfer_quota_bytes \<and>
    (\<forall>r \<in> set (reservations_t d). 0 \<le> snd (row_bytes r) \<and> snd (row_bytes r) \<le> fst (row_bytes r)) \<and>
    sum_reservations kind scope (reservations_t d) (0, 0) =
      Inr (private_bytes (reservations_t d), outstanding_bytes kind scope (reservations_t d))"
proof -
  have l: "ledger_ok (reservations_t d)" using quota.reachable_inv [OF assms] by (simp add: quota_inv_def)
  then show ?thesis using ledger_sums(1) [OF l, of kind scope] ledger_sums(5) [OF l] row_bytes_ok by (auto simp: ledger_ok_def)
qed

text \<open>C14.  A successful \<open>ReserveExtent\<close> leaves the floor: after it the promised and not yet written bytes of
  the scope, the new ones among them, leave at least the floor of the volume free, which is between 2 and 10 GiB.\<close>

theorem reservation_leaves_floor:
  assumes "reachable_from (\<lambda>d. d = empty_db) quota_step d" and "free \<le> max_int64"
    and "reserve_extent io new_id now i kind scope requested free capacity d = (Inr r, d')"
  shows "free - outstanding_bytes kind scope (reservations_t d') \<ge> volume_reserve_floor capacity \<and>
    two_gib \<le> volume_reserve_floor capacity \<and> volume_reserve_floor capacity \<le> 5 * two_gib \<and>
    outstanding_bytes kind scope (reservations_t d') = outstanding_bytes kind scope (reservations_t d) + requested"
proof -
  have inv: "quota_inv d" by (rule quota.reachable_inv [OF assms(1)])
  note e = reserve_extent_effect [OF assms(3) inv assms(2)]
  have "0 \<le> requested" "requested \<le> max_int64"
    using assms(3) by (auto simp: reserve_extent_def reservation_extent_bytes_def max_int64_def split: if_splits)
  moreover have "rv_consumed_bytes r = ''0''"
    using assms(3) by (auto simp: reserve_extent_def with_immediate_Inr reserve_extent_tx_def Let_def tx_simps new_reservation_def split: if_splits)
  ultimately have "row_bytes r = (requested, 0)" using e parse_format_bytes parse_zero by (simp add: row_bytes_def)
  then have "outstanding_bytes kind scope (reservations_t d') = outstanding_bytes kind scope (reservations_t d) + requested"
    using e by (simp add: sums_append sums_Cons sums_Nil)
  then show ?thesis using e volume_reserve_floor_range [of capacity] by metis
qed

section \<open>An example\<close>

definition demo_admitted :: db where
  "demo_admitted = snd (admit True 0 ''j'' ''p'' ''IMPORT'' ''READY'' empty_db)"

definition demo_reserve_extent :: "reservation_row result \<times> db" where
  "demo_reserve_extent = reserve_extent True ''r'' 0 ''j'' ''PRIVATE'' ''v'' 67108864 6000000000 100000000000 demo_admitted"

lemma demo_admitted_reachable: "reachable_from (\<lambda>d. d = empty_db) quota_step demo_admitted"
  unfolding demo_admitted_def
  by (rule reach_step, rule reach_init, rule refl, rule quota_admit, rule surjective_pairing)

lemma demo_admitted_facts:
  "reservations_t demo_admitted = []" "map_option tj_retained (tbl_get tj_job_id ''j'' (transfer_jobs_t demo_admitted)) = Some True"
  by code_simp+

lemma demo_reserve_ok: "is_ok (fst demo_reserve_extent)"
proof -
  obtain t where t: "tbl_get tj_job_id ''j'' (transfer_jobs_t demo_admitted) = Some t" "tj_retained t"
    using demo_admitted_facts(2) by auto
  then show ?thesis using demo_admitted_facts(1)
    by (simp add: demo_reserve_extent_def reserve_extent_def reservation_extent_bytes_def with_immediate_def reserve_extent_tx_def
        tx_bind_def tx_get_def tx_require_def tx_lift_def tx_return_def Let_def reservation_fits_def wrap64_id max_int64_def
        private_transfer_quota_bytes_def volume_reserve_floor_def two_gib_def insert_reservation_def tx_insert_def
        new_reservation_def has_key_iff tbl_get_Nil)
qed

theorem private_quota_kept_witness:
  "private_bytes (reservations_t (snd demo_reserve_extent)) \<le> private_transfer_quota_bytes"
proof -
  have "reachable_from (\<lambda>d. d = empty_db) quota_step (snd demo_reserve_extent)"
    unfolding demo_reserve_extent_def
    by (rule reach_step [OF demo_admitted_reachable], rule quota_reserve, rule surjective_pairing) (simp add: max_int64_def)
  from private_quota_kept [OF this] show ?thesis by blast
qed

theorem reservation_leaves_floor_witness:
  "outstanding_bytes ''PRIVATE'' ''v'' (reservations_t (snd demo_reserve_extent)) = 67108864"
proof -
  obtain r d' where run: "demo_reserve_extent = (Inr r, d')" using demo_reserve_ok by (metis is_ok.simps(1) prod.collapse sum.exhaust)
  have "outstanding_bytes ''PRIVATE'' ''v'' (reservations_t demo_admitted) = 0" by (simp add: demo_admitted_facts sums_Nil)
  then show ?thesis
    using reservation_leaves_floor [OF demo_admitted_reachable _ run [unfolded demo_reserve_extent_def]]
    unfolding run snd_conv by (simp add: max_int64_def)
qed

end
