(* ===== verification/Import_Batch.thy ===== *)
theory Import_Batch
  imports Import_Control Go_Text Staging
begin

text \<open>
  The batches of \<open>internal/importworker/worker.go\<close>: \<open>readVerifiedBatch\<close> reads the staged file of a job once
  from end to end, checks its size and its SHA-256 against the checkpoint, and picks the records of the
  next batch on the way; a job with an open incident replays the records of that incident instead.

  The file system is a parameter, \<open>staging_file\<close>: what \<open>Lstat\<close>, \<open>Open\<close> and \<open>Stat\<close> say of the path, the bytes
  and how reading them ends.  \<open>sha256\<close> (32 raw bytes) is a parameter; \<open>ctx\<close> is the number of times the
  context is still found alive, \<open>None\<close> when it is never canceled.
\<close>

section \<open>Errors and limits\<close>

abbreviation worker_error :: "string \<Rightarrow> go_error" where "worker_error \<equiv> Sentinel PkgImportworker"

abbreviation ErrWorkerRequest :: go_error where "ErrWorkerRequest \<equiv> worker_error ''IMPORT_WORKER_INVALID_REQUEST''"
abbreviation ErrStagingIntegrity :: go_error where "ErrStagingIntegrity \<equiv> worker_error ''IMPORT_STAGING_INTEGRITY_FAILED''"
abbreviation ErrStagingOffset :: go_error where "ErrStagingOffset \<equiv> worker_error ''IMPORT_STAGING_OFFSET_INVALID''"
abbreviation ErrEmptyStaging :: go_error where "ErrEmptyStaging \<equiv> worker_error ''IMPORT_STAGING_EMPTY''"
abbreviation ErrResponseTooLarge :: go_error where "ErrResponseTooLarge \<equiv> worker_error ''IMPORT_RESPONSE_TOO_LARGE''"
abbreviation ErrResponseProtocol :: go_error where "ErrResponseProtocol \<equiv> worker_error ''IMPORT_RESPONSE_PROTOCOL_ERROR''"
abbreviation ErrRoundTripNotStarted :: go_error where
  "ErrRoundTripNotStarted \<equiv> worker_error ''IMPORT_ROUND_TRIP_NOT_STARTED''"
abbreviation ErrSettlementFailed :: go_error where "ErrSettlementFailed \<equiv> worker_error ''IMPORT_SETTLEMENT_FAILED''"
abbreviation ErrContextCanceled :: go_error where "ErrContextCanceled \<equiv> Sentinel PkgContext ''context canceled''"

definition max_batch_points :: int where "max_batch_points = 5000"

definition max_batch_bytes :: int where "max_batch_bytes = 5 * 1024 * 1024"

section \<open>Numbers and digests\<close>

definition exact_non_negative_int64 :: "string \<Rightarrow> int result" where
  "exact_non_negative_int64 v =
     (if v = [] \<or> has_prefix ''+'' v \<or> (length v > 1 \<and> hd v = CHR ''0'') then Inl ErrWorkerRequest
      else case big_set_string v of
        None \<Rightarrow> Inl ErrWorkerRequest
      | Some n \<Rightarrow> if n < 0 \<or> n > max_int64 then Inl ErrWorkerRequest else Inr n)"

text \<open>\<open>boundedPositiveInt\<close> and \<open>boundedPositiveInt64\<close> differ in the type of the bound only.\<close>

definition bounded_positive :: "string \<Rightarrow> int \<Rightarrow> int result" where
  "bounded_positive v maximum =
     (case exact_non_negative_int64 v of
        Inl _ \<Rightarrow> Inl ErrWorkerRequest
      | Inr n \<Rightarrow> if n \<le> 0 then Inl ErrWorkerRequest else if n > maximum then Inr maximum else Inr n)"

definition hex_chars :: string where "hex_chars = ''0123456789abcdef''"

definition hex_encode :: "string \<Rightarrow> string" where
  "hex_encode bytes = concat (map (\<lambda>c. [hex_chars ! (byte c div 16), hex_chars ! (byte c mod 16)]) bytes)"

definition hex_val :: "char \<Rightarrow> nat option" where
  "hex_val c =
     (if 48 \<le> byte c \<and> byte c \<le> 57 then Some (byte c - 48)
      else if 97 \<le> byte c \<and> byte c \<le> 102 then Some (byte c - 87)
      else if 65 \<le> byte c \<and> byte c \<le> 70 then Some (byte c - 55)
      else None)"

fun hex_decode :: "string \<Rightarrow> string option" where
  "hex_decode [] = Some []"
| "hex_decode [_] = None"
| "hex_decode (a # b # s) =
     (case (hex_val a, hex_val b, hex_decode s) of
        (Some h, Some l, Some r) \<Rightarrow> Some (char_of (16 * h + l) # r)
      | _ \<Rightarrow> None)"

definition sha256_size :: nat where "sha256_size = 32"

definition decode_sha256 :: "string \<Rightarrow> string result" where
  "decode_sha256 v =
     (if length v \<noteq> sha256_size * 2 \<or> v \<noteq> to_lower v then Inl ErrStagingIntegrity
      else case hex_decode v of
        None \<Rightarrow> Inl ErrStagingIntegrity
      | Some d \<Rightarrow> if length d \<noteq> sha256_size then Inl ErrStagingIntegrity else Inr d)"

text \<open>\<open>strings.EqualFold\<close> on hexadecimal digests.\<close>

definition equal_fold :: "string \<Rightarrow> string \<Rightarrow> bool" where "equal_fold a b \<longleftrightarrow> to_lower a = to_lower b"

section \<open>The scan\<close>

record staging_file =
  sf_regular :: bool
  sf_opens :: bool
  sf_same :: bool
  sf_size :: int
  sf_bytes :: string
  sf_read_fails :: bool
  sf_unchanged :: bool

record staged_batch =
  sb_payload :: string
  sb_payload_digest :: string
  sb_start_offset :: int
  sb_end_offset :: int
  sb_staging_size :: int
  sb_points :: int

text \<open>What stays fixed while the file is read: the offset the batch starts at, the limits, and the end of the
  incident that is replayed.\<close>

record batch_plan =
  bp_start :: int
  bp_max_points :: int
  bp_max_bytes :: int
  bp_replay_end :: "int option"

record scan =
  sn_cursor :: int
  sn_closed :: bool
  sn_payload :: string
  sn_points :: int
  sn_end :: int
  sn_hashed :: string

definition context_error :: "nat option \<Rightarrow> nat option result" where
  "context_error ctx = (case ctx of None \<Rightarrow> Inr None | Some 0 \<Rightarrow> Inl ErrContextCanceled | Some (Suc n) \<Rightarrow> Inr (Some n))"

definition batch_allows :: "batch_plan \<Rightarrow> scan \<Rightarrow> string \<Rightarrow> bool" where
  "batch_allows plan sn line =
     (let candidate = int (length line) + (if sn_points sn > 0 then int (length (sn_payload sn)) + 1 else 0);
          replay = bp_replay_end plan \<noteq> None in
      (replay \<or> sn_points sn = 0 \<or> (sn_points sn < bp_max_points plan \<and> candidate \<le> bp_max_bytes plan)) \<and>
      \<not> (\<not> replay \<and> sn_points sn \<ge> bp_max_points plan))"

definition append_record :: "batch_plan \<Rightarrow> string \<Rightarrow> scan \<Rightarrow> scan result" where
  "append_record plan line sn =
     (let sn = sn\<lparr>sn_payload := (if sn_points sn > 0 then sn_payload sn @ [newline] else sn_payload sn) @ line,
                  sn_points := sn_points sn + 1, sn_end := sn_cursor sn\<rparr> in
      if int (length (sn_payload sn)) > max_batch_bytes \<or> sn_points sn > max_batch_points then Inl ErrStagingIntegrity
      else Inr (if bp_replay_end plan = Some (sn_cursor sn) then sn\<lparr>sn_closed := True\<rparr> else sn))"

definition past_replay :: "batch_plan \<Rightarrow> int \<Rightarrow> bool" where
  "past_replay plan cursor = (case bp_replay_end plan of None \<Rightarrow> False | Some e \<Rightarrow> cursor > e)"

definition select_record :: "batch_plan \<Rightarrow> int \<Rightarrow> string \<Rightarrow> scan \<Rightarrow> scan result" where
  "select_record plan record_start line sn =
     (if record_start < bp_start plan \<and> sn_cursor sn > bp_start plan then Inl ErrStagingOffset
      else if record_start = bp_start plan \<or>
              (record_start > bp_start plan \<and> sn_points sn > 0 \<and> \<not> sn_closed sn) then
        (if past_replay plan (sn_cursor sn) then Inl ErrStagingOffset
         else if \<not> batch_allows plan sn line then Inr (sn\<lparr>sn_closed := True\<rparr>)
         else append_record plan line sn)
      else Inr sn)"

definition scan_record :: "batch_plan \<Rightarrow> string \<Rightarrow> scan \<Rightarrow> scan result" where
  "scan_record plan record sn =
     (if last record \<noteq> newline \<or> length record = 1 \<or> int (length record) - 1 > canonical_point_limit then Inl ErrStagingIntegrity
      else if int (length record) > max_int64 - sn_cursor sn then Inl ErrStagingIntegrity
      else select_record plan (sn_cursor sn) (butlast record)
        (sn\<lparr>sn_hashed := sn_hashed sn @ record, sn_cursor := sn_cursor sn + int (length record)\<rparr>))"

text \<open>\<open>ReadBytes('\n')\<close> returns the record with its newline, or what is left of the file with the error that
  ends it.\<close>

function scan_loop :: "batch_plan \<Rightarrow> bool \<Rightarrow> string \<Rightarrow> nat option \<Rightarrow> scan \<Rightarrow> scan result" where
  "scan_loop plan fails src ctx sn =
     rbind (context_error ctx) (\<lambda>ctx.
       let line = takeWhile (\<lambda>c. c \<noteq> newline) src in
       case dropWhile (\<lambda>c. c \<noteq> newline) src of
         [] \<Rightarrow>
           rbind (if line = [] then Inr sn else scan_record plan line sn) (\<lambda>sn.
             if fails then Inl ErrStagingIntegrity else Inr sn)
       | c # rest \<Rightarrow> rbind (scan_record plan (line @ [c]) sn) (scan_loop plan fails rest ctx))"
  by pat_completeness auto
termination
proof (relation "measure (\<lambda>(plan, fails, src, ctx, sn). length src)", goal_cases)
  case (2 plan fails src ctx sn a x c rest)
  then have "length (dropWhile (\<lambda>c. c \<noteq> newline) src) = Suc (length rest)" by simp
  moreover have "length (dropWhile (\<lambda>c. c \<noteq> newline) src) \<le> length src" by (rule length_dropWhile_le)
  ultimately show ?case by simp
qed simp

declare scan_loop.simps [simp del]

section \<open>readVerifiedBatch\<close>

definition scan_start :: "int \<Rightarrow> scan" where
  "scan_start start = \<lparr>sn_cursor = 0, sn_closed = False, sn_payload = [], sn_points = 0, sn_end = start, sn_hashed = []\<rparr>"

text \<open>The end of the incident to replay, \<open>None\<close> without an open incident.\<close>

definition replay_end :: "int \<Rightarrow> import_job \<Rightarrow> int option result" where
  "replay_end start job =
     (case im_open_incident job of
        None \<Rightarrow> Inr None
      | Some n \<Rightarrow>
          if in_parent_digest n \<noteq> im_checkpoint_digest job then Inl ErrCheckpointConflict
          else if exact_non_negative_int64 (in_start_offset n) \<noteq> Inr start then Inl ErrStagingOffset
          else case exact_non_negative_int64 (in_end_offset n) of
            Inl _ \<Rightarrow> Inl ErrStagingOffset
          | Inr e \<Rightarrow> if e \<le> start then Inl ErrStagingOffset else Inr (Some e))"

definition finish_batch :: "(string \<Rightarrow> string) \<Rightarrow> staging_file \<Rightarrow> import_job \<Rightarrow> string \<Rightarrow> batch_plan \<Rightarrow> scan \<Rightarrow> staged_batch result" where
  "finish_batch sha256 f job expected plan sn =
     (if sn_cursor sn \<noteq> sf_size f then Inl ErrStagingIntegrity
      else if bp_start plan > sn_cursor sn \<or> (bp_start plan < sn_cursor sn \<and> sn_points sn = 0) then Inl ErrStagingOffset
      else if bp_replay_end plan \<noteq> None \<and> bp_replay_end plan \<noteq> Some (sn_end sn) then Inl ErrStagingOffset
      else if sha256 (sn_hashed sn) \<noteq> expected then Inl ErrStagingIntegrity
      else if \<not> sf_unchanged f then Inl ErrStagingIntegrity
      else
        let batch = \<lparr>sb_payload = sn_payload sn, sb_payload_digest = [], sb_start_offset = bp_start plan,
                     sb_end_offset = sn_end sn, sb_staging_size = sn_cursor sn, sb_points = sn_points sn\<rparr> in
        if sn_points sn = 0 then Inr batch
        else
          let digest = hex_encode (sha256 (sn_payload sn)) in
          case im_open_incident job of
            None \<Rightarrow> Inr (batch\<lparr>sb_payload_digest := digest\<rparr>)
          | Some n \<Rightarrow>
              if \<not> equal_fold digest (in_payload_digest n) then Inl ErrCheckpointConflict
              else Inr (batch\<lparr>sb_payload_digest := digest\<rparr>))"

definition remap :: "go_error \<Rightarrow> 'a result \<Rightarrow> 'a result" where
  "remap e r = (case r of Inl _ \<Rightarrow> Inl e | Inr a \<Rightarrow> Inr a)"

definition read_verified_batch :: "(string \<Rightarrow> string) \<Rightarrow> nat option \<Rightarrow> staging_file \<Rightarrow> import_job \<Rightarrow> staged_batch result" where
  "read_verified_batch sha256 ctx f job =
     (let cp = im_checkpoint job in
      rbind (remap ErrStagingOffset (exact_non_negative_int64 (cp_logical_offset cp))) (\<lambda>start.
      rbind (bounded_positive (cp_adaptive_max_points cp) max_batch_points) (\<lambda>max_points.
      rbind (bounded_positive (cp_adaptive_max_bytes cp) max_batch_bytes) (\<lambda>max_bytes.
      rbind (decode_sha256 (cp_staging_sha256 cp)) (\<lambda>expected.
      if \<not> (sf_regular f \<and> sf_opens f \<and> sf_same f) then Inl ErrStagingIntegrity
      else
      rbind (replay_end start job) (\<lambda>re.
      let plan = \<lparr>bp_start = start, bp_max_points = max_points, bp_max_bytes = max_bytes, bp_replay_end = re\<rparr> in
      rbind (scan_loop plan (sf_read_fails f) (sf_bytes f) ctx (scan_start start)) (\<lambda>sn.
      finish_batch sha256 f job expected plan sn)))))))"

section \<open>What a batch is made of\<close>

definition scan_inv :: "batch_plan \<Rightarrow> string \<Rightarrow> scan \<Rightarrow> bool" where
  "scan_inv plan pre sn \<longleftrightarrow>
     sn_hashed sn = pre \<and> sn_cursor sn = int (length pre) \<and>
     (\<exists>a ls b. pre = a @ file_of ls @ b \<and> sn_points sn = int (length ls) \<and> (\<forall>l\<in>set ls. l \<noteq> [] \<and> newline \<notin> set l) \<and>
        sn_payload sn = butlast (file_of ls) \<and> (ls \<noteq> [] \<longrightarrow> int (length a) = bp_start plan) \<and>
        sn_end sn = bp_start plan + int (length (file_of ls)) \<and> (ls \<noteq> [] \<and> \<not> sn_closed sn \<longrightarrow> b = [])) \<and>
     sn_points sn \<le> max_batch_points \<and> int (length (sn_payload sn)) \<le> max_batch_bytes"

lemma file_of_append: "file_of (xs @ ys) = file_of xs @ file_of ys"
  by (simp add: file_of_def)

lemma file_of_Nil_iff [simp]: "file_of ls = [] \<longleftrightarrow> ls = []"
  by (cases ls) simp_all

lemma butlast_file_of:
  assumes "ls \<noteq> []"
  shows "butlast (file_of ls) @ newline # t = file_of ls @ t" "0 < length (file_of ls)"
  using assms by (cases ls rule: rev_cases; simp add: butlast_append)+

lemma scan_record_inv:
  assumes "scan_inv plan pre sn" and "newline \<notin> set line" and "scan_record plan (line @ [newline]) sn = Inr sn'"
  shows "scan_inv plan (pre @ line @ [newline]) sn'"
proof -
  from assms(1) obtain a ls b where i: "sn_hashed sn = pre" "sn_cursor sn = int (length pre)"
    "pre = a @ file_of ls @ b" "sn_points sn = int (length ls)" "\<forall>l\<in>set ls. l \<noteq> [] \<and> newline \<notin> set l"
    "sn_payload sn = butlast (file_of ls)" "ls \<noteq> [] \<longrightarrow> int (length a) = bp_start plan"
    "sn_end sn = bp_start plan + int (length (file_of ls))" "ls \<noteq> [] \<and> \<not> sn_closed sn \<longrightarrow> b = []"
    "sn_points sn \<le> max_batch_points" "int (length (sn_payload sn)) \<le> max_batch_bytes"
    unfolding scan_inv_def by blast
  define s where "s = sn\<lparr>sn_hashed := pre @ line @ [newline], sn_cursor := int (length pre) + int (length (line @ [newline]))\<rparr>"
  have ne: "line \<noteq> []" and r: "select_record plan (int (length pre)) line s = Inr sn'"
    using assms(3) i(1,2) by (auto simp: scan_record_def s_def split: if_splits)
  have skip: "(ls \<noteq> [] \<longrightarrow> c) \<Longrightarrow> scan_inv plan (pre @ line @ [newline]) (s\<lparr>sn_closed := c\<rparr>)" for c
    unfolding scan_inv_def
    using i by (intro conjI exI [of _ a] exI [of _ ls] exI [of _ "b @ line @ [newline]"]) (auto simp: s_def)
  show ?thesis
  proof (cases "int (length pre) = bp_start plan \<or> (int (length pre) > bp_start plan \<and> sn_points s > 0 \<and> \<not> sn_closed s)")
    case False
    then have "sn' = s\<lparr>sn_closed := sn_closed sn\<rparr>" using r by (auto simp: select_record_def s_def split: if_splits)
    moreover have "ls \<noteq> [] \<longrightarrow> sn_closed sn"
    proof
      assume l: "ls \<noteq> []"
      then have "int (length pre) > bp_start plan" using i(3,7) by (cases ls) auto
      then show "sn_closed sn" using False l i(4) by (auto simp: s_def)
    qed
    ultimately show ?thesis using skip by simp
  next
    case True
    have b: "if ls = [] then int (length pre) = bp_start plan else b = []"
      using True i(3,4,7,9) by (cases ls) (auto simp: s_def)
    show ?thesis
    proof (cases "batch_allows plan s line")
      case False
      then have "sn' = s\<lparr>sn_closed := True\<rparr>" using r True by (auto simp: select_record_def split: if_splits)
      then show ?thesis using skip by simp
    next
      case allowed: True
      then have ap: "append_record plan line s = Inr sn'" using r True by (auto simp: select_record_def split: if_splits)
      define a' where "a' = (if ls = [] then pre else a)"
      have new: "pre @ line @ [newline] = a' @ file_of (ls @ [line]) @ []" using b i(3) by (auto simp: a'_def)
      have "sn_payload sn' = butlast (file_of (ls @ [line]))" "sn_points sn' = int (length (ls @ [line]))"
        "sn_end sn' = int (length (pre @ line @ [newline]))" "sn_cursor sn' = int (length (pre @ line @ [newline]))"
        "sn_hashed sn' = pre @ line @ [newline]" "sn_points sn' \<le> max_batch_points" "int (length (sn_payload sn')) \<le> max_batch_bytes"
        using ap i(4,6) ne b butlast_file_of [of ls]
        by (cases "ls = []"; force simp: append_record_def s_def Let_def butlast_append split: if_splits)+
      moreover have start: "int (length a') = bp_start plan" using b i(7) by (auto simp: a'_def)
      moreover have "\<forall>l\<in>set (ls @ [line]). l \<noteq> [] \<and> newline \<notin> set l" using i(5) ne assms(2) by simp
      moreover have "int (length (pre @ line @ [newline])) = bp_start plan + int (length (file_of (ls @ [line])))"
        unfolding new using start by simp
      ultimately show ?thesis
        unfolding scan_inv_def using new by (metis append.right_neutral)
    qed
  qed
qed

lemma scan_loop_line:
  "newline \<notin> set line \<Longrightarrow> scan_loop plan fails (line @ newline # rest) ctx sn =
     rbind (context_error ctx) (\<lambda>ctx. rbind (scan_record plan (line @ [newline]) sn) (scan_loop plan fails rest ctx))"
  by (subst scan_loop.simps) (auto simp: Let_def takeWhile_append dropWhile_append intro!: arg_cong [where f = "rbind _"])

lemma scan_loop_end:
  "newline \<notin> set line \<Longrightarrow> scan_loop plan fails line ctx sn = Inr sn' \<longleftrightarrow>
     line = [] \<and> \<not> fails \<and> sn' = sn \<and> is_ok (context_error ctx)"
proof -
  assume n: "newline \<notin> set line"
  then have t: "takeWhile (\<lambda>c. c \<noteq> newline) line = line" "dropWhile (\<lambda>c. c \<noteq> newline) line = []" by auto
  have "line \<noteq> [] \<Longrightarrow> last line \<noteq> newline" using n last_in_set by metis
  then have "line \<noteq> [] \<Longrightarrow> scan_record plan line sn = Inl ErrStagingIntegrity" by (simp add: scan_record_def)
  then show ?thesis
    unfolding scan_loop.simps [of plan fails line ctx sn] t Let_def by (cases "context_error ctx"; cases "line = []") auto
qed

lemma split_line: "newline \<in> set src \<Longrightarrow> \<exists>line rest. src = line @ newline # rest \<and> newline \<notin> set line"
  by (rule split_list_first)

lemma scan_loop_inv:
  "scan_loop plan fails src ctx sn = Inr sn' \<Longrightarrow> scan_inv plan pre sn \<Longrightarrow> scan_inv plan (pre @ src) sn' \<and> \<not> fails"
proof (induction "length src" arbitrary: src ctx sn pre rule: less_induct)
  case less
  show ?case
  proof (cases "newline \<in> set src")
    case False
    then show ?thesis using less(2,3) by (simp add: scan_loop_end)
  next
    case True
    then obtain line rest where src: "src = line @ newline # rest" "newline \<notin> set line" using split_line by blast
    then obtain ctx' sn1 where s: "scan_record plan (line @ [newline]) sn = Inr sn1" "scan_loop plan fails rest ctx' sn1 = Inr sn'"
      using less(2) by (auto simp: scan_loop_line rbind_Inr_iff)
    have "scan_inv plan (pre @ line @ [newline]) sn1" using scan_record_inv [OF less(3) src(2)] s(1) by blast
    then have "scan_inv plan ((pre @ line @ [newline]) @ rest) sn' \<and> \<not> fails"
      by (intro less(1) [OF _ s(2)]) (simp_all add: src)
    then show ?thesis by (simp add: src)
  qed
qed

lemma scan_inv_start: "scan_inv plan [] (scan_start (bp_start plan))"
  unfolding scan_inv_def
  by (intro conjI exI [of _ "[]"]) (simp_all add: scan_start_def max_batch_points_def max_batch_bytes_def)

lemma read_verified_batch_cases:
  assumes "read_verified_batch sha256 ctx f job = Inr b"
  obtains start mp mb expected re sn where
    "exact_non_negative_int64 (cp_logical_offset (im_checkpoint job)) = Inr start"
    "bounded_positive (cp_adaptive_max_points (im_checkpoint job)) max_batch_points = Inr mp"
    "bounded_positive (cp_adaptive_max_bytes (im_checkpoint job)) max_batch_bytes = Inr mb"
    "decode_sha256 (cp_staging_sha256 (im_checkpoint job)) = Inr expected"
    "replay_end start job = Inr re"
    "scan_loop \<lparr>bp_start = start, bp_max_points = mp, bp_max_bytes = mb, bp_replay_end = re\<rparr> (sf_read_fails f) (sf_bytes f) ctx (scan_start start) = Inr sn"
    "finish_batch sha256 f job expected \<lparr>bp_start = start, bp_max_points = mp, bp_max_bytes = mb, bp_replay_end = re\<rparr> sn = Inr b"
  using assms
  by (auto simp: read_verified_batch_def Let_def rbind_Inr_iff remap_def split: sum.splits if_splits)

lemma batch_facts:
  assumes "read_verified_batch sha256 ctx f job = Inr b"
  shows "\<exists>pre lines rest.
      sf_bytes f = pre @ file_of lines @ rest \<and>
      exact_non_negative_int64 (cp_logical_offset (im_checkpoint job)) = Inr (sb_start_offset b) \<and>
      (lines \<noteq> [] \<longrightarrow> int (length pre) = sb_start_offset b) \<and>
      sb_end_offset b = sb_start_offset b + int (length (file_of lines)) \<and>
      sb_points b = int (length lines) \<and> sb_payload b = butlast (file_of lines) \<and>
      (lines = [] \<longrightarrow> sb_start_offset b = int (length (sf_bytes f)))"
    and "decode_sha256 (cp_staging_sha256 (im_checkpoint job)) = Inr (sha256 (sf_bytes f))"
    and "sb_points b \<noteq> 0 \<Longrightarrow> sb_payload_digest b = hex_encode (sha256 (sb_payload b))"
    and "sb_staging_size b = int (length (sf_bytes f))" "sb_staging_size b = sf_size f"
    and "sb_points b \<le> max_batch_points" "int (length (sb_payload b)) \<le> max_batch_bytes"
    and "im_open_incident job = Some n \<Longrightarrow> in_parent_digest n = im_checkpoint_digest job \<and>
      exact_non_negative_int64 (in_start_offset n) = Inr (sb_start_offset b) \<and>
      exact_non_negative_int64 (in_end_offset n) = Inr (sb_end_offset b) \<and>
      equal_fold (sb_payload_digest b) (in_payload_digest n)"
proof -
  from assms obtain start mp mb expected re sn where r:
    "exact_non_negative_int64 (cp_logical_offset (im_checkpoint job)) = Inr start"
    "decode_sha256 (cp_staging_sha256 (im_checkpoint job)) = Inr expected"
    "replay_end start job = Inr re"
    and l: "scan_loop \<lparr>bp_start = start, bp_max_points = mp, bp_max_bytes = mb, bp_replay_end = re\<rparr> (sf_read_fails f) (sf_bytes f) ctx (scan_start start) = Inr sn"
    and fin: "finish_batch sha256 f job expected \<lparr>bp_start = start, bp_max_points = mp, bp_max_bytes = mb, bp_replay_end = re\<rparr> sn = Inr b"
    by (rule read_verified_batch_cases)
  define plan where "plan = \<lparr>bp_start = start, bp_max_points = mp, bp_max_bytes = mb, bp_replay_end = re\<rparr>"
  have inv: "scan_inv plan (sf_bytes f) sn"
    using scan_loop_inv [OF l scan_inv_start [of plan, unfolded plan_def, simplified]] by (simp add: plan_def)
  have b: "b = \<lparr>sb_payload = sn_payload sn, sb_payload_digest = (if sn_points sn = 0 then [] else hex_encode (sha256 (sn_payload sn))),
      sb_start_offset = start, sb_end_offset = sn_end sn, sb_staging_size = sn_cursor sn, sb_points = sn_points sn\<rparr>"
    and c: "sn_cursor sn = sf_size f" "sha256 (sn_hashed sn) = expected" "start \<le> sn_cursor sn" "sn_points sn = 0 \<Longrightarrow> start = sn_cursor sn"
       "re = None \<or> re = Some (sn_end sn)"
       "im_open_incident job = Some n \<Longrightarrow> sn_points sn \<noteq> 0 \<Longrightarrow> equal_fold (hex_encode (sha256 (sn_payload sn))) (in_payload_digest n)" for n
    using fin by (auto simp: finish_batch_def Let_def split: if_splits option.splits)
  show 1: "\<exists>pre lines rest.
      sf_bytes f = pre @ file_of lines @ rest \<and>
      exact_non_negative_int64 (cp_logical_offset (im_checkpoint job)) = Inr (sb_start_offset b) \<and>
      (lines \<noteq> [] \<longrightarrow> int (length pre) = sb_start_offset b) \<and>
      sb_end_offset b = sb_start_offset b + int (length (file_of lines)) \<and>
      sb_points b = int (length lines) \<and> sb_payload b = butlast (file_of lines) \<and>
      (lines = [] \<longrightarrow> sb_start_offset b = int (length (sf_bytes f)))"
  proof -
    from inv obtain p ls t where i: "sf_bytes f = p @ file_of ls @ t" "sn_points sn = int (length ls)"
      "sn_payload sn = butlast (file_of ls)" "ls \<noteq> [] \<longrightarrow> int (length p) = start" "sn_end sn = start + int (length (file_of ls))"
      "sn_cursor sn = int (length (sf_bytes f))"
      by (auto simp: scan_inv_def plan_def)
    show ?thesis
      by (intro exI [of _ p] exI [of _ ls] exI [of _ t]) (use i r(1) c(4) in \<open>auto simp: b\<close>)
  qed
  show "decode_sha256 (cp_staging_sha256 (im_checkpoint job)) = Inr (sha256 (sf_bytes f))"
    using inv c(2) r(2) by (simp add: scan_inv_def)
  show "sb_points b \<noteq> 0 \<Longrightarrow> sb_payload_digest b = hex_encode (sha256 (sb_payload b))" by (simp add: b)
  show "sb_staging_size b = int (length (sf_bytes f))" "sb_staging_size b = sf_size f"
    "sb_points b \<le> max_batch_points" "int (length (sb_payload b)) \<le> max_batch_bytes"
    using inv c(1) by (simp_all add: b scan_inv_def)
  assume n: "im_open_incident job = Some n"
  then have e: "re \<noteq> None" "re = Some e \<Longrightarrow> start < e" "in_parent_digest n = im_checkpoint_digest job"
    "exact_non_negative_int64 (in_start_offset n) = Inr start" "re = Some e \<Longrightarrow> exact_non_negative_int64 (in_end_offset n) = Inr e" for e
    using r(3) by (auto simp: replay_end_def split: if_splits sum.splits)
  with c(5) have re: "re = Some (sn_end sn)" by blast
  then have "sn_points sn \<noteq> 0" using e(2) [OF re] inv by (auto simp: scan_inv_def plan_def)
  then show "in_parent_digest n = im_checkpoint_digest job \<and>
      exact_non_negative_int64 (in_start_offset n) = Inr (sb_start_offset b) \<and>
      exact_non_negative_int64 (in_end_offset n) = Inr (sb_end_offset b) \<and>
      equal_fold (sb_payload_digest b) (in_payload_digest n)"
    using e(3,4,5) re c(6) [OF n] by (simp add: b)
qed

section \<open>The batches of a file of lines\<close>

text \<open>How many of the lines \<open>ls\<close> the greedy choice takes when nothing is replayed.\<close>

fun taken :: "int \<Rightarrow> int \<Rightarrow> int \<Rightarrow> int \<Rightarrow> string list \<Rightarrow> nat" where
  "taken mp mb points used [] = 0"
| "taken mp mb points used (l # ls) =
     (if points < mp \<and> used + 1 + int (length l) \<le> mb
      then Suc (taken mp mb (points + 1) (used + 1 + int (length l)) ls) else 0)"

definition batch_length :: "int \<Rightarrow> int \<Rightarrow> string list \<Rightarrow> nat" where
  "batch_length mp mb ls = (case ls of [] \<Rightarrow> 0 | l # ls \<Rightarrow> Suc (taken mp mb 1 (int (length l)) ls))"

definition good_lines :: "string list \<Rightarrow> bool" where
  "good_lines ls \<longleftrightarrow> (\<forall>l\<in>set ls. l \<noteq> [] \<and> newline \<notin> set l \<and> int (length l) \<le> canonical_point_limit)"

lemma good_lines_simps [simp]:
  "good_lines []" "good_lines (l # ls) \<longleftrightarrow> l \<noteq> [] \<and> newline \<notin> set l \<and> int (length l) \<le> canonical_point_limit \<and> good_lines ls"
  "good_lines (xs @ ys) \<longleftrightarrow> good_lines xs \<and> good_lines ys"
  by (auto simp: good_lines_def)

lemma scan_record_good:
  assumes "l \<noteq> []" "newline \<notin> set l" "int (length l) \<le> canonical_point_limit" "sn_cursor sn + int (length l) + 1 \<le> max_int64"
  shows "scan_record plan (l @ [newline]) sn =
    select_record plan (sn_cursor sn) l (sn\<lparr>sn_hashed := sn_hashed sn @ l @ [newline], sn_cursor := sn_cursor sn + int (length l) + 1\<rparr>)"
  using assms by (cases l) (simp_all add: scan_record_def add_ac)

definition scanned :: "string \<Rightarrow> scan \<Rightarrow> scan" where
  "scanned t sn = sn\<lparr>sn_hashed := sn_hashed sn @ t, sn_cursor := sn_cursor sn + int (length t)\<rparr>"

lemma scanned_simps [simp]:
  "sn_hashed (scanned t sn) = sn_hashed sn @ t" "sn_cursor (scanned t sn) = sn_cursor sn + int (length t)"
  "sn_points (scanned t sn) = sn_points sn" "sn_payload (scanned t sn) = sn_payload sn" "sn_closed (scanned t sn) = sn_closed sn"
  "sn_end (scanned t sn) = sn_end sn" "scanned [] sn = sn"
  "scanned t (scanned u sn) = scanned (u @ t) sn"
  by (simp_all add: scanned_def add.assoc)

lemma scan_before:
  "good_lines ls \<Longrightarrow> sn_cursor sn + int (length (file_of ls)) \<le> bp_start plan \<Longrightarrow> bp_start plan \<le> max_int64 \<Longrightarrow>
     scan_loop plan fails (file_of ls @ rest) None sn = scan_loop plan fails rest None (scanned (file_of ls) sn)"
proof (induction ls arbitrary: sn)
  case (Cons l ls)
  have "scan_record plan (l @ [newline]) sn = Inr (scanned (l @ [newline]) sn)"
    using Cons.prems by (subst scan_record_good) (auto simp: select_record_def scanned_def add_ac)
  with Cons show ?case by (simp add: scan_loop_line context_error_def)
qed simp

lemma scan_closed:
  "good_lines ls \<Longrightarrow> sn_closed sn \<Longrightarrow> sn_cursor sn > bp_start plan \<Longrightarrow> sn_cursor sn + int (length (file_of ls)) \<le> max_int64 \<Longrightarrow>
     scan_loop plan False (file_of ls) None sn = Inr (scanned (file_of ls) sn)"
proof (induction ls arbitrary: sn)
  case Nil
  then show ?case by (simp add: scan_loop_end context_error_def)
next
  case (Cons l ls)
  have "scan_record plan (l @ [newline]) sn = Inr (scanned (l @ [newline]) sn)"
    using Cons.prems by (subst scan_record_good) (auto simp: select_record_def scanned_def add_ac)
  with Cons show ?case by (simp add: scan_loop_line context_error_def)
qed

lemma scan_more:
  "good_lines ls \<Longrightarrow> bp_replay_end plan = None \<Longrightarrow> 0 < sn_points sn \<Longrightarrow> \<not> sn_closed sn \<Longrightarrow> sn_cursor sn > bp_start plan \<Longrightarrow>
     sn_end sn = sn_cursor sn \<Longrightarrow> bp_max_points plan \<le> max_batch_points \<Longrightarrow> bp_max_bytes plan \<le> max_batch_bytes \<Longrightarrow>
     sn_cursor sn + int (length (file_of ls)) \<le> max_int64 \<Longrightarrow>
     n = taken (bp_max_points plan) (bp_max_bytes plan) (sn_points sn) (int (length (sn_payload sn))) ls \<Longrightarrow>
     \<exists>c. scan_loop plan False (file_of ls) None sn = Inr (scanned (file_of ls) sn\<lparr>sn_closed := c,
       sn_payload := sn_payload sn @ concat (map (\<lambda>l. newline # l) (take n ls)), sn_points := sn_points sn + int n,
       sn_end := sn_end sn + int (length (file_of (take n ls)))\<rparr>)"
proof (induction ls arbitrary: sn n)
  case Nil
  then show ?case by (intro exI [of _ False]) (simp add: scan_loop_end context_error_def)
next
  case (Cons l ls)
  define s where "s = scanned (l @ [newline]) sn"
  have r: "scan_record plan (l @ [newline]) sn = select_record plan (sn_cursor sn) l s"
    using Cons.prems by (subst scan_record_good) (auto simp: scanned_def s_def add_ac)
  show ?case
  proof (cases "sn_points sn < bp_max_points plan \<and> int (length (sn_payload sn)) + 1 + int (length l) \<le> bp_max_bytes plan")
    case False
    then have "scan_record plan (l @ [newline]) sn = Inr (s\<lparr>sn_closed := True\<rparr>)"
      using Cons.prems by (auto simp: r s_def select_record_def past_replay_def batch_allows_def)
    moreover have "scan_loop plan False (file_of ls) None (s\<lparr>sn_closed := True\<rparr>) = Inr (scanned (file_of ls) (s\<lparr>sn_closed := True\<rparr>))"
      using Cons.prems by (intro scan_closed) (auto simp: s_def)
    moreover have "n = 0" using False Cons.prems by auto
    ultimately show ?thesis
      using Cons.prems by (intro exI [of _ True]) (simp add: scan_loop_line context_error_def s_def scanned_def add_ac)
  next
    case True
    define m where "m = taken (bp_max_points plan) (bp_max_bytes plan) (sn_points sn + 1) (int (length (sn_payload sn)) + 1 + int (length l)) ls"
    define s' where "s' = s\<lparr>sn_payload := sn_payload sn @ newline # l, sn_points := sn_points sn + 1, sn_end := sn_cursor s\<rparr>"
    have n: "n = Suc m" using True Cons.prems by (simp add: m_def)
    have "scan_record plan (l @ [newline]) sn = Inr s'"
      using Cons.prems True by (auto simp: r s_def s'_def select_record_def past_replay_def batch_allows_def append_record_def Let_def)
    moreover have "\<exists>c. scan_loop plan False (file_of ls) None s' = Inr (scanned (file_of ls) s'\<lparr>sn_closed := c,
       sn_payload := sn_payload s' @ concat (map (\<lambda>l. newline # l) (take m ls)), sn_points := sn_points s' + int m,
       sn_end := sn_end s' + int (length (file_of (take m ls)))\<rparr>)"
      using Cons.prems by (intro Cons.IH) (auto simp: s'_def s_def m_def add_ac)
    ultimately show ?thesis
      using Cons.prems by (auto simp: scan_loop_line context_error_def n s'_def s_def scanned_def add_ac)
  qed
qed

lemma join_newlines: "l @ concat (map (\<lambda>l. newline # l) ls) = butlast (file_of (l # ls))"
proof -
  have "(l @ concat (map (\<lambda>l. newline # l) ls)) @ [newline] = file_of (l # ls)"
    by (induction ls arbitrary: l) simp_all
  then show ?thesis by (metis butlast_snoc)
qed

lemma scan_lines:
  assumes "good_lines (pre @ ls)" and "bp_replay_end plan = None" and "bp_start plan = int (length (file_of pre))"
    and "0 < bp_max_points plan" "bp_max_points plan \<le> max_batch_points" "bp_max_bytes plan \<le> max_batch_bytes"
    and "int (length (file_of (pre @ ls))) \<le> max_int64" and "n = batch_length (bp_max_points plan) (bp_max_bytes plan) ls"
  shows "\<exists>c. scan_loop plan False (file_of (pre @ ls)) None (scan_start (bp_start plan)) =
    Inr \<lparr>sn_cursor = int (length (file_of (pre @ ls))), sn_closed = c, sn_payload = butlast (file_of (take n ls)),
         sn_points = int n, sn_end = int (length (file_of (pre @ take n ls))), sn_hashed = file_of (pre @ ls)\<rparr>"
proof -
  define s where "s = scanned (file_of pre) (scan_start (bp_start plan))"
  have 1: "scan_loop plan False (file_of (pre @ ls)) None (scan_start (bp_start plan)) = scan_loop plan False (file_of ls) None s"
    using assms unfolding file_of_append s_def by (intro scan_before) (auto simp: scan_start_def file_of_append)
  show ?thesis
  proof (cases ls)
    case Nil
    then show ?thesis using assms 1 by (auto simp: scan_loop_end context_error_def s_def scan_start_def scanned_def batch_length_def)
  next
    case (Cons l rest)
    define s' where "s' = scanned (l @ [newline]) s\<lparr>sn_payload := l, sn_points := 1, sn_end := sn_cursor s + int (length l) + 1\<rparr>"
    have "scan_record plan (l @ [newline]) s = select_record plan (sn_cursor s) l (scanned (l @ [newline]) s)"
      using assms by (subst scan_record_good) (auto simp: Cons scanned_def s_def scan_start_def file_of_append add_ac)
    also have "\<dots> = Inr s'"
      using assms by (auto simp: Cons s_def s'_def scan_start_def select_record_def past_replay_def batch_allows_def append_record_def
          Let_def max_batch_points_def max_batch_bytes_def canonical_point_limit_def scanned_def)
    finally have r: "scan_record plan (l @ [newline]) s = Inr s'" .
    define m where "m = taken (bp_max_points plan) (bp_max_bytes plan) (sn_points s') (int (length (sn_payload s'))) rest"
    have "n = Suc m" using assms(8) by (simp add: Cons batch_length_def m_def s'_def)
    moreover have "\<exists>c. scan_loop plan False (file_of rest) None s' = Inr (scanned (file_of rest) s'\<lparr>sn_closed := c,
       sn_payload := sn_payload s' @ concat (map (\<lambda>l. newline # l) (take m rest)), sn_points := sn_points s' + int m,
       sn_end := sn_end s' + int (length (file_of (take m rest)))\<rparr>)"
      using assms by (intro scan_more) (auto simp: Cons s'_def s_def m_def file_of_append scan_start_def add_ac)
    moreover have "scan_loop plan False (file_of ls) None s = scan_loop plan False (file_of rest) None s'"
      using assms(1) by (simp add: Cons scan_loop_line r context_error_def)
    ultimately show ?thesis
      using assms(3) unfolding 1
      by (auto simp: Cons join_newlines s'_def s_def scan_start_def scanned_def file_of_append add_ac)
  qed
qed

lemma taken_fits:
  "points \<le> mp \<Longrightarrow> used \<le> mb \<Longrightarrow> points + int (taken mp mb points used ls) \<le> mp \<and>
     used + int (length (file_of (take (taken mp mb points used ls) ls))) \<le> mb"
  by (induction mp mb points used ls rule: taken.induct) auto

lemma taken_le: "taken mp mb points used ls \<le> length ls"
  by (induction mp mb points used ls rule: taken.induct) auto

lemma taken_maximal:
  "taken mp mb points used ls < length ls \<Longrightarrow>
     points + int (taken mp mb points used ls) \<ge> mp \<or>
     used + int (length (file_of (take (Suc (taken mp mb points used ls)) ls))) > mb"
  by (induction mp mb points used ls rule: taken.induct) auto

lemma taken_none: "\<not> (points < mp \<and> used < mb) \<Longrightarrow> taken mp mb points used ls = 0"
  by (cases ls) auto

lemma batch_length_laws:
  assumes "0 < mp" and "n = batch_length mp mb ls"
  shows "n \<le> length ls" "n = 0 \<longleftrightarrow> ls = []" "1 < n \<Longrightarrow> int n \<le> mp \<and> int (length (file_of (take n ls))) - 1 \<le> mb"
    "n < length ls \<Longrightarrow> int n = mp \<or> int (length (file_of (take (Suc n) ls))) - 1 > mb"
proof -
  show "n \<le> length ls" using assms(2) taken_le by (auto simp: batch_length_def split: list.splits)
  show "n = 0 \<longleftrightarrow> ls = []" using assms(2) by (auto simp: batch_length_def split: list.splits)
  show "1 < n \<Longrightarrow> int n \<le> mp \<and> int (length (file_of (take n ls))) - 1 \<le> mb"
  proof (cases ls)
    case (Cons l rest)
    assume "1 < n"
    then have n: "n = Suc (taken mp mb 1 (int (length l)) rest)" "taken mp mb 1 (int (length l)) rest \<noteq> 0"
      using assms(2) Cons by (auto simp: batch_length_def)
    then have "1 < mp \<and> int (length l) < mb" using taken_none by metis
    then show ?thesis using taken_fits [of 1 mp "int (length l)" mb rest] n(1) Cons by auto
  qed (use assms(2) in \<open>simp add: batch_length_def\<close>)
  show "n < length ls \<Longrightarrow> int n = mp \<or> int (length (file_of (take (Suc n) ls))) - 1 > mb"
  proof (cases ls)
    case (Cons l rest)
    assume "n < length ls"
    then have n: "n = Suc (taken mp mb 1 (int (length l)) rest)" "taken mp mb 1 (int (length l)) rest < length rest"
      using assms(2) Cons by (auto simp: batch_length_def)
    have "1 + int (taken mp mb 1 (int (length l)) rest) \<le> mp \<or> taken mp mb 1 (int (length l)) rest = 0"
      using taken_fits [of 1 mp "int (length l)" mb rest] taken_none [of 1 mp "int (length l)" mb rest] assms(1) by force
    then show ?thesis using taken_maximal [OF n(2)] n(1) Cons assms(1) by auto
  qed simp
qed

lemma bounded_positive_range: "bounded_positive v maximum = Inr n \<Longrightarrow> 0 < maximum \<Longrightarrow> 0 < n \<and> n \<le> maximum"
  by (auto simp: bounded_positive_def split: sum.splits if_splits)

lemma exact_format: "0 \<le> n \<Longrightarrow> n \<le> max_int64 \<Longrightarrow> exact_non_negative_int64 (format_int n) = Inr n"
proof -
  assume n: "0 \<le> n" "n \<le> max_int64"
  have b: "big_set_string (format_int n) = Some n" by simp
  obtain c cs where d: "dec (nat n) = c # cs" "is_digit c" using dec_Cons [of "nat n"] by blast
  have "\<not> has_prefix ''+'' (format_int n)" using n d by (auto simp: format_int_def big_string_def is_digit_def)
  moreover have "\<not> (1 < length (format_int n) \<and> hd (format_int n) = CHR ''0'')"
  proof
    assume a: "1 < length (format_int n) \<and> hd (format_int n) = CHR ''0''"
    then have "nat n = 0" using n dec_hd_zero [of "nat n"] by (simp add: format_int_def big_string_def digit_zero)
    then show False using a n by (simp add: format_int_def big_string_def dec_literals)
  qed
  ultimately show ?thesis using n b d by (auto simp: exact_non_negative_int64_def format_int_def big_string_def)
qed

definition intact_file :: "string list \<Rightarrow> staging_file" where
  "intact_file lines = \<lparr>sf_regular = True, sf_opens = True, sf_same = True, sf_size = int (length (file_of lines)),
     sf_bytes = file_of lines, sf_read_fails = False, sf_unchanged = True\<rparr>"

definition batch_of :: "(string \<Rightarrow> string) \<Rightarrow> string list \<Rightarrow> nat \<Rightarrow> nat \<Rightarrow> staged_batch" where
  "batch_of sha256 lines k n = (let payload = butlast (file_of (take n (drop k lines))) in
     \<lparr>sb_payload = payload, sb_payload_digest = (if n = 0 then [] else hex_encode (sha256 payload)),
      sb_start_offset = int (length (file_of (take k lines))), sb_end_offset = int (length (file_of (take (k + n) lines))),
      sb_staging_size = int (length (file_of lines)), sb_points = int n\<rparr>)"

lemma length_file_take: "length (file_of (take k lines)) \<le> length (file_of lines)"
  by (metis append_take_drop_id file_of_append le_add1 length_append)

lemma read_next_batch:
  assumes "good_lines lines" and "int (length (file_of lines)) \<le> max_int64" and "k \<le> length lines"
    and "cp_logical_offset (im_checkpoint job) = format_int (int (length (file_of (take k lines))))"
    and "bounded_positive (cp_adaptive_max_points (im_checkpoint job)) max_batch_points = Inr mp"
    and "bounded_positive (cp_adaptive_max_bytes (im_checkpoint job)) max_batch_bytes = Inr mb"
    and "decode_sha256 (cp_staging_sha256 (im_checkpoint job)) = Inr (sha256 (file_of lines))"
    and "im_open_incident job = None"
  shows "read_verified_batch sha256 None (intact_file lines) job =
    Inr (batch_of sha256 lines k (batch_length mp mb (drop k lines)))"
proof -
  define start where "start = int (length (file_of (take k lines)))"
  define plan where "plan = \<lparr>bp_start = start, bp_max_points = mp, bp_max_bytes = mb, bp_replay_end = None\<rparr>"
  define n where "n = batch_length mp mb (drop k lines)"
  have s: "start \<le> max_int64" "0 \<le> start" using length_file_take [of k lines] assms(2) by (simp_all add: start_def)
  have m: "0 < mp" "mp \<le> max_batch_points" "mb \<le> max_batch_bytes"
    using bounded_positive_range [OF assms(5)] bounded_positive_range [OF assms(6)] by (auto simp: max_batch_points_def max_batch_bytes_def)
  have all: "take k lines @ drop k lines = lines" by simp
  from scan_lines [of "take k lines" "drop k lines" plan n, unfolded all]
  obtain c where l: "scan_loop plan False (file_of lines) None (scan_start start) =
    Inr \<lparr>sn_cursor = int (length (file_of lines)), sn_closed = c, sn_payload = butlast (file_of (take n (drop k lines))),
         sn_points = int n, sn_end = int (length (file_of (take k lines @ take n (drop k lines)))), sn_hashed = file_of lines\<rparr>"
    using assms(1,2) m by (auto simp: plan_def n_def start_def)
  have t: "take k lines @ take n (drop k lines) = take (k + n) lines" by (simp add: take_add)
  have "n = 0 \<longleftrightarrow> k = length lines" using batch_length_laws(2) [OF m(1) n_def] assms(3) by auto
  then have "n = 0 \<Longrightarrow> start = int (length (file_of lines))" by (simp add: start_def)
  then have "finish_batch sha256 (intact_file lines) job (sha256 (file_of lines)) plan
      \<lparr>sn_cursor = int (length (file_of lines)), sn_closed = c, sn_payload = butlast (file_of (take n (drop k lines))),
         sn_points = int n, sn_end = int (length (file_of (take (k + n) lines))), sn_hashed = file_of lines\<rparr> =
      Inr (batch_of sha256 lines k n)"
    using length_file_take [of k lines] assms(8)
    by (auto simp: finish_batch_def intact_file_def plan_def batch_of_def Let_def start_def)
  then show ?thesis
    using l [unfolded t] assms(4-8) exact_format [OF s(2,1)]
    by (simp add: read_verified_batch_def remap_def Let_def replay_end_def intact_file_def plan_def n_def
        start_def [symmetric])
qed

section \<open>Properties\<close>

text \<open>C8.  Every batch that is read is bytes of the verified file, whatever the file holds: when
  \<open>readVerifiedBatch\<close> succeeds, the SHA-256 of all the bytes read is the one of the checkpoint, the payload is a
  run of whole lines that begins at the checkpoint's offset and ends at the batch's end offset, it keeps both
  limits, its digest is the recorded one, and with an open incident it is the incident's batch, byte for byte.\<close>

theorem batch_is_verified_bytes:
  assumes "read_verified_batch sha256 ctx f job = Inr b"
  shows "decode_sha256 (cp_staging_sha256 (im_checkpoint job)) = Inr (sha256 (sf_bytes f)) \<and>
    exact_non_negative_int64 (cp_logical_offset (im_checkpoint job)) = Inr (sb_start_offset b) \<and>
    sb_points b \<le> max_batch_points \<and> int (length (sb_payload b)) \<le> max_batch_bytes \<and>
    (\<exists>pre lines rest. sf_bytes f = pre @ file_of lines @ rest \<and> sb_points b = int (length lines) \<and>
       sb_payload b = butlast (file_of lines) \<and> (lines \<noteq> [] \<longrightarrow> int (length pre) = sb_start_offset b) \<and>
       sb_end_offset b = sb_start_offset b + int (length (file_of lines)) \<and>
       (lines = [] \<longrightarrow> sb_start_offset b = int (length (sf_bytes f)))) \<and>
    (sb_points b \<noteq> 0 \<longrightarrow> sb_payload_digest b = hex_encode (sha256 (sb_payload b))) \<and>
    (\<forall>n. im_open_incident job = Some n \<longrightarrow> in_parent_digest n = im_checkpoint_digest job \<and>
       exact_non_negative_int64 (in_start_offset n) = Inr (sb_start_offset b) \<and>
       exact_non_negative_int64 (in_end_offset n) = Inr (sb_end_offset b) \<and>
       equal_fold (sb_payload_digest b) (in_payload_digest n))"
proof (intro conjI allI impI)
  note facts = batch_facts [OF assms]
  show "decode_sha256 (cp_staging_sha256 (im_checkpoint job)) = Inr (sha256 (sf_bytes f))" by (rule facts(2))
  show "exact_non_negative_int64 (cp_logical_offset (im_checkpoint job)) = Inr (sb_start_offset b)" using facts(1) by blast
  show "sb_points b \<le> max_batch_points" "int (length (sb_payload b)) \<le> max_batch_bytes" by (rule facts(6,7))+
  show "\<exists>pre lines rest. sf_bytes f = pre @ file_of lines @ rest \<and> sb_points b = int (length lines) \<and>
       sb_payload b = butlast (file_of lines) \<and> (lines \<noteq> [] \<longrightarrow> int (length pre) = sb_start_offset b) \<and>
       sb_end_offset b = sb_start_offset b + int (length (file_of lines)) \<and>
       (lines = [] \<longrightarrow> sb_start_offset b = int (length (sf_bytes f)))" using facts(1) by blast
  show "sb_points b \<noteq> 0 \<Longrightarrow> sb_payload_digest b = hex_encode (sha256 (sb_payload b))" by (rule facts(3))
qed (use batch_facts(8) [OF assms] in blast)+

text \<open>C7.  The next batch is the next lines: for an intact file of well-formed lines and a checkpoint that stands
  after the first \<open>k\<close> of them, the batch is the following \<open>n\<close> lines joined by newlines and ends after line
  \<open>k + n\<close>; \<open>n\<close> is zero only at the end of the file, one line always goes through, more than one line
  keeps both limits, and one line more would not.\<close>

theorem next_batch_is_next_lines:
  assumes "good_lines lines" and "int (length (file_of lines)) \<le> max_int64" and "k \<le> length lines"
    and "cp_logical_offset (im_checkpoint job) = format_int (int (length (file_of (take k lines))))"
    and "bounded_positive (cp_adaptive_max_points (im_checkpoint job)) max_batch_points = Inr mp"
    and "bounded_positive (cp_adaptive_max_bytes (im_checkpoint job)) max_batch_bytes = Inr mb"
    and "decode_sha256 (cp_staging_sha256 (im_checkpoint job)) = Inr (sha256 (file_of lines))"
    and "im_open_incident job = None"
  shows "\<exists>n. read_verified_batch sha256 None (intact_file lines) job = Inr (batch_of sha256 lines k n) \<and>
    k + n \<le> length lines \<and> (n = 0 \<longleftrightarrow> k = length lines) \<and>
    (1 < n \<longrightarrow> int n \<le> mp \<and> int (length (file_of (take n (drop k lines)))) - 1 \<le> mb) \<and>
    (k + n < length lines \<longrightarrow> int n = mp \<or> int (length (file_of (take (Suc n) (drop k lines)))) - 1 > mb)"
proof -
  have "0 < mp" using bounded_positive_range [OF assms(5)] by (simp add: max_batch_points_def)
  note laws = batch_length_laws [OF this refl, of mb "drop k lines"]
  show ?thesis
    by (rule exI [of _ "batch_length mp mb (drop k lines)"])
      (use laws assms(3) read_next_batch [OF assms(1-6) _ assms(8), of sha256] assms(7) in auto)
qed

section \<open>An example\<close>

definition zero_sha256 :: "string \<Rightarrow> string" where "zero_sha256 s = replicate 32 (CHR 0x00)"

definition demo_lines :: "string list" where "demo_lines = [''a v=1'', ''bb v=2'', ''c v=3'']"

definition demo_batch_job :: import_job where
  "demo_batch_job = \<lparr>im_task = \<lparr>t_id = ''job'', t_kind = ''IMPORT'', t_state = ImportRunning, t_terminal = False,
     t_snapshot_revision = ''4'', t_state_revision = ''4'', t_last_event_seq = ''4'', t_created_at = 0, t_updated_at = 0,
     t_terminal_at = None, t_public_error_code = None,
     t_public_safe_message = None, t_archived = False, t_result_available = False\<rparr>, im_profile_id = ''p'', im_checkpoint_digest = ''d'',
     im_checkpoint = zero_checkpoint\<lparr>cp_logical_offset := ''6'', cp_adaptive_max_points := ''5000'',
       cp_adaptive_max_bytes := ''12'', cp_staging_sha256 := replicate 64 (CHR ''0'')\<rparr>, im_active = Some ''s'',
     im_pause_requested = False, im_open_incident = None\<rparr>"

lemma demo_batch_facts:
  "good_lines demo_lines" "int (length (file_of demo_lines)) \<le> max_int64" "1 \<le> length demo_lines"
  "cp_logical_offset (im_checkpoint demo_batch_job) = format_int (int (length (file_of (take 1 demo_lines))))"
  "bounded_positive (cp_adaptive_max_points (im_checkpoint demo_batch_job)) max_batch_points = Inr 5000"
  "bounded_positive (cp_adaptive_max_bytes (im_checkpoint demo_batch_job)) max_batch_bytes = Inr 12"
  "decode_sha256 (cp_staging_sha256 (im_checkpoint demo_batch_job)) = Inr (zero_sha256 (file_of demo_lines))"
  "im_open_incident demo_batch_job = None"
  by code_simp+

lemma demo_batch_read:
  "read_verified_batch zero_sha256 None (intact_file demo_lines) demo_batch_job = Inr (batch_of zero_sha256 demo_lines 1 2)"
proof -
  have "batch_length 5000 12 (drop 1 demo_lines) = 2" by code_simp
  then show ?thesis using read_next_batch [of demo_lines 1 demo_batch_job 5000 12 zero_sha256, OF demo_batch_facts] by simp
qed

theorem batch_is_verified_bytes_witness:
  "sb_payload_digest (batch_of zero_sha256 demo_lines 1 2) = hex_encode (zero_sha256 (''bb v=2'' @ newline # ''c v=3''))"
proof -
  have "sb_payload (batch_of zero_sha256 demo_lines 1 2) = ''bb v=2'' @ newline # ''c v=3'' \<and>
      sb_points (batch_of zero_sha256 demo_lines 1 2) \<noteq> 0" by code_simp
  then show ?thesis using batch_is_verified_bytes [OF demo_batch_read] by metis
qed

theorem next_batch_is_next_lines_witness:
  "read_verified_batch zero_sha256 None (intact_file demo_lines) demo_batch_job = Inr (batch_of zero_sha256 demo_lines 1 2)"
proof -
  from next_batch_is_next_lines [of demo_lines 1 demo_batch_job 5000 12 zero_sha256, OF demo_batch_facts] obtain n where n:
    "read_verified_batch zero_sha256 None (intact_file demo_lines) demo_batch_job = Inr (batch_of zero_sha256 demo_lines 1 n)"
    "1 + n \<le> length demo_lines" "n = 0 \<longleftrightarrow> 1 = length demo_lines"
    "1 + n < length demo_lines \<longrightarrow> int n = 5000 \<or> int (length (file_of (take (Suc n) (drop 1 demo_lines)))) - 1 > 12"
    by blast
  have l: "length demo_lines = 3" "int (length (file_of (take (Suc 1) (drop 1 demo_lines)))) - 1 = 12"
    by code_simp+
  then have "n = 2" using n(2,3,4) by (cases "n = 1") auto
  then show ?thesis using n(1) by simp
qed

end
