(* ===== verification/Import_Grants.thy ===== *)
theory Import_Grants
  imports Import Import_Batch Time_Text
begin

text \<open>
  The run grants of \<open>internal/transfer/grant.go\<close>: \<open>GrantRegistry\<close> keeps, in memory, the tokens a preview hands
  out; a start or a resolution reserves its token, checks that it is still live once it holds the dispatch
  gate, and commits it or rolls it back.

  Every method runs with the registry's mutex in hand, so a method is one step.  \<open>records\<close> is the list of the
  records, one for each token; \<open>scopes\<close> is the Go map.  Parameters: \<open>uuid_ok\<close> (\<open>uuid.Parse\<close>), \<open>sha256_hex\<close>,
  \<open>draws\<close> (what \<open>io.ReadFull\<close> gives for 32 random bytes), the clock, the reservation id.
\<close>

section \<open>Bindings\<close>

abbreviation GrantStart :: string where "GrantStart \<equiv> ''START''"
abbreviation GrantResume :: string where "GrantResume \<equiv> ''RESUME''"
abbreviation GrantResolve :: string where "GrantResolve \<equiv> ''RESOLVE''"

record grant_binding =
  gb_job_id :: string
  gb_command_request_id :: string
  gb_action :: string
  gb_decision :: string
  gb_after_resolution :: string
  gb_expected_state_revision :: string
  gb_checkpoint_digest :: string
  gb_incident_digest :: string
  gb_source_sha256 :: string
  gb_staging_sha256 :: string
  gb_normalization_version :: string
  gb_spec_digest :: string
  gb_target_digest :: string
  gb_profile_id :: string
  gb_profile_revision :: string
  gb_connection_id :: string
  gb_connection_generation :: string
  gb_protection_revision :: string
  gb_lease_id :: string

definition grant_decimal_ok :: "string \<Rightarrow> bool" where
  "grant_decimal_ok v = is_ok (transfer_canonical_decimal v)"

definition validate_grant_binding :: "(string \<Rightarrow> bool) \<Rightarrow> grant_binding \<Rightarrow> unit result" where
  "validate_grant_binding uuid_ok b =
     (if list_ex (\<lambda>v. v = '''') [gb_job_id b, gb_checkpoint_digest b, gb_source_sha256 b, gb_staging_sha256 b,
          gb_normalization_version b, gb_spec_digest b, gb_target_digest b, gb_profile_id b, gb_connection_id b,
          gb_lease_id b] then Inl ErrGrantMismatch
      else if \<not> uuid_ok (gb_command_request_id b) then Inl ErrGrantMismatch
      else if \<not> list_all grant_decimal_ok [gb_expected_state_revision b, gb_profile_revision b,
          gb_connection_generation b, gb_protection_revision b] then Inl ErrGrantMismatch
      else if gb_action b \<in> {GrantStart, GrantResume, GrantResolve} then Inr ()
      else Inl ErrGrantMismatch)"

definition grant_fields :: "grant_binding \<Rightarrow> string list" where
  "grant_fields b = [''ImportRunGrantV1'', gb_job_id b, gb_command_request_id b, gb_action b, gb_decision b,
     gb_after_resolution b, gb_expected_state_revision b, gb_checkpoint_digest b, gb_incident_digest b,
     gb_source_sha256 b, gb_staging_sha256 b, gb_normalization_version b, gb_spec_digest b, gb_target_digest b,
     gb_profile_id b, gb_profile_revision b, gb_connection_id b, gb_connection_generation b,
     gb_protection_revision b, gb_lease_id b]"

definition nul :: char where "nul = CHR 0x00"

definition framed :: "string list \<Rightarrow> string" where
  "framed vs = concat (map (\<lambda>v. dec (length v) @ nul # v) vs)"

definition grant_binding_digest :: "(string \<Rightarrow> string) \<Rightarrow> grant_binding \<Rightarrow> string" where
  "grant_binding_digest sha256_hex b = sha256_hex (framed (grant_fields b))"

definition grant_scope :: "grant_binding \<Rightarrow> string" where
  "grant_scope b = gb_job_id b @ unit_sep @ gb_command_request_id b"

definition protection_binding :: "grant_binding \<Rightarrow> dispatch_binding" where
  "protection_binding b = \<lparr>db_connection_id = gb_connection_id b, db_connection_generation = gb_connection_generation b,
     db_profile_revision = gb_profile_revision b, db_protection_revision = gb_protection_revision b,
     db_lease_id = gb_lease_id b\<rparr>"

section \<open>The registry\<close>

record grant_record =
  gr_binding :: grant_binding
  gr_digest :: string
  gr_token :: string
  gr_expires :: time
  gr_reservation_id :: string
  gr_consumed :: bool

record registry =
  rg_records :: "grant_record list"
  rg_scopes :: "string \<Rightarrow> string option"

record run_grant =
  ig_token :: string
  ig_expires_at :: string

record reservation =
  rv_token :: string
  rv_id :: string
  rv_binding :: grant_binding
  rv_expires :: time

definition empty_registry :: registry where
  "empty_registry = \<lparr>rg_records = [], rg_scopes = Map.empty\<rparr>"

abbreviation grant_at :: "string \<Rightarrow> registry \<Rightarrow> grant_record option" where
  "grant_at token rg \<equiv> tbl_get gr_token token (rg_records rg)"

definition upd_grant :: "string \<Rightarrow> (grant_record \<Rightarrow> grant_record) \<Rightarrow> registry \<Rightarrow> registry" where
  "upd_grant token f rg = rg\<lparr>rg_records := tbl_upd (\<lambda>r. gr_token r = token) f (rg_records rg)\<rparr>"

definition purgeable :: "time \<Rightarrow> grant_record \<Rightarrow> bool" where
  "purgeable now r \<longleftrightarrow> \<not> now < gr_expires r \<and> gr_reservation_id r = ''''"

definition purge_locked :: "time \<Rightarrow> registry \<Rightarrow> registry" where
  "purge_locked now rg = \<lparr>rg_records = filter (\<lambda>r. \<not> purgeable now r) (rg_records rg),
     rg_scopes = fold (\<lambda>r scopes. scopes(grant_scope (gr_binding r) := None)) (filter (purgeable now) (rg_records rg)) (rg_scopes rg)\<rparr>"

text \<open>At most four draws; a token that is in use is drawn again.\<close>

fun draw_token :: "nat \<Rightarrow> string option list \<Rightarrow> registry \<Rightarrow> string result" where
  "draw_token 0 draws rg = Inl (PlainError ''cannot allocate unique import grant'')"
| "draw_token (Suc attempts) [] rg = Inl (PlainError ''read random'')"
| "draw_token (Suc attempts) (None # draws) rg = Inl (PlainError ''read random'')"
| "draw_token (Suc attempts) (Some bytes # draws) rg =
     (if grant_at (hex_encode bytes) rg = None then Inr (hex_encode bytes) else draw_token attempts draws rg)"

definition issue_new ::
  "(string \<Rightarrow> string) \<Rightarrow> string option list \<Rightarrow> grant_binding \<Rightarrow> time \<Rightarrow> registry \<Rightarrow> run_grant result \<times> registry" where
  "issue_new sha256_hex draws b expires rg =
     (case draw_token 4 draws rg of
        Inl e \<Rightarrow> (Inl e, rg)
      | Inr token \<Rightarrow>
          (Inr \<lparr>ig_token = token, ig_expires_at = rfc3339nano expires\<rparr>,
           rg\<lparr>rg_records := rg_records rg @ [\<lparr>gr_binding = b, gr_digest = grant_binding_digest sha256_hex b,
                gr_token = token, gr_expires = expires, gr_reservation_id = '''', gr_consumed = False\<rparr>],
              rg_scopes := (rg_scopes rg)(grant_scope b \<mapsto> token)\<rparr>))"

definition issue ::
  "(string \<Rightarrow> bool) \<Rightarrow> (string \<Rightarrow> string) \<Rightarrow> string option list \<Rightarrow> time \<Rightarrow> grant_binding \<Rightarrow> time \<Rightarrow> registry \<Rightarrow>
     run_grant result \<times> registry" where
  "issue uuid_ok sha256_hex draws now b expires rg =
     (case validate_grant_binding uuid_ok b of
        Inl e \<Rightarrow> (Inl e, rg)
      | Inr _ \<Rightarrow>
          if \<not> now < expires \<or> expires - now > 120 * second then (Inl ErrGrantMismatch, rg)
          else
            let rg = purge_locked now rg in
            case rg_scopes rg (grant_scope b) of
              None \<Rightarrow> issue_new sha256_hex draws b expires rg
            | Some token \<Rightarrow>
                (case grant_at token rg of
                   None \<Rightarrow> (Inl ErrGrantMismatch, rg)
                 | Some r \<Rightarrow>
                     (if gr_digest r \<noteq> grant_binding_digest sha256_hex b \<or> gr_consumed r \<or> gr_reservation_id r \<noteq> ''''
                      then Inl ErrGrantMismatch
                      else Inr \<lparr>ig_token = token, ig_expires_at = rfc3339nano (gr_expires r)\<rparr>, rg)))"

definition reserve ::
  "(string \<Rightarrow> string) \<Rightarrow> string \<Rightarrow> time \<Rightarrow> string \<Rightarrow> grant_binding \<Rightarrow> registry \<Rightarrow> reservation result \<times> registry" where
  "reserve sha256_hex new_id now token expected rg =
     (let rg = purge_locked now rg in
      case grant_at token rg of
        None \<Rightarrow> (Inl ErrGrantExpired, rg)
      | Some r \<Rightarrow>
          if gr_consumed r then (Inl ErrGrantExpired, rg)
          else if gr_digest r \<noteq> grant_binding_digest sha256_hex expected then (Inl ErrGrantMismatch, rg)
          else if gr_reservation_id r \<noteq> '''' then (Inl ErrGrantReserved, rg)
          else (Inr \<lparr>rv_token = token, rv_id = new_id, rv_binding = gr_binding r, rv_expires = gr_expires r\<rparr>,
                upd_grant token (\<lambda>r. r\<lparr>gr_reservation_id := new_id\<rparr>) rg))"

definition holds_grant :: "reservation \<Rightarrow> registry \<Rightarrow> bool" where
  "holds_grant v rg =
     (case grant_at (rv_token v) rg of None \<Rightarrow> False | Some r \<Rightarrow> gr_reservation_id r = rv_id v \<and> \<not> gr_consumed r)"

definition validate_live :: "time \<Rightarrow> reservation \<Rightarrow> registry \<Rightarrow> unit result" where
  "validate_live now v rg =
     (if \<not> holds_grant v rg then Inl ErrGrantMismatch
      else case grant_at (rv_token v) rg of
        None \<Rightarrow> Inl ErrGrantMismatch
      | Some r \<Rightarrow> if \<not> now < gr_expires r then Inl ErrGrantExpired else Inr ())"

definition commit_grant :: "reservation \<Rightarrow> registry \<Rightarrow> unit result \<times> registry" where
  "commit_grant v rg =
     (if \<not> holds_grant v rg then (Inl ErrGrantMismatch, rg)
      else (Inr (), (upd_grant (rv_token v) (\<lambda>r. r\<lparr>gr_consumed := True, gr_reservation_id := ''''\<rparr>) rg)
              \<lparr>rg_scopes := (rg_scopes rg)(grant_scope (gr_binding (the (grant_at (rv_token v) rg))) := None)\<rparr>))"

definition rollback_grant :: "reservation \<Rightarrow> registry \<Rightarrow> registry" where
  "rollback_grant v rg =
     (if holds_grant v rg then upd_grant (rv_token v) (\<lambda>r. r\<lparr>gr_reservation_id := ''''\<rparr>) rg else rg)"

definition reset_grants :: "registry \<Rightarrow> registry" where "reset_grants rg = empty_registry"

section \<open>The registry in use\<close>

lemma dec_no_nul: "nul \<notin> set (dec n)"
proof
  assume "nul \<in> set (dec n)"
  then have "is_digit nul" using dec_digits [of n] by (auto simp: list_all_iff)
  then show False by (simp add: is_digit_def nul_def)
qed

lemma framed_Cons: "framed (v # vs) = dec (length v) @ nul # v @ framed vs"
  by (simp add: framed_def)

lemma framed_inj: "framed vs = framed ws \<Longrightarrow> vs = ws"
proof (induction vs arbitrary: ws)
  case Nil
  then show ?case by (cases ws) (simp_all add: framed_def)
next
  case (Cons v vs)
  then obtain w ws' where ws: "ws = w # ws'" by (cases ws) (simp_all add: framed_def)
  have e: "dec (length v) @ nul # v @ framed vs = dec (length w) @ nul # w @ framed ws'"
    using Cons.prems by (simp add: ws framed_Cons)
  then have "takeWhile (\<lambda>c. c \<noteq> nul) (dec (length v) @ nul # v @ framed vs) = takeWhile (\<lambda>c. c \<noteq> nul) (dec (length w) @ nul # w @ framed ws')"
    by simp
  moreover have "takeWhile (\<lambda>c. c \<noteq> nul) (dec n @ nul # t) = dec n" for n t
    using dec_no_nul [of n] by (subst takeWhile_append2) auto
  ultimately have "length v = length w" by (simp add: dec_inj)
  then have "v = w \<and> framed vs = framed ws'" using e by simp
  then show ?case using Cons.IH ws by simp
qed

lemma grant_fields_inj: "grant_fields b = grant_fields c \<Longrightarrow> b = c"
  by (simp add: grant_fields_def)

record grant_sys =
  gy_registry :: registry
  gy_held :: "reservation list"
  gy_committed :: "reservation list"
  gy_tokens :: "string list"

definition drawn :: "string option list \<Rightarrow> string list" where
  "drawn draws = map hex_encode (List.map_filter id draws)"

inductive grant_step :: "(string \<Rightarrow> bool) \<Rightarrow> (string \<Rightarrow> string) \<Rightarrow> grant_sys \<Rightarrow> grant_sys \<Rightarrow> bool"
  for uuid_ok :: "string \<Rightarrow> bool" and sha256_hex :: "string \<Rightarrow> string" where
  issues: "issue uuid_ok sha256_hex draws now b expires (gy_registry y) = (res, rg') \<Longrightarrow>
    set (drawn draws) \<inter> set (gy_tokens y) = {} \<Longrightarrow>
    grant_step uuid_ok sha256_hex y (y\<lparr>gy_registry := rg', gy_tokens := drawn draws @ gy_tokens y\<rparr>)"
| reserves: "reserve sha256_hex new_id now token expected (gy_registry y) = (res, rg') \<Longrightarrow>
    new_id \<noteq> '''' \<Longrightarrow> new_id \<notin> rv_id ` set (gy_held y) \<Longrightarrow>
    grant_step uuid_ok sha256_hex y (y\<lparr>gy_registry := rg', gy_held := (case res of Inl _ \<Rightarrow> [] | Inr v \<Rightarrow> [v]) @ gy_held y\<rparr>)"
| commits: "v \<in> set (gy_held y) \<Longrightarrow> commit_grant v (gy_registry y) = (res, rg') \<Longrightarrow>
    grant_step uuid_ok sha256_hex y (y\<lparr>gy_registry := rg', gy_committed := (if is_ok res then [v] else []) @ gy_committed y\<rparr>)"
| rollbacks: "v \<in> set (gy_held y) \<Longrightarrow>
    grant_step uuid_ok sha256_hex y (y\<lparr>gy_registry := rollback_grant v (gy_registry y)\<rparr>)"
| resets: "grant_step uuid_ok sha256_hex y (y\<lparr>gy_registry := reset_grants (gy_registry y)\<rparr>)"

definition grant_start :: "grant_sys \<Rightarrow> bool" where
  "grant_start y \<longleftrightarrow> y = \<lparr>gy_registry = empty_registry, gy_held = [], gy_committed = [], gy_tokens = []\<rparr>"

text \<open>A record agrees with the reservations that were handed out and with the commits.\<close>

definition grant_ok :: "(string \<Rightarrow> string) \<Rightarrow> grant_sys \<Rightarrow> grant_record \<Rightarrow> bool" where
  "grant_ok sha256_hex y r \<longleftrightarrow>
     gr_token r \<in> set (gy_tokens y) \<and> gr_digest r = grant_binding_digest sha256_hex (gr_binding r) \<and>
     (gr_token r \<in> rv_token ` set (gy_committed y) \<longrightarrow> gr_consumed r) \<and>
     (gr_reservation_id r \<noteq> '''' \<longrightarrow> (\<exists>v\<in>set (gy_held y). rv_id v = gr_reservation_id r \<and> rv_token v = gr_token r \<and>
        rv_binding v = gr_binding r))"

definition grant_inv :: "(string \<Rightarrow> string) \<Rightarrow> grant_sys \<Rightarrow> bool" where
  "grant_inv sha256_hex y \<longleftrightarrow>
     distinct (map gr_token (rg_records (gy_registry y))) \<and> distinct (map rv_id (gy_held y)) \<and>
     '''' \<notin> rv_id ` set (gy_held y) \<and> rv_token ` set (gy_held y) \<subseteq> set (gy_tokens y) \<and>
     set (gy_committed y) \<subseteq> set (gy_held y) \<and> distinct (map rv_token (gy_committed y)) \<and>
     (\<forall>r\<in>set (rg_records (gy_registry y)). grant_ok sha256_hex y r)"

lemma grant_okI:
  assumes "grant_ok h y r" and "gr_token r' = gr_token r" "gr_digest r' = gr_digest r" "gr_binding r' = gr_binding r"
    and "set (gy_tokens y) \<subseteq> set (gy_tokens y')" and "set (gy_held y) \<subseteq> set (gy_held y')"
    and "gr_token r \<in> rv_token ` set (gy_committed y') \<Longrightarrow> gr_consumed r' \<or> (gr_token r \<in> rv_token ` set (gy_committed y) \<and> gr_consumed r' = gr_consumed r)"
    and "gr_reservation_id r' = '''' \<or> gr_reservation_id r' = gr_reservation_id r \<or>
       (\<exists>v\<in>set (gy_held y'). rv_id v = gr_reservation_id r' \<and> rv_token v = gr_token r \<and> rv_binding v = gr_binding r)"
  shows "grant_ok h y' r'"
  using assms unfolding grant_ok_def by (auto 5 3)

lemma purge_subset: "set (rg_records (purge_locked now rg)) \<subseteq> set (rg_records rg)"
  "distinct (map gr_token (rg_records rg)) \<Longrightarrow> distinct (map gr_token (rg_records (purge_locked now rg)))"
  by (auto simp: purge_locked_def distinct_map_filter)

lemma draw_token_ok: "draw_token n draws rg = Inr token \<Longrightarrow> token \<in> set (drawn draws) \<and> grant_at token rg = None"
  by (induction n draws rg rule: draw_token.induct) (auto simp: drawn_def map_filter_simps split: if_splits)

lemma issue_records:
  assumes "issue uuid_ok h draws now b expires rg = (res, rg')" and "distinct (map gr_token (rg_records rg))"
  shows "distinct (map gr_token (rg_records rg')) \<and> (\<forall>r\<in>set (rg_records rg'). r \<in> set (rg_records rg) \<or>
     gr_token r \<in> set (drawn draws) \<and> gr_digest r = grant_binding_digest h (gr_binding r) \<and> gr_reservation_id r = '''')"
proof (cases "\<exists>token. draw_token 4 draws (purge_locked now rg) = Inr token \<and> rg' = snd (issue_new h draws b expires (purge_locked now rg))")
  case True
  then obtain token where t: "draw_token 4 draws (purge_locked now rg) = Inr token"
    "rg' = snd (issue_new h draws b expires (purge_locked now rg))" by blast
  from draw_token_ok [OF t(1)] have "token \<in> set (drawn draws)" "token \<notin> gr_token ` set (rg_records (purge_locked now rg))"
    by (simp_all add: tbl_get_None_iff)
  then show ?thesis using t purge_subset [OF ] assms(2) by (fastforce simp: issue_new_def)
next
  case False
  then have "rg' = rg \<or> rg' = purge_locked now rg"
    using assms(1) by (auto simp: issue_def Let_def issue_new_def split: sum.splits if_splits option.splits)
  then show ?thesis using purge_subset assms(2) by blast
qed

lemma reserve_cases:
  assumes "reserve h new_id now token expected rg = (res, rg')" and "distinct (map gr_token (rg_records rg))"
  obtains e where "res = Inl e" "rg' = purge_locked now rg"
  | r where "res = Inr \<lparr>rv_token = token, rv_id = new_id, rv_binding = gr_binding r, rv_expires = gr_expires r\<rparr>"
    "r \<in> set (rg_records rg)" "gr_token r = token" "\<not> gr_consumed r" "gr_digest r = grant_binding_digest h expected"
    "grant_at token (purge_locked now rg) = Some r"
    "rg' = upd_grant token (\<lambda>r. r\<lparr>gr_reservation_id := new_id\<rparr>) (purge_locked now rg)"
proof (cases "grant_at token (purge_locked now rg)")
  case None
  then have "res = Inl ErrGrantExpired" "rg' = purge_locked now rg" using assms(1) by (auto simp: reserve_def)
  then show thesis by (rule that(1))
next
  case (Some r)
  from tbl_get_SomeD [OF this] have "r \<in> set (rg_records rg)" "gr_token r = token" using purge_subset by auto
  then show thesis using assms(1) Some that by (auto simp: reserve_def Let_def split: if_splits)
qed

lemma upd_grant_records:
  "rg_records (upd_grant token f rg) = map (\<lambda>r. if gr_token r = token then f r else r) (rg_records rg)"
  by (simp add: upd_grant_def tbl_upd_def)

lemma upd_grant_all:
  assumes "r \<in> set (rg_records (upd_grant token f rg))"
    and "\<And>x. x \<in> set (rg_records rg) \<Longrightarrow> P (if gr_token x = token then f x else x)"
  shows "P r"
  using assms unfolding upd_grant_records by (auto simp only: set_map)

lemma upd_grant_distinct:
  assumes "distinct (map gr_token (rg_records rg))" and "\<And>r. gr_token (f r) = gr_token r"
  shows "distinct (map gr_token (rg_records (upd_grant token f rg)))"
  using assms by (simp add: upd_grant_records comp_def if_distrib [of gr_token] cong: if_cong)

lemma issues_inv:
  assumes "grant_inv h y" and "issue u h draws now b expires (gy_registry y) = (res, rg')"
    and "set (drawn draws) \<inter> set (gy_tokens y) = {}"
  shows "grant_inv h (y\<lparr>gy_registry := rg', gy_tokens := drawn draws @ gy_tokens y\<rparr>)" (is "grant_inv h ?y")
proof -
  have i: "distinct (map gr_token (rg_records (gy_registry y)))" "\<forall>r\<in>set (rg_records (gy_registry y)). grant_ok h y r"
    "rv_token ` set (gy_held y) \<subseteq> set (gy_tokens y)" "set (gy_committed y) \<subseteq> set (gy_held y)"
    using assms(1) by (simp_all add: grant_inv_def)
  note n = issue_records [OF assms(2) i(1)]
  have "grant_ok h ?y r" if r: "r \<in> set (rg_records rg')" for r
  proof (cases "r \<in> set (rg_records (gy_registry y))")
    case True
    then have "grant_ok h y r" using i(2) by blast
    then show ?thesis by (rule grant_okI) auto
  next
    case False
    then have f: "gr_token r \<in> set (drawn draws)" "gr_digest r = grant_binding_digest h (gr_binding r)" "gr_reservation_id r = ''''"
      using n r by blast+
    then have "gr_token r \<notin> rv_token ` set (gy_committed y)" using assms(3) i(3,4) by blast
    then show ?thesis using f by (auto simp: grant_ok_def)
  qed
  then show ?thesis using assms(1) n by (auto simp: grant_inv_def)
qed

lemma reserves_inv:
  assumes "grant_inv h y" and "reserve h new_id now token expected (gy_registry y) = (res, rg')"
    and "new_id \<noteq> ''''" "new_id \<notin> rv_id ` set (gy_held y)"
  shows "grant_inv h (y\<lparr>gy_registry := rg', gy_held := (case res of Inl _ \<Rightarrow> [] | Inr v \<Rightarrow> [v]) @ gy_held y\<rparr>)" (is "grant_inv h ?y")
proof -
  have i: "distinct (map gr_token (rg_records (gy_registry y)))" "\<And>r. r \<in> set (rg_records (gy_registry y)) \<Longrightarrow> grant_ok h y r"
    using assms(1) by (simp_all add: grant_inv_def)
  from assms(2) i(1) show ?thesis
  proof (cases rule: reserve_cases)
    case (1 e)
    then have "grant_ok h ?y r" if "r \<in> set (rg_records rg')" for r
      using i(2) purge_subset(1) that by (fastforce simp: grant_ok_def)
    then show ?thesis using assms(1) 1 purge_subset(2) by (simp add: grant_inv_def)
  next
    case (2 r)
    let ?v = "\<lparr>rv_token = token, rv_id = new_id, rv_binding = gr_binding r, rv_expires = gr_expires r\<rparr>"
    have ok: "grant_ok h ?y (if gr_token x = token then x\<lparr>gr_reservation_id := new_id\<rparr> else x)"
      if x: "x \<in> set (rg_records (purge_locked now (gy_registry y)))" for x
    proof -
      have "x \<in> set (rg_records (gy_registry y))" using x purge_subset by blast
      moreover have "gr_token x = token \<Longrightarrow> x = r"
        using x 2(3,6) i(1) purge_subset(2) by (metis option.inject tbl_get_unique)
      ultimately show ?thesis using 2(1) by (cases "gr_token x = token") (auto intro!: grant_okI [OF i(2) [of x]])
    qed
    have "token \<in> set (gy_tokens y)" using i(2) [OF 2(2)] 2(3) by (auto simp: grant_ok_def)
    moreover have "distinct (map gr_token (rg_records rg'))"
      using purge_subset(2) [OF i(1)] by (simp add: 2(7) upd_grant_records comp_def if_distrib [of gr_token] cong: if_cong)
    moreover have "grant_ok h ?y x" if "x \<in> set (rg_records rg')" for x
      using that unfolding 2(7) by (rule upd_grant_all) (rule ok [unfolded 2(7)])
    ultimately show ?thesis
      using assms(1,3,4) 2(1) by (auto simp: grant_inv_def)
  qed
qed

lemma holds_grantE:
  assumes "holds_grant v rg"
  obtains r where "r \<in> set (rg_records rg)" "gr_token r = rv_token v" "gr_reservation_id r = rv_id v" "\<not> gr_consumed r"
    "grant_at (rv_token v) rg = Some r"
  using assms tbl_get_SomeD by (fastforce simp: holds_grant_def split: option.splits)

lemma commits_inv:
  assumes "grant_inv h y" and "v \<in> set (gy_held y)" and "commit_grant v (gy_registry y) = (res, rg')"
  shows "grant_inv h (y\<lparr>gy_registry := rg', gy_committed := (if is_ok res then [v] else []) @ gy_committed y\<rparr>)" (is "grant_inv h ?y")
proof (cases "holds_grant v (gy_registry y)")
  case False
  then show ?thesis using assms by (auto simp: commit_grant_def)
next
  case True
  have i: "\<And>r. r \<in> set (rg_records (gy_registry y)) \<Longrightarrow> grant_ok h y r" using assms(1) by (simp add: grant_inv_def)
  from True obtain r where r: "r \<in> set (rg_records (gy_registry y))" "gr_token r = rv_token v" "\<not> gr_consumed r"
    by (rule holds_grantE)
  then have "rv_token v \<notin> rv_token ` set (gy_committed y)" using i [OF r(1)] by (auto simp: grant_ok_def)
  moreover have ok: "grant_ok h ?y (if gr_token x = rv_token v then x\<lparr>gr_consumed := True, gr_reservation_id := ''''\<rparr> else x)"
    if x: "x \<in> set (rg_records (gy_registry y))" for x
    by (rule grant_okI [OF i [OF x]]) (use i [OF x] in \<open>auto simp: grant_ok_def\<close>)
  moreover have recs: "rg_records rg' = rg_records (upd_grant (rv_token v) (\<lambda>r. r\<lparr>gr_consumed := True, gr_reservation_id := ''''\<rparr>) (gy_registry y))"
    using assms(3) True by (auto simp: commit_grant_def)
  have "grant_ok h ?y x" if "x \<in> set (rg_records rg')" for x
    using that unfolding recs by (rule upd_grant_all) (rule ok)
  moreover have "distinct (map gr_token (rg_records rg'))"
    unfolding recs using assms(1) by (intro upd_grant_distinct) (simp_all add: grant_inv_def)
  moreover have "is_ok res" using assms(3) True by (auto simp: commit_grant_def)
  ultimately show ?thesis using assms(1,2) by (simp add: grant_inv_def)
qed

lemma rollbacks_inv: "grant_inv h y \<Longrightarrow> grant_inv h (y\<lparr>gy_registry := rollback_grant v (gy_registry y)\<rparr>)" (is "_ \<Longrightarrow> grant_inv h ?y")
proof -
  assume i: "grant_inv h y"
  have ok: "grant_ok h ?y (if gr_token x = rv_token v then x\<lparr>gr_reservation_id := ''''\<rparr> else x)" "grant_ok h ?y x"
    if "x \<in> set (rg_records (gy_registry y))" for x
    using that i by (auto intro!: grant_okI [of h y x] simp: grant_inv_def grant_ok_def)
  have "grant_ok h ?y x" if "x \<in> set (rg_records (rollback_grant v (gy_registry y)))" for x
  proof (cases "holds_grant v (gy_registry y)")
    case True
    then have "x \<in> set (rg_records (upd_grant (rv_token v) (\<lambda>r. r\<lparr>gr_reservation_id := ''''\<rparr>) (gy_registry y)))"
      using that by (simp add: rollback_grant_def)
    then show ?thesis by (rule upd_grant_all) (rule ok(1))
  next
    case False
    then show ?thesis using that ok(2) by (simp add: rollback_grant_def)
  qed
  moreover have "distinct (map gr_token (rg_records (rollback_grant v (gy_registry y))))"
    using i by (auto simp: rollback_grant_def grant_inv_def intro!: upd_grant_distinct)
  ultimately show ?thesis using i by (simp add: grant_inv_def)
qed

lemma grant_step_inv: "grant_step u h y y' \<Longrightarrow> grant_inv h y \<Longrightarrow> grant_inv h y'"
proof (induction rule: grant_step.induct)
  case (resets y)
  then show ?case by (auto simp: grant_inv_def reset_grants_def empty_registry_def)
qed (blast intro: issues_inv reserves_inv commits_inv rollbacks_inv)+

interpretation grants: transition_system grant_start "grant_step u h" "grant_inv h" for u h
proof
  show "grant_inv h s" if "grant_start s" for s
    using that by (simp add: grant_start_def grant_inv_def empty_registry_def)
qed (rule grant_step_inv)

lemma held_unique: "grant_inv h y \<Longrightarrow> v \<in> set (gy_held y) \<Longrightarrow> w \<in> set (gy_held y) \<Longrightarrow> rv_id v = rv_id w \<Longrightarrow> v = w"
  by (metis distinct_map grant_inv_def inj_onD)

text \<open>C10.  A grant starts one run: whatever callers issue, reserve, commit, roll back and reset, and whichever
  tokens \<open>crypto/rand\<close> draws as long as none comes twice, no token is committed twice; a committed token can
  never be reserved again, and of all the reservations handed out for a token one at most is valid.\<close>

theorem grant_used_once:
  assumes "reachable_from grant_start (grant_step uuid_ok sha256_hex) y"
  shows "distinct (map rv_token (gy_committed y)) \<and>
    (\<forall>v\<in>set (gy_committed y). \<forall>new_id now expected.
       fst (reserve sha256_hex new_id now (rv_token v) expected (gy_registry y)) = Inl ErrGrantExpired) \<and>
    (\<forall>v\<in>set (gy_held y). \<forall>w\<in>set (gy_held y). rv_token v = rv_token w \<and> holds_grant v (gy_registry y) \<and>
       holds_grant w (gy_registry y) \<longrightarrow> v = w)"
proof (intro conjI ballI allI impI)
  have inv: "grant_inv sha256_hex y" by (rule grants.reachable_inv [OF assms])
  then show "distinct (map rv_token (gy_committed y))" by (simp add: grant_inv_def)
  show "fst (reserve sha256_hex new_id now (rv_token v) expected (gy_registry y)) = Inl ErrGrantExpired"
    if v: "v \<in> set (gy_committed y)" for v new_id now expected
  proof (cases "grant_at (rv_token v) (purge_locked now (gy_registry y))")
    case (Some r)
    from tbl_get_SomeD [OF this] have "r \<in> set (rg_records (gy_registry y))" "gr_token r = rv_token v" using purge_subset by auto
    then have "gr_consumed r" using inv v by (fastforce simp: grant_inv_def grant_ok_def)
    then show ?thesis using Some by (simp add: reserve_def)
  qed (simp add: reserve_def)
  show "v = w" if "v \<in> set (gy_held y)" "w \<in> set (gy_held y)"
    "rv_token v = rv_token w \<and> holds_grant v (gy_registry y) \<and> holds_grant w (gy_registry y)" for v w
    using that by (intro held_unique [OF inv]) (auto elim!: holds_grantE)
qed

text \<open>A token is good for the command it was previewed for and for no other: \<open>Reserve\<close> succeeds only
  when the binding the caller computes now is, field by field, the binding the grant was issued with (or the
  two make SHA-256 collide), and what it hands out carries that binding.\<close>

theorem reserved_grant_matches_command:
  assumes "reachable_from grant_start (grant_step uuid_ok sha256_hex) y"
    and "reserve sha256_hex new_id now token expected (gy_registry y) = (Inr v, rg')"
  shows "rv_token v = token \<and> (\<exists>r. grant_at token (gy_registry y) = Some r \<and> rv_binding v = gr_binding r \<and> \<not> gr_consumed r) \<and>
    (expected = rv_binding v \<or> (framed (grant_fields expected) \<noteq> framed (grant_fields (rv_binding v)) \<and>
       sha256_hex (framed (grant_fields expected)) = sha256_hex (framed (grant_fields (rv_binding v)))))"
proof -
  have inv: "grant_inv sha256_hex y" by (rule grants.reachable_inv [OF assms(1)])
  then have d: "distinct (map gr_token (rg_records (gy_registry y)))" by (simp add: grant_inv_def)
  from assms(2) d show ?thesis
  proof (cases rule: reserve_cases)
    case (2 r)
    have "grant_at token (gy_registry y) = Some r" using tbl_get_unique [OF d 2(2)] 2(3) by simp
    moreover have "gr_digest r = grant_binding_digest sha256_hex (gr_binding r)"
      using inv 2(2) by (simp add: grant_inv_def grant_ok_def)
    ultimately show ?thesis
      using 2 framed_inj grant_fields_inj by (auto simp: grant_binding_digest_def)
  qed simp
qed

lemma scopes_after_purge:
  "fold (\<lambda>r scopes. scopes(grant_scope (gr_binding r) := None)) rows scopes k =
     (if \<exists>r\<in>set rows. grant_scope (gr_binding r) = k then None else scopes k)"
  by (induction rows arbitrary: scopes) auto

text \<open>C40.  \<open>Issue\<close> promises to be idempotent for a command while its grant remains live; it keeps the promise
  exactly when no other record of the same command is due to be purged.  A committed grant stays in the registry
  until it expires, and its purge deletes the command's entry in \<open>scopes\<close>, whichever token that names: the
  next preview then hands out a second token, and both can be reserved.\<close>

theorem second_grant_iff:
  assumes "distinct (map gr_token (rg_records rg))"
    and "rg_scopes rg (grant_scope b) = Some token" and "grant_at token rg = Some r"
    and "gr_digest r = grant_binding_digest sha256_hex b" "now < gr_expires r" "\<not> gr_consumed r" "gr_reservation_id r = ''''"
    and "validate_grant_binding uuid_ok b = Inr ()" "now < expires" "expires - now \<le> 120 * second"
    and "draws = Some bytes # rest" "grant_at (hex_encode bytes) rg = None"
  shows "\<exists>g rg'. issue uuid_ok sha256_hex draws now b expires rg = (Inr g, rg') \<and>
    (if \<exists>x\<in>set (rg_records rg). purgeable now x \<and> grant_scope (gr_binding x) = grant_scope b
     then ig_token g \<noteq> token \<and>
       is_ok (fst (reserve sha256_hex i now token b rg')) \<and> is_ok (fst (reserve sha256_hex i now (ig_token g) b rg'))
     else ig_token g = token)"
proof -
  let ?p = "purge_locked now rg"
  have live: "\<not> purgeable now r" "gr_token r = token" "r \<in> set (rg_records rg)"
    using assms(3,5) tbl_get_SomeD [OF assms(3)] by (auto simp: purgeable_def)
  then have p: "grant_at token ?p = Some r"
    using tbl_get_unique [OF purge_subset(2) [OF assms(1)], of r now] by (simp add: purge_locked_def)
  have f: "grant_at (hex_encode bytes) ?p = None" "hex_encode bytes \<noteq> token"
    using assms(12) purge_subset(1) [of now rg] live(2,3) by (auto simp: tbl_get_None_iff)
  have s: "rg_scopes ?p (grant_scope b) =
      (if \<exists>x\<in>set (rg_records rg). purgeable now x \<and> grant_scope (gr_binding x) = grant_scope b then None else Some token)"
    using assms(2) by (auto simp: purge_locked_def scopes_after_purge)
  show ?thesis
  proof (cases "\<exists>x\<in>set (rg_records rg). purgeable now x \<and> grant_scope (gr_binding x) = grant_scope b")
    case False
    then have "rg_scopes ?p (grant_scope b) = Some token" using s by simp
    then show ?thesis
      unfolding if_not_P [OF False] using p assms(4,6,7,8,9,10) by (simp add: issue_def Let_def)
  next
    case True
    define n where "n = \<lparr>gr_binding = b, gr_digest = grant_binding_digest sha256_hex b, gr_token = hex_encode bytes,
      gr_expires = expires, gr_reservation_id = '''', gr_consumed = False\<rparr>"
    define rg' where "rg' = ?p\<lparr>rg_records := rg_records ?p @ [n], rg_scopes := (rg_scopes ?p)(grant_scope b \<mapsto> hex_encode bytes)\<rparr>"
    have d: "draw_token 4 draws ?p = Inr (hex_encode bytes)"
      using f(1) by (simp add: assms(11) numeral_eq_Suc)
    have "issue uuid_ok sha256_hex draws now b expires rg = (Inr \<lparr>ig_token = hex_encode bytes, ig_expires_at = rfc3339nano expires\<rparr>, rg')"
      using True s d assms(8,9,10) by (simp add: issue_def Let_def issue_new_def rg'_def n_def)
    moreover have again: "rg_records (purge_locked now rg') = rg_records ?p @ [n]"
      using assms(9) by (auto simp: purge_locked_def rg'_def n_def purgeable_def)
    moreover have "is_ok (fst (reserve sha256_hex i now token b rg'))"
      using again p assms(4,6,7) by (simp add: reserve_def Let_def tbl_get_append)
    moreover have "is_ok (fst (reserve sha256_hex i now (hex_encode bytes) b rg'))"
      using again f(1) by (simp add: reserve_def Let_def tbl_get_append tbl_get_Cons n_def)
    ultimately show ?thesis using True f(2) by auto
  qed
qed

section \<open>An example\<close>

definition demo_grant_binding :: grant_binding where
  "demo_grant_binding = \<lparr>gb_job_id = ''j'', gb_command_request_id = ''c'', gb_action = GrantStart, gb_decision = '''',
     gb_after_resolution = '''', gb_expected_state_revision = ''2'', gb_checkpoint_digest = ''d'', gb_incident_digest = '''',
     gb_source_sha256 = ''s'', gb_staging_sha256 = ''t'', gb_normalization_version = ''1'', gb_spec_digest = ''p'',
     gb_target_digest = ''g'', gb_profile_id = ''p'', gb_profile_revision = ''1'', gb_connection_id = ''x'',
     gb_connection_generation = ''1'', gb_protection_revision = ''1'', gb_lease_id = ''l''\<rparr>"

definition demo_grant :: grant_record where
  "demo_grant = \<lparr>gr_binding = demo_grant_binding, gr_digest = '''', gr_token = ''00'', gr_expires = 60 * second,
     gr_reservation_id = '''', gr_consumed = True\<rparr>"

text \<open>One grant used and not yet expired, a second one issued for the same command.\<close>

definition demo_registry :: registry where
  "demo_registry = \<lparr>rg_records = [demo_grant, demo_grant\<lparr>gr_token := ''01'', gr_expires := 120 * second, gr_consumed := False\<rparr>],
     rg_scopes = [grant_scope demo_grant_binding \<mapsto> ''01'']\<rparr>"

definition demo_grant_issued :: grant_sys where
  "demo_grant_issued = \<lparr>gy_registry = \<lparr>rg_records = [demo_grant\<lparr>gr_consumed := False\<rparr>], rg_scopes = [grant_scope demo_grant_binding \<mapsto> ''00'']\<rparr>,
     gy_held = [], gy_committed = [], gy_tokens = [''00'']\<rparr>"

definition demo_reservation :: reservation where
  "demo_reservation = \<lparr>rv_token = ''00'', rv_id = ''i'', rv_binding = demo_grant_binding, rv_expires = 60 * second\<rparr>"

definition demo_reserved :: grant_sys where
  "demo_reserved = demo_grant_issued\<lparr>gy_registry := \<lparr>rg_records = [demo_grant\<lparr>gr_consumed := False, gr_reservation_id := ''i''\<rparr>],
     rg_scopes = [grant_scope demo_grant_binding \<mapsto> ''00'']\<rparr>, gy_held := [demo_reservation]\<rparr>"

definition demo_committed :: grant_sys where
  "demo_committed = demo_reserved\<lparr>gy_registry := \<lparr>rg_records = [demo_grant],
     rg_scopes = [grant_scope demo_grant_binding \<mapsto> ''00''](grant_scope demo_grant_binding := None)\<rparr>, gy_committed := [demo_reservation]\<rparr>"

abbreviation demo_grant_step :: "grant_sys \<Rightarrow> grant_sys \<Rightarrow> bool" where
  "demo_grant_step \<equiv> grant_step (\<lambda>_. True) (\<lambda>_. '''')"

lemma demo_grant_texts:
  "validate_grant_binding (\<lambda>_. True) demo_grant_binding = Inr ()" "hex_encode [CHR 0x00] = ''00''" "hex_encode [CHR 0x02] = ''02''"
  by code_simp+

lemma demo_grant_issued_reachable: "reachable_from grant_start demo_grant_step demo_grant_issued"
proof -
  have "issue (\<lambda>_. True) (\<lambda>_. '''') [Some [CHR 0x00]] 0 demo_grant_binding (60 * second) empty_registry =
      (Inr \<lparr>ig_token = ''00'', ig_expires_at = rfc3339nano (60 * second)\<rparr>, gy_registry demo_grant_issued)"
    by (simp add: issue_def demo_grant_texts second_def empty_registry_def purge_locked_def issue_new_def numeral_eq_Suc tbl_get_Nil
        demo_grant_issued_def demo_grant_def grant_binding_digest_def)
  then have "demo_grant_step \<lparr>gy_registry = empty_registry, gy_held = [], gy_committed = [], gy_tokens = []\<rparr> demo_grant_issued"
    using grant_step.issues [of "\<lambda>_. True" "\<lambda>_. ''''" "[Some [CHR 0x00]]" 0 demo_grant_binding "60 * second"
        "\<lparr>gy_registry = empty_registry, gy_held = [], gy_committed = [], gy_tokens = []\<rparr>"]
    by (simp add: demo_grant_issued_def drawn_def map_filter_simps demo_grant_texts)
  moreover have "reachable_from grant_start demo_grant_step \<lparr>gy_registry = empty_registry, gy_held = [], gy_committed = [], gy_tokens = []\<rparr>"
    by (rule reach_init) (simp add: grant_start_def)
  ultimately show ?thesis by (blast intro: reach_step)
qed

lemma demo_reserve:
  "reserve (\<lambda>_. '''') ''i'' 0 ''00'' demo_grant_binding (gy_registry demo_grant_issued) = (Inr demo_reservation, gy_registry demo_reserved)"
  by (simp add: reserve_def purge_locked_def demo_grant_issued_def demo_grant_def purgeable_def second_def tbl_get_Cons
      grant_binding_digest_def demo_reservation_def upd_grant_def table_simps demo_reserved_def)

lemma demo_committed_reachable: "reachable_from grant_start demo_grant_step demo_committed"
proof -
  have "demo_grant_step demo_grant_issued demo_reserved"
    using grant_step.reserves [OF demo_reserve, of "\<lambda>_. True"] by (simp add: demo_reserved_def demo_grant_issued_def)
  moreover have "commit_grant demo_reservation (gy_registry demo_reserved) = (Inr (), gy_registry demo_committed)"
    by (simp add: commit_grant_def holds_grant_def demo_reserved_def demo_reservation_def demo_committed_def tbl_get_Cons
        demo_grant_def upd_grant_def table_simps)
  then have "demo_grant_step demo_reserved demo_committed"
    using grant_step.commits [of demo_reservation demo_reserved "Inr ()" _ "\<lambda>_. True" "\<lambda>_. ''''"]
    by (simp add: demo_committed_def demo_reserved_def demo_grant_issued_def)
  ultimately show ?thesis using demo_grant_issued_reachable by (blast intro: reach_step)
qed

theorem grant_used_once_witness:
  "fst (reserve (\<lambda>_. '''') ''k'' 0 ''00'' demo_grant_binding (gy_registry demo_committed)) = Inl ErrGrantExpired"
  using grant_used_once [OF demo_committed_reachable]
  by (simp add: demo_committed_def demo_reservation_def)

theorem reserved_grant_matches_command_witness: "rv_token demo_reservation = ''00''"
  using reserved_grant_matches_command [OF demo_grant_issued_reachable demo_reserve] by simp

theorem second_grant_iff_witness:
  "\<exists>g rg'. issue (\<lambda>_. True) (\<lambda>_. '''') [Some [CHR 0x02]] (60 * second) demo_grant_binding (120 * second) demo_registry = (Inr g, rg') \<and>
     ig_token g \<noteq> ''01''"
proof -
  have "purgeable (60 * second) demo_grant" by (simp add: purgeable_def demo_grant_def)
  moreover have "demo_grant \<in> set (rg_records demo_registry)" by (simp add: demo_registry_def)
  moreover have "gr_binding demo_grant = demo_grant_binding" by (simp add: demo_grant_def)
  ultimately have "\<exists>x\<in>set (rg_records demo_registry). purgeable (60 * second) x \<and>
      grant_scope (gr_binding x) = grant_scope demo_grant_binding" by metis
  with second_grant_iff [of demo_registry demo_grant_binding "''01''" "demo_grant\<lparr>gr_token := ''01'', gr_expires := 120 * second, gr_consumed := False\<rparr>"
      "\<lambda>_. ''''" "60 * second" "\<lambda>_. True" "120 * second" "[Some [CHR 0x02]]" "[CHR 0x02]" "[]" "''i''"]
  show ?thesis
    by (auto simp: demo_registry_def demo_grant_def tbl_get_Cons tbl_get_Nil grant_binding_digest_def demo_grant_texts second_def)
qed

end
