(* ===== verification/Import_Authorizer.thy ===== *)
theory Import_Authorizer
  imports Import_Grants Import_Control Protection
begin

text \<open>
  \<open>internal/transfer/authorizer.go\<close>: previews, starts, resolutions and attempts of an import, each behind the
  write protection of its connection.  \<open>auth_state\<close> is what a \<open>RunAuthorizer\<close> works on: the protection manager
  with the database in it, the grant registry, the permits of the repository.

  A callback that runs under the gate gives back what it returned and the permits it left; \<open>auth_env\<close> holds
  the parameters (\<open>uuid.Parse\<close>, SHA-256, the checkpoint hash, storage failures, clock readings, new ids, random
  bytes); every reading has its own index.
\<close>

section \<open>Requests\<close>

record preview_run_request =
  pw_job_id :: string
  pw_command_request_id :: string
  pw_expected_state_revision :: string
  pw_action :: string
  pw_decision :: string
  pw_after_resolution :: string

record import_run_preview =
  ro_job_id :: string
  ro_state :: string
  ro_checkpoint_digest :: string
  ro_logical_offset :: string
  ro_adaptive_max_points :: string
  ro_adaptive_max_bytes :: string
  ro_target_digest :: string
  ro_executable :: bool
  ro_grant :: "run_grant option"

record authorized_start_request =
  as_job_id :: string
  as_command_request_id :: string
  as_expected_state_revision :: string
  as_action :: string
  as_grant :: string

record authorized_resolve_request =
  av_job_id :: string
  av_incident_id :: string
  av_parent_digest :: string
  av_command_request_id :: string
  av_expected_state_revision :: string
  av_decision :: string
  av_after_resolution :: string
  av_grant :: string

record authorizer =
  az_profile_id :: string
  az_profile_revision :: string
  az_connection_id :: string
  az_generation :: string

record auth_state =
  au_manager :: manager
  au_grants :: registry
  au_permits :: permits

record auth_env =
  ae_uuid_ok :: "string \<Rightarrow> bool"
  ae_sha256_hex :: "string \<Rightarrow> string"
  ae_hash :: "checkpoint \<Rightarrow> string"
  ae_io :: "nat \<Rightarrow> bool"
  ae_clock :: "nat \<Rightarrow> time"
  ae_ids :: "nat \<Rightarrow> string"
  ae_draws :: "string option list"

abbreviation au_db :: "auth_state \<Rightarrow> db" where "au_db y \<equiv> mg_db (au_manager y)"

text \<open>The readings from index \<open>k\<close> on.\<close>

definition from_nth :: "nat \<Rightarrow> (nat \<Rightarrow> 'a) \<Rightarrow> nat \<Rightarrow> 'a" where "from_nth k f = (\<lambda>i. f (k + i))"

section \<open>Decisions\<close>

definition resolution_after :: "string \<Rightarrow> bool result" where
  "resolution_after after =
     (if after \<noteq> ResolutionContinue \<and> after \<noteq> ResolutionPause then Inl ErrImportState else Inr (after = ResolutionContinue))"

definition resolution_allowed :: "import_job \<Rightarrow> string \<Rightarrow> string \<Rightarrow> bool result" where
  "resolution_allowed job decision after =
     (case im_open_incident job of
        None \<Rightarrow> Inl ErrOpenIncident
      | Some n \<Rightarrow>
          let state = t_state (im_task job) in
          if in_status n \<noteq> ''OPEN'' then Inl ErrOpenIncident
          else if decision = DecisionReplayExact then
            (if after \<noteq> ResolutionContinue \<and> after \<noteq> ResolutionPause then Inl ErrImportState
             else if \<not> decision_state state then Inl ErrImportState
             else Inr True)
          else if decision = DecisionAssumeCommitted then
            (if state \<noteq> ImportNeedsUnknownDecision \<or> in_kind n \<noteq> ''UNKNOWN'' then Inl ErrImportState else resolution_after after)
          else if decision = DecisionAcceptPartial then
            (if state \<noteq> ImportNeedsPartialDecision \<or> in_kind n \<noteq> ''PARTIAL'' then Inl ErrImportState else resolution_after after)
          else if decision = DecisionAbort then
            (if after \<noteq> '''' \<or> \<not> decision_state state then Inl ErrImportState else Inr False)
          else Inl ErrImportState)"

definition action_allowed :: "preview_run_request \<Rightarrow> import_job \<Rightarrow> bool" where
  "action_allowed req job =
     (let state = t_state (im_task job); plain = (pw_decision req = '''' \<and> pw_after_resolution req = '''') in
      if pw_action req = GrantStart then state = ImportReady \<and> plain
      else if pw_action req = GrantResume then state = ImportPausedSafe \<and> plain
      else if pw_action req \<noteq> GrantResolve then False
      else is_ok (resolution_allowed job (pw_decision req) (pw_after_resolution req)))"

definition permit_invalidation_reason_for :: "go_error \<Rightarrow> string option" where
  "permit_invalidation_reason_for e =
     (if e = ErrLeaseExpired then Some ''LEASE_EXPIRED''
      else if e = ErrConnectionClosed then Some ''CONNECTION_CLOSED''
      else if e = ErrBindingMismatch then Some ''PROTECTION_BINDING_CHANGED''
      else if e = ErrLocked then Some ''PROTECTION_LOCKED''
      else None)"

definition run_binding :: "auth_env \<Rightarrow> authorizer \<Rightarrow> preview_run_request \<Rightarrow> import_job \<Rightarrow> dispatch_binding \<Rightarrow> grant_binding" where
  "run_binding env az req job b =
     \<lparr>gb_job_id = pw_job_id req, gb_command_request_id = pw_command_request_id req, gb_action = pw_action req,
      gb_decision = pw_decision req, gb_after_resolution = pw_after_resolution req,
      gb_expected_state_revision = pw_expected_state_revision req, gb_checkpoint_digest = im_checkpoint_digest job,
      gb_incident_digest = (case im_open_incident job of
          Some n \<Rightarrow> if pw_action req = GrantResolve then incident_digest (ae_sha256_hex env) n else ''''
        | None \<Rightarrow> ''''),
      gb_source_sha256 = cp_source_sha256 (im_checkpoint job), gb_staging_sha256 = cp_staging_sha256 (im_checkpoint job),
      gb_normalization_version = cp_normalization_version (im_checkpoint job), gb_spec_digest = cp_spec_digest (im_checkpoint job),
      gb_target_digest = cp_target_digest (im_checkpoint job), gb_profile_id = az_profile_id az,
      gb_profile_revision = az_profile_revision az, gb_connection_id = az_connection_id az,
      gb_connection_generation = db_connection_generation b, gb_protection_revision = db_protection_revision b,
      gb_lease_id = db_lease_id b\<rparr>"

definition run_permit :: "string \<Rightarrow> import_job \<Rightarrow> grant_binding \<Rightarrow> permit" where
  "run_permit segment job b =
     \<lparr>pm_run_segment_id = segment, pm_checkpoint_digest = im_checkpoint_digest job, pm_profile_id = gb_profile_id b,
      pm_profile_revision = gb_profile_revision b, pm_connection_id = gb_connection_id b,
      pm_connection_generation = gb_connection_generation b, pm_protection_revision = gb_protection_revision b,
      pm_lease_id = gb_lease_id b\<rparr>"

definition permit_binding :: "permit \<Rightarrow> dispatch_binding" where
  "permit_binding p = \<lparr>db_connection_id = pm_connection_id p, db_connection_generation = pm_connection_generation p,
     db_profile_revision = pm_profile_revision p, db_protection_revision = pm_protection_revision p,
     db_lease_id = pm_lease_id p\<rparr>"

section \<open>Preview\<close>

definition preview_of :: "import_job \<Rightarrow> import_run_preview" where
  "preview_of job =
     \<lparr>ro_job_id = t_id (im_task job), ro_state = t_state (im_task job), ro_checkpoint_digest = im_checkpoint_digest job,
      ro_logical_offset = cp_logical_offset (im_checkpoint job), ro_adaptive_max_points = cp_adaptive_max_points (im_checkpoint job),
      ro_adaptive_max_bytes = cp_adaptive_max_bytes (im_checkpoint job), ro_target_digest = cp_target_digest (im_checkpoint job),
      ro_executable = False, ro_grant = None\<rparr>"

text \<open>The callback of \<open>WithGrantBinding\<close>: the grant lives 120 s at most and never outlives the lease.\<close>

definition issue_under_gate ::
  "auth_env \<Rightarrow> authorizer \<Rightarrow> preview_run_request \<Rightarrow> import_job \<Rightarrow> dispatch_binding \<Rightarrow> protection_snapshot \<Rightarrow> registry \<Rightarrow>
     run_grant result \<times> registry" where
  "issue_under_gate env az req job b snapshot rg =
     (if db_profile_revision b \<noteq> az_profile_revision az then (Inl ErrBindingMismatch, rg)
      else case ps_unlocked_until snapshot of
        None \<Rightarrow> (Inl ErrBindingMismatch, rg)
      | Some until \<Rightarrow>
          (case parse_rfc3339nano until of
             None \<Rightarrow> (Inl ErrBindingMismatch, rg)
           | Some lease_expiry \<Rightarrow>
               issue (ae_uuid_ok env) (ae_sha256_hex env) (ae_draws env) (ae_clock env 5) (run_binding env az req job b)
                 (min lease_expiry (ae_clock env 4 + 120 * second)) rg))"

definition preview_grant ::
  "auth_env \<Rightarrow> authorizer \<Rightarrow> preview_run_request \<Rightarrow> import_job \<Rightarrow> auth_state \<Rightarrow> import_run_preview result \<times> auth_state" where
  "preview_grant env az req job y =
     (case with_grant_binding (ae_io env 0) (ae_clock env) (az_connection_id az) (az_generation az)
         (\<lambda>b snapshot d. (Inr (issue_under_gate env az req job b snapshot (au_grants y)), d)) (au_manager y) of
        ((_, Inl e), m) \<Rightarrow>
          (if e = ErrLocked \<or> e = ErrLeaseExpired then Inr (preview_of job) else Inl e, y\<lparr>au_manager := m\<rparr>)
      | ((_, Inr (Inl e, rg)), m) \<Rightarrow>
          (if e = ErrLocked \<or> e = ErrLeaseExpired then Inr (preview_of job) else Inl e, y\<lparr>au_manager := m, au_grants := rg\<rparr>)
      | ((_, Inr (Inr g, rg)), m) \<Rightarrow>
          (Inr ((preview_of job)\<lparr>ro_executable := True, ro_grant := Some g\<rparr>), y\<lparr>au_manager := m, au_grants := rg\<rparr>))"

definition preview_resolution ::
  "auth_env \<Rightarrow> authorizer \<Rightarrow> preview_run_request \<Rightarrow> import_job \<Rightarrow> auth_state \<Rightarrow> import_run_preview result \<times> auth_state" where
  "preview_resolution env az req job y =
     (case resolution_allowed job (pw_decision req) (pw_after_resolution req) of
        Inl e \<Rightarrow> (Inl e, y)
      | Inr True \<Rightarrow> preview_grant env az req job y
      | Inr False \<Rightarrow>
          (case with_generation_gate (az_connection_id az) (az_generation az) (Pair (Inr ())) (au_manager y) of
             (Inl e, m) \<Rightarrow> (Inl e, y\<lparr>au_manager := m\<rparr>)
           | (Inr _, m) \<Rightarrow> (Inr ((preview_of job)\<lparr>ro_executable := True\<rparr>), y\<lparr>au_manager := m\<rparr>)))"

definition preview_run ::
  "auth_env \<Rightarrow> authorizer \<Rightarrow> preview_run_request \<Rightarrow> auth_state \<Rightarrow> import_run_preview result \<times> auth_state" where
  "preview_run env az req y =
     (if \<not> ae_uuid_ok env (pw_command_request_id req) then (Inl ErrGrantMismatch, y)
      else case get_import (pw_job_id req) (au_db y) of
        Inl e \<Rightarrow> (Inl e, y)
      | Inr job \<Rightarrow>
          if im_profile_id job \<noteq> az_profile_id az then (Inl ErrImportProfileMismatch, y)
          else if t_state_revision (im_task job) \<noteq> pw_expected_state_revision req \<or> \<not> action_allowed req job
          then (Inl ErrImportState, y)
          else if pw_action req = GrantResolve then preview_resolution env az req job y
          else preview_grant env az req job y)"

section \<open>Commands under a grant\<close>

definition command_recorded :: "string \<Rightarrow> string \<Rightarrow> db \<Rightarrow> bool" where
  "command_recorded scope digest d =
     (case tbl_get ce_scope scope (command_t d) of None \<Rightarrow> False | Some e \<Rightarrow> ce_request_digest e = digest)"

definition replay_for_profile :: "authorizer \<Rightarrow> string \<Rightarrow> string \<Rightarrow> string \<Rightarrow> db \<Rightarrow> (import_job \<times> bool) result option" where
  "replay_for_profile az scope digest i d =
     map_option (\<lambda>r. rbind r (\<lambda>job. if im_profile_id job \<noteq> az_profile_id az then Inl ErrImportProfileMismatch else Inr (job, True)))
       (replay_command scope digest i d)"

text \<open>
  What \<open>Start\<close> and \<open>Resolve\<close> share: reserve the grant, run \<open>commit\<close> under the gate once the grant is found live,
  commit the grant when the run was stored (also when only the ledger shows that it was), roll it back otherwise.
\<close>

definition guarded_commit ::
  "auth_env \<Rightarrow> reservation \<Rightarrow> registry \<Rightarrow> (repo \<Rightarrow> (import_job \<times> bool) result \<times> repo) \<Rightarrow> permits \<Rightarrow> db \<Rightarrow>
     ((import_job \<times> bool) result \<times> permits) \<times> db" where
  "guarded_commit env v rg commit ps d =
     (case validate_live (ae_clock env 9) v rg of
        Inl e \<Rightarrow> ((Inl e, ps), d)
      | Inr _ \<Rightarrow> (case commit \<lparr>rp_db = d, rp_permits = ps\<rparr> of (res, r) \<Rightarrow> ((res, rp_permits r), rp_db r)))"

definition settle_grant ::
  "string \<Rightarrow> string \<Rightarrow> string \<Rightarrow> reservation \<Rightarrow> (import_job \<times> bool) result \<Rightarrow> auth_state \<Rightarrow>
     (import_job \<times> bool) result \<times> auth_state" where
  "settle_grant scope digest i v res y =
     (case res of
        Inr out \<Rightarrow>
          (case commit_grant v (au_grants y) of
             (Inl e, rg) \<Rightarrow> (Inl e, y\<lparr>au_grants := rollback_grant v rg\<rparr>)
           | (Inr _, rg) \<Rightarrow> (Inr out, y\<lparr>au_grants := rollback_grant v rg\<rparr>))
      | Inl e \<Rightarrow>
          if command_recorded scope digest (au_db y) then
            (case replay_command scope digest i (au_db y) of
               Some (Inr job) \<Rightarrow> (Inr (job, True), y\<lparr>au_grants := rollback_grant v (snd (commit_grant v (au_grants y)))\<rparr>)
             | Some (Inl e') \<Rightarrow> (Inl e', y\<lparr>au_grants := rollback_grant v (au_grants y)\<rparr>)
             | None \<Rightarrow> (Inl e, y\<lparr>au_grants := rollback_grant v (au_grants y)\<rparr>))
          else (Inl e, y\<lparr>au_grants := rollback_grant v (au_grants y)\<rparr>))"

definition run_with_grant ::
  "auth_env \<Rightarrow> authorizer \<Rightarrow> preview_run_request \<Rightarrow> import_job \<Rightarrow> string \<Rightarrow> string \<Rightarrow> string \<Rightarrow>
     (reservation \<Rightarrow> permit \<Rightarrow> repo \<Rightarrow> (import_job \<times> bool) result \<times> repo) \<Rightarrow> auth_state \<Rightarrow>
     (import_job \<times> bool) result \<times> auth_state" where
  "run_with_grant env az req job token scope digest commit y =
     (case with_grant_binding (ae_io env 0) (ae_clock env) (az_connection_id az) (az_generation az)
         (\<lambda>b _ d. (Inr b, d)) (au_manager y) of
        ((_, Inl e), m) \<Rightarrow> (Inl e, y\<lparr>au_manager := m\<rparr>)
      | ((_, Inr b), m) \<Rightarrow>
          let binding = run_binding env az req job b; y = y\<lparr>au_manager := m\<rparr> in
          (case reserve (ae_sha256_hex env) (ae_ids env 0) (ae_clock env 4) token binding (au_grants y) of
             (Inl e, rg) \<Rightarrow> (Inl e, y\<lparr>au_grants := rg\<rparr>)
           | (Inr v, rg) \<Rightarrow>
               let y = y\<lparr>au_grants := rg\<rparr>; p = run_permit (ae_ids env 1) job binding in
               (case authorized_callback (ae_io env 1) (from_nth 5 (ae_clock env)) (protection_binding binding)
                   (guarded_commit env v rg (commit v p) (au_permits y)) (au_manager y) of
                  (Inl e, m) \<Rightarrow> settle_grant scope digest (pw_job_id req) v (Inl e) (y\<lparr>au_manager := m\<rparr>)
                | (Inr (res, ps), m) \<Rightarrow>
                    settle_grant scope digest (pw_job_id req) v res (y\<lparr>au_manager := m, au_permits := ps\<rparr>))))"

section \<open>Start\<close>

definition run_command_scope :: "authorized_start_request \<Rightarrow> string" where
  "run_command_scope req = join unit_sep [''IMPORT'', as_job_id req, as_action req, as_command_request_id req]"

definition run_command_digest :: "(string \<Rightarrow> string) \<Rightarrow> authorized_start_request \<Rightarrow> string" where
  "run_command_digest sha256_hex req = sha256_hex (join [newline] [''ImportRunCommandV1'', as_job_id req,
     as_command_request_id req, as_action req, as_expected_state_revision req, sha256_hex (as_grant req)])"

definition start_as_preview :: "authorized_start_request \<Rightarrow> preview_run_request" where
  "start_as_preview req = \<lparr>pw_job_id = as_job_id req, pw_command_request_id = as_command_request_id req,
     pw_expected_state_revision = as_expected_state_revision req, pw_action = as_action req, pw_decision = '''',
     pw_after_resolution = ''''\<rparr>"

definition start_request_of :: "auth_env \<Rightarrow> authorizer \<Rightarrow> authorized_start_request \<Rightarrow> reservation \<Rightarrow> permit \<Rightarrow> start_run_request" where
  "start_request_of env az req v p =
     \<lparr>sr_job_id = as_job_id req, sr_expected_profile_id = az_profile_id az, sr_run_segment_id = pm_run_segment_id p,
      sr_kind = ''NORMAL'', sr_command_scope = run_command_scope req,
      sr_command_digest = run_command_digest (ae_sha256_hex env) req,
      sr_expected_state_revision = as_expected_state_revision req, sr_grant_expires_at = Some (rv_expires v),
      sr_command_expires_at = ae_clock env 10 + 90 * 24 * hour, sr_permit = p\<rparr>"

definition start_authorized ::
  "auth_env \<Rightarrow> authorizer \<Rightarrow> authorized_start_request \<Rightarrow> auth_state \<Rightarrow> (import_job \<times> bool) result \<times> auth_state" where
  "start_authorized env az req y =
     (if \<not> ae_uuid_ok env (as_command_request_id req) \<or> as_grant req = '''' then (Inl ErrGrantMismatch, y)
      else
        let scope = run_command_scope req; digest = run_command_digest (ae_sha256_hex env) req; i = as_job_id req in
        case replay_for_profile az scope digest i (au_db y) of
          Some r \<Rightarrow> (r, y)
        | None \<Rightarrow>
            (case get_import i (au_db y) of
               Inl e \<Rightarrow> (Inl e, y)
             | Inr job \<Rightarrow>
                 if im_profile_id job \<noteq> az_profile_id az then (Inl ErrImportProfileMismatch, y)
                 else if t_state_revision (im_task job) \<noteq> as_expected_state_revision req \<or>
                   \<not> action_allowed (start_as_preview req) job then (Inl ErrImportState, y)
                 else run_with_grant env az (start_as_preview req) job (as_grant req) scope digest
                   (\<lambda>v p. start_run (from_nth 2 (ae_io env)) (from_nth 11 (ae_clock env)) (ae_ids env 2)
                      (start_request_of env az req v p)) y))"

section \<open>Resolve\<close>

definition resolve_commit_of :: "auth_env \<Rightarrow> authorized_resolve_request \<Rightarrow> resolution_commit" where
  "resolve_commit_of env req =
     \<lparr>rc_job_id = av_job_id req, rc_incident_id = av_incident_id req, rc_parent_digest = av_parent_digest req,
      rc_expected_state_revision = av_expected_state_revision req, rc_command_request_id = av_command_request_id req,
      rc_decision = av_decision req, rc_after_resolution = av_after_resolution req,
      rc_grant_token_hash = (if av_grant req = '''' then '''' else ae_sha256_hex env (av_grant req)),
      rc_run_segment_id = '''', rc_permit = None\<rparr>"

definition abort_of :: "authorized_resolve_request \<Rightarrow> abort_request" where
  "abort_of req = \<lparr>ab_job_id = av_job_id req, ab_incident_id = av_incident_id req, ab_parent_digest = av_parent_digest req,
     ab_expected_state_revision = av_expected_state_revision req, ab_command_request_id = av_command_request_id req\<rparr>"

definition resolve_as_preview :: "authorized_resolve_request \<Rightarrow> preview_run_request" where
  "resolve_as_preview req = \<lparr>pw_job_id = av_job_id req, pw_command_request_id = av_command_request_id req,
     pw_expected_state_revision = av_expected_state_revision req, pw_action = GrantResolve, pw_decision = av_decision req,
     pw_after_resolution = av_after_resolution req\<rparr>"

definition resolve_replay :: "auth_env \<Rightarrow> authorizer \<Rightarrow> authorized_resolve_request \<Rightarrow> db \<Rightarrow> (import_job \<times> bool) result option" where
  "resolve_replay env az req d =
     (if av_decision req = DecisionAbort
      then replay_for_profile az (abort_command_scope (abort_of req)) (abort_command_digest (ae_sha256_hex env) (abort_of req)) (av_job_id req) d
      else replay_for_profile az (resolution_command_scope (resolve_commit_of env req))
        (resolution_command_digest (ae_sha256_hex env) (resolve_commit_of env req)) (av_job_id req) d)"

text \<open>A command that needs no grant, under \<open>WithGenerationGate\<close>.\<close>

definition run_under_generation ::
  "authorizer \<Rightarrow> (repo \<Rightarrow> (import_job \<times> bool) result \<times> repo) \<Rightarrow> auth_state \<Rightarrow> (import_job \<times> bool) result \<times> auth_state" where
  "run_under_generation az f y =
     (case conn_at (au_manager y) (az_connection_id az) (az_generation az) of
        None \<Rightarrow> (Inl protection_ErrNotFound, y)
      | Some _ \<Rightarrow>
          (case f \<lparr>rp_db = au_db y, rp_permits = au_permits y\<rparr> of
             (res, r) \<Rightarrow> (res, y\<lparr>au_manager := (au_manager y)\<lparr>mg_db := rp_db r\<rparr>, au_permits := rp_permits r\<rparr>)))"

definition resolve_checked ::
  "auth_env \<Rightarrow> authorizer \<Rightarrow> authorized_resolve_request \<Rightarrow> import_job \<Rightarrow> auth_state \<Rightarrow> (import_job \<times> bool) result \<times> auth_state" where
  "resolve_checked env az req job y =
     (case resolution_allowed job (av_decision req) (av_after_resolution req) of
        Inl e \<Rightarrow> (Inl e, y)
      | Inr needs_grant \<Rightarrow>
          let commit = resolve_commit_of env req in
          if av_decision req = DecisionAbort then
            run_under_generation az (abort (ae_uuid_ok env) (ae_sha256_hex env) (ae_io env 2) (ae_clock env 11) (ae_clock env 12)
              (abort_of req)) y
          else if \<not> needs_grant then
            run_under_generation az (resolve_incident (ae_uuid_ok env) (ae_sha256_hex env) (ae_hash env) (from_nth 2 (ae_io env))
              (from_nth 11 (ae_clock env)) (ae_ids env 2) commit) y
          else if av_grant req = '''' then (Inl ErrGrantMismatch, y)
          else run_with_grant env az (resolve_as_preview req) job (av_grant req) (resolution_command_scope commit)
            (resolution_command_digest (ae_sha256_hex env) commit)
            (\<lambda>v p. resolve_incident (ae_uuid_ok env) (ae_sha256_hex env) (ae_hash env) (from_nth 2 (ae_io env))
               (from_nth 11 (ae_clock env)) (ae_ids env 2) (commit\<lparr>rc_run_segment_id := pm_run_segment_id p, rc_permit := Some p\<rparr>)) y)"

definition resolve_authorized ::
  "auth_env \<Rightarrow> authorizer \<Rightarrow> authorized_resolve_request \<Rightarrow> auth_state \<Rightarrow> (import_job \<times> bool) result \<times> auth_state" where
  "resolve_authorized env az req y =
     (if \<not> ae_uuid_ok env (av_command_request_id req) then (Inl ErrGrantMismatch, y)
      else case resolve_replay env az req (au_db y) of
        Some r \<Rightarrow> (r, y)
      | None \<Rightarrow>
          (case get_import (av_job_id req) (au_db y) of
             Inl e \<Rightarrow> (Inl e, y)
           | Inr job \<Rightarrow>
               if im_profile_id job \<noteq> az_profile_id az then (Inl ErrImportProfileMismatch, y)
               else if t_state_revision (im_task job) \<noteq> av_expected_state_revision req \<or>
                 im_checkpoint_digest job \<noteq> av_parent_digest req \<or>
                 (case im_open_incident job of None \<Rightarrow> True | Some n \<Rightarrow> in_id n \<noteq> av_incident_id req) then (Inl ErrImportState, y)
               else resolve_checked env az req job y))"

section \<open>BeginAttempt\<close>

definition attempt_permit :: "authorizer \<Rightarrow> attempt_request \<Rightarrow> permits \<Rightarrow> permit result" where
  "attempt_permit az req ps =
     (case ps (ar_job_id req) of
        None \<Rightarrow> Inl ErrPermitMismatch
      | Some p \<Rightarrow>
          if ar_run_segment_id req \<noteq> pm_run_segment_id p \<or> ar_parent_digest req \<noteq> pm_checkpoint_digest p then Inl ErrPermitMismatch
          else if pm_profile_id p \<noteq> az_profile_id az then Inl ErrImportProfileMismatch
          else if pm_profile_revision p \<noteq> az_profile_revision az \<or> pm_connection_id p \<noteq> az_connection_id az \<or>
            pm_connection_generation p \<noteq> az_generation az then Inl ErrBindingMismatch
          else Inr p)"

text \<open>\<open>entries\<close> is the order in which \<open>InvalidatePermits\<close> meets the permits of this binding.\<close>

definition invalidate_after_protection_error ::
  "auth_env \<Rightarrow> (string \<times> permit) list \<Rightarrow> go_error \<Rightarrow> permit \<Rightarrow> auth_state \<Rightarrow> auth_state" where
  "invalidate_after_protection_error env entries e p y =
     (case permit_invalidation_reason_for e of
        None \<Rightarrow> y
      | Some reason \<Rightarrow>
          (case invalidate_permits (from_nth 2 (ae_io env)) (from_nth 11 (ae_clock env)) (pm_connection_id p)
              (pm_connection_generation p) (pm_protection_revision p) reason entries
              \<lparr>rp_db = au_db y, rp_permits = au_permits y\<rparr> of
             (_, _, r) \<Rightarrow> y\<lparr>au_manager := (au_manager y)\<lparr>mg_db := rp_db r\<rparr>, au_permits := rp_permits r\<rparr>))"

text \<open>
  The job lock is held from the stored \<open>SENDING\<close> row to the end of \<open>beginRoundTrip\<close>, so the two are one step of
  the job.  \<open>begin_round_trip\<close> is the dispatcher's barrier: it touches no table.
\<close>

definition begin_attempt ::
  "auth_env \<Rightarrow> authorizer \<Rightarrow> (string \<times> permit) list \<Rightarrow> attempt_request \<Rightarrow> unit result \<Rightarrow> auth_state \<Rightarrow> unit result \<times> auth_state" where
  "begin_attempt env az entries req begin_round_trip y =
     (case attempt_permit az req (au_permits y) of
        Inl e \<Rightarrow> (Inl e, y)
      | Inr p \<Rightarrow>
          (case begin_mutation_dispatch (ae_io env 0) (ae_clock env) (permit_binding p)
              (begin_attempt_locked (ae_io env 1) (ae_clock env 2) req (az_profile_id az) p (au_permits y))
              (Pair begin_round_trip) (au_manager y) of
             (Inr _, m) \<Rightarrow> (Inr (), y\<lparr>au_manager := m\<rparr>)
           | (Inl e, m) \<Rightarrow> (Inl e, invalidate_after_protection_error env entries e p (y\<lparr>au_manager := m\<rparr>))))"

end
