(* ===== verification/Import_Authorizer_Laws.thy ===== *)
theory Import_Authorizer_Laws
  imports Import_Authorizer Import_Laws Protection_System
begin

text \<open>
  What the grants and the gate make sure of: no run starts without a live grant for exactly this job as it is now, a
  start that fails gives its grant back, and the authorizer and the repository take the same decisions about an
  incident.
\<close>

section \<open>Properties\<close>

text \<open>The authorizer and the repository decide alike: for the open incident of a job, and a request that names
  it and its checkpoint, \<open>resolutionAllowed\<close> accepts a decision other than \<open>ABORT\<close> exactly when the
  repository's own check of the state does and the disposition is \<open>CONTINUE\<close> or \<open>PAUSE\<close>, and it asks for a
  grant exactly when the repository demands a permit.\<close>

theorem authorizer_agrees_with_repository:
  assumes "im_open_incident job = Some n" and "in_status n = ''OPEN''" and "in_parent_digest n = im_checkpoint_digest job"
    and "rc_parent_digest req = im_checkpoint_digest job" and "rc_incident_id req = in_id n"
    and "rc_permit req = None \<or> (\<exists>p. rc_permit req = Some p \<and> pm_profile_id p = im_profile_id job)"
    and "rc_decision req \<noteq> DecisionAbort"
  shows "resolution_allowed job (rc_decision req) (rc_after_resolution req) =
    (if is_ok (validate_resolution_state req job) \<and>
        (rc_after_resolution req = ResolutionContinue \<or> rc_after_resolution req = ResolutionPause)
     then Inr (resolution_needs_grant (rc_decision req) (rc_after_resolution req)) else Inl ErrImportState)"
  using assms
  by (auto simp: resolution_allowed_def validate_resolution_state_def resolution_after_def resolution_needs_grant_def
      decision_state_def require_def Let_def split: option.splits if_splits)

lemma authorized_callback_registry:
  "authorized_callback io clock b commit m = (Inr r, m') \<Longrightarrow> \<exists>d. fst (commit d) = r \<and> mg_db m' = snd (commit d)"
  by (auto simp: authorized_callback_def with_conn_def Let_def split: sum.splits prod.splits) (metis fst_conv snd_conv)

lemma grant_at_upd:
  assumes "\<And>r. gr_token (f r) = gr_token r"
  shows "grant_at token' (upd_grant token f rg) = map_option (\<lambda>r. if gr_token r = token then f r else r) (grant_at token' rg)"
  unfolding upd_grant_def by (simp add: tbl_get_upd [where key = gr_token, OF assms])

lemma reserve_ok:
  assumes "reserve h new_id now token expected rg = (Inr v, rg')" and "distinct (map gr_token (rg_records rg))"
  obtains r where "grant_at token rg = Some r" "v = \<lparr>rv_token = token, rv_id = new_id, rv_binding = gr_binding r, rv_expires = gr_expires r\<rparr>"
    "\<not> gr_consumed r" "gr_digest r = grant_binding_digest h expected" "gr_reservation_id r = ''''"
    "grant_at token rg' = Some (r\<lparr>gr_reservation_id := new_id\<rparr>)"
    "rg' = upd_grant token (\<lambda>r. r\<lparr>gr_reservation_id := new_id\<rparr>) (purge_locked now rg)"
  using assms
proof (cases rule: reserve_cases)
  case (2 r)
  have "gr_reservation_id r = ''''" using assms(1) 2(6) by (auto simp: reserve_def Let_def split: if_splits)
  moreover have "grant_at token rg' = Some (r\<lparr>gr_reservation_id := new_id\<rparr>)"
    using 2(3,6) by (simp add: 2(7) grant_at_upd)
  moreover have "grant_at token rg = Some r" using tbl_get_unique [OF assms(2) 2(2)] 2(3) by simp
  ultimately show thesis using 2 that by simp
qed simp

lemma settle_grant_ok:
  assumes "settle_grant scope digest i v (Inr out) y = (Inr res, y')"
  shows "res = out \<and> au_manager y' = au_manager y \<and> au_permits y' = au_permits y \<and>
    (\<exists>r. grant_at (rv_token v) (au_grants y') = Some r \<and> gr_consumed r)"
proof -
  have h: "holds_grant v (au_grants y)" and "res = out"
    and y': "y' = y\<lparr>au_grants := rollback_grant v (snd (commit_grant v (au_grants y)))\<rparr>"
    using assms by (auto simp: settle_grant_def commit_grant_def split: if_splits sum.splits)
  from h obtain r where r: "gr_token r = rv_token v" "grant_at (rv_token v) (au_grants y) = Some r" by (rule holds_grantE)
  have c: "grant_at (rv_token v) (snd (commit_grant v (au_grants y))) = Some (r\<lparr>gr_consumed := True, gr_reservation_id := ''''\<rparr>)"
    using h r grant_at_upd [of "\<lambda>r. r\<lparr>gr_consumed := True, gr_reservation_id := ''''\<rparr>" "rv_token v" "rv_token v" "au_grants y"]
    by (simp add: commit_grant_def)
  then have "\<not> holds_grant v (snd (commit_grant v (au_grants y)))" by (simp add: holds_grant_def)
  then show ?thesis using c y' \<open>res = out\<close> by (simp add: rollback_grant_def)
qed


lemma run_with_grant_ok:
  assumes "run_with_grant env az req job token scope digest commit y = (Inr (out, False), y')"
    and "distinct (map gr_token (rg_records (au_grants y)))"
  obtains b r v d d' ps where "grant_at token (au_grants y) = Some r" "\<not> gr_consumed r" "gr_reservation_id r = ''''"
    "gr_digest r = grant_binding_digest (ae_sha256_hex env) (run_binding env az req job b)"
    "ae_clock env 9 < gr_expires r" "rv_expires v = gr_expires r" "rv_token v = token"
    "commit v (run_permit (ae_ids env 1) job (run_binding env az req job b)) \<lparr>rp_db = d, rp_permits = au_permits y\<rparr> =
       (Inr (out, False), \<lparr>rp_db = au_db y', rp_permits = au_permits y'\<rparr>)"
    "\<exists>r'. grant_at token (au_grants y') = Some r' \<and> gr_consumed r'"
proof -
  obtain snap b m where g: "with_grant_binding (ae_io env 0) (ae_clock env) (az_connection_id az) (az_generation az)
      (\<lambda>b _ d. (Inr b, d)) (au_manager y) = ((snap, Inr b), m)"
    using assms(1) by (cases "with_grant_binding (ae_io env 0) (ae_clock env) (az_connection_id az) (az_generation az)
      (\<lambda>b _ d. (Inr b, d)) (au_manager y)") (auto simp: run_with_grant_def split: prod.splits sum.splits)
  define binding where "binding = run_binding env az req job b"
  obtain v rg where rv: "reserve (ae_sha256_hex env) (ae_ids env 0) (ae_clock env 4) token binding (au_grants y) = (Inr v, rg)"
    using assms(1) g by (cases "reserve (ae_sha256_hex env) (ae_ids env 0) (ae_clock env 4) token binding (au_grants y)")
      (auto simp: run_with_grant_def Let_def binding_def split: sum.splits)
  define p where "p = run_permit (ae_ids env 1) job binding"
  define y1 where "y1 = y\<lparr>au_manager := m, au_grants := rg\<rparr>"
  define cb where "cb = guarded_commit env v rg (commit v p) (au_permits y)"
  have run: "(case authorized_callback (ae_io env 1) (from_nth 5 (ae_clock env)) (protection_binding binding) cb m of
      (Inl e, m) \<Rightarrow> settle_grant scope digest (pw_job_id req) v (Inl e) (y1\<lparr>au_manager := m\<rparr>)
    | (Inr (res, ps), m) \<Rightarrow> settle_grant scope digest (pw_job_id req) v res (y1\<lparr>au_manager := m, au_permits := ps\<rparr>)) = (Inr (out, False), y')"
    using assms(1) g rv unfolding binding_def p_def y1_def cb_def by (simp add: run_with_grant_def Let_def)
  have replays: "settle_grant scope digest i v (Inl e) z \<noteq> (Inr (out, False), y')" for i e z
    by (auto simp: settle_grant_def split: option.splits sum.splits)
  obtain res ps m' where c: "authorized_callback (ae_io env 1) (from_nth 5 (ae_clock env)) (protection_binding binding) cb m = (Inr (res, ps), m')"
    and s: "settle_grant scope digest (pw_job_id req) v res (y1\<lparr>au_manager := m', au_permits := ps\<rparr>) = (Inr (out, False), y')"
    using run replays by (auto split: prod.splits sum.splits)
  obtain out' where "res = Inr out'" using s replays by (cases res) auto
  note sg = settle_grant_ok [OF s [unfolded this]]
  obtain d where d: "fst (cb d) = (res, ps)" "mg_db m' = snd (cb d)" using authorized_callback_registry [OF c] by blast
  have cm: "validate_live (ae_clock env 9) v rg = Inr ()"
    "commit v p \<lparr>rp_db = d, rp_permits = au_permits y\<rparr> = (res, \<lparr>rp_db = mg_db m', rp_permits = ps\<rparr>)"
    using d \<open>res = Inr out'\<close> by (auto simp: cb_def guarded_commit_def split: sum.splits prod.splits)
  from rv assms(2) show thesis
  proof (rule reserve_ok)
    fix r
    assume r: "grant_at token (au_grants y) = Some r"
      "v = \<lparr>rv_token = token, rv_id = ae_ids env 0, rv_binding = gr_binding r, rv_expires = gr_expires r\<rparr>"
      "\<not> gr_consumed r" "gr_digest r = grant_binding_digest (ae_sha256_hex env) binding" "gr_reservation_id r = ''''"
      "grant_at token rg = Some (r\<lparr>gr_reservation_id := ae_ids env 0\<rparr>)"
    have live: "ae_clock env 9 < gr_expires r"
      using cm(1) r(2,6) by (auto simp: validate_live_def split: if_splits)
    show thesis
      by (rule that [of r b v d]) (use r live cm(2) sg \<open>res = Inr out'\<close> in \<open>auto simp: binding_def p_def\<close>)
  qed
qed


lemma insert_command_recorded:
  assumes "insert_command_in_tx e d = Inr (u, d')"
  shows "command_recorded (ce_scope e) (ce_request_digest e) d'"
  using assms
  by (auto simp: insert_command_in_tx_def tx_insert_def tx_simps command_recorded_def has_key_iff tbl_get_append table_simps
      split: if_splits)

lemma start_run_fresh:
  assumes "start_run io clock new_id req r = (Inr (out, False), r')" and "sr_run_segment_id req \<noteq> ''''"
  shows "rp_permits r' = (rp_permits r)(sr_job_id req \<mapsto> sr_permit req) \<and>
    command_recorded (sr_command_scope req) (sr_command_digest req) (rp_db r')"
proof -
  obtain d where d: "start_run_tx req (clock 0) (clock 1) (rp_db r) = Inr ((out, False), d)"
    and r': "rp_db r' = d" "rp_permits r' = (rp_permits r)(sr_job_id req \<mapsto> sr_permit req)"
    using assms by (auto simp: start_run_def Let_def with_immediate_Inr permit_activate_def split: prod.splits sum.splits bool.splits if_splits)
  from d have "start_run_new_tx req (clock 0) (clock 1) (rp_db r) = Inr (out, d)"
    by (auto simp: start_run_tx_def tx_simps split: option.splits)
  then have "command_recorded (sr_command_scope req) (sr_command_digest req) d"
    by (auto simp: start_run_new_tx_def Let_def tx_simps dest!: insert_command_recorded)
  then show ?thesis using r' by simp
qed

text \<open>C9.  No run starts without a live grant for it: when \<open>Start\<close> starts a run, the job belongs to the profile, is at
  the revision the caller saw and in a state the action allows; the token named an unused, unreserved grant whose
  digest is the one of the job, its checkpoint, its files, its target and the connection's lease as they are now,
  and it was still live under the gate.  Afterwards the grant is used up, the permit of the run is exactly the
  granted one, and the ledger knows the command.\<close>

theorem started_run_was_granted:
  assumes "start_authorized env az req y = (Inr (out, False), y')"
    and "distinct (map gr_token (rg_records (au_grants y)))" and "ae_ids env 1 \<noteq> ''''"
  shows "\<exists>job b r. get_import (as_job_id req) (au_db y) = Inr job \<and> im_profile_id job = az_profile_id az \<and>
    t_state_revision (im_task job) = as_expected_state_revision req \<and> action_allowed (start_as_preview req) job \<and>
    grant_at (as_grant req) (au_grants y) = Some r \<and> \<not> gr_consumed r \<and> gr_reservation_id r = '''' \<and>
    ae_clock env 9 < gr_expires r \<and>
    gr_digest r = grant_binding_digest (ae_sha256_hex env) (run_binding env az (start_as_preview req) job b) \<and>
    (\<exists>r'. grant_at (as_grant req) (au_grants y') = Some r' \<and> gr_consumed r') \<and>
    au_permits y' = (au_permits y)(as_job_id req \<mapsto>
      run_permit (ae_ids env 1) job (run_binding env az (start_as_preview req) job b)) \<and>
    command_recorded (run_command_scope req) (run_command_digest (ae_sha256_hex env) req) (au_db y')"
proof -
  let ?commit = "\<lambda>v p. start_run (from_nth 2 (ae_io env)) (from_nth 11 (ae_clock env)) (ae_ids env 2) (start_request_of env az req v p)"
  have replay: "replay_for_profile az scope digest i d \<noteq> Some (Inr (out, False))" for scope digest i d
    by (auto simp: replay_for_profile_def rbind_Inr_iff split: if_splits)
  obtain job where job: "get_import (as_job_id req) (au_db y) = Inr job" "im_profile_id job = az_profile_id az"
    "t_state_revision (im_task job) = as_expected_state_revision req" "action_allowed (start_as_preview req) job"
    and run: "run_with_grant env az (start_as_preview req) job (as_grant req) (run_command_scope req)
      (run_command_digest (ae_sha256_hex env) req) ?commit y = (Inr (out, False), y')"
    using assms(1) replay by (auto simp: start_authorized_def Let_def split: if_splits option.splits sum.splits)
  from run assms(2) show ?thesis
  proof (rule run_with_grant_ok)
    fix b r v d d' ps
    let ?p = "run_permit (ae_ids env 1) job (run_binding env az (start_as_preview req) job b)"
    assume r: "grant_at (as_grant req) (au_grants y) = Some r" "\<not> gr_consumed r" "gr_reservation_id r = ''''"
      "gr_digest r = grant_binding_digest (ae_sha256_hex env) (run_binding env az (start_as_preview req) job b)"
      "ae_clock env 9 < gr_expires r" "\<exists>r'. grant_at (as_grant req) (au_grants y') = Some r' \<and> gr_consumed r'"
      and c: "?commit v ?p \<lparr>rp_db = d, rp_permits = au_permits y\<rparr> = (Inr (out, False), \<lparr>rp_db = au_db y', rp_permits = au_permits y'\<rparr>)"
    have "au_permits y' = (au_permits y)(as_job_id req \<mapsto> ?p) \<and>
        command_recorded (run_command_scope req) (run_command_digest (ae_sha256_hex env) req) (au_db y')"
      using start_run_fresh [OF c] assms(3) by (simp add: start_request_of_def run_permit_def)
    then show ?thesis using job r by blast
  qed
qed






section \<open>An example\<close>

definition demo_auth_env :: auth_env where
  "demo_auth_env = \<lparr>ae_uuid_ok = \<lambda>_. True, ae_sha256_hex = \<lambda>_. '''', ae_hash = trace_hash, ae_io = \<lambda>_. True,
     ae_clock = \<lambda>_. -1, ae_ids = \<lambda>_. ''g'', ae_draws = []\<rparr>"

definition demo_authorizer :: authorizer where
  "demo_authorizer = \<lparr>az_profile_id = ''p'', az_profile_revision = ''1'', az_connection_id = ''c'', az_generation = ''1''\<rparr>"

definition demo_start :: authorized_start_request where
  "demo_start = \<lparr>as_job_id = ''j'', as_command_request_id = ''q'', as_expected_state_revision = ''1'',
     as_action = GrantStart, as_grant = ''00''\<rparr>"

definition demo_auth_state :: auth_state where
  "demo_auth_state = \<lparr>au_manager = demo_unlocked\<lparr>mg_db := rp_db trace_created\<rparr>,
     au_grants = \<lparr>rg_records = [demo_grant\<lparr>gr_expires := 0, gr_consumed := False\<rparr>], rg_scopes = Map.empty\<rparr>,
     au_permits = Map.empty\<rparr>"

lemma demo_auth_facts:
  "distinct (map gr_token (rg_records (au_grants demo_auth_state)))" "ae_ids demo_auth_env 0 \<noteq> ''''" "ae_ids demo_auth_env 1 \<noteq> ''''"
  by code_simp+

lemma demo_start_runs:
  "(case fst (start_authorized demo_auth_env demo_authorizer demo_start demo_auth_state) of Inl _ \<Rightarrow> False | Inr (_, replayed) \<Rightarrow> \<not> replayed)"
  by code_simp

theorem started_run_was_granted_witness:
  "map_option gr_consumed (grant_at ''00'' (au_grants (snd (start_authorized demo_auth_env demo_authorizer demo_start demo_auth_state)))) = Some True"
proof -
  obtain out y' where "start_authorized demo_auth_env demo_authorizer demo_start demo_auth_state = (Inr (out, False), y')"
    using demo_start_runs
    by (cases "start_authorized demo_auth_env demo_authorizer demo_start demo_auth_state") (auto split: sum.splits)
  from this started_run_was_granted [OF this demo_auth_facts(1,3)] show ?thesis by (auto simp: demo_start_def)
qed


definition demo_doubt_job :: import_job where
  "demo_doubt_job = (case get_import ''j'' (rp_db trace_doubt) of Inr job \<Rightarrow> job | Inl _ \<Rightarrow> demo_batch_job)"

definition demo_doubt :: incident_row where "demo_doubt = the (im_open_incident demo_doubt_job)"

lemma demo_doubt_facts:
  "im_open_incident demo_doubt_job = Some demo_doubt" "in_status demo_doubt = ''OPEN''"
  "in_parent_digest demo_doubt = im_checkpoint_digest demo_doubt_job"
  "rc_parent_digest trace_decision = im_checkpoint_digest demo_doubt_job" "rc_incident_id trace_decision = in_id demo_doubt"
  by code_simp+

theorem authorizer_agrees_with_repository_witness:
  "resolution_allowed demo_doubt_job DecisionReplayExact ResolutionContinue = Inr True"
proof -
  have "map_option (\<lambda>p. pm_profile_id p = im_profile_id demo_doubt_job) (rc_permit trace_decision) = Some True"
    "rc_decision trace_decision \<noteq> DecisionAbort" "is_ok (validate_resolution_state trace_decision demo_doubt_job)"
    "rc_decision trace_decision = DecisionReplayExact" "rc_after_resolution trace_decision = ResolutionContinue"
    "resolution_needs_grant (rc_decision trace_decision) (rc_after_resolution trace_decision)"
    by code_simp+
  then show ?thesis using authorizer_agrees_with_repository [OF demo_doubt_facts] by auto
qed

end
