(* ===== verification/Import_Worker.thy ===== *)
theory Import_Worker
  imports Import_Authorizer Import_Settle Go_Conv
begin

text \<open>
  \<open>internal/importworker/worker.go\<close>: \<open>RunNext\<close> reads one verified batch, sends it behind \<open>BeginAttempt\<close>, looks at the
  answer and settles the attempt.  It works on the state of the authorizer (\<open>auth_state\<close>); the staged file, the
  network and the JSON decoder are parameters.

  \<open>round_trip\<close> is what the dispatcher does with a batch: whether it crosses the barrier, and what \<open>Wait\<close> and the
  body of the response give.  \<open>worker_out\<close> is the \<open>Result\<close> with the error that comes with it: no error is the
  empty list, a joined error the list of its members.  \<open>MarkAttemptNotSent\<close> returns no error of the file system,
  so the test for \<open>os.ErrNotExist\<close> never succeeds.
\<close>

section \<open>The answer\<close>

datatype json = JNull | JBool bool | JNumber string | JString string | JArray "json list" | JObject "(string \<times> json) list"

record body_inspection =
  bi_valid :: bool
  bi_partial :: bool
  bi_has_error :: bool

fun contains_text :: "string \<Rightarrow> string \<Rightarrow> bool" where
  "contains_text [] needle = (needle = [])"
| "contains_text (c # s) needle = (has_prefix needle (c # s) \<or> contains_text s needle)"

definition inspect_key :: "string \<Rightarrow> json \<Rightarrow> body_inspection \<Rightarrow> body_inspection" where
  "inspect_key key child bi =
     (if to_lower key = ''partial'' then
        (case child of JBool flag \<Rightarrow> if flag then bi\<lparr>bi_partial := True\<rparr> else bi | _ \<Rightarrow> bi\<lparr>bi_valid := False\<rparr>)
      else if to_lower key = ''error'' then
        (case child of
           JNull \<Rightarrow> bi
         | JString message \<Rightarrow>
             bi\<lparr>bi_has_error := True, bi_partial := (bi_partial bi \<or> contains_text (to_lower message) ''partial write'')\<rparr>
         | _ \<Rightarrow> bi\<lparr>bi_valid := False\<rparr>)
      else bi)"

fun inspect_value :: "json \<Rightarrow> body_inspection \<Rightarrow> body_inspection" where
  "inspect_value (JObject members) bi = fold (\<lambda>(key, child) bi. inspect_value child (inspect_key key child bi)) members bi"
| "inspect_value (JArray items) bi = fold inspect_value items bi"
| "inspect_value _ bi = bi"

definition no_inspection :: body_inspection where
  "no_inspection = \<lparr>bi_valid = False, bi_partial = False, bi_has_error = False\<rparr>"

definition valid_inspection :: body_inspection where
  "valid_inspection = \<lparr>bi_valid = True, bi_partial = False, bi_has_error = False\<rparr>"

text \<open>\<open>decode_json\<close> is the decoder run twice: the one value the text holds, \<open>None\<close> for an error or a second value.\<close>

definition inspect_json_body :: "(string \<Rightarrow> json option) \<Rightarrow> string \<Rightarrow> body_inspection" where
  "inspect_json_body decode_json body =
     (if body = [] then valid_inspection
      else case decode_json body of
        Some (JObject members) \<Rightarrow> inspect_value (JObject members) valid_inspection
      | _ \<Rightarrow> no_inspection)"

datatype outcome = OutcomeNone | OutcomeACKED | OutcomeSucceeded | OutcomeTooLarge | OutcomePartial | OutcomeUnknown | OutcomeRejected

record http_answer =
  ha_status :: int
  ha_content_length :: int
  ha_body :: "string option"
  ha_read_fails :: bool

definition max_response_body :: nat where "max_response_body = 64 * 1024"

definition read_and_close_response :: "http_answer option \<Rightarrow> string result" where
  "read_and_close_response answer =
     (case answer of
        None \<Rightarrow> Inl ErrResponseProtocol
      | Some a \<Rightarrow>
          (case ha_body a of
             None \<Rightarrow> Inl ErrResponseProtocol
           | Some body \<Rightarrow>
               if ha_read_fails a then Inl ErrResponseProtocol
               else if length body > max_response_body then Inl ErrResponseTooLarge
               else Inr body))"

text \<open>\<open>newWorker\<close>: 204, and the 2xx statuses of the version contract.\<close>

definition success_statuses :: "int list \<Rightarrow> int list result" where
  "success_statuses additional =
     (if list_ex (\<lambda>s. s < 200 \<or> s > 299) additional then Inl ErrWorkerRequest else Inr (204 # additional))"

definition classify_answer :: "(string \<Rightarrow> json option) \<Rightarrow> int list \<Rightarrow> http_answer option \<Rightarrow> string \<Rightarrow> outcome" where
  "classify_answer decode_json success answer body =
     (case answer of
        None \<Rightarrow> OutcomeUnknown
      | Some a \<Rightarrow>
          let bi = inspect_json_body decode_json body; status = ha_status a in
          if status \<ge> 500 then OutcomeUnknown
          else if status = 413 then
            (if bi_partial bi then OutcomePartial else if bi_valid bi then OutcomeTooLarge else OutcomeUnknown)
          else if status \<ge> 400 \<and> status \<le> 499 then
            (if bi_partial bi then OutcomePartial else if bi_valid bi then OutcomeRejected else OutcomeUnknown)
          else if List.member success status then
            (if status = 204 \<and> (body \<noteq> [] \<or> ha_content_length a > 0) then OutcomeUnknown
             else if bi_valid bi \<and> \<not> bi_partial bi \<and> \<not> bi_has_error bi then OutcomeACKED
             else OutcomeUnknown)
          else OutcomeUnknown)"

section \<open>Requests and results\<close>

record run_next_request =
  rn_job_id :: string
  rn_staging_path :: string
  rn_target_digest :: string
  rn_database :: string
  rn_retention_policy :: string

record run_result =
  rs_job :: "import_job option"
  rs_outcome :: outcome
  rs_attempt_id :: string
  rs_batch_id :: string
  rs_start_offset :: string
  rs_end_offset :: string
  rs_point_count :: string

record round_trip =
  rt_begin :: "unit result"
  rt_attempt :: bool
  rt_wait :: "http_answer option result"

record worker_env =
  wk_auth :: auth_env
  wk_authorizer :: authorizer
  wk_entries :: "(string \<times> permit) list"
  wk_sha256 :: "string \<Rightarrow> string"
  wk_digest_target :: "string \<Rightarrow> string \<Rightarrow> string"
  wk_decode_json :: "string \<Rightarrow> json option"
  wk_success :: "int list"
  wk_ctx :: "nat option"
  wk_ids :: "nat \<Rightarrow> string"
  wk_io :: "nat \<Rightarrow> bool"
  wk_clock :: "nat \<Rightarrow> time"

type_synonym worker_out = "run_result \<times> go_error list"

definition empty_run_result :: run_result where
  "empty_run_result = \<lparr>rs_job = None, rs_outcome = OutcomeNone, rs_attempt_id = '''', rs_batch_id = '''',
     rs_start_offset = '''', rs_end_offset = '''', rs_point_count = ''''\<rparr>"

definition failed_run :: "go_error list \<Rightarrow> auth_state \<Rightarrow> worker_out \<times> auth_state" where
  "failed_run es y = ((empty_run_result, es), y)"

definition valid_preflight_text :: "string \<Rightarrow> bool" where
  "valid_preflight_text v \<longleftrightarrow> \<not> (v = [] \<or> length v > 4096 \<or> \<not> utf8_valid v \<or> contains_any v [nul]) \<and>
     \<not> contains_any v [carriage_return, newline]"

text \<open>\<open>digest_target\<close> is \<open>digestJSON\<close> of database and retention policy.\<close>

definition import_target_digest :: "(string \<Rightarrow> string \<Rightarrow> string) \<Rightarrow> string \<Rightarrow> string \<Rightarrow> string result" where
  "import_target_digest digest_target database policy =
     (if \<not> valid_preflight_text database \<or> (policy \<noteq> '''' \<and> \<not> valid_preflight_text policy)
      then Inl (transfer_error ''IMPORT_PREFLIGHT_INVALID'') else Inr (digest_target database policy))"

definition on_repo :: "(repo \<Rightarrow> 'a \<times> repo) \<Rightarrow> auth_state \<Rightarrow> 'a \<times> auth_state" where
  "on_repo f y =
     (case f \<lparr>rp_db = au_db y, rp_permits = au_permits y\<rparr> of
        (a, r) \<Rightarrow> (a, y\<lparr>au_manager := (au_manager y)\<lparr>mg_db := rp_db r\<rparr>, au_permits := rp_permits r\<rparr>))"

section \<open>Settling\<close>

text \<open>\<open>recordIncident\<close>: the \<open>cause\<close> of an unknown outcome comes back only when the incident cannot be stored.\<close>

definition record_run_incident ::
  "worker_env \<Rightarrow> run_result \<Rightarrow> string \<Rightarrow> string \<Rightarrow> go_error option \<Rightarrow> auth_state \<Rightarrow> worker_out \<times> auth_state" where
  "record_run_incident env base attempt_id kind cause y =
     (case on_repo (record_incident (wk_io env 4) (wk_clock env 4) (wk_clock env 5) attempt_id (wk_ids env 2) kind) y of
        (Inl e, y) \<Rightarrow> failed_run (case cause of None \<Rightarrow> [e] | Some c \<Rightarrow> [ErrSettlementFailed, c]) y
      | (Inr job, y) \<Rightarrow>
          ((base\<lparr>rs_job := Some job, rs_outcome := (if kind = ''PARTIAL'' then OutcomePartial else OutcomeUnknown)\<rparr>, []), y))"

definition finish_request :: "import_job \<Rightarrow> string \<Rightarrow> int \<Rightarrow> finish_import_request" where
  "finish_request job segment size_bytes = \<lparr>fi_job_id = t_id (im_task job), fi_run_segment_id = segment,
     fi_checkpoint_digest = im_checkpoint_digest job, fi_staging_logical_size = format_int size_bytes\<rparr>"

definition settle_acked ::
  "worker_env \<Rightarrow> run_result \<Rightarrow> attempt_request \<Rightarrow> staged_batch \<Rightarrow> auth_state \<Rightarrow> worker_out \<times> auth_state" where
  "settle_acked env base req b y =
     (case on_repo (settle_ack (ae_hash (wk_auth env)) (wk_io env) (wk_clock env) (ar_attempt_id req)) y of
        (Inl e, y) \<Rightarrow> record_run_incident env base (ar_attempt_id req) ''UNKNOWN'' (Some e) y
      | (Inr settled, y) \<Rightarrow>
          let base = base\<lparr>rs_job := Some settled, rs_outcome := OutcomeACKED\<rparr> in
          if t_state (im_task settled) = ImportRunning \<and> sb_end_offset b = sb_staging_size b then
            (case on_repo (finish_import (wk_io env 5) (wk_clock env 6) (wk_clock env 7)
                (finish_request settled (ar_run_segment_id req) (sb_staging_size b))) y of
               (Inl e, y) \<Rightarrow> ((base, [e]), y)
             | (Inr (finished, _), y) \<Rightarrow> ((base\<lparr>rs_job := Some finished, rs_outcome := OutcomeSucceeded\<rparr>, []), y))
          else ((base, []), y))"

definition settle_plain ::
  "(repo \<Rightarrow> import_job result \<times> repo) \<Rightarrow> run_result \<Rightarrow> outcome \<Rightarrow> auth_state \<Rightarrow> worker_out \<times> auth_state" where
  "settle_plain settle base out y =
     (case on_repo settle y of
        (Inl e, y) \<Rightarrow> failed_run [e] y
      | (Inr settled, y) \<Rightarrow> ((base\<lparr>rs_job := Some settled, rs_outcome := out\<rparr>, []), y))"

definition settle_answer ::
  "worker_env \<Rightarrow> run_result \<Rightarrow> attempt_request \<Rightarrow> staged_batch \<Rightarrow> http_answer option result \<Rightarrow> auth_state \<Rightarrow>
     worker_out \<times> auth_state" where
  "settle_answer env base req b waited y =
     (case rbind waited read_and_close_response of
        Inl cause \<Rightarrow> record_run_incident env base (ar_attempt_id req) ''UNKNOWN'' (Some cause) y
      | Inr body \<Rightarrow>
          (case classify_answer (wk_decode_json env) (wk_success env) (case waited of Inr a \<Rightarrow> a | Inl _ \<Rightarrow> None) body of
             OutcomeACKED \<Rightarrow> settle_acked env base req b y
           | OutcomeTooLarge \<Rightarrow>
               settle_plain (settle_too_large (ae_hash (wk_auth env)) (wk_io env) (wk_clock env) (ar_attempt_id req)) base OutcomeTooLarge y
           | OutcomePartial \<Rightarrow> record_run_incident env base (ar_attempt_id req) ''PARTIAL'' None y
           | OutcomeRejected \<Rightarrow>
               settle_plain (settle_rejected (wk_io env 0) (wk_clock env 0) (wk_clock env 1) (ar_attempt_id req)) base OutcomeRejected y
           | _ \<Rightarrow> record_run_incident env base (ar_attempt_id req) ''UNKNOWN'' (Some ErrResponseProtocol) y))"

section \<open>RunNext\<close>

definition worker_attempt :: "worker_env \<Rightarrow> import_job \<Rightarrow> staged_batch \<Rightarrow> attempt_request" where
  "worker_attempt env job b =
     \<lparr>ar_job_id = t_id (im_task job),
      ar_batch_id = (case im_open_incident job of None \<Rightarrow> wk_ids env 1 | Some n \<Rightarrow> in_batch_id n),
      ar_attempt_id = wk_ids env 0, ar_run_segment_id = the (im_active job), ar_parent_digest = im_checkpoint_digest job,
      ar_start_offset = format_int (sb_start_offset b), ar_end_offset = format_int (sb_end_offset b),
      ar_payload_digest = sb_payload_digest b\<rparr>"

definition base_result :: "attempt_request \<Rightarrow> staged_batch \<Rightarrow> run_result" where
  "base_result req b = \<lparr>rs_job = None, rs_outcome = OutcomeNone, rs_attempt_id = ar_attempt_id req,
     rs_batch_id = ar_batch_id req, rs_start_offset = ar_start_offset req, rs_end_offset = ar_end_offset req,
     rs_point_count = format_int (sb_points b)\<rparr>"

definition send_batch ::
  "worker_env \<Rightarrow> (string \<Rightarrow> round_trip) \<Rightarrow> import_job \<Rightarrow> staged_batch \<Rightarrow> auth_state \<Rightarrow> worker_out \<times> auth_state" where
  "send_batch env network job b y =
     (let req = worker_attempt env job b; rt = network (sb_payload b) in
      case begin_attempt (wk_auth env) (wk_authorizer env) (wk_entries env) req (rt_begin rt) y of
        (Inl e, y) \<Rightarrow>
          (case on_repo (mark_attempt_not_sent (wk_io env 0) (wk_clock env 0) (wk_clock env 1) (ar_attempt_id req)) y of
             (Inl _, y) \<Rightarrow> failed_run [e, ErrSettlementFailed] y
           | (Inr _, y) \<Rightarrow> failed_run [ErrRoundTripNotStarted, e] y)
      | (Inr _, y) \<Rightarrow>
          if \<not> rt_attempt rt then record_run_incident env (base_result req b) (ar_attempt_id req) ''UNKNOWN'' (Some ErrRoundTripNotStarted) y
          else settle_answer env (base_result req b) req b (rt_wait rt) y)"

definition run_batch ::
  "worker_env \<Rightarrow> (string \<Rightarrow> round_trip) \<Rightarrow> import_job \<Rightarrow> staged_batch \<Rightarrow> auth_state \<Rightarrow> worker_out \<times> auth_state" where
  "run_batch env network job b y =
     (if sb_payload b \<noteq> [] then send_batch env network job b y
      else if sb_staging_size b = 0 then failed_run [ErrEmptyStaging] y
      else case on_repo (finish_import (wk_io env 0) (wk_clock env 0) (wk_clock env 1)
          (finish_request job (the (im_active job)) (sb_staging_size b))) y of
        (Inl e, y) \<Rightarrow> failed_run [e] y
      | (Inr (finished, _), y) \<Rightarrow> ((empty_run_result\<lparr>rs_job := Some finished, rs_outcome := OutcomeSucceeded\<rparr>, []), y))"

definition run_next ::
  "worker_env \<Rightarrow> staging_file \<Rightarrow> (string \<Rightarrow> round_trip) \<Rightarrow> run_next_request \<Rightarrow> auth_state \<Rightarrow> worker_out \<times> auth_state" where
  "run_next env f network req y =
     (if list_ex (\<lambda>v. v = '''') [rn_job_id req, rn_staging_path req, rn_target_digest req, rn_database req]
      then failed_run [ErrWorkerRequest] y
      else case get_import (rn_job_id req) (au_db y) of
        Inl e \<Rightarrow> failed_run [e] y
      | Inr job \<Rightarrow>
          if import_target_digest (wk_digest_target env) (rn_database req) (rn_retention_policy req) \<noteq> Inr (rn_target_digest req)
          then failed_run [ErrWorkerRequest] y
          else if t_state (im_task job) = ImportSucceeded
          then ((empty_run_result\<lparr>rs_job := Some job, rs_outcome := OutcomeSucceeded\<rparr>, []), y)
          else if t_state (im_task job) \<noteq> ImportRunning \<or> im_active job = None \<or>
            cp_target_digest (im_checkpoint job) \<noteq> rn_target_digest req then failed_run [ErrImportState] y
          else case read_verified_batch (wk_sha256 env) (wk_ctx env) f job of
            Inl e \<Rightarrow> failed_run [e] y
          | Inr b \<Rightarrow> run_batch env network job b y)"

end
