(* ===== verification/Import_Worker_Laws.thy ===== *)
theory Import_Worker_Laws
  imports Import_Worker Import_Authorizer_Laws
begin

text \<open>
  What \<open>importworker.RunNext\<close> promises.  A batch is on disk as a \<open>SENDING\<close> attempt before the first byte leaves;
  a settlement changes the offset of the job only for the attempt it settles; so \<open>RunNext\<close> moves the job
  forward only for an answer that acknowledged the batch, and then to the end of exactly that batch.
\<close>

section \<open>Answers\<close>

text \<open>Every member of every object inside a value.\<close>

fun members :: "json \<Rightarrow> (string \<times> json) list" where
  "members (JObject ms) = concat (map (\<lambda>(key, child). (key, child) # members child) ms)"
| "members (JArray items) = concat (map members items)"
| "members _ = []"

definition benign :: "string \<times> json \<Rightarrow> bool" where
  "benign m \<longleftrightarrow> (case m of (key, child) \<Rightarrow>
     (to_lower key = ''partial'' \<longrightarrow> child = JBool False) \<and> (to_lower key = ''error'' \<longrightarrow> child = JNull))"

lemma inspect_members: "inspect_value v bi = fold (\<lambda>(key, child). inspect_key key child) (members v) bi"
proof (induction v bi rule: inspect_value.induct)
  case (1 ms bi)
  have "fold (\<lambda>(key, child) bi. inspect_value child (inspect_key key child bi)) xs b =
      fold (\<lambda>(key, child). inspect_key key child) (concat (map (\<lambda>(key, child). (key, child) # members child) xs)) b"
    if "set xs \<subseteq> set ms" for xs b
    using that by (induction xs arbitrary: b) (auto simp: 1)
  then show ?case by simp
next
  case (2 items bi)
  have "fold inspect_value xs b = fold (\<lambda>(key, child). inspect_key key child) (concat (map members xs)) b"
    if "set xs \<subseteq> set items" for xs b
    using that by (induction xs arbitrary: b) (auto simp: 2)
  then show ?case by simp
qed simp_all

definition clean :: "body_inspection \<Rightarrow> bool" where
  "clean bi \<longleftrightarrow> bi_valid bi \<and> \<not> bi_partial bi \<and> \<not> bi_has_error bi"

lemma inspect_key_clean: "clean (inspect_key key child bi) \<longleftrightarrow> clean bi \<and> benign (key, child)"
proof -
  obtain k where k: "to_lower key = k" by blast
  show ?thesis unfolding inspect_key_def benign_def prod.case k
    by (cases "k = ''partial''"; cases "k = ''error''"; cases child) (simp_all add: clean_def)
qed

lemma clean_start [simp]: "clean valid_inspection" "\<not> clean no_inspection"
  by (simp_all add: clean_def valid_inspection_def no_inspection_def)

lemma inspect_clean: "clean (inspect_value v bi) \<longleftrightarrow> clean bi \<and> list_all benign (members v)"
proof -
  have "clean (fold (\<lambda>(key, child). inspect_key key child) ms bi) \<longleftrightarrow> clean bi \<and> list_all benign ms" for ms
  proof (induction ms arbitrary: bi)
    case (Cons m ms)
    obtain key child where m: "m = (key, child)" by (cases m)
    show ?case unfolding m fold_simps prod.case Cons.IH inspect_key_clean list.pred_inject(2) by blast
  qed simp
  then show ?thesis by (simp add: inspect_members)
qed

section \<open>What an attempt leaves\<close>

lemma authorized_callback_same_db:
  "authorized_callback io clock b commit m = (Inr r, m') \<Longrightarrow> commit (mg_db m) = (r, mg_db m')"
  by (auto simp: authorized_callback_def with_conn_def Let_def authorize_gated_def reconcile_expired_lease_def
      split: sum.splits prod.splits if_splits)

definition attempt_of :: "attempt_request \<Rightarrow> time \<Rightarrow> attempt_row" where
  "attempt_of req now = \<lparr>at_id = ar_attempt_id req, at_job_id = ar_job_id req, at_batch_id = ar_batch_id req,
     at_run_segment_id = ar_run_segment_id req, at_state = ''SENDING'', at_parent_digest = ar_parent_digest req,
     at_new_digest = None, at_start_offset = ar_start_offset req, at_end_offset = ar_end_offset req,
     at_payload_digest = ar_payload_digest req, at_created_at = now, at_updated_at = now\<rparr>"

lemma begin_attempt_tx_effect:
  assumes "begin_attempt_tx req start pr p now d = Inr (u, d')"
  shows "tbl_get at_id (ar_attempt_id req) (attempts_t d') = Some (attempt_of req now)"
    "get_import_in_tx i d' = (case get_import_in_tx i d of Inl e \<Rightarrow> Inl e | Inr (job, _) \<Rightarrow> Inr (job, d'))"
proof -
  have s: "\<exists>segs. d' = d\<lparr>attempts_t := attempts_t d @ [attempt_of req now], segments_t := segs\<rparr> \<and>
      tbl_get at_id (ar_attempt_id req) (attempts_t d) = None"
    using assms
    by (auto simp: begin_attempt_tx_def Let_def tx_simps insert_attempt_def one_row_def upd_segment_def attempt_of_def
        has_key_iff replay_matches_tx_def count_sending_def split: if_splits dest!: get_import_same)
  then show "tbl_get at_id (ar_attempt_id req) (attempts_t d') = Some (attempt_of req now)"
    by (auto simp: tbl_get_append table_simps attempt_of_def)
  show "get_import_in_tx i d' = (case get_import_in_tx i d of Inl e \<Rightarrow> Inl e | Inr (job, _) \<Rightarrow> Inr (job, d'))"
    using s by (auto simp: get_import_in_tx_def tx_bind_def get_in_tx_def tx_get_def tx_return_def tx_fail_def tx_query_row_def read_checkpoint_def
        read_open_incident_def split: option.splits sum.splits if_splits)
qed


lemma get_import_iff: "get_import_in_tx i d = Inr (job, d') \<longleftrightarrow> get_import i d = Inr job \<and> d' = d"
  using get_import_same by (fastforce simp: get_import_def split: sum.splits)

lemma running_job_read: "running_job_tx i row d = Inr (job, d') \<longleftrightarrow>
    d' = d \<and> get_import i d = Inr job \<and> t_state (im_task job) = ImportRunning \<and> im_checkpoint_digest job = at_parent_digest row \<and>
    active_is (at_run_segment_id row) job"
  by (auto simp: running_job_tx_def tx_simps get_import_iff)

lemma sending_attempt_read: "sending_attempt_tx a d = Inr (row, d') \<longleftrightarrow>
    d' = d \<and> tbl_get at_id a (attempts_t d) = Some row \<and> at_state row = ''SENDING''"
  by (auto simp: sending_attempt_tx_def tx_simps find_key)

definition permit_for :: "attempt_row \<Rightarrow> permits \<Rightarrow> bool" where
  "permit_for row ps \<longleftrightarrow> (\<exists>p. ps (at_job_id row) = Some p \<and> pm_run_segment_id p = at_run_segment_id row \<and>
     pm_checkpoint_digest p = at_parent_digest row)"

text \<open>With the permit at the parent checkpoint, a settlement gives back the job it wrote.\<close>

lemma run_settled_out:
  assumes "run_settled io clock i tx r = (Inr out, r')" and "permit_for row (rp_permits r)" and "at_job_id row = i"
    and "\<And>c p ch s d' t n. tx t n (rp_db r) = Inr ((out, c, p, ch, s), d') \<Longrightarrow> P out"
    and "\<And>o' c p ch s d' t n. tx t n (rp_db r) = Inr ((o', c, p, ch, s), d') \<Longrightarrow> c \<Longrightarrow> p = at_parent_digest row \<and> s = at_run_segment_id row"
  shows "P out"
proof (cases rule: with_immediate_cases [of "io 0" "tx (clock 0) (clock 1)" "rp_db r"])
  case (committed a d')
  obtain o' c p ch s where a: "a = (o', c, p, ch, s)" by (cases a) auto
  have "out = o'"
  proof (cases c)
    case True
    then have "p = at_parent_digest row \<and> s = at_run_segment_id row" using assms(5) committed(2) a by blast
    then show ?thesis
      using assms(1,2,3) committed(3) a True by (auto simp: run_settled_def after_settle_def permit_cas_def permit_for_def)
  qed (use assms(1) committed(3) a in \<open>auto simp: run_settled_def after_settle_def\<close>)
  then show ?thesis using assms(4) committed(2) a by blast
next
  case (rolled_back e)
  then show ?thesis using assms(1) by (simp add: run_settled_def after_settle_def)
qed

lemma next_checkpoint_offset: "next_checkpoint parent offset batch disposition cp = Inr c \<Longrightarrow> cp_logical_offset c = offset"
  by (auto simp: next_checkpoint_def rbind_Inr_iff)

lemma ack_tx_out:
  assumes "ack_tx hash a i t n d = Inr ((out, c, p, ch, s), d')" and "tbl_get at_id a (attempts_t d) = Some row"
  shows "cp_logical_offset (im_checkpoint out) = at_end_offset row" "p = at_parent_digest row" "s = at_run_segment_id row"
  using assms
  by (auto simp: ack_tx_def Let_def tx_simps sending_attempt_read running_job_read dest!: next_checkpoint_offset)

lemma replay_ack_tx_out:
  assumes "replay_ack_tx hash a i t n d = Inr ((out, c, p, ch, s), d')" and "tbl_get at_id a (attempts_t d) = Some row"
  shows "cp_logical_offset (im_checkpoint out) = at_end_offset row" "p = at_parent_digest row" "s = at_run_segment_id row"
  using assms
  by (auto simp: replay_ack_tx_def Let_def tx_simps sending_attempt_read running_job_read incident_matches_def split: option.splits
      dest!: next_checkpoint_offset)

lemma settle_ack_offset:
  assumes "settle_ack hash io clock a r = (Inr out, r')" and "tbl_get at_id a (attempts_t (rp_db r)) = Some row"
    and "permit_for row (rp_permits r)"
  shows "cp_logical_offset (im_checkpoint out) = at_end_offset row"
proof -
  have "run_settled io clock (at_job_id row) (ack_tx hash a (at_job_id row)) r = (Inr out, r') \<or>
      run_settled io clock (at_job_id row) (replay_ack_tx hash a (at_job_id row)) r = (Inr out, r')"
    using assms(1,2) by (auto simp: settle_ack_def settle_replay_ack_def with_attempt_job_def attempt_job_def split: sum.splits if_splits)
  then show ?thesis
  proof
    assume r: "run_settled io clock (at_job_id row) (ack_tx hash a (at_job_id row)) r = (Inr out, r')"
    show ?thesis
      by (rule run_settled_out [where P = "\<lambda>out. cp_logical_offset (im_checkpoint out) = at_end_offset row", OF r assms(3) refl])
        (blast dest: ack_tx_out [OF _ assms(2)])+
  next
    assume r: "run_settled io clock (at_job_id row) (replay_ack_tx hash a (at_job_id row)) r = (Inr out, r')"
    show ?thesis
      by (rule run_settled_out [where P = "\<lambda>out. cp_logical_offset (im_checkpoint out) = at_end_offset row", OF r assms(3) refl])
        (blast dest: replay_ack_tx_out [OF _ assms(2)])+
  qed
qed

lemma same_offset_lemmas:
  "record_incident_tx a n k i t w d = Inr (out, d') \<Longrightarrow> \<exists>job. get_import i d = Inr job \<and> im_checkpoint out = im_checkpoint job"
  "rejected_tx a i t w d = Inr (out, d') \<Longrightarrow> \<exists>job. get_import i d = Inr job \<and> im_checkpoint out = im_checkpoint job"
  "replay_too_large_tx a i t w d = Inr (out, d') \<Longrightarrow> \<exists>job. get_import i d = Inr job \<and> im_checkpoint out = im_checkpoint job"
  "finish_import_tx req size_text ps t w d = Inr ((out, b), d') \<Longrightarrow> \<exists>job. get_import (fi_job_id req) d = Inr job \<and> im_checkpoint out = im_checkpoint job"
  by (auto simp: record_incident_tx_def rejected_tx_def replay_too_large_tx_def finish_import_tx_def attempt_with_segment_tx_def
      Let_def tx_simps sending_attempt_read running_job_read get_import_iff stopped_out_def split: if_splits)

lemma too_large_tx_out:
  assumes "too_large_tx hash a i t n d = Inr ((out, c, p, ch, s), d')" and "tbl_get at_id a (attempts_t d) = Some row"
  shows "\<exists>job. get_import i d = Inr job \<and> cp_logical_offset (im_checkpoint out) = cp_logical_offset (im_checkpoint job)"
    "p = at_parent_digest row" "s = at_run_segment_id row"
  using assms
  by (auto simp: too_large_tx_def Let_def tx_simps sending_attempt_read running_job_read segment_row_tx_def cancel_too_large_tx_def
      fail_single_point_tx_def stopped_out_def reduced_checkpoint_def rbind_Inr_iff split: if_splits dest!: next_checkpoint_offset)


lemma with_attempt_revoking:
  assumes "with_attempt_job a (\<lambda>i. run_revoking io t w i (tx i)) r = (Inr out, r')" and "tbl_get at_id a (attempts_t (rp_db r)) = Some row"
  shows "\<exists>d'. tx (at_job_id row) t w (rp_db r) = Inr (out, d')"
  using assms
  by (auto simp: with_attempt_job_def attempt_job_def run_revoking_def with_immediate_def split: prod.splits sum.splits if_splits)

text \<open>What a settlement says of the job: \<open>same\<close> checkpoint offset as before, or the end of the batch.\<close>

lemma settle_too_large_offset:
  assumes "settle_too_large hash io clock a r = (Inr out, r')" and "tbl_get at_id a (attempts_t (rp_db r)) = Some row"
    and "permit_for row (rp_permits r)"
  shows "\<exists>job. get_import (at_job_id row) (rp_db r) = Inr job \<and> cp_logical_offset (im_checkpoint out) = cp_logical_offset (im_checkpoint job)"
proof -
  have "run_settled io clock (at_job_id row) (too_large_tx hash a (at_job_id row)) r = (Inr out, r') \<or>
      with_attempt_job a (\<lambda>i. run_revoking (io 0) (clock 0) (clock 1) i (replay_too_large_tx a i)) r = (Inr out, r')"
    using assms(1,2) by (auto simp: settle_too_large_def settle_normal_too_large_def settle_replay_too_large_def with_attempt_job_def
        attempt_job_def split: sum.splits if_splits)
  then show ?thesis
  proof
    assume r: "run_settled io clock (at_job_id row) (too_large_tx hash a (at_job_id row)) r = (Inr out, r')"
    show ?thesis
      by (rule run_settled_out [where P = "\<lambda>out. \<exists>job. get_import (at_job_id row) (rp_db r) = Inr job \<and>
          cp_logical_offset (im_checkpoint out) = cp_logical_offset (im_checkpoint job)", OF r assms(3) refl])
        (blast dest: too_large_tx_out [OF _ assms(2)])+
  next
    assume "with_attempt_job a (\<lambda>i. run_revoking (io 0) (clock 0) (clock 1) i (replay_too_large_tx a i)) r = (Inr out, r')"
    from with_attempt_revoking [OF this assms(2)] show ?thesis using same_offset_lemmas(3) by metis
  qed
qed

lemma settle_rejected_offset:
  assumes "settle_rejected io t w a r = (Inr out, r')" and "tbl_get at_id a (attempts_t (rp_db r)) = Some row"
  shows "\<exists>job. get_import (at_job_id row) (rp_db r) = Inr job \<and> im_checkpoint out = im_checkpoint job"
  using with_attempt_revoking [OF assms(1) [unfolded settle_rejected_def] assms(2)] same_offset_lemmas(2) by metis

lemma record_incident_offset:
  assumes "record_incident io t w a n kind r = (Inr out, r')" and "tbl_get at_id a (attempts_t (rp_db r)) = Some row"
  shows "\<exists>job. get_import (at_job_id row) (rp_db r) = Inr job \<and> im_checkpoint out = im_checkpoint job"
proof -
  have "with_attempt_job a (\<lambda>i. run_revoking io t w i (record_incident_tx a n kind i)) r = (Inr out, r')"
    using assms(1) by (auto simp: record_incident_def split: if_splits)
  from with_attempt_revoking [OF this assms(2)] show ?thesis using same_offset_lemmas(1) by metis
qed

lemma finish_import_offset:
  assumes "finish_import io t w req r = (Inr (out, b), r')"
  shows "\<exists>job. get_import (fi_job_id req) (rp_db r) = Inr job \<and> im_checkpoint out = im_checkpoint job"
  using assms same_offset_lemmas(4) [of req _ _ t w "rp_db r" out b]
  by (auto simp: finish_import_def with_immediate_def split: sum.splits prod.splits if_splits)

lemma attempt_permit_facts:
  assumes "attempt_permit az req ps = Inr p"
  shows "ps (ar_job_id req) = Some p \<and> pm_run_segment_id p = ar_run_segment_id req \<and> pm_checkpoint_digest p = ar_parent_digest req"
  using assms by (auto simp: attempt_permit_def split: option.splits if_splits)

lemma begin_attempt_effect:
  assumes "begin_attempt env az entries req rt y = (Inr u, y')"
  shows "tbl_get at_id (ar_attempt_id req) (attempts_t (au_db y')) = Some (attempt_of req (ae_clock env 2))"
    and "permit_for (attempt_of req (ae_clock env 2)) (au_permits y')" and "au_permits y' = au_permits y"
    and "get_import i (au_db y') = get_import i (au_db y)" and "rt = Inr ()"
proof -
  obtain p m where p: "attempt_permit az req (au_permits y) = Inr p"
    and b: "begin_mutation_dispatch (ae_io env 0) (ae_clock env) (permit_binding p)
      (begin_attempt_locked (ae_io env 1) (ae_clock env 2) req (az_profile_id az) p (au_permits y)) (Pair rt) (au_manager y) = (Inr (), m)"
    and y': "y' = y\<lparr>au_manager := m\<rparr>"
    using assms by (auto simp: begin_attempt_def split: sum.splits prod.splits)
  have c: "dispatch_callbacks (begin_attempt_locked (ae_io env 1) (ae_clock env 2) req (az_profile_id az) p (au_permits y)) (Pair rt)
      (au_db y) = (Inr (), mg_db m)"
    using b by (auto simp: begin_mutation_dispatch_def with_authorized_gate_def split: sum.splits prod.splits
        dest!: authorized_callback_same_db)
  then obtain start where t: "begin_attempt_tx req start (az_profile_id az) p (ae_clock env 2) (au_db y) = Inr ((), mg_db m)"
    and rt: "rt = Inr ()"
    by (auto simp: dispatch_callbacks_def begin_attempt_locked_def with_immediate_def split: sum.splits prod.splits if_splits)
  show "tbl_get at_id (ar_attempt_id req) (attempts_t (au_db y')) = Some (attempt_of req (ae_clock env 2))"
    using begin_attempt_tx_effect(1) [OF t] by (simp add: y')
  show "get_import i (au_db y') = get_import i (au_db y)"
    using begin_attempt_tx_effect(2) [OF t, of i] by (simp add: y' get_import_def split: sum.splits prod.splits)
  show "permit_for (attempt_of req (ae_clock env 2)) (au_permits y')" "au_permits y' = au_permits y"
    using attempt_permit_facts [OF p] by (auto simp: permit_for_def attempt_of_def y')
  show "rt = Inr ()" by (rule rt)
qed


text \<open>The task after an acknowledgement is the one in the answer.\<close>

lemma get_import_task: "get_import i d = Inr job \<Longrightarrow> tbl_get t_id i (tasks_t d) = Some (im_task job) \<and> t_id (im_task job) = i"
  by (auto simp: get_import_def get_import_in_tx_def tx_simps get_in_tx_def split: sum.splits option.splits dest: tbl_get_SomeD)

lemma apply_stores_state:
  assumes "apply_in_tx t cur ch d = Inr (m, d')" and "tbl_get t_id i (tasks_t d) = Some cur" and "t_id cur = i"
  shows "\<exists>z. tbl_get t_id i (tasks_t d') = Some z \<and> t_state z = t_state m \<and> t_id m = i"
  using assms
  by (auto simp: apply_in_tx_def append_event_in_tx_def ins_task_event_def Let_def tx_simps table_simps changed_meta_def write_meta_def
      tbl_get_upd [where key = t_id] split: if_splits sum.splits)

lemma ack_stores_state:
  assumes "ack_tx hash a i t n d = Inr ((out, c), d')"
  shows "\<exists>z. tbl_get t_id i (tasks_t d') = Some z \<and> t_state z = t_state (im_task out) \<and> t_id (im_task out) = i"
  using assms
  by (auto simp: ack_tx_def Let_def tx_simps running_job_read sending_attempt_read segment_row_tx_def one_row_def insert_checkpoint_def
      insert_transition_def upd_attempt_def upd_segment_def upd_job_def settle_segment_tx_def settle_job_tx_def set_transfer_state_def
      split: if_splits dest!: get_import_task) (erule apply_stores_state; simp)+

lemma same_tasks:
  "insert_checkpoint i child next now d = Inr (u, d') \<Longrightarrow> tasks_t d' = tasks_t d"
  "insert_transition tr d = Inr (u, d') \<Longrightarrow> tasks_t d' = tasks_t d"
  "one_row (upd_attempt P fa) e d = Inr (u, d') \<Longrightarrow> tasks_t d' = tasks_t d"
  "one_row (upd_incident Q fi) e d = Inr (u, d') \<Longrightarrow> tasks_t d' = tasks_t d"
  "settle_segment_tx i segment parent a fs d = Inr (u, d') \<Longrightarrow> tasks_t d' = tasks_t d"
  "settle_job_tx i parent segment fj d = Inr (u, d') \<Longrightarrow> tasks_t d' = tasks_t d"
  "set_transfer_state i state now d = Inr (n, d') \<Longrightarrow> tasks_t d' = tasks_t d"
  "tx_require p e d = Inr (u, d') \<Longrightarrow> d' = d"
  "tx_lift v d = Inr (x, d') \<Longrightarrow> d' = d"
  "tx_return x d = Inr (y, d') \<Longrightarrow> y = x \<and> d' = d"
  "replay_segment_tx i segment d = Inr (s, d') \<Longrightarrow> d' = d"
  by (auto simp: insert_checkpoint_def insert_transition_def one_row_def upd_attempt_def upd_incident_def settle_segment_tx_def
      settle_job_tx_def set_transfer_state_def upd_segment_def upd_job_def replay_segment_tx_def tx_simps split: if_splits sum.splits)

lemma replay_ack_stores_state:
  assumes "replay_ack_tx hash a i t n d = Inr ((out, c), d')"
  shows "\<exists>z. tbl_get t_id i (tasks_t d') = Some z \<and> t_state z = t_state (im_task out) \<and> t_id (im_task out) = i"
  using assms unfolding replay_ack_tx_def Let_def tx_bind_Inr
  apply (elim exE)
  apply (elim conjE exE)
  apply (drule same_tasks | erule conjE)+
  apply (simp add: running_job_read sending_attempt_read)
  apply (elim conjE)
  apply (drule get_import_task)
  apply (drule apply_stores_state [where i = i])
  apply simp_all
  done

text \<open>\<open>run_settled\<close> with the permit at the parent: the transaction committed, or nothing happened.\<close>

lemma run_settled_cases:
  assumes "run_settled io clock i tx r = (res, r')" and "permit_for row (rp_permits r)" and "at_job_id row = i"
    and "\<And>o' c p ch s d'. tx (clock 0) (clock 1) (rp_db r) = Inr ((o', c, p, ch, s), d') \<Longrightarrow> p = at_parent_digest row \<and> s = at_run_segment_id row"
  shows "(\<exists>e. res = Inl e \<and> r' = r) \<or> (\<exists>out c. res = Inr out \<and> tx (clock 0) (clock 1) (rp_db r) = Inr ((out, c), rp_db r'))"
proof (cases rule: with_immediate_cases [of "io 0" "tx (clock 0) (clock 1)" "rp_db r"])
  case (committed a d')
  obtain o' c p ch s where a: "a = (o', c, p, ch, s)" by (cases a) auto
  then have "p = at_parent_digest row \<and> s = at_run_segment_id row" using assms(4) committed(2) by blast
  then show ?thesis
    using assms(1,2,3) committed(2,3) a by (cases c) (auto simp: run_settled_def after_settle_def permit_cas_def permit_for_def)
next
  case (rolled_back e)
  then show ?thesis using assms(1) by (auto simp: run_settled_def after_settle_def)
qed

lemma settle_ack_cases:
  assumes "settle_ack hash io clock a r = (res, r')" and "tbl_get at_id a (attempts_t (rp_db r)) = Some row"
    and "permit_for row (rp_permits r)"
  shows "(\<exists>e. res = Inl e \<and> r' = r) \<or>
    (\<exists>out z. res = Inr out \<and> tbl_get t_id (at_job_id row) (tasks_t (rp_db r')) = Some z \<and> t_state z = t_state (im_task out) \<and>
       t_id (im_task out) = at_job_id row)"
proof -
  have "(\<exists>e. res = Inl e \<and> r' = r) \<or>
      run_settled io clock (at_job_id row) (ack_tx hash a (at_job_id row)) r = (res, r') \<or>
      run_settled io clock (at_job_id row) (replay_ack_tx hash a (at_job_id row)) r = (res, r')"
    using assms(1,2) by (auto simp: settle_ack_def settle_replay_ack_def with_attempt_job_def attempt_job_def split: sum.splits if_splits)
  moreover have ?thesis if r: "run_settled io clock (at_job_id row) (ack_tx hash a (at_job_id row)) r = (res, r')"
    using run_settled_cases [OF r assms(3) refl] ack_tx_out [OF _ assms(2)] ack_stores_state by metis
  moreover have ?thesis if r: "run_settled io clock (at_job_id row) (replay_ack_tx hash a (at_job_id row)) r = (res, r')"
    using run_settled_cases [OF r assms(3) refl] replay_ack_tx_out [OF _ assms(2)] replay_ack_stores_state by metis
  ultimately show ?thesis by blast
qed

lemma finish_import_running:
  assumes "finish_import io t w req r = (Inr (out, b), r')" and "tbl_get t_id (fi_job_id req) (tasks_t (rp_db r)) = Some z"
    and "t_state z \<noteq> ImportSucceeded"
  shows "\<exists>l. transfer_canonical_decimal (fi_staging_logical_size req) = Inr l \<and> cp_logical_offset (im_checkpoint out) = l"
proof -
  obtain l where l: "transfer_canonical_decimal (fi_staging_logical_size req) = Inr l"
    "finish_import_tx req l (rp_permits r) t w (rp_db r) = Inr ((out, b), rp_db r')"
    using assms(1) by (auto simp: finish_import_def with_immediate_Inr split: sum.splits prod.splits if_splits)
  moreover have "cp_logical_offset (im_checkpoint out) = l"
    using l(2) assms(2,3) by (auto simp: finish_import_tx_def Let_def tx_simps get_import_iff stopped_out_def split: if_splits dest: get_import_task)
  ultimately show ?thesis by blast
qed

section \<open>What a run reports\<close>

lemma on_repo_run:
  assumes "on_repo f y = (a, y')"
  shows "f \<lparr>rp_db = au_db y, rp_permits = au_permits y\<rparr> = (a, \<lparr>rp_db = au_db y', rp_permits = au_permits y'\<rparr>) \<and>
    y' = y\<lparr>au_manager := (au_manager y)\<lparr>mg_db := au_db y'\<rparr>, au_permits := au_permits y'\<rparr>"
  using assms by (cases "f \<lparr>rp_db = au_db y, rp_permits = au_permits y\<rparr>") (auto simp: on_repo_def)

lemma on_repo_same: "on_repo f y = (a, y') \<Longrightarrow> f \<lparr>rp_db = au_db y, rp_permits = au_permits y\<rparr> = (a, r) \<Longrightarrow>
  r = \<lparr>rp_db = au_db y, rp_permits = au_permits y\<rparr> \<Longrightarrow> y' = y"
  by (auto simp: on_repo_def)

lemma canonical_format: "transfer_canonical_decimal (format_int n) = Inr l \<Longrightarrow> l = format_int n"
  using big_set_format [of n]
  by (auto simp: transfer_canonical_decimal_def canonical_big_def format_int_def [symmetric] split: option.splits if_splits)
    (simp add: format_int_def)?

lemma record_run_incident_offset:
  assumes "record_run_incident env base a kind cause y = ((rs, err), y')" and "rs_job rs = Some job'"
    and "tbl_get at_id a (attempts_t (au_db y)) = Some row"
  shows "\<exists>job. get_import (at_job_id row) (au_db y) = Inr job \<and> im_checkpoint job' = im_checkpoint job"
  using assms
  by (auto simp: record_run_incident_def failed_run_def empty_run_result_def split: sum.splits prod.splits
      dest!: on_repo_run record_incident_offset)

text \<open>The offset of a run: the one before, or the end of the batch after an acknowledgement.\<close>

lemma settle_acked_offset:
  assumes "settle_acked env base req b y = ((rs, err), y')" and "rs_job rs = Some job'"
    and "tbl_get at_id (ar_attempt_id req) (attempts_t (au_db y)) = Some row" and "permit_for row (au_permits y)"
    and "at_end_offset row = format_int (sb_end_offset b)" and "get_import (at_job_id row) (au_db y) = Inr job"
  shows "cp_logical_offset (im_checkpoint job') = cp_logical_offset (im_checkpoint job) \<or>
    cp_logical_offset (im_checkpoint job') = format_int (sb_end_offset b)"
proof -
  obtain res y1 where run: "on_repo (settle_ack (ae_hash (wk_auth env)) (wk_io env) (wk_clock env) (ar_attempt_id req)) y = (res, y1)"
    by (metis prod.exhaust)
  note r = on_repo_run [OF run]
  note cases = settle_ack_cases [of _ _ _ _ "\<lparr>rp_db = au_db y, rp_permits = au_permits y\<rparr>", OF conjunct1 [OF r]]
  show ?thesis
  proof (cases res)
    case (Inl e)
    then have "y1 = y" using cases [of row] assms(3,4) on_repo_same [OF run conjunct1 [OF r]] by auto
    then have "record_run_incident env base (ar_attempt_id req) ''UNKNOWN'' (Some e) y = ((rs, err), y')"
      using assms(1) run Inl by (simp add: settle_acked_def)
    from record_run_incident_offset [OF this assms(2,3)] show ?thesis using assms(6) by auto
  next
    case (Inr out)
    have o: "cp_logical_offset (im_checkpoint out) = format_int (sb_end_offset b)"
      using settle_ack_offset [of _ _ _ _ "\<lparr>rp_db = au_db y, rp_permits = au_permits y\<rparr>"] r Inr assms(3,4,5) by auto
    obtain z where z: "tbl_get t_id (at_job_id row) (tasks_t (au_db y1)) = Some z" "t_state z = t_state (im_task out)"
      "t_id (im_task out) = at_job_id row"
      using cases [of row] assms(3,4) Inr by auto
    show ?thesis
    proof (cases "t_state (im_task out) = ImportRunning \<and> sb_end_offset b = sb_staging_size b")
      case False
      then have "job' = out" using assms(1,2) run Inr by (auto simp: settle_acked_def Let_def)
      then show ?thesis using o by simp
    next
      case True
      let ?fin = "finish_import (wk_io env 5) (wk_clock env 6) (wk_clock env 7) (finish_request out (ar_run_segment_id req) (sb_staging_size b))"
      obtain fin y2 where f: "on_repo ?fin y1 = (fin, y2)" by (metis prod.exhaust)
      show ?thesis
      proof (cases fin)
        case (Inl e)
        then have "job' = out" using assms(1,2) run \<open>res = Inr out\<close> True f by (auto simp: settle_acked_def Let_def)
        then show ?thesis using o by simp
      next
        case (Inr v)
        then obtain w where v: "v = (job', w)"
          using assms(1,2) run \<open>res = Inr out\<close> True f by (cases v) (auto simp: settle_acked_def Let_def)
        have "cp_logical_offset (im_checkpoint job') = format_int (sb_staging_size b)"
          using finish_import_running [OF conjunct1 [OF on_repo_run [OF f, unfolded Inr v]], of z] z True canonical_format
          by (auto simp: finish_request_def)
        then show ?thesis using True by simp
      qed
    qed
  qed
qed

definition acknowledged :: "worker_env \<Rightarrow> round_trip \<Rightarrow> bool" where
  "acknowledged env rt \<longleftrightarrow> rt_begin rt = Inr () \<and> rt_attempt rt \<and>
     (case rt_wait rt of
        Inr (Some a) \<Rightarrow> (case read_and_close_response (Some a) of
          Inr body \<Rightarrow> classify_answer (wk_decode_json env) (wk_success env) (Some a) body = OutcomeACKED | Inl _ \<Rightarrow> False)
      | _ \<Rightarrow> False)"

lemma settle_plain_offset:
  assumes "settle_plain settle base out y = ((rs, err), y')" and "rs_job rs = Some job'"
    and "\<And>o' r'. settle \<lparr>rp_db = au_db y, rp_permits = au_permits y\<rparr> = (Inr o', r') \<Longrightarrow> P o'"
  shows "P job'"
  using assms by (auto simp: settle_plain_def failed_run_def empty_run_result_def split: sum.splits prod.splits dest!: on_repo_run)

lemma settle_answer_offset:
  assumes "settle_answer env base req b (rt_wait rt) y = ((rs, err), y')" and "rs_job rs = Some job'"
    and "rt_begin rt = Inr ()" and "rt_attempt rt"
    and "tbl_get at_id (ar_attempt_id req) (attempts_t (au_db y)) = Some row" and "permit_for row (au_permits y)"
    and "at_end_offset row = format_int (sb_end_offset b)" and "get_import (at_job_id row) (au_db y) = Inr job"
  shows "cp_logical_offset (im_checkpoint job') = cp_logical_offset (im_checkpoint job) \<or>
    acknowledged env rt \<and> cp_logical_offset (im_checkpoint job') = format_int (sb_end_offset b)"
proof (cases "acknowledged env rt")
  case True
  then obtain a body where "rt_wait rt = Inr (Some a)" "read_and_close_response (Some a) = Inr body"
    "classify_answer (wk_decode_json env) (wk_success env) (Some a) body = OutcomeACKED"
    by (auto simp: acknowledged_def split: sum.splits option.splits) (metis sum.exhaust)
  then have "settle_acked env base req b y = ((rs, err), y')" using assms(1) by (simp add: settle_answer_def)
  from settle_acked_offset [OF this assms(2,5-8)] True show ?thesis by blast
next
  case False
  consider kind cause where "record_run_incident env base (ar_attempt_id req) kind cause y = ((rs, err), y')"
    | "settle_plain (settle_too_large (ae_hash (wk_auth env)) (wk_io env) (wk_clock env) (ar_attempt_id req)) base OutcomeTooLarge y = ((rs, err), y')"
    | "settle_plain (settle_rejected (wk_io env 0) (wk_clock env 0) (wk_clock env 1) (ar_attempt_id req)) base OutcomeRejected y = ((rs, err), y')"
    using assms(1,3,4) False
    by (fastforce simp: settle_answer_def acknowledged_def read_and_close_response_def [of None] split: sum.splits option.splits outcome.splits)
  then show ?thesis
  proof cases
    case 1
    from record_run_incident_offset [OF this assms(2,5)] assms(8) show ?thesis by auto
  next
    case 2
    have "cp_logical_offset (im_checkpoint job') = cp_logical_offset (im_checkpoint job)"
      by (rule settle_plain_offset [OF 2 assms(2)]) (use assms(5,6,8) in \<open>auto dest!: settle_too_large_offset\<close>)
    then show ?thesis by blast
  next
    case 3
    have "cp_logical_offset (im_checkpoint job') = cp_logical_offset (im_checkpoint job)"
      by (rule settle_plain_offset [OF 3 assms(2)]) (use assms(5,8) in \<open>auto dest!: settle_rejected_offset\<close>)
    then show ?thesis by blast
  qed
qed

lemma send_batch_offset:
  assumes "send_batch env network job b y = ((rs, err), y')" and "rs_job rs = Some job'"
    and "get_import (t_id (im_task job)) (au_db y) = Inr job"
  shows "cp_logical_offset (im_checkpoint job') = cp_logical_offset (im_checkpoint job) \<or>
    acknowledged env (network (sb_payload b)) \<and> cp_logical_offset (im_checkpoint job') = format_int (sb_end_offset b)"
proof -
  let ?req = "worker_attempt env job b" and ?rt = "network (sb_payload b)"
  obtain y1 where b: "begin_attempt (wk_auth env) (wk_authorizer env) (wk_entries env) ?req (rt_begin ?rt) y = (Inr (), y1)"
    and run: "if \<not> rt_attempt ?rt then record_run_incident env (base_result ?req b) (ar_attempt_id ?req) ''UNKNOWN'' (Some ErrRoundTripNotStarted) y1 = ((rs, err), y')
      else settle_answer env (base_result ?req b) ?req b (rt_wait ?rt) y1 = ((rs, err), y')"
    using assms(1,2) by (auto simp: send_batch_def Let_def failed_run_def empty_run_result_def split: sum.splits prod.splits if_splits)
  note e = begin_attempt_effect [OF b]
  have ids: "ar_job_id ?req = t_id (im_task job)" "ar_end_offset ?req = format_int (sb_end_offset b)" by (simp_all add: worker_attempt_def)
  have g: "get_import (at_job_id (attempt_of ?req (ae_clock (wk_auth env) 2))) (au_db y1) = Inr job"
    using e(4) ids assms(3) by (simp add: attempt_of_def)
  have o: "at_end_offset (attempt_of ?req (ae_clock (wk_auth env) 2)) = format_int (sb_end_offset b)" using ids by (simp add: attempt_of_def)
  show ?thesis
  proof (cases "rt_attempt ?rt")
    case True
    with run have "settle_answer env (base_result ?req b) ?req b (rt_wait ?rt) y1 = ((rs, err), y')" by simp
    from settle_answer_offset [OF this assms(2) e(5) True e(1,2) o g] show ?thesis .
  next
    case False
    with run have "record_run_incident env (base_result ?req b) (ar_attempt_id ?req) ''UNKNOWN'' (Some ErrRoundTripNotStarted) y1 = ((rs, err), y')" by simp
    from record_run_incident_offset [OF this assms(2) e(1)] g show ?thesis by auto
  qed
qed

section \<open>Properties\<close>


text \<open>C6.  Progress needs an acknowledgement: whatever \<open>RunNext\<close> reports of the job, its offset is the one before
  the call, unless a batch read from the verified file was sent, its answer was classified as an
  acknowledgement, and the offset is the end of that batch.\<close>

theorem progress_only_when_acknowledged:
  assumes "run_next env f network req y = ((rs, err), y')" and "rs_job rs = Some job'"
  shows "\<exists>job. get_import (rn_job_id req) (au_db y) = Inr job \<and>
    (cp_logical_offset (im_checkpoint job') = cp_logical_offset (im_checkpoint job) \<or>
     (\<exists>b. read_verified_batch (wk_sha256 env) (wk_ctx env) f job = Inr b \<and> sb_payload b \<noteq> [] \<and>
        acknowledged env (network (sb_payload b)) \<and>
        cp_logical_offset (im_checkpoint job') = format_int (sb_end_offset b)))"
proof -
  obtain job where job: "get_import (rn_job_id req) (au_db y) = Inr job"
    using assms by (auto simp: run_next_def failed_run_def empty_run_result_def split: sum.splits if_splits)
  have i: "t_id (im_task job) = rn_job_id req" using get_import_task [OF job] by simp
  consider "job' = job" | b where "read_verified_batch (wk_sha256 env) (wk_ctx env) f job = Inr b" "run_batch env network job b y = ((rs, err), y')"
    using assms job by (auto simp: run_next_def failed_run_def empty_run_result_def split: sum.splits if_splits)
  then show ?thesis
  proof cases
    case 1
    then show ?thesis using job by auto
  next
    case (2 b)
    show ?thesis
    proof (cases "sb_payload b = []")
      case True
      let ?fin = "finish_import (wk_io env 0) (wk_clock env 0) (wk_clock env 1) (finish_request job (the (im_active job)) (sb_staging_size b))"
      obtain w y1 where "on_repo ?fin y = (Inr (job', w), y1)"
        using 2(2) True assms(2) by (auto simp: run_batch_def failed_run_def empty_run_result_def split: sum.splits prod.splits if_splits)
      then have "im_checkpoint job' = im_checkpoint job"
        using job i by (auto simp: finish_request_def dest!: on_repo_run finish_import_offset)
      then show ?thesis using job by auto
    next
      case False
      then have "send_batch env network job b y = ((rs, err), y')" using 2(2) by (simp add: run_batch_def)
      from send_batch_offset [OF this assms(2)] job i 2(1) False show ?thesis by auto
    qed
  qed
qed

text \<open>C12.  An answer acknowledges a batch exactly when its status is one of the contract's and below 400, a 204 has no body,
  and the body is empty or one JSON object in which, at any depth, every \<open>partial\<close> is \<open>false\<close> and every
  \<open>error\<close> is \<open>null\<close>.\<close>

theorem acknowledged_answer_iff:
  "classify_answer decode_json success (Some a) body = OutcomeACKED \<longleftrightarrow>
     ha_status a \<in> set success \<and> ha_status a < 400 \<and>
     (ha_status a = 204 \<longrightarrow> body = [] \<and> ha_content_length a \<le> 0) \<and>
     (body = [] \<or> (\<exists>ms. decode_json body = Some (JObject ms) \<and> list_all benign (members (JObject ms))))"
proof -
  let ?bi = "inspect_json_body decode_json body"
  have c: "clean ?bi \<longleftrightarrow> body = [] \<or> (\<exists>ms. decode_json body = Some (JObject ms) \<and> list_all benign (members (JObject ms)))"
    by (simp add: inspect_json_body_def inspect_clean del: members.simps inspect_value.simps split: option.splits json.splits)
  have "classify_answer decode_json success (Some a) body = OutcomeACKED \<longleftrightarrow>
     ha_status a \<in> set success \<and> ha_status a < 400 \<and> (ha_status a = 204 \<longrightarrow> body = [] \<and> ha_content_length a \<le> 0) \<and> clean ?bi"
    by (auto simp: classify_answer_def Let_def clean_def split: if_splits)
  then show ?thesis unfolding c .
qed

theorem acknowledged_answer_iff_witness:
  "classify_answer (\<lambda>_. Some (JObject [(''Error'', JNull)])) [204, 200]
     (Some \<lparr>ha_status = 200, ha_content_length = 14, ha_body = Some ''x'', ha_read_fails = False\<rparr>) ''x'' = OutcomeACKED"
proof -
  have "list_all benign (members (JObject [(''Error'', JNull)]))" by code_simp
  then show ?thesis unfolding acknowledged_answer_iff by simp
qed

section \<open>An example\<close>

text \<open>A job over three lines, two of them in the first batch.\<close>

definition demo_checkpoint :: checkpoint where
  "demo_checkpoint = trace_start_cp\<lparr>cp_logical_offset := ''0'', cp_adaptive_max_points := ''2'', cp_adaptive_max_bytes := ''64'',
     cp_staging_sha256 := replicate 64 (CHR ''0''), cp_target_digest := ''t''\<rparr>"

definition demo_create :: create_import_request where
  "demo_create = trace_create\<lparr>ci_initial_checkpoint := demo_checkpoint\<rparr>"

definition demo_worker_start :: auth_state where
  "demo_worker_start = \<lparr>au_manager = demo_unlocked\<lparr>mg_db := snd (create_import trace_hash True 0 0 0 demo_create (rp_db trace_empty))\<rparr>,
     au_grants = \<lparr>rg_records = [demo_grant\<lparr>gr_expires := 0, gr_consumed := False\<rparr>], rg_scopes = Map.empty\<rparr>,
     au_permits = Map.empty\<rparr>"

definition demo_worker_state :: auth_state where
  "demo_worker_state = snd (start_authorized demo_auth_env demo_authorizer demo_start demo_worker_start)"

definition demo_worker_env :: worker_env where
  "demo_worker_env = \<lparr>wk_auth = demo_auth_env, wk_authorizer = demo_authorizer, wk_entries = [], wk_sha256 = zero_sha256,
     wk_digest_target = (\<lambda>_ _. ''t''), wk_decode_json = (\<lambda>_. None), wk_success = [204], wk_ctx = None,
     wk_ids = (\<lambda>n. if n = 0 then ''a'' else if n = 1 then ''b'' else ''i''), wk_io = (\<lambda>_. True), wk_clock = (\<lambda>_. -1)\<rparr>"

definition demo_run_request :: run_next_request where
  "demo_run_request = \<lparr>rn_job_id = ''j'', rn_staging_path = ''f'', rn_target_digest = ''t'', rn_database = ''db'', rn_retention_policy = ''''\<rparr>"

definition demo_network :: "string \<Rightarrow> round_trip" where
  "demo_network payload = \<lparr>rt_begin = Inr (), rt_attempt = True,
     rt_wait = Inr (Some \<lparr>ha_status = 204, ha_content_length = 0, ha_body = Some '''', ha_read_fails = False\<rparr>)\<rparr>"

definition demo_run :: "worker_out \<times> auth_state" where
  "demo_run = run_next demo_worker_env (intact_file demo_lines) demo_network demo_run_request demo_worker_state"

lemma demo_run_eval:
  "(case demo_run of ((rs, err), y) \<Rightarrow>
      map_option (cp_logical_offset \<circ> im_checkpoint) (rs_job rs) = Some ''13'' \<and> rs_outcome rs = OutcomeACKED \<and> err = [])"
  by code_simp

text \<open>The job is at the end of its first two lines, and was at the start.\<close>

theorem progress_only_when_acknowledged_witness:
  "\<exists>job b. get_import ''j'' (au_db demo_worker_state) = Inr job \<and> cp_logical_offset (im_checkpoint job) = ''0'' \<and>
     read_verified_batch zero_sha256 None (intact_file demo_lines) job = Inr b \<and> format_int (sb_end_offset b) = ''13''"
proof -
  obtain rs err y' where run: "demo_run = ((rs, err), y')" by (metis prod.exhaust)
  then obtain job' where job': "rs_job rs = Some job'" "cp_logical_offset (im_checkpoint job') = ''13''"
    using demo_run_eval unfolding run by auto
  have start: "case get_import ''j'' (au_db demo_worker_state) of Inl _ \<Rightarrow> False | Inr job \<Rightarrow> cp_logical_offset (im_checkpoint job) = ''0''"
    by code_simp
  have env: "rn_job_id demo_run_request = ''j''" "wk_sha256 demo_worker_env = zero_sha256" "wk_ctx demo_worker_env = None"
    by (simp_all add: demo_run_request_def demo_worker_env_def)
  from progress_only_when_acknowledged [OF run [unfolded demo_run_def] job'(1)] start env job'(2) show ?thesis
    by (auto split: sum.splits)
qed




end
