(* ===== verification/Spec2Isabelle.thy ===== *)
theory Spec2Isabelle
  imports Tasks Read_Lanes Export_Lane Influxql_Policy Protection_Laws Operation_Laws
    Import_Laws Staging_Laws Quota Import_Authorizer_Laws Import_Worker_Laws
begin

text \<open>
  A verification library for the Go core of InfluxDesk, a desktop client of InfluxDB 1.x: a SQLite
  store, a registry of tasks, schedulers, write protection of connections, mutating commands, and the
  import of files, from staging to the last acknowledged batch.

  \<^bold>\<open>Layout.\<close>  A theory that models code names its files in its opening text; every Go function or method is
  a definition of the same name in snake case, its closure inside \<open>WithImmediate\<close> a definition ending
  in \<open>_tx\<close>.

  \<^item> \<open>Prelude\<close>, \<open>Decimal\<close>, \<open>Go_Text\<close>, \<open>Time_Text\<close>: errors, tables as lists of rows, exact decimals as
    text, the string functions and the timestamp text the packages share.
  \<^item> \<open>Store\<close> (\<open>internal/store\<close>): the tables, \<open>WithImmediate\<close> as an all-or-nothing state transformer, the
    migration loop, and the interface of a write-once ledger.
  \<^item> \<open>Tasks\<close> (\<open>internal/tasks\<close>): task rows, the gapless event log, the idempotency and command ledgers,
    recovery at start.
  \<^item> \<open>Read_Lanes\<close> (\<open>internal/scheduler\<close>), \<open>Export_Lane\<close> (\<open>internal/exportlane\<close>): the two schedulers, as
    step relations over any number of callers and goroutines.
  \<^item> \<open>Influxql_Policy\<close> (\<open>internal/influxql\<close>): the read-only allowlist.
  \<^item> \<open>Protection\<close>, \<open>Protection_Gate\<close>, \<open>Protection_System\<close>, \<open>Protection_Laws\<close> (\<open>internal/protection\<close>):
    leases, the gate of a generation, and mutations in flight.
  \<^item> \<open>Operation\<close>, \<open>Operation_System\<close>, \<open>Operation_Laws\<close> (\<open>internal/operation\<close>): preview, execution,
    dispatch and cancellation of a mutation; uses \<open>Tasks\<close>, \<open>Protection\<close> and \<open>Influxql_Policy\<close>.
  \<^item> \<open>Import\<close>, \<open>Import_Settle\<close>, \<open>Import_Control\<close> (\<open>internal/transfer\<close>): checkpoints, permits, runs, the
    settlement of attempts, decisions on incidents, cleanup and recovery; uses \<open>Tasks\<close>.
  \<^item> \<open>Import_Slice\<close>, \<open>Import_System\<close>, \<open>Import_Steps\<close>, \<open>Import_Commands\<close>, \<open>Import_Repo\<close>, \<open>Import_Laws\<close>: the
    database as one slice per import job; the invariant of a slice and its steps; every transaction as
    one such step, by a calculus of postconditions (\<open>post\<close>); the methods on the whole repository; the
    properties, among them the refinement of the journal of a job.

  \<^item> \<open>Go_Conv\<close>, \<open>Line_Protocol\<close>, \<open>Line_Export\<close>, \<open>Staging\<close>, \<open>Staging_Laws\<close> (\<open>internal/transfer/staging*.go\<close>,
    \<open>internal/exportfmt\<close>, \<open>internal/query/scalar.go\<close>): numbers as text and UTF-8; the parser and printer of
    canonical line protocol; the exporter's printer; the staging of a file; export followed by import.
  \<^item> \<open>Quota\<close> (\<open>internal/transfer/quota.go\<close>): the disk space that is promised before it is written.
  \<^item> \<open>Import_Grants\<close>, \<open>Import_Authorizer\<close>, \<open>Import_Authorizer_Laws\<close> (\<open>internal/transfer/grant.go\<close>,
    \<open>authorizer.go\<close>): the single-use grants a preview hands out, and the authorizer, which runs a command of
    the import engine under its grant and the gate of \<open>Protection\<close>; joins \<open>manager\<close>, \<open>registry\<close> and \<open>repo\<close>.
  \<^item> \<open>Import_Batch\<close>, \<open>Import_Worker\<close>, \<open>Import_Worker_Laws\<close> (\<open>internal/importworker\<close>): the batch that is cut
    from a verified file, and \<open>RunNext\<close>, which sends it and settles the answer; what it promises rests on the
    laws of the engine, the authorizer and the batch.

  \<^bold>\<open>State.\<close>  All components share \<open>db\<close>, one list of rows per SQLite table; a constraint of the schema is
  the guard of an \<open>INSERT\<close>.  What a component keeps in memory is a record of its own (\<open>scheduler\<close>,
  \<open>manager\<close>, \<open>op_service\<close>, \<open>repo\<close>).  A method that holds one mutex throughout is one function; one that
  waits or releases its lock in between is several, and a step relation (\<open>lanes_step\<close>, \<open>export_step\<close>,
  \<open>prot_step\<close>, \<open>op_step\<close>, \<open>imp_step\<close>) interleaves them.  Each step relation interprets the locale
  \<open>transition_system\<close>, which turns its one-step invariant into one of every reachable state.

  \<^bold>\<open>Environment.\<close>  Parameters of the definitions: clock readings, random tokens and ids, SHA-256 and JSON
  texts, the SQL driver's failures (\<open>io\<close>), the InfluxQL parser and printer, HTTP outcomes, the removal of
  files.  No property assumes anything of SHA-256 except where it says so.

  \<^bold>\<open>Bounds and fuel.\<close>  No loop runs on fuel except the bounded retry of \<open>WithGrantBinding\<close>, whose two turns
  are shown to be enough; revisions, sequence numbers and offsets are exact decimals, as in the program.
  Byte counts that the code adds in \<open>int64\<close> carry their wrap-around (\<open>wrap64\<close>, \<open>max_int64\<close>).

  \<^bold>\<open>Not modelled.\<close>  Foreign keys of the import tables other than the segment of an attempt (the code
  inserts the referenced rows first), \<open>replay_parent_incident_id\<close> (never written) and
  \<open>import_preflight_details\<close>; the text of the SQL migrations and the SQLite pragmas.  The staging of CSV, JSONL
  and gzip sources and the preflight, which are readers of files of the operating system; the durable export job
  with its worker and service (\<open>internal/exportjob\<close>, \<open>exportworker\<close>, \<open>exportservice\<close>), which have tables of their own
  and write files, and the CSV and JSONL encoders; the query sessions, the decoder of results, which
  reads the token stream of \<open>encoding/json\<close>, and the result store (\<open>internal/query\<close>); connections, profiles, the HTTP transport
  and TLS, key stores, the release manifest; the Wails bindings and the user interface.
\<close>

end
